(* ===== verification/Prelude.thy ===== *)
theory Prelude
  imports Complex_Main "HOL-Library.Char_ord" "HOL-Library.List_Lexorder" "HOL-Library.AList"
    "HOL-Library.Word" "HOL-Library.Multiset" "HOL-Library.Sublist"
begin

text \<open>
  Shared ground of the development: the part of the Go language and of its standard library
  that the product shell under \<^verbatim>\<open>src/cmd/semteams\<close> uses, and the generic lemmas the components
  share.

  A Go string is a byte list, \<^typ>\<open>string\<close> here. \<open>ToLower\<close>, \<open>ToUpper\<close> and \<open>TrimSpace\<close> are the
  package \<^verbatim>\<open>strings\<close> on ASCII text: bytes from 128 on are neither letters nor white space, so a
  multi-byte character passes through unchanged. The order of strings is the bytewise
  lexicographic order, as \<^verbatim>\<open>sort.Strings\<close> has it (\<open>List_Lexorder\<close> over \<open>Char_ord\<close>). A Go error
  is a value of an error datatype of the component, a \<^verbatim>\<open>(T, error)\<close> result a sum with \<open>Inl\<close> for
  the error, an \<^verbatim>\<open>error\<close> result an option with \<open>None\<close> for nil. A Go map whose iteration order
  is never observed is an association list with distinct keys, updated by \<open>AList.update\<close>.
\<close>

named_theorems go_str \<open>definitions of the string functions, for evaluation\<close>
named_theorems go_map \<open>rewrite rules for maps kept as association lists\<close>

section \<open>Bytes\<close>

definition byte_val :: "char \<Rightarrow> nat" where
  "byte_val c = of_char c"

definition is_space :: "char \<Rightarrow> bool" where
  "is_space c \<longleftrightarrow> byte_val c = 32 \<or> (9 \<le> byte_val c \<and> byte_val c \<le> 13)"

definition is_lower_alpha :: "char \<Rightarrow> bool" where
  "is_lower_alpha c \<longleftrightarrow> 97 \<le> byte_val c \<and> byte_val c \<le> 122"

definition is_upper_alpha :: "char \<Rightarrow> bool" where
  "is_upper_alpha c \<longleftrightarrow> 65 \<le> byte_val c \<and> byte_val c \<le> 90"

definition is_digit :: "char \<Rightarrow> bool" where
  "is_digit c \<longleftrightarrow> 48 \<le> byte_val c \<and> byte_val c \<le> 57"

definition lower_byte :: "char \<Rightarrow> char" where
  "lower_byte c = (if is_upper_alpha c then char_of (byte_val c + 32) else c)"

definition upper_byte :: "char \<Rightarrow> char" where
  "upper_byte c = (if is_lower_alpha c then char_of (byte_val c - 32) else c)"

lemmas byte_class_defs = is_space_def is_lower_alpha_def is_upper_alpha_def is_digit_def

declare byte_class_defs [go_str] lower_byte_def [go_str] upper_byte_def [go_str]

lemma byte_val_less [simp]: "byte_val c < 256"
  by (simp add: byte_val_def)

lemma byte_val_char_of [simp]: "n < 256 \<Longrightarrow> byte_val (char_of n) = n"
  by (simp add: byte_val_def)

lemma byte_val_inject: "byte_val c = byte_val d \<longleftrightarrow> c = d"
  by (simp add: byte_val_def)

lemma byte_val_lower:
  "byte_val (lower_byte c) = (if is_upper_alpha c then byte_val c + 32 else byte_val c)"
  by (simp add: lower_byte_def is_upper_alpha_def)

lemma lower_byte_idem [simp]: "lower_byte (lower_byte c) = lower_byte c"
  by (simp add: byte_val_inject [symmetric] byte_val_lower is_upper_alpha_def)

lemma is_space_lower [simp]: "is_space (lower_byte c) = is_space c"
  by (auto simp: byte_class_defs byte_val_lower)

lemma not_upper_lower [simp]: "\<not> is_upper_alpha (lower_byte c)"
  by (simp add: byte_val_lower is_upper_alpha_def)

lemma lower_byte_id: "\<not> is_upper_alpha c \<Longrightarrow> lower_byte c = c"
  by (simp add: lower_byte_def)

lemma is_digit_lower [simp]: "is_digit (lower_byte c) = is_digit c"
  by (auto simp: byte_class_defs byte_val_lower)

lemma lower_alpha_not_space: "is_lower_alpha c \<Longrightarrow> \<not> is_space c"
  by (simp add: byte_class_defs)

lemma digit_not_space: "is_digit c \<Longrightarrow> \<not> is_space c"
  by (simp add: byte_class_defs)

section \<open>Package strings\<close>

definition TrimSpace :: "string \<Rightarrow> string" where
  "TrimSpace s = rev (dropWhile is_space (rev (dropWhile is_space s)))"

definition ToLower :: "string \<Rightarrow> string" where
  "ToLower s = map lower_byte s"

definition ToUpper :: "string \<Rightarrow> string" where
  "ToUpper s = map upper_byte s"

definition HasPrefix :: "string \<Rightarrow> string \<Rightarrow> bool" where
  "HasPrefix s p \<longleftrightarrow> take (length p) s = p"

definition HasSuffix :: "string \<Rightarrow> string \<Rightarrow> bool" where
  "HasSuffix s p \<longleftrightarrow> length p \<le> length s \<and> drop (length s - length p) s = p"

definition TrimPrefix :: "string \<Rightarrow> string \<Rightarrow> string" where
  "TrimPrefix s p = (if HasPrefix s p then drop (length p) s else s)"

definition TrimSuffix :: "string \<Rightarrow> string \<Rightarrow> string" where
  "TrimSuffix s p = (if HasSuffix s p then take (length s - length p) s else s)"

definition TrimRightChar :: "string \<Rightarrow> char \<Rightarrow> string" where
  "TrimRightChar s c = rev (dropWhile (\<lambda>d. d = c) (rev s))"

definition TrimChar :: "string \<Rightarrow> char \<Rightarrow> string" where
  "TrimChar s c = TrimRightChar (dropWhile (\<lambda>d. d = c) s) c"

definition EqualFold :: "string \<Rightarrow> string \<Rightarrow> bool" where
  "EqualFold s t \<longleftrightarrow> ToLower s = ToLower t"

fun Contains :: "string \<Rightarrow> string \<Rightarrow> bool" where
  "Contains [] t = (t = [])"
| "Contains (c # s) t = (HasPrefix (c # s) t \<or> Contains s t)"

text \<open>\<^verbatim>\<open>strings.Cut\<close> at a separator of one byte.\<close>

definition CutAt :: "string \<Rightarrow> char \<Rightarrow> (string \<times> string) option" where
  "CutAt s c =
     (if c \<in> set s then Some (takeWhile (\<lambda>d. d \<noteq> c) s, drop (Suc (length (takeWhile (\<lambda>d. d \<noteq> c) s))) s) else None)"

fun Join :: "string list \<Rightarrow> string \<Rightarrow> string" where
  "Join [] sep = []"
| "Join [x] sep = x"
| "Join (x # y # ys) sep = x @ sep @ Join (y # ys) sep"

declare TrimSpace_def [go_str] ToLower_def [go_str] ToUpper_def [go_str] HasPrefix_def [go_str]
  HasSuffix_def [go_str] TrimPrefix_def [go_str] TrimSuffix_def [go_str]

lemma rev_dropWhile_fix:
  "dropWhile P (rev (dropWhile P (rev (dropWhile P xs)))) = rev (dropWhile P (rev (dropWhile P xs)))"
proof (cases "dropWhile P xs")
  case Nil
  show ?thesis unfolding Nil by simp
next
  case (Cons y ys)
  then have y: "\<not> P y" by (metis dropWhile_eq_Cons_conv)
  then have "dropWhile P (rev ys @ [y]) = dropWhile P (rev ys) @ [y]"
    by (simp add: dropWhile_append)
  with Cons y show ?thesis by simp
qed

lemma TrimSpace_idem [simp]: "TrimSpace (TrimSpace s) = TrimSpace s"
proof -
  have "dropWhile is_space (TrimSpace s) = TrimSpace s"
    unfolding TrimSpace_def by (rule rev_dropWhile_fix)
  moreover have "dropWhile is_space (rev (TrimSpace s)) = rev (TrimSpace s)"
    by (simp add: TrimSpace_def)
  ultimately show ?thesis by (metis TrimSpace_def rev_rev_ident)
qed

lemma TrimSpace_Nil [simp]: "TrimSpace [] = []"
  by (simp add: TrimSpace_def)

lemma ToLower_idem [simp]: "ToLower (ToLower s) = ToLower s"
  by (simp add: ToLower_def)

lemma ToLower_eq_Nil [simp]: "ToLower s = [] \<longleftrightarrow> s = []"
  by (simp add: ToLower_def)

lemma ToLower_append: "ToLower (s @ t) = ToLower s @ ToLower t"
  by (simp add: ToLower_def)

lemma ToLower_id: "(\<And>c. c \<in> set s \<Longrightarrow> \<not> is_upper_alpha c) \<Longrightarrow> ToLower s = s"
  by (simp add: ToLower_def lower_byte_id map_idI)

lemma TrimSpace_ToLower: "TrimSpace (ToLower s) = ToLower (TrimSpace s)"
proof -
  have drop: "dropWhile is_space (map lower_byte t) = map lower_byte (dropWhile is_space t)" for t
    by (simp add: dropWhile_map comp_def)
  show ?thesis by (simp add: TrimSpace_def ToLower_def rev_map drop)
qed

lemma TrimSpace_id:
  assumes "s \<noteq> [] \<Longrightarrow> \<not> is_space (hd s)" and "s \<noteq> [] \<Longrightarrow> \<not> is_space (last s)"
  shows "TrimSpace s = s"
proof (cases "s = []")
  case False
  have "dropWhile is_space s = s"
    using assms(1) False by (cases s) auto
  moreover have "dropWhile is_space (rev s) = rev s"
    using assms(2) False by (cases s rule: rev_cases) auto
  ultimately show ?thesis by (simp add: TrimSpace_def)
qed simp

lemma TrimSpace_no_space: "(\<And>c. c \<in> set s \<Longrightarrow> \<not> is_space c) \<Longrightarrow> TrimSpace s = s"
  by (rule TrimSpace_id) simp_all

lemma set_TrimSpace: "set (TrimSpace s) \<subseteq> set s"
  unfolding TrimSpace_def by (metis set_rev set_dropWhileD subset_iff)

lemma HasPrefix_iff: "HasPrefix s p \<longleftrightarrow> prefix p s"
  by (auto simp: HasPrefix_def prefix_def) (metis append_take_drop_id)

lemma HasPrefix_append [simp]: "HasPrefix (p @ s) p"
  by (simp add: HasPrefix_def)

lemma TrimPrefix_append [simp]: "TrimPrefix (p @ s) p = s"
  by (simp add: TrimPrefix_def)

lemma HasSuffix_append [simp]: "HasSuffix (s @ p) p"
  by (simp add: HasSuffix_def)

lemma HasSuffix_iff: "HasSuffix s p \<longleftrightarrow> suffix p s"
  by (auto simp: HasSuffix_def suffix_def) (metis append_take_drop_id)

lemma TrimSuffix_append [simp]: "TrimSuffix (s @ p) p = s"
  by (simp add: TrimSuffix_def)

lemma TrimSuffix_none: "\<not> HasSuffix s p \<Longrightarrow> TrimSuffix s p = s"
  by (simp add: TrimSuffix_def)

lemma Contains_iff: "Contains s t \<longleftrightarrow> sublist t s"
  by (induction s) (auto simp: HasPrefix_iff sublist_Cons_right)

lemma Join_map_Cons: "xs \<noteq> [] \<Longrightarrow> Join (x # xs) sep = x @ sep @ Join xs sep"
  by (cases xs) simp_all

lemma CutAt_append [simp]: "c \<notin> set a \<Longrightarrow> CutAt (a @ c # b) c = Some (a, b)"
proof -
  assume "c \<notin> set a"
  then have "takeWhile (\<lambda>d. d \<noteq> c) (a @ c # b) = a" by (subst takeWhile_append2) auto
  then show ?thesis by (simp add: CutAt_def)
qed

lemma CutAt_Some: "CutAt s c = Some (a, b) \<longleftrightarrow> s = a @ c # b \<and> c \<notin> set a"
proof
  assume cut: "CutAt s c = Some (a, b)"
  then have "c \<in> set s" by (auto simp: CutAt_def split: if_splits)
  then obtain x y where "s = x @ c # y" "c \<notin> set x" by (meson split_list_first)
  with cut show "s = a @ c # b \<and> c \<notin> set a" by simp
qed auto

section \<open>Lower kebab case\<close>

definition kebab_char :: "char \<Rightarrow> bool" where
  "kebab_char c \<longleftrightarrow> is_lower_alpha c \<or> is_digit c"

definition no_double_hyphen :: "string \<Rightarrow> bool" where
  "no_double_hyphen s \<longleftrightarrow> successively (\<lambda>x y. \<not> (x = CHR ''-'' \<and> y = CHR ''-'')) s"

definition lower_kebab :: "string \<Rightarrow> bool" where
  "lower_kebab s \<longleftrightarrow> s \<noteq> [] \<and> list_all (\<lambda>c. kebab_char c \<or> c = CHR ''-'') s \<and>
     hd s \<noteq> CHR ''-'' \<and> last s \<noteq> CHR ''-'' \<and> no_double_hyphen s"

lemma not_kebab_hyphen [simp]: "\<not> kebab_char CHR ''-''"
  by (simp add: kebab_char_def byte_class_defs byte_val_def)

lemma no_double_hyphen_rev: "no_double_hyphen (rev s) = no_double_hyphen s"
  unfolding no_double_hyphen_def successively_rev
  by (rule arg_cong [where f = "\<lambda>P. successively P s"]) (auto simp: fun_eq_iff)

lemma TrimRightChar_prefix: "prefix (TrimRightChar s c) s"
proof -
  have "suffix (dropWhile (\<lambda>d. d = c) (rev s)) (rev s)" by (rule suffix_dropWhile)
  then show ?thesis by (simp add: TrimRightChar_def suffix_to_prefix)
qed

lemma last_TrimRightChar: "TrimRightChar s c \<noteq> [] \<Longrightarrow> last (TrimRightChar s c) \<noteq> c"
  unfolding TrimRightChar_def by (metis (mono_tags) hd_dropWhile last_rev rev_is_Nil_conv)

lemma TrimRightChar_id: "s \<noteq> [] \<Longrightarrow> last s \<noteq> c \<Longrightarrow> TrimRightChar s c = s"
  unfolding TrimRightChar_def by (cases s rule: rev_cases) auto

section \<open>Package strconv: decimal and hexadecimal numerals, quoting\<close>

fun nat_str :: "nat \<Rightarrow> string" where
  "nat_str n = (if n < 10 then [char_of (48 + n)] else nat_str (n div 10) @ [char_of (48 + n mod 10)])"

declare nat_str.simps [simp del]

definition Itoa :: "int \<Rightarrow> string" where
  "Itoa i = (if i < 0 then CHR ''-'' # nat_str (nat (- i)) else nat_str (nat i))"

fun nat_of_digits :: "nat \<Rightarrow> string \<Rightarrow> nat" where
  "nat_of_digits acc [] = acc"
| "nat_of_digits acc (c # cs) = nat_of_digits (10 * acc + (byte_val c - 48)) cs"

lemma nat_of_digits_append: "nat_of_digits acc (s @ t) = nat_of_digits (nat_of_digits acc s) t"
  by (induction s arbitrary: acc) simp_all

lemma nat_of_digits_nat_str [simp]: "nat_of_digits 0 (nat_str n) = n"
proof (induction n rule: nat_str.induct)
  case (1 n)
  then show ?case
    by (subst nat_str.simps) (auto simp: nat_of_digits_append)
qed

lemma nat_str_digits: "c \<in> set (nat_str n) \<Longrightarrow> is_digit c"
proof (induction n rule: nat_str.induct)
  case (1 n)
  then show ?case
    by (subst (asm) (2) nat_str.simps) (auto simp: is_digit_def split: if_splits)
qed

lemma nat_str_neq_Nil [simp]: "nat_str n \<noteq> []"
  by (subst nat_str.simps) simp

lemma nat_str_inject [simp]: "nat_str m = nat_str n \<longleftrightarrow> m = n"
  by (metis nat_of_digits_nat_str)

lemma minus_not_digit: "\<not> is_digit CHR ''-''"
  by (simp add: is_digit_def byte_val_def)

lemma Itoa_inject [simp]: "Itoa i = Itoa j \<longleftrightarrow> i = j"
proof -
  have "nat_str n \<noteq> CHR ''-'' # s" for n s
    using nat_str_digits [of "CHR ''-''" n] minus_not_digit by (metis list.set_intros(1))
  then show ?thesis
    by (auto simp: Itoa_def) (metis)+
qed

text \<open>
  \<^verbatim>\<open>strconv.Atoi\<close> and \<^verbatim>\<open>strconv.ParseInt(s, 10, 64)\<close>: the value and whether there was no error. Text that is no
  numeral gives zero, a numeral out of range the nearest 64-bit value.
\<close>

definition clamp64 :: "int \<Rightarrow> int" where
  "clamp64 i = max (- (2 ^ 63)) (min (2 ^ 63 - 1) i)"

definition Atoi :: "string \<Rightarrow> int \<times> bool" where
  "Atoi s =
     (let (neg, ds) = (case s of c # cs \<Rightarrow> if c = CHR ''-'' then (True, cs)
                          else if c = CHR ''+'' then (False, cs) else (False, s)
                        | [] \<Rightarrow> (False, [])) in
      if ds = [] \<or> \<not> list_all is_digit ds then (0, False)
      else (let i = (if neg then - int (nat_of_digits 0 ds) else int (nat_of_digits 0 ds))
            in (clamp64 i, clamp64 i = i)))"

lemma Atoi_Itoa: "clamp64 i = i \<Longrightarrow> Atoi (Itoa i) = (i, True)"
proof -
  assume i: "clamp64 i = i"
  have d: "list_all is_digit (nat_str n)" for n using nat_str_digits [of _ n] by (simp add: list_all_iff)
  show ?thesis
  proof (cases "i < 0")
    case True
    then show ?thesis using d [of "nat (- i)"] i by (simp add: Atoi_def Itoa_def)
  next
    case False
    obtain c cs where c: "nat_str (nat i) = c # cs" by (cases "nat_str (nat i)") simp_all
    have "c \<noteq> CHR ''-''" "c \<noteq> CHR ''+''"
      using d [of "nat i"] c by (auto simp: is_digit_def byte_val_def)
    then show ?thesis using d [of "nat i"] i False nat_of_digits_nat_str [of "nat i"] unfolding Atoi_def Itoa_def c by simp
  qed
qed

definition hex_digit :: "nat \<Rightarrow> char" where
  "hex_digit n = (if n < 10 then char_of (48 + n) else char_of (87 + n))"

definition hex_byte :: "nat \<Rightarrow> string" where
  "hex_byte b = [hex_digit (b div 16), hex_digit (b mod 16)]"

definition quote_byte :: "char \<Rightarrow> string" where
  "quote_byte c = (let n = byte_val c in
     if n = 34 then [CHR 0x5C, CHR 0x22]
     else if n = 92 then [CHR 0x5C, CHR 0x5C]
     else if n = 7 then [CHR 0x5C, CHR ''a'']
     else if n = 8 then [CHR 0x5C, CHR ''b'']
     else if n = 12 then [CHR 0x5C, CHR ''f'']
     else if n = 10 then [CHR 0x5C, CHR ''n'']
     else if n = 13 then [CHR 0x5C, CHR ''r'']
     else if n = 9 then [CHR 0x5C, CHR ''t'']
     else if n = 11 then [CHR 0x5C, CHR ''v'']
     else if n < 32 \<or> n = 127 then [CHR 0x5C, CHR ''x''] @ hex_byte n
     else [c])"

text \<open>The verb \<^verbatim>\<open>%q\<close> of package fmt, on ASCII text.\<close>

definition quote_str :: "string \<Rightarrow> string" where
  "quote_str s = [CHR 0x22] @ concat (map quote_byte s) @ [CHR 0x22]"

section \<open>Loops over slices\<close>

text \<open>
  \<^verbatim>\<open>for i, x := range xs { if err := chk(i, x); err != nil { return err } }\<close>, counting from \<open>i\<close>.
\<close>

fun first_err :: "(nat \<Rightarrow> 'a \<Rightarrow> 'e option) \<Rightarrow> nat \<Rightarrow> 'a list \<Rightarrow> 'e option" where
  "first_err chk i [] = None"
| "first_err chk i (x # xs) =
     (case chk i x of Some e \<Rightarrow> Some e | None \<Rightarrow> first_err chk (Suc i) xs)"

text \<open>A run of checks, each of which returns its error: the first error met. \<open>fail_if\<close> is one \<^verbatim>\<open>if\<close> with a return.\<close>

fun first_some :: "'e option list \<Rightarrow> 'e option" where
  "first_some [] = None"
| "first_some (Some e # es) = Some e"
| "first_some (None # es) = first_some es"

definition fail_if :: "bool \<Rightarrow> 'e \<Rightarrow> 'e option" where
  "fail_if b e = (if b then Some e else None)"

lemma first_some_None: "first_some [] = None" "first_some (e # es) = None \<longleftrightarrow> e = None \<and> first_some es = None"
  by (cases e; simp)+

lemma first_some_all [simp]: "first_some es = None \<longleftrightarrow> (\<forall>e \<in> set es. e = None)"
  by (induction es) (simp_all add: first_some_None)

lemma fail_if_None [simp]: "fail_if b e = None \<longleftrightarrow> \<not> b"
  by (simp add: fail_if_def)

lemma fail_if_Some [simp]: "fail_if b e = Some e' \<longleftrightarrow> b \<and> e' = e"
  by (auto simp: fail_if_def)

text \<open>
  The contract of such a validation loop: when the check of one element is decided by a predicate
  of the element alone, the loop accepts exactly the slices all of whose elements satisfy it, and
  otherwise reports the first offender under its own index.
\<close>

locale element_check =
  fixes chk :: "nat \<Rightarrow> 'a \<Rightarrow> 'e option" and ok :: "'a \<Rightarrow> bool"
  assumes chk_None: "chk i x = None \<longleftrightarrow> ok x"
begin

lemma accepts_iff: "first_err chk i xs = None \<longleftrightarrow> (\<forall>x \<in> set xs. ok x)"
proof (induction xs arbitrary: i)
  case (Cons x xs)
  then show ?case by (cases "chk i x") (use chk_None [of i x] in auto)
qed simp

lemma reports_first:
  "list_all ok xs \<Longrightarrow> \<not> ok y \<Longrightarrow> first_err chk i (xs @ y # ys) = chk (i + length xs) y"
proof (induction xs arbitrary: i)
  case Nil
  then show ?case by (cases "chk i y") (auto simp: chk_None)
next
  case (Cons x xs)
  then have "chk i x = None" by (simp add: chk_None)
  with Cons show ?case by simp
qed

end

text \<open>
  The loop with a \<open>seen\<close> set that drops repeated elements and keeps first occurrences.
\<close>

fun keep_first :: "'a list \<Rightarrow> 'a list \<Rightarrow> 'a list" where
  "keep_first seen [] = []"
| "keep_first seen (x # xs) =
     (if x \<in> set seen then keep_first seen xs else x # keep_first (x # seen) xs)"

lemma set_keep_first: "set (keep_first seen xs) = set xs - set seen"
  by (induction xs arbitrary: seen) auto

lemma distinct_keep_first: "distinct (keep_first seen xs)"
  by (induction xs arbitrary: seen) (auto simp: set_keep_first)

lemma keep_first_id: "distinct xs \<Longrightarrow> set xs \<inter> set seen = {} \<Longrightarrow> keep_first seen xs = xs"
  by (induction xs arbitrary: seen) auto

lemma sort_keep_first: "sort (keep_first [] xs) = sorted_list_of_set (set xs)"
  by (metis Diff_empty distinct_keep_first list.set(1) set_keep_first
      sorted_list_of_set_sort_remdups distinct_remdups_id)

section \<open>Maps\<close>

abbreviation gm_put :: "'k \<Rightarrow> 'v \<Rightarrow> ('k \<times> 'v) list \<Rightarrow> ('k \<times> 'v) list" where
  "gm_put \<equiv> AList.update"

abbreviation gm_get :: "('k \<times> 'v) list \<Rightarrow> 'k \<Rightarrow> 'v option" where
  "gm_get \<equiv> map_of"

abbreviation gm_keys :: "('k \<times> 'v) list \<Rightarrow> 'k list" where
  "gm_keys \<equiv> map fst"

lemma gm_get_put [go_map]: "gm_get (gm_put k v m) k' = (if k' = k then Some v else gm_get m k')"
  by (simp add: update_conv')

lemma distinct_gm_put [go_map]: "distinct (gm_keys m) \<Longrightarrow> distinct (gm_keys (gm_put k v m))"
  by (rule distinct_update)

lemma set_gm_keys_put [go_map]: "set (gm_keys (gm_put k v m)) = insert k (set (gm_keys m))"
  by (induction m) auto

end
