(* ===== verification/Sha256.thy ===== *)
theory Sha256
  imports Prelude
begin

text \<open>
  Package \<^verbatim>\<open>crypto/sha256\<close> (FIPS 180-4) with \<^verbatim>\<open>hex.EncodeToString\<close>: the content addresses of sandbox
  requirements and attestations are hexadecimal SHA-256 digests. The digest is computed on
  32-bit words; additions wrap, as the standard requires.
\<close>

unbundle bit_operations_syntax

type_synonym u32 = "32 word"

text \<open>The round constants and the initial state of the standard, in decimal.\<close>

definition sha_k :: "u32 list" where
  "sha_k =
   [1116352408, 1899447441, 3049323471, 3921009573, 961987163, 1508970993, 2453635748, 2870763221,
    3624381080, 310598401, 607225278, 1426881987, 1925078388, 2162078206, 2614888103, 3248222580,
    3835390401, 4022224774, 264347078, 604807628, 770255983, 1249150122, 1555081692, 1996064986,
    2554220882, 2821834349, 2952996808, 3210313671, 3336571891, 3584528711, 113926993, 338241895,
    666307205, 773529912, 1294757372, 1396182291, 1695183700, 1986661051, 2177026350, 2456956037,
    2730485921, 2820302411, 3259730800, 3345764771, 3516065817, 3600352804, 4094571909, 275423344,
    430227734, 506948616, 659060556, 883997877, 958139571, 1322822218, 1537002063, 1747873779,
    1955562222, 2024104815, 2227730452, 2361852424, 2428436474, 2756734187, 3204031479, 3329325298]"

definition sha_init :: "u32 list" where
  "sha_init = [1779033703, 3144134277, 1013904242, 2773480762, 1359893119, 2600822924, 528734635, 1541459225]"

definition rotr :: "nat \<Rightarrow> u32 \<Rightarrow> u32" where
  "rotr n w = drop_bit n w OR push_bit (32 - n) w"

definition sig0 :: "u32 \<Rightarrow> u32" where
  "sig0 x = rotr 7 x XOR rotr 18 x XOR drop_bit 3 x"

definition sig1 :: "u32 \<Rightarrow> u32" where
  "sig1 x = rotr 17 x XOR rotr 19 x XOR drop_bit 10 x"

definition Sig0 :: "u32 \<Rightarrow> u32" where
  "Sig0 x = rotr 2 x XOR rotr 13 x XOR rotr 22 x"

definition Sig1 :: "u32 \<Rightarrow> u32" where
  "Sig1 x = rotr 6 x XOR rotr 11 x XOR rotr 25 x"

definition choose_bits :: "u32 \<Rightarrow> u32 \<Rightarrow> u32 \<Rightarrow> u32" where
  "choose_bits x y z = (x AND y) XOR (NOT x AND z)"

definition major_bits :: "u32 \<Rightarrow> u32 \<Rightarrow> u32 \<Rightarrow> u32" where
  "major_bits x y z = (x AND y) XOR (x AND z) XOR (y AND z)"

text \<open>The message schedule, latest word first: \<open>n\<close> more words on top of at least sixteen.\<close>

fun sha_schedule :: "nat \<Rightarrow> u32 list \<Rightarrow> u32 list" where
  "sha_schedule 0 ws = ws"
| "sha_schedule (Suc n) ws =
     sha_schedule n ((sig1 (ws ! 1) + ws ! 6 + sig0 (ws ! 14) + ws ! 15) # ws)"

fun sha_round :: "u32 list \<Rightarrow> u32 \<times> u32 \<Rightarrow> u32 list" where
  "sha_round [a, b, c, d, e, f, g, h] (k, w) =
     (let t1 = h + Sig1 e + choose_bits e f g + k + w; t2 = Sig0 a + major_bits a b c
      in [t1 + t2, a, b, c, d + t1, e, f, g])"
| "sha_round st kw = st"

definition sha_block :: "u32 list \<Rightarrow> u32 list \<Rightarrow> u32 list" where
  "sha_block st ws =
     map2 (+) st (foldl sha_round st (zip sha_k (rev (sha_schedule 48 (rev ws)))))"

fun be_words :: "u32 list \<Rightarrow> u32 list" where
  "be_words (a # b # c # d # xs) =
     (push_bit 24 a OR push_bit 16 b OR push_bit 8 c OR d) # be_words xs"
| "be_words _ = []"

definition sha_pad :: "u32 list \<Rightarrow> u32 list" where
  "sha_pad bs =
     (let bits = 8 * of_nat (length bs) :: 64 word
      in bs @ [128] @ replicate ((119 - length bs mod 64) mod 64) 0 @
         map (\<lambda>i. ucast (drop_bit (56 - 8 * i) bits) AND 255) [0..<8])"

function sha_blocks :: "u32 list \<Rightarrow> u32 list \<Rightarrow> u32 list" where
  "sha_blocks st ws = (if ws = [] then st else sha_blocks (sha_block st (take 16 ws)) (drop 16 ws))"
  by pat_completeness auto
termination
  by (relation "measure (\<lambda>(st, ws). length ws)") auto

declare sha_blocks.simps [simp del]

definition hex_word :: "u32 \<Rightarrow> string" where
  "hex_word w = map (\<lambda>i. hex_digit (unat (drop_bit (28 - 4 * i) w AND 15))) [0..<8]"

definition sha256_hex :: "string \<Rightarrow> string" where
  "sha256_hex s = concat (map hex_word (sha_blocks sha_init (be_words (sha_pad (map of_char s)))))"

subsection \<open>Digests are 64 hexadecimal digits\<close>

lemma length_sha_round: "length st = 8 \<Longrightarrow> length (sha_round st kw) = 8"
  by (cases "(st, kw)" rule: sha_round.cases) (auto simp: Let_def)

lemma length_sha_rounds: "length st = 8 \<Longrightarrow> length (foldl sha_round st kws) = 8"
  by (induction kws arbitrary: st) (auto simp: length_sha_round)

lemma length_sha_block: "length st = 8 \<Longrightarrow> length (sha_block st ws) = 8"
  by (simp add: sha_block_def length_sha_rounds)

lemma length_sha_blocks: "length st = 8 \<Longrightarrow> length (sha_blocks st ws) = 8"
proof (induction st ws rule: sha_blocks.induct)
  case (1 st ws)
  then show ?case
    by (subst sha_blocks.simps) (auto simp: length_sha_block)
qed

lemma length_hex_word: "length (hex_word w) = 8"
  by (simp add: hex_word_def)

lemma length_concat_const: "(\<And>x. x \<in> set xs \<Longrightarrow> length (f x) = n) \<Longrightarrow> length (concat (map f xs)) = n * length xs"
  by (induction xs) auto

lemma length_sha256_hex [simp]: "length (sha256_hex s) = 64"
  by (simp add: sha256_hex_def length_concat_const length_hex_word length_sha_blocks sha_init_def)

definition is_hex :: "char \<Rightarrow> bool" where
  "is_hex c \<longleftrightarrow> is_digit c \<or> (97 \<le> byte_val c \<and> byte_val c \<le> 102)"

lemma is_hex_digit: "n < 16 \<Longrightarrow> is_hex (hex_digit n)"
  by (auto simp: is_hex_def hex_digit_def is_digit_def)

lemma unat_nibble: "unat (w AND 15 :: u32) < 16"
proof -
  have "unat (w AND 15) \<le> unat (15 :: u32)"
    by (rule word_and_le1 [THEN word_le_nat_alt [THEN iffD1]])
  then show ?thesis by simp
qed

lemma sha256_hex_chars: "c \<in> set (sha256_hex s) \<Longrightarrow> is_hex c"
  by (auto simp: sha256_hex_def hex_word_def intro!: is_hex_digit unat_nibble)

end
