(* ===== verification/Go_Values.thy ===== *)
theory Go_Values
  imports Prelude
begin

text \<open>
  Values that cross the boundaries of the product shell: Go's \<^verbatim>\<open>any\<close> as JSON decoding and the
  framework's metadata maps produce it, \<^verbatim>\<open>time.Time\<close>, and the graph triple \<^verbatim>\<open>message.Triple\<close>
  that every component publishes.
\<close>

section \<open>Dynamic values\<close>

datatype any =
    AnyNil
  | AnyStr string
  | AnyBool bool
  | AnyInt int
  | AnyFloat rat
  | AnyNumber string
  | AnyStrs "string list"
  | AnyList "any list"
  | AnyMap "(string \<times> any) list"
  | AnyStrMap "(string \<times> string) list"

text \<open>Type assertions \<^verbatim>\<open>v, ok := x.(T)\<close> on a map entry that may be absent.\<close>

fun as_str :: "any option \<Rightarrow> string option" where
  "as_str (Some (AnyStr s)) = Some s"
| "as_str _ = None"

fun as_list :: "any option \<Rightarrow> any list option" where
  "as_list (Some (AnyList xs)) = Some xs"
| "as_list _ = None"

text \<open>The single-value form \<^verbatim>\<open>s, _ := x.(string)\<close>, which yields the zero value on a mismatch.\<close>

definition str_or_empty :: "any option \<Rightarrow> string" where
  "str_or_empty v = (case as_str v of Some s \<Rightarrow> s | None \<Rightarrow> [])"

lemma as_str_Some_iff [simp]: "as_str v = Some s \<longleftrightarrow> v = Some (AnyStr s)"
  by (cases v rule: as_str.cases) auto

lemma as_list_Some_iff [simp]: "as_list v = Some xs \<longleftrightarrow> v = Some (AnyList xs)"
  by (cases v rule: as_list.cases) auto

text \<open>The verb \<^verbatim>\<open>%T\<close>: the dynamic type's name, as the error messages print it.\<close>

fun type_name :: "any \<Rightarrow> string" where
  "type_name AnyNil = ''<nil>''"
| "type_name (AnyStr _) = ''string''"
| "type_name (AnyBool _) = ''bool''"
| "type_name (AnyInt _) = ''int''"
| "type_name (AnyFloat _) = ''float64''"
| "type_name (AnyNumber _) = ''json.Number''"
| "type_name (AnyStrs _) = ''[]string''"
| "type_name (AnyList _) = ''[]interface {}''"
| "type_name (AnyMap _) = ''map[string]interface {}''"
| "type_name (AnyStrMap _) = ''map[string]string''"

section \<open>Time\<close>

text \<open>
  An instant in nanoseconds since the zero time (1 January of year 1, UTC) and the offset of its
  location from UTC in seconds. A duration is a number of nanoseconds.
\<close>

record gotime =
  gt_ns :: int
  gt_off :: int

abbreviation second_ns :: int where
  "second_ns \<equiv> 1000000000"

definition mk_utc :: "int \<Rightarrow> gotime" where
  "mk_utc ns = \<lparr>gt_ns = ns, gt_off = 0\<rparr>"

definition time_IsZero :: "gotime \<Rightarrow> bool" where
  "time_IsZero t \<longleftrightarrow> gt_ns t = 0"

definition time_UTC :: "gotime \<Rightarrow> gotime" where
  "time_UTC t = t\<lparr>gt_off := 0\<rparr>"

definition time_Add :: "gotime \<Rightarrow> int \<Rightarrow> gotime" where
  "time_Add t d = t\<lparr>gt_ns := gt_ns t + d\<rparr>"

definition time_Before :: "gotime \<Rightarrow> gotime \<Rightarrow> bool" where
  "time_Before t u \<longleftrightarrow> gt_ns t < gt_ns u"

definition local_seconds :: "gotime \<Rightarrow> int" where
  "local_seconds t = gt_ns t div second_ns + gt_off t"

text \<open>Year, month and day of a day count in the proleptic Gregorian calendar.\<close>

definition civil :: "int \<Rightarrow> int \<times> int \<times> int" where
  "civil days =
     (let z = days + 306; era = z div 146097; doe = z mod 146097;
          yoe = (doe - doe div 1460 + doe div 36524 - doe div 146096) div 365;
          doy = doe - (365 * yoe + yoe div 4 - yoe div 100);
          mp = (5 * doy + 2) div 153;
          d = doy - (153 * mp + 2) div 5 + 1;
          m = (if mp < 10 then mp + 3 else mp - 9)
      in (yoe + era * 400 + (if m \<le> 2 then 1 else 0), m, d))"

definition pad_num :: "nat \<Rightarrow> int \<Rightarrow> string" where
  "pad_num w i = (let s = nat_str (nat i) in replicate (w - length s) CHR ''0'' @ s)"

definition format_date :: "gotime \<Rightarrow> string" where
  "format_date t =
     (case civil (local_seconds t div 86400) of (y, m, d) \<Rightarrow>
        pad_num 4 y @ ''-'' @ pad_num 2 m @ ''-'' @ pad_num 2 d)"

definition format_clock :: "gotime \<Rightarrow> string" where
  "format_clock t =
     (let s = local_seconds t mod 86400
      in pad_num 2 (s div 3600) @ '':'' @ pad_num 2 (s div 60 mod 60) @ '':'' @ pad_num 2 (s mod 60))"

definition format_zone :: "gotime \<Rightarrow> string" where
  "format_zone t =
     (if gt_off t = 0 then ''Z''
      else (let m = \<bar>gt_off t\<bar> div 60
            in (if gt_off t < 0 then ''-'' else ''+'') @ pad_num 2 (m div 60) @ '':'' @ pad_num 2 (m mod 60)))"

definition format_RFC3339 :: "gotime \<Rightarrow> string" where
  "format_RFC3339 t = format_date t @ ''T'' @ format_clock t @ format_zone t"

definition format_RFC3339Nano :: "gotime \<Rightarrow> string" where
  "format_RFC3339Nano t =
     (let frac = TrimRightChar (pad_num 9 (gt_ns t mod second_ns)) CHR ''0''
      in format_date t @ ''T'' @ format_clock t @ (if frac = [] then [] else ''.'' @ frac) @ format_zone t)"

lemma time_UTC_simps [simp]:
  "gt_ns (time_UTC t) = gt_ns t" "gt_off (time_UTC t) = 0" "time_UTC (time_UTC t) = time_UTC t"
  by (simp_all add: time_UTC_def)

lemma local_seconds_UTC: "local_seconds (time_UTC t) = gt_ns t div second_ns"
  by (simp add: local_seconds_def)

section \<open>Graph triples\<close>

record triple =
  Subject :: string
  Predicate :: string
  Object :: any
  Source :: string
  Timestamp :: gotime
  Confidence :: rat

text \<open>
  A publisher stores triples and may fail; the world it writes to is threaded explicitly. The
  fail-soft writer publishes one triple at a time, goes on after a failure and reports the first.
\<close>

type_synonym 'w publisher = "'w \<Rightarrow> triple list \<Rightarrow> string option \<times> 'w"

fun append_each :: "'w publisher \<Rightarrow> 'w \<Rightarrow> triple list \<Rightarrow> string option \<times> 'w" where
  "append_each pub w [] = (None, w)"
| "append_each pub w (t # ts) =
     (case pub w [t] of (e, w') \<Rightarrow>
        (case append_each pub w' ts of (e', w'') \<Rightarrow> ((case e of None \<Rightarrow> e' | Some x \<Rightarrow> Some x), w'')))"

text \<open>
  What the shell relies on from the framework's triple publisher, relative to an observation
  \<open>stored\<close> of the graph: a successful append adds exactly the given triples, a failed one none.
\<close>

definition faithful_publisher :: "'w publisher \<Rightarrow> ('w \<Rightarrow> triple list) \<Rightarrow> bool" where
  "faithful_publisher pub stored \<longleftrightarrow>
     (\<forall>w ts. stored (snd (pub w ts)) = stored w @ (if fst (pub w ts) = None then ts else []))"

definition reliable_publisher :: "'w publisher \<Rightarrow> bool" where
  "reliable_publisher pub \<longleftrightarrow> (\<forall>w ts. fst (pub w ts) = None)"

definition recording_publisher :: "triple list publisher" where
  "recording_publisher w ts = (None, w @ ts)"

lemma recording_publisher_faithful: "faithful_publisher recording_publisher id"
  by (simp add: faithful_publisher_def recording_publisher_def)

lemma recording_publisher_reliable: "reliable_publisher recording_publisher"
  by (simp add: reliable_publisher_def recording_publisher_def)

text \<open>
  The writer attempts every triple: whatever it reports, the graph gains a subsequence of the
  batch, and the whole batch when it reports no error.
\<close>

lemma append_each_stored:
  assumes "faithful_publisher pub stored"
  shows "\<exists>us. subseq us ts \<and> stored (snd (append_each pub w ts)) = stored w @ us \<and>
     (fst (append_each pub w ts) = None \<longleftrightarrow> us = ts)"
proof (induction ts arbitrary: w)
  case Nil
  show ?case by simp
next
  case (Cons t ts)
  obtain e w' where p: "pub w [t] = (e, w')" by fastforce
  have w': "stored w' = stored w @ (if e = None then [t] else [])"
    using assms p unfolding faithful_publisher_def by (metis fst_conv snd_conv)
  obtain us where us: "subseq us ts" "stored (snd (append_each pub w' ts)) = stored w' @ us"
    "fst (append_each pub w' ts) = None \<longleftrightarrow> us = ts"
    using Cons.IH by blast
  have len: "e \<noteq> None \<Longrightarrow> us \<noteq> t # ts"
    using us(1) by (metis list_emb_length impossible_Cons)
  show ?case
  proof (cases e)
    case None
    with us w' p show ?thesis
      by (intro exI [of _ "t # us"]) (auto split: prod.splits)
  next
    case (Some x)
    with us w' p len show ?thesis
      by (intro exI [of _ us]) (auto split: prod.splits)
  qed
qed

lemma append_each_reliable:
  assumes "reliable_publisher pub" shows "fst (append_each pub w ts) = None"
proof (induction ts arbitrary: w)
  case (Cons t ts)
  have "fst (pub w [t]) = None" using assms by (simp add: reliable_publisher_def)
  with Cons show ?case by (auto split: prod.splits option.splits) (metis fst_conv)
qed simp

end
