(* ===== verification/Go_Json.thy ===== *)
theory Go_Json
  imports Prelude
begin

text \<open>
  Package \<^verbatim>\<open>encoding/json\<close> as the content addresses and the approval ledger use it: \<^verbatim>\<open>json.Marshal\<close>
  of strings, integers, slices and structs, with the HTML escaping that \<^verbatim>\<open>Marshal\<close> applies by
  default; strings are valid UTF-8 without the line separators U+2028 and U+2029. The encoding of a value is uniquely readable, so two values with the same encoding
  are the same value (\<open>encode_inject\<close>).
\<close>

datatype json =
    JStr string
  | JNum int
  | JArr "json list"
  | JObj "(string \<times> json) list"

definition json_byte :: "char \<Rightarrow> string" where
  "json_byte c = (let n = byte_val c in
     if n = 34 then [CHR 0x5C, CHR 0x22]
     else if n = 92 then [CHR 0x5C, CHR 0x5C]
     else if n = 8 then [CHR 0x5C, CHR ''b'']
     else if n = 12 then [CHR 0x5C, CHR ''f'']
     else if n = 10 then [CHR 0x5C, CHR ''n'']
     else if n = 13 then [CHR 0x5C, CHR ''r'']
     else if n = 9 then [CHR 0x5C, CHR ''t'']
     else if n < 32 \<or> n = 60 \<or> n = 62 \<or> n = 38 then [CHR 0x5C, CHR ''u'', CHR ''0'', CHR ''0''] @ hex_byte n
     else [c])"

definition json_str :: "string \<Rightarrow> string" where
  "json_str s = CHR 0x22 # concat (map json_byte s) @ [CHR 0x22]"

fun encode :: "json \<Rightarrow> string" where
  "encode (JStr s) = json_str s"
| "encode (JNum i) = Itoa i"
| "encode (JArr xs) = ''['' @ Join (map encode xs) '','' @ '']''"
| "encode (JObj kvs) = ''{'' @ Join (map (\<lambda>(k, v). json_str k @ '':'' @ encode v) kvs) '','' @ ''}''"

section \<open>Strings are self-delimiting\<close>

lemma hex_digit_inject: "m < 16 \<Longrightarrow> n < 16 \<Longrightarrow> hex_digit m = hex_digit n \<longleftrightarrow> m = n"
  by (auto simp: hex_digit_def byte_val_inject [symmetric] split: if_splits)

lemma hex_byte_inject: "m < 256 \<Longrightarrow> n < 256 \<Longrightarrow> hex_byte m = hex_byte n \<longleftrightarrow> m = n"
proof -
  assume "m < 256" "n < 256"
  then have "hex_byte m = hex_byte n \<longleftrightarrow> m div 16 = n div 16 \<and> m mod 16 = n mod 16"
    by (simp add: hex_byte_def hex_digit_inject less_mult_imp_div_less)
  also have "\<dots> \<longleftrightarrow> m = n" by (metis div_mult_mod_eq)
  finally show ?thesis .
qed

lemma length_hex_byte [simp]: "length (hex_byte n) = 2"
  by (simp add: hex_byte_def)

lemma byte_val_bs: "byte_val CHR 0x5C = 92" and byte_val_dq: "byte_val CHR 0x22 = 34"
  by (simp_all add: byte_val_def)

definition json_esc :: "char \<Rightarrow> string" where
  "json_esc c = (let n = byte_val c in
     if n = 34 then [CHR 0x22] else if n = 92 then [CHR 0x5C] else if n = 8 then ''b''
     else if n = 12 then ''f'' else if n = 10 then ''n'' else if n = 13 then ''r''
     else if n = 9 then ''t'' else CHR ''u'' # CHR ''0'' # CHR ''0'' # hex_byte n)"

definition json_escaped :: "char \<Rightarrow> bool" where
  "json_escaped c \<longleftrightarrow> byte_val c < 32 \<or> byte_val c \<in> {34, 38, 60, 62, 92}"

lemma json_byte_alt: "json_byte c = (if json_escaped c then CHR 0x5C # json_esc c else [c])"
  by (auto simp: json_byte_def json_esc_def json_escaped_def Let_def)

lemma json_esc_code:
  assumes "json_esc c @ r = json_esc d @ s"
  shows "c = d \<and> r = s"
proof -
  have "hex_byte (byte_val c) @ r = hex_byte (byte_val d) @ s \<Longrightarrow> byte_val c = byte_val d \<and> r = s"
    by (simp add: hex_byte_inject append_eq_append_conv)
  with assms have "byte_val c = byte_val d \<and> r = s"
    by (auto simp: json_esc_def Let_def split: if_splits)
  then show ?thesis by (simp add: byte_val_inject)
qed

lemma not_escaped_bs: "\<not> json_escaped c \<Longrightarrow> c \<noteq> CHR 0x5C" "\<not> json_escaped c \<Longrightarrow> c \<noteq> CHR 0x22"
  by (auto simp: json_escaped_def byte_val_bs byte_val_dq)

lemma json_byte_code: "json_byte c @ r = json_byte d @ s \<Longrightarrow> c = d \<and> r = s"
  using json_esc_code [of c r d s] not_escaped_bs(1) [of c] not_escaped_bs(1) [of d]
  by (auto simp: json_byte_alt split: if_splits)

lemma json_byte_no_quote: "json_byte c @ r \<noteq> CHR 0x22 # s"
  using not_escaped_bs(2) [of c] by (auto simp: json_byte_alt)

lemma json_body_code:
  "concat (map json_byte s) @ CHR 0x22 # r = concat (map json_byte t) @ CHR 0x22 # q \<Longrightarrow> s = t \<and> r = q"
proof (induction s arbitrary: t)
  case Nil
  show ?case
  proof (cases t)
    case (Cons d t')
    with Nil have "json_byte d @ (concat (map json_byte t') @ CHR 0x22 # q) = CHR 0x22 # r" by simp
    then show ?thesis using json_byte_no_quote by blast
  qed (use Nil in simp)
next
  case (Cons c s)
  show ?case
  proof (cases t)
    case Nil
    with Cons.prems have "json_byte c @ (concat (map json_byte s) @ CHR 0x22 # r) = CHR 0x22 # q" by simp
    then show ?thesis using json_byte_no_quote by blast
  next
    case (Cons d t')
    with Cons.prems have
      "json_byte c @ (concat (map json_byte s) @ CHR 0x22 # r) =
       json_byte d @ (concat (map json_byte t') @ CHR 0x22 # q)" by simp
    from json_byte_code [OF this] Cons.IH Cons show ?thesis by blast
  qed
qed

lemma json_str_code: "json_str s @ r = json_str t @ q \<Longrightarrow> s = t \<and> r = q"
  using json_body_code [of s r t q] by (simp add: json_str_def)

section \<open>Numerals end at a delimiter\<close>

definition at_delim :: "string \<Rightarrow> bool" where
  "at_delim r \<longleftrightarrow> r = [] \<or> hd r \<in> {CHR '','', CHR '']'', CHR ''}''}"

lemma at_delim_Cons: "at_delim (c # r) \<longleftrightarrow> c = CHR '','' \<or> c = CHR '']'' \<or> c = CHR ''}''"
  by (simp add: at_delim_def)

lemma at_delim_not_digit: "at_delim (c # r) \<Longrightarrow> \<not> is_digit c"
  by (auto simp: at_delim_Cons is_digit_def byte_val_def)

lemma digits_code:
  assumes "\<forall>c \<in> set s. is_digit c" "\<forall>c \<in> set t. is_digit c" "at_delim r" "at_delim q" "s @ r = t @ q"
  shows "s = t \<and> r = q"
proof -
  have cut: "takeWhile is_digit (s @ r) = s" if "\<forall>c \<in> set s. is_digit c" "at_delim r" for s r
    using that at_delim_not_digit by (cases r) (auto simp: takeWhile_append2)
  from cut [OF assms(1,3)] cut [OF assms(2,4)] assms(5) show ?thesis by auto
qed

lemma nat_str_no_minus: "nat_str n @ r \<noteq> CHR ''-'' # s"
  using nat_str_digits [of "CHR ''-''" n] minus_not_digit
  by (cases "nat_str n") auto

lemma nat_str_code:
  "at_delim r \<Longrightarrow> at_delim q \<Longrightarrow> nat_str m @ r = nat_str n @ q \<Longrightarrow> m = n \<and> r = q"
  using digits_code [of "nat_str m" "nat_str n" r q] nat_str_digits by auto

lemma Itoa_code:
  assumes "at_delim r" "at_delim q" "Itoa i @ r = Itoa j @ q"
  shows "i = j \<and> r = q"
proof (cases "i < 0"; cases "j < 0")
  assume "i < 0" "j < 0"
  with assms(3) have "nat_str (nat (- i)) @ r = nat_str (nat (- j)) @ q" by (simp add: Itoa_def)
  from nat_str_code [OF assms(1,2) this] \<open>i < 0\<close> \<open>j < 0\<close> show ?thesis by auto
next
  assume "i < 0" "\<not> j < 0"
  with assms(3) have "nat_str (nat j) @ q = CHR ''-'' # nat_str (nat (- i)) @ r" by (simp add: Itoa_def)
  then show ?thesis using nat_str_no_minus by blast
next
  assume "\<not> i < 0" "j < 0"
  with assms(3) have "nat_str (nat i) @ r = CHR ''-'' # nat_str (nat (- j)) @ q" by (simp add: Itoa_def)
  then show ?thesis using nat_str_no_minus by blast
next
  assume "\<not> i < 0" "\<not> j < 0"
  with assms(3) have "nat_str (nat i) @ r = nat_str (nat j) @ q" by (simp add: Itoa_def)
  from nat_str_code [OF assms(1,2) this] \<open>\<not> i < 0\<close> \<open>\<not> j < 0\<close> show ?thesis by auto
qed

section \<open>Encodings are uniquely readable\<close>

definition code_at :: "('a \<Rightarrow> string) \<Rightarrow> 'a \<Rightarrow> bool" where
  "code_at f x \<longleftrightarrow> (\<forall>y r s. at_delim r \<longrightarrow> at_delim s \<longrightarrow> f x @ r = f y @ s \<longrightarrow> x = y \<and> r = s)"

lemma code_atD: "code_at f x \<Longrightarrow> f x @ r = f y @ s \<Longrightarrow> at_delim r \<Longrightarrow> at_delim s \<Longrightarrow> x = y \<and> r = s"
  by (simp add: code_at_def)

text \<open>What follows an element of a list that a bracket \<open>c\<close> closes.\<close>

definition after_elem :: "('a \<Rightarrow> string) \<Rightarrow> char \<Rightarrow> 'a list \<Rightarrow> string \<Rightarrow> string" where
  "after_elem f c xs r = (if xs = [] then c # r else CHR '','' # Join (map f xs) '','' @ c # r)"

lemma Join_after: "Join (map f (x # xs)) '','' @ c # r = f x @ after_elem f c xs r"
  by (cases xs) (simp_all add: after_elem_def)

lemma at_delim_after: "c = CHR '']'' \<or> c = CHR ''}'' \<Longrightarrow> at_delim (after_elem f c xs r)"
  by (auto simp: after_elem_def at_delim_Cons)

lemma Join_code:
  assumes close: "c = CHR '']'' \<or> c = CHR ''}''" and start: "\<And>y u v. f y @ u \<noteq> c # v"
    and "\<forall>x \<in> set xs. code_at f x"
    and "Join (map f xs) '','' @ c # r = Join (map f ys) '','' @ c # s"
  shows "xs = ys \<and> r = s"
  using assms(3,4)
proof (induction xs arbitrary: ys)
  case Nil
  show ?case
  proof (cases ys)
    case (Cons y ys')
    with Nil.prems(2) have "f y @ after_elem f c ys' s = c # r"
      unfolding Cons Join_after by simp
    then show ?thesis using start by blast
  qed (use Nil in simp)
next
  case (Cons x xs)
  note eq = Cons.prems(2) [unfolded Join_after]
  show ?case
  proof (cases ys)
    case Nil
    with eq have "f x @ after_elem f c xs r = c # s" by simp
    then show ?thesis using start by blast
  next
    case ys: (Cons y ys')
    have "f x @ after_elem f c xs r = f y @ after_elem f c ys' s"
      using eq unfolding ys Join_after .
    moreover have "code_at f x" using Cons.prems(1) by simp
    ultimately have "x = y \<and> after_elem f c xs r = after_elem f c ys' s"
      using at_delim_after [OF close] by (meson code_atD)
    then have xy: "x = y" and rest: "after_elem f c xs r = after_elem f c ys' s" by simp_all
    from rest have "xs = ys' \<and> r = s"
      using Cons.IH [of ys'] Cons.prems(1) close by (auto simp: after_elem_def split: if_splits)
    with xy ys show ?thesis by simp
  qed
qed

lemma Itoa_head: "\<exists>c cs. Itoa i = c # cs \<and> (is_digit c \<or> c = CHR ''-'')"
proof -
  have "\<exists>c cs. nat_str n = c # cs \<and> is_digit c" for n
    using nat_str_digits [of _ n] by (cases "nat_str n") auto
  then show ?thesis unfolding Itoa_def by (cases "i < 0") (simp, metis)
qed

lemma digit_marks [simp]:
  "\<not> is_digit CHR ''['' " "\<not> is_digit CHR '']''" "\<not> is_digit CHR ''{''" "\<not> is_digit CHR ''}''"
  "\<not> is_digit CHR 0x22" "\<not> is_digit CHR '',''" "\<not> is_digit CHR '':''"
  by (simp_all add: is_digit_def byte_val_def)

lemma encode_head:
  obtains c cs where "encode v = c # cs"
    and "case v of JStr _ \<Rightarrow> c = CHR 0x22 | JNum _ \<Rightarrow> is_digit c \<or> c = CHR ''-''
         | JArr _ \<Rightarrow> c = CHR ''['' | JObj _ \<Rightarrow> c = CHR ''{''"
  using Itoa_head by (cases v) (auto simp: json_str_def, blast)

lemma encode_not_close: "c = CHR '']'' \<or> c = CHR ''}'' \<Longrightarrow> encode v @ u \<noteq> c # w"
  by (rule encode_head [of v]) (auto split: json.splits)

definition encode_field :: "string \<times> json \<Rightarrow> string" where
  "encode_field kv = json_str (fst kv) @ '':'' @ encode (snd kv)"

lemma encode_JObj: "encode (JObj kvs) = ''{'' @ Join (map encode_field kvs) '','' @ ''}''"
  by (simp add: encode_field_def [abs_def] case_prod_unfold)

lemma encode_field_code: "code_at encode (snd kv) \<Longrightarrow> code_at encode_field kv"
  unfolding code_at_def encode_field_def
  by (metis append.assoc append_Cons append_Nil json_str_code list.inject prod_eqI)

lemma encode_field_not_close: "c = CHR ''}'' \<Longrightarrow> encode_field kv @ u \<noteq> c # w"
  by (auto simp: encode_field_def json_str_def)

fun json_kind :: "json \<Rightarrow> nat" where
  "json_kind (JStr _) = 0" | "json_kind (JNum _) = 1" | "json_kind (JArr _) = 2" | "json_kind (JObj _) = 3"

lemma encode_kind: "encode v @ r = encode w @ q \<Longrightarrow> json_kind v = json_kind w"
  by (rule encode_head [of v], rule encode_head [of w]) (auto split: json.splits)

lemma encode_JArr_code:
  assumes "\<forall>x \<in> set xs. code_at encode x" and "encode (JArr xs) @ r = encode (JArr ys) @ q"
  shows "xs = ys \<and> r = q"
proof (rule Join_code [where c = "CHR '']''" and f = encode])
  show "Join (map encode xs) '','' @ CHR '']'' # r = Join (map encode ys) '','' @ CHR '']'' # q"
    using assms(2) by simp
qed (use assms(1) encode_not_close in auto)

lemma encode_JObj_code:
  assumes "\<forall>kv \<in> set kvs. code_at encode (snd kv)" and "encode (JObj kvs) @ r = encode (JObj kws) @ q"
  shows "kvs = kws \<and> r = q"
proof (rule Join_code [where c = "CHR ''}''" and f = encode_field])
  show "Join (map encode_field kvs) '','' @ CHR ''}'' # r = Join (map encode_field kws) '','' @ CHR ''}'' # q"
    using assms(2) unfolding encode_JObj by simp
qed (use assms(1) encode_field_code encode_field_not_close in auto)

lemma encode_code: "code_at encode v"
proof (induction v)
  case (JStr s)
  have "JStr s = w \<and> r = q" if "encode (JStr s) @ r = encode w @ q" for w r q
    using encode_kind [OF that] that by (cases w) (auto dest: json_str_code)
  then show ?case unfolding code_at_def by blast
next
  case (JNum i)
  have "JNum i = w \<and> r = q" if "at_delim r" "at_delim q" "encode (JNum i) @ r = encode w @ q" for w r q
    using encode_kind [OF that(3)] that by (cases w) (auto dest: Itoa_code)
  then show ?case unfolding code_at_def by blast
next
  case (JArr xs)
  then have "\<forall>x \<in> set xs. code_at encode x" by blast
  then have "JArr xs = w \<and> r = q" if "encode (JArr xs) @ r = encode w @ q" for w r q
    using encode_kind [OF that] that by (cases w) (auto simp del: encode.simps dest: encode_JArr_code)
  then show ?case unfolding code_at_def by blast
next
  case (JObj kvs)
  have "\<forall>kv \<in> set kvs. code_at encode (snd kv)" using JObj by (metis prod.collapse snds.intros)
  then have "JObj kvs = w \<and> r = q" if "encode (JObj kvs) @ r = encode w @ q" for w r q
    using encode_kind [OF that] that by (cases w) (auto simp del: encode.simps dest: encode_JObj_code)
  then show ?case unfolding code_at_def by blast
qed

lemma encode_inject: "encode v = encode w \<longleftrightarrow> v = w"
  using code_atD [OF encode_code, of v "[]" w "[]"] by (auto simp: at_delim_def)

end
