(* ===== verification/Go_Path.thy ===== *)
theory Go_Path
  imports Prelude
begin

text \<open>
  Package \<^verbatim>\<open>path/filepath\<close> on Unix: \<^verbatim>\<open>Clean\<close> and \<^verbatim>\<open>Join\<close>, by the elements of the path. The stack of
  kept elements is reversed, its head the innermost element.
\<close>

fun split_slash :: "string \<Rightarrow> string list" where
  "split_slash [] = [[]]"
| "split_slash (c # cs) =
     (if c = CHR ''/'' then [] # split_slash cs
      else (case split_slash cs of [] \<Rightarrow> [[c]] | e # es \<Rightarrow> (c # e) # es))"

fun clean_elems :: "bool \<Rightarrow> string list \<Rightarrow> string list \<Rightarrow> string list" where
  "clean_elems rooted st [] = st"
| "clean_elems rooted st (e # es) =
     (if e = [] \<or> e = ''.'' then clean_elems rooted st es
      else if e = ''..'' then
        (if st \<noteq> [] \<and> hd st \<noteq> ''..'' then clean_elems rooted (tl st) es
         else if rooted then clean_elems rooted st es
         else clean_elems rooted (e # st) es)
      else clean_elems rooted (e # st) es)"

definition path_Clean :: "string \<Rightarrow> string" where
  "path_Clean p =
     (let rooted = HasPrefix p ''/''; st = clean_elems rooted [] (split_slash p)
      in if rooted then CHR ''/'' # Join (rev st) ''/''
         else if st = [] then ''.''
         else Join (rev st) ''/'')"

definition path_Join :: "string list \<Rightarrow> string" where
  "path_Join es = (let ne = filter (\<lambda>e. e \<noteq> []) es in if ne = [] then [] else path_Clean (Join ne ''/''))"

lemma split_slash_neq_Nil [simp]: "split_slash s \<noteq> []"
  by (cases s) (auto split: list.splits)

lemma split_slash_append:
  "split_slash (s @ CHR ''/'' # t) = split_slash s @ split_slash t"
proof (induction s)
  case (Cons c s)
  then show ?case by (cases "split_slash s") auto
qed simp

lemma split_slash_plain: "CHR ''/'' \<notin> set s \<Longrightarrow> split_slash s = [s]"
  by (induction s) auto

lemma clean_elems_append: "clean_elems r st (xs @ ys) = clean_elems r (clean_elems r st xs) ys"
  by (induction r st xs rule: clean_elems.induct) auto

lemma Join_snoc: "Join (xs @ [x]) sep = (if xs = [] then x else Join xs sep @ sep @ x)"
  by (induction xs rule: induct_list012) auto

text \<open>An ordinary last element survives cleaning.\<close>

lemma path_Clean_last:
  assumes "CHR ''/'' \<notin> set e" "e \<noteq> []" "e \<noteq> ''.''" "e \<noteq> ''..''"
  shows "suffix e (path_Clean (s @ ''/'' @ e))"
proof -
  define r where "r = HasPrefix (s @ ''/'' @ e) ''/''"
  define st where "st = clean_elems r [] (split_slash s)"
  have "clean_elems r [] (split_slash (s @ ''/'' @ e)) = e # st"
    using assms by (simp add: split_slash_append split_slash_plain clean_elems_append st_def)
  then have "path_Clean (s @ ''/'' @ e) = (if r then ''/'' else []) @ Join (rev st @ [e]) ''/''"
    unfolding path_Clean_def Let_def r_def [symmetric] by (cases r) simp_all
  moreover have "suffix e (Join (rev st @ [e]) ''/'')"
    by (simp add: Join_snoc suffix_def)
  ultimately show ?thesis by (metis suffix_appendI)
qed

end
