(* ===== verification/Sandbox_Requirements.thy ===== *)
theory Sandbox_Requirements
  imports Prelude Sha256
begin

text \<open>
  The capability contract of a sandbox request, \<^verbatim>\<open>sandboxmanager/requirements.go\<close>: validation,
  normalisation and the content address (\<open>Hash\<close>) that half of the attestation cache key is.
  \<open>kebabProbeName\<close> of \<^verbatim>\<open>sandboxmanager/attestation.go\<close> is here too, because validation removes
  duplicate probes by the predicate segment it produces.
\<close>

section \<open>Data\<close>

type_synonym NetworkPolicy = string
type_synonym MountClass = string
type_synonym Privilege = string

abbreviation NetworkRestricted :: NetworkPolicy where "NetworkRestricted \<equiv> ''restricted''"
abbreviation NetworkPublic :: NetworkPolicy where "NetworkPublic \<equiv> ''public''"
abbreviation NetworkNone :: NetworkPolicy where "NetworkNone \<equiv> ''none''"

abbreviation MountWorkspaceWrite :: MountClass where "MountWorkspaceWrite \<equiv> ''workspace-write''"
abbreviation MountWorkspaceRead :: MountClass where "MountWorkspaceRead \<equiv> ''workspace-read''"

abbreviation PrivilegeDockerSocket :: Privilege where "PrivilegeDockerSocket \<equiv> ''docker-socket''"
abbreviation PrivilegePrivileged :: Privilege where "PrivilegePrivileged \<equiv> ''privileged''"

record VerifyProbe =
  vp_Name :: string
  vp_Command :: string
  vp_ExpectExit :: int

record SandboxRequirements =
  rq_Languages :: "string list"
  rq_Tools :: "string list"
  rq_Services :: "string list"
  rq_Network :: NetworkPolicy
  rq_Secrets :: "string list"
  rq_Mounts :: "MountClass list"
  rq_Privileges :: "Privilege list"
  rq_Verification :: "VerifyProbe list"

definition empty_requirements :: SandboxRequirements where
  "empty_requirements = \<lparr>rq_Languages = [], rq_Tools = [], rq_Services = [], rq_Network = [],
     rq_Secrets = [], rq_Mounts = [], rq_Privileges = [], rq_Verification = []\<rparr>"

datatype req_error =
    EmptyToken string nat
  | BadToken string nat string
  | BadNetwork string
  | EmptySecret nat
  | BadSecret nat string
  | BadMount nat string
  | BadPrivilege nat string
  | EmptyProbeName nat
  | BadProbeName nat string
  | DuplicateProbe nat string string
  | EmptyProbeCommand nat
  | ProbeNul nat
  | ProbeControl nat nat
  | ProbeDel nat

section \<open>Patterns\<close>

definition token_char :: "char \<Rightarrow> bool" where
  "token_char c \<longleftrightarrow> is_lower_alpha c \<or> is_digit c \<or> c = CHR ''.'' \<or> c = CHR ''_'' \<or> c = CHR ''-''"

fun tokenPattern :: "string \<Rightarrow> bool" where
  "tokenPattern [] = False"
| "tokenPattern (c # cs) = ((is_lower_alpha c \<or> is_digit c) \<and> list_all token_char cs)"

fun secretPattern :: "string \<Rightarrow> bool" where
  "secretPattern [] = False"
| "secretPattern (c # cs) =
     ((is_upper_alpha c \<or> c = CHR ''_'') \<and>
      list_all (\<lambda>d. is_upper_alpha d \<or> is_digit d \<or> d = CHR ''_'') cs)"

section \<open>Probe names as predicate segments\<close>

text \<open>The rune loop, with the buffer \<open>b\<close> kept reversed: its head is Go's last byte.\<close>

fun kebab_loop :: "string \<Rightarrow> string \<Rightarrow> string" where
  "kebab_loop b [] = b"
| "kebab_loop b (r # rs) =
     (if kebab_char r then kebab_loop (r # b) rs
      else if b \<noteq> [] \<and> hd b \<noteq> CHR ''-'' then kebab_loop (CHR ''-'' # b) rs
      else kebab_loop b rs)"

abbreviation kebab_max_len :: nat where
  "kebab_max_len \<equiv> 64 - length ''verified-''"

definition kebabProbeName :: "string \<Rightarrow> string" where
  "kebabProbeName name =
     (let b = rev (kebab_loop [] (ToLower name));
          b1 = (if length b > kebab_max_len then take kebab_max_len b else b);
          b2 = TrimRightChar b1 CHR ''-''
      in if b2 = [] then ''probe'' else b2)"

section \<open>Validate\<close>

definition token_check :: "string \<Rightarrow> nat \<Rightarrow> string \<Rightarrow> req_error option" where
  "token_check field i t =
     (if TrimSpace t = [] then Some (EmptyToken field i)
      else if \<not> tokenPattern (ToLower (TrimSpace t)) then Some (BadToken field i t)
      else None)"

definition validateTokenSlice :: "string \<Rightarrow> string list \<Rightarrow> req_error option" where
  "validateTokenSlice field xs = first_err (token_check field) 0 xs"

definition validateNetwork :: "NetworkPolicy \<Rightarrow> req_error option" where
  "validateNetwork n =
     (if n = [] \<or> n = NetworkRestricted \<or> n = NetworkPublic \<or> n = NetworkNone then None
      else Some (BadNetwork n))"

definition secret_check :: "nat \<Rightarrow> string \<Rightarrow> req_error option" where
  "secret_check i s =
     (if TrimSpace s = [] then Some (EmptySecret i)
      else if \<not> secretPattern (TrimSpace s) then Some (BadSecret i s)
      else None)"

definition validateSecrets :: "string list \<Rightarrow> req_error option" where
  "validateSecrets xs = first_err secret_check 0 xs"

definition mount_check :: "nat \<Rightarrow> MountClass \<Rightarrow> req_error option" where
  "mount_check i m =
     (if m = MountWorkspaceWrite \<or> m = MountWorkspaceRead then None else Some (BadMount i m))"

definition validateMounts :: "MountClass list \<Rightarrow> req_error option" where
  "validateMounts xs = first_err mount_check 0 xs"

definition privilege_check :: "nat \<Rightarrow> Privilege \<Rightarrow> req_error option" where
  "privilege_check i p =
     (if p = PrivilegeDockerSocket \<or> p = PrivilegePrivileged then None else Some (BadPrivilege i p))"

definition validatePrivileges :: "Privilege list \<Rightarrow> req_error option" where
  "validatePrivileges xs = first_err privilege_check 0 xs"

fun probe_command_err :: "nat \<Rightarrow> string \<Rightarrow> req_error option" where
  "probe_command_err i [] = None"
| "probe_command_err i (r # rs) =
     (if byte_val r = 0 then Some (ProbeNul i)
      else if byte_val r < 32 \<and> byte_val r \<noteq> 9 \<and> byte_val r \<noteq> 10 then Some (ProbeControl i (byte_val r))
      else if byte_val r = 127 then Some (ProbeDel i)
      else probe_command_err i rs)"

fun validateProbes_loop :: "string list \<Rightarrow> nat \<Rightarrow> VerifyProbe list \<Rightarrow> req_error option" where
  "validateProbes_loop seen i [] = None"
| "validateProbes_loop seen i (p # ps) =
     (let name = TrimSpace (vp_Name p) in
      if name = [] then Some (EmptyProbeName i)
      else if \<not> tokenPattern (ToLower name) then Some (BadProbeName i name)
      else (let kb = kebabProbeName name in
        if kb \<in> set seen then Some (DuplicateProbe i name kb)
        else (let cmd = TrimSpace (vp_Command p) in
          if cmd = [] then Some (EmptyProbeCommand i)
          else (case probe_command_err i cmd of
                  Some e \<Rightarrow> Some e
                | None \<Rightarrow> validateProbes_loop (kb # seen) (Suc i) ps))))"

definition validateProbes :: "VerifyProbe list \<Rightarrow> req_error option" where
  "validateProbes ps = validateProbes_loop [] 0 ps"

definition Validate :: "SandboxRequirements \<Rightarrow> req_error option" where
  "Validate r = first_some
     [validateTokenSlice ''languages'' (rq_Languages r),
      validateTokenSlice ''tools'' (rq_Tools r),
      validateTokenSlice ''services'' (rq_Services r),
      validateNetwork (rq_Network r),
      validateSecrets (rq_Secrets r),
      validateMounts (rq_Mounts r),
      validatePrivileges (rq_Privileges r),
      validateProbes (rq_Verification r)]"

text \<open>The text of a validation error, as \<^verbatim>\<open>err.Error()\<close> yields it.\<close>

fun req_error_msg :: "req_error \<Rightarrow> string" where
  "req_error_msg (EmptyToken f i) =
     f @ ''['' @ nat_str i @ '']: must not be empty / whitespace''"
| "req_error_msg (BadToken f i t) =
     f @ ''['' @ nat_str i @ '']='' @ quote_str t @ '': must match [a-z0-9][a-z0-9._-]* (identifier shape)''"
| "req_error_msg (BadNetwork n) =
     ''network '' @ quote_str n @ '': must be one of {restricted, public, none}''"
| "req_error_msg (EmptySecret i) =
     ''secrets['' @ nat_str i @ '']: must not be empty / whitespace''"
| "req_error_msg (BadSecret i s) =
     ''secrets['' @ nat_str i @ '']='' @ quote_str s @ '': must match [A-Z_][A-Z0-9_]* (env-var identifier shape)''"
| "req_error_msg (BadMount i m) =
     ''mounts['' @ nat_str i @ '']='' @ quote_str m @ '': must be one of {workspace-write, workspace-read}''"
| "req_error_msg (BadPrivilege i p) =
     ''privileges['' @ nat_str i @ '']='' @ quote_str p @ '': must be one of {docker-socket, privileged}''"
| "req_error_msg (EmptyProbeName i) =
     ''verification['' @ nat_str i @ ''].name: must not be empty''"
| "req_error_msg (BadProbeName i n) =
     ''verification['' @ nat_str i @ ''].name='' @ quote_str n @
     '': must match [a-z0-9][a-z0-9._-]* (composes into attestation predicate)''"
| "req_error_msg (DuplicateProbe i n kb) =
     ''verification['' @ nat_str i @ ''].name='' @ quote_str n @
     '': duplicate (normalizes to the same attestation predicate '' @ quote_str kb @ '')''"
| "req_error_msg (EmptyProbeCommand i) =
     ''verification['' @ nat_str i @ ''].command: must not be empty''"
| "req_error_msg (ProbeNul i) =
     ''verification['' @ nat_str i @ ''].command: contains NUL byte''"
| "req_error_msg (ProbeControl i r) =
     ''verification['' @ nat_str i @ ''].command: contains control character 0x'' @
     (if r < 16 then [hex_digit r] else hex_byte r)"
| "req_error_msg (ProbeDel i) =
     ''verification['' @ nat_str i @ ''].command: contains DEL (0x7f)''"

section \<open>What validation accepts\<close>

abbreviation norm_token :: "string \<Rightarrow> string" where
  "norm_token t \<equiv> ToLower (TrimSpace t)"

lemma tokenPattern_Nil_iff: "tokenPattern s \<Longrightarrow> s \<noteq> []"
  by (cases s) auto

lemma secretPattern_Nil_iff: "secretPattern s \<Longrightarrow> s \<noteq> []"
  by (cases s) auto

interpretation token_loop: element_check "token_check field" "\<lambda>t. tokenPattern (norm_token t)" for field
  by unfold_locales (auto simp: token_check_def dest: tokenPattern_Nil_iff)

interpretation secret_loop: element_check secret_check "\<lambda>s. secretPattern (TrimSpace s)"
  by unfold_locales (auto simp: secret_check_def dest: secretPattern_Nil_iff)

interpretation mount_loop: element_check mount_check
  "\<lambda>m. m \<in> {MountWorkspaceWrite, MountWorkspaceRead}"
  by unfold_locales (auto simp: mount_check_def)

interpretation privilege_loop: element_check privilege_check
  "\<lambda>p. p \<in> {PrivilegeDockerSocket, PrivilegePrivileged}"
  by unfold_locales (auto simp: privilege_check_def)

definition printable_byte :: "char \<Rightarrow> bool" where
  "printable_byte c \<longleftrightarrow> byte_val c \<noteq> 127 \<and> (32 \<le> byte_val c \<or> byte_val c = 9 \<or> byte_val c = 10)"

lemma probe_command_err_None: "probe_command_err i s = None \<longleftrightarrow> list_all printable_byte s"
  by (induction s) (auto simp: printable_byte_def)

definition probe_ok :: "VerifyProbe \<Rightarrow> bool" where
  "probe_ok p \<longleftrightarrow> tokenPattern (norm_token (vp_Name p)) \<and> TrimSpace (vp_Command p) \<noteq> [] \<and>
     list_all printable_byte (TrimSpace (vp_Command p))"

definition probe_key :: "VerifyProbe \<Rightarrow> string" where
  "probe_key p = kebabProbeName (TrimSpace (vp_Name p))"

lemma validateProbes_loop_None:
  "validateProbes_loop seen i ps = None \<longleftrightarrow>
     (\<forall>p \<in> set ps. probe_ok p) \<and> distinct (map probe_key ps) \<and> set seen \<inter> probe_key ` set ps = {}"
proof (induction ps arbitrary: seen i)
  case (Cons p ps)
  show ?case
    using probe_command_err_None [of i "TrimSpace (vp_Command p)"]
    by (auto simp: Cons Let_def probe_ok_def probe_key_def dest: tokenPattern_Nil_iff
        split: option.splits)
qed simp

definition well_formed :: "SandboxRequirements \<Rightarrow> bool" where
  "well_formed r \<longleftrightarrow>
     (\<forall>t \<in> set (rq_Languages r). tokenPattern (norm_token t)) \<and>
     (\<forall>t \<in> set (rq_Tools r). tokenPattern (norm_token t)) \<and>
     (\<forall>t \<in> set (rq_Services r). tokenPattern (norm_token t)) \<and>
     rq_Network r \<in> {[], NetworkRestricted, NetworkPublic, NetworkNone} \<and>
     (\<forall>s \<in> set (rq_Secrets r). secretPattern (TrimSpace s)) \<and>
     (\<forall>m \<in> set (rq_Mounts r). m \<in> {MountWorkspaceWrite, MountWorkspaceRead}) \<and>
     (\<forall>p \<in> set (rq_Privileges r). p \<in> {PrivilegeDockerSocket, PrivilegePrivileged}) \<and>
     (\<forall>p \<in> set (rq_Verification r). probe_ok p) \<and>
     distinct (map probe_key (rq_Verification r))"

lemma validateNetwork_None:
  "validateNetwork n = None \<longleftrightarrow> n \<in> {[], NetworkRestricted, NetworkPublic, NetworkNone}"
  by (simp add: validateNetwork_def)

lemma validateProbes_None:
  "validateProbes ps = None \<longleftrightarrow> (\<forall>p \<in> set ps. probe_ok p) \<and> distinct (map probe_key ps)"
  by (simp add: validateProbes_def validateProbes_loop_None)

lemmas slice_None = validateTokenSlice_def validateSecrets_def validateMounts_def
  validatePrivileges_def token_loop.accepts_iff secret_loop.accepts_iff
  mount_loop.accepts_iff privilege_loop.accepts_iff

lemma Validate_None_iff: "Validate r = None \<longleftrightarrow> well_formed r"
  by (simp only: Validate_def first_some_None slice_None validateNetwork_None validateProbes_None
      well_formed_def simp_thms)

section \<open>Predicate segments\<close>

definition kebab_inv :: "string \<Rightarrow> bool" where
  "kebab_inv b \<longleftrightarrow> list_all (\<lambda>c. kebab_char c \<or> c = CHR ''-'') b \<and> no_double_hyphen b \<and>
     (b \<noteq> [] \<longrightarrow> last b \<noteq> CHR ''-'')"

lemma kebab_loop_inv: "kebab_inv b \<Longrightarrow> kebab_inv (kebab_loop b s)"
proof (induction b s rule: kebab_loop.induct)
  case (2 b r rs)
  have "kebab_char r \<Longrightarrow> kebab_inv (r # b)"
    using "2.prems" by (cases b) (auto simp: kebab_inv_def no_double_hyphen_def successively_Cons)
  moreover have "b \<noteq> [] \<Longrightarrow> hd b \<noteq> CHR ''-'' \<Longrightarrow> kebab_inv (CHR ''-'' # b)"
    using "2.prems" by (cases b) (auto simp: kebab_inv_def no_double_hyphen_def successively_Cons)
  ultimately show ?case using "2.IH" "2.prems" by auto
qed simp

lemma kebab_inv_rev_prefix:
  assumes "kebab_inv (rev s)" "prefix t s" "t \<noteq> []" "last t \<noteq> CHR ''-''"
  shows "lower_kebab t"
proof -
  obtain u where u: "s = t @ u" using assms(2) by (auto simp: prefix_def)
  have "no_double_hyphen t"
    using assms(1) u unfolding kebab_inv_def no_double_hyphen_rev
    by (simp add: no_double_hyphen_def successively_append_iff)
  moreover have "hd t \<noteq> CHR ''-''" using assms(1,3) u by (auto simp: kebab_inv_def last_rev)
  ultimately show ?thesis
    using assms u by (auto simp: lower_kebab_def kebab_inv_def list_all_iff)
qed

lemma lower_kebab_probe: "lower_kebab ''probe''"
  by (simp add: lower_kebab_def no_double_hyphen_def kebab_char_def byte_class_defs byte_val_def)

lemma kebabProbeName_cases:
  obtains "kebabProbeName n = ''probe''"
  | t where "kebabProbeName n = TrimRightChar t CHR ''-''" "kebabProbeName n \<noteq> []"
      "prefix t (rev (kebab_loop [] (ToLower n)))" "length t \<le> kebab_max_len"
proof -
  let ?b = "rev (kebab_loop [] (ToLower n))"
  define t where "t = (if length ?b > kebab_max_len then take kebab_max_len ?b else ?b)"
  have "prefix t ?b" "length t \<le> kebab_max_len"
    by (simp_all add: t_def take_is_prefix)
  moreover have "kebabProbeName n = (if TrimRightChar t CHR ''-'' = [] then ''probe'' else TrimRightChar t CHR ''-'')"
    by (simp add: kebabProbeName_def Let_def t_def)
  ultimately show thesis using that by (cases "TrimRightChar t CHR ''-'' = []") auto
qed

lemma kebabProbeName_kebab: "lower_kebab (kebabProbeName n)"
proof (rule kebabProbeName_cases [of n])
  fix t assume t: "kebabProbeName n = TrimRightChar t CHR ''-''" "kebabProbeName n \<noteq> []"
    "prefix t (rev (kebab_loop [] (ToLower n)))"
  have inv: "kebab_inv (rev (rev (kebab_loop [] (ToLower n))))"
    using kebab_loop_inv [of "[]" "ToLower n"] by (simp add: kebab_inv_def no_double_hyphen_def)
  have "prefix (kebabProbeName n) (rev (kebab_loop [] (ToLower n)))"
    unfolding t(1) using TrimRightChar_prefix t(3) by (rule prefix_order.trans)
  from kebab_inv_rev_prefix [OF inv this t(2)] last_TrimRightChar t show ?thesis by metis
qed (simp add: lower_kebab_probe)

lemma length_kebabProbeName: "length (kebabProbeName n) \<le> kebab_max_len"
proof (rule kebabProbeName_cases [of n])
  fix t assume "kebabProbeName n = TrimRightChar t CHR ''-''" "length t \<le> kebab_max_len"
  then show ?thesis using prefix_length_le [OF TrimRightChar_prefix [of t "CHR ''-''"]] by simp
qed simp

lemma kebab_loop_id:
  "list_all (\<lambda>c. kebab_char c \<or> c = CHR ''-'') s \<Longrightarrow> no_double_hyphen s \<Longrightarrow>
   (s \<noteq> [] \<longrightarrow> hd s = CHR ''-'' \<longrightarrow> b \<noteq> [] \<and> hd b \<noteq> CHR ''-'') \<Longrightarrow> kebab_loop b s = rev s @ b"
proof (induction s arbitrary: b)
  case (Cons c s)
  then have "kebab_loop (c # b) s = rev s @ c # b"
    by (intro Cons.IH) (auto simp: no_double_hyphen_def successively_Cons)
  with Cons.prems show ?case by auto
qed simp

lemma kebab_not_upper: "kebab_char c \<or> c = CHR ''-'' \<Longrightarrow> \<not> is_upper_alpha c"
  by (auto simp: kebab_char_def byte_class_defs byte_val_def)

lemma kebabProbeName_id:
  assumes "lower_kebab s" "length s \<le> kebab_max_len"
  shows "kebabProbeName s = s"
proof -
  have "ToLower s = s"
    using assms(1) by (intro ToLower_id kebab_not_upper) (auto simp: lower_kebab_def list_all_iff)
  moreover have "kebab_loop [] s = rev s"
    using assms(1) kebab_loop_id [of s "[]"] by (auto simp: lower_kebab_def)
  ultimately show ?thesis
    using assms TrimRightChar_id [of s "CHR ''-''"] by (auto simp: kebabProbeName_def lower_kebab_def Let_def)
qed

lemma kebabProbeName_ToLower [simp]: "kebabProbeName (ToLower s) = kebabProbeName s"
  by (simp add: kebabProbeName_def)

end
