(* ===== verification/Sandbox_Normalize.thy ===== *)
theory Sandbox_Normalize
  imports Sandbox_Requirements Go_Json
begin

text \<open>
  The canonical form of sandbox requirements and their content address, \<^verbatim>\<open>Normalize\<close> and \<^verbatim>\<open>Hash\<close> of
  \<^verbatim>\<open>sandboxmanager/requirements.go\<close>. \<^verbatim>\<open>sort.Slice\<close> is not stable; validated requirements have
  probes with pairwise different names, for which every sort by name gives the same list.
\<close>

section \<open>Operations\<close>

fun normalizeTokens_loop :: "string list \<Rightarrow> string list \<Rightarrow> string list" where
  "normalizeTokens_loop seen [] = []"
| "normalizeTokens_loop seen (t # ts) =
     (let tok = ToLower (TrimSpace t) in
      if tok = [] then normalizeTokens_loop seen ts
      else if tok \<in> set seen then normalizeTokens_loop seen ts
      else tok # normalizeTokens_loop (tok # seen) ts)"

definition normalizeTokens :: "string list \<Rightarrow> string list" where
  "normalizeTokens xs = sort (normalizeTokens_loop [] xs)"

definition normalizeProbe :: "VerifyProbe \<Rightarrow> VerifyProbe" where
  "normalizeProbe p = \<lparr>vp_Name = ToLower (TrimSpace (vp_Name p)),
     vp_Command = TrimSpace (vp_Command p), vp_ExpectExit = vp_ExpectExit p\<rparr>"

definition Normalize :: "SandboxRequirements \<Rightarrow> SandboxRequirements" where
  "Normalize r = \<lparr>
     rq_Languages = normalizeTokens (rq_Languages r),
     rq_Tools = normalizeTokens (rq_Tools r),
     rq_Services = normalizeTokens (rq_Services r),
     rq_Network = (if rq_Network r = [] then NetworkRestricted else rq_Network r),
     rq_Secrets = normalizeTokens (rq_Secrets r),
     rq_Mounts = sort (keep_first [] (rq_Mounts r)),
     rq_Privileges = sort (keep_first [] (rq_Privileges r)),
     rq_Verification = sort_key vp_Name (map normalizeProbe (rq_Verification r))\<rparr>"

definition HasPrivilege :: "SandboxRequirements \<Rightarrow> Privilege \<Rightarrow> bool" where
  "HasPrivilege r p \<longleftrightarrow> p \<in> set (rq_Privileges r)"

text \<open>The struct tags: every field is \<^verbatim>\<open>omitempty\<close>, probes keep their name and command.\<close>

definition strs_json :: "string list \<Rightarrow> json" where
  "strs_json xs = JArr (map JStr xs)"

definition probe_json :: "VerifyProbe \<Rightarrow> json" where
  "probe_json p = JObj ([(''name'', JStr (vp_Name p)), (''command'', JStr (vp_Command p))] @
     (if vp_ExpectExit p = 0 then [] else [(''expect_exit'', JNum (vp_ExpectExit p))]))"

definition omit_empty :: "string \<Rightarrow> 'a list \<Rightarrow> ('a list \<Rightarrow> json) \<Rightarrow> (string \<times> json) list" where
  "omit_empty k xs enc = (if xs = [] then [] else [(k, enc xs)])"

definition requirements_json :: "SandboxRequirements \<Rightarrow> json" where
  "requirements_json r = JObj (
     omit_empty ''languages'' (rq_Languages r) strs_json @
     omit_empty ''tools'' (rq_Tools r) strs_json @
     omit_empty ''services'' (rq_Services r) strs_json @
     omit_empty ''network'' (rq_Network r) JStr @
     omit_empty ''secrets'' (rq_Secrets r) strs_json @
     omit_empty ''mounts'' (rq_Mounts r) strs_json @
     omit_empty ''privileges'' (rq_Privileges r) strs_json @
     omit_empty ''verification'' (rq_Verification r) (\<lambda>ps. JArr (map probe_json ps)))"

definition req_Hash :: "SandboxRequirements \<Rightarrow> string" where
  "req_Hash r = sha256_hex (encode (requirements_json (Normalize r)))"

section \<open>Canonical token lists\<close>

definition token_set :: "string list \<Rightarrow> string set" where
  "token_set xs = norm_token ` set xs - {[]}"

lemma normalizeTokens_loop_keep:
  "normalizeTokens_loop seen xs = keep_first seen (filter (\<lambda>t. t \<noteq> []) (map norm_token xs))"
  by (induction xs arbitrary: seen) (auto simp: Let_def)

lemma finite_token_set [simp]: "finite (token_set xs)"
  by (simp add: token_set_def)

lemma normalizeTokens_eq: "normalizeTokens xs = sorted_list_of_set (token_set xs)"
proof -
  have "set (filter (\<lambda>t. t \<noteq> []) (map norm_token xs)) = token_set xs"
    by (auto simp: token_set_def)
  then show ?thesis
    by (simp add: normalizeTokens_def normalizeTokens_loop_keep sort_keep_first)
qed

lemma norm_token_idem [simp]: "norm_token (norm_token t) = norm_token t"
  by (simp add: TrimSpace_ToLower)

lemma set_normalizeTokens [simp]: "set (normalizeTokens xs) = token_set xs"
  by (simp add: normalizeTokens_eq)

lemma norm_token_token_set: "t \<in> token_set xs \<Longrightarrow> norm_token t = t"
  by (auto simp: token_set_def)

lemma token_set_normalizeTokens [simp]: "token_set (normalizeTokens xs) = token_set xs"
proof -
  have "norm_token ` token_set xs = token_set xs"
    using norm_token_token_set by (auto simp: image_iff)
  then have "token_set (normalizeTokens xs) = token_set xs - {[]}"
    by (simp add: token_set_def [of "normalizeTokens xs"])
  then show ?thesis by (simp add: token_set_def)
qed

lemma normalizeTokens_idem [simp]: "normalizeTokens (normalizeTokens xs) = normalizeTokens xs"
  by (simp add: normalizeTokens_eq [of "normalizeTokens xs"]) (simp add: normalizeTokens_eq)

lemma normalizeTokens_cong: "normalizeTokens xs = normalizeTokens ys \<longleftrightarrow> token_set xs = token_set ys"
  by (metis normalizeTokens_eq set_normalizeTokens)

lemma sort_keep_first_idem:
  "sort (keep_first [] (sort (keep_first [] (xs :: 'a :: linorder list)))) = sort (keep_first [] xs)"
  by (simp add: sort_keep_first)

section \<open>Probes\<close>

lemma normalizeProbe_idem [simp]: "normalizeProbe (normalizeProbe p) = normalizeProbe p"
  by (simp add: normalizeProbe_def TrimSpace_ToLower)

lemma sort_key_probes_idem:
  "sort_key vp_Name (map normalizeProbe (sort_key vp_Name (map normalizeProbe ps))) =
   sort_key vp_Name (map normalizeProbe ps)"
proof -
  have "map normalizeProbe (sort_key vp_Name (map normalizeProbe ps)) = sort_key vp_Name (map normalizeProbe ps)"
    by (rule map_idI) auto
  then show ?thesis by (simp add: sort_key_id_if_sorted)
qed

text \<open>With pairwise different keys, sorting is determined by the elements alone.\<close>

lemma sort_key_unique:
  assumes "mset xs = mset ys" "distinct (map f xs)" "sorted (map f ys)"
  shows "sort_key f xs = ys"
  using assms by (intro sort_key_inj_key_eq) (auto simp: distinct_map)

text \<open>Validated probes have pairwise different canonical names.\<close>

lemma probe_key_name: "probe_key p = kebabProbeName (vp_Name (normalizeProbe p))"
  by (simp add: probe_key_def normalizeProbe_def)

lemma distinct_probe_names:
  assumes "distinct (map probe_key ps)"
  shows "distinct (map vp_Name (map normalizeProbe ps))"
proof -
  have "map probe_key ps = map kebabProbeName (map vp_Name (map normalizeProbe ps))"
    by (simp add: probe_key_name)
  with assms show ?thesis by (metis distinct_map)
qed

lemma sort_probes_cong:
  assumes "distinct (map probe_key ps)" "distinct (map probe_key qs)"
  shows "sort_key vp_Name (map normalizeProbe ps) = sort_key vp_Name (map normalizeProbe qs) \<longleftrightarrow>
     normalizeProbe ` set ps = normalizeProbe ` set qs"
proof
  assume "sort_key vp_Name (map normalizeProbe ps) = sort_key vp_Name (map normalizeProbe qs)"
  then have "set (map normalizeProbe ps) = set (map normalizeProbe qs)" by (metis set_sort)
  then show "normalizeProbe ` set ps = normalizeProbe ` set qs" by simp
next
  assume eq: "normalizeProbe ` set ps = normalizeProbe ` set qs"
  have d: "distinct (map vp_Name (map normalizeProbe ps))" "distinct (map vp_Name (map normalizeProbe qs))"
    using assms distinct_probe_names by blast+
  then have "distinct (map normalizeProbe ps)" "distinct (map normalizeProbe qs)"
    by (metis distinct_map)+
  then have "mset (map normalizeProbe ps) = mset (map normalizeProbe qs)"
    using eq by (metis set_eq_iff_mset_eq_distinct set_map)
  with d show "sort_key vp_Name (map normalizeProbe ps) = sort_key vp_Name (map normalizeProbe qs)"
    by (intro sort_key_unique) auto
qed

section \<open>The encoding determines the requirements\<close>

lemma strs_json_inject [simp]: "strs_json xs = strs_json ys \<longleftrightarrow> xs = ys"
  by (simp add: strs_json_def inj_map_eq_map inj_def)

lemma probe_json_inject: "probe_json p = probe_json q \<longleftrightarrow> p = q"
  by (cases p; cases q) (auto simp: probe_json_def split: if_splits)

lemma probes_json_inject: "map probe_json ps = map probe_json qs \<longleftrightarrow> ps = qs"
  by (rule inj_map_eq_map) (simp add: inj_def probe_json_inject)

lemma map_of_omit_empty:
  "map_of (omit_empty k xs enc) = (if xs = [] then Map.empty else [k \<mapsto> enc xs])"
  by (simp add: omit_empty_def)

definition req_fields :: "SandboxRequirements \<Rightarrow> (string \<times> json) list" where
  "req_fields r = (case requirements_json r of JObj kvs \<Rightarrow> kvs | _ \<Rightarrow> [])"

lemma req_fields_eq: "requirements_json r = JObj (req_fields r)"
  by (simp add: req_fields_def requirements_json_def)

lemma map_of_req_fields:
  "map_of (req_fields r) ''languages'' = (if rq_Languages r = [] then None else Some (strs_json (rq_Languages r)))"
  "map_of (req_fields r) ''tools'' = (if rq_Tools r = [] then None else Some (strs_json (rq_Tools r)))"
  "map_of (req_fields r) ''services'' = (if rq_Services r = [] then None else Some (strs_json (rq_Services r)))"
  "map_of (req_fields r) ''network'' = (if rq_Network r = [] then None else Some (JStr (rq_Network r)))"
  "map_of (req_fields r) ''secrets'' = (if rq_Secrets r = [] then None else Some (strs_json (rq_Secrets r)))"
  "map_of (req_fields r) ''mounts'' = (if rq_Mounts r = [] then None else Some (strs_json (rq_Mounts r)))"
  "map_of (req_fields r) ''privileges'' = (if rq_Privileges r = [] then None else Some (strs_json (rq_Privileges r)))"
  "map_of (req_fields r) ''verification'' =
     (if rq_Verification r = [] then None else Some (JArr (map probe_json (rq_Verification r))))"
  by (simp_all add: req_fields_def requirements_json_def map_of_omit_empty map_add_def)

lemma omit_field:
  assumes "(if xs = [] then None else Some (enc xs)) = (if ys = [] then None else Some (enc ys))"
    and "enc xs = enc ys \<Longrightarrow> xs = ys"
  shows "xs = ys"
  using assms by (auto split: if_splits)

lemma requirements_json_inject: "requirements_json r = requirements_json s \<longleftrightarrow> r = s"
proof
  assume "requirements_json r = requirements_json s"
  then have eq: "map_of (req_fields r) k = map_of (req_fields s) k" for k by (simp add: req_fields_eq)
  have strs: "xs = ys" if "(if xs = [] then None else Some (strs_json xs)) = (if ys = [] then None else Some (strs_json ys))"
    for xs ys using that by (rule omit_field) simp
  note fields = eq [of "''languages''"] eq [of "''tools''"] eq [of "''services''"] eq [of "''secrets''"]
    eq [of "''mounts''"] eq [of "''privileges''"]
  have "rq_Network r = rq_Network s"
    using eq [of "''network''"] unfolding map_of_req_fields by (rule omit_field) simp
  moreover have "rq_Verification r = rq_Verification s"
    using eq [of "''verification''"] unfolding map_of_req_fields
    by (rule omit_field [where enc = "\<lambda>ps. JArr (map probe_json ps)"]) (simp add: probes_json_inject)
  ultimately show "r = s"
    using fields [unfolded map_of_req_fields, THEN strs] by (cases r; cases s) simp
qed simp

section \<open>Normalisation is idempotent and determines the content address\<close>

lemma Normalize_Normalize [simp]: "Normalize (Normalize r) = Normalize r"
  by (simp add: Normalize_def sort_keep_first sort_key_probes_idem)

text \<open>
  \<^verbatim>\<open>Normalize\<close> is idempotent, so the content address of a requirement and of its canonical
  form agree: \<^verbatim>\<open>Normalize(Normalize(r)) = Normalize(r)\<close> and the two have the same \<^verbatim>\<open>Hash\<close>.
\<close>

theorem Normalize_idempotent:
  "Normalize (Normalize r) = Normalize r \<and> req_Hash (Normalize r) = req_Hash r"
  by (simp add: req_Hash_def)

text \<open>
  Two requests ask for the same capabilities: the same sets of tokens up to case and surrounding
  space, the same network policy (unset means restricted), mounts, privileges and probes.
\<close>

definition same_capabilities :: "SandboxRequirements \<Rightarrow> SandboxRequirements \<Rightarrow> bool" where
  "same_capabilities r s \<longleftrightarrow>
     token_set (rq_Languages r) = token_set (rq_Languages s) \<and>
     token_set (rq_Tools r) = token_set (rq_Tools s) \<and>
     token_set (rq_Services r) = token_set (rq_Services s) \<and>
     (if rq_Network r = [] then NetworkRestricted else rq_Network r) =
       (if rq_Network s = [] then NetworkRestricted else rq_Network s) \<and>
     token_set (rq_Secrets r) = token_set (rq_Secrets s) \<and>
     set (rq_Mounts r) = set (rq_Mounts s) \<and>
     set (rq_Privileges r) = set (rq_Privileges s) \<and>
     normalizeProbe ` set (rq_Verification r) = normalizeProbe ` set (rq_Verification s)"

lemma sort_keep_first_cong:
  "sort (keep_first [] xs) = sort (keep_first [] ys) \<longleftrightarrow> set xs = set (ys :: 'a :: linorder list)"
  by (metis finite_set set_sorted_list_of_set sort_keep_first)

lemma Normalize_eq_iff:
  assumes "Validate r = None" "Validate s = None"
  shows "Normalize r = Normalize s \<longleftrightarrow> same_capabilities r s"
proof -
  have "distinct (map probe_key (rq_Verification r))" "distinct (map probe_key (rq_Verification s))"
    using assms by (simp_all add: Validate_None_iff well_formed_def)
  note probes = sort_probes_cong [OF this]
  show ?thesis
    by (simp only: Normalize_def SandboxRequirements.ext_inject normalizeTokens_cong
        sort_keep_first_cong probes same_capabilities_def simp_thms)
qed

text \<open>
  C31. The content address separates and identifies requests as documented: for two validated
  requests the byte sequence that \<^verbatim>\<open>Hash\<close> feeds to SHA-256 is the same exactly when they ask for
  the same capabilities, whatever the order, case, spacing and repetition of their entries; so
  requests for the same capabilities share their hash.
\<close>

theorem hash_input_canonical:
  assumes "Validate r = None" "Validate s = None"
  shows "(encode (requirements_json (Normalize r)) = encode (requirements_json (Normalize s)) \<longleftrightarrow>
      same_capabilities r s) \<and> (same_capabilities r s \<longrightarrow> req_Hash r = req_Hash s)"
  using Normalize_eq_iff [OF assms]
  by (auto simp: encode_inject requirements_json_inject req_Hash_def)

definition req_sample :: SandboxRequirements where
  "req_sample = empty_requirements\<lparr>rq_Languages := ['' Go'', ''java''],
     rq_Verification := [\<lparr>vp_Name = ''Go'', vp_Command = ''go version'', vp_ExpectExit = 0\<rparr>]\<rparr>"

definition req_sample2 :: SandboxRequirements where
  "req_sample2 = empty_requirements\<lparr>rq_Languages := [''java'', ''go'', ''JAVA ''], rq_Network := NetworkRestricted,
     rq_Verification := [\<lparr>vp_Name = ''go'', vp_Command = ''go version '', vp_ExpectExit = 0\<rparr>]\<rparr>"

lemma req_samples_valid: "Validate req_sample = None" "Validate req_sample2 = None"
  by code_simp+

lemma req_samples_same: "same_capabilities req_sample req_sample2"
  by code_simp

theorem hash_input_canonical_witness: "req_Hash req_sample = req_Hash req_sample2"
  using hash_input_canonical [OF req_samples_valid] req_samples_same by blast

end
