(* ===== verification/Sandbox_Profile.thy ===== *)
theory Sandbox_Profile
  imports Sandbox_Normalize Go_Path Go_Values
begin

text \<open>
  The profile catalog and the capability matcher, \<^verbatim>\<open>sandboxmanager/profile.go\<close> and
  \<^verbatim>\<open>catalog_builtin.go\<close>. A \<^verbatim>\<open>*Catalog\<close> is an option, \<open>None\<close> for nil. The sets of lowered names are
  lists without repetition; the order in which Go ranges over them reaches no result, since the
  unmet capabilities are counted and then sorted.
\<close>

section \<open>Profiles and catalogs\<close>

record Profile =
  pf_Name :: string
  pf_Version :: string
  pf_DevcontainerPath :: string
  pf_Languages :: "string list"
  pf_Tools :: "string list"
  pf_Services :: "string list"
  pf_AllowedNetwork :: "NetworkPolicy list"
  pf_AllowedPrivileges :: "Privilege list"
  pf_TTL :: int

definition profile_ID :: "Profile \<Rightarrow> string" where
  "profile_ID p = pf_Name p @ ''@'' @ pf_Version p"

definition DefaultTTL :: int where
  "DefaultTTL = 24 * 3600 * second_ns"

definition ResolvedTTL :: "Profile \<Rightarrow> int" where
  "ResolvedTTL p = (if pf_TTL p \<le> 0 then DefaultTTL else pf_TTL p)"

record Catalog =
  ct_profiles :: "Profile list"

datatype catalog_error =
    ProfileNameEmpty nat
  | ProfileDuplicate nat string
  | ProfileVersionEmpty string
  | ProfilePathEmpty string
  | ProfileNetworkEmpty string

fun NewCatalog_loop :: "string list \<Rightarrow> nat \<Rightarrow> Profile list \<Rightarrow> catalog_error option" where
  "NewCatalog_loop seen i [] = None"
| "NewCatalog_loop seen i (p # ps) =
     (let name = ToLower (TrimSpace (pf_Name p)) in
      if name = [] then Some (ProfileNameEmpty i)
      else if name \<in> set seen then Some (ProfileDuplicate i (pf_Name p))
      else if TrimSpace (pf_Version p) = [] then Some (ProfileVersionEmpty (pf_Name p))
      else if TrimSpace (pf_DevcontainerPath p) = [] then Some (ProfilePathEmpty (pf_Name p))
      else if pf_AllowedNetwork p = [] then Some (ProfileNetworkEmpty (pf_Name p))
      else NewCatalog_loop (name # seen) (Suc i) ps)"

definition NewCatalog :: "Profile list \<Rightarrow> catalog_error + Catalog" where
  "NewCatalog ps = (case NewCatalog_loop [] 0 ps of
      Some e \<Rightarrow> Inl e | None \<Rightarrow> Inr \<lparr>ct_profiles = ps\<rparr>)"

definition catalog_Profiles :: "Catalog option \<Rightarrow> Profile list" where
  "catalog_Profiles c = (case c of None \<Rightarrow> [] | Some cat \<Rightarrow> ct_profiles cat)"

fun Get_loop :: "string \<Rightarrow> Profile list \<Rightarrow> Profile option" where
  "Get_loop target [] = None"
| "Get_loop target (p # ps) = (if ToLower (pf_Name p) = target then Some p else Get_loop target ps)"

definition catalog_Get :: "Catalog option \<Rightarrow> string \<Rightarrow> Profile option" where
  "catalog_Get c name = (case c of None \<Rightarrow> None
      | Some cat \<Rightarrow> Get_loop (ToLower (TrimSpace name)) (ct_profiles cat))"

section \<open>The matcher\<close>

fun lowerSet_loop :: "string list \<Rightarrow> string list \<Rightarrow> string list" where
  "lowerSet_loop out [] = out"
| "lowerSet_loop out (s # ss) =
     (let k = ToLower (TrimSpace s) in
      if k = [] then lowerSet_loop out ss else lowerSet_loop (List.insert k out) ss)"

definition lowerSet :: "string list \<Rightarrow> string list" where
  "lowerSet xs = (if xs = [] then [] else lowerSet_loop [] xs)"

text \<open>One loop over needed names: count the advertised ones, collect the others.\<close>

fun need_loop :: "string \<Rightarrow> string list \<Rightarrow> int \<times> string list \<Rightarrow> string list \<Rightarrow> int \<times> string list" where
  "need_loop pre adv (s, unmet) [] = (s, unmet)"
| "need_loop pre adv (s, unmet) (k # ks) =
     (if k \<in> set adv then need_loop pre adv (s + 1, unmet) ks
      else need_loop pre adv (s, unmet @ [pre @ k]) ks)"

text \<open>One loop over advertised names: a point off for each that nobody asked for.\<close>

fun extra_loop :: "string list \<Rightarrow> int \<Rightarrow> string list \<Rightarrow> int" where
  "extra_loop need s [] = s"
| "extra_loop need s (k # ks) = (if k \<notin> set need then extra_loop need (s - 1) ks else extra_loop need s ks)"

record scored =
  sc_profile :: Profile
  sc_score :: int
  sc_unmet :: "string list"

definition score_profile :: "SandboxRequirements \<Rightarrow> Profile \<Rightarrow> scored" where
  "score_profile req p =
     (let needLang = lowerSet (rq_Languages req); needTool = lowerSet (rq_Tools req);
          needSvc = lowerSet (rq_Services req);
          advLang = lowerSet (pf_Languages p); advTool = lowerSet (pf_Tools p);
          advSvc = lowerSet (pf_Services p);
          su1 = need_loop ''language:'' advLang (0, []) needLang;
          su2 = need_loop ''tool:'' advTool su1 needTool;
          su3 = need_loop ''service:'' advSvc su2 needSvc;
          s4 = extra_loop needLang (fst su3) advLang;
          s5 = extra_loop needTool s4 advTool;
          s6 = extra_loop needSvc s5 advSvc
      in \<lparr>sc_profile = p, sc_score = s6, sc_unmet = snd su3\<rparr>)"

text \<open>The loop that keeps the index of the best covering entry, \<open>None\<close> for -1.\<close>

fun best_loop :: "scored list \<Rightarrow> nat option \<Rightarrow> nat \<Rightarrow> scored list \<Rightarrow> nat option" where
  "best_loop all best i [] = best"
| "best_loop all best i (sc # scs) =
     (if sc_unmet sc \<noteq> [] then best_loop all best (Suc i) scs
      else (case best of
              None \<Rightarrow> best_loop all (Some i) (Suc i) scs
            | Some b \<Rightarrow> if sc_score sc > sc_score (all ! b) then best_loop all (Some i) (Suc i) scs
                        else best_loop all best (Suc i) scs))"

text \<open>A nil slice is the empty list.\<close>

fun least_unmet_loop :: "string list \<Rightarrow> scored list \<Rightarrow> string list" where
  "least_unmet_loop least [] = least"
| "least_unmet_loop least (sc # scs) =
     (if least = [] \<or> length (sc_unmet sc) < length least then least_unmet_loop (sc_unmet sc) scs
      else least_unmet_loop least scs)"

datatype match_error = ErrEmptyCatalog | NoMatchError "string list"

definition MatchProfile :: "SandboxRequirements \<Rightarrow> Catalog option \<Rightarrow> match_error + Profile" where
  "MatchProfile req catalog =
     (if catalog = None \<or> catalog_Profiles catalog = [] then Inl ErrEmptyCatalog
      else (let scoredAll = map (score_profile req) (catalog_Profiles catalog) in
        (case best_loop scoredAll None 0 scoredAll of
           Some b \<Rightarrow> Inr (sc_profile (scoredAll ! b))
         | None \<Rightarrow> Inl (NoMatchError (sort (least_unmet_loop [] scoredAll))))))"

fun match_error_msg :: "match_error \<Rightarrow> string" where
  "match_error_msg ErrEmptyCatalog = ''sandboxmanager: profile catalog is empty''"
| "match_error_msg (NoMatchError unmet) =
     (if unmet = [] then ''sandboxmanager: no profile match (no unmet detail)''
      else ''sandboxmanager: no profile match; unmet capabilities: '' @ Join unmet '', '')"

definition IsNoMatch :: "match_error \<Rightarrow> bool" where
  "IsNoMatch e = (case e of NoMatchError _ \<Rightarrow> True | ErrEmptyCatalog \<Rightarrow> False)"

definition ProfileAllowsPrivilege :: "Profile \<Rightarrow> Privilege \<Rightarrow> bool" where
  "ProfileAllowsPrivilege p priv \<longleftrightarrow> priv \<in> set (pf_AllowedPrivileges p)"

definition ProfileAllowsNetwork :: "Profile \<Rightarrow> NetworkPolicy \<Rightarrow> bool" where
  "ProfileAllowsNetwork p n = ((if n = [] then NetworkRestricted else n) \<in> set (pf_AllowedNetwork p))"

definition builtin_profiles :: "string \<Rightarrow> Profile list" where
  "builtin_profiles repoRoot =
     [\<lparr>pf_Name = ''go-backend'', pf_Version = ''v1'',
       pf_DevcontainerPath = path_Join [repoRoot, ''.devcontainer'', ''go-backend'', ''devcontainer.json''],
       pf_Languages = [''go''], pf_Tools = [''task'', ''gh'', ''jq'', ''git''], pf_Services = [],
       pf_AllowedNetwork = [NetworkRestricted, NetworkNone], pf_AllowedPrivileges = [],
       pf_TTL = 24 * 3600 * second_ns\<rparr>,
      \<lparr>pf_Name = ''svelte-ui'', pf_Version = ''v1'',
       pf_DevcontainerPath = path_Join [repoRoot, ''.devcontainer'', ''svelte-ui'', ''devcontainer.json''],
       pf_Languages = [''node''], pf_Tools = [''npm'', ''playwright'', ''git''], pf_Services = [],
       pf_AllowedNetwork = [NetworkRestricted, NetworkPublic, NetworkNone], pf_AllowedPrivileges = [],
       pf_TTL = 24 * 3600 * second_ns\<rparr>,
      \<lparr>pf_Name = ''full-stack-e2e'', pf_Version = ''v1'',
       pf_DevcontainerPath = path_Join [repoRoot, ''.devcontainer'', ''full-stack-e2e'', ''devcontainer.json''],
       pf_Languages = [''go'', ''node''],
       pf_Tools = [''task'', ''docker'', ''npm'', ''playwright'', ''git'', ''gh''], pf_Services = [''nats''],
       pf_AllowedNetwork = [NetworkRestricted, NetworkPublic, NetworkNone],
       pf_AllowedPrivileges = [PrivilegeDockerSocket],
       pf_TTL = 12 * 3600 * second_ns\<rparr>]"

definition BuiltinCatalog :: "string \<Rightarrow> catalog_error + Catalog" where
  "BuiltinCatalog repoRoot = NewCatalog (builtin_profiles repoRoot)"

section \<open>Scores in terms of sets of capabilities\<close>

lemma lowerSet_loop_facts:
  "set (lowerSet_loop out xs) = set out \<union> token_set xs \<and> (distinct out \<longrightarrow> distinct (lowerSet_loop out xs))"
proof (induction xs arbitrary: out)
  case (Cons x xs)
  then show ?case by (cases "norm_token x = []") (auto simp: token_set_def Let_def)
qed (simp add: token_set_def)

lemma set_lowerSet [simp]: "set (lowerSet xs) = token_set xs"
  using lowerSet_loop_facts [of "[]" xs] by (simp add: lowerSet_def token_set_def)

lemma distinct_lowerSet [simp]: "distinct (lowerSet xs)"
  using lowerSet_loop_facts [of "[]" xs] by (simp add: lowerSet_def)

lemma need_loop_eq:
  "need_loop pre adv su ks = (fst su + int (length (filter (\<lambda>k. k \<in> set adv) ks)),
     snd su @ map ((@) pre) (filter (\<lambda>k. k \<notin> set adv) ks))"
  by (induction pre adv su ks rule: need_loop.induct) auto

lemma extra_loop_eq: "extra_loop need s ks = s - int (length (filter (\<lambda>k. k \<notin> set need) ks))"
  by (induction need s ks rule: extra_loop.induct) auto

lemma length_filter_lowerSet:
  "length (filter P (lowerSet xs)) = card {k \<in> token_set xs. P k}"
  by (metis distinct_card distinct_filter distinct_lowerSet set_filter set_lowerSet)

text \<open>What a profile lacks for a request, and what it has that the request did not ask for.\<close>

definition missing_caps :: "SandboxRequirements \<Rightarrow> Profile \<Rightarrow> string set" where
  "missing_caps req p =
     (@) ''language:'' ` (token_set (rq_Languages req) - token_set (pf_Languages p)) \<union>
     (@) ''tool:'' ` (token_set (rq_Tools req) - token_set (pf_Tools p)) \<union>
     (@) ''service:'' ` (token_set (rq_Services req) - token_set (pf_Services p))"

definition covers :: "SandboxRequirements \<Rightarrow> Profile \<Rightarrow> bool" where
  "covers req p \<longleftrightarrow> token_set (rq_Languages req) \<subseteq> token_set (pf_Languages p) \<and>
     token_set (rq_Tools req) \<subseteq> token_set (pf_Tools p) \<and>
     token_set (rq_Services req) \<subseteq> token_set (pf_Services p)"

definition surplus :: "SandboxRequirements \<Rightarrow> Profile \<Rightarrow> nat" where
  "surplus req p = card (token_set (pf_Languages p) - token_set (rq_Languages req)) +
     card (token_set (pf_Tools p) - token_set (rq_Tools req)) +
     card (token_set (pf_Services p) - token_set (rq_Services req))"

definition need_count :: "SandboxRequirements \<Rightarrow> nat" where
  "need_count req = card (token_set (rq_Languages req)) + card (token_set (rq_Tools req)) +
     card (token_set (rq_Services req))"

lemma set_sc_unmet: "set (sc_unmet (score_profile req p)) = missing_caps req p"
  by (auto simp: score_profile_def Let_def need_loop_eq missing_caps_def)

lemma distinct_sc_unmet: "distinct (sc_unmet (score_profile req p))"
  by (auto simp: score_profile_def Let_def need_loop_eq distinct_map inj_on_def)

lemma missing_caps_empty: "missing_caps req p = {} \<longleftrightarrow> covers req p"
  by (auto simp: missing_caps_def covers_def)

lemma sc_unmet_Nil: "sc_unmet (score_profile req p) = [] \<longleftrightarrow> covers req p"
  by (metis missing_caps_empty set_empty set_sc_unmet)

lemma sc_profile_score [simp]: "sc_profile (score_profile req p) = p"
  by (simp add: score_profile_def Let_def)

lemma sort_distinct_set: "distinct xs \<Longrightarrow> sort xs = sorted_list_of_set (set xs)"
  by (metis distinct_remdups_id sorted_list_of_set_sort_remdups)

lemma sort_sc_unmet: "sort (sc_unmet (score_profile req p)) = sorted_list_of_set (missing_caps req p)"
  by (simp add: sort_distinct_set distinct_sc_unmet set_sc_unmet)

lemma length_sc_unmet: "length (sc_unmet (score_profile req p)) = card (missing_caps req p)"
  by (metis distinct_card distinct_sc_unmet set_sc_unmet)

lemma card_need: "A \<subseteq> B \<Longrightarrow> {k \<in> A. k \<in> B} = A" and card_extra: "{k \<in> B. k \<notin> A} = B - A"
  by auto

lemma score_covers:
  assumes "covers req p"
  shows "sc_score (score_profile req p) = int (need_count req) - int (surplus req p)"
  using assms unfolding covers_def score_profile_def Let_def need_loop_eq extra_loop_eq
  by (simp add: length_filter_lowerSet card_need card_extra surplus_def need_count_def)

section \<open>The selection loops\<close>

definition is_best :: "scored list \<Rightarrow> nat \<Rightarrow> nat option \<Rightarrow> bool" where
  "is_best all n b = (case b of
      None \<Rightarrow> \<forall>j < n. sc_unmet (all ! j) \<noteq> []
    | Some k \<Rightarrow> k < n \<and> sc_unmet (all ! k) = [] \<and>
        (\<forall>j < n. sc_unmet (all ! j) = [] \<longrightarrow> sc_score (all ! j) \<le> sc_score (all ! k)) \<and>
        (\<forall>j < k. sc_unmet (all ! j) = [] \<longrightarrow> sc_score (all ! j) < sc_score (all ! k)))"

lemma is_best_skip:
  assumes "is_best all i b" and "sc_unmet (all ! i) \<noteq> [] \<or> (\<exists>k. b = Some k \<and> sc_score (all ! i) \<le> sc_score (all ! k))"
  shows "is_best all (Suc i) b"
  using assms by (auto simp: is_best_def less_Suc_eq split: option.splits)

lemma is_best_take:
  assumes "is_best all i b" and "sc_unmet (all ! i) = []"
    and "case b of None \<Rightarrow> True | Some k \<Rightarrow> sc_score (all ! k) < sc_score (all ! i)"
  shows "is_best all (Suc i) (Some i)"
  using assms by (fastforce simp: is_best_def less_Suc_eq split: option.splits)

lemma best_loop_best:
  "is_best all i b \<Longrightarrow> drop i all = scs \<Longrightarrow> i \<le> length all \<Longrightarrow> is_best all (length all) (best_loop all b i scs)"
proof (induction all b i scs rule: best_loop.induct)
  case (2 all b i sc scs)
  then have sc: "sc = all ! i" and rest: "drop (Suc i) all = scs" "Suc i \<le> length all"
    by (metis drop_eq_Nil2 hd_drop_conv_nth linorder_not_le list.distinct(1) list.sel(1),
        metis drop_Suc list.sel(3) tl_drop, metis Suc_leI drop_all linorder_not_le list.distinct(1))
  show ?case
  proof (cases "sc_unmet sc = []")
    case False
    then show ?thesis using 2 rest sc is_best_skip [of all i b] by simp
  next
    case True
    show ?thesis
    proof (cases b)
      case None
      then show ?thesis using 2 True rest sc is_best_take [of all i b] by simp
    next
      case (Some k)
      then show ?thesis
        using 2 True rest sc is_best_take [of all i b] is_best_skip [of all i b] by (cases "sc_score (all ! k) < sc_score sc") auto
    qed
  qed
qed simp

text \<open>The loop for the error keeps the first of the shortest lists.\<close>

definition first_min :: "(nat \<Rightarrow> nat) \<Rightarrow> nat \<Rightarrow> nat \<Rightarrow> bool" where
  "first_min f n k \<longleftrightarrow> k < n \<and> (\<forall>j < n. f k \<le> f j) \<and> (\<forall>j < k. f k < f j)"

lemma first_min_keep: "first_min f n k \<Longrightarrow> f k \<le> f n \<Longrightarrow> first_min f (Suc n) k"
  by (auto simp: first_min_def less_Suc_eq)

lemma first_min_new: "first_min f n k \<Longrightarrow> f n < f k \<Longrightarrow> first_min f (Suc n) n"
  by (fastforce simp: first_min_def less_Suc_eq)

lemma least_unmet_loop_min:
  assumes "\<forall>sc \<in> set all. sc_unmet sc \<noteq> []" "drop n all = scs" "n \<le> length all"
    and "(n = 0 \<and> u = []) \<or> (\<exists>k. first_min (\<lambda>j. length (sc_unmet (all ! j))) n k \<and> u = sc_unmet (all ! k))"
    and "all \<noteq> []"
  shows "\<exists>k. first_min (\<lambda>j. length (sc_unmet (all ! j))) (length all) k \<and> least_unmet_loop u scs = sc_unmet (all ! k)"
  using assms(2-4)
proof (induction scs arbitrary: n u)
  case Nil
  with assms(5) show ?case by auto
next
  case (Cons sc scs)
  let ?f = "\<lambda>j. length (sc_unmet (all ! j))"
  have n: "n < length all" using Cons.prems(1) by (metis drop_all linorder_not_le list.distinct(1))
  then have sc: "sc = all ! n" and rest: "drop (Suc n) all = scs"
    using Cons.prems(1) by (simp_all add: Cons_nth_drop_Suc [symmetric])
  have u: "u = [] \<Longrightarrow> n = 0"
    using Cons.prems(3) assms(1) n by (auto simp: first_min_def) (metis less_trans nth_mem)
  define u' where "u' = (if u = [] \<or> length (sc_unmet sc) < length u then sc_unmet sc else u)"
  have "\<exists>k. first_min ?f (Suc n) k \<and> u' = sc_unmet (all ! k)"
  proof (cases "u = []")
    case True
    with u sc show ?thesis by (intro exI [of _ 0]) (auto simp: u'_def first_min_def)
  next
    case False
    with Cons.prems(3) obtain k where k: "first_min ?f n k" "u = sc_unmet (all ! k)" by auto
    from False k sc show ?thesis
      using first_min_keep [OF k(1)] first_min_new [OF k(1)]
      by (cases "length (sc_unmet sc) < length u") (auto simp: u'_def)
  qed
  then have "\<exists>k. first_min ?f (length all) k \<and> least_unmet_loop u' scs = sc_unmet (all ! k)"
    using n by (intro Cons.IH [OF rest]) auto
  moreover have "least_unmet_loop u (sc # scs) = least_unmet_loop u' scs" by (simp add: u'_def)
  ultimately show ?case by simp
qed

section \<open>The matcher is right\<close>

abbreviation fits_better :: "SandboxRequirements \<Rightarrow> Profile list \<Rightarrow> nat \<Rightarrow> bool" where
  "fits_better req ps i \<equiv> i < length ps \<and> covers req (ps ! i) \<and>
     (\<forall>j < length ps. covers req (ps ! j) \<longrightarrow> surplus req (ps ! i) \<le> surplus req (ps ! j)) \<and>
     (\<forall>j < i. covers req (ps ! j) \<longrightarrow> surplus req (ps ! i) < surplus req (ps ! j))"

lemma best_map_iff:
  "is_best (map (score_profile req) ps) (length ps) (Some i) \<longleftrightarrow> fits_better req ps i"
  by (auto simp: is_best_def sc_unmet_Nil score_covers) 

lemma best_loop_map:
  "is_best (map (score_profile req) ps) (length ps)
     (best_loop (map (score_profile req) ps) None 0 (map (score_profile req) ps))"
  using best_loop_best [of "map (score_profile req) ps" 0 None "map (score_profile req) ps"]
  by (simp add: is_best_def)

lemma fits_better_unique: "fits_better req ps i \<Longrightarrow> fits_better req ps j \<Longrightarrow> i = j"
  by (metis leD linorder_neqE_nat)

lemma MatchProfile_cases:
  "ct_profiles c \<noteq> [] \<Longrightarrow> MatchProfile req (Some c) =
     (let sc = map (score_profile req) (ct_profiles c) in
      case best_loop sc None 0 sc of Some b \<Rightarrow> Inr (ct_profiles c ! b)
      | None \<Rightarrow> Inl (NoMatchError (sort (least_unmet_loop [] sc))))"
  using best_loop_map [of req "ct_profiles c"]
  by (auto simp: MatchProfile_def catalog_Profiles_def Let_def is_best_def split: option.splits)

text \<open>
  C30. \<^verbatim>\<open>MatchProfile\<close> returns a profile exactly when that profile covers every needed language, tool
  and service, advertises the fewest capabilities nobody asked for among all covering profiles,
  and is the earliest such in catalog order.
\<close>

theorem MatchProfile_snuggest:
  assumes "ct_profiles c \<noteq> []"
  shows "MatchProfile req (Some c) = Inr p \<longleftrightarrow>
    (\<exists>i < length (ct_profiles c). p = ct_profiles c ! i \<and> covers req p \<and>
       (\<forall>j < length (ct_profiles c). covers req (ct_profiles c ! j) \<longrightarrow>
          surplus req p \<le> surplus req (ct_profiles c ! j)) \<and>
       (\<forall>j < i. covers req (ct_profiles c ! j) \<longrightarrow> surplus req p < surplus req (ct_profiles c ! j)))"
    (is "?l \<longleftrightarrow> ?r")
proof -
  let ?ps = "ct_profiles c"
  let ?sc = "map (score_profile req) ?ps"
  show ?thesis
  proof (cases "best_loop ?sc None 0 ?sc")
    case None
    then have "\<forall>q \<in> set ?ps. \<not> covers req q"
      using best_loop_map [of req ?ps] by (auto simp: is_best_def sc_unmet_Nil in_set_conv_nth)
    with None show ?thesis by (auto simp: MatchProfile_cases [OF assms] Let_def)
  next
    case (Some b)
    then have b: "fits_better req ?ps b" using best_loop_map [of req ?ps] by (simp add: best_map_iff)
    have "?r \<longleftrightarrow> (\<exists>i. fits_better req ?ps i \<and> p = ?ps ! i)" by auto
    also have "\<dots> \<longleftrightarrow> p = ?ps ! b" using b fits_better_unique by blast
    finally show ?thesis using Some by (auto simp: MatchProfile_cases [OF assms] Let_def)
  qed
qed

text \<open>
  When no profile covers the request, \<^verbatim>\<open>MatchProfile\<close> fails with the sorted list of exactly the
  capabilities missing from the profile that lacks the fewest (the earliest of those in catalog
  order); the list is never empty.
\<close>

theorem MatchProfile_no_match:
  assumes "ct_profiles c \<noteq> []" and "\<forall>q \<in> set (ct_profiles c). \<not> covers req q"
  shows "\<exists>i. first_min (\<lambda>j. card (missing_caps req (ct_profiles c ! j))) (length (ct_profiles c)) i \<and>
     MatchProfile req (Some c) =
       Inl (NoMatchError (sorted_list_of_set (missing_caps req (ct_profiles c ! i)))) \<and>
     missing_caps req (ct_profiles c ! i) \<noteq> {}"
proof -
  let ?ps = "ct_profiles c"
  let ?sc = "map (score_profile req) ?ps"
  have "\<exists>k. first_min (\<lambda>j. length (sc_unmet (?sc ! j))) (length ?sc) k \<and>
     least_unmet_loop [] ?sc = sc_unmet (?sc ! k)"
    using assms by (intro least_unmet_loop_min [of _ 0]) (auto simp: sc_unmet_Nil)
  then obtain k where k: "first_min (\<lambda>j. length (sc_unmet (?sc ! j))) (length ?sc) k"
    "least_unmet_loop [] ?sc = sc_unmet (?sc ! k)" by blast
  then have len: "k < length ?ps" by (simp add: first_min_def)
  have "best_loop ?sc None 0 ?sc = None"
    using best_loop_map [of req ?ps] assms(2)
    by (cases "best_loop ?sc None 0 ?sc") (auto simp: best_map_iff)
  then have "MatchProfile req (Some c) = Inl (NoMatchError (sorted_list_of_set (missing_caps req (?ps ! k))))"
    using k len by (simp add: MatchProfile_cases [OF assms(1)] Let_def sort_sc_unmet)
  moreover have "first_min (\<lambda>j. card (missing_caps req (?ps ! j))) (length ?ps) k"
    using k(1) len by (auto simp: first_min_def length_sc_unmet)
  moreover have "missing_caps req (?ps ! k) \<noteq> {}" using assms(2) len by (simp add: missing_caps_empty)
  ultimately show ?thesis by blast
qed

section \<open>The catalog\<close>

definition profile_ok :: "Profile \<Rightarrow> bool" where
  "profile_ok p \<longleftrightarrow> norm_token (pf_Name p) \<noteq> [] \<and> TrimSpace (pf_Version p) \<noteq> [] \<and>
     TrimSpace (pf_DevcontainerPath p) \<noteq> [] \<and> pf_AllowedNetwork p \<noteq> []"

lemma NewCatalog_loop_None:
  "NewCatalog_loop seen i ps = None \<longleftrightarrow> (\<forall>p \<in> set ps. profile_ok p) \<and>
     distinct (map (norm_token \<circ> pf_Name) ps) \<and> set seen \<inter> (norm_token \<circ> pf_Name) ` set ps = {}"
  by (induction seen i ps rule: NewCatalog_loop.induct) (auto simp: Let_def profile_ok_def)

lemma NewCatalog_Inr:
  "NewCatalog ps = Inr c \<longleftrightarrow> (\<forall>p \<in> set ps. profile_ok p) \<and>
     distinct (map (norm_token \<circ> pf_Name) ps) \<and> c = \<lparr>ct_profiles = ps\<rparr>"
  using NewCatalog_loop_None [of "[]" 0 ps] by (auto simp: NewCatalog_def split: option.splits)

lemma Get_loop_Some: "Get_loop t ps = Some q \<Longrightarrow> q \<in> set ps \<and> ToLower (pf_Name q) = t"
  by (induction ps) (auto split: if_splits)

lemma Get_loop_None: "Get_loop t ps = None \<longleftrightarrow> (\<forall>q \<in> set ps. ToLower (pf_Name q) \<noteq> t)"
  by (induction ps) auto

lemma ToLower_trim_eq: "ToLower s = ToLower (TrimSpace s) \<Longrightarrow> TrimSpace s = s"
proof -
  assume "ToLower s = ToLower (TrimSpace s)"
  then have len: "length (TrimSpace s) = length s" by (metis ToLower_def length_map)
  have "length (TrimSpace s) \<le> length (dropWhile is_space s)"
    unfolding TrimSpace_def by (metis length_dropWhile_le length_rev)
  with len have "length (dropWhile is_space s) = length s"
    using length_dropWhile_le [of is_space s] by simp
  then have 1: "dropWhile is_space s = s"
    by (metis append_eq_append_conv self_append_conv2 suffix_def suffix_dropWhile)
  then have "length (dropWhile is_space (rev s)) = length (rev s)" using len by (simp add: TrimSpace_def)
  then have "dropWhile is_space (rev s) = rev s"
    by (metis append_eq_append_conv self_append_conv2 suffix_def suffix_dropWhile)
  with 1 show ?thesis by (simp add: TrimSpace_def)
qed

text \<open>
  A catalog that \<^verbatim>\<open>NewCatalog\<close> accepts finds a registered profile under its own name exactly
  when that name carries no surrounding white space; a profile registered with such white space
  is accepted and can then be found under no name at all.
\<close>

theorem catalog_lookup:
  assumes "NewCatalog ps = Inr c" "p \<in> set ps"
  shows "(TrimSpace (pf_Name p) = pf_Name p \<longrightarrow> catalog_Get (Some c) (pf_Name p) = Some p) \<and>
     (TrimSpace (pf_Name p) \<noteq> pf_Name p \<longrightarrow> (\<forall>n. catalog_Get (Some c) n \<noteq> Some p))"
proof -
  have c: "c = \<lparr>ct_profiles = ps\<rparr>" and d: "distinct (map (norm_token \<circ> pf_Name) ps)"
    using assms by (simp_all add: NewCatalog_Inr)
  have uniq: "q = p" if "q \<in> set ps" "ToLower (pf_Name q) = norm_token (pf_Name p)" for q
  proof -
    have "norm_token (pf_Name q) = TrimSpace (ToLower (pf_Name q))" by (simp add: TrimSpace_ToLower)
    also have "\<dots> = norm_token (pf_Name p)" by (simp add: that(2) TrimSpace_ToLower)
    finally show ?thesis using d assms(2) that(1) by (auto simp: distinct_map inj_on_def)
  qed
  have "catalog_Get (Some c) (pf_Name p) = Some p" if "TrimSpace (pf_Name p) = pf_Name p"
  proof (cases "Get_loop (norm_token (pf_Name p)) ps")
    case None
    with that assms(2) show ?thesis by (auto simp: Get_loop_None)
  next
    case (Some q)
    with uniq [of q] Get_loop_Some [OF Some] show ?thesis by (simp add: catalog_Get_def c)
  qed
  moreover have "catalog_Get (Some c) n \<noteq> Some p" if "TrimSpace (pf_Name p) \<noteq> pf_Name p" for n
  proof
    assume "catalog_Get (Some c) n = Some p"
    then have "ToLower (pf_Name p) = norm_token n"
      using Get_loop_Some by (simp add: catalog_Get_def c)
    then have "TrimSpace (ToLower (pf_Name p)) = ToLower (pf_Name p)" by (simp add: TrimSpace_ToLower)
    then have "ToLower (pf_Name p) = ToLower (TrimSpace (pf_Name p))" by (simp add: TrimSpace_ToLower)
    with that show False using ToLower_trim_eq by blast
  qed
  ultimately show ?thesis by blast
qed

section \<open>The built-in catalog\<close>

lemma TrimSpace_suffix_neq_Nil:
  assumes "suffix e s" "e \<noteq> []" "\<not> is_space (last e)"
  shows "TrimSpace s \<noteq> []"
proof
  assume nil: "TrimSpace s = []"
  have "last e \<in> set s" using assms(1,2) by (metis last_in_set set_mono_suffix subsetD)
  then have "last e \<in> set (dropWhile is_space s)"
    using assms by (metis dropWhile_append3 in_set_conv_decomp)
  moreover have "\<forall>c \<in> set (dropWhile is_space s). is_space c"
    using nil by (simp add: TrimSpace_def)
  ultimately show False using assms(3) by blast
qed

lemma devcontainer_path_nonempty:
  "TrimSpace (path_Join [repo, ''.devcontainer'', d, ''devcontainer.json'']) \<noteq> []"
proof -
  let ?e = "''devcontainer.json''"
  have join: "Join (ne @ [?e]) ''/'' = Join ne ''/'' @ ''/'' @ ?e" if "ne \<noteq> []" for ne
    using that by (simp add: Join_snoc)
  define ne where "ne = filter (\<lambda>e. e \<noteq> []) [repo, ''.devcontainer'', d]"
  have "filter (\<lambda>e. e \<noteq> []) [repo, ''.devcontainer'', d, ?e] = ne @ [?e]" "ne \<noteq> []"
    by (simp_all add: ne_def)
  then have "path_Join [repo, ''.devcontainer'', d, ?e] = path_Clean (Join (ne @ [?e]) ''/'')"
    unfolding path_Join_def Let_def by (simp only: snoc_eq_iff_butlast append_is_Nil_conv list.distinct if_False simp_thms)
  also have "\<dots> = path_Clean (Join ne ''/'' @ ''/'' @ ?e)" using join \<open>ne \<noteq> []\<close> by presburger
  finally have "path_Join [repo, ''.devcontainer'', d, ?e] = path_Clean (Join ne ''/'' @ ''/'' @ ?e)" .
  moreover have "suffix ?e (path_Clean (Join ne ''/'' @ ''/'' @ ?e))"
    by (rule path_Clean_last) simp_all
  ultimately show ?thesis
    using TrimSpace_suffix_neq_Nil [of ?e] by (simp add: is_space_def byte_val_def)
qed

lemma builtin_names:
  "TrimSpace ''go-backend'' = ''go-backend''" "TrimSpace ''svelte-ui'' = ''svelte-ui''"
  "TrimSpace ''full-stack-e2e'' = ''full-stack-e2e''" "TrimSpace ''v1'' = ''v1''"
  "ToLower ''go-backend'' = ''go-backend''" "ToLower ''svelte-ui'' = ''svelte-ui''"
  "ToLower ''full-stack-e2e'' = ''full-stack-e2e''"
  by code_simp+

text \<open>
  \<^verbatim>\<open>BuiltinCatalog\<close> succeeds whatever the repository root is, and each of its three profiles is
  found again under its name.
\<close>

theorem BuiltinCatalog_total:
  "\<exists>c. BuiltinCatalog repo = Inr c \<and>
     (\<forall>p \<in> set (builtin_profiles repo). catalog_Get (Some c) (pf_Name p) = Some p)"
proof -
  let ?c = "\<lparr>ct_profiles = builtin_profiles repo\<rparr>"
  have ok: "BuiltinCatalog repo = Inr ?c"
    unfolding BuiltinCatalog_def NewCatalog_Inr
    by (simp add: builtin_profiles_def profile_ok_def devcontainer_path_nonempty builtin_names)
  have "\<forall>p \<in> set (builtin_profiles repo). catalog_Get (Some ?c) (pf_Name p) = Some p"
    by (simp add: builtin_profiles_def catalog_Get_def builtin_names)
  with ok show ?thesis by blast
qed

section \<open>Witnesses\<close>

abbreviation sample_catalog :: Catalog where
  "sample_catalog \<equiv> \<lparr>ct_profiles = builtin_profiles ''/repo''\<rparr>"

definition sample_req_go :: SandboxRequirements where
  "sample_req_go = empty_requirements\<lparr>rq_Languages := [''Go''], rq_Tools := [''git'']\<rparr>"

definition sample_req_rust :: SandboxRequirements where
  "sample_req_rust = empty_requirements\<lparr>rq_Languages := [''rust''], rq_Tools := [''git'']\<rparr>"

lemma sample_catalog_nonempty: "ct_profiles sample_catalog \<noteq> []"
  by (simp add: builtin_profiles_def)

lemma sample_match: "MatchProfile sample_req_go (Some sample_catalog) = Inr (builtin_profiles ''/repo'' ! 0)"
  by code_simp

theorem MatchProfile_snuggest_witness:
  "\<exists>i < length (builtin_profiles ''/repo''). builtin_profiles ''/repo'' ! i = builtin_profiles ''/repo'' ! 0 \<and>
   covers sample_req_go (builtin_profiles ''/repo'' ! i) \<and>
   (\<forall>j < length (builtin_profiles ''/repo''). covers sample_req_go (builtin_profiles ''/repo'' ! j) \<longrightarrow>
      surplus sample_req_go (builtin_profiles ''/repo'' ! i) \<le> surplus sample_req_go (builtin_profiles ''/repo'' ! j))"
  using MatchProfile_snuggest [OF sample_catalog_nonempty, THEN iffD1, OF sample_match] by auto

lemma sample_uncovered: "\<forall>q \<in> set (ct_profiles sample_catalog). \<not> covers sample_req_rust q"
  by code_simp

theorem MatchProfile_no_match_witness:
  "\<exists>i. MatchProfile sample_req_rust (Some sample_catalog) =
     Inl (NoMatchError (sorted_list_of_set (missing_caps sample_req_rust (builtin_profiles ''/repo'' ! i))))"
  using MatchProfile_no_match [OF sample_catalog_nonempty sample_uncovered] by auto

definition padded_profile :: Profile where
  "padded_profile = (builtin_profiles ''/repo'' ! 0)\<lparr>pf_Name := '' go-backend''\<rparr>"

theorem catalog_lookup_witness:
  "NewCatalog [padded_profile] = Inr \<lparr>ct_profiles = [padded_profile]\<rparr> \<and>
   (\<forall>n. catalog_Get (Some \<lparr>ct_profiles = [padded_profile]\<rparr>) n \<noteq> Some padded_profile)"
proof -
  have "NewCatalog [padded_profile] = Inr \<lparr>ct_profiles = [padded_profile]\<rparr>" by code_simp
  moreover have "TrimSpace (pf_Name padded_profile) \<noteq> pf_Name padded_profile" by code_simp
  ultimately show ?thesis using catalog_lookup [of "[padded_profile]"] by simp
qed

theorem BuiltinCatalog_total_witness:
  "\<exists>c. BuiltinCatalog ''/repo'' = Inr c \<and>
     catalog_Get (Some c) (pf_Name (builtin_profiles ''/repo'' ! 2)) = Some (builtin_profiles ''/repo'' ! 2)"
proof -
  have "builtin_profiles ''/repo'' ! 2 \<in> set (builtin_profiles ''/repo'')"
    by (simp add: builtin_profiles_def)
  then show ?thesis using BuiltinCatalog_total [of "''/repo''"] by blast
qed

end
