(* ===== verification/Sandbox_Admission.thy ===== *)
theory Sandbox_Admission
  imports Sandbox_Profile
begin

text \<open>
  The admission gates of a sandbox request, \<^verbatim>\<open>sandboxmanager/admission.go\<close>: which requests the
  matched profile and the operator's policy admit, hold for review, or deny.
\<close>

section \<open>Data\<close>

record AdmissionPolicy =
  ap_AllowPublicNetwork :: bool
  ap_AllowPrivilegedContainers :: bool
  ap_AvailableSecrets :: "string list"

datatype AdmissionOutcome = AdmissionAdmitted | AdmissionPending | AdmissionDenied

fun outcome_str :: "AdmissionOutcome \<Rightarrow> string" where
  "outcome_str AdmissionAdmitted = ''admitted''"
| "outcome_str AdmissionPending = ''admission_pending''"
| "outcome_str AdmissionDenied = ''denied''"

record AdmissionResult =
  ar_Outcome :: AdmissionOutcome
  ar_PendingReasons :: "string list"
  ar_DeniedReasons :: "string list"

definition admission_Reasons :: "AdmissionResult \<Rightarrow> string list" where
  "admission_Reasons r = ar_DeniedReasons r @ ar_PendingReasons r"

section \<open>dedupSorted\<close>

text \<open>
  The loop appends to \<^verbatim>\<open>in[:0]\<close>, so it overwrites the very array it is reading: \<open>i\<close> is the read
  index, \<open>j\<close> the length of the output slice, \<open>k\<close> the number of iterations left.
\<close>

fun dedup_loop :: "string list \<Rightarrow> nat \<Rightarrow> nat \<Rightarrow> nat \<Rightarrow> string list" where
  "dedup_loop arr i j 0 = take j arr"
| "dedup_loop arr i j (Suc k) =
     (let s = arr ! i in
      if i > 0 \<and> s = arr ! (i - 1) then dedup_loop arr (Suc i) j k
      else dedup_loop (arr[j := s]) (Suc i) (Suc j) k)"

definition dedupSorted :: "string list \<Rightarrow> string list" where
  "dedupSorted xs = (if xs = [] then [] else dedup_loop xs 0 0 (length xs))"

section \<open>AdmissionCheck\<close>

text \<open>The reasons collected so far: pending and denied.\<close>

type_synonym reasons = "string list \<times> string list"

abbreviation pend :: "string \<Rightarrow> reasons \<Rightarrow> reasons" where
  "pend r pd \<equiv> (fst pd @ [r], snd pd)"

abbreviation deny :: "string \<Rightarrow> reasons \<Rightarrow> reasons" where
  "deny r pd \<equiv> (fst pd, snd pd @ [r])"

definition privilege_gate :: "Profile \<Rightarrow> AdmissionPolicy \<Rightarrow> Privilege \<Rightarrow> reasons \<Rightarrow> reasons" where
  "privilege_gate profile policy p pd =
     (if p = PrivilegePrivileged then
        (if \<not> ap_AllowPrivilegedContainers policy then
           deny ''privilege:privileged requires AllowPrivilegedContainers operator policy'' pd
         else if \<not> ProfileAllowsPrivilege profile PrivilegePrivileged then
           deny (''privilege:privileged not allowed on profile '' @ profile_ID profile) pd
         else pend ''privilege:privileged requires chain admission-reviewer approval'' pd)
      else if p = PrivilegeDockerSocket then
        (if \<not> ProfileAllowsPrivilege profile PrivilegeDockerSocket then
           deny (''privilege:docker-socket not allowed on profile '' @ profile_ID profile) pd
         else pend ''privilege:docker-socket requires chain admission-reviewer approval'' pd)
      else deny (''privilege:'' @ p @ '' unknown to admission (Validate should have caught)'') pd)"

definition network_gate :: "Profile \<Rightarrow> AdmissionPolicy \<Rightarrow> NetworkPolicy \<Rightarrow> reasons \<Rightarrow> reasons" where
  "network_gate profile policy n pd =
     (if n = [] \<or> n = NetworkRestricted \<or> n = NetworkNone then
        (let net = (if n = [] then NetworkRestricted else n) in
         if \<not> ProfileAllowsNetwork profile net then
           deny (''network:'' @ net @ '' not allowed on profile '' @ profile_ID profile) pd
         else pd)
      else if n = NetworkPublic then
        (if \<not> ProfileAllowsNetwork profile NetworkPublic then
           deny (''network:public not allowed on profile '' @ profile_ID profile) pd
         else if \<not> ap_AllowPublicNetwork policy then
           pend ''network:public requires AllowPublicNetwork operator policy OR admission-reviewer approval'' pd
         else pd)
      else deny (''network:'' @ n @ '' unknown to admission (Validate should have caught)'') pd)"

definition secret_gate :: "AdmissionPolicy \<Rightarrow> string \<Rightarrow> reasons \<Rightarrow> reasons" where
  "secret_gate policy s pd =
     (if TrimSpace s \<notin> set (map TrimSpace (ap_AvailableSecrets policy)) then
        deny (''secret:'' @ s @ '' not pre-provisioned by operator'') pd
      else pd)"

definition mount_gate :: "MountClass \<Rightarrow> reasons \<Rightarrow> reasons" where
  "mount_gate m pd =
     (if m = MountWorkspaceWrite \<or> m = MountWorkspaceRead then pd
      else deny (''mount:'' @ m @ '' unknown to admission (Validate should have caught)'') pd)"

definition probe_gate :: "VerifyProbe \<Rightarrow> reasons \<Rightarrow> reasons" where
  "probe_gate p pd =
     (if TrimSpace (vp_Name p) = [] \<or> TrimSpace (vp_Command p) = [] then
        deny (''verification probe '' @ quote_str (vp_Name p) @ '' malformed (Validate should have caught)'') pd
      else pd)"

definition gate_reasons :: "SandboxRequirements \<Rightarrow> Profile \<Rightarrow> AdmissionPolicy \<Rightarrow> reasons" where
  "gate_reasons req profile policy =
     fold probe_gate (rq_Verification req)
      (fold mount_gate (rq_Mounts req)
       (fold (secret_gate policy) (rq_Secrets req)
        (network_gate profile policy (rq_Network req)
         (fold (privilege_gate profile policy) (rq_Privileges req) ([], [])))))"

definition AdmissionCheck :: "SandboxRequirements \<Rightarrow> Profile \<Rightarrow> AdmissionPolicy \<Rightarrow> AdmissionResult" where
  "AdmissionCheck req profile policy =
     (let pd = gate_reasons req profile policy;
          pending = dedupSorted (sort (fst pd));
          denied = dedupSorted (sort (snd pd))
      in if denied \<noteq> [] then
           \<lparr>ar_Outcome = AdmissionDenied, ar_PendingReasons = pending, ar_DeniedReasons = denied\<rparr>
         else if pending \<noteq> [] then
           \<lparr>ar_Outcome = AdmissionPending, ar_PendingReasons = pending, ar_DeniedReasons = []\<rparr>
         else \<lparr>ar_Outcome = AdmissionAdmitted, ar_PendingReasons = [], ar_DeniedReasons = []\<rparr>)"

section \<open>The in-place loop computes the sorted set\<close>

lemma remdups_adj_take_Suc:
  assumes "i < length xs"
  shows "remdups_adj (take (Suc i) xs) =
     (if i > 0 \<and> xs ! i = xs ! (i - 1) then remdups_adj (take i xs) else remdups_adj (take i xs) @ [xs ! i])"
proof (cases i)
  case 0
  with assms show ?thesis by (simp add: take_Suc_conv_app_nth)
next
  case (Suc m)
  with assms have "take i xs = take m xs @ [xs ! m]" "take (Suc i) xs = take m xs @ [xs ! m, xs ! i]"
    by (simp_all add: take_Suc_conv_app_nth)
  with Suc show ?thesis by (auto simp: remdups_adj_append_two)
qed

lemma dedup_loop_inv:
  assumes "i + k = length xs" "length arr = length xs" "j \<le> i" "drop i arr = drop i xs"
    and "i > 0 \<Longrightarrow> arr ! (i - 1) = xs ! (i - 1)" and "take j arr = remdups_adj (take i xs)"
  shows "dedup_loop arr i j k = remdups_adj xs"
  using assms
proof (induction k arbitrary: arr i j)
  case (Suc k)
  have i: "i < length xs" using Suc.prems(1) by simp
  have s: "arr ! i = xs ! i"
    using Suc.prems(2,4) i by (metis hd_drop_conv_nth)
  have rest: "drop (Suc i) arr = drop (Suc i) xs" using Suc.prems(4) by (metis drop_Suc tl_drop)
  show ?case
  proof (cases "i > 0 \<and> arr ! i = arr ! (i - 1)")
    case True
    with Suc.prems i s rest show ?thesis
      by (simp add: Let_def) (rule Suc.IH; simp add: remdups_adj_take_Suc)
  next
    case False
    then have new: "\<not> (i > 0 \<and> xs ! i = xs ! (i - 1))" using s Suc.prems(5) by auto
    have "take (Suc j) (arr[j := arr ! i]) = take j arr @ [arr ! i]"
      using Suc.prems(2,3) i by (simp add: take_Suc_conv_app_nth)
    also have "\<dots> = remdups_adj (take (Suc i) xs)"
      unfolding remdups_adj_take_Suc [OF i] using new s Suc.prems(6) by auto
    finally have "dedup_loop (arr[j := arr ! i]) (Suc i) (Suc j) k = remdups_adj xs"
      using Suc.prems i s rest by (intro Suc.IH) (auto simp: nth_list_update)
    with False show ?thesis by (auto simp: Let_def)
  qed
qed simp

lemma dedupSorted_eq: "dedupSorted xs = remdups_adj xs"
  using dedup_loop_inv [of 0 "length xs" xs xs 0] by (auto simp: dedupSorted_def)

lemma distinct_remdups_adj_sorted: "sorted xs \<Longrightarrow> distinct (remdups_adj (xs :: 'a :: linorder list))"
  by (induction xs rule: remdups_adj.induct) (auto simp: order.antisym)

lemma dedupSorted_sort: "dedupSorted (sort xs) = sorted_list_of_set (set xs)"
  unfolding dedupSorted_eq
  by (rule sorted_distinct_set_unique) (simp_all add: distinct_remdups_adj_sorted)

lemma dedupSorted_sort_Nil: "dedupSorted (sort xs) = [] \<longleftrightarrow> xs = []"
  by (simp add: dedupSorted_eq) (metis length_0_conv length_sort)

section \<open>Gates\<close>

text \<open>
  The contract of a gate that is folded over a slice of requirements: it denies an element that
  is not \<open>ok\<close>, and lets an \<open>ok\<close> element through without a pending reason exactly when it is
  \<open>quiet\<close>.
\<close>

locale gate =
  fixes g :: "'a \<Rightarrow> reasons \<Rightarrow> reasons" and ok :: "'a \<Rightarrow> bool" and quiet :: "'a \<Rightarrow> bool"
  assumes g_denied: "snd (g x pd) = [] \<longleftrightarrow> snd pd = [] \<and> ok x"
    and g_pending: "ok x \<Longrightarrow> fst (g x pd) = [] \<longleftrightarrow> fst pd = [] \<and> quiet x"
begin

lemma fold_denied: "snd (fold g xs pd) = [] \<longleftrightarrow> snd pd = [] \<and> (\<forall>x \<in> set xs. ok x)"
  by (induction xs arbitrary: pd) (auto simp: g_denied)

lemma fold_pending:
  "\<forall>x \<in> set xs. ok x \<Longrightarrow> fst (fold g xs pd) = [] \<longleftrightarrow> fst pd = [] \<and> (\<forall>x \<in> set xs. quiet x)"
  by (induction xs arbitrary: pd) (auto simp: g_pending)

end

definition privilege_ok :: "Profile \<Rightarrow> AdmissionPolicy \<Rightarrow> Privilege \<Rightarrow> bool" where
  "privilege_ok profile policy p \<longleftrightarrow> p \<in> {PrivilegeDockerSocket, PrivilegePrivileged} \<and>
     ProfileAllowsPrivilege profile p \<and> (p = PrivilegePrivileged \<longrightarrow> ap_AllowPrivilegedContainers policy)"

definition network_ok :: "Profile \<Rightarrow> NetworkPolicy \<Rightarrow> bool" where
  "network_ok profile n \<longleftrightarrow> n \<in> {[], NetworkRestricted, NetworkPublic, NetworkNone} \<and>
     ProfileAllowsNetwork profile n"

definition secret_ok :: "AdmissionPolicy \<Rightarrow> string \<Rightarrow> bool" where
  "secret_ok policy s \<longleftrightarrow> TrimSpace s \<in> TrimSpace ` set (ap_AvailableSecrets policy)"

interpretation privileges: gate "privilege_gate profile policy" "privilege_ok profile policy" "\<lambda>_. False"
  for profile policy
  by unfold_locales (auto simp: privilege_gate_def privilege_ok_def)

interpretation secrets: gate "secret_gate policy" "secret_ok policy" "\<lambda>_. True" for policy
  by unfold_locales (auto simp: secret_gate_def secret_ok_def)

interpretation mounts: gate mount_gate "\<lambda>m. m \<in> {MountWorkspaceWrite, MountWorkspaceRead}" "\<lambda>_. True"
  by unfold_locales (auto simp: mount_gate_def)

interpretation probes: gate probe_gate
  "\<lambda>p. TrimSpace (vp_Name p) \<noteq> [] \<and> TrimSpace (vp_Command p) \<noteq> []" "\<lambda>_. True"
  by unfold_locales (auto simp: probe_gate_def)

interpretation network: gate "\<lambda>n. network_gate profile policy n" "network_ok profile"
  "\<lambda>n. n = NetworkPublic \<longrightarrow> ap_AllowPublicNetwork policy" for profile policy
  by unfold_locales (auto simp: network_gate_def network_ok_def ProfileAllowsNetwork_def Let_def)

section \<open>What admission decides\<close>

definition admissible :: "SandboxRequirements \<Rightarrow> Profile \<Rightarrow> AdmissionPolicy \<Rightarrow> bool" where
  "admissible req profile policy \<longleftrightarrow>
     (\<forall>p \<in> set (rq_Privileges req). privilege_ok profile policy p) \<and>
     network_ok profile (rq_Network req) \<and>
     (\<forall>s \<in> set (rq_Secrets req). secret_ok policy s) \<and>
     (\<forall>m \<in> set (rq_Mounts req). m \<in> {MountWorkspaceWrite, MountWorkspaceRead}) \<and>
     (\<forall>p \<in> set (rq_Verification req). TrimSpace (vp_Name p) \<noteq> [] \<and> TrimSpace (vp_Command p) \<noteq> [])"

definition needs_review :: "SandboxRequirements \<Rightarrow> AdmissionPolicy \<Rightarrow> bool" where
  "needs_review req policy \<longleftrightarrow> rq_Privileges req \<noteq> [] \<or>
     (rq_Network req = NetworkPublic \<and> \<not> ap_AllowPublicNetwork policy)"

lemma gate_denied: "snd (gate_reasons req profile policy) = [] \<longleftrightarrow> admissible req profile policy"
  by (auto simp: gate_reasons_def admissible_def privileges.fold_denied secrets.fold_denied
      mounts.fold_denied probes.fold_denied network.g_denied)

lemma gate_pending:
  assumes "admissible req profile policy"
  shows "fst (gate_reasons req profile policy) \<noteq> [] \<longleftrightarrow> needs_review req policy"
proof -
  have ok: "network_ok profile (rq_Network req)" "\<forall>s \<in> set (rq_Secrets req). secret_ok policy s"
    "\<forall>m \<in> set (rq_Mounts req). m \<in> {MountWorkspaceWrite, MountWorkspaceRead}"
    "\<forall>p \<in> set (rq_Verification req). TrimSpace (vp_Name p) \<noteq> [] \<and> TrimSpace (vp_Command p) \<noteq> []"
    using assms unfolding admissible_def by blast+
  have "fst (gate_reasons req profile policy) = [] \<longleftrightarrow>
     fst (fold (privilege_gate profile policy) (rq_Privileges req) ([], [])) = [] \<and>
     (rq_Network req = NetworkPublic \<longrightarrow> ap_AllowPublicNetwork policy)"
    unfolding gate_reasons_def probes.fold_pending [OF ok(4)] mounts.fold_pending [OF ok(3)]
      secrets.fold_pending [OF ok(2)] network.g_pending [OF ok(1)] by simp
  also have "fst (fold (privilege_gate profile policy) (rq_Privileges req) ([], [])) = [] \<longleftrightarrow> rq_Privileges req = []"
    using assms by (subst privileges.fold_pending) (auto simp: admissible_def)
  finally show ?thesis by (auto simp: needs_review_def)
qed

lemma AdmissionCheck_outcome_eq:
  "ar_Outcome (AdmissionCheck req profile policy) =
     (if \<not> admissible req profile policy then AdmissionDenied
      else if needs_review req policy then AdmissionPending else AdmissionAdmitted)"
  using gate_denied [of req profile policy] gate_pending [of req profile policy]
  by (auto simp: AdmissionCheck_def Let_def dedupSorted_sort_Nil)

text \<open>
  C32. \<^verbatim>\<open>AdmissionCheck\<close> decides exactly as follows, for every request, profile and policy: it denies
  when a privilege is unknown, not on the profile's allowlist, or \<^verbatim>\<open>privileged\<close> without the
  operator's opt-in, when the network class is unknown or not allowed by the profile, when a
  secret is not provisioned, or when a mount or a probe is malformed; otherwise it holds the
  request for review when it asks for any privilege, or for public network that the operator has
  not opened; otherwise it admits. No request with a privilege is ever admitted outright.
\<close>

theorem AdmissionCheck_outcome:
  "ar_Outcome (AdmissionCheck req profile policy) =
     (if \<not> ((\<forall>p \<in> set (rq_Privileges req). p \<in> {PrivilegeDockerSocket, PrivilegePrivileged} \<and>
             ProfileAllowsPrivilege profile p \<and>
             (p = PrivilegePrivileged \<longrightarrow> ap_AllowPrivilegedContainers policy)) \<and>
           rq_Network req \<in> {[], NetworkRestricted, NetworkPublic, NetworkNone} \<and>
           ProfileAllowsNetwork profile (rq_Network req) \<and>
           (\<forall>s \<in> set (rq_Secrets req). TrimSpace s \<in> TrimSpace ` set (ap_AvailableSecrets policy)) \<and>
           (\<forall>m \<in> set (rq_Mounts req). m \<in> {MountWorkspaceWrite, MountWorkspaceRead}) \<and>
           (\<forall>p \<in> set (rq_Verification req). TrimSpace (vp_Name p) \<noteq> [] \<and> TrimSpace (vp_Command p) \<noteq> []))
      then AdmissionDenied
      else if rq_Privileges req \<noteq> [] \<or> (rq_Network req = NetworkPublic \<and> \<not> ap_AllowPublicNetwork policy)
      then AdmissionPending
      else AdmissionAdmitted)"
  unfolding AdmissionCheck_outcome_eq admissible_def needs_review_def privilege_ok_def network_ok_def secret_ok_def
  by (simp only: conj_assoc)

text \<open>
  The shape \<^verbatim>\<open>AdmissionResult\<close> documents: an admitted request carries no reasons, a pending one
  pending reasons only, a denied one at least one denial; both lists are strictly ascending, so
  without repetition, although \<^verbatim>\<open>dedupSorted\<close> overwrites the array it reads.
\<close>

theorem AdmissionCheck_shape:
  "let r = AdmissionCheck req profile policy in
     sorted_wrt (<) (ar_PendingReasons r) \<and> sorted_wrt (<) (ar_DeniedReasons r) \<and>
     (case ar_Outcome r of
        AdmissionAdmitted \<Rightarrow> ar_PendingReasons r = [] \<and> ar_DeniedReasons r = []
      | AdmissionPending \<Rightarrow> ar_PendingReasons r \<noteq> [] \<and> ar_DeniedReasons r = []
      | AdmissionDenied \<Rightarrow> ar_DeniedReasons r \<noteq> []) \<and>
     set (ar_DeniedReasons r) = set (snd (gate_reasons req profile policy)) \<and>
     set (ar_PendingReasons r) = set (fst (gate_reasons req profile policy))"
  by (auto simp: AdmissionCheck_def Let_def dedupSorted_sort dedupSorted_sort_Nil)

definition policy_le :: "AdmissionPolicy \<Rightarrow> AdmissionPolicy \<Rightarrow> bool" where
  "policy_le a b \<longleftrightarrow> (ap_AllowPublicNetwork a \<longrightarrow> ap_AllowPublicNetwork b) \<and>
     (ap_AllowPrivilegedContainers a \<longrightarrow> ap_AllowPrivilegedContainers b) \<and>
     set (ap_AvailableSecrets a) \<subseteq> set (ap_AvailableSecrets b)"

fun severity :: "AdmissionOutcome \<Rightarrow> nat" where
  "severity AdmissionAdmitted = 0" | "severity AdmissionPending = 1" | "severity AdmissionDenied = 2"

text \<open>
  Loosening the operator's policy never makes an outcome worse: under a policy that allows at
  least as much, the outcome is at most as severe.
\<close>

theorem AdmissionCheck_monotone:
  assumes "policy_le a b"
  shows "severity (ar_Outcome (AdmissionCheck req profile b)) \<le> severity (ar_Outcome (AdmissionCheck req profile a))"
proof -
  have "privilege_ok profile a p \<Longrightarrow> privilege_ok profile b p" for p
    using assms unfolding policy_le_def privilege_ok_def by meson
  moreover have "secret_ok a s \<Longrightarrow> secret_ok b s" for s
    using assms unfolding policy_le_def secret_ok_def by (meson image_mono subsetD)
  ultimately have "admissible req profile a \<Longrightarrow> admissible req profile b"
    unfolding admissible_def by simp
  moreover have "needs_review req b \<Longrightarrow> needs_review req a"
    using assms unfolding policy_le_def needs_review_def by meson
  ultimately show ?thesis unfolding AdmissionCheck_outcome_eq by auto
qed

definition strict_policy :: AdmissionPolicy where
  "strict_policy = \<lparr>ap_AllowPublicNetwork = False, ap_AllowPrivilegedContainers = False, ap_AvailableSecrets = []\<rparr>"

definition open_policy :: AdmissionPolicy where
  "open_policy = strict_policy\<lparr>ap_AllowPublicNetwork := True\<rparr>"

theorem AdmissionCheck_monotone_witness:
  "severity (ar_Outcome (AdmissionCheck (empty_requirements\<lparr>rq_Network := NetworkPublic\<rparr>) (builtin_profiles ''/r'' ! 1) open_policy)) \<le>
   severity (ar_Outcome (AdmissionCheck (empty_requirements\<lparr>rq_Network := NetworkPublic\<rparr>) (builtin_profiles ''/r'' ! 1) strict_policy))"
  by (rule AdmissionCheck_monotone) (simp add: policy_le_def strict_policy_def open_policy_def)

theorem AdmissionCheck_outcome_witness:
  "ar_Outcome (AdmissionCheck (empty_requirements\<lparr>rq_Network := NetworkPublic\<rparr>) (builtin_profiles ''/r'' ! 1) strict_policy) =
     AdmissionPending \<and>
   ar_Outcome (AdmissionCheck (empty_requirements\<lparr>rq_Network := NetworkPublic\<rparr>) (builtin_profiles ''/r'' ! 0) strict_policy) =
     AdmissionDenied"
  unfolding AdmissionCheck_outcome
  by (simp add: empty_requirements_def strict_policy_def builtin_profiles_def ProfileAllowsNetwork_def)

end
