(* ===== verification/Sandbox_Parse.thy ===== *)
theory Sandbox_Parse
  imports Sandbox_Normalize Go_Values
begin

text \<open>
  Decoding tool arguments into sandbox requirements, \<^verbatim>\<open>sandboxmanager/parse.go\<close>. The argument map
  is an association list; a missing key and a value of another type both fail the type assertion
  and leave the field at its zero value.
\<close>

section \<open>Operations\<close>

datatype parse_error =
    ExpectedString string nat string
  | ExpectedObject nat string
  | ExpectedInteger nat string

fun parse_error_msg :: "parse_error \<Rightarrow> string" where
  "parse_error_msg (ExpectedString f i t) = f @ ''['' @ nat_str i @ '']: expected string, got '' @ t"
| "parse_error_msg (ExpectedObject i t) = ''verification['' @ nat_str i @ '']: expected object, got '' @ t"
| "parse_error_msg (ExpectedInteger i t) =
     ''verification['' @ nat_str i @ ''].expect_exit: expected integer, got '' @ t"

fun parseStringSlice_loop :: "string \<Rightarrow> nat \<Rightarrow> any list \<Rightarrow> parse_error + string list" where
  "parseStringSlice_loop field i [] = Inr []"
| "parseStringSlice_loop field i (v # vs) =
     (case v of
        AnyStr s \<Rightarrow> (case parseStringSlice_loop field (Suc i) vs of
                       Inl e \<Rightarrow> Inl e | Inr ss \<Rightarrow> Inr (TrimSpace s # ss))
      | _ \<Rightarrow> Inl (ExpectedString field i (type_name v)))"

definition parseStringSlice :: "string \<Rightarrow> any list \<Rightarrow> parse_error + string list" where
  "parseStringSlice field vs = parseStringSlice_loop field 0 vs"

definition parseMountSlice :: "any list \<Rightarrow> parse_error + MountClass list" where
  "parseMountSlice vs = parseStringSlice ''mounts'' vs"

definition parsePrivilegeSlice :: "any list \<Rightarrow> parse_error + Privilege list" where
  "parsePrivilegeSlice vs = parseStringSlice ''privileges'' vs"

text \<open>A conversion from float64 to int discards the fraction.\<close>

definition int_of_float :: "rat \<Rightarrow> int" where
  "int_of_float x = (if x < 0 then - \<lfloor>- x\<rfloor> else \<lfloor>x\<rfloor>)"

definition parseExpectExit :: "nat \<Rightarrow> any \<Rightarrow> parse_error + int" where
  "parseExpectExit idx v = (case v of
      AnyFloat x \<Rightarrow> Inr (int_of_float x)
    | AnyInt x \<Rightarrow> Inr x
    | AnyNumber s \<Rightarrow> Inr (fst (Atoi s))
    | _ \<Rightarrow> Inl (ExpectedInteger idx (type_name v)))"

definition parse_probe :: "nat \<Rightarrow> any \<Rightarrow> parse_error + VerifyProbe" where
  "parse_probe i p = (case p of
      AnyMap pm \<Rightarrow>
        (let probe = \<lparr>vp_Name = str_or_empty (gm_get pm ''name''),
                      vp_Command = str_or_empty (gm_get pm ''command''), vp_ExpectExit = 0\<rparr> in
         (case gm_get pm ''expect_exit'' of
            None \<Rightarrow> Inr probe
          | Some iv \<Rightarrow> (case parseExpectExit i iv of
                          Inl e \<Rightarrow> Inl e | Inr n \<Rightarrow> Inr (probe\<lparr>vp_ExpectExit := n\<rparr>))))
    | _ \<Rightarrow> Inl (ExpectedObject i (type_name p)))"

fun parseProbeSlice_loop :: "nat \<Rightarrow> any list \<Rightarrow> parse_error + VerifyProbe list" where
  "parseProbeSlice_loop i [] = Inr []"
| "parseProbeSlice_loop i (p # ps) =
     (case parse_probe i p of
        Inl e \<Rightarrow> Inl e
      | Inr probe \<Rightarrow> (case parseProbeSlice_loop (Suc i) ps of
                        Inl e \<Rightarrow> Inl e | Inr probes \<Rightarrow> Inr (probe # probes)))"

definition parseProbeSlice :: "any list \<Rightarrow> parse_error + VerifyProbe list" where
  "parseProbeSlice ps = parseProbeSlice_loop 0 ps"

text \<open>
  One \<^verbatim>\<open>if v, ok := raw[k].([]any); ok { ... }\<close> block: parse the list, or return the error, or leave
  the zero value.
\<close>

definition opt_slice :: "(string \<times> any) list \<Rightarrow> string \<Rightarrow> (any list \<Rightarrow> parse_error + 'a list) \<Rightarrow> parse_error + 'a list" where
  "opt_slice raw k parse = (case as_list (gm_get raw k) of Some v \<Rightarrow> parse v | None \<Rightarrow> Inr [])"

definition bind_r :: "'e + 'a \<Rightarrow> ('a \<Rightarrow> 'e + 'b) \<Rightarrow> 'e + 'b" where
  "bind_r r f = (case r of Inl e \<Rightarrow> Inl e | Inr x \<Rightarrow> f x)"

definition ParseRequirements :: "(string \<times> any) list \<Rightarrow> parse_error + SandboxRequirements" where
  "ParseRequirements raw =
     bind_r (opt_slice raw ''languages'' (parseStringSlice ''languages'')) (\<lambda>languages.
     bind_r (opt_slice raw ''tools'' (parseStringSlice ''tools'')) (\<lambda>tools.
     bind_r (opt_slice raw ''services'' (parseStringSlice ''services'')) (\<lambda>services.
     bind_r (opt_slice raw ''secrets'' (parseStringSlice ''secrets'')) (\<lambda>secrets.
     bind_r (opt_slice raw ''mounts'' parseMountSlice) (\<lambda>mounts.
     bind_r (opt_slice raw ''privileges'' parsePrivilegeSlice) (\<lambda>privileges.
     bind_r (opt_slice raw ''verification'' parseProbeSlice) (\<lambda>probes.
       Inr \<lparr>rq_Languages = languages, rq_Tools = tools, rq_Services = services,
            rq_Network = str_or_empty (gm_get raw ''network''), rq_Secrets = secrets,
            rq_Mounts = mounts, rq_Privileges = privileges, rq_Verification = probes\<rparr>)))))))"

section \<open>Round trip\<close>

text \<open>The argument map of a request, as JSON decoding delivers it: absent when empty.\<close>

definition arg_strs :: "string \<Rightarrow> string list \<Rightarrow> (string \<times> any) list" where
  "arg_strs k xs = (if xs = [] then [] else [(k, AnyList (map AnyStr xs))])"

definition arg_probe :: "VerifyProbe \<Rightarrow> any" where
  "arg_probe p = AnyMap [(''name'', AnyStr (vp_Name p)), (''command'', AnyStr (vp_Command p)),
     (''expect_exit'', AnyFloat (of_int (vp_ExpectExit p)))]"

definition requirements_args :: "SandboxRequirements \<Rightarrow> (string \<times> any) list" where
  "requirements_args r = arg_strs ''languages'' (rq_Languages r) @ arg_strs ''tools'' (rq_Tools r) @
     arg_strs ''services'' (rq_Services r) @ [(''network'', AnyStr (rq_Network r))] @
     arg_strs ''secrets'' (rq_Secrets r) @ arg_strs ''mounts'' (rq_Mounts r) @
     arg_strs ''privileges'' (rq_Privileges r) @
     [(''verification'', AnyList (map arg_probe (rq_Verification r)))]"

lemma parseStringSlice_strs: "parseStringSlice f (map AnyStr xs) = Inr (map TrimSpace xs)"
proof -
  have "parseStringSlice_loop f i (map AnyStr xs) = Inr (map TrimSpace xs)" for i
    by (induction xs arbitrary: i) auto
  then show ?thesis by (simp add: parseStringSlice_def)
qed

lemma int_of_float_of_int [simp]: "int_of_float (of_int i) = i"
  by (simp add: int_of_float_def)

lemma parse_probe_arg: "parse_probe i (arg_probe p) = Inr p"
  by (simp add: parse_probe_def arg_probe_def str_or_empty_def parseExpectExit_def Let_def)

lemma parseProbeSlice_args: "parseProbeSlice (map arg_probe ps) = Inr ps"
proof -
  have "parseProbeSlice_loop i (map arg_probe ps) = Inr ps" for i
    by (induction ps arbitrary: i) (auto simp: parse_probe_arg)
  then show ?thesis by (simp add: parseProbeSlice_def)
qed

lemma map_of_arg_strs: "map_of (arg_strs k xs) = (if xs = [] then Map.empty else [k \<mapsto> AnyList (map AnyStr xs)])"
  by (simp add: arg_strs_def)

definition trim_fields :: "SandboxRequirements \<Rightarrow> SandboxRequirements" where
  "trim_fields r = r\<lparr>rq_Languages := map TrimSpace (rq_Languages r), rq_Tools := map TrimSpace (rq_Tools r),
     rq_Services := map TrimSpace (rq_Services r), rq_Secrets := map TrimSpace (rq_Secrets r),
     rq_Mounts := map TrimSpace (rq_Mounts r), rq_Privileges := map TrimSpace (rq_Privileges r)\<rparr>"

lemma map_of_args:
  "map_of (requirements_args r) ''languages'' = (if rq_Languages r = [] then None else Some (AnyList (map AnyStr (rq_Languages r))))"
  "map_of (requirements_args r) ''tools'' = (if rq_Tools r = [] then None else Some (AnyList (map AnyStr (rq_Tools r))))"
  "map_of (requirements_args r) ''services'' = (if rq_Services r = [] then None else Some (AnyList (map AnyStr (rq_Services r))))"
  "map_of (requirements_args r) ''network'' = Some (AnyStr (rq_Network r))"
  "map_of (requirements_args r) ''secrets'' = (if rq_Secrets r = [] then None else Some (AnyList (map AnyStr (rq_Secrets r))))"
  "map_of (requirements_args r) ''mounts'' = (if rq_Mounts r = [] then None else Some (AnyList (map AnyStr (rq_Mounts r))))"
  "map_of (requirements_args r) ''privileges'' = (if rq_Privileges r = [] then None else Some (AnyList (map AnyStr (rq_Privileges r))))"
  "map_of (requirements_args r) ''verification'' = Some (AnyList (map arg_probe (rq_Verification r)))"
  by (simp_all add: requirements_args_def map_of_arg_strs map_add_def)

lemma opt_slice_strs:
  assumes "map_of raw k = (if xs = [] then None else Some (AnyList (map AnyStr xs)))"
  shows "opt_slice raw k (parseStringSlice k) = Inr (map TrimSpace xs)"
  by (simp add: opt_slice_def assms parseStringSlice_strs)

lemma ParseRequirements_args: "ParseRequirements (requirements_args r) = Inr (trim_fields r)"
proof -
  have "opt_slice (requirements_args r) ''verification'' parseProbeSlice = Inr (rq_Verification r)"
    by (simp add: opt_slice_def map_of_args parseProbeSlice_args)
  then show ?thesis
    unfolding ParseRequirements_def parseMountSlice_def [abs_def] parsePrivilegeSlice_def [abs_def]
      opt_slice_strs [OF map_of_args(1)] opt_slice_strs [OF map_of_args(2)] opt_slice_strs [OF map_of_args(3)]
      opt_slice_strs [OF map_of_args(5)] opt_slice_strs [OF map_of_args(6)] opt_slice_strs [OF map_of_args(7)]
    by (simp add: bind_r_def map_of_args trim_fields_def str_or_empty_def)
qed

lemma token_set_trim: "token_set (map TrimSpace xs) = token_set xs"
  by (simp add: token_set_def image_image)

lemma enum_trim:
  "TrimSpace MountWorkspaceWrite = MountWorkspaceWrite" "TrimSpace MountWorkspaceRead = MountWorkspaceRead"
  "TrimSpace PrivilegeDockerSocket = PrivilegeDockerSocket" "TrimSpace PrivilegePrivileged = PrivilegePrivileged"
  by code_simp+

lemma trim_fields_valid:
  assumes "Validate r = None"
  shows "Validate (trim_fields r) = None \<and> Normalize (trim_fields r) = Normalize r"
proof -
  have "map TrimSpace (rq_Mounts r) = rq_Mounts r" "map TrimSpace (rq_Privileges r) = rq_Privileges r"
    using assms enum_trim by (auto simp: Validate_None_iff well_formed_def intro!: map_idI)
  then show ?thesis
    using assms by (simp add: Validate_None_iff well_formed_def trim_fields_def Normalize_def
        normalizeTokens_cong token_set_trim)
qed

text \<open>
  Decoding the arguments of a valid request yields a valid request with the same canonical form
  and the same content address, so \<^verbatim>\<open>request_sandbox\<close> and \<^verbatim>\<open>query_sandbox_attestation\<close>, which share
  this parser, agree on the signature.
\<close>

theorem parse_roundtrip:
  assumes "Validate r = None"
  shows "\<exists>r'. ParseRequirements (requirements_args r) = Inr r' \<and> Validate r' = None \<and>
     Normalize r' = Normalize r \<and> req_Hash r' = req_Hash r"
  using ParseRequirements_args trim_fields_valid [OF assms] by (auto simp: req_Hash_def)

theorem parse_roundtrip_witness:
  "\<exists>r'. ParseRequirements (requirements_args req_sample) = Inr r' \<and> req_Hash r' = req_Hash req_sample"
  using parse_roundtrip [OF req_samples_valid(1)] by blast

section \<open>Errors\<close>

text \<open>
  A string list is rejected exactly when one of its elements is no string, and the error names
  the field, the position of the first such element and its dynamic type; otherwise every element
  is kept, trimmed, in order.
\<close>

theorem parseStringSlice_spec:
  "(\<forall>xs. vs = map AnyStr xs \<longrightarrow> parseStringSlice f vs = Inr (map TrimSpace xs)) \<and>
   (\<forall>xs v ws. vs = map AnyStr xs @ v # ws \<and> (\<forall>s. v \<noteq> AnyStr s) \<longrightarrow>
      parseStringSlice f vs = Inl (ExpectedString f (length xs) (type_name v)))"
proof -
  have "parseStringSlice_loop f i (map AnyStr xs @ v # ws) = Inl (ExpectedString f (i + length xs) (type_name v))"
    if "\<forall>s. v \<noteq> AnyStr s" for i xs v ws
  proof (induction xs arbitrary: i)
    case Nil
    with that show ?case by (cases v) auto
  qed simp
  from this [of _ 0] show ?thesis by (auto simp: parseStringSlice_strs) (simp add: parseStringSlice_def)
qed

theorem parseStringSlice_spec_witness:
  "parseStringSlice ''tools'' [AnyStr ''git '', AnyBool True] = Inl (ExpectedString ''tools'' 1 ''bool'')"
  using parseStringSlice_spec [of "[AnyStr ''git '', AnyBool True]" "''tools''", THEN conjunct2,
      THEN spec [of _ "[''git '']"], THEN spec [of _ "AnyBool True"], THEN spec [of _ "[]"]] by simp

end
