(* ===== verification/Sandbox_Attestation.thy ===== *)
theory Sandbox_Attestation
  imports Sandbox_Admission
begin

text \<open>
  Attestations, \<^verbatim>\<open>sandboxmanager/attestation.go\<close>: the verdict over the probe results, the signature
  that keys the cache, freshness, and the graph triples. The error of a probe is its message. The
  wall clock that \<^verbatim>\<open>Triples\<close> reads for an attestation without a time is an argument. A duration in
  seconds is exact, where Go computes it in floating point before truncating.
\<close>

section \<open>Data\<close>

abbreviation att_pred :: "string \<Rightarrow> string" where
  "att_pred s \<equiv> ''sandbox.attestation.'' @ s"

abbreviation "PredicateAttestationProfile \<equiv> att_pred ''profile''"
abbreviation "PredicateAttestationImageDigest \<equiv> att_pred ''image-digest''"
abbreviation "PredicateAttestationHostWorkspaceFolder \<equiv> att_pred ''host-workspace-folder''"
abbreviation "PredicateAttestationReady \<equiv> att_pred ''ready''"
abbreviation "PredicateAttestationAttestedAt \<equiv> att_pred ''attested-at''"
abbreviation "PredicateAttestationDegraded \<equiv> att_pred ''degraded''"
abbreviation "PredicateAttestationDegradedReasons \<equiv> att_pred ''degraded-reasons''"
abbreviation "PredicateAttestationFailedProbes \<equiv> att_pred ''failed-probes''"
abbreviation "PredicateAttestationVerifiedPrefix \<equiv> att_pred ''verified-''"
abbreviation "PredicateAttestationAdmission \<equiv> att_pred ''admission''"
abbreviation "PredicateAttestationAdmissionReasons \<equiv> att_pred ''admission-reasons''"
abbreviation "PredicateAttestationTerminal \<equiv> att_pred ''terminal''"
abbreviation "PredicateAttestationTerminalReason \<equiv> att_pred ''terminal-reason''"
abbreviation "PredicateAttestationRequirementsHash \<equiv> att_pred ''requirements-hash''"
abbreviation "PredicateAttestationSignature \<equiv> att_pred ''signature''"
abbreviation "PredicateAttestationTTL \<equiv> att_pred ''ttl-seconds''"
abbreviation "AttestationSource \<equiv> ''sandbox-manager-attestation''"

record ProbeResult =
  pr_Name :: string
  pr_Command :: string
  pr_ExitCode :: int
  pr_ExpectExit :: int
  pr_Stdout :: string
  pr_Stderr :: string
  pr_Err :: "string option"

definition probe_OK :: "ProbeResult \<Rightarrow> bool" where
  "probe_OK p \<longleftrightarrow> pr_Err p = None \<and> pr_ExitCode p = pr_ExpectExit p"

record Attestation =
  at_ProfileID :: string
  at_ImageDigest :: string
  at_HostWorkspaceFolder :: string
  at_Ready :: bool
  at_AttestedAt :: gotime
  at_Degraded :: bool
  at_DegradedReasons :: "string list"
  at_FailedProbes :: "string list"
  at_Verified :: "(string \<times> string) list"
  at_AdmissionOutcome :: AdmissionOutcome
  at_AdmissionReasons :: "string list"
  at_Terminal :: bool
  at_TerminalReason :: string
  at_RequirementsHash :: string
  at_Signature :: string
  at_TTL :: int

section \<open>Operations\<close>

definition SignatureFor :: "Profile \<Rightarrow> SandboxRequirements \<Rightarrow> string" where
  "SignatureFor profile req = sha256_hex (profile_ID profile @ '':'' @ req_Hash req)"

definition IsFresh :: "Attestation \<Rightarrow> gotime \<Rightarrow> bool" where
  "IsFresh a now =
     (if time_IsZero (at_AttestedAt a) then False
      else (let ttl = (if at_TTL a \<le> 0 then DefaultTTL else at_TTL a)
            in time_Before now (time_Add (at_AttestedAt a) ttl)))"

definition verifiedMaxBytes :: nat where
  "verifiedMaxBytes = 512"

definition ellipsis_truncated :: string where
  "ellipsis_truncated = [CHR 0xE2, CHR 0x80, CHR 0xA6] @ ''(truncated)''"

definition truncateVerified :: "string \<Rightarrow> string" where
  "truncateVerified s0 =
     (let s = TrimSpace s0 in
      if length s \<le> verifiedMaxBytes then s else take verifiedMaxBytes s @ ellipsis_truncated)"

definition failureReason :: "ProbeResult \<Rightarrow> string" where
  "failureReason p = (case pr_Err p of Some e \<Rightarrow> e | None \<Rightarrow> ''exit '' @ Itoa (pr_ExitCode p))"

text \<open>The loop of \<^verbatim>\<open>Attest\<close> over the probe results, with its two counters.\<close>

record attest_state =
  as_Verified :: "(string \<times> string) list"
  as_FailedProbes :: "string list"
  as_DegradedReasons :: "string list"
  as_failed :: nat
  as_passed :: nat

fun attest_loop :: "attest_state \<Rightarrow> ProbeResult list \<Rightarrow> attest_state" where
  "attest_loop st [] = st"
| "attest_loop st (p # ps) =
     (let name = ToLower (TrimSpace (pr_Name p)) in
      if probe_OK p then
        attest_loop (st\<lparr>as_Verified := gm_put name (truncateVerified (pr_Stdout p)) (as_Verified st),
                        as_passed := as_passed st + 1\<rparr>) ps
      else
        attest_loop (st\<lparr>as_FailedProbes := as_FailedProbes st @ [name],
                        as_DegradedReasons := as_DegradedReasons st @ [name @ '': '' @ failureReason p],
                        as_failed := as_failed st + 1\<rparr>) ps)"

definition attest_start :: attest_state where
  "attest_start = \<lparr>as_Verified = [], as_FailedProbes = [], as_DegradedReasons = [], as_failed = 0, as_passed = 0\<rparr>"

definition Attest :: "Profile \<Rightarrow> SandboxRequirements \<Rightarrow> string \<Rightarrow> string \<Rightarrow> ProbeResult list \<Rightarrow> gotime \<Rightarrow> Attestation" where
  "Attest profile req imageDigest hostWorkspaceFolder probes attestedAt =
     (let st = attest_loop attest_start probes;
          att = \<lparr>at_ProfileID = profile_ID profile, at_ImageDigest = imageDigest,
            at_HostWorkspaceFolder = hostWorkspaceFolder, at_Ready = False,
            at_AttestedAt = time_UTC attestedAt, at_Degraded = False,
            at_DegradedReasons = sort (as_DegradedReasons st), at_FailedProbes = sort (as_FailedProbes st),
            at_Verified = as_Verified st, at_AdmissionOutcome = AdmissionAdmitted,
            at_AdmissionReasons = [], at_Terminal = False, at_TerminalReason = [],
            at_RequirementsHash = req_Hash req, at_Signature = SignatureFor profile req,
            at_TTL = ResolvedTTL profile\<rparr>
      in if as_failed st = 0 \<and> as_passed st > 0 then att\<lparr>at_Ready := True\<rparr>
         else if as_failed st = 0 \<and> as_passed st = 0 then att\<lparr>at_Ready := True\<rparr>
         else if as_failed st > 0 \<and> as_passed st > 0 then att\<lparr>at_Degraded := True\<rparr>
         else att\<lparr>at_Terminal := True, at_TerminalReason := ''all preflight probes failed''\<rparr>)"

definition AttestAdmissionFailure :: "Profile \<Rightarrow> SandboxRequirements \<Rightarrow> AdmissionResult \<Rightarrow> gotime \<Rightarrow> Attestation" where
  "AttestAdmissionFailure profile req res attestedAt =
     (let att = \<lparr>at_ProfileID = profile_ID profile, at_ImageDigest = [], at_HostWorkspaceFolder = [],
            at_Ready = False, at_AttestedAt = time_UTC attestedAt, at_Degraded = False,
            at_DegradedReasons = [], at_FailedProbes = [], at_Verified = [],
            at_AdmissionOutcome = ar_Outcome res, at_AdmissionReasons = admission_Reasons res,
            at_Terminal = False, at_TerminalReason = [], at_RequirementsHash = req_Hash req,
            at_Signature = SignatureFor profile req, at_TTL = ResolvedTTL profile\<rparr>
      in if ar_Outcome res = AdmissionDenied then
           att\<lparr>at_Terminal := True,
               at_TerminalReason := ''admission denied: '' @ Join (ar_DeniedReasons res) ''; ''\<rparr>
         else att)"

definition AttestTerminalError :: "Profile \<Rightarrow> SandboxRequirements \<Rightarrow> string \<Rightarrow> gotime \<Rightarrow> Attestation" where
  "AttestTerminalError profile req reason attestedAt =
     \<lparr>at_ProfileID = profile_ID profile, at_ImageDigest = [], at_HostWorkspaceFolder = [],
      at_Ready = False, at_AttestedAt = time_UTC attestedAt, at_Degraded = False,
      at_DegradedReasons = [], at_FailedProbes = [], at_Verified = [],
      at_AdmissionOutcome = AdmissionAdmitted, at_AdmissionReasons = [],
      at_Terminal = True, at_TerminalReason = reason, at_RequirementsHash = req_Hash req,
      at_Signature = SignatureFor profile req, at_TTL = ResolvedTTL profile\<rparr>"

definition baseAttTriple :: "string \<Rightarrow> string \<Rightarrow> any \<Rightarrow> gotime \<Rightarrow> triple" where
  "baseAttTriple subj predicate obj now =
     \<lparr>Subject = subj, Predicate = predicate, Object = obj, Source = AttestationSource,
      Timestamp = now, Confidence = 1\<rparr>"

definition duration_seconds :: "int \<Rightarrow> int" where
  "duration_seconds d = (if d < 0 then - ((- d) div second_ns) else d div second_ns)"

fun verified_triples :: "string \<Rightarrow> gotime \<Rightarrow> (string \<times> string) list \<Rightarrow> string list \<Rightarrow> triple list" where
  "verified_triples subj now verified [] = []"
| "verified_triples subj now verified (k # ks) =
     (let v = (case gm_get verified k of Some v \<Rightarrow> v | None \<Rightarrow> []) in
      if v = [] then verified_triples subj now verified ks
      else baseAttTriple subj (PredicateAttestationVerifiedPrefix @ kebabProbeName k) (AnyStr v) now
             # verified_triples subj now verified ks)"

definition Triples :: "Attestation \<Rightarrow> string \<Rightarrow> gotime \<Rightarrow> triple list" where
  "Triples a subj clock =
     (if subj = [] then []
      else (let now = (if time_IsZero (at_AttestedAt a) then time_UTC clock else at_AttestedAt a);
                t = (\<lambda>p obj. baseAttTriple subj p obj now) in
        [t PredicateAttestationProfile (AnyStr (at_ProfileID a)),
         t PredicateAttestationReady (AnyBool (at_Ready a)),
         t PredicateAttestationAttestedAt (AnyStr (format_RFC3339Nano (at_AttestedAt a))),
         t PredicateAttestationDegraded (AnyBool (at_Degraded a)),
         t PredicateAttestationAdmission (AnyStr (outcome_str (at_AdmissionOutcome a))),
         t PredicateAttestationTerminal (AnyBool (at_Terminal a)),
         t PredicateAttestationRequirementsHash (AnyStr (at_RequirementsHash a)),
         t PredicateAttestationSignature (AnyStr (at_Signature a)),
         t PredicateAttestationTTL (AnyInt (duration_seconds (at_TTL a)))] @
        (if at_ImageDigest a \<noteq> [] then [t PredicateAttestationImageDigest (AnyStr (at_ImageDigest a))] else []) @
        (if at_HostWorkspaceFolder a \<noteq> []
         then [t PredicateAttestationHostWorkspaceFolder (AnyStr (at_HostWorkspaceFolder a))] else []) @
        (if at_TerminalReason a \<noteq> []
         then [t PredicateAttestationTerminalReason (AnyStr (at_TerminalReason a))] else []) @
        (if at_DegradedReasons a \<noteq> []
         then [t PredicateAttestationDegradedReasons (AnyStrs (at_DegradedReasons a))] else []) @
        (if at_FailedProbes a \<noteq> []
         then [t PredicateAttestationFailedProbes (AnyStrs (at_FailedProbes a))] else []) @
        (if at_AdmissionReasons a \<noteq> []
         then [t PredicateAttestationAdmissionReasons (AnyStrs (at_AdmissionReasons a))] else []) @
        verified_triples subj now (at_Verified a) (sort (gm_keys (at_Verified a)))))"

section \<open>The verdict\<close>

abbreviation result_name :: "ProbeResult \<Rightarrow> string" where
  "result_name p \<equiv> norm_token (pr_Name p)"

lemma attest_loop_failed:
  "as_FailedProbes (attest_loop st ps) = as_FailedProbes st @ map result_name (filter (Not \<circ> probe_OK) ps)"
  "as_DegradedReasons (attest_loop st ps) =
     as_DegradedReasons st @ map (\<lambda>p. result_name p @ '': '' @ failureReason p) (filter (Not \<circ> probe_OK) ps)"
  "as_failed (attest_loop st ps) = as_failed st + length (filter (Not \<circ> probe_OK) ps)"
  "as_passed (attest_loop st ps) = as_passed st + length (filter probe_OK ps)"
  by (induction ps arbitrary: st) (simp_all add: Let_def)

lemma attest_loop_keys:
  "set (gm_keys (as_Verified (attest_loop st ps))) =
     set (gm_keys (as_Verified st)) \<union> result_name ` {p \<in> set ps. probe_OK p}"
  by (induction ps arbitrary: st) (auto simp: Let_def set_gm_keys_put simp del: set_map)

lemma attest_loop_distinct:
  "distinct (gm_keys (as_Verified st)) \<Longrightarrow> distinct (gm_keys (as_Verified (attest_loop st ps)))"
  by (induction ps arbitrary: st) (auto simp: Let_def distinct_gm_put)

lemma Attest_fields:
  "at_Ready (Attest pf r d w ps t) \<longleftrightarrow> (\<forall>p \<in> set ps. probe_OK p)"
  "at_Degraded (Attest pf r d w ps t) \<longleftrightarrow> (\<exists>p \<in> set ps. probe_OK p) \<and> (\<exists>p \<in> set ps. \<not> probe_OK p)"
  "at_Terminal (Attest pf r d w ps t) \<longleftrightarrow> ps \<noteq> [] \<and> (\<forall>p \<in> set ps. \<not> probe_OK p)"
  "at_FailedProbes (Attest pf r d w ps t) = sort (map result_name (filter (Not \<circ> probe_OK) ps))"
  "at_Verified (Attest pf r d w ps t) = as_Verified (attest_loop attest_start ps)"
  "at_HostWorkspaceFolder (Attest pf r d w ps t) = w"
  "at_TTL (Attest pf r d w ps t) = ResolvedTTL pf"
  "at_AttestedAt (Attest pf r d w ps t) = time_UTC t"
  by (auto simp: Attest_def Let_def attest_loop_failed attest_start_def filter_empty_conv neq_Nil_conv)

text \<open>
  The verdict of \<^verbatim>\<open>Attest\<close>: exactly one of ready, degraded and terminal holds; it is ready when
  every probe passed (in particular when there was none), terminal when there were probes and
  all failed, degraded otherwise; \<^verbatim>\<open>FailedProbes\<close> is sorted and lists the failed probes, one entry
  each, and \<^verbatim>\<open>Verified\<close> has exactly the canonical names of the probes that passed.
\<close>

theorem Attest_verdict:
  "let a = Attest profile req digest wsf probes t in
     (at_Ready a \<longleftrightarrow> (\<forall>p \<in> set probes. pr_Err p = None \<and> pr_ExitCode p = pr_ExpectExit p)) \<and>
     (at_Terminal a \<longleftrightarrow> probes \<noteq> [] \<and> (\<forall>p \<in> set probes. \<not> probe_OK p)) \<and>
     (at_Degraded a \<longleftrightarrow> \<not> at_Ready a \<and> \<not> at_Terminal a) \<and> \<not> (at_Ready a \<and> at_Terminal a) \<and>
     sorted (at_FailedProbes a) \<and>
     mset (at_FailedProbes a) = mset (map (\<lambda>p. ToLower (TrimSpace (pr_Name p))) (filter (\<lambda>p. \<not> probe_OK p) probes)) \<and>
     set (gm_keys (at_Verified a)) = (\<lambda>p. ToLower (TrimSpace (pr_Name p))) ` {p \<in> set probes. probe_OK p}"
  unfolding Let_def Attest_fields
  by (auto simp: attest_loop_keys [simplified] attest_start_def comp_def probe_OK_def)

section \<open>Signatures\<close>

lemma append_same_length: "length (x :: 'a list) = length y \<Longrightarrow> a @ x = b @ y \<longleftrightarrow> a = b \<and> x = y"
  by simp

lemma req_Hash_length [simp]: "length (req_Hash r) = 64"
  by (simp add: req_Hash_def length_sha256_hex)

text \<open>
  The signature is a 64-character content address of the pair of profile and canonical
  requirements: it does not change under normalisation of the requirements, and the text it hashes
  is the same for two pairs exactly when both the profile identifier and the requirements hash
  agree, whatever characters the identifier contains.
\<close>

theorem SignatureFor_composite:
  "length (SignatureFor p r) = 64 \<and> SignatureFor p (Normalize r) = SignatureFor p r \<and>
   (profile_ID p @ '':'' @ req_Hash r = profile_ID q @ '':'' @ req_Hash s \<longleftrightarrow>
      profile_ID p = profile_ID q \<and> req_Hash r = req_Hash s)"
proof -
  have "req_Hash (Normalize r) = req_Hash r"
    by (simp add: req_Hash_def Normalize_Normalize)
  moreover have "profile_ID p @ '':'' @ req_Hash r = profile_ID q @ '':'' @ req_Hash s \<longleftrightarrow>
      profile_ID p = profile_ID q \<and> '':'' @ req_Hash r = '':'' @ req_Hash s"
    by (rule append_same_length) simp
  ultimately show ?thesis by (simp add: SignatureFor_def length_sha256_hex)
qed

section \<open>Freshness\<close>

text \<open>
  An attestation rendered at a time after the zero time is fresh exactly up to, and not
  including, the end of its profile's window: \<^verbatim>\<open>IsFresh\<close> holds at \<^verbatim>\<open>now\<close> if and only if less than the
  resolved lifetime has passed, and that lifetime is positive. At the boundary it is stale.
\<close>

theorem IsFresh_window:
  assumes "gt_ns t \<noteq> 0"
  shows "(IsFresh (Attest p r d w ps t) now \<longleftrightarrow> gt_ns now - gt_ns t < ResolvedTTL p) \<and> 0 < ResolvedTTL p"
  using assms
  by (auto simp: IsFresh_def Attest_fields time_IsZero_def Let_def time_Before_def time_Add_def
      ResolvedTTL_def DefaultTTL_def)

definition sample_time :: gotime where
  "sample_time = mk_utc (63000000000 * second_ns)"

theorem IsFresh_window_witness:
  "\<not> IsFresh (Attest (builtin_profiles ''/r'' ! 0) empty_requirements [] [] [] sample_time)
       (time_Add sample_time (ResolvedTTL (builtin_profiles ''/r'' ! 0)))"
  using IsFresh_window [of sample_time "builtin_profiles ''/r'' ! 0" empty_requirements "[]" "[]" "[]"
      "time_Add sample_time (ResolvedTTL (builtin_profiles ''/r'' ! 0))"]
  by (simp add: sample_time_def mk_utc_def time_Add_def)

section \<open>Predicates\<close>

text \<open>The last segments of the predicates a rendered attestation stamps, in order.\<close>

definition fixed_segments :: "Attestation \<Rightarrow> string list" where
  "fixed_segments a =
     [''profile'', ''ready'', ''attested-at'', ''degraded'', ''admission'', ''terminal'',
      ''requirements-hash'', ''signature'', ''ttl-seconds''] @
     (if at_ImageDigest a \<noteq> [] then [''image-digest''] else []) @
     (if at_HostWorkspaceFolder a \<noteq> [] then [''host-workspace-folder''] else []) @
     (if at_TerminalReason a \<noteq> [] then [''terminal-reason''] else []) @
     (if at_DegradedReasons a \<noteq> [] then [''degraded-reasons''] else []) @
     (if at_FailedProbes a \<noteq> [] then [''failed-probes''] else []) @
     (if at_AdmissionReasons a \<noteq> [] then [''admission-reasons''] else [])"

definition stamped_keys :: "Attestation \<Rightarrow> string list" where
  "stamped_keys a = filter (\<lambda>k. gm_get (at_Verified a) k \<noteq> None \<and> gm_get (at_Verified a) k \<noteq> Some [])
     (sort (gm_keys (at_Verified a)))"

definition segments :: "Attestation \<Rightarrow> string list" where
  "segments a = fixed_segments a @ map (\<lambda>k. ''verified-'' @ kebabProbeName k) (stamped_keys a)"

lemma verified_triples_predicates:
  "map Predicate (verified_triples s now V ks) =
     map (\<lambda>k. att_pred (''verified-'' @ kebabProbeName k)) (filter (\<lambda>k. gm_get V k \<noteq> None \<and> gm_get V k \<noteq> Some []) ks)"
  by (induction ks) (auto simp: Let_def baseAttTriple_def split: option.splits)

lemma Triples_predicates: "s \<noteq> [] \<Longrightarrow> map Predicate (Triples a s clock) = map att_pred (segments a)"
  by (simp add: Triples_def Let_def verified_triples_predicates segments_def fixed_segments_def
      stamped_keys_def baseAttTriple_def)

lemma fixed_segments_range:
  "set (fixed_segments a) \<subseteq> {''profile'', ''ready'', ''attested-at'', ''degraded'', ''admission'', ''terminal'',
      ''requirements-hash'', ''signature'', ''ttl-seconds'', ''image-digest'', ''host-workspace-folder'',
      ''terminal-reason'', ''degraded-reasons'', ''failed-probes'', ''admission-reasons''}"
  by (rule subsetI) (auto simp: fixed_segments_def split: if_splits)

lemma distinct_fixed_segments: "distinct (fixed_segments a)"
  by (simp add: fixed_segments_def)

lemma fixed_not_verified: "x \<in> set (fixed_segments a) \<Longrightarrow> x \<noteq> ''verified-'' @ k"
  using fixed_segments_range [of a] by auto

lemma distinct_segments:
  assumes "distinct (gm_keys (at_Verified a))" "inj_on kebabProbeName (set (gm_keys (at_Verified a)))"
  shows "distinct (segments a)"
proof -
  have "set (stamped_keys a) \<subseteq> set (gm_keys (at_Verified a))" by (auto simp: stamped_keys_def)
  with assms(2) have "inj_on kebabProbeName (set (stamped_keys a))" by (rule inj_on_subset)
  then have "inj_on (\<lambda>k. ''verified-'' @ kebabProbeName k) (set (stamped_keys a))"
    by (simp add: inj_on_def)
  moreover have "distinct (stamped_keys a)" using assms(1) by (simp add: stamped_keys_def)
  ultimately show ?thesis
    using fixed_not_verified distinct_fixed_segments by (auto simp: segments_def distinct_map)
qed

lemma kebab_no_dot: "CHR ''.'' \<notin> set (kebabProbeName k)"
  using kebabProbeName_kebab [of k]
  by (auto simp: lower_kebab_def list_all_iff kebab_char_def byte_class_defs byte_val_def)

lemma segments_shape: "x \<in> set (segments a) \<Longrightarrow> CHR ''.'' \<notin> set x \<and> x \<noteq> [] \<and> length x \<le> 64"
  using fixed_segments_range [of a] kebab_no_dot length_kebabProbeName by (auto simp: segments_def)

text \<open>The probe results of a validated request have names whose predicate segments differ.\<close>

lemma probe_names_inj:
  assumes "Validate r = None" "map pr_Name res = map vp_Name (rq_Verification (Normalize r))"
  shows "inj_on kebabProbeName (result_name ` set res)"
proof -
  let ?ps = "rq_Verification r"
  have "map (\<lambda>p. kebabProbeName (result_name p)) res =
      map (\<lambda>n. kebabProbeName (norm_token n)) (map pr_Name res)" by simp
  also have "\<dots> = map (\<lambda>p. kebabProbeName (norm_token (vp_Name p))) (sort_key vp_Name (map normalizeProbe ?ps))"
    unfolding assms(2) by (simp add: Normalize_def)
  finally have "mset (map (\<lambda>p. kebabProbeName (result_name p)) res) = mset (map probe_key ?ps)"
    by (simp add: multiset.map_comp comp_def probe_key_def [abs_def] normalizeProbe_def TrimSpace_ToLower)
  moreover have "distinct (map probe_key ?ps)" using assms(1) by (simp add: Validate_None_iff well_formed_def)
  ultimately have "distinct (map (\<lambda>p. kebabProbeName (result_name p)) res)" by (metis mset_eq_imp_distinct_iff)
  then show ?thesis by (auto simp: distinct_map inj_on_def)
qed

text \<open>
  The triples of an attestation for a validated request have pairwise different predicates, so
  no verified value overwrites another or a status predicate; and each predicate has exactly three
  dot-separated segments, the last of at most 64 bytes, as the predicate contract demands.
\<close>

theorem attestation_predicates:
  assumes "Validate r = None" "map pr_Name res = map vp_Name (rq_Verification (Normalize r))" "subj \<noteq> []"
  shows "distinct (map Predicate (Triples (Attest p (Normalize r) d w res t) subj clock)) \<and>
     (\<forall>tr \<in> set (Triples (Attest p (Normalize r) d w res t) subj clock).
        \<exists>seg. Predicate tr = ''sandbox.attestation.'' @ seg \<and> CHR ''.'' \<notin> set seg \<and> seg \<noteq> [] \<and> length seg \<le> 64)"
proof -
  let ?a = "Attest p (Normalize r) d w res t"
  have "set (gm_keys (at_Verified ?a)) \<subseteq> result_name ` set res"
    using attest_loop_keys [of attest_start res] by (auto simp: Attest_fields attest_start_def)
  then have "inj_on kebabProbeName (set (gm_keys (at_Verified ?a)))"
    using probe_names_inj [OF assms(1,2)] by (rule inj_on_subset [rotated])
  moreover have "distinct (gm_keys (at_Verified ?a))"
    using attest_loop_distinct [of attest_start res] by (simp add: Attest_fields attest_start_def)
  ultimately have "distinct (segments ?a)" by (intro distinct_segments)
  then have "distinct (map att_pred (segments ?a))" by (simp add: distinct_map inj_on_def)
  moreover have "\<exists>seg. Predicate tr = ''sandbox.attestation.'' @ seg \<and> CHR ''.'' \<notin> set seg \<and> seg \<noteq> [] \<and> length seg \<le> 64"
    if "tr \<in> set (Triples ?a subj clock)" for tr
  proof -
    have "Predicate tr \<in> set (map Predicate (Triples ?a subj clock))"
      using that unfolding set_map by (rule imageI)
    then obtain seg where "Predicate tr = att_pred seg" "seg \<in> set (segments ?a)"
      unfolding Triples_predicates [OF assms(3)] set_map by (rule imageE)
    with segments_shape [OF this(2)] show ?thesis by blast
  qed
  ultimately show ?thesis unfolding Triples_predicates [OF assms(3)] by (intro conjI ballI)
qed

definition sample_result :: ProbeResult where
  "sample_result = \<lparr>pr_Name = ''go'', pr_Command = ''go version'', pr_ExitCode = 0, pr_ExpectExit = 0,
     pr_Stdout = ''go1.25'', pr_Stderr = [], pr_Err = None\<rparr>"

theorem attestation_predicates_witness:
  "distinct (map Predicate (Triples (Attest (builtin_profiles ''/r'' ! 0) (Normalize req_sample) ''d'' ''w'' [sample_result] sample_time)
     ''acme.run.1'' sample_time))"
proof -
  have "map pr_Name [sample_result] = map vp_Name (rq_Verification (Normalize req_sample))" by code_simp
  from attestation_predicates [OF req_samples_valid(1) this, of "''acme.run.1''"] show ?thesis by simp
qed

theorem Attest_verdict_witness:
  "at_Degraded (Attest (builtin_profiles ''/r'' ! 0) req_sample ''d'' ''w''
     [sample_result, sample_result\<lparr>pr_ExitCode := 1\<rparr>] sample_time)"
proof -
  have "probe_OK sample_result" "\<not> (pr_ExitCode (sample_result\<lparr>pr_ExitCode := 1\<rparr>) = pr_ExpectExit (sample_result\<lparr>pr_ExitCode := 1\<rparr>))"
    by code_simp+
  then show ?thesis
    using Attest_verdict [of "builtin_profiles ''/r'' ! 0" req_sample "''d''" "''w''"
        "[sample_result, sample_result\<lparr>pr_ExitCode := 1\<rparr>]" sample_time]
    by (auto simp: Let_def)
qed

end
