(* ===== verification/Sandbox_Manager.thy ===== *)
theory Sandbox_Manager
  imports Sandbox_Attestation
begin

text \<open>
  The sandbox manager, \<^verbatim>\<open>sandboxmanager/manager.go\<close>, with the in-memory runner of \<^verbatim>\<open>runner_mock.go\<close> and
  the hash of \<^verbatim>\<open>hash.go\<close>. The runner, the publisher and the clocks act on a world of an arbitrary
  type that is threaded through every call; a deadline reaches the runner as its duration. The
  logger is left out. An error is its message.
\<close>

section \<open>Data\<close>

record ContainerRef =
  cr_ContainerID :: string
  cr_ImageDigest :: string
  cr_HostWorkspaceFolder :: string
  cr_RemoteWorkspaceFolder :: string
  cr_Properties :: "(string \<times> string) list"

type_synonym env = "(string \<times> string) list"

text \<open>\<^verbatim>\<open>Runner\<close>: timeout, workspace folder, config path and environment to a container; timeout, container
  and command to a result and an error.\<close>

type_synonym 'w up_fn = "'w \<Rightarrow> int \<Rightarrow> string \<Rightarrow> string \<Rightarrow> env \<Rightarrow> (string + ContainerRef) \<times> 'w"
type_synonym 'w exec_fn = "'w \<Rightarrow> int \<Rightarrow> ContainerRef \<Rightarrow> string \<Rightarrow> (ProbeResult \<times> string option) \<times> 'w"

record 'w Runner =
  rn_Up :: "'w up_fn"
  rn_Exec :: "'w exec_fn"

record 'w Manager =
  mg_catalog :: "Catalog option"
  mg_policy :: AdmissionPolicy
  mg_runner :: "'w Runner"
  mg_publisher :: "'w publisher"
  mg_tenantRoot :: string
  mg_probeTimeout :: int
  mg_upTimeout :: int
  mg_now :: "'w \<Rightarrow> gotime"
  mg_wall :: "'w \<Rightarrow> gotime"

record 'w ManagerConfig =
  mc_Catalog :: "Catalog option"
  mc_Policy :: AdmissionPolicy
  mc_Runner :: "'w Runner option"
  mc_Publisher :: "'w publisher option"
  mc_TenantRoot :: string
  mc_ProbeTimeout :: int
  mc_UpTimeout :: int
  mc_Now :: "('w \<Rightarrow> gotime) option"

section \<open>New\<close>

text \<open>\<open>Inl\<close> is a panic; \<open>wall\<close> is \<^verbatim>\<open>time.Now\<close>.\<close>

definition New :: "('w \<Rightarrow> gotime) \<Rightarrow> 'w ManagerConfig \<Rightarrow> string + 'w Manager" where
  "New wall cfg =
     (case mc_Catalog cfg of
        None \<Rightarrow> Inl ''sandboxmanager.New: Catalog must not be nil''
      | Some c \<Rightarrow>
     (case mc_Runner cfg of
        None \<Rightarrow> Inl ''sandboxmanager.New: Runner must not be nil''
      | Some r \<Rightarrow>
     (case mc_Publisher cfg of
        None \<Rightarrow> Inl ''sandboxmanager.New: Publisher must not be nil''
      | Some p \<Rightarrow> Inr \<lparr>
          mg_catalog = Some c, mg_policy = mc_Policy cfg, mg_runner = r, mg_publisher = p,
          mg_tenantRoot = (if mc_TenantRoot cfg = [] then ''/var/lib/semteams-tenants'' else mc_TenantRoot cfg),
          mg_probeTimeout = (if mc_ProbeTimeout cfg \<le> 0 then 30 * second_ns else mc_ProbeTimeout cfg),
          mg_upTimeout = (if mc_UpTimeout cfg \<le> 0 then 5 * 60 * second_ns else mc_UpTimeout cfg),
          mg_now = (case mc_Now cfg of None \<Rightarrow> (\<lambda>w. time_UTC (wall w)) | Some f \<Rightarrow> f),
          mg_wall = wall\<rparr>)))"

section \<open>Request\<close>

definition workspaceFor :: "'w Manager \<Rightarrow> SandboxRequirements \<Rightarrow> Profile \<Rightarrow> string" where
  "workspaceFor m req profile =
     (let sig = SignatureFor profile req;
          prefix = (if length sig > 16 then take 16 sig else sig)
      in TrimRightChar (mg_tenantRoot m) CHR ''/'' @ ''/'' @ prefix @ ''/workspace'')"

definition secretEnv :: "SandboxRequirements \<Rightarrow> env" where
  "secretEnv req = (if rq_Secrets req = [] then [] else fold (\<lambda>s out. gm_put s [] out) (rq_Secrets req) [])"

definition stamp :: "'w Manager \<Rightarrow> 'w \<Rightarrow> string \<Rightarrow> Attestation \<Rightarrow> string option \<times> 'w" where
  "stamp m w chainEntityID att =
     (if chainEntityID = [] then (None, w)
      else (let triples = Triples att chainEntityID (mg_wall m w) in
        if triples = [] then (None, w)
        else (case mg_publisher m w triples of
                (None, w') \<Rightarrow> (None, w')
              | (Some e, w') \<Rightarrow> (Some (''stamp attestation on '' @ chainEntityID @ '': '' @ e), w'))))"

fun runProbes :: "'w Manager \<Rightarrow> 'w \<Rightarrow> ContainerRef \<Rightarrow> VerifyProbe list \<Rightarrow> ProbeResult list \<times> 'w" where
  "runProbes m w ref [] = ([], w)"
| "runProbes m w ref (p # ps) =
     (case rn_Exec (mg_runner m) w (mg_probeTimeout m) ref (vp_Command p) of
        ((res, err), w') \<Rightarrow>
          (let res1 = res\<lparr>pr_Name := vp_Name p, pr_Command := vp_Command p, pr_ExpectExit := vp_ExpectExit p\<rparr>;
               res2 = (if err \<noteq> None \<and> pr_Err res1 = None then res1\<lparr>pr_Err := err\<rparr> else res1)
           in (case runProbes m w' ref ps of (out, w'') \<Rightarrow> (res2 # out, w''))))"

definition unmatched_profile :: Profile where
  "unmatched_profile = \<lparr>pf_Name = ''unmatched'', pf_Version = ''v0'', pf_DevcontainerPath = [],
     pf_Languages = [], pf_Tools = [], pf_Services = [], pf_AllowedNetwork = [],
     pf_AllowedPrivileges = [], pf_TTL = 0\<rparr>"

text \<open>\<^verbatim>\<open>return att, m.stamp(ctx, chainEntityID, att)\<close>\<close>

definition finish :: "'w Manager \<Rightarrow> 'w \<Rightarrow> string \<Rightarrow> Attestation \<Rightarrow> (Attestation \<times> string option) \<times> 'w" where
  "finish m w chainEntityID att =
     (case stamp m w chainEntityID att of (err, w') \<Rightarrow> ((att, err), w'))"

definition Request :: "'w Manager \<Rightarrow> 'w \<Rightarrow> string \<Rightarrow> SandboxRequirements \<Rightarrow> (Attestation \<times> string option) \<times> 'w" where
  "Request m w chainEntityID req0 =
     (case Validate req0 of
        Some e \<Rightarrow> finish m w chainEntityID
          (AttestTerminalError unmatched_profile req0
             (''requirements validation failed: '' @ req_error_msg e) (mg_now m w))
      | None \<Rightarrow>
     (let req = Normalize req0 in
      case MatchProfile req (mg_catalog m) of
        Inl e \<Rightarrow> finish m w chainEntityID
          (AttestTerminalError unmatched_profile req (''no profile match: '' @ match_error_msg e) (mg_now m w))
      | Inr profile \<Rightarrow>
     (let admission = AdmissionCheck req profile (mg_policy m) in
      if ar_Outcome admission \<noteq> AdmissionAdmitted then
        finish m w chainEntityID (AttestAdmissionFailure profile req admission (mg_now m w))
      else
     (case rn_Up (mg_runner m) w (mg_upTimeout m) (workspaceFor m req profile)
             (pf_DevcontainerPath profile) (secretEnv req) of
        (Inl e, w1) \<Rightarrow> finish m w1 chainEntityID
          (AttestTerminalError profile req (''devcontainer up failed: '' @ e) (mg_now m w1))
      | (Inr ref, w1) \<Rightarrow>
          (case runProbes m w1 ref (rq_Verification req) of
             (probes, w2) \<Rightarrow> finish m w2 chainEntityID
               (Attest profile req (cr_ImageDigest ref) (cr_HostWorkspaceFolder ref) probes (mg_now m w2)))))))"

section \<open>MockRunner\<close>

definition fnv_offset64 :: "64 word" where
  "fnv_offset64 = 14695981039346656037"

definition fnv_prime64 :: "64 word" where
  "fnv_prime64 = 1099511628211"

fun fnv_loop :: "64 word \<Rightarrow> string \<Rightarrow> 64 word" where
  "fnv_loop h [] = h"
| "fnv_loop h (c # cs) = fnv_loop (xor h (word_of_nat (byte_val c)) * fnv_prime64) cs"

fun hex_nat :: "nat \<Rightarrow> string" where
  "hex_nat n = (if n < 16 then [hex_digit n] else hex_nat (n div 16) @ [hex_digit (n mod 16)])"

declare hex_nat.simps [simp del]

definition fnv12 :: "string \<Rightarrow> string" where
  "fnv12 s = (let h = hex_nat (unat (fnv_loop fnv_offset64 s))
              in take 12 (replicate (12 - length h) CHR ''0'' @ h))"

definition MockRunner_Up :: "'w up_fn" where
  "MockRunner_Up w timeout workspaceFolder configPath env =
     (Inr \<lparr>cr_ContainerID = ''mock-'' @ fnv12 workspaceFolder,
           cr_ImageDigest = ''sha256:mock'' @ fnv12 workspaceFolder,
           cr_HostWorkspaceFolder = workspaceFolder,
           cr_RemoteWorkspaceFolder = ''/workspaces/mock-'' @ fnv12 workspaceFolder,
           cr_Properties = []\<rparr>, w)"

definition MockRunner_Exec :: "'w exec_fn" where
  "MockRunner_Exec w timeout ref command =
     ((\<lparr>pr_Name = [], pr_Command = command, pr_ExitCode = 0, pr_ExpectExit = 0,
        pr_Stdout = ''mock ok: '' @ command, pr_Stderr = [], pr_Err = None\<rparr>, None), w)"

definition MockRunner :: "'w Runner" where
  "MockRunner = \<lparr>rn_Up = MockRunner_Up, rn_Exec = MockRunner_Exec\<rparr>"

section \<open>Probes and stamping\<close>

lemma runProbes_cong:
  "mg_runner m = mg_runner m' \<Longrightarrow> mg_probeTimeout m = mg_probeTimeout m' \<Longrightarrow> runProbes m w ref ps = runProbes m' w ref ps"
  by (induction ps arbitrary: w) (simp_all split: prod.splits)

lemma fst_finish [simp]: "fst (fst (finish m w c att)) = att"
  by (simp add: finish_def split: prod.splits)

lemma finish_cong:
  "mg_publisher m = mg_publisher m' \<Longrightarrow> mg_wall m = mg_wall m' \<Longrightarrow> finish m w c att = finish m' w c att"
  by (simp add: finish_def stamp_def Let_def cong: if_cong)

text \<open>The profile a request is admitted on, if any.\<close>

definition admitted_on :: "'w Manager \<Rightarrow> SandboxRequirements \<Rightarrow> Profile option" where
  "admitted_on m r =
     (if Validate r \<noteq> None then None
      else (case MatchProfile (Normalize r) (mg_catalog m) of
              Inl _ \<Rightarrow> None
            | Inr p \<Rightarrow> if ar_Outcome (AdmissionCheck (Normalize r) p (mg_policy m)) = AdmissionAdmitted
                       then Some p else None))"

text \<open>What the request does once admitted.\<close>

definition materialise :: "'w Manager \<Rightarrow> 'w \<Rightarrow> string \<Rightarrow> SandboxRequirements \<Rightarrow> Profile \<Rightarrow> (Attestation \<times> string option) \<times> 'w" where
  "materialise m w c req profile =
     (case rn_Up (mg_runner m) w (mg_upTimeout m) (workspaceFor m req profile)
             (pf_DevcontainerPath profile) (secretEnv req) of
        (Inl e, w1) \<Rightarrow> finish m w1 c
          (AttestTerminalError profile req (''devcontainer up failed: '' @ e) (mg_now m w1))
      | (Inr ref, w1) \<Rightarrow>
          (case runProbes m w1 ref (rq_Verification req) of
             (probes, w2) \<Rightarrow> finish m w2 c
               (Attest profile req (cr_ImageDigest ref) (cr_HostWorkspaceFolder ref) probes (mg_now m w2))))"

lemma Request_admitted: "admitted_on m r = Some p \<Longrightarrow> Request m w c r = materialise m w c (Normalize r) p"
  by (auto simp: Request_def admitted_on_def materialise_def Let_def split: option.splits sum.splits if_splits)

lemma Request_gated:
  assumes "admitted_on m r = None"
  shows "\<exists>att. Request m w c r = finish m w c att \<and> \<not> at_Ready att \<and> at_HostWorkspaceFolder att = [] \<and>
     (\<forall>rn. Request (m\<lparr>mg_runner := rn\<rparr>) w c r = finish m w c att)"
proof (cases "Validate r")
  case (Some e)
  then show ?thesis
    by (intro exI [of _ "AttestTerminalError unmatched_profile r
          (''requirements validation failed: '' @ req_error_msg e) (mg_now m w)"])
      (auto simp: Request_def AttestTerminalError_def intro!: finish_cong)
next
  case None
  note valid = this
  show ?thesis
  proof (cases "MatchProfile (Normalize r) (mg_catalog m)")
    case (Inl e)
    with valid show ?thesis
      by (intro exI [of _ "AttestTerminalError unmatched_profile (Normalize r)
            (''no profile match: '' @ match_error_msg e) (mg_now m w)"])
        (auto simp: Request_def AttestTerminalError_def Let_def intro!: finish_cong)
  next
    case (Inr p)
    with valid assms have "ar_Outcome (AdmissionCheck (Normalize r) p (mg_policy m)) \<noteq> AdmissionAdmitted"
      by (auto simp: admitted_on_def)
    with valid Inr show ?thesis
      by (intro exI [of _ "AttestAdmissionFailure p (Normalize r) (AdmissionCheck (Normalize r) p (mg_policy m)) (mg_now m w)"])
        (auto simp: Request_def AttestAdmissionFailure_def Let_def intro!: finish_cong)
  qed
qed

text \<open>
  A request that is invalid, matches no profile, or is not admitted never reaches the runner:
  its result and its effect on the world are the same whatever the runner does, the attestation is
  not ready and names no workspace folder.
\<close>

theorem gated_request_no_runner:
  assumes "Validate r \<noteq> None \<or> (\<exists>e. MatchProfile (Normalize r) (mg_catalog m) = Inl e) \<or>
    (\<exists>p. MatchProfile (Normalize r) (mg_catalog m) = Inr p \<and>
       ar_Outcome (AdmissionCheck (Normalize r) p (mg_policy m)) \<noteq> AdmissionAdmitted)"
  shows "(\<forall>rn. Request (m\<lparr>mg_runner := rn\<rparr>) w c r = Request m w c r) \<and>
    \<not> at_Ready (fst (fst (Request m w c r))) \<and> at_HostWorkspaceFolder (fst (fst (Request m w c r))) = []"
proof -
  have "admitted_on m r = None" using assms by (auto simp: admitted_on_def)
  from Request_gated [OF this, of w c] show ?thesis by auto
qed

text \<open>
  A run of probes in which every one passes, over the runner's \<^verbatim>\<open>Exec\<close>: each command is executed as the
  request words it, in the order of the request, in the one container, under the one deadline; it ends without
  error on either channel and on the exit code the request expects.
\<close>

inductive probes_pass :: "'w exec_fn \<Rightarrow> int \<Rightarrow> ContainerRef \<Rightarrow> 'w \<Rightarrow> VerifyProbe list \<Rightarrow> 'w \<Rightarrow> bool" for ex timeout ref where
  no_probe: "probes_pass ex timeout ref w [] w"
| probe_passes: "ex w timeout ref (vp_Command p) = ((res, None), w1) \<Longrightarrow> pr_Err res = None \<Longrightarrow> pr_ExitCode res = vp_ExpectExit p \<Longrightarrow>
    probes_pass ex timeout ref w1 ps w2 \<Longrightarrow> probes_pass ex timeout ref w (p # ps) w2"

inductive_simps probes_pass_Nil: "probes_pass ex timeout ref w [] w2"
inductive_simps probes_pass_Cons: "probes_pass ex timeout ref w (p # ps) w2"

lemma runProbes_pass:
  "list_all probe_OK (fst (runProbes m w ref ps)) \<longleftrightarrow> (\<exists>w2. probes_pass (rn_Exec (mg_runner m)) (mg_probeTimeout m) ref w ps w2)"
proof (induction ps arbitrary: w)
  case Nil
  then show ?case by (simp add: probes_pass_Nil)
next
  case (Cons p ps)
  obtain res err w1 where ex: "rn_Exec (mg_runner m) w (mg_probeTimeout m) ref (vp_Command p) = ((res, err), w1)"
    by (metis prod.collapse)
  show ?case using Cons [of w1] unfolding probes_pass_Cons
    by (cases err) (auto simp: ex Let_def probe_OK_def split: prod.splits)
qed

text \<open>
  C29. A ready attestation is earned, and what earns it is all that is needed: an attestation is ready exactly when
  the request was valid, a profile of the catalog covers it and admitted it outright, the runner brought a container up on
  the manager's own workspace folder, and every probe of the request, executed in that container, passed. The attestation
  then names that container's image and folder and no failed probe.
\<close>

theorem ready_request_sound:
  "at_Ready (fst (fst (Request m w c r))) \<longleftrightarrow>
     Validate r = None \<and> (\<exists>p ref w1 w2. MatchProfile (Normalize r) (mg_catalog m) = Inr p \<and>
     ar_Outcome (AdmissionCheck (Normalize r) p (mg_policy m)) = AdmissionAdmitted \<and>
     rn_Up (mg_runner m) w (mg_upTimeout m) (workspaceFor m (Normalize r) p) (pf_DevcontainerPath p)
       (secretEnv (Normalize r)) = (Inr ref, w1) \<and>
     probes_pass (rn_Exec (mg_runner m)) (mg_probeTimeout m) ref w1 (rq_Verification (Normalize r)) w2 \<and>
     at_ImageDigest (fst (fst (Request m w c r))) = cr_ImageDigest ref \<and>
     at_HostWorkspaceFolder (fst (fst (Request m w c r))) = cr_HostWorkspaceFolder ref \<and>
     at_FailedProbes (fst (fst (Request m w c r))) = [])"
proof (cases "admitted_on m r")
  case None
  from Request_gated [OF this, of w c] None show ?thesis
    by (auto simp: admitted_on_def split: if_splits sum.splits)
next
  case (Some p)
  then have p: "Validate r = None" "MatchProfile (Normalize r) (mg_catalog m) = Inr p"
    "ar_Outcome (AdmissionCheck (Normalize r) p (mg_policy m)) = AdmissionAdmitted"
    by (auto simp: admitted_on_def split: if_splits sum.splits)
  obtain res w1 where up: "rn_Up (mg_runner m) w (mg_upTimeout m) (workspaceFor m (Normalize r) p)
      (pf_DevcontainerPath p) (secretEnv (Normalize r)) = (res, w1)" by fastforce
  show ?thesis
  proof (cases res)
    case (Inl e)
    with up have "\<not> at_Ready (fst (fst (Request m w c r)))"
      by (simp add: Request_admitted [OF Some] materialise_def AttestTerminalError_def)
    with p up Inl show ?thesis by auto
  next
    case (Inr ref)
    define probes where "probes = fst (runProbes m w1 ref (rq_Verification (Normalize r)))"
    obtain t where att: "fst (fst (Request m w c r)) = Attest p (Normalize r) (cr_ImageDigest ref) (cr_HostWorkspaceFolder ref) probes t"
    proof -
      obtain ps w2 where "runProbes m w1 ref (rq_Verification (Normalize r)) = (ps, w2)" by fastforce
      with up Inr show thesis by (intro that [of "mg_now m w2"]) (simp add: Request_admitted [OF Some] materialise_def probes_def)
    qed
    have digest: "at_ImageDigest (Attest p (Normalize r) (cr_ImageDigest ref) (cr_HostWorkspaceFolder ref) probes t) = cr_ImageDigest ref"
      by (simp add: Attest_def Let_def)
    have ready: "at_Ready (Attest p (Normalize r) (cr_ImageDigest ref) (cr_HostWorkspaceFolder ref) probes t) \<longleftrightarrow> list_all probe_OK probes"
      by (simp add: Attest_fields list_all_iff)
    have failed: "sort (map result_name (filter (Not \<circ> probe_OK) probes)) = []" if "list_all probe_OK probes"
      using that by (auto simp: filter_empty_conv list_all_iff)
    have pass: "list_all probe_OK probes \<longleftrightarrow>
        (\<exists>w2. probes_pass (rn_Exec (mg_runner m)) (mg_probeTimeout m) ref w1 (rq_Verification (Normalize r)) w2)"
      unfolding probes_def by (rule runProbes_pass)
    show ?thesis
    proof (cases "list_all probe_OK probes")
      case True
      then show ?thesis using p up Inr pass failed [OF True] unfolding att ready digest by (simp add: Attest_fields)
    next
      case False
      then show ?thesis using p up Inr pass unfolding att ready digest by auto
    qed
  qed
qed

text \<open>
  The attestation returned does not depend on the graph: any other publisher, a failing one
  included, yields the same attestation. An error is returned only when the publisher refused the
  triples of that very attestation, and carries the publisher's own message.
\<close>

theorem attestation_independent_of_publisher:
  "fst (fst (Request (m\<lparr>mg_publisher := pub\<rparr>) w c r)) = fst (fst (Request m w c r)) \<and>
   (\<forall>err. snd (fst (Request m w c r)) = Some err \<longrightarrow> c \<noteq> [] \<and>
      (\<exists>w' e. fst (mg_publisher m w' (Triples (fst (fst (Request m w c r))) c (mg_wall m w'))) = Some e \<and>
         err = ''stamp attestation on '' @ c @ '': '' @ e))"
proof -
  have err: "c \<noteq> [] \<and> (\<exists>w' e. fst (mg_publisher m w' (Triples att c (mg_wall m w'))) = Some e \<and>
      err = ''stamp attestation on '' @ c @ '': '' @ e)" if "snd (fst (finish m w0 c att)) = Some err" for w0 att err
    using that
    by (auto simp: finish_def stamp_def Let_def split: prod.splits if_splits option.splits)
      (metis fst_conv)
  have same: "runProbes (m\<lparr>mg_publisher := pub\<rparr>) = runProbes m" "workspaceFor (m\<lparr>mg_publisher := pub\<rparr>) = workspaceFor m"
    by (intro ext runProbes_cong; simp) (simp add: workspaceFor_def fun_eq_iff)
  have "fst (fst (Request (m\<lparr>mg_publisher := pub\<rparr>) w c r)) = fst (fst (Request m w c r))"
    by (simp add: Request_def same Let_def split: option.splits sum.splits prod.splits)
  moreover have "\<exists>w' att. Request m w c r = finish m w' c att"
    by (simp add: Request_def Let_def split: option.splits sum.splits prod.splits) blast
  then obtain w' att where fin: "Request m w c r = finish m w' c att" by blast
  ultimately show ?thesis using err [of w' att] unfolding fin by (metis fst_finish)
qed

section \<open>The workspace folder\<close>

text \<open>
  The contract of a runner's \<^verbatim>\<open>Up\<close> towards the manager: the container it returns is bound to the
  workspace folder it was given. What the manager's clients then know of an attestation follows
  once for all such runners.
\<close>

locale folder_runner =
  fixes up :: "'w up_fn"
  assumes up_folder: "fst (up w timeout wsf cfg env) = Inr ref \<Longrightarrow> cr_HostWorkspaceFolder ref = wsf"
begin

lemma ready_folder:
  assumes "rn_Up (mg_runner m) = up" "admitted_on m r = Some p"
    "fst (up w (mg_upTimeout m) (workspaceFor m (Normalize r) p) (pf_DevcontainerPath p) (secretEnv (Normalize r))) = Inr ref"
  shows "at_HostWorkspaceFolder (fst (fst (Request m w c r))) = workspaceFor m (Normalize r) p"
  using up_folder [OF assms(3)] assms(3)
  by (auto simp: Request_admitted [OF assms(2)] materialise_def assms(1) Attest_fields split: prod.splits sum.splits)

end

interpretation mock: folder_runner MockRunner_Up
  by unfold_locales (auto simp: MockRunner_Up_def)

lemma mock_up: "fst (MockRunner_Up w timeout wsf cfg env) = Inr ref \<longleftrightarrow>
   ref = \<lparr>cr_ContainerID = ''mock-'' @ fnv12 wsf, cr_ImageDigest = ''sha256:mock'' @ fnv12 wsf,
     cr_HostWorkspaceFolder = wsf, cr_RemoteWorkspaceFolder = ''/workspaces/mock-'' @ fnv12 wsf, cr_Properties = []\<rparr>"
  by (auto simp: MockRunner_Up_def)

lemma mock_probes:
  assumes "mg_runner m = MockRunner"
  shows "runProbes m w ref ps = (map (\<lambda>p. \<lparr>pr_Name = vp_Name p, pr_Command = vp_Command p, pr_ExitCode = 0,
     pr_ExpectExit = vp_ExpectExit p, pr_Stdout = ''mock ok: '' @ vp_Command p, pr_Stderr = [], pr_Err = None\<rparr>) ps, w)"
  by (induction ps) (simp_all add: assms MockRunner_def MockRunner_Exec_def Let_def)

lemma workspaceFor_Normalize: "workspaceFor m (Normalize r) p = workspaceFor m r p"
  by (simp add: workspaceFor_def SignatureFor_def req_Hash_def Let_def)

text \<open>
  With the in-memory runner an admitted request materialises on the folder the manager derives
  for it, and is ready exactly when every probe expects exit code 0; the world is left to the
  publisher alone.
\<close>

theorem mock_request:
  assumes "mg_runner m = MockRunner" "Validate r = None" "MatchProfile (Normalize r) (mg_catalog m) = Inr p"
    "ar_Outcome (AdmissionCheck (Normalize r) p (mg_policy m)) = AdmissionAdmitted"
  shows "at_HostWorkspaceFolder (fst (fst (Request m w c r))) = workspaceFor m r p \<and>
     (at_Ready (fst (fst (Request m w c r))) \<longleftrightarrow> (\<forall>q \<in> set (rq_Verification (Normalize r)). vp_ExpectExit q = 0)) \<and>
     snd (Request m w [] r) = w"
proof -
  have ad: "admitted_on m r = Some p" using assms(2-4) by (simp add: admitted_on_def)
  have up: "rn_Up (mg_runner m) = MockRunner_Up" by (simp add: assms(1) MockRunner_def)
  have "at_HostWorkspaceFolder (fst (fst (Request m w c r))) = workspaceFor m (Normalize r) p"
    by (rule mock.ready_folder [OF up ad]) (simp add: MockRunner_Up_def)
  moreover have "at_Ready (fst (fst (Request m w c r))) \<longleftrightarrow> (\<forall>q \<in> set (rq_Verification (Normalize r)). vp_ExpectExit q = 0)"
    by (auto simp: Request_admitted [OF ad] materialise_def up MockRunner_Up_def mock_probes [OF assms(1)] Attest_fields probe_OK_def)
  moreover have "snd (Request m w [] r) = w"
    by (simp add: Request_admitted [OF ad] materialise_def up MockRunner_Up_def mock_probes [OF assms(1)] finish_def stamp_def)
  ultimately show ?thesis by (simp add: workspaceFor_Normalize)
qed

text \<open>
  The workspace folder is the tenant root without trailing slashes, a directory named by the
  first sixteen hexadecimal characters of the signature, and \<^verbatim>\<open>/workspace\<close>: no requirement or profile
  text reaches the path. Requests for the same capabilities on the same profile share the folder.
\<close>

theorem workspace_path:
  "(\<exists>d. length d = 16 \<and> list_all is_hex d \<and>
      workspaceFor m r p = TrimRightChar (mg_tenantRoot m) CHR ''/'' @ ''/'' @ d @ ''/workspace'') \<and>
   (Validate r = None \<and> Validate s = None \<and> same_capabilities r s \<longrightarrow> workspaceFor m r p = workspaceFor m s p)"
proof -
  let ?sig = "SignatureFor p r"
  have "length ?sig = 64" "list_all is_hex ?sig"
    by (simp_all add: SignatureFor_def length_sha256_hex sha256_hex_chars list_all_iff)
  then have "length (take 16 ?sig) = 16" "list_all is_hex (take 16 ?sig)"
    by (auto simp: list_all_iff dest: in_set_takeD)
  moreover have "workspaceFor m r p = TrimRightChar (mg_tenantRoot m) CHR ''/'' @ ''/'' @ take 16 ?sig @ ''/workspace''"
    using \<open>length ?sig = 64\<close> by (simp add: workspaceFor_def Let_def)
  moreover have "workspaceFor m r p = workspaceFor m s p" if "Validate r = None" "Validate s = None" "same_capabilities r s"
    using Normalize_eq_iff [OF that(1,2)] that(3) workspaceFor_Normalize by metis
  ultimately show ?thesis by blast
qed

section \<open>Secrets\<close>




section \<open>Witnesses\<close>

definition sample_manager :: "triple list Manager" where
  "sample_manager = \<lparr>mg_catalog = Some sample_catalog, mg_policy = strict_policy\<lparr>ap_AvailableSecrets := [''API_KEY'']\<rparr>,
     mg_runner = MockRunner, mg_publisher = recording_publisher, mg_tenantRoot = ''/t/'',
     mg_probeTimeout = 30 * second_ns, mg_upTimeout = 300 * second_ns,
     mg_now = (\<lambda>_. sample_time), mg_wall = (\<lambda>_. sample_time)\<rparr>"

definition sample_ready_req :: SandboxRequirements where
  "sample_ready_req = empty_requirements\<lparr>rq_Languages := [''Go''],
     rq_Verification := [\<lparr>vp_Name = ''go'', vp_Command = ''go version'', vp_ExpectExit = 0\<rparr>]\<rparr>"


lemma sample_manager_simps [simp]:
  "mg_runner sample_manager = MockRunner" "mg_catalog sample_manager = Some sample_catalog"
  "mg_policy sample_manager = strict_policy\<lparr>ap_AvailableSecrets := [''API_KEY'']\<rparr>"
  by (simp_all add: sample_manager_def)

lemma sample_ready_facts:
  "Validate sample_ready_req = None"
  "MatchProfile (Normalize sample_ready_req) (Some sample_catalog) = Inr (builtin_profiles ''/repo'' ! 0)"
  "ar_Outcome (AdmissionCheck (Normalize sample_ready_req) (builtin_profiles ''/repo'' ! 0)
     (strict_policy\<lparr>ap_AvailableSecrets := [''API_KEY'']\<rparr>)) = AdmissionAdmitted"
  "\<forall>q \<in> set (rq_Verification (Normalize sample_ready_req)). vp_ExpectExit q = 0"
  by code_simp+

theorem mock_request_witness: "at_Ready (fst (fst (Request sample_manager [] ''acme.run.1'' sample_ready_req)))"
  using mock_request [of sample_manager sample_ready_req "builtin_profiles ''/repo'' ! 0" "[]" "''acme.run.1''"]
    sample_ready_facts by simp

lemma sample_ready: "at_Ready (fst (fst (Request sample_manager [] [] sample_ready_req)))"
proof -
  have ad: "admitted_on sample_manager sample_ready_req = Some (builtin_profiles ''/repo'' ! 0)"
    using sample_ready_facts by (simp add: admitted_on_def)
  have run: "mg_runner sample_manager = MockRunner" by simp
  show ?thesis
    using sample_ready_facts(4)
    by (auto simp: Request_admitted [OF ad] materialise_def MockRunner_def MockRunner_Up_def
        mock_probes [OF run] Attest_fields probe_OK_def)
qed

theorem ready_request_sound_witness:
  "\<exists>p ref w1 w2. rn_Up (mg_runner sample_manager) [] (mg_upTimeout sample_manager) (workspaceFor sample_manager (Normalize sample_ready_req) p)
       (pf_DevcontainerPath p) (secretEnv (Normalize sample_ready_req)) = (Inr ref, w1) \<and>
     probes_pass (rn_Exec (mg_runner sample_manager)) (mg_probeTimeout sample_manager) ref w1 (rq_Verification (Normalize sample_ready_req)) w2"
  using sample_ready unfolding ready_request_sound by blast



theorem gated_request_no_runner_witness:
  "\<forall>rn. Request (sample_manager\<lparr>mg_runner := rn\<rparr>) [] [] (empty_requirements\<lparr>rq_Network := ''x''\<rparr>) =
     Request sample_manager [] [] (empty_requirements\<lparr>rq_Network := ''x''\<rparr>)"
proof -
  have "Validate (empty_requirements\<lparr>rq_Network := ''x''\<rparr>) \<noteq> None" by code_simp
  then show ?thesis using gated_request_no_runner [of "empty_requirements\<lparr>rq_Network := ''x''\<rparr>" sample_manager "[]" "[]"] by blast
qed

theorem workspace_path_witness:
  "workspaceFor sample_manager req_sample (builtin_profiles ''/repo'' ! 0) =
   workspaceFor sample_manager req_sample2 (builtin_profiles ''/repo'' ! 0)"
  using workspace_path [of sample_manager req_sample "builtin_profiles ''/repo'' ! 0" req_sample2]
    req_samples_valid req_samples_same by blast

definition failing_publisher :: "triple list publisher" where
  "failing_publisher w ts = (Some ''no responders'', w)"

theorem attestation_independent_of_publisher_witness:
  "at_Ready (fst (fst (Request (sample_manager\<lparr>mg_publisher := failing_publisher\<rparr>) [] [] sample_ready_req)))"
  using attestation_independent_of_publisher [where m = sample_manager and pub = failing_publisher and w = "[]"
      and c = "[]" and r = sample_ready_req] sample_ready by simp

end
