(* ===== verification/Sandbox_Shell.thy ===== *)
theory Sandbox_Shell
  imports Sandbox_Manager
begin

text \<open>
  The text the sandbox API runner hands to a shell, \<^verbatim>\<open>joinShell\<close>, \<^verbatim>\<open>taskIDFor\<close> and \<^verbatim>\<open>truncateLine\<close> of
  \<^verbatim>\<open>sandboxmanager/runner_api.go\<close> and \<^verbatim>\<open>runner_cli.go\<close>. The quoting is judged against a reader of
  shell words, which is a specification and models no code: single quotes keep everything up to the
  next single quote, a backslash outside quotes keeps the next character, blanks separate words, and
  any other character that a shell may interpret is refused.
\<close>

section \<open>Operations\<close>

abbreviation sq :: char where "sq \<equiv> CHR 0x27"
abbreviation bs :: char where "bs \<equiv> CHR 0x5C"

text \<open>\<^verbatim>\<open>strings.ReplaceAll\<close> of a single character.\<close>

definition ReplaceChar :: "string \<Rightarrow> char \<Rightarrow> string \<Rightarrow> string" where
  "ReplaceChar s c r = concat (map (\<lambda>d. if d = c then r else [d]) s)"

definition quote_arg :: "string \<Rightarrow> string" where
  "quote_arg a = [sq] @ ReplaceChar a sq [sq, bs, sq, sq] @ [sq]"

definition joinShell :: "string list \<Rightarrow> string" where
  "joinShell args = Join (map quote_arg args) '' ''"

definition taskIDFor :: "string \<Rightarrow> string" where
  "taskIDFor workspaceFolder =
     (let clean = TrimSpace workspaceFolder in
      if clean = [] then ''sandbox-mgr-default''
      else ''sandbox-mgr-'' @ fnv12 (TrimRightChar clean CHR ''/''))"

definition truncateLine :: "string \<Rightarrow> string" where
  "truncateLine s0 =
     (let s = TrimSpace s0 in
      if length s \<le> 512 then s else take 512 s @ [CHR 0xE2, CHR 0x80, CHR 0xA6])"

section \<open>Reading shell words\<close>

definition plain_char :: "char \<Rightarrow> bool" where
  "plain_char c \<longleftrightarrow> is_lower_alpha c \<or> is_upper_alpha c \<or> is_digit c \<or> c \<in> set ''-_./:=,@%+''"

abbreviation word_so_far :: "string option \<Rightarrow> string" where
  "word_so_far cur \<equiv> (case cur of None \<Rightarrow> [] | Some w \<Rightarrow> w)"

fun sh_out :: "string option \<Rightarrow> string \<Rightarrow> string list option" and sh_in :: "string \<Rightarrow> string \<Rightarrow> string list option" where
  "sh_out cur [] = Some (case cur of None \<Rightarrow> [] | Some w \<Rightarrow> [w])"
| "sh_out cur (c # cs) =
     (if c = CHR '' '' then
        (case cur of None \<Rightarrow> sh_out None cs | Some w \<Rightarrow> map_option ((#) w) (sh_out None cs))
      else if c = sq then sh_in (word_so_far cur) cs
      else if c = bs then (case cs of [] \<Rightarrow> None | d # ds \<Rightarrow> sh_out (Some (word_so_far cur @ [d])) ds)
      else if plain_char c then sh_out (Some (word_so_far cur @ [c])) cs
      else None)"
| "sh_in w [] = None"
| "sh_in w (c # cs) = (if c = sq then sh_out (Some w) cs else sh_in (w @ [c]) cs)"

definition shell_words :: "string \<Rightarrow> string list option" where
  "shell_words s = sh_out None s"

lemma sh_in_body:
  "sh_in w (ReplaceChar a sq [sq, bs, sq, sq] @ [sq] @ rest) = sh_out (Some (w @ a)) rest"
proof (induction a arbitrary: w)
  case Nil
  show ?case by (simp add: ReplaceChar_def)
next
  case (Cons c a)
  have "sh_in w (ReplaceChar (c # a) sq [sq, bs, sq, sq] @ [sq] @ rest) =
      sh_in (w @ [c]) (ReplaceChar a sq [sq, bs, sq, sq] @ [sq] @ rest)"
    by (cases "c = sq") (simp_all add: ReplaceChar_def)
  then show ?case using Cons by simp
qed

lemma sh_out_quote: "sh_out None (quote_arg a @ rest) = sh_out (Some a) rest"
  using sh_in_body [of "[]" a rest] by (simp add: quote_arg_def)

lemma shell_words_join: "sh_out None (joinShell args) = Some args"
proof (induction args)
  case Nil
  show ?case by (simp add: joinShell_def)
next
  case (Cons a args)
  show ?case
  proof (cases "args = []")
    case True
    then show ?thesis using sh_out_quote [of a "[]"] by (simp add: joinShell_def)
  next
    case False
    then have "joinShell (a # args) = quote_arg a @ '' '' @ joinShell args"
      by (simp add: joinShell_def Join_map_Cons)
    then show ?thesis using Cons sh_out_quote [of a "'' '' @ joinShell args"] by simp
  qed
qed

text \<open>
  C37. \<^verbatim>\<open>joinShell\<close> is a safe boundary: whatever text the arguments contain, quotes, blanks, and shell
  metacharacters included, a shell reads the joined line back as exactly these arguments.
\<close>

theorem joinShell_roundtrip: "shell_words (joinShell args) = Some args"
  by (simp add: shell_words_def shell_words_join)

section \<open>Task identifiers\<close>

lemma is_hex_hex_nat: "c \<in> set (hex_nat n) \<Longrightarrow> is_hex c"
proof (induction n rule: hex_nat.induct)
  case (1 n)
  then show ?case
    by (subst (asm) (2) hex_nat.simps) (auto intro: is_hex_digit split: if_splits)
qed

lemma fnv12_hex: "length (fnv12 s) = 12 \<and> list_all is_hex (fnv12 s)"
proof -
  have "is_hex CHR ''0''" by (simp add: is_hex_def is_digit_def byte_val_def)
  then show ?thesis
    by (auto simp: fnv12_def Let_def list_all_iff dest!: in_set_takeD intro: is_hex_hex_nat)
qed

definition task_char :: "char \<Rightarrow> bool" where
  "task_char c \<longleftrightarrow> is_lower_alpha c \<or> is_digit c \<or> c = CHR ''-''"

lemma hex_task_char: "is_hex c \<Longrightarrow> task_char c"
  by (auto simp: is_hex_def task_char_def is_lower_alpha_def)

text \<open>
  A task identifier is a valid sandbox identifier whatever the folder: lower-case letters, digits
  and hyphens only, at most 24 bytes; and a folder gets the same identifier with and without
  surrounding blanks.
\<close>

theorem taskIDFor_shape:
  "list_all task_char (taskIDFor s) \<and> length (taskIDFor s) \<le> 24 \<and>
   taskIDFor (TrimSpace s) = taskIDFor s"
proof -
  have "list_all task_char (fnv12 t)" "length (fnv12 t) = 12" for t
    using fnv12_hex [of t] hex_task_char by (auto simp: list_all_iff)
  then show ?thesis
    by (simp add: taskIDFor_def Let_def task_char_def byte_class_defs byte_val_def)
qed

end
