(* ===== verification/Chain_Pause.thy ===== *)
theory Chain_Pause
  imports Go_Values
begin

text \<open>
  Pausing a chain when one of its loops fails, \<^verbatim>\<open>chainpause/pauser.go\<close>, and reading an entity's triples
  back, the decoding half of \<^verbatim>\<open>chain/entity_reader.go\<close>. The failure event is the framework's; its fields
  are those the pauser reads. The wall clock is an argument. Text is valid UTF-8, as decoding JSON
  leaves it; the byte pairs from C2 80 to C2 9F are the control characters beyond ASCII.
\<close>

section \<open>The pauser\<close>

record LoopFailedEvent =
  ev_LoopID :: string
  ev_Role :: string
  ev_Model :: string
  ev_Error :: string
  ev_RunEntityID :: string

record PauseResult =
  ps_FailedLoopID :: string
  ps_Role :: string
  ps_Cause :: string
  ps_Classification :: string
  ps_ObservedAt :: gotime

definition zero_time :: gotime where
  "zero_time = \<lparr>gt_ns = 0, gt_off = 0\<rparr>"

definition no_pause :: PauseResult where
  "no_pause = \<lparr>ps_FailedLoopID = [], ps_Role = [], ps_Cause = [], ps_Classification = [], ps_ObservedAt = zero_time\<rparr>"

definition managedRoles :: "string list" where
  "managedRoles =
     [''researcher-research-plan'', ''researcher-research-gather'', ''researcher-research-synthesize'',
      ''reviewer-research'', ''autoresearch-baseline'', ''autoresearch-propose'',
      ''autoresearch-synthesize'', ''reviewer-autoresearch'', ''dispatch'']"

definition isManagedRole :: "string \<Rightarrow> bool" where
  "isManagedRole role \<longleftrightarrow> role \<in> set managedRoles"

definition classifyError :: "string \<Rightarrow> string \<times> string" where
  "classifyError errStr =
     (let lower = ToLower errStr in
      if Contains lower ''overloaded'' then (''api_overloaded'', ''anthropic_overloaded_529'')
      else if Contains lower ''timeout'' \<or> Contains lower ''deadline exceeded'' then
        (''api_timeout'', ''llm_call_timeout'')
      else if Contains lower ''persona'' \<and> Contains lower ''load'' then
        (''config_load_failure'', ''persona_load_error'')
      else if Contains lower ''config'' \<and> (Contains lower ''load'' \<or> Contains lower ''invalid'') then
        (''config_load_failure'', ''config_load_error'')
      else if Contains lower ''panic'' \<or> Contains lower ''executor panic'' then
        (''tool_executor_panic'', ''tool_executor_panic'')
      else if Contains lower ''max iter'' \<or> Contains lower ''maximum iterations'' then
        (''max_iterations'', ''max_iterations_exhausted'')
      else (''unknown'', ''unknown''))"

text \<open>\<^verbatim>\<open>strings.Map\<close> with \<^verbatim>\<open>unicode.IsControl\<close> characters dropped.\<close>

fun drop_control :: "string \<Rightarrow> string" where
  "drop_control [] = []"
| "drop_control [c] = (if byte_val c < 32 \<or> byte_val c = 127 then [] else [c])"
| "drop_control (c # d # cs) =
     (if byte_val c < 32 \<or> byte_val c = 127 then drop_control (d # cs)
      else if byte_val c = 194 \<and> 128 \<le> byte_val d \<and> byte_val d \<le> 159 then drop_control cs
      else c # drop_control (d # cs))"

definition ellipsis :: string where
  "ellipsis = [CHR 0xE2, CHR 0x80, CHR 0xA6]"

definition sanitiseErrorShape :: "string \<Rightarrow> string" where
  "sanitiseErrorShape errStr =
     (let clean = drop_control errStr in
      if length clean > 256 then take 256 clean @ ellipsis else clean)"

definition chain_triple :: "string \<Rightarrow> gotime \<Rightarrow> string \<Rightarrow> string \<Rightarrow> triple" where
  "chain_triple entityID now predicate obj =
     \<lparr>Subject = entityID, Predicate = predicate, Object = AnyStr obj, Source = ''chainpause'',
      Timestamp = now, Confidence = 1\<rparr>"

definition pause_triples :: "gotime \<Rightarrow> LoopFailedEvent \<Rightarrow> triple list" where
  "pause_triples now ev =
     map (\<lambda>(p, obj). chain_triple (ev_RunEntityID ev) now p obj)
       [(''chain.paused.cause'', fst (classifyError (ev_Error ev))),
        (''chain.paused.classification'', snd (classifyError (ev_Error ev))),
        (''chain.paused.role'', ev_Role ev),
        (''chain.paused.original-model'', ev_Model ev),
        (''chain.paused.error-shape'', sanitiseErrorShape (ev_Error ev)),
        (''chain.paused.prior-attempts'', ''1''),
        (''chain.paused.failed-loop-id'', ev_LoopID ev),
        (''chain.paused.spawn-loop-id'', []),
        (''chain.paused.observed-at'', format_RFC3339 now)]"

definition HandleFailed :: "'w publisher \<Rightarrow> gotime \<Rightarrow> 'w \<Rightarrow> LoopFailedEvent \<Rightarrow> (PauseResult \<times> string option) \<times> 'w" where
  "HandleFailed pub clock w ev =
     (if \<not> isManagedRole (ev_Role ev) then ((no_pause, None), w)
      else if ev_RunEntityID ev = [] then ((no_pause, None), w)
      else (let now = time_UTC clock;
                res = \<lparr>ps_FailedLoopID = ev_LoopID ev, ps_Role = ev_Role ev,
                       ps_Cause = fst (classifyError (ev_Error ev)),
                       ps_Classification = snd (classifyError (ev_Error ev)), ps_ObservedAt = now\<rparr>
            in (case append_each pub w (pause_triples now ev) of (err, w') \<Rightarrow> ((res, err), w'))))"

section \<open>Reading triples back\<close>

text \<open>
  The triples of the exact-read envelope after \<^verbatim>\<open>json.Unmarshal\<close>: predicate and object, in order.
\<close>

type_synonym reply = "(string \<times> any) list"

fun decode_all_loop :: "(string \<times> any list) list \<Rightarrow> reply \<Rightarrow> (string \<times> any list) list" where
  "decode_all_loop out [] = out"
| "decode_all_loop out ((p, obj) # ts) =
     decode_all_loop (gm_put p ((case gm_get out p of Some xs \<Rightarrow> xs | None \<Rightarrow> []) @ [obj]) out) ts"

definition DecodeExactEntityAllTriples :: "reply \<Rightarrow> (string \<times> any list) list" where
  "DecodeExactEntityAllTriples ts = decode_all_loop [] ts"

definition DecodeExactEntityTriples :: "reply \<Rightarrow> (string \<times> any) list" where
  "DecodeExactEntityTriples ts =
     fold (\<lambda>(p, objs) out. if objs \<noteq> [] then gm_put p (last objs) out else out)
       (DecodeExactEntityAllTriples ts) []"

section \<open>Classification\<close>

definition causes :: "string set" where
  "causes = {''api_overloaded'', ''api_timeout'', ''config_load_failure'', ''tool_executor_panic'',
     ''max_iterations'', ''unknown''}"

text \<open>
  The classification of an error text is total, ignores case, and always yields one of the six
  documented cause tokens; text that mentions none of the known failures is unknown.
\<close>

theorem classifyError_closed:
  "fst (classifyError s) \<in> causes \<and> classifyError (ToUpper s) = classifyError s \<and>
   (fst (classifyError s) = ''unknown'' \<longleftrightarrow>
      \<not> (\<exists>k \<in> set [''overloaded'', ''timeout'', ''deadline exceeded'', ''panic'', ''max iter'', ''maximum iterations''].
           sublist k (ToLower s)) \<and>
      \<not> (sublist ''persona'' (ToLower s) \<and> sublist ''load'' (ToLower s)) \<and>
      \<not> (sublist ''config'' (ToLower s) \<and> (sublist ''load'' (ToLower s) \<or> sublist ''invalid'' (ToLower s))))"
proof -
  have "lower_byte (upper_byte c) = lower_byte c" for c
  proof -
    have "byte_val c - 32 < 256" using byte_val_less [of c] by linarith
    then show ?thesis
      by (auto simp: lower_byte_def upper_byte_def byte_class_defs byte_val_inject [symmetric])
  qed
  then have "ToLower (ToUpper s) = ToLower s" by (simp add: ToLower_def ToUpper_def)
  moreover have "sublist ''executor panic'' t \<Longrightarrow> sublist ''panic'' t" for t
    by (rule sublist_order.order_trans) (simp_all add: sublist_code)
  ultimately show ?thesis
    by (auto simp: classifyError_def causes_def Contains_iff Let_def)
qed

section \<open>Sanitised text\<close>

definition control_free :: "string \<Rightarrow> bool" where
  "control_free s \<longleftrightarrow> list_all (\<lambda>c. 32 \<le> byte_val c \<and> byte_val c \<noteq> 127) s"

lemma drop_control_free: "control_free (drop_control s)"
  by (induction s rule: drop_control.induct) (auto simp: control_free_def)

lemma drop_control_id: "list_all (\<lambda>c. 32 \<le> byte_val c \<and> byte_val c < 127) s \<Longrightarrow> drop_control s = s"
  by (induction s rule: drop_control.induct) auto

text \<open>
  C38. The error text stored in the graph holds no ASCII control character and at most 259 bytes (256
  and the ellipsis), whatever the failure said; printable ASCII text of up to 256 bytes is kept as
  it is.
\<close>

theorem sanitiseErrorShape_safe:
  "control_free (sanitiseErrorShape s) \<and> length (sanitiseErrorShape s) \<le> 259 \<and>
   (length s \<le> 256 \<and> list_all (\<lambda>c. 32 \<le> byte_val c \<and> byte_val c < 127) s \<longrightarrow> sanitiseErrorShape s = s)"
proof -
  have "control_free (take 256 (drop_control s) @ ellipsis)"
    using drop_control_free [of s] set_take_subset [of 256 "drop_control s"]
    by (auto simp: control_free_def list_all_iff ellipsis_def byte_val_def)
  then show ?thesis
    using drop_control_free [of s] drop_control_id [of s]
    by (auto simp: sanitiseErrorShape_def Let_def ellipsis_def)
qed

theorem sanitiseErrorShape_safe_witness: "sanitiseErrorShape ''context deadline exceeded'' = ''context deadline exceeded''"
  using sanitiseErrorShape_safe [of "''context deadline exceeded''"] by (simp add: byte_val_def)

section \<open>What a failure records\<close>

text \<open>
  A failure of a loop in a managed role that belongs to a run is recorded on the run's entity: the
  nine triples have nine different predicates and all have the run entity as subject. Every one of
  them is attempted; the graph gains a subsequence of them, and all of them when no error is
  returned. A failure of an unmanaged role, or outside any run, writes nothing.
\<close>

theorem HandleFailed_records:
  assumes "faithful_publisher pub stored"
  shows "(isManagedRole (ev_Role ev) \<and> ev_RunEntityID ev \<noteq> [] \<longrightarrow>
      (\<exists>us. subseq us (pause_triples (time_UTC clock) ev) \<and>
         stored (snd (HandleFailed pub clock w ev)) = stored w @ us \<and>
         (snd (fst (HandleFailed pub clock w ev)) = None \<longleftrightarrow> us = pause_triples (time_UTC clock) ev)) \<and>
      length (pause_triples (time_UTC clock) ev) = 9 \<and>
      distinct (map Predicate (pause_triples (time_UTC clock) ev)) \<and>
      (\<forall>t \<in> set (pause_triples (time_UTC clock) ev). Subject t = ev_RunEntityID ev) \<and>
      ps_FailedLoopID (fst (fst (HandleFailed pub clock w ev))) = ev_LoopID ev) \<and>
    (\<not> isManagedRole (ev_Role ev) \<or> ev_RunEntityID ev = [] \<longrightarrow>
       HandleFailed pub clock w ev = ((no_pause, None), w))"
proof -
  have shape: "length (pause_triples n ev) = 9" "distinct (map Predicate (pause_triples n ev))"
    "\<forall>t \<in> set (pause_triples n ev). Subject t = ev_RunEntityID ev" for n
    by (simp_all add: pause_triples_def chain_triple_def)
  show ?thesis
    using append_each_stored [OF assms, of "pause_triples (time_UTC clock) ev" w] shape
    by (auto simp: HandleFailed_def Let_def split: prod.splits)
qed

definition sample_failure :: LoopFailedEvent where
  "sample_failure = \<lparr>ev_LoopID = ''loop-1'', ev_Role = ''dispatch'', ev_Model = ''claude'',
     ev_Error = ''Overloaded'', ev_RunEntityID = ''acme.p.chain.agent.execution.r1''\<rparr>"

theorem HandleFailed_records_witness:
  "\<exists>us. subseq us (pause_triples (time_UTC zero_time) sample_failure) \<and>
     snd (HandleFailed recording_publisher zero_time [] sample_failure) = us"
proof -
  have "isManagedRole (ev_Role sample_failure)" "ev_RunEntityID sample_failure \<noteq> []"
    by (simp_all add: sample_failure_def isManagedRole_def managedRoles_def)
  then show ?thesis
    using HandleFailed_records [OF recording_publisher_faithful, where ev = sample_failure and clock = zero_time and w = "[]"]
    by auto
qed

section \<open>Reading back\<close>

definition objects_of :: "string \<Rightarrow> reply \<Rightarrow> any list" where
  "objects_of p ts = map snd (filter (\<lambda>t. fst t = p) ts)"

lemma decode_all_loop_get:
  "gm_get (decode_all_loop out ts) p =
     (if objects_of p ts = [] then gm_get out p
      else Some ((case gm_get out p of Some xs \<Rightarrow> xs | None \<Rightarrow> []) @ objects_of p ts))"
  by (induction out ts rule: decode_all_loop.induct) (auto simp: objects_of_def gm_get_put split: option.splits)

lemma decode_all_loop_distinct: "distinct (gm_keys out) \<Longrightarrow> distinct (gm_keys (decode_all_loop out ts))"
  by (induction out ts rule: decode_all_loop.induct) (auto simp: distinct_gm_put)

lemma fold_last_get:
  assumes "distinct (gm_keys m)"
  shows "gm_get (fold (\<lambda>(p, objs) out. if objs \<noteq> [] then gm_put p (last objs) out else out) m out) p =
     (case gm_get m p of Some objs \<Rightarrow> if objs \<noteq> [] then Some (last objs) else gm_get out p | None \<Rightarrow> gm_get out p)"
  using assms
proof (induction m arbitrary: out)
  case (Cons kv m)
  obtain k v where kv: "kv = (k, v)" by fastforce
  with Cons.prems have "gm_get m k = None" by (simp add: map_of_eq_None_iff)
  with Cons kv show ?case by (auto simp: gm_get_put split: option.splits)
qed simp

lemma decode_get:
  "gm_get (DecodeExactEntityAllTriples ts) p = (if objects_of p ts = [] then None else Some (objects_of p ts)) \<and>
   gm_get (DecodeExactEntityTriples ts) p = (if objects_of p ts = [] then None else Some (last (objects_of p ts)))"
proof -
  have "distinct (gm_keys (DecodeExactEntityAllTriples ts))"
    unfolding DecodeExactEntityAllTriples_def by (rule decode_all_loop_distinct) simp
  note last = fold_last_get [OF this, of "[]" p]
  have all: "gm_get (DecodeExactEntityAllTriples ts) p = (if objects_of p ts = [] then None else Some (objects_of p ts))"
    by (simp add: DecodeExactEntityAllTriples_def decode_all_loop_get)
  with last show ?thesis by (simp add: DecodeExactEntityTriples_def)
qed

lemma distinct_decoded: "distinct (gm_keys (DecodeExactEntityTriples ts))"
proof -
  have "distinct (gm_keys out) \<Longrightarrow> distinct (gm_keys (fold (\<lambda>(p, objs) out. if objs \<noteq> [] then gm_put p (last objs) out else out) m out))"
    for m :: "(string \<times> any list) list" and out
    by (induction m arbitrary: out) (auto simp: distinct_gm_put)
  then show ?thesis by (simp add: DecodeExactEntityTriples_def)
qed

text \<open>
  \<^verbatim>\<open>DecodeExactEntityAllTriples\<close> keeps, for each predicate, every object in the order of the reply,
  and \<^verbatim>\<open>DecodeExactEntityTriples\<close> the last one; a predicate that does not occur is absent from both.
\<close>

theorem entity_decode:
  "gm_get (DecodeExactEntityAllTriples ts) p = (if objects_of p ts = [] then None else Some (objects_of p ts)) \<and>
   gm_get (DecodeExactEntityTriples ts) p = (if objects_of p ts = [] then None else Some (last (objects_of p ts)))"
  by (rule decode_get)

end
