(* ===== verification/Chain_Decision.thy ===== *)
theory Chain_Decision
  imports Chain_Pause
begin

text \<open>
  The operator's decision on a paused chain, \<^verbatim>\<open>chainpause/decision_handler.go\<close>, and its HTTP surface,
  \<^verbatim>\<open>http.go\<close> and \<^verbatim>\<open>middleware.go\<close>. The publisher, the task queue and the graph act on a threaded world. The
  framework's entity-id constructor and the key of the run anchor are fields of the handler. The
  graph service's reply arrives decoded; the logger is left out.
\<close>

section \<open>Data\<close>

record TaskMessage =
  tm_TaskID :: string
  tm_Role :: string
  tm_Model :: string
  tm_Prompt :: string
  tm_Metadata :: "(string \<times> any) list"

record DecisionRequest =
  dr_FailedLoopID :: string
  dr_Verb :: string
  dr_Reason :: string
  dr_UserID :: string

abbreviation VerbRetry :: string where "VerbRetry \<equiv> ''retry''"
abbreviation VerbKill :: string where "VerbKill \<equiv> ''kill''"
abbreviation VerbDefer :: string where "VerbDefer \<equiv> ''defer''"

datatype decision_error =
    ErrInvalidVerb string
  | ErrReservedVerb string
  | InvalidFailedLoopID string string
  | ReadLoopFailed string string
  | NoRunAnchor string string
  | PublishRetryFailed string
  | PublisherFailed string

fun decision_error_msg :: "decision_error \<Rightarrow> string" where
  "decision_error_msg (ErrReservedVerb v) =
     ''verb '' @ quote_str v @ '': decision verb reserved for future version (reserved for v2): valid verbs are retry, kill, defer''"
| "decision_error_msg (ErrInvalidVerb v) =
     ''verb '' @ quote_str v @ '': decision verb not in v1 closed set: valid verbs are retry, kill, defer''"
| "decision_error_msg (InvalidFailedLoopID i e) =
     ''chainpause.DecisionHandler: invalid failed_loop_id '' @ quote_str i @ '': '' @ e"
| "decision_error_msg (ReadLoopFailed i e) =
     ''chainpause.DecisionHandler: read failed loop entity '' @ quote_str i @ '': '' @ e"
| "decision_error_msg (NoRunAnchor i k) =
     ''chainpause.DecisionHandler: failed loop '' @ quote_str i @ '' has no run anchor ('' @ k @ ''); not part of a run''"
| "decision_error_msg (PublishRetryFailed e) = ''publish retry task: '' @ e"
| "decision_error_msg (PublisherFailed e) = e"

record 'w DecisionHandler =
  dh_publisher :: "'w publisher"
  dh_tasks :: "'w \<Rightarrow> string \<Rightarrow> TaskMessage \<Rightarrow> string option \<times> 'w"
  dh_pauseData :: "'w \<Rightarrow> string \<Rightarrow> (string \<times> string) \<times> string option"
  dh_entities :: "'w \<Rightarrow> string \<Rightarrow> string + (string \<times> any) list"
  dh_org :: string
  dh_platform :: string
  dh_loopEntityID :: "string \<Rightarrow> string \<Rightarrow> string \<Rightarrow> string + string"
  dh_runKey :: string

section \<open>Actions\<close>

definition sanitiseReason :: "string \<Rightarrow> string" where
  "sanitiseReason s =
     (let clean = sanitiseErrorShape s in
      if length clean > 1024 then take 1024 clean @ ellipsis else clean)"

definition unix_epoch_ns :: int where
  "unix_epoch_ns = 62135596800 * second_ns"

definition time_UnixNano :: "gotime \<Rightarrow> int" where
  "time_UnixNano t = gt_ns t - unix_epoch_ns"

definition retry_task :: "string \<Rightarrow> string \<Rightarrow> string \<Rightarrow> gotime \<Rightarrow> TaskMessage" where
  "retry_task failedLoopID role model now =
     (let suffix = (if length failedLoopID > 8 then take 8 failedLoopID else failedLoopID) in
      \<lparr>tm_TaskID = ''chain-retry-'' @ suffix @ ''-'' @ Itoa (time_UnixNano now),
       tm_Role = role, tm_Model = model,
       tm_Prompt = ''Chain retry initiated by operator. Prior failed loop: '' @ failedLoopID @
         ''. Read context via read_loop_result('' @ failedLoopID @ '') and proceed per your role'' @ [CHR 0x27] @ ''s persona.'',
       tm_Metadata = [(''chain_retry'', AnyBool True), (''prior_loop_id'', AnyStr failedLoopID),
                      (''decision_verb'', AnyStr ''retry'')]\<rparr>)"

definition publish_err :: "string option \<times> 'w \<Rightarrow> decision_error option \<times> 'w" where
  "publish_err r = (map_option PublisherFailed (fst r), snd r)"

definition retry :: "'w DecisionHandler \<Rightarrow> 'w \<Rightarrow> string \<Rightarrow> string \<Rightarrow> gotime \<Rightarrow> decision_error option \<times> 'w" where
  "retry h w entityID failedLoopID now =
     (let rm = fst (dh_pauseData h w entityID);
          role = (if fst rm = [] then ''dispatch'' else fst rm);
          model = (if snd rm = [] then ''claude-haiku'' else snd rm);
          task = retry_task failedLoopID role model now
      in (case dh_tasks h w (''agent.task.'' @ role) task of
            (Some e, w1) \<Rightarrow> (Some (PublishRetryFailed e), w1)
          | (None, w1) \<Rightarrow> publish_err
              (dh_publisher h w1 [chain_triple entityID now ''chain.decision.resumed-task-id'' (tm_TaskID task)])))"

definition kill :: "'w DecisionHandler \<Rightarrow> 'w \<Rightarrow> string \<Rightarrow> gotime \<Rightarrow> decision_error option \<times> 'w" where
  "kill h w entityID now = publish_err
     (dh_publisher h w [chain_triple entityID now ''chain.decision.killed-at'' (format_RFC3339 now)])"

definition deferChain :: "'w DecisionHandler \<Rightarrow> 'w \<Rightarrow> string \<Rightarrow> gotime \<Rightarrow> decision_error option \<times> 'w" where
  "deferChain h w entityID now = publish_err
     (dh_publisher h w [chain_triple entityID now ''chain.decision.deferred-at'' (format_RFC3339 now)])"

definition decision_triples :: "string \<Rightarrow> string \<Rightarrow> string \<Rightarrow> string \<Rightarrow> gotime \<Rightarrow> triple list" where
  "decision_triples entityID verb actor reason now =
     map (\<lambda>(p, obj). chain_triple entityID now p obj)
       [(''chain.decision.verb'', verb), (''chain.decision.authority'', ''operator''),
        (''chain.decision.actor'', actor), (''chain.decision.reason'', reason),
        (''chain.decision.decided-at'', format_RFC3339 now)]"

definition writeDecisionTriples :: "'w DecisionHandler \<Rightarrow> 'w \<Rightarrow> string \<Rightarrow> string \<Rightarrow> string \<Rightarrow> string \<Rightarrow> gotime \<Rightarrow> string option \<times> 'w" where
  "writeDecisionTriples h w entityID verb actor reason now =
     append_each (dh_publisher h) w (decision_triples entityID verb actor reason now)"

definition HandleDecision :: "'w DecisionHandler \<Rightarrow> gotime \<Rightarrow> 'w \<Rightarrow> DecisionRequest \<Rightarrow> string \<Rightarrow> decision_error option \<times> 'w" where
  "HandleDecision h clock w req actor =
     (if dr_Verb req \<notin> {VerbRetry, VerbKill, VerbDefer} then
        (if dr_Verb req = ''apply_fix_and_retry'' then (Some (ErrReservedVerb (dr_Verb req)), w)
         else (Some (ErrInvalidVerb (dr_Verb req)), w))
      else
     (let reason = sanitiseReason (dr_Reason req) in
      case dh_loopEntityID h (dh_org h) (dh_platform h) (dr_FailedLoopID req) of
        Inl e \<Rightarrow> (Some (InvalidFailedLoopID (dr_FailedLoopID req) e), w)
      | Inr loopEntityID \<Rightarrow>
     (case dh_entities h w loopEntityID of
        Inl e \<Rightarrow> (Some (ReadLoopFailed (dr_FailedLoopID req) e), w)
      | Inr triples \<Rightarrow>
     (let entityID = str_or_empty (gm_get triples (dh_runKey h)) in
      if entityID = [] then (Some (NoRunAnchor (dr_FailedLoopID req) (dh_runKey h)), w)
      else
     (let now = time_UTC clock;
          w1 = snd (writeDecisionTriples h w entityID (dr_Verb req) actor reason now)
      in if dr_Verb req = VerbRetry then retry h w1 entityID (dr_FailedLoopID req) now
         else if dr_Verb req = VerbKill then kill h w1 entityID now
         else deferChain h w1 entityID now)))))"

section \<open>Reading the pause back\<close>

text \<open>What the graph answers a classified request with.\<close>

datatype graph_reply = ReplyTriples reply | ReplyInvalid | ReplyError string | ReplyGarbled string

fun pause_data_loop :: "string \<times> string \<Rightarrow> reply \<Rightarrow> string \<times> string" where
  "pause_data_loop rm [] = rm"
| "pause_data_loop rm ((p, obj) # ts) =
     (if p = ''chain.paused.role'' then
        (case obj of AnyStr s \<Rightarrow> pause_data_loop (s, snd rm) ts | _ \<Rightarrow> pause_data_loop rm ts)
      else if p = ''chain.paused.original-model'' then
        (case obj of AnyStr s \<Rightarrow> pause_data_loop (fst rm, s) ts | _ \<Rightarrow> pause_data_loop rm ts)
      else pause_data_loop rm ts)"

definition ReadPauseData :: "('w \<Rightarrow> string \<Rightarrow> graph_reply) \<Rightarrow> 'w \<Rightarrow> string \<Rightarrow> (string \<times> string) \<times> string option" where
  "ReadPauseData request w entityID =
     (case request w entityID of
        ReplyInvalid \<Rightarrow> (([], []), None)
      | ReplyError e \<Rightarrow> (([], []), Some (''graph entity query: '' @ e))
      | ReplyGarbled e \<Rightarrow> (([], []), Some (''decode entity response: '' @ e))
      | ReplyTriples ts \<Rightarrow> (pause_data_loop ([], []) ts, None))"

definition ReadEntity :: "('w \<Rightarrow> string \<Rightarrow> graph_reply) \<Rightarrow> 'w \<Rightarrow> string \<Rightarrow> string + (string \<times> any) list" where
  "ReadEntity request w entityID =
     (case request w entityID of
        ReplyInvalid \<Rightarrow> Inr []
      | ReplyError e \<Rightarrow> Inl (''graph entity query for '' @ quote_str entityID @ '': '' @ e)
      | ReplyGarbled e \<Rightarrow> Inl (''decode entity response for '' @ quote_str entityID @ '': '' @ e)
      | ReplyTriples ts \<Rightarrow> Inr (DecodeExactEntityTriples ts))"

definition ReadEntityAll :: "('w \<Rightarrow> string \<Rightarrow> graph_reply) \<Rightarrow> 'w \<Rightarrow> string \<Rightarrow> string + (string \<times> any list) list" where
  "ReadEntityAll request w entityID =
     (case request w entityID of
        ReplyInvalid \<Rightarrow> Inr []
      | ReplyError e \<Rightarrow> Inl (''graph entity query for '' @ quote_str entityID @ '': '' @ e)
      | ReplyGarbled e \<Rightarrow> Inl (''decode entity response for '' @ quote_str entityID @ '': '' @ e)
      | ReplyTriples ts \<Rightarrow> Inr (DecodeExactEntityAllTriples ts))"

section \<open>HTTP\<close>

datatype http_body = Malformed string | Body DecisionRequest

text \<open>The status and the body text, \<open>Inl\<close> an error message, \<open>Inr\<close> the accepted decision.\<close>

type_synonym http_response = "nat \<times> (string + (string \<times> string \<times> string))"

definition isVerbError :: "decision_error \<Rightarrow> bool" where
  "isVerbError e = (case e of ErrInvalidVerb _ \<Rightarrow> True | ErrReservedVerb _ \<Rightarrow> True | _ \<Rightarrow> False)"

definition handleDecide :: "'w DecisionHandler \<Rightarrow> gotime \<Rightarrow> (string \<Rightarrow> string) \<Rightarrow> 'w \<Rightarrow> http_body \<Rightarrow> http_response \<times> 'w" where
  "handleDecide h clock identity w body =
     (case body of
        Malformed e \<Rightarrow> ((400, Inl (''invalid request body: '' @ e)), w)
      | Body req \<Rightarrow>
          if dr_FailedLoopID req = [] then ((400, Inl ''failed_loop_id is required''), w)
          else if dr_Verb req = [] then ((400, Inl ''verb is required (retry | kill | defer)''), w)
          else (case HandleDecision h clock w req (identity (dr_UserID req)) of
                  (Some e, w') \<Rightarrow> ((if isVerbError e then 400 else 500, Inl (decision_error_msg e)), w')
                | (None, w') \<Rightarrow> ((200, Inr (dr_FailedLoopID req, dr_Verb req, format_RFC3339 (time_UTC clock))), w')))"

text \<open>The middleware, around a next handler; \<open>None\<close> is a nil handler.\<close>

definition HTTPMiddleware :: "('r \<Rightarrow> 'a) option \<Rightarrow> ('r \<Rightarrow> 'a) \<Rightarrow> string \<Rightarrow> string \<Rightarrow> 'r \<Rightarrow> 'a" where
  "HTTPMiddleware handler next_handler http_method url_path r =
     (case handler of
        None \<Rightarrow> next_handler r
      | Some f \<Rightarrow> if http_method \<noteq> ''POST'' \<or> \<not> HasSuffix url_path ''/chain-pause/decide''
                  then next_handler r else f r)"

section \<open>The cap on reasons\<close>

text \<open>
  \<^verbatim>\<open>sanitiseReason\<close> never uses its own limit of 1024 bytes: the shape it starts from is already cut
  at 256 bytes, so a reason is stored exactly as an error text is.
\<close>

theorem sanitiseReason_cap: "sanitiseReason s = sanitiseErrorShape s \<and> length (sanitiseReason s) \<le> 259"
proof -
  have "length (sanitiseErrorShape s) \<le> 259"
    by (auto simp: sanitiseErrorShape_def Let_def ellipsis_def)
  then show ?thesis by (simp add: sanitiseReason_def Let_def)
qed

section \<open>Rejected decisions change nothing\<close>

definition known_verb :: "string \<Rightarrow> bool" where
  "known_verb v \<longleftrightarrow> v = VerbRetry \<or> v = VerbKill \<or> v = VerbDefer"

text \<open>The run entity a decision is about, when the loop resolves to one.\<close>

definition decision_target :: "'w DecisionHandler \<Rightarrow> 'w \<Rightarrow> string \<Rightarrow> string option" where
  "decision_target h w failedLoopID =
     (case dh_loopEntityID h (dh_org h) (dh_platform h) failedLoopID of
        Inl _ \<Rightarrow> None
      | Inr l \<Rightarrow> (case dh_entities h w l of
                    Inl _ \<Rightarrow> None
                  | Inr ts \<Rightarrow> (let e = str_or_empty (gm_get ts (dh_runKey h)) in if e = [] then None else Some e)))"

definition dispatch :: "'w DecisionHandler \<Rightarrow> 'w \<Rightarrow> string \<Rightarrow> string \<Rightarrow> string \<Rightarrow> gotime \<Rightarrow> decision_error option \<times> 'w" where
  "dispatch h w verb entityID failedLoopID now =
     (if verb = VerbRetry then retry h w entityID failedLoopID now
      else if verb = VerbKill then kill h w entityID now
      else deferChain h w entityID now)"

lemma HandleDecision_accepts:
  assumes "known_verb (dr_Verb req)" "decision_target h w (dr_FailedLoopID req) = Some e"
  shows "HandleDecision h clock w req actor =
     dispatch h (snd (writeDecisionTriples h w e (dr_Verb req) actor (sanitiseReason (dr_Reason req)) (time_UTC clock)))
       (dr_Verb req) e (dr_FailedLoopID req) (time_UTC clock)"
  using assms
  by (auto simp: HandleDecision_def decision_target_def known_verb_def dispatch_def Let_def split: sum.splits if_splits)

lemma HandleDecision_rejects:
  assumes "\<not> known_verb (dr_Verb req) \<or> decision_target h w (dr_FailedLoopID req) = None"
  shows "\<exists>err. HandleDecision h clock w req actor = (Some err, w) \<and>
     (isVerbError err \<longleftrightarrow> \<not> known_verb (dr_Verb req))"
  using assms
  by (auto simp: HandleDecision_def decision_target_def known_verb_def isVerbError_def Let_def
      split: sum.splits if_splits)

lemma dispatch_not_verb_error: "fst (dispatch h w v e l now) = Some err \<Longrightarrow> \<not> isVerbError err"
  by (auto simp: dispatch_def retry_def kill_def deferChain_def publish_err_def isVerbError_def Let_def
      split: if_splits prod.splits option.splits)

text \<open>
  The status of the HTTP endpoint: 400 exactly for a body that does not decode, a missing loop or
  verb, or an unknown verb, and then nothing has changed; 200 exactly when the decision went
  through; every other failure is 500, among them a malformed loop identifier, for which the
  handler's own comment promises 400.
\<close>

theorem handleDecide_status:
  "let r = handleDecide h clock identity w body; status = fst (fst r) in
     (status = 400 \<longleftrightarrow> (case body of Malformed _ \<Rightarrow> True | Body req \<Rightarrow>
        dr_FailedLoopID req = [] \<or> \<not> known_verb (dr_Verb req))) \<and>
     (status = 400 \<longrightarrow> snd r = w) \<and>
     (status = 200 \<longleftrightarrow> (\<exists>x. snd (fst r) = Inr x)) \<and> status \<in> {200, 400, 500} \<and>
     (\<forall>req e. body = Body req \<and> known_verb (dr_Verb req) \<and> dr_FailedLoopID req \<noteq> [] \<and>
        dh_loopEntityID h (dh_org h) (dh_platform h) (dr_FailedLoopID req) = Inl e \<longrightarrow> status = 500)"
proof (cases body)
  case (Malformed e)
  then show ?thesis by (simp add: handleDecide_def)
next
  case (Body req)
  show ?thesis
  proof (cases "dr_FailedLoopID req = [] \<or> dr_Verb req = []")
    case True
    with Body show ?thesis by (auto simp: handleDecide_def known_verb_def)
  next
    case False
    let ?d = "HandleDecision h clock w req (identity (dr_UserID req))"
    show ?thesis
    proof (cases "known_verb (dr_Verb req) \<and> decision_target h w (dr_FailedLoopID req) \<noteq> None")
      case True
      then obtain e where e: "decision_target h w (dr_FailedLoopID req) = Some e" by auto
      then have "\<exists>l. dh_loopEntityID h (dh_org h) (dh_platform h) (dr_FailedLoopID req) = Inr l"
        by (auto simp: decision_target_def split: sum.splits)
      moreover have "fst ?d = Some err \<Longrightarrow> \<not> isVerbError err" for err
        using HandleDecision_accepts [OF _ e] True dispatch_not_verb_error by metis
      ultimately show ?thesis
        using Body False True by (auto simp: handleDecide_def split: prod.splits option.splits)
    next
      case rejected: False
      then obtain err where "?d = (Some err, w)" "isVerbError err \<longleftrightarrow> \<not> known_verb (dr_Verb req)"
        using HandleDecision_rejects [of req h w clock "identity (dr_UserID req)"] by auto
      with Body False show ?thesis by (auto simp: handleDecide_def)
    qed
  qed
qed

section \<open>The calls of a decision\<close>

text \<open>
  The two ports a decision acts through, observed as the calls made on them: what was appended to
  the graph and what was sent to the task queue, in order, each with whether the port accepted it.
\<close>

datatype port_call = AppendCall "triple list" bool | TaskCall string TaskMessage bool

locale decision_ports =
  fixes h :: "'w DecisionHandler" and trace :: "'w \<Rightarrow> port_call list"
  assumes publisher_trace: "trace (snd (dh_publisher h w ts)) = trace w @ [AppendCall ts (fst (dh_publisher h w ts) = None)]"
    and tasks_trace: "trace (snd (dh_tasks h w subj t)) = trace w @ [TaskCall subj t (fst (dh_tasks h w subj t) = None)]"
begin

lemma append_each_trace:
  "\<exists>oks. length oks = length ts \<and>
     trace (snd (append_each (dh_publisher h) w ts)) = trace w @ map2 (\<lambda>t ok. AppendCall [t] ok) ts oks"
proof (induction ts arbitrary: w)
  case (Cons t ts)
  obtain e1 w1 where pub: "dh_publisher h w [t] = (e1, w1)" by fastforce
  obtain oks where "length oks = length ts"
    "trace (snd (append_each (dh_publisher h) w1 ts)) = trace w1 @ map2 (\<lambda>t ok. AppendCall [t] ok) ts oks"
    using Cons.IH by blast
  then show ?case
    using publisher_trace [of w "[t]"] pub
    by (intro exI [of _ "(e1 = None) # oks"]) (simp split: prod.splits, metis snd_conv)
qed simp

lemma publish_err_trace:
  "publish_err (dh_publisher h w ts) = (out, w') \<Longrightarrow>
     trace w' = trace w @ [AppendCall ts (out = None)] \<and> (out = None \<or> (\<exists>m. out = Some (PublisherFailed m)))"
  using publisher_trace [of w ts] by (cases "fst (dh_publisher h w ts)") (auto simp: publish_err_def)

end

text \<open>The calls an accepted decision makes for its verb, after the audit trail.\<close>

definition retry_calls :: "string \<Rightarrow> string \<Rightarrow> gotime \<Rightarrow> string \<times> string \<Rightarrow> decision_error option \<Rightarrow> port_call list \<Rightarrow> bool" where
  "retry_calls e failedLoopID now rm out calls \<longleftrightarrow>
     (\<exists>task subj. subj = ''agent.task.'' @ tm_Role task \<and>
        tm_Role task = (if fst rm = [] then ''dispatch'' else fst rm) \<and>
        tm_Model task = (if snd rm = [] then ''claude-haiku'' else snd rm) \<and>
        tm_TaskID task = ''chain-retry-'' @ take 8 failedLoopID @ ''-'' @ Itoa (time_UnixNano now) \<and>
        gm_get (tm_Metadata task) ''prior_loop_id'' = Some (AnyStr failedLoopID) \<and>
        (if \<exists>m. out = Some (PublishRetryFailed m) then calls = [TaskCall subj task False]
         else calls = [TaskCall subj task True,
                AppendCall [chain_triple e now ''chain.decision.resumed-task-id'' (tm_TaskID task)] (out = None)]))"

definition verb_calls :: "string \<Rightarrow> string \<Rightarrow> string \<Rightarrow> gotime \<Rightarrow> string \<times> string \<Rightarrow> decision_error option \<Rightarrow> port_call list \<Rightarrow> bool" where
  "verb_calls verb e failedLoopID now rm out calls \<longleftrightarrow>
     (if verb = VerbRetry then retry_calls e failedLoopID now rm out calls
      else calls = [AppendCall [chain_triple e now
          (if verb = VerbKill then ''chain.decision.killed-at'' else ''chain.decision.deferred-at'')
          (format_RFC3339 now)] (out = None)])"

context decision_ports
begin

lemma retry_trace:
  assumes "retry h w e l now = (out, w')"
  shows "\<exists>calls. trace w' = trace w @ calls \<and> retry_calls e l now (fst (dh_pauseData h w e)) out calls \<and>
    (out = None \<or> (\<exists>m. out = Some (PublisherFailed m) \<or> out = Some (PublishRetryFailed m)))"
proof -
  let ?rm = "fst (dh_pauseData h w e)"
  let ?role = "if fst ?rm = [] then ''dispatch'' else fst ?rm"
  define task where "task = retry_task l ?role (if snd ?rm = [] then ''claude-haiku'' else snd ?rm) now"
  have task: "tm_Role task = ?role" "tm_Model task = (if snd ?rm = [] then ''claude-haiku'' else snd ?rm)"
    "tm_TaskID task = ''chain-retry-'' @ take 8 l @ ''-'' @ Itoa (time_UnixNano now)"
    "gm_get (tm_Metadata task) ''prior_loop_id'' = Some (AnyStr l)"
    by (simp_all add: task_def retry_task_def Let_def)
  obtain e1 w1 where sent: "dh_tasks h w (''agent.task.'' @ ?role) task = (e1, w1)" by fastforce
  have w1: "trace w1 = trace w @ [TaskCall (''agent.task.'' @ ?role) task (e1 = None)]"
    using tasks_trace [of w "''agent.task.'' @ ?role" task] sent by simp
  show ?thesis
  proof (cases e1)
    case None
    then have "publish_err (dh_publisher h w1 [chain_triple e now ''chain.decision.resumed-task-id'' (tm_TaskID task)]) = (out, w')"
      using assms sent by (simp add: retry_def task_def Let_def)
    from publish_err_trace [OF this] w1 None show ?thesis
      unfolding retry_calls_def
      by (intro exI [of _ "[TaskCall (''agent.task.'' @ ?role) task True,
          AppendCall [chain_triple e now ''chain.decision.resumed-task-id'' (tm_TaskID task)] (out = None)]"] conjI exI [of _ task])
        (auto simp: task)
  next
    case (Some m)
    then have "out = Some (PublishRetryFailed m)" "w' = w1"
      using assms sent by (simp_all add: retry_def task_def Let_def)
    with w1 Some show ?thesis
      unfolding retry_calls_def
      by (intro exI [of _ "[TaskCall (''agent.task.'' @ ?role) task False]"] conjI exI [of _ task]) (auto simp: task)
  qed
qed

lemma dispatch_trace:
  assumes "dispatch h w verb e l now = (out, w')"
  shows "\<exists>calls. trace w' = trace w @ calls \<and> verb_calls verb e l now (fst (dh_pauseData h w e)) out calls \<and>
    (out = None \<or> (\<exists>m. out = Some (PublisherFailed m) \<or> verb = VerbRetry \<and> out = Some (PublishRetryFailed m)))"
proof (cases "verb = VerbRetry")
  case True
  with assms have "retry h w e l now = (out, w')" by (simp add: dispatch_def)
  from retry_trace [OF this] True show ?thesis by (auto simp: verb_calls_def)
next
  case False
  with assms have "publish_err (dh_publisher h w [chain_triple e now
      (if verb = VerbKill then ''chain.decision.killed-at'' else ''chain.decision.deferred-at'')
      (format_RFC3339 now)]) = (out, w')"
    by (simp add: dispatch_def kill_def deferChain_def split: if_splits)
  from publish_err_trace [OF this] False show ?thesis by (auto simp: verb_calls_def)
qed

end

section \<open>A network that may refuse any call\<close>

text \<open>
  The ports over a world that is the trace itself: \<open>refuse\<close> decides of every call, from what
  happened before, whether it fails; the graph holds what was appended successfully.
\<close>

definition net_publish :: "(port_call list \<Rightarrow> string option) \<Rightarrow> port_call list publisher" where
  "net_publish refuse w ts = (refuse w, w @ [AppendCall ts (refuse w = None)])"

definition net_send :: "(port_call list \<Rightarrow> string option) \<Rightarrow> port_call list \<Rightarrow> string \<Rightarrow> TaskMessage \<Rightarrow> string option \<times> port_call list" where
  "net_send refuse w subj t = (refuse w, w @ [TaskCall subj t (refuse w = None)])"

definition net_graph :: "port_call list \<Rightarrow> triple list" where
  "net_graph w = concat (map (\<lambda>c. case c of AppendCall ts ok \<Rightarrow> (if ok then ts else []) | TaskCall _ _ _ \<Rightarrow> []) w)"

definition entity_triples :: "triple list \<Rightarrow> string \<Rightarrow> reply" where
  "entity_triples g e = map (\<lambda>t. (Predicate t, Object t)) (filter (\<lambda>t. Subject t = e) g)"

definition net_request :: "port_call list \<Rightarrow> string \<Rightarrow> graph_reply" where
  "net_request w e = (if entity_triples (net_graph w) e = [] then ReplyInvalid else ReplyTriples (entity_triples (net_graph w) e))"

definition net_handler :: "(port_call list \<Rightarrow> string option) \<Rightarrow> (string \<Rightarrow> string \<Rightarrow> string \<Rightarrow> string + string) \<Rightarrow> string \<Rightarrow>
    port_call list DecisionHandler" where
  "net_handler refuse mk key = \<lparr>dh_publisher = net_publish refuse, dh_tasks = net_send refuse,
     dh_pauseData = ReadPauseData net_request, dh_entities = ReadEntity net_request,
     dh_org = ''acme'', dh_platform = ''p'', dh_loopEntityID = mk, dh_runKey = key\<rparr>"

interpretation network: decision_ports "net_handler refuse mk key" id for refuse mk key
  by unfold_locales (simp_all add: net_handler_def net_publish_def net_send_def)

text \<open>
  C39. What a decision does, whatever the graph and the task queue accept or refuse. With a verb
  outside retry, kill and defer, or a loop that cannot be resolved to a run, it returns an error, a
  verb error exactly when the verb is at fault, and makes no call at all. Otherwise it appends the
  five triples of the audit trail one by one, all of them even when some are refused, and then acts:
  kill and defer append their one mark; retry sends one task, to the queue of its role, with the role
  and model read back from the graph as the audit trail left it (dispatch and claude-haiku when there
  are none) and a pointer to the failed loop, and appends the new task's identifier only when the
  task was accepted. The error it returns is that of the last of these calls: a refused audit triple
  is never reported, although the comment on the handler says that partial write errors are returned.
\<close>

theorem HandleDecision_effects:
  assumes "\<forall>w ts. trace (snd (dh_publisher h w ts)) = trace w @ [AppendCall ts (fst (dh_publisher h w ts) = None)]"
    and "\<forall>w subj t. trace (snd (dh_tasks h w subj t)) = trace w @ [TaskCall subj t (fst (dh_tasks h w subj t) = None)]"
    and "HandleDecision h clock w req actor = (out, w')"
  shows "case if known_verb (dr_Verb req) then decision_target h w (dr_FailedLoopID req) else None of
      None \<Rightarrow> w' = w \<and> (\<exists>err. out = Some err \<and> (isVerbError err \<longleftrightarrow> \<not> known_verb (dr_Verb req)))
    | Some e \<Rightarrow> \<exists>oks wa calls. length oks = 5 \<and>
        trace wa = trace w @ map2 (\<lambda>(p, obj) ok. AppendCall [chain_triple e (time_UTC clock) p obj] ok)
          [(''chain.decision.verb'', dr_Verb req), (''chain.decision.authority'', ''operator''),
           (''chain.decision.actor'', actor), (''chain.decision.reason'', sanitiseErrorShape (dr_Reason req)),
           (''chain.decision.decided-at'', format_RFC3339 (time_UTC clock))] oks \<and>
        trace w' = trace wa @ calls \<and>
        verb_calls (dr_Verb req) e (dr_FailedLoopID req) (time_UTC clock) (fst (dh_pauseData h wa e)) out calls \<and>
        (out = None \<or> (\<exists>m. out = Some (PublisherFailed m) \<or> dr_Verb req = VerbRetry \<and> out = Some (PublishRetryFailed m)))"
proof (cases "if known_verb (dr_Verb req) then decision_target h w (dr_FailedLoopID req) else None")
  case None
  then show ?thesis
    using HandleDecision_rejects [of req h w clock actor] assms(3) by (auto split: if_splits)
next
  case (Some e)
  let ?now = "time_UTC clock" and ?reason = "sanitiseErrorShape (dr_Reason req)"
  have known: "known_verb (dr_Verb req)" and target: "decision_target h w (dr_FailedLoopID req) = Some e"
    using Some by (simp_all split: if_splits)
  have ports: "decision_ports h trace" using assms(1,2) by (simp add: decision_ports_def)
  define wa where "wa = snd (append_each (dh_publisher h) w (decision_triples e (dr_Verb req) actor ?reason ?now))"
  have "sanitiseReason (dr_Reason req) = ?reason" using sanitiseReason_cap by blast
  then have "dispatch h wa (dr_Verb req) e (dr_FailedLoopID req) ?now = (out, w')"
    using HandleDecision_accepts [OF known target, of clock actor] assms(3) by (simp add: writeDecisionTriples_def wa_def)
  from decision_ports.dispatch_trace [OF ports this]
  obtain calls where calls: "trace w' = trace wa @ calls"
    "verb_calls (dr_Verb req) e (dr_FailedLoopID req) ?now (fst (dh_pauseData h wa e)) out calls"
    "out = None \<or> (\<exists>m. out = Some (PublisherFailed m) \<or> dr_Verb req = VerbRetry \<and> out = Some (PublishRetryFailed m))"
    by blast
  have five: "length (decision_triples e (dr_Verb req) actor ?reason ?now) = 5" by (simp add: decision_triples_def)
  obtain oks where oks: "length oks = 5"
    "trace wa = trace w @ map2 (\<lambda>t ok. AppendCall [t] ok) (decision_triples e (dr_Verb req) actor ?reason ?now) oks"
    using decision_ports.append_each_trace [OF ports, of "decision_triples e (dr_Verb req) actor ?reason ?now" w]
    unfolding wa_def five by blast
  then have "trace wa = trace w @ map2 (\<lambda>(p, obj) ok. AppendCall [chain_triple e ?now p obj] ok)
      [(''chain.decision.verb'', dr_Verb req), (''chain.decision.authority'', ''operator''),
       (''chain.decision.actor'', actor), (''chain.decision.reason'', ?reason),
       (''chain.decision.decided-at'', format_RFC3339 ?now)] oks"
    using oks(1) by (auto simp: decision_triples_def numeral_eq_Suc length_Suc_conv)
  with oks(1) calls show ?thesis unfolding Some option.case by blast
qed

section \<open>What an accepted decision does\<close>

text \<open>
  What the handler relies on from its publisher and its task queue, relative to what can be observed
  of the world: the triples stored and the tasks sent. Writing triples sends no task, and sending a
  task stores no triple.
\<close>

locale decision_world =
  fixes h :: "'w DecisionHandler" and stored :: "'w \<Rightarrow> triple list" and sent :: "'w \<Rightarrow> (string \<times> TaskMessage) list"
  assumes pub_faithful: "faithful_publisher (dh_publisher h) stored"
    and pub_reliable: "reliable_publisher (dh_publisher h)"
    and pub_sent: "sent (snd (dh_publisher h w ts)) = sent w"
    and tasks_ok: "fst (dh_tasks h w subj t) = None"
    and tasks_sent: "sent (snd (dh_tasks h w subj t)) = sent w @ [(subj, t)]"
    and tasks_stored: "stored (snd (dh_tasks h w subj t)) = stored w"
begin

lemma pub_stored: "fst (dh_publisher h w ts) = None" "stored (snd (dh_publisher h w ts)) = stored w @ ts"
  using pub_reliable pub_faithful by (simp_all add: reliable_publisher_def faithful_publisher_def)

lemma append_stored: "stored (snd (append_each (dh_publisher h) w ts)) = stored w @ ts"
  using append_each_stored [OF pub_faithful, of ts w] append_each_reliable [OF pub_reliable, of w ts] by auto

lemma append_sent: "sent (snd (append_each (dh_publisher h) w ts)) = sent w"
proof (induction ts arbitrary: w)
  case (Cons t ts)
  obtain e w' where "dh_publisher h w [t] = (e, w')" by fastforce
  with Cons [of w'] pub_sent [of w "[t]"] show ?case by (simp split: prod.splits) (metis snd_conv)
qed simp

lemma kill_effect:
  "fst (kill h w e now) = None" "sent (snd (kill h w e now)) = sent w"
  "stored (snd (kill h w e now)) = stored w @ [chain_triple e now ''chain.decision.killed-at'' (format_RFC3339 now)]"
  by (simp_all add: kill_def publish_err_def pub_stored pub_sent)

lemma defer_effect:
  "fst (deferChain h w e now) = None" "sent (snd (deferChain h w e now)) = sent w"
  "stored (snd (deferChain h w e now)) = stored w @ [chain_triple e now ''chain.decision.deferred-at'' (format_RFC3339 now)]"
  by (simp_all add: deferChain_def publish_err_def pub_stored pub_sent)

lemma retry_effect:
  assumes "fst (dh_pauseData h w e) = (role, model)" "role \<noteq> []" "model \<noteq> []"
  shows "fst (retry h w e l now) = None"
    "sent (snd (retry h w e l now)) = sent w @ [(''agent.task.'' @ role, retry_task l role model now)]"
    "stored (snd (retry h w e l now)) =
       stored w @ [chain_triple e now ''chain.decision.resumed-task-id'' (tm_TaskID (retry_task l role model now))]"
proof -
  obtain w1 where w1: "dh_tasks h w (''agent.task.'' @ role) (retry_task l role model now) = (None, w1)"
    using tasks_ok by (metis prod.collapse)
  then have "sent w1 = sent w @ [(''agent.task.'' @ role, retry_task l role model now)]" "stored w1 = stored w"
    using tasks_sent tasks_stored by (metis snd_conv)+
  then show "fst (retry h w e l now) = None"
    "sent (snd (retry h w e l now)) = sent w @ [(''agent.task.'' @ role, retry_task l role model now)]"
    "stored (snd (retry h w e l now)) =
       stored w @ [chain_triple e now ''chain.decision.resumed-task-id'' (tm_TaskID (retry_task l role model now))]"
    using assms w1 by (simp_all add: retry_def publish_err_def pub_stored pub_sent)
qed

text \<open>Kill and defer leave the audit trail and their mark, and send no task.\<close>

lemma stop_decision:
  assumes "dr_Verb req = VerbKill \<or> dr_Verb req = VerbDefer" "decision_target h w (dr_FailedLoopID req) = Some e"
  shows "fst (HandleDecision h clock w req actor) = None \<and> sent (snd (HandleDecision h clock w req actor)) = sent w \<and>
    stored (snd (HandleDecision h clock w req actor)) = stored w @
      decision_triples e (dr_Verb req) actor (sanitiseReason (dr_Reason req)) (time_UTC clock) @
      [chain_triple e (time_UTC clock)
         (if dr_Verb req = VerbKill then ''chain.decision.killed-at'' else ''chain.decision.deferred-at'')
         (format_RFC3339 (time_UTC clock))]"
proof -
  have known: "known_verb (dr_Verb req)" using assms(1) by (auto simp: known_verb_def)
  show ?thesis
    unfolding HandleDecision_accepts [OF known assms(2)] dispatch_def writeDecisionTriples_def
    using assms(1) by (auto simp: kill_effect defer_effect append_stored append_sent)
qed

end

section \<open>A recording world\<close>

type_synonym recorded = "triple list \<times> (string \<times> TaskMessage) list"

definition rec_publish :: "recorded publisher" where
  "rec_publish w ts = (None, (fst w @ ts, snd w))"

definition rec_send :: "recorded \<Rightarrow> string \<Rightarrow> TaskMessage \<Rightarrow> string option \<times> recorded" where
  "rec_send w subj t = (None, (fst w, snd w @ [(subj, t)]))"

definition rec_request :: "recorded \<Rightarrow> string \<Rightarrow> graph_reply" where
  "rec_request w e = (if entity_triples (fst w) e = [] then ReplyInvalid else ReplyTriples (entity_triples (fst w) e))"

definition rec_handler :: "(string \<Rightarrow> string \<Rightarrow> string \<Rightarrow> string + string) \<Rightarrow> string \<Rightarrow> recorded DecisionHandler" where
  "rec_handler mk key = \<lparr>dh_publisher = rec_publish, dh_tasks = rec_send,
     dh_pauseData = ReadPauseData rec_request, dh_entities = ReadEntity rec_request,
     dh_org = ''acme'', dh_platform = ''p'', dh_loopEntityID = mk, dh_runKey = key\<rparr>"

interpretation recording: decision_world "rec_handler mk key" fst snd for mk key
  by unfold_locales
    (simp_all add: rec_handler_def rec_publish_def rec_send_def faithful_publisher_def reliable_publisher_def)

lemma append_each_rec: "append_each rec_publish w ts = (None, (fst w @ ts, snd w))"
  by (induction ts arbitrary: w) (simp_all add: rec_publish_def)

lemma pause_data_loop_append: "pause_data_loop rm (xs @ ys) = pause_data_loop (pause_data_loop rm xs) ys"
proof (induction xs arbitrary: rm)
  case (Cons t xs)
  obtain p obj where "t = (p, obj)" by fastforce
  with Cons show ?case by (cases obj) simp_all
qed simp

lemma pause_data_loop_skip:
  "\<forall>t \<in> set ts. fst t \<noteq> ''chain.paused.role'' \<and> fst t \<noteq> ''chain.paused.original-model'' \<Longrightarrow> pause_data_loop rm ts = rm"
  by (induction rm ts rule: pause_data_loop.induct) auto

lemma entity_triples_append: "entity_triples (g @ g') e = entity_triples g e @ entity_triples g' e"
  by (simp add: entity_triples_def)

lemma pause_data_of_pause:
  "pause_data_loop rm (entity_triples (pause_triples now ev) (ev_RunEntityID ev)) = (ev_Role ev, ev_Model ev)"
  by (simp add: entity_triples_def pause_triples_def chain_triple_def)

lemma pause_data_of_decision: "pause_data_loop rm (entity_triples (decision_triples e v a r now) e) = rm"
  by (rule pause_data_loop_skip) (simp add: entity_triples_def decision_triples_def chain_triple_def)

lemma entity_triples_other: "e \<noteq> ev_RunEntityID ev \<Longrightarrow> entity_triples (pause_triples now ev) e = []"
  by (simp add: entity_triples_def pause_triples_def chain_triple_def)

lemma ReadPauseData_rec:
  "fst (ReadPauseData rec_request w e) = pause_data_loop ([], []) (entity_triples (fst w) e)"
  by (simp add: ReadPauseData_def rec_request_def)

text \<open>
  Kill and defer: with a publisher that stores what it is given, the graph gains exactly the five
  triples of the audit trail and the one mark of the verb, on the run entity, and no task is sent.
\<close>

theorem kill_defer_effect:
  assumes "dr_Verb req = VerbKill \<or> dr_Verb req = VerbDefer"
    "decision_target (rec_handler mk key) w (dr_FailedLoopID req) = Some e"
  shows "HandleDecision (rec_handler mk key) clock w req actor = (None,
     (fst w @ decision_triples e (dr_Verb req) actor (sanitiseReason (dr_Reason req)) (time_UTC clock) @
        [chain_triple e (time_UTC clock)
           (if dr_Verb req = VerbKill then ''chain.decision.killed-at'' else ''chain.decision.deferred-at'')
           (format_RFC3339 (time_UTC clock))], snd w))"
  using recording.stop_decision [OF assms, of clock actor] by (intro prod_eqI) simp_all

lemma decision_target_rec:
  "decision_target (rec_handler mk key) w l =
     (case mk ''acme'' ''p'' l of Inl _ \<Rightarrow> None
      | Inr le \<Rightarrow> (let e = str_or_empty (gm_get (DecodeExactEntityTriples (entity_triples (fst w) le)) key)
                   in if e = [] then None else Some e))"
  by (simp add: decision_target_def rec_handler_def ReadEntity_def rec_request_def
      DecodeExactEntityTriples_def DecodeExactEntityAllTriples_def split: sum.splits)

text \<open>
  C40. A retry resumes what failed: when a managed loop of a run fails, the pauser records it, and the
  operator then decides to retry that loop, exactly one task is sent, to the queue of the failed
  loop's role, with that role, the model it ran with and a pointer to the failed loop. Whatever the
  graph held before, earlier pauses of the same run included, does not matter.
\<close>

theorem pause_retry_roundtrip:
  assumes "isManagedRole (ev_Role ev)" "ev_RunEntityID ev \<noteq> []" "ev_Model ev \<noteq> []"
    and "mk ''acme'' ''p'' (ev_LoopID ev) = Inr le" "le \<noteq> ev_RunEntityID ev"
    and "gm_get (DecodeExactEntityTriples (entity_triples (fst w) le)) key = Some (AnyStr (ev_RunEntityID ev))"
    and "dr_Verb req = VerbRetry" "dr_FailedLoopID req = ev_LoopID ev"
  shows "\<exists>t. snd (snd (HandleDecision (rec_handler mk key) later
              (snd (HandleFailed rec_publish clock w ev)) req actor)) = snd w @ [(''agent.task.'' @ ev_Role ev, t)] \<and>
     tm_Role t = ev_Role ev \<and> tm_Model t = ev_Model ev \<and>
     gm_get (tm_Metadata t) ''prior_loop_id'' = Some (AnyStr (ev_LoopID ev))"
proof -
  define h where "h = rec_handler mk key"
  define w1 where "w1 = snd (HandleFailed rec_publish clock w ev)"
  have w1: "w1 = (fst w @ pause_triples (time_UTC clock) ev, snd w)"
    using assms(1,2) by (simp add: w1_def HandleFailed_def append_each_rec Let_def)
  have "decision_target h w1 (ev_LoopID ev) = Some (ev_RunEntityID ev)"
    unfolding h_def decision_target_rec w1
    using assms(2,4,6) by (simp add: entity_triples_append entity_triples_other [OF assms(5)] str_or_empty_def)
  then have target: "decision_target h w1 (dr_FailedLoopID req) = Some (ev_RunEntityID ev)"
    by (simp add: assms(8))
  define w2 where "w2 = (fst w1 @ decision_triples (ev_RunEntityID ev) (dr_Verb req) actor
      (sanitiseReason (dr_Reason req)) (time_UTC later), snd w1)"
  have hp: "dh_publisher h = rec_publish" by (simp add: h_def rec_handler_def)
  have known: "known_verb (dr_Verb req)" by (simp add: known_verb_def assms(7))
  have run: "HandleDecision h later w1 req actor = retry h w2 (ev_RunEntityID ev) (ev_LoopID ev) (time_UTC later)"
    unfolding HandleDecision_accepts [OF known target]
    by (simp add: dispatch_def assms(7,8) writeDecisionTriples_def hp append_each_rec w2_def)
  have "fst (dh_pauseData h w2 (ev_RunEntityID ev)) = (ev_Role ev, ev_Model ev)"
    by (simp add: h_def rec_handler_def ReadPauseData_rec w2_def w1 entity_triples_append
        pause_data_loop_append pause_data_of_pause pause_data_of_decision)
  moreover have "ev_Role ev \<noteq> []" using assms(1) by (auto simp: isManagedRole_def managedRoles_def)
  ultimately have "snd (snd (retry h w2 (ev_RunEntityID ev) (ev_LoopID ev) (time_UTC later))) =
      snd w2 @ [(''agent.task.'' @ ev_Role ev, retry_task (ev_LoopID ev) (ev_Role ev) (ev_Model ev) (time_UTC later))]"
    unfolding h_def by (intro recording.retry_effect(2) assms(3))
  moreover have "snd w2 = snd w" by (simp add: w2_def w1)
  ultimately have "snd (snd (HandleDecision h later w1 req actor)) = snd w @
      [(''agent.task.'' @ ev_Role ev, retry_task (ev_LoopID ev) (ev_Role ev) (ev_Model ev) (time_UTC later))]"
    by (simp only: run)
  then show ?thesis unfolding h_def w1_def
    by (intro exI conjI) (assumption, simp_all add: retry_task_def Let_def)
qed

section \<open>Witnesses\<close>

definition sample_mk :: "string \<Rightarrow> string \<Rightarrow> string \<Rightarrow> string + string" where
  "sample_mk org plat i = (if CHR ''.'' \<in> set i then Inl ''dotted'' else Inr (org @ ''.'' @ plat @ ''.loop.'' @ i))"

definition sample_world :: recorded where
  "sample_world = ([chain_triple ''acme.p.loop.loop-1'' zero_time ''run-key'' ''acme.p.chain.agent.execution.r1''], [])"

definition sample_decision :: "string \<Rightarrow> DecisionRequest" where
  "sample_decision verb = \<lparr>dr_FailedLoopID = ''loop-1'', dr_Verb = verb, dr_Reason = ''try again'', dr_UserID = []\<rparr>"

lemma sample_target:
  "decision_target (rec_handler sample_mk ''run-key'') sample_world ''loop-1'' = Some ''acme.p.chain.agent.execution.r1''"
  by code_simp

theorem kill_defer_effect_witness:
  "snd (snd (HandleDecision (rec_handler sample_mk ''run-key'') zero_time sample_world (sample_decision VerbKill) ''op'')) = []"
  using kill_defer_effect [of "sample_decision VerbKill" sample_mk "''run-key''" sample_world "''acme.p.chain.agent.execution.r1''" zero_time "''op''"]
    sample_target by (simp add: sample_decision_def sample_world_def)

theorem pause_retry_roundtrip_witness:
  "\<exists>t. snd (snd (HandleDecision (rec_handler sample_mk ''run-key'') zero_time
      (snd (HandleFailed rec_publish zero_time sample_world sample_failure)) (sample_decision VerbRetry) ''op'')) =
     [(''agent.task.dispatch'', t)] \<and> tm_Model t = ''claude''"
proof -
  have anchor: "gm_get (DecodeExactEntityTriples (entity_triples (fst sample_world) ''acme.p.loop.loop-1'')) ''run-key'' =
      Some (AnyStr (ev_RunEntityID sample_failure))" by code_simp
  have mk: "sample_mk ''acme'' ''p'' (ev_LoopID sample_failure) = Inr ''acme.p.loop.loop-1''" by code_simp
  show ?thesis
    using pause_retry_roundtrip [where ev = sample_failure and mk = sample_mk and le = "''acme.p.loop.loop-1''"
        and w = sample_world and key = "''run-key''" and req = "sample_decision VerbRetry"
        and clock = zero_time and later = zero_time and actor = "''op''"] mk anchor
    by (auto simp: sample_failure_def isManagedRole_def managedRoles_def sample_decision_def sample_world_def)
qed

text \<open>The graph refuses the first audit triple: the chain is killed all the same, and no error is returned.\<close>

definition refuse_first_audit :: "port_call list \<Rightarrow> string option" where
  "refuse_first_audit w = (if length w = 1 then Some ''nats: timeout'' else None)"

definition sample_network :: "port_call list" where
  "sample_network = [AppendCall (fst sample_world) True]"

lemma sample_network_target:
  "decision_target (net_handler refuse_first_audit sample_mk ''run-key'') sample_network ''loop-1'' = Some ''acme.p.chain.agent.execution.r1''"
  by code_simp

lemma sample_network_accepts:
  "fst (HandleDecision (net_handler refuse_first_audit sample_mk ''run-key'') zero_time sample_network (sample_decision VerbKill) ''op'') = None"
  by code_simp

theorem HandleDecision_effects_witness:
  "\<exists>audit. length audit = 5 \<and>
     HandleDecision (net_handler refuse_first_audit sample_mk ''run-key'') zero_time sample_network (sample_decision VerbKill) ''op'' =
       (None, sample_network @ audit @ [AppendCall [chain_triple ''acme.p.chain.agent.execution.r1'' (time_UTC zero_time)
          ''chain.decision.killed-at'' (format_RFC3339 (time_UTC zero_time))] True])"
proof -
  let ?h = "net_handler refuse_first_audit sample_mk ''run-key''"
  obtain w' where run: "HandleDecision ?h zero_time sample_network (sample_decision VerbKill) ''op'' = (None, w')"
    using sample_network_accepts by (metis prod.collapse)
  have "known_verb (dr_Verb (sample_decision VerbKill))" "dr_FailedLoopID (sample_decision VerbKill) = ''loop-1''"
    "dr_Verb (sample_decision VerbKill) = VerbKill"
    by (simp_all add: sample_decision_def known_verb_def)
  then show ?thesis
    using HandleDecision_effects [where trace = id, OF _ _ run] network.publisher_trace network.tasks_trace run
      sample_network_target
    by (fastforce simp: verb_calls_def)
qed

theorem handleDecide_status_witness:
  "fst (fst (handleDecide (rec_handler sample_mk ''run-key'') zero_time id sample_world
     (Body ((sample_decision VerbKill)\<lparr>dr_FailedLoopID := ''a.b''\<rparr>)))) = 500"
  using handleDecide_status [of "rec_handler sample_mk ''run-key''" zero_time id sample_world
      "Body ((sample_decision VerbKill)\<lparr>dr_FailedLoopID := ''a.b''\<rparr>)"]
  by (simp add: Let_def sample_decision_def known_verb_def rec_handler_def sample_mk_def)

end
