(* ===== verification/Slug.thy ===== *)
theory Slug
  imports Sandbox_Requirements Go_Values
begin

text \<open>
  Slugs of artifact names, \<^verbatim>\<open>slug/slug.go\<close>. The regular expression \<^verbatim>\<open>[^a-z0-9]+\<close> is a loop with a flag for
  being inside a run.
\<close>

section \<open>Operations\<close>

fun collapse :: "bool \<Rightarrow> string \<Rightarrow> string" where
  "collapse run [] = []"
| "collapse run (c # cs) =
     (if kebab_char c then c # collapse False cs
      else if run then collapse True cs
      else CHR ''-'' # collapse True cs)"

definition Slugify :: "string \<Rightarrow> string" where
  "Slugify s = TrimChar (collapse False (ToLower (TrimSpace s))) CHR ''-''"

text \<open>What follows the last slash or backslash.\<close>

fun after_last_sep :: "string \<Rightarrow> string" where
  "after_last_sep [] = []"
| "after_last_sep (c # cs) =
     (if CHR ''/'' \<in> set cs \<or> CHR 0x5C \<in> set cs then after_last_sep cs
      else if c = CHR ''/'' \<or> c = CHR 0x5C then cs else c # cs)"

definition StemFromPath :: "string \<Rightarrow> string \<Rightarrow> string" where
  "StemFromPath p kindSuffix =
     (if p = [] then []
      else (let b = TrimSuffix (after_last_sep p) ''.md''
            in if kindSuffix \<noteq> [] then TrimSuffix b (''-'' @ kindSuffix) else b))"

definition DeriveDated :: "string \<Rightarrow> string \<Rightarrow> string \<Rightarrow> gotime \<Rightarrow> string" where
  "DeriveDated title loopID fallbackPrefix t =
     (let source0 = ToLower (TrimSpace title);
          source = (if source0 = [] then
                      (if fallbackPrefix \<noteq> [] \<and> loopID \<noteq> [] then
                         fallbackPrefix @ ''-'' @ (if length loopID > 8 then take 8 loopID else loopID)
                       else if fallbackPrefix \<noteq> [] then fallbackPrefix else source0)
                    else source0);
          s0 = Slugify source;
          s = (if s0 = [] \<and> fallbackPrefix \<noteq> [] then fallbackPrefix else s0)
      in format_date t @ ''-'' @ s)"

section \<open>Slugs are kebab case\<close>

abbreviation hy :: char where "hy \<equiv> CHR ''-''"

lemma collapse_chars: "c \<in> set (collapse r s) \<Longrightarrow> kebab_char c \<or> c = hy"
  by (induction r s rule: collapse.induct) (auto split: if_splits)

lemma collapse_hd: "collapse True s \<noteq> [] \<Longrightarrow> hd (collapse True s) \<noteq> hy"
proof (induction s)
  case (Cons c s)
  then show ?case by (cases "kebab_char c") auto
qed simp

lemma collapse_single: "no_double_hyphen (collapse r s)"
proof (induction r s rule: collapse.induct)
  case (2 r c cs)
  then show ?case
    using collapse_hd [of cs]
    by (auto simp: no_double_hyphen_def successively_Cons)
qed (simp add: no_double_hyphen_def)

lemma dropWhile_collapse: "dropWhile (\<lambda>d. d = hy) (collapse False s) = collapse True s"
proof (cases s)
  case (Cons c cs)
  have "dropWhile (\<lambda>d. d = hy) (collapse True cs) = collapse True cs"
    using collapse_hd [of cs] by (cases "collapse True cs") auto
  with Cons show ?thesis by auto
qed simp

lemma Slugify_eq: "Slugify s = TrimRightChar (collapse True (ToLower (TrimSpace s))) hy"
  by (simp add: Slugify_def TrimChar_def dropWhile_collapse)

lemma no_double_hyphen_prefix: "prefix t s \<Longrightarrow> no_double_hyphen s \<Longrightarrow> no_double_hyphen t"
  by (auto simp: prefix_def no_double_hyphen_def successively_append_iff)

lemma Slugify_kebab: "Slugify s = [] \<or> lower_kebab (Slugify s)"
proof (cases "Slugify s = []")
  case False
  let ?c = "collapse True (ToLower (TrimSpace s))"
  have pre: "prefix (Slugify s) ?c" by (simp add: Slugify_eq TrimRightChar_prefix)
  have "\<forall>c \<in> set (Slugify s). kebab_char c \<or> c = hy"
    using set_mono_prefix [OF pre] collapse_chars by blast
  moreover have "hd (Slugify s) \<noteq> hy"
    using pre False collapse_hd [of "ToLower (TrimSpace s)"] by (auto simp: prefix_def)
  moreover have "last (Slugify s) \<noteq> hy" using False last_TrimRightChar by (simp add: Slugify_eq)
  ultimately show ?thesis
    using False no_double_hyphen_prefix [OF pre collapse_single]
    by (simp add: lower_kebab_def list_all_iff)
qed simp

lemma collapse_id:
  "list_all (\<lambda>c. kebab_char c \<or> c = hy) s \<Longrightarrow> no_double_hyphen s \<Longrightarrow> (r \<longrightarrow> s \<noteq> [] \<longrightarrow> hd s \<noteq> hy) \<Longrightarrow> collapse r s = s"
proof (induction r s rule: collapse.induct)
  case (2 r c cs)
  then show ?case by (cases "kebab_char c") (auto simp: no_double_hyphen_def successively_Cons)
qed simp

lemma kebab_not_space: "kebab_char c \<or> c = hy \<Longrightarrow> \<not> is_space c"
  by (auto simp: kebab_char_def byte_class_defs byte_val_def)

lemma kebab_lower_id: "lower_kebab s \<Longrightarrow> ToLower s = s"
  by (rule ToLower_id) (auto simp: lower_kebab_def list_all_iff kebab_char_def byte_class_defs byte_val_def)

lemma Slugify_id: "lower_kebab s \<Longrightarrow> Slugify s = s"
proof -
  assume k: "lower_kebab s"
  then have "TrimSpace s = s" using kebab_not_space by (intro TrimSpace_no_space) (auto simp: lower_kebab_def list_all_iff)
  moreover have "collapse True s = s" using k collapse_id [of s True] by (simp add: lower_kebab_def)
  ultimately show ?thesis
    using k kebab_lower_id [OF k] TrimRightChar_id [of s hy] by (simp add: Slugify_eq lower_kebab_def)
qed

lemma collapse_Nil: "collapse True s = [] \<longleftrightarrow> (\<forall>c \<in> set s. \<not> kebab_char c)"
  by (induction s) auto

lemma set_TrimSpace_kebab: "kebab_char c \<Longrightarrow> c \<in> set (TrimSpace s) \<longleftrightarrow> c \<in> set s"
proof -
  assume k: "kebab_char c"
  have keep: "c \<in> set (dropWhile is_space t) \<longleftrightarrow> c \<in> set t" for t
    using k kebab_not_space [of c] by (induction t) auto
  show ?thesis by (simp add: TrimSpace_def keep)
qed

lemma Slugify_Nil: "Slugify s = [] \<longleftrightarrow> (\<forall>c \<in> set s. \<not> kebab_char (lower_byte c))"
proof -
  let ?t = "ToLower (TrimSpace s)"
  have "Slugify s = [] \<longleftrightarrow> collapse True ?t = []"
    using collapse_hd [of ?t] unfolding Slugify_eq TrimRightChar_def
    by (cases "collapse True ?t") (auto simp: dropWhile_append)
  also have "\<dots> \<longleftrightarrow> (\<forall>c \<in> set (ToLower s). \<not> kebab_char c)"
    unfolding collapse_Nil TrimSpace_ToLower [symmetric] using set_TrimSpace_kebab by blast
  finally show ?thesis by (simp add: ToLower_def)
qed

text \<open>
  \<^verbatim>\<open>Slugify\<close> yields lower kebab case: letters a to z, digits and single inner hyphens, or nothing; it
  is idempotent, fixes exactly the non-empty strings of that form, and is empty exactly when the
  input has no ASCII letter or digit.
\<close>

theorem Slugify_spec:
  "(Slugify s = [] \<or> lower_kebab (Slugify s)) \<and> Slugify (Slugify s) = Slugify s \<and>
   (s \<noteq> [] \<longrightarrow> (Slugify s = s \<longleftrightarrow> lower_kebab s)) \<and>
   (Slugify s = [] \<longleftrightarrow> (\<forall>c \<in> set s. \<not> kebab_char (lower_byte c)))"
proof -
  have "Slugify [] = []" by (simp add: Slugify_Nil)
  then show ?thesis using Slugify_kebab [of s] Slugify_id Slugify_Nil [of s] by auto
qed

theorem Slugify_spec_witness: "Slugify ''a-b'' = ''a-b''"
proof -
  have "lower_kebab ''a-b''" by code_simp
  then show ?thesis using Slugify_spec [of "''a-b''"] by simp
qed

section \<open>Probe names are slugs\<close>

lemma kebab_loop_collapse:
  "rev (kebab_loop b s) = rev b @ (if b = [] \<or> hd b = hy then collapse True s else collapse False s)"
proof (induction b s rule: kebab_loop.induct)
  case (2 b r rs)
  have "r = hy \<Longrightarrow> \<not> kebab_char r" by simp
  with 2 show ?case by (auto split: if_splits)
qed simp

text \<open>Trimming white space first changes a collapsed string at most by a trailing hyphen.\<close>

lemma collapse_append:
  "collapse r (s @ t) = collapse r s @ collapse (if s = [] then r else \<not> kebab_char (last s)) t"
  by (induction r s rule: collapse.induct) auto

lemma collapse_spaces: "\<forall>c \<in> set t. is_space c \<Longrightarrow> collapse True t = [] \<and> (collapse False t = [] \<or> collapse False t = [hy])"
proof -
  assume sp: "\<forall>c \<in> set t. is_space c"
  then have nk: "\<forall>c \<in> set t. \<not> kebab_char c" using kebab_not_space by blast
  then have "collapse True t = []" by (simp add: collapse_Nil)
  moreover have "collapse False t = [] \<or> collapse False t = [hy]"
    using nk by (cases t) (auto simp: collapse_Nil)
  ultimately show ?thesis by blast
qed

lemma dropWhile_space_collapse: "collapse True (dropWhile is_space s) = collapse True s"
  by (induction s) (use kebab_not_space in auto)

lemma TrimRight_snoc: "TrimRightChar (s @ [c]) c = TrimRightChar s c"
  by (simp add: TrimRightChar_def)

lemma trim_collapse: "collapse True s = collapse True (TrimSpace s) \<or> collapse True s = collapse True (TrimSpace s) @ [hy]"
proof -
  define u where "u = dropWhile is_space s"
  define v where "v = takeWhile is_space (rev u)"
  have "rev u = v @ dropWhile is_space (rev u)" by (simp add: v_def)
  then have u: "u = TrimSpace s @ rev v" by (metis rev_append rev_rev_ident TrimSpace_def u_def)
  have "\<forall>c \<in> set (rev v). is_space c" by (auto simp: v_def dest: set_takeWhileD)
  from collapse_spaces [OF this] show ?thesis
    unfolding dropWhile_space_collapse [of s, symmetric, folded u_def] unfolding u collapse_append
    by (cases "kebab_char (last (TrimSpace s))") auto
qed

lemma TrimRight_decomp: "\<exists>k. s = TrimRightChar s c @ replicate k c"
proof (induction s rule: rev_induct)
  case (snoc x s)
  then obtain k where "s = TrimRightChar s c @ replicate k c" by blast
  then show ?case
    by (cases "x = c") (auto simp: TrimRightChar_def replicate_append_same [symmetric] intro: exI [of _ "Suc k"] exI [of _ 0])
qed (simp add: TrimRightChar_def)

text \<open>
  The predicate segment of a probe is the slug of its name, cut to 55 bytes: \<^verbatim>\<open>kebabProbeName\<close>, a loop of
  its own in the sandbox manager, agrees with \<^verbatim>\<open>Slugify\<close> on every name whose slug fits and is not empty.
\<close>

theorem kebabProbeName_is_slug:
  assumes "Slugify n \<noteq> []" "length (Slugify n) \<le> kebab_max_len"
  shows "kebabProbeName n = Slugify n"
proof -
  let ?c = "collapse True (ToLower n)" and ?t = "collapse True (ToLower (TrimSpace n))"
  have b: "rev (kebab_loop [] (ToLower n)) = ?c" by (simp add: kebab_loop_collapse)
  have slug: "Slugify n = TrimRightChar ?t hy" by (simp add: Slugify_eq)
  have same: "TrimRightChar ?c hy = Slugify n"
    using trim_collapse [of "ToLower n"] by (auto simp: slug TrimSpace_ToLower TrimRight_snoc)
  obtain k where k: "?c = Slugify n @ replicate k hy"
    using TrimRight_decomp [of ?c hy] unfolding same by blast
  have tail: "TrimRightChar (Slugify n @ replicate j hy) hy = Slugify n" for j
  proof (induction j)
    case 0
    show ?case using assms(1) last_TrimRightChar same TrimRightChar_id by (metis append_Nil2 replicate_0)
  next
    case (Suc j)
    then show ?case by (metis TrimRight_snoc append.assoc replicate_Suc replicate_append_same)
  qed
  have "take kebab_max_len ?c = Slugify n @ replicate (min (kebab_max_len - length (Slugify n)) k) hy"
    using assms(2) by (simp add: k take_replicate)
  then show ?thesis
    using assms(1) tail same by (simp add: kebabProbeName_def b Let_def)
qed

theorem kebabProbeName_is_slug_witness: "kebabProbeName '' Go_Toolchain 1.25 '' = Slugify '' Go_Toolchain 1.25 ''"
proof -
  have "Slugify '' Go_Toolchain 1.25 '' = ''go-toolchain-1-25''" by code_simp
  then show ?thesis by (intro kebabProbeName_is_slug) simp_all
qed

section \<open>Dated names\<close>

lemma ToLower_Nil: "ToLower [] = []"
  by (simp add: ToLower_def)

lemma Slugify_lower_trim [simp]: "Slugify (ToLower (TrimSpace s)) = Slugify s"
  by (simp add: Slugify_eq TrimSpace_ToLower)

lemma Slugify_append_nonempty: "Slugify s \<noteq> [] \<Longrightarrow> Slugify (s @ t) \<noteq> []"
  by (auto simp: Slugify_Nil)

text \<open>
  The name \<^verbatim>\<open>DeriveDated\<close> gives, for a kebab-case prefix or none: a title with an ASCII letter or digit
  is used, slugified; an absent title falls back to the prefix with the first eight characters of
  the loop identifier, if there is one; without a prefix the name ends in a hyphen exactly when the
  title has no such character. A title that is present but has none falls back to the prefix alone,
  also when a loop identifier is given.
\<close>

theorem DeriveDated_cases:
  assumes "pfx = [] \<or> lower_kebab pfx"
  shows "(Slugify title \<noteq> [] \<longrightarrow> DeriveDated title loop pfx t = format_date t @ ''-'' @ Slugify title) \<and>
    (TrimSpace title = [] \<and> pfx \<noteq> [] \<and> loop \<noteq> [] \<longrightarrow>
       DeriveDated title loop pfx t = format_date t @ ''-'' @ Slugify (pfx @ ''-'' @ take 8 loop)) \<and>
    (TrimSpace title = [] \<and> pfx \<noteq> [] \<and> loop = [] \<longrightarrow>
       DeriveDated title loop pfx t = format_date t @ ''-'' @ pfx) \<and>
    (TrimSpace title \<noteq> [] \<and> Slugify title = [] \<and> pfx \<noteq> [] \<longrightarrow>
       DeriveDated title loop pfx t = format_date t @ ''-'' @ pfx) \<and>
    (pfx = [] \<longrightarrow> (HasSuffix (DeriveDated title loop pfx t) ''-'' \<longleftrightarrow> Slugify title = []))"
proof -
  have empty: "TrimSpace title = [] \<Longrightarrow> Slugify title = []" by (simp add: Slugify_eq TrimRightChar_def ToLower_def)
  have slug: "Slugify pfx = pfx" "Slugify (pfx @ u) \<noteq> []" if "pfx \<noteq> []" for u
    using that assms Slugify_id Slugify_append_nonempty [of pfx u] by auto
  have cut: "(if length loop > 8 then take 8 loop else loop) = take 8 loop" by simp
  have "HasSuffix (d @ ''-'' @ x) ''-'' \<longleftrightarrow> x = [] \<or> last x = hy" for d x
    by (cases x rule: rev_cases) (auto simp: HasSuffix_iff suffix_def)
  moreover have "Slugify title \<noteq> [] \<Longrightarrow> last (Slugify title) \<noteq> hy"
    using Slugify_kebab [of title] by (auto simp: lower_kebab_def)
  ultimately have tail: "HasSuffix (format_date t @ ''-'' @ Slugify title) ''-'' \<longleftrightarrow> Slugify title = []" by auto
  have D: "DeriveDated title loop pfx t = format_date t @ ''-'' @
     (let s0 = Slugify (if TrimSpace title = [] then (if pfx \<noteq> [] \<and> loop \<noteq> [] then pfx @ ''-'' @ take 8 loop else pfx) else title)
      in if s0 = [] \<and> pfx \<noteq> [] then pfx else s0)"
    unfolding DeriveDated_def Let_def cut by (cases "TrimSpace title = []"; cases "pfx = []") (simp_all add: ToLower_Nil)
  show ?thesis
  proof (intro conjI impI)
    assume "TrimSpace title = [] \<and> pfx \<noteq> [] \<and> loop \<noteq> []"
    then show "DeriveDated title loop pfx t = format_date t @ ''-'' @ Slugify (pfx @ ''-'' @ take 8 loop)"
      using slug(2) [of "''-'' @ take 8 loop"] unfolding D Let_def by simp
  next
    assume "pfx = []"
    then show "HasSuffix (DeriveDated title loop pfx t) ''-'' \<longleftrightarrow> Slugify title = []"
      using tail empty Slugify_Nil [of "[]"] unfolding D Let_def by (cases "TrimSpace title = []") simp_all
  next
    assume "Slugify title \<noteq> []"
    moreover from this have "TrimSpace title \<noteq> []" using empty by blast
    ultimately show "DeriveDated title loop pfx t = format_date t @ ''-'' @ Slugify title"
      unfolding D Let_def by simp
  next
    assume "TrimSpace title = [] \<and> pfx \<noteq> [] \<and> loop = []"
    then show "DeriveDated title loop pfx t = format_date t @ ''-'' @ pfx"
      using slug(1) unfolding D Let_def by simp
  next
    assume "TrimSpace title \<noteq> [] \<and> Slugify title = [] \<and> pfx \<noteq> []"
    then show "DeriveDated title loop pfx t = format_date t @ ''-'' @ pfx"
      unfolding D Let_def by simp
  qed
qed

theorem DeriveDated_cases_witness:
  "DeriveDated ''???'' ''abcdef0123'' ''plan'' (mk_utc 0) = format_date (mk_utc 0) @ ''-plan''"
proof -
  have "lower_kebab ''plan''" "TrimSpace ''???'' \<noteq> []" "Slugify ''???'' = []" by code_simp+
  then show ?thesis using DeriveDated_cases [of "''plan''" "''???''" "''abcdef0123''" "mk_utc 0"] by simp
qed

section \<open>Stems\<close>

definition no_sep :: "string \<Rightarrow> bool" where
  "no_sep s \<longleftrightarrow> CHR ''/'' \<notin> set s \<and> CHR 0x5C \<notin> set s"

lemma after_last_sep_append: "no_sep b \<Longrightarrow> after_last_sep (d @ CHR ''/'' # b) = b"
  by (induction d) (auto simp: no_sep_def)

lemma after_last_sep_id: "no_sep b \<Longrightarrow> after_last_sep b = b"
  by (cases b) (auto simp: no_sep_def)

text \<open>
  The stem of a rendered artifact's path comes back: for a file \<^verbatim>\<open><stem>-<kind>.md\<close> in any directory,
  \<^verbatim>\<open>StemFromPath\<close> returns the stem the name was composed from.
\<close>

theorem StemFromPath_roundtrip:
  assumes "no_sep stem" "no_sep kind" "kind \<noteq> []"
  shows "StemFromPath (dir @ ''/'' @ stem @ ''-'' @ kind @ ''.md'') kind = stem \<and>
     StemFromPath (stem @ ''-'' @ kind @ ''.md'') kind = stem"
proof -
  have ns: "no_sep (stem @ ''-'' @ kind @ ''.md'')" using assms by (simp add: no_sep_def)
  have md: "TrimSuffix (stem @ ''-'' @ kind @ ''.md'') ''.md'' = stem @ ''-'' @ kind"
    using TrimSuffix_append [of "stem @ ''-'' @ kind" "''.md''"] by simp
  have kd: "TrimSuffix (stem @ ''-'' @ kind) (''-'' @ kind) = stem" by (rule TrimSuffix_append)
  have "after_last_sep (dir @ ''/'' @ stem @ ''-'' @ kind @ ''.md'') = stem @ ''-'' @ kind @ ''.md''"
    using after_last_sep_append [OF ns, of dir] by simp
  with assms(3) after_last_sep_id [OF ns] md kd show ?thesis by (simp add: StemFromPath_def Let_def)
qed

theorem StemFromPath_roundtrip_witness:
  "StemFromPath (''docs/research/'' @ ''2026-05-09-osh'' @ ''-research.md'') ''research'' = ''2026-05-09-osh''"
  using StemFromPath_roundtrip [of "''2026-05-09-osh''" "''research''" "''docs/research''"] by (simp add: no_sep_def)

end
