(* ===== verification/Run_Anchor.thy ===== *)
theory Run_Anchor
  imports Go_Values
begin

text \<open>
  The run a tool call belongs to, \<^verbatim>\<open>runanchor/runanchor.go\<close>. The framework's metadata keys and its two
  entity-id constructors, which reject malformed identifiers, are the fields of \<open>framework\<close>.
\<close>

section \<open>Data\<close>

record framework =
  fw_RunID :: string
  fw_RunEntityID :: string
  fw_RelatedLoops :: string
  fw_TryChainExecutionEntityID :: "string \<Rightarrow> string \<Rightarrow> string \<Rightarrow> string + string"
  fw_TryLoopExecutionEntityID :: "string \<Rightarrow> string \<Rightarrow> string \<Rightarrow> string + string"

text \<open>A nil metadata map is \<open>None\<close>.\<close>

record ToolCall =
  tc_LoopID :: string
  tc_Metadata :: "(string \<times> any) list option"

abbreviation ChainEntityRoleKey :: string where
  "ChainEntityRoleKey \<equiv> ''chain-entity-id''"

definition meta_get :: "(string \<times> any) list option \<Rightarrow> string \<Rightarrow> any option" where
  "meta_get m k = (case m of None \<Rightarrow> None | Some kvs \<Rightarrow> gm_get kvs k)"

section \<open>Operations\<close>

definition Anchor :: "framework \<Rightarrow> ToolCall \<Rightarrow> string \<Rightarrow> string \<Rightarrow> string \<times> string" where
  "Anchor fw call org platform =
     (case tc_Metadata call of
        None \<Rightarrow> ([], [])
      | Some m \<Rightarrow>
          (let runID = str_or_empty (gm_get m (fw_RunID fw));
               runEntityID = str_or_empty (gm_get m (fw_RunEntityID fw))
           in if runEntityID = [] \<and> runID \<noteq> [] then
                (case fw_TryChainExecutionEntityID fw org platform runID of
                   Inr i \<Rightarrow> (runID, i) | Inl _ \<Rightarrow> (runID, runEntityID))
              else (runID, runEntityID)))"

definition FallbackLoopID :: "ToolCall \<Rightarrow> string" where
  "FallbackLoopID call =
     (if tc_LoopID call \<noteq> [] then tc_LoopID call
      else str_or_empty (meta_get (tc_Metadata call) ''loop_id''))"

definition relatedLoopChainEntityID :: "framework \<Rightarrow> (string \<times> any) list option \<Rightarrow> string" where
  "relatedLoopChainEntityID fw metadata =
     (case meta_get metadata (fw_RelatedLoops fw) of
        Some (AnyMap related) \<Rightarrow> str_or_empty (gm_get related ChainEntityRoleKey)
      | Some (AnyStrMap related) \<Rightarrow> (case gm_get related ChainEntityRoleKey of Some v \<Rightarrow> v | None \<Rightarrow> [])
      | _ \<Rightarrow> [])"

definition hasRunAnchorKey :: "framework \<Rightarrow> (string \<times> any) list option \<Rightarrow> bool" where
  "hasRunAnchorKey fw metadata \<longleftrightarrow>
     meta_get metadata (fw_RunID fw) \<noteq> None \<or> meta_get metadata (fw_RunEntityID fw) \<noteq> None"

datatype anchor_error = AnchorUnusable | AnchorMissing

definition ChainEntityID :: "framework \<Rightarrow> ToolCall \<Rightarrow> string \<Rightarrow> string \<Rightarrow> anchor_error + string" where
  "ChainEntityID fw call org platform =
     (let v = relatedLoopChainEntityID fw (tc_Metadata call) in
      if v \<noteq> [] then Inr v
      else (case Anchor fw call org platform of (runID, runEntityID) \<Rightarrow>
        if runEntityID \<noteq> [] then Inr runEntityID
        else if runID \<noteq> [] \<or> hasRunAnchorKey fw (tc_Metadata call) then Inl AnchorUnusable
        else (let loopID = FallbackLoopID call in
          if loopID \<noteq> [] then
            (case fw_TryLoopExecutionEntityID fw org platform loopID of
               Inr i \<Rightarrow> Inr i | Inl _ \<Rightarrow> Inl AnchorMissing)
          else Inl AnchorMissing)))"

section \<open>Precedence\<close>

lemma Anchor_runID: "fst (Anchor fw call org platform) = str_or_empty (meta_get (tc_Metadata call) (fw_RunID fw))"
  by (auto simp: Anchor_def meta_get_def str_or_empty_def Let_def split: option.splits sum.splits)

lemma str_or_empty_None [simp]: "str_or_empty None = []"
  by (simp add: str_or_empty_def)

lemma Anchor_no_key: "\<not> hasRunAnchorKey fw (tc_Metadata call) \<Longrightarrow> Anchor fw call org platform = ([], [])"
  by (auto simp: Anchor_def hasRunAnchorKey_def meta_get_def Let_def split: option.splits)

text \<open>
  The chain entity of a tool call is found by precedence: an entity pinned under \<^verbatim>\<open>related_loops\<close>
  wins; otherwise the run anchor, explicit or rebuilt from the run identifier; otherwise, only for a
  call that carries no run anchor at all, the entity of its own loop. A call attached to a run whose
  anchor cannot be used is an error and never lands on a loop entity.
\<close>

theorem ChainEntityID_precedence:
  "let pinned = relatedLoopChainEntityID fw (tc_Metadata call);
       run = snd (Anchor fw call org platform);
       attached = hasRunAnchorKey fw (tc_Metadata call);
       own = (if FallbackLoopID call = [] then Inl [] else fw_TryLoopExecutionEntityID fw org platform (FallbackLoopID call))
   in ChainEntityID fw call org platform =
     (if pinned \<noteq> [] then Inr pinned
      else if run \<noteq> [] then Inr run
      else if attached then Inl AnchorUnusable
      else (case own of Inr e \<Rightarrow> Inr e | Inl _ \<Rightarrow> Inl AnchorMissing))"
proof -
  have "fst (Anchor fw call org platform) \<noteq> [] \<Longrightarrow> hasRunAnchorKey fw (tc_Metadata call)"
    using Anchor_no_key [of fw call org platform] by (cases "hasRunAnchorKey fw (tc_Metadata call)") simp_all
  then show ?thesis
    by (auto simp: ChainEntityID_def Let_def split: prod.splits sum.splits)
qed

end
