(* ===== verification/Port_Resolver.thy ===== *)
theory Port_Resolver
  imports Prelude
begin

text \<open>
  Looking up the subject of a port in the operator's configuration, \<^verbatim>\<open>portresolver/portresolver.go\<close>. The
  framework's strict decoder of a component's configuration is an argument; it yields the \<^verbatim>\<open>ports\<close>
  block, if the configuration decodes and declares one.
\<close>

datatype Portable =
    NATSPort string
  | NATSRequestPort string
  | JetStreamPort "string list"
  | OtherPort

record PortDefinition =
  pd_Name :: string
  pd_Config :: Portable

record PortConfig =
  pc_Inputs :: "PortDefinition list"
  pc_Outputs :: "PortDefinition list"

record 'c ComponentConfig =
  cc_Enabled :: bool
  cc_Config :: 'c

definition portableSubject :: "Portable \<Rightarrow> string" where
  "portableSubject pc = (case pc of
      NATSPort s \<Rightarrow> s | NATSRequestPort s \<Rightarrow> s
    | JetStreamPort ss \<Rightarrow> (if ss \<noteq> [] then hd ss else []) | OtherPort \<Rightarrow> [])"

fun lane_lookup :: "string \<Rightarrow> PortDefinition list \<Rightarrow> string option" where
  "lane_lookup portName [] = None"
| "lane_lookup portName (p # ps) =
     (if pd_Name p = portName then Some (portableSubject (pd_Config p)) else lane_lookup portName ps)"

text \<open>A nil configuration is \<open>None\<close>.\<close>

definition Subject_of :: "('c \<Rightarrow> PortConfig option) \<Rightarrow> (string \<times> 'c ComponentConfig) list option \<Rightarrow> string \<Rightarrow> string \<Rightarrow> string" where
  "Subject_of decode cfg componentInstance portName =
     (case cfg of
        None \<Rightarrow> []
      | Some components \<Rightarrow>
          (case gm_get components componentInstance of
             None \<Rightarrow> []
           | Some cc \<Rightarrow>
               if \<not> cc_Enabled cc then []
               else (case decode (cc_Config cc) of
                       None \<Rightarrow> []
                     | Some ports \<Rightarrow>
                         (case lane_lookup portName (pc_Inputs ports) of
                            Some s \<Rightarrow> s
                          | None \<Rightarrow> (case lane_lookup portName (pc_Outputs ports) of Some s \<Rightarrow> s | None \<Rightarrow> [])))))"

definition SubjectOrDefault :: "('c \<Rightarrow> PortConfig option) \<Rightarrow> (string \<times> 'c ComponentConfig) list option \<Rightarrow> string \<Rightarrow> string \<Rightarrow> string \<Rightarrow> string" where
  "SubjectOrDefault decode cfg componentInstance portName defaultSubject =
     (let s = Subject_of decode cfg componentInstance portName in if s \<noteq> [] then s else defaultSubject)"

lemma lane_lookup_find:
  "lane_lookup n ps = map_option (portableSubject \<circ> pd_Config) (List.find (\<lambda>p. pd_Name p = n) ps)"
  by (induction ps) auto

lemma find_append: "List.find P (xs @ ys) = (case List.find P xs of Some x \<Rightarrow> Some x | None \<Rightarrow> List.find P ys)"
  by (induction xs) auto

text \<open>The ports an enabled component declares, inputs before outputs.\<close>

definition declared_ports :: "('c \<Rightarrow> PortConfig option) \<Rightarrow> (string \<times> 'c ComponentConfig) list option \<Rightarrow> string \<Rightarrow> PortDefinition list" where
  "declared_ports decode cfg inst =
     (case Option.bind cfg (\<lambda>cs. gm_get cs inst) of
        None \<Rightarrow> []
      | Some cc \<Rightarrow> (case (if cc_Enabled cc then decode (cc_Config cc) else None) of
                      None \<Rightarrow> [] | Some ports \<Rightarrow> pc_Inputs ports @ pc_Outputs ports))"

text \<open>
  The resolved subject is that of the first port of that name an enabled component declares,
  inputs before outputs, when that port carries a subject; in every other case, a missing or
  disabled component, an undecodable configuration, no such port, a port kind without a subject or a
  shadowing port with an empty one, it is the default.
\<close>

theorem SubjectOrDefault_spec:
  "SubjectOrDefault decode cfg inst port def =
     (case List.find (\<lambda>p. pd_Name p = port) (declared_ports decode cfg inst) of
        Some p \<Rightarrow> (if portableSubject (pd_Config p) \<noteq> [] then portableSubject (pd_Config p) else def)
      | None \<Rightarrow> def)"
  by (auto simp: SubjectOrDefault_def Subject_of_def declared_ports_def lane_lookup_find find_append Let_def
      split: option.splits)

end
