(* ===== verification/Go_Json_Read.thy ===== *)
theory Go_Json_Read
  imports Go_Json
begin

text \<open>
  Package \<^verbatim>\<open>encoding/json\<close>, reading: \<^verbatim>\<open>json.Unmarshal\<close> of a text into slices of strings and structs. The text is
  cut into tokens, and the grammar is a machine over the tokens with a stack of open arrays and
  objects, as the package's scanner is; so it is structurally recursive and its nesting limit is the
  height of the stack. Escapes above ASCII yield UTF-8; other bytes are kept as they are. The main
  result is \<open>parse_encode\<close>: what \<^verbatim>\<open>json.Marshal\<close> writes is read back.
\<close>

section \<open>Strings\<close>

definition hex_val :: "char \<Rightarrow> nat option" where
  "hex_val c = (let n = byte_val c in
     if 48 \<le> n \<and> n \<le> 57 then Some (n - 48)
     else if 97 \<le> n \<and> n \<le> 102 then Some (n - 87)
     else if 65 \<le> n \<and> n \<le> 70 then Some (n - 55) else None)"

fun hex4 :: "string \<Rightarrow> (nat \<times> string) option" where
  "hex4 (a # b # c # d # rest) =
     (case (hex_val a, hex_val b, hex_val c, hex_val d) of
        (Some w, Some x, Some y, Some z) \<Rightarrow> Some (4096 * w + 256 * x + 16 * y + z, rest)
      | _ \<Rightarrow> None)"
| "hex4 _ = None"

definition utf8 :: "nat \<Rightarrow> string" where
  "utf8 r = map char_of
     (if r < 0x80 then [r]
      else if r < 0x800 then [0xC0 + r div 64, 0x80 + r mod 64]
      else if r < 0x10000 then [0xE0 + r div 4096, 0x80 + r div 64 mod 64, 0x80 + r mod 64]
      else [0xF0 + r div 262144, 0x80 + r div 4096 mod 64, 0x80 + r div 64 mod 64, 0x80 + r mod 64])"

text \<open>The rune of a \<^verbatim>\<open>\u\<close> escape: a pair of surrogates makes one rune, a lone one the replacement character.\<close>

definition read_rune :: "string \<Rightarrow> (string \<times> string) option" where
  "read_rune cs =
     (case hex4 cs of
        None \<Rightarrow> None
      | Some (r, rest) \<Rightarrow>
          if r < 0xD800 \<or> 0xDFFF < r then Some (utf8 r, rest)
          else (case rest of
                  b # u # cs' \<Rightarrow>
                    if b = CHR 0x5C \<and> u = CHR ''u'' then
                      (case hex4 cs' of
                         None \<Rightarrow> None
                       | Some (r', rest') \<Rightarrow>
                           if r < 0xDC00 \<and> 0xDC00 \<le> r' \<and> r' \<le> 0xDFFF
                           then Some (utf8 (0x10000 + (r - 0xD800) * 0x400 + (r' - 0xDC00)), rest')
                           else Some (utf8 0xFFFD, rest))
                    else Some (utf8 0xFFFD, rest)
                | _ \<Rightarrow> Some (utf8 0xFFFD, rest)))"

text \<open>The text an escape denotes, after its backslash, and what follows it.\<close>

fun read_escape :: "string \<Rightarrow> (string \<times> string) option" where
  "read_escape [] = None"
| "read_escape (c # cs) =
     (if c = CHR 0x22 \<or> c = CHR 0x5C \<or> c = CHR ''/'' then Some ([c], cs)
      else if c = CHR ''b'' then Some ([char_of (8 :: nat)], cs)
      else if c = CHR ''f'' then Some ([char_of (12 :: nat)], cs)
      else if c = CHR ''n'' then Some ([char_of (10 :: nat)], cs)
      else if c = CHR ''r'' then Some ([char_of (13 :: nat)], cs)
      else if c = CHR ''t'' then Some ([char_of (9 :: nat)], cs)
      else if c = CHR ''u'' then read_rune cs
      else None)"

lemma hex4_length: "hex4 cs = Some (r, rest) \<Longrightarrow> length rest < length cs"
  by (induction cs rule: hex4.induct) (auto split: option.splits)

lemma read_rune_length: "read_rune cs = Some (s, rest) \<Longrightarrow> length rest < length cs"
  by (auto simp: read_rune_def split: option.splits if_splits list.splits dest!: hex4_length)

lemma read_escape_length: "read_escape cs = Some (s, rest) \<Longrightarrow> length rest < length cs"
  by (cases cs) (auto split: if_splits dest: read_rune_length)

text \<open>The text up to the closing quote, and what follows it.\<close>

function read_string :: "string \<Rightarrow> (string \<times> string) option" where
  "read_string [] = None"
| "read_string (c # cs) =
     (if c = CHR 0x22 then Some ([], cs)
      else if c = CHR 0x5C then
        (case read_escape cs of
           None \<Rightarrow> None
         | Some (s, rest) \<Rightarrow> map_option (\<lambda>(t, r). (s @ t, r)) (read_string rest))
      else if byte_val c < 32 then None
      else map_option (\<lambda>(t, r). (c # t, r)) (read_string cs))"
  by pat_completeness auto
termination
  by (relation "measure length") (auto dest: read_escape_length)

lemma read_string_length: "read_string cs = Some (s, rest) \<Longrightarrow> length rest < length cs"
proof (induction cs arbitrary: s rest rule: read_string.induct)
  case (2 c cs)
  then show ?case
    by (fastforce split: if_splits option.splits dest: read_escape_length)
qed simp

section \<open>Tokens\<close>

datatype jtok = TObj | TObjEnd | TArr | TArrEnd | TColon | TComma | TStr string | TNum string | TTrue | TFalse | TNull

definition num_char :: "char \<Rightarrow> bool" where
  "num_char c \<longleftrightarrow> is_digit c \<or> c \<in> {CHR ''-'', CHR ''+'', CHR ''.'', CHR ''e'', CHR ''E''}"

definition digits1 :: "string \<Rightarrow> bool" where
  "digits1 s \<longleftrightarrow> s \<noteq> [] \<and> list_all is_digit s"

text \<open>The grammar of numbers: sign, integer part without leading zeros, fraction, exponent.\<close>

definition exponent_ok :: "string \<Rightarrow> bool" where
  "exponent_ok s \<longleftrightarrow>
     (case s of [] \<Rightarrow> True
      | e # t \<Rightarrow> (e = CHR ''e'' \<or> e = CHR ''E'') \<and>
          digits1 (case t of c # t' \<Rightarrow> if c = CHR ''-'' \<or> c = CHR ''+'' then t' else t | [] \<Rightarrow> []))"

definition fraction_ok :: "string \<Rightarrow> bool" where
  "fraction_ok s \<longleftrightarrow>
     (case s of c # t \<Rightarrow> if c = CHR ''.'' then digits1 (takeWhile is_digit t) \<and> exponent_ok (dropWhile is_digit t)
                          else exponent_ok s
      | [] \<Rightarrow> True)"

definition number_ok :: "string \<Rightarrow> bool" where
  "number_ok s \<longleftrightarrow>
     (let t = (case s of c # t \<Rightarrow> if c = CHR ''-'' then t else s | [] \<Rightarrow> []) in
      case t of [] \<Rightarrow> False
      | c # t' \<Rightarrow> is_digit c \<and>
          (if c = CHR ''0'' then fraction_ok t' else fraction_ok (dropWhile is_digit t')))"

definition json_space :: "char \<Rightarrow> bool" where
  "json_space c \<longleftrightarrow> byte_val c \<in> {9, 10, 13, 32}"

function tokens :: "string \<Rightarrow> jtok list option" where
  "tokens [] = Some []"
| "tokens (c # cs) =
     (if json_space c then tokens cs
      else if c = CHR ''{'' then map_option (Cons TObj) (tokens cs)
      else if c = CHR ''}'' then map_option (Cons TObjEnd) (tokens cs)
      else if c = CHR ''['' then map_option (Cons TArr) (tokens cs)
      else if c = CHR '']'' then map_option (Cons TArrEnd) (tokens cs)
      else if c = CHR '':'' then map_option (Cons TColon) (tokens cs)
      else if c = CHR '','' then map_option (Cons TComma) (tokens cs)
      else if c = CHR 0x22 then
        (case read_string cs of None \<Rightarrow> None | Some (s, rest) \<Rightarrow> map_option (Cons (TStr s)) (tokens rest))
      else if num_char c \<and> c \<noteq> CHR ''e'' \<and> c \<noteq> CHR ''E'' then
        (if number_ok (takeWhile num_char (c # cs))
         then map_option (Cons (TNum (takeWhile num_char (c # cs)))) (tokens (dropWhile num_char cs)) else None)
      else if HasPrefix (c # cs) ''true'' then map_option (Cons TTrue) (tokens (drop 3 cs))
      else if HasPrefix (c # cs) ''false'' then map_option (Cons TFalse) (tokens (drop 4 cs))
      else if HasPrefix (c # cs) ''null'' then map_option (Cons TNull) (tokens (drop 3 cs))
      else None)"
  by pat_completeness auto
termination
  by (relation "measure length") (auto dest: read_string_length simp: length_dropWhile_le le_imp_less_Suc)

section \<open>The grammar\<close>

datatype jval =
    JNull | JBool bool | JNumber string | JString string | JList "jval list" | JMap "(string \<times> jval) list"

text \<open>An open array or object, what it holds so far reversed, the object with the key whose value is read.\<close>

datatype frame = InArr "jval list" | InObj "(string \<times> jval) list" string

datatype jstate =
    WantValue "frame list"
  | WantElem "frame list"
  | WantKey bool "(string \<times> jval) list" "frame list"
  | WantColon string "(string \<times> jval) list" "frame list"
  | Have jval "frame list"

abbreviation max_depth :: nat where "max_depth \<equiv> 10000"

definition begin_value :: "frame list \<Rightarrow> jtok \<Rightarrow> jstate option" where
  "begin_value fs t =
     (case t of
        TStr s \<Rightarrow> Some (Have (JString s) fs)
      | TNum s \<Rightarrow> Some (Have (JNumber s) fs)
      | TTrue \<Rightarrow> Some (Have (JBool True) fs)
      | TFalse \<Rightarrow> Some (Have (JBool False) fs)
      | TNull \<Rightarrow> Some (Have JNull fs)
      | TArr \<Rightarrow> if length fs < max_depth then Some (WantElem (InArr [] # fs)) else None
      | TObj \<Rightarrow> if length fs < max_depth then Some (WantKey True [] fs) else None
      | _ \<Rightarrow> None)"

fun jstep :: "jstate \<Rightarrow> jtok \<Rightarrow> jstate option" where
  "jstep (WantValue fs) t = begin_value fs t"
| "jstep (WantElem (InArr [] # fs)) TArrEnd = Some (Have (JList []) fs)"
| "jstep (WantElem fs) t = begin_value fs t"
| "jstep (WantKey c acc fs) (TStr k) = Some (WantColon k acc fs)"
| "jstep (WantKey True acc fs) TObjEnd = Some (Have (JMap (rev acc)) fs)"
| "jstep (WantColon k acc fs) TColon = Some (WantValue (InObj acc k # fs))"
| "jstep (Have v (InArr acc # fs)) TComma = Some (WantValue (InArr (v # acc) # fs))"
| "jstep (Have v (InArr acc # fs)) TArrEnd = Some (Have (JList (rev (v # acc))) fs)"
| "jstep (Have v (InObj acc k # fs)) TComma = Some (WantKey False ((k, v) # acc) fs)"
| "jstep (Have v (InObj acc k # fs)) TObjEnd = Some (Have (JMap (rev ((k, v) # acc))) fs)"
| "jstep _ _ = None"

fun jrun :: "jstate \<Rightarrow> jtok list \<Rightarrow> jstate option" where
  "jrun st [] = Some st"
| "jrun st (t # ts) = (case jstep st t of None \<Rightarrow> None | Some st' \<Rightarrow> jrun st' ts)"

definition parse_json :: "string \<Rightarrow> jval option" where
  "parse_json s =
     (case tokens s of
        None \<Rightarrow> None
      | Some ts \<Rightarrow> (case jrun (WantValue []) ts of Some (Have v []) \<Rightarrow> Some v | _ \<Rightarrow> None))"

section \<open>Decoding into Go types\<close>

text \<open>A null leaves the zero value; any other mismatch is an error.\<close>

fun string_of :: "jval \<Rightarrow> string option" where
  "string_of (JString s) = Some s"
| "string_of JNull = Some []"
| "string_of _ = None"

definition slice_of :: "(jval \<Rightarrow> 'a option) \<Rightarrow> jval \<Rightarrow> 'a list option" where
  "slice_of elem v = (case v of JNull \<Rightarrow> Some [] | JList xs \<Rightarrow> those (map elem xs) | _ \<Rightarrow> None)"

definition fields_of :: "jval \<Rightarrow> (string \<times> jval) list option" where
  "fields_of v = (case v of JNull \<Rightarrow> Some [] | JMap kvs \<Rightarrow> Some kvs | _ \<Rightarrow> None)"

text \<open>
  A field of a struct, by its name up to case: the last member that names it, from \<open>z\<close>. The decoder of
  a string keeps the old value at a null.
\<close>

fun field_in :: "('a \<Rightarrow> jval \<Rightarrow> 'a option) \<Rightarrow> string \<Rightarrow> 'a \<Rightarrow> (string \<times> jval) list \<Rightarrow> 'a option" where
  "field_in dec name z [] = Some z"
| "field_in dec name z ((k, v) # kvs) =
     (if EqualFold k name then (case dec z v of None \<Rightarrow> None | Some y \<Rightarrow> field_in dec name y kvs)
      else field_in dec name z kvs)"

definition string_field :: "string \<Rightarrow> (string \<times> jval) list \<Rightarrow> string option" where
  "string_field name = field_in (\<lambda>old v. case v of JNull \<Rightarrow> Some old | _ \<Rightarrow> string_of v) name []"

definition slice_field :: "(jval \<Rightarrow> 'a option) \<Rightarrow> string \<Rightarrow> (string \<times> jval) list \<Rightarrow> 'a list option" where
  "slice_field elem name = field_in (\<lambda>_. slice_of elem) name []"

section \<open>What Marshal writes is read back\<close>

lemma hex_val_digit [simp]: "n < 16 \<Longrightarrow> hex_val (hex_digit n) = Some n"
  by (simp add: hex_val_def hex_digit_def)

lemma hex_val_zero: "hex_val CHR ''0'' = Some 0"
  by (simp add: hex_val_def byte_val_def)

lemma hex4_byte: "hex4 (CHR ''0'' # CHR ''0'' # hex_byte (byte_val c) @ r) = Some (byte_val c, r)"
proof -
  have "byte_val c div 16 < 16" "byte_val c mod 16 < 16"
    using byte_val_less [of c] by (simp_all add: less_mult_imp_div_less)
  then show ?thesis by (simp add: hex_byte_def hex_val_zero)
qed

lemma char_of_byte: "byte_val c = n \<Longrightarrow> c = char_of n"
  by (auto simp: byte_val_def)

lemma read_escape_esc: "json_escaped c \<Longrightarrow> read_escape (json_esc c @ r) = Some ([c], r)"
proof (cases "byte_val c \<in> {34, 92, 8, 12, 10, 13, 9}")
  case True
  then have "c = char_of (34 :: nat) \<or> c = char_of (92 :: nat) \<or> c = char_of (8 :: nat) \<or> c = char_of (12 :: nat) \<or>
     c = char_of (10 :: nat) \<or> c = char_of (13 :: nat) \<or> c = char_of (9 :: nat)"
    using char_of_byte [of c] by simp metis
  moreover have "char_of (34 :: nat) = CHR 0x22" "char_of (92 :: nat) = CHR 0x5C" by code_simp+
  ultimately show ?thesis by (elim disjE) (simp_all add: json_esc_def byte_val_def)
next
  case False
  assume "json_escaped c"
  with False have esc: "json_esc c = CHR ''u'' # CHR ''0'' # CHR ''0'' # hex_byte (byte_val c)" and n: "byte_val c < 128"
    by (auto simp: json_esc_def json_escaped_def Let_def)
  have "utf8 (byte_val c) = [c]" using n by (simp add: utf8_def byte_val_inject [symmetric])
  then show ?thesis using esc n by (simp add: read_rune_def hex4_byte)
qed

lemma read_string_body: "read_string (concat (map json_byte s) @ CHR 0x22 # r) = Some (s, r)"
proof (induction s)
  case (Cons c s)
  define rest where "rest = concat (map json_byte s) @ CHR 0x22 # r"
  have "read_string (json_byte c @ rest) = map_option (\<lambda>(s, r). (c # s, r)) (read_string rest)"
  proof (cases "json_escaped c")
    case True
    then show ?thesis using read_escape_esc [OF True, of rest] by (simp add: json_byte_alt)
  next
    case False
    then have "\<not> byte_val c < 32" by (simp add: json_escaped_def)
    then show ?thesis using False not_escaped_bs [OF False] by (simp add: json_byte_alt)
  qed
  then show ?case using Cons by (simp add: rest_def)
qed simp

lemma tokens_str: "tokens (json_str s @ r) = map_option (Cons (TStr s)) (tokens r)"
  using read_string_body [of s r]
  by (simp add: json_str_def json_space_def byte_val_def)

lemma tokens_punct:
  "tokens (CHR ''{'' # r) = map_option (Cons TObj) (tokens r)"
  "tokens (CHR ''}'' # r) = map_option (Cons TObjEnd) (tokens r)"
  "tokens (CHR ''['' # r) = map_option (Cons TArr) (tokens r)"
  "tokens (CHR '']'' # r) = map_option (Cons TArrEnd) (tokens r)"
  "tokens (CHR '':'' # r) = map_option (Cons TColon) (tokens r)"
  "tokens (CHR '','' # r) = map_option (Cons TComma) (tokens r)"
  by (simp_all add: json_space_def byte_val_def)

declare tokens.simps(2) [simp del]

text \<open>A numeral ends where no character of a number follows.\<close>

definition num_end :: "string \<Rightarrow> bool" where
  "num_end r \<longleftrightarrow> (case r of [] \<Rightarrow> True | c # _ \<Rightarrow> \<not> num_char c)"

lemma num_end_delim: "at_delim r \<Longrightarrow> num_end r"
  by (cases r) (auto simp: num_end_def at_delim_Cons num_char_def is_digit_def byte_val_def)

lemma digit_num_char: "is_digit c \<Longrightarrow> num_char c"
  by (simp add: num_char_def)

lemma takeWhile_num:
  assumes "\<forall>c \<in> set s. num_char c" "num_end r"
  shows "takeWhile num_char (s @ r) = s" "dropWhile num_char (s @ r) = r"
  using assms by (cases r; simp add: num_end_def takeWhile_append2 dropWhile_append2)+

lemma char_zero: "CHR ''0'' = char_of (48 :: nat)"
  by code_simp

lemma nat_str_zero: "nat_str n = CHR ''0'' # s \<Longrightarrow> s = []"
proof (induction n arbitrary: s rule: nat_str.induct)
  case (1 n)
  show ?case
  proof (cases "n < 10")
    case True
    then show ?thesis using 1(2) by (subst (asm) nat_str.simps) simp
  next
    case False
    then obtain s' where s': "nat_str (n div 10) = CHR ''0'' # s'"
      using 1(2) nat_str_neq_Nil [of "n div 10"] by (subst (asm) nat_str.simps) (auto simp: append_eq_Cons_conv)
    with 1(1) [OF False s'] have "nat_str (n div 10) = nat_str 0" by (simp add: nat_str.simps [of 0] char_zero)
    then have "n div 10 = 0" by (simp only: nat_str_inject)
    with False show ?thesis by simp
  qed
qed

lemma number_ok_nat: "number_ok (nat_str n) \<and> number_ok (CHR ''-'' # nat_str n)"
proof -
  obtain c cs where c: "nat_str n = c # cs" by (cases "nat_str n") simp_all
  then have d: "is_digit c" "list_all is_digit cs" using nat_str_digits [of _ n] by (auto simp: list_all_iff)
  then have "dropWhile is_digit cs = []" by (simp only: dropWhile_eq_Nil_conv list_all_iff)
  then have "fraction_ok (dropWhile is_digit cs)" by (simp only: fraction_ok_def list.case)
  moreover have "c = CHR ''0'' \<Longrightarrow> cs = []" using nat_str_zero [of n cs] c by simp
  moreover have "c \<noteq> CHR ''-''" using d(1) minus_not_digit by auto
  ultimately show ?thesis using c d by (auto simp: number_ok_def fraction_ok_def [of "[]"])
qed

lemma Itoa_number: "number_ok (Itoa i)" and Itoa_chars: "\<forall>c \<in> set (Itoa i). num_char c"
  using number_ok_nat nat_str_digits digit_num_char by (auto simp: Itoa_def num_char_def)

lemma tokens_number:
  assumes "num_end r"
  shows "tokens (Itoa i @ r) = map_option (Cons (TNum (Itoa i))) (tokens r)"
proof -
  obtain c cs where c: "Itoa i = c # cs" "is_digit c \<or> c = CHR ''-''" using Itoa_head [of i] by blast
  have n: "num_char c" using Itoa_chars [of i] c(1) by simp
  have ne: "c \<notin> {CHR ''e'', CHR ''E'', CHR ''{'', CHR ''}'', CHR ''['', CHR '']'', CHR '':'', CHR '','', CHR 0x22}" "\<not> json_space c"
    using c(2) by (auto simp: is_digit_def byte_val_def json_space_def)
  have tw: "takeWhile num_char (Itoa i @ r) = Itoa i" "dropWhile num_char (Itoa i @ r) = r"
    using takeWhile_num [OF Itoa_chars assms] by auto
  have "dropWhile num_char (cs @ r) = r" using tw(2) n by (simp add: c(1))
  then show ?thesis
    using Itoa_number [of i] tw(1) n ne unfolding c(1) by (simp add: tokens.simps(2))
qed

fun toks :: "json \<Rightarrow> jtok list" where
  "toks (JStr s) = [TStr s]"
| "toks (JNum i) = [TNum (Itoa i)]"
| "toks (JArr []) = [TArr, TArrEnd]"
| "toks (JArr (x # xs)) = TArr # toks x @ concat (map (\<lambda>x. TComma # toks x) xs) @ [TArrEnd]"
| "toks (JObj []) = [TObj, TObjEnd]"
| "toks (JObj (kv # kvs)) = TObj # TStr (fst kv) # TColon # toks (snd kv) @
     concat (map (\<lambda>kv. TComma # TStr (fst kv) # TColon # toks (snd kv)) kvs) @ [TObjEnd]"

fun read_back :: "json \<Rightarrow> jval" where
  "read_back (JStr s) = JString s"
| "read_back (JNum i) = JNumber (Itoa i)"
| "read_back (JArr xs) = JList (map read_back xs)"
| "read_back (JObj kvs) = JMap (map (\<lambda>kv. (fst kv, read_back (snd kv))) kvs)"

text \<open>The nesting a value needs fits in \<open>n\<close> levels.\<close>

fun nests :: "nat \<Rightarrow> json \<Rightarrow> bool" where
  "nests n (JArr xs) \<longleftrightarrow> 0 < n \<and> (\<forall>x \<in> set xs. nests (n - 1) x)"
| "nests n (JObj kvs) \<longleftrightarrow> 0 < n \<and> (\<forall>kv \<in> set kvs. nests (n - 1) (snd kv))"
| "nests n _ \<longleftrightarrow> True"

lemma Join_concat: "Join (f x # map f xs) '','' = f x @ concat (map (\<lambda>x. CHR '','' # f x) xs)"
  by (induction xs arbitrary: x) simp_all

lemma map_option_append: "map_option (Cons t) (map_option ((@) ts) o') = map_option ((@) (t # ts)) o'"
  by (cases o') simp_all

lemma tokens_each:
  assumes "\<And>x r. x \<in> set xs \<Longrightarrow> at_delim r \<Longrightarrow> tokens (f x @ r) = map_option ((@) (g x)) (tokens r)" "at_delim r"
  shows "tokens (concat (map (\<lambda>x. CHR '','' # f x) xs) @ r) = map_option ((@) (concat (map (\<lambda>x. TComma # g x) xs))) (tokens r)"
  using assms(1)
proof (induction xs)
  case (Cons x xs)
  have d: "at_delim (concat (map (\<lambda>x. CHR '','' # f x) xs) @ r)"
    using assms(2) by (cases xs) (simp_all add: at_delim_Cons)
  show ?case
    using Cons.IH [OF Cons.prems] Cons.prems [of x, OF _ d]
    by (cases "tokens r") (simp_all add: tokens_punct)
qed (cases "tokens r"; simp)

lemma tokens_encode: "at_delim r \<Longrightarrow> tokens (encode v @ r) = map_option ((@) (toks v)) (tokens r)"
proof (induction v arbitrary: r)
  case (JStr s)
  show ?case by (cases "tokens r") (simp_all add: tokens_str)
next
  case (JNum i)
  then show ?case by (cases "tokens r") (simp_all add: tokens_number num_end_delim)
next
  case (JArr xs)
  show ?case
  proof (cases xs)
    case Nil
    then show ?thesis by (cases "tokens r") (simp_all add: tokens_punct)
  next
    case (Cons y ys)
    let ?r = "CHR '']'' # r"
    have d: "at_delim ?r" by (simp add: at_delim_Cons)
    have "tokens (concat (map (\<lambda>x. CHR '','' # encode x) ys) @ ?r) = map_option ((@) (concat (map (\<lambda>x. TComma # toks x) ys))) (tokens ?r)"
      using JArr.IH Cons d by (intro tokens_each) auto
    moreover have "at_delim (concat (map (\<lambda>x. CHR '','' # encode x) ys) @ ?r)"
      by (cases ys) (simp_all add: at_delim_Cons)
    ultimately show ?thesis
      using JArr.IH [of y] Cons by (cases "tokens r") (simp_all add: tokens_punct Join_concat del: Join.simps)
  qed
next
  case (JObj kvs)
  define g where "g = (\<lambda>kv. TStr (fst kv) # TColon # toks (snd kv))"
  have field: "tokens (encode_field kv @ q) = map_option ((@) (g kv)) (tokens q)" if "kv \<in> set kvs" "at_delim q" for kv q
    using JObj.IH [of kv "snd kv" q] that
    by (cases kv; cases "tokens q") (auto simp: encode_field_def g_def tokens_str tokens_punct snds.simps)
  show ?case
  proof (cases kvs)
    case Nil
    then show ?thesis by (cases "tokens r") (simp_all add: tokens_punct)
  next
    case (Cons y ys)
    let ?r = "CHR ''}'' # r"
    have "tokens (concat (map (\<lambda>x. CHR '','' # encode_field x) ys) @ ?r) = map_option ((@) (concat (map (\<lambda>x. TComma # g x) ys))) (tokens ?r)"
      using field Cons by (intro tokens_each) (auto simp: at_delim_Cons)
    moreover have "at_delim (concat (map (\<lambda>x. CHR '','' # encode_field x) ys) @ ?r)"
      by (cases ys) (simp_all add: at_delim_Cons)
    ultimately show ?thesis
      using field [of y] Cons
      by (cases "tokens r") (simp_all add: encode_JObj tokens_punct Join_concat g_def del: Join.simps encode.simps)
  qed
qed

lemma tokens_encode_Nil: "tokens (encode v) = Some (toks v)"
  using tokens_encode [of "[]" v] by (simp add: at_delim_def)

lemma toks_start:
  "\<exists>t ts. toks v = t # ts \<and> (\<forall>fs. jstep (WantElem fs) t = begin_value fs t)"
proof -
  obtain t ts where t: "toks v = t # ts" "t \<noteq> TArrEnd" by (cases v rule: toks.cases) simp_all
  have "jstep (WantElem fs) t = begin_value fs t" for fs
    using t(2) by (cases "(WantElem fs, t)" rule: jstep.cases) auto
  with t show ?thesis by blast
qed

lemma jrun_append: "jrun st (ts @ us) = (case jrun st ts of None \<Rightarrow> None | Some st' \<Rightarrow> jrun st' us)"
  by (induction ts arbitrary: st) (simp_all split: option.split)

text \<open>The rest of an array and of an object, after their first element.\<close>

lemma jrun_elems:
  assumes "\<And>x fs ts. x \<in> set xs \<Longrightarrow> length fs = n \<Longrightarrow> jrun (WantValue fs) (toks x @ ts) = jrun (Have (read_back x) fs) ts"
    "Suc (length fs) = n"
  shows "jrun (Have v (InArr acc # fs)) (concat (map (\<lambda>x. TComma # toks x) xs) @ TArrEnd # ts) =
     jrun (Have (JList (rev acc @ v # map read_back xs)) fs) ts"
  using assms(1)
proof (induction xs arbitrary: v acc)
  case (Cons x xs)
  then show ?case using assms(2) by simp
qed simp

lemma jrun_members:
  assumes "\<And>kv fs ts. kv \<in> set kvs \<Longrightarrow> length fs = n \<Longrightarrow> jrun (WantValue fs) (toks (snd kv) @ ts) = jrun (Have (read_back (snd kv)) fs) ts"
    "Suc (length fs) = n"
  shows "jrun (Have v (InObj acc k # fs)) (concat (map (\<lambda>kv. TComma # TStr (fst kv) # TColon # toks (snd kv)) kvs) @ TObjEnd # ts) =
     jrun (Have (JMap (rev acc @ (k, v) # map (\<lambda>kv. (fst kv, read_back (snd kv))) kvs)) fs) ts"
  using assms(1)
proof (induction kvs arbitrary: v acc k)
  case (Cons kv kvs)
  then show ?case using assms(2) by simp
qed simp

lemma jrun_WantElem: "jrun (WantElem fs) (toks v @ ts) = jrun (WantValue fs) (toks v @ ts)"
  using toks_start [of v] by auto

lemma jrun_toks:
  "nests (max_depth - length fs) v \<Longrightarrow> jrun (WantValue fs) (toks v @ ts) = jrun (Have (read_back v) fs) ts"
proof (induction v arbitrary: fs ts)
  case (JArr xs)
  have open_ok: "length fs < max_depth" using JArr.prems by auto
  show ?case
  proof (cases xs)
    case Nil
    then show ?thesis using open_ok by (simp add: begin_value_def)
  next
    case (Cons y ys)
    have each: "jrun (WantValue gs) (toks x @ us) = jrun (Have (read_back x) gs) us"
      if "x \<in> set xs" "length gs = Suc (length fs)" for x gs us
      using JArr.IH [OF that(1), of gs us] JArr.prems that by simp
    have "jrun (WantValue fs) (toks (JArr xs) @ ts) =
       jrun (WantElem (InArr [] # fs)) (toks y @ concat (map (\<lambda>x. TComma # toks x) ys) @ TArrEnd # ts)"
      using Cons open_ok by (simp add: begin_value_def)
    also have "\<dots> = jrun (Have (read_back y) (InArr [] # fs)) (concat (map (\<lambda>x. TComma # toks x) ys) @ TArrEnd # ts)"
      using each [of y "InArr [] # fs"] Cons by (simp add: jrun_WantElem)
    also have "\<dots> = jrun (Have (read_back (JArr xs)) fs) ts"
      using jrun_elems [of ys "Suc (length fs)" fs "read_back y" "[]" ts] each Cons by simp
    finally show ?thesis .
  qed
next
  case (JObj kvs)
  have open_ok: "length fs < max_depth" using JObj.prems by auto
  show ?case
  proof (cases kvs)
    case Nil
    then show ?thesis using open_ok by (simp add: begin_value_def)
  next
    case (Cons y ys)
    have each: "jrun (WantValue gs) (toks (snd kv) @ us) = jrun (Have (read_back (snd kv)) gs) us"
      if "kv \<in> set kvs" "length gs = Suc (length fs)" for kv gs us
      using JObj.IH [OF that(1), of "snd kv" gs us] JObj.prems that by (cases kv) (auto simp: snds.simps)
    have "jrun (WantValue fs) (toks (JObj kvs) @ ts) =
       jrun (WantValue (InObj [] (fst y) # fs)) (toks (snd y) @ concat (map (\<lambda>kv. TComma # TStr (fst kv) # TColon # toks (snd kv)) ys) @ TObjEnd # ts)"
      using Cons open_ok by (simp add: begin_value_def)
    also have "\<dots> = jrun (Have (read_back (snd y)) (InObj [] (fst y) # fs)) (concat (map (\<lambda>kv. TComma # TStr (fst kv) # TColon # toks (snd kv)) ys) @ TObjEnd # ts)"
      using each [of y "InObj [] (fst y) # fs"] Cons by simp
    also have "\<dots> = jrun (Have (read_back (JObj kvs)) fs) ts"
      using jrun_members [of ys "Suc (length fs)" fs "read_back (snd y)" "[]" "fst y" ts] each Cons by simp
    finally show ?thesis .
  qed
qed (simp_all add: begin_value_def)

lemma parse_encode:
  assumes "nests max_depth v"
  shows "parse_json (encode v) = Some (read_back v)"
  using jrun_toks [of "[]" v "[]"] assms by (simp add: parse_json_def tokens_encode_Nil)

lemma those_map: "(\<And>x. x \<in> set xs \<Longrightarrow> f x = Some (g x)) \<Longrightarrow> those (map f xs) = Some (map g xs)"
  by (induction xs) simp_all

lemma slice_of_read_back:
  "(\<And>x. x \<in> set xs \<Longrightarrow> elem (read_back (enc x)) = Some x) \<Longrightarrow> slice_of elem (read_back (JArr (map enc xs))) = Some xs"
  using those_map [of xs "elem \<circ> read_back \<circ> enc" id] by (simp add: slice_of_def comp_def)

end
