(* ===== verification/Approval_Ledger.thy ===== *)
theory Approval_Ledger
  imports Go_Values Go_Json_Read
begin

text \<open>
  The approval facts of a run, \<^verbatim>\<open>approvalFacts\<close> and its helpers in \<^verbatim>\<open>approvalpause/projection.go\<close>. A run
  entity carries the set of observed gates (pending), the set of answered gates, and the number
  outstanding. The entity is the framework's state, reduced to what is read. Whether a token is the
  canonical text of a UUID is decided by a package of its own and is an argument, \<open>uuid\<close>.

  A stored pair must decode, and be spelled as \<^verbatim>\<open>json.Marshal\<close> spells it. The three messages of
  \<^verbatim>\<open>validatePair\<close> are one error.
\<close>

section \<open>Pairs\<close>

definition pair_key :: "string \<Rightarrow> string \<Rightarrow> string" where
  "pair_key loopID executionID = encode (JArr [JStr loopID, JStr executionID])"

definition decode_pair :: "string \<Rightarrow> (string \<times> string) option" where
  "decode_pair value =
     (case parse_json value of
        None \<Rightarrow> None
      | Some v \<Rightarrow> (case slice_of string_of v of Some [x, y] \<Rightarrow> Some (x, y) | _ \<Rightarrow> None))"

definition validatePair :: "(string \<Rightarrow> bool) \<Rightarrow> string \<Rightarrow> bool" where
  "validatePair uuid value =
     (case decode_pair value of
        None \<Rightarrow> False
      | Some (l, e) \<Rightarrow> e \<noteq> [] \<and> uuid l \<and> pair_key l e = value)"

section \<open>approvalFacts\<close>

abbreviation MarkerApprovalPending :: string where "MarkerApprovalPending \<equiv> ''agent.run.approval-pending''"
abbreviation MarkerApprovalAnswered :: string where "MarkerApprovalAnswered \<equiv> ''agent.run.approval-answered''"
abbreviation MarkerApprovalOutstanding :: string where "MarkerApprovalOutstanding \<equiv> ''agent.run.approval-outstanding''"

definition approvalPredicates :: "string list" where
  "approvalPredicates = [MarkerApprovalPending, MarkerApprovalAnswered, MarkerApprovalOutstanding]"

record EntityState =
  es_ID :: string
  es_MessageType :: string
  es_Triples :: "triple list"

datatype facts_error =
    InvalidOutstanding
  | InvalidTuple
  | InvalidPair
  | DuplicateTuple
  | AnsweredNotPending
  | CountContradicts
  | NoOutstanding

type_synonym fact_map = "(string \<times> triple) list"

record facts_state =
  fs_pending :: fact_map
  fs_answered :: fact_map
  fs_count :: "triple option"

definition add_tuple :: "(string \<Rightarrow> bool) \<Rightarrow> string \<Rightarrow> fact_map \<Rightarrow> triple \<Rightarrow> facts_error + fact_map" where
  "add_tuple uuid ident target tr =
     (case Object tr of
        AnyStr value \<Rightarrow>
          if Subject tr \<noteq> ident then Inl InvalidTuple
          else if \<not> validatePair uuid value then Inl InvalidPair
          else if gm_get target value \<noteq> None then Inl DuplicateTuple
          else Inr (gm_put value tr target)
      | _ \<Rightarrow> Inl InvalidTuple)"

fun scan_facts :: "(string \<Rightarrow> bool) \<Rightarrow> string \<Rightarrow> facts_state \<Rightarrow> triple list \<Rightarrow> facts_error + facts_state" where
  "scan_facts uuid ident st [] = Inr st"
| "scan_facts uuid ident st (tr # trs) =
     (if Predicate tr = MarkerApprovalOutstanding then
        (if fs_count st \<noteq> None \<or> Subject tr \<noteq> ident then Inl InvalidOutstanding
         else scan_facts uuid ident (st\<lparr>fs_count := Some tr\<rparr>) trs)
      else if Predicate tr = MarkerApprovalPending then
        (case add_tuple uuid ident (fs_pending st) tr of
           Inl e \<Rightarrow> Inl e | Inr m \<Rightarrow> scan_facts uuid ident (st\<lparr>fs_pending := m\<rparr>) trs)
      else if Predicate tr = MarkerApprovalAnswered then
        (case add_tuple uuid ident (fs_answered st) tr of
           Inl e \<Rightarrow> Inl e | Inr m \<Rightarrow> scan_facts uuid ident (st\<lparr>fs_answered := m\<rparr>) trs)
      else scan_facts uuid ident st trs)"

definition countEquals :: "any \<Rightarrow> int \<Rightarrow> bool" where
  "countEquals v n = (case v of AnyInt i \<Rightarrow> i = n | AnyFloat x \<Rightarrow> x = of_int n | _ \<Rightarrow> False)"

abbreviation pauserSource :: string where "pauserSource \<equiv> ''approvalpause''"

definition makeFact :: "string \<Rightarrow> gotime \<Rightarrow> string \<Rightarrow> any \<Rightarrow> triple" where
  "makeFact ident now predicate obj =
     \<lparr>Subject = ident, Predicate = predicate, Object = obj, Source = pauserSource,
      Timestamp = now, Confidence = 1\<rparr>"

definition sorted_facts :: "fact_map \<Rightarrow> triple list" where
  "sorted_facts m = map (\<lambda>k. the (gm_get m k)) (sort (gm_keys m))"

definition start_facts :: facts_state where
  "start_facts = \<lparr>fs_pending = [], fs_answered = [], fs_count = None\<rparr>"

definition outstanding :: "facts_state \<Rightarrow> int" where
  "outstanding st = int (length (fs_pending st)) - int (length (fs_answered st))"

definition add_gate :: "string \<Rightarrow> gotime \<Rightarrow> string \<Rightarrow> bool \<Rightarrow> facts_state \<Rightarrow> facts_state" where
  "add_gate ident now key answer st =
     (let st1 = (if gm_get (fs_pending st) key = None
                 then st\<lparr>fs_pending := gm_put key (makeFact ident now MarkerApprovalPending (AnyStr key)) (fs_pending st)\<rparr>
                 else st)
      in if answer \<and> gm_get (fs_answered st) key = None
         then st1\<lparr>fs_answered := gm_put key (makeFact ident now MarkerApprovalAnswered (AnyStr key)) (fs_answered st1)\<rparr>
         else st1)"

definition approvalFacts :: "(string \<Rightarrow> bool) \<Rightarrow> EntityState \<Rightarrow> string \<Rightarrow> bool \<Rightarrow> gotime \<Rightarrow> facts_error + (triple list \<times> bool)" where
  "approvalFacts uuid entity key answer now =
     (case scan_facts uuid (es_ID entity) start_facts (es_Triples entity) of
        Inl e \<Rightarrow> Inl e
      | Inr st \<Rightarrow>
          if \<exists>v \<in> set (gm_keys (fs_answered st)). gm_get (fs_pending st) v = None then Inl AnsweredNotPending
          else (let previous = outstanding st in
            if (case fs_count st of Some c \<Rightarrow> \<not> countEquals (Object c) previous | None \<Rightarrow> False) then Inl CountContradicts
            else if fs_count st = None \<and> (fs_pending st \<noteq> [] \<or> fs_answered st \<noteq> []) then Inl NoOutstanding
            else (let already = gm_get (fs_answered st) key \<noteq> None;
                      st' = add_gate (es_ID entity) now key answer st;
                      count = outstanding st';
                      last = (case fs_count st of
                                Some c \<Rightarrow> if previous = count then c
                                          else makeFact (es_ID entity) now MarkerApprovalOutstanding (AnyInt count)
                              | None \<Rightarrow> makeFact (es_ID entity) now MarkerApprovalOutstanding (AnyInt count))
                  in Inr (sorted_facts (fs_pending st') @ sorted_facts (fs_answered st') @ [last], already))))"

definition sameApprovalFacts :: "(triple \<Rightarrow> string) \<Rightarrow> triple list \<Rightarrow> triple list \<Rightarrow> bool" where
  "sameApprovalFacts marshal desired actual =
     (let selected = filter (\<lambda>tr. Predicate tr = MarkerApprovalPending \<or> Predicate tr = MarkerApprovalAnswered \<or>
                                  Predicate tr = MarkerApprovalOutstanding) actual
      in sort (map marshal desired) = sort (map marshal selected))"

section \<open>Pairs round-trip\<close>

lemma decode_pair_key: "decode_pair (pair_key l e) = Some (l, e)"
  by (simp add: decode_pair_def pair_key_def parse_encode slice_of_def del: encode.simps)

lemma validatePair_iff: "validatePair uuid v \<longleftrightarrow> (\<exists>l e. v = pair_key l e \<and> e \<noteq> [] \<and> uuid l)"
  by (auto simp: validatePair_def decode_pair_key split: option.splits)

section \<open>Well-formed facts\<close>

definition fact_ok :: "(string \<Rightarrow> bool) \<Rightarrow> string \<Rightarrow> string \<Rightarrow> string \<times> triple \<Rightarrow> bool" where
  "fact_ok uuid ident p kt \<longleftrightarrow> Predicate (snd kt) = p \<and> Subject (snd kt) = ident \<and>
     Object (snd kt) = AnyStr (fst kt) \<and> validatePair uuid (fst kt)"

definition map_ok :: "(string \<Rightarrow> bool) \<Rightarrow> string \<Rightarrow> string \<Rightarrow> fact_map \<Rightarrow> bool" where
  "map_ok uuid ident p m \<longleftrightarrow> distinct (gm_keys m) \<and> (\<forall>kt \<in> set m. fact_ok uuid ident p kt)"

definition state_ok :: "(string \<Rightarrow> bool) \<Rightarrow> string \<Rightarrow> facts_state \<Rightarrow> bool" where
  "state_ok uuid ident st \<longleftrightarrow> map_ok uuid ident MarkerApprovalPending (fs_pending st) \<and>
     map_ok uuid ident MarkerApprovalAnswered (fs_answered st) \<and>
     (\<forall>c. fs_count st = Some c \<longrightarrow> Predicate c = MarkerApprovalOutstanding \<and> Subject c = ident)"

lemma gm_put_fresh: "k \<notin> set (gm_keys m) \<Longrightarrow> gm_put k v m = m @ [(k, v)]"
  by (induction m) auto

lemma gm_get_None: "gm_get m k = None \<longleftrightarrow> k \<notin> set (gm_keys m)"
  by (simp add: map_of_eq_None_iff)

lemma map_ok_put: "map_ok uuid ident p m \<Longrightarrow> gm_get m k = None \<Longrightarrow> fact_ok uuid ident p (k, t) \<Longrightarrow> map_ok uuid ident p (gm_put k t m)"
  by (simp add: gm_get_None gm_put_fresh map_ok_def)

lemma add_tuple_ok:
  assumes "map_ok uuid ident (Predicate tr) m" "add_tuple uuid ident m tr = Inr m'"
  shows "map_ok uuid ident (Predicate tr) m'"
  using assms
  by (cases "Object tr") (auto simp: add_tuple_def fact_ok_def intro!: map_ok_put split: if_splits)

lemma scan_facts_ok:
  "state_ok uuid ident st \<Longrightarrow> scan_facts uuid ident st trs = Inr st' \<Longrightarrow> state_ok uuid ident st'"
proof (induction trs arbitrary: st)
  case (Cons tr trs)
  consider "Predicate tr = MarkerApprovalOutstanding" | "Predicate tr = MarkerApprovalPending"
    | "Predicate tr = MarkerApprovalAnswered"
    | "Predicate tr \<notin> {MarkerApprovalOutstanding, MarkerApprovalPending, MarkerApprovalAnswered}" by blast
  then show ?case
  proof cases
    case 1
    have "state_ok uuid ident (st\<lparr>fs_count := Some tr\<rparr>)" if "Subject tr = ident"
      using Cons.prems(1) 1 that by (simp add: state_ok_def)
    with Cons 1 show ?thesis by (auto split: if_splits)
  next
    case 2
    with Cons.prems obtain m where m: "add_tuple uuid ident (fs_pending st) tr = Inr m"
      "scan_facts uuid ident (st\<lparr>fs_pending := m\<rparr>) trs = Inr st'" by (auto split: sum.splits)
    then have "state_ok uuid ident (st\<lparr>fs_pending := m\<rparr>)"
      using add_tuple_ok [OF _ m(1)] Cons.prems(1) 2 by (simp add: state_ok_def)
    then show ?thesis using Cons.IH m(2) by blast
  next
    case 3
    with Cons.prems obtain m where m: "add_tuple uuid ident (fs_answered st) tr = Inr m"
      "scan_facts uuid ident (st\<lparr>fs_answered := m\<rparr>) trs = Inr st'" by (auto split: sum.splits)
    then have "state_ok uuid ident (st\<lparr>fs_answered := m\<rparr>)"
      using add_tuple_ok [OF _ m(1)] Cons.prems(1) 3 by (simp add: state_ok_def)
    then show ?thesis using Cons.IH m(2) by blast
  next
    case 4
    with Cons show ?thesis by auto
  qed
qed simp

lemma start_facts_ok: "state_ok uuid ident start_facts"
  by (simp add: state_ok_def start_facts_def map_ok_def)

section \<open>Scanning what was written\<close>

lemma scan_facts_skip:
  "\<forall>tr \<in> set trs. Predicate tr \<notin> set approvalPredicates \<Longrightarrow> scan_facts uuid ident st (trs @ rest) = scan_facts uuid ident st rest"
  by (induction trs) (auto simp: approvalPredicates_def)

lemma add_tuple_fresh:
  "fact_ok uuid ident p (k, t) \<Longrightarrow> k \<notin> set (gm_keys m) \<Longrightarrow> add_tuple uuid ident m t = Inr (m @ [(k, t)])"
  by (simp add: add_tuple_def fact_ok_def gm_get_None gm_put_fresh)

lemma scan_pending:
  "\<forall>kt \<in> set m. fact_ok uuid ident MarkerApprovalPending kt \<Longrightarrow> distinct (gm_keys (fs_pending st @ m)) \<Longrightarrow>
   scan_facts uuid ident st (map snd m @ rest) = scan_facts uuid ident (st\<lparr>fs_pending := fs_pending st @ m\<rparr>) rest"
proof (induction m arbitrary: st)
  case (Cons kt m)
  obtain k t where kt: "kt = (k, t)" by fastforce
  have "add_tuple uuid ident (fs_pending st) t = Inr (fs_pending st @ [(k, t)])"
    using Cons.prems kt by (intro add_tuple_fresh) auto
  moreover have "Predicate t = MarkerApprovalPending" using Cons.prems kt by (simp add: fact_ok_def)
  ultimately have "scan_facts uuid ident st (map snd (kt # m) @ rest) =
      scan_facts uuid ident (st\<lparr>fs_pending := fs_pending st @ [(k, t)]\<rparr>) (map snd m @ rest)"
    by (simp add: kt)
  also have "\<dots> = scan_facts uuid ident (st\<lparr>fs_pending := fs_pending st @ kt # m\<rparr>) rest"
    using Cons.prems kt Cons.IH [of "st\<lparr>fs_pending := fs_pending st @ [(k, t)]\<rparr>"] by simp
  finally show ?case .
qed simp

lemma scan_answered:
  "\<forall>kt \<in> set m. fact_ok uuid ident MarkerApprovalAnswered kt \<Longrightarrow> distinct (gm_keys (fs_answered st @ m)) \<Longrightarrow>
   scan_facts uuid ident st (map snd m @ rest) = scan_facts uuid ident (st\<lparr>fs_answered := fs_answered st @ m\<rparr>) rest"
proof (induction m arbitrary: st)
  case (Cons kt m)
  obtain k t where kt: "kt = (k, t)" by fastforce
  have "add_tuple uuid ident (fs_answered st) t = Inr (fs_answered st @ [(k, t)])"
    using Cons.prems kt by (intro add_tuple_fresh) auto
  moreover have "Predicate t = MarkerApprovalAnswered" using Cons.prems kt by (simp add: fact_ok_def)
  ultimately have "scan_facts uuid ident st (map snd (kt # m) @ rest) =
      scan_facts uuid ident (st\<lparr>fs_answered := fs_answered st @ [(k, t)]\<rparr>) (map snd m @ rest)"
    by (simp add: kt)
  also have "\<dots> = scan_facts uuid ident (st\<lparr>fs_answered := fs_answered st @ kt # m\<rparr>) rest"
    using Cons.prems kt Cons.IH [of "st\<lparr>fs_answered := fs_answered st @ [(k, t)]\<rparr>"] by simp
  finally show ?case .
qed simp

definition sorted_map :: "fact_map \<Rightarrow> fact_map" where
  "sorted_map m = map (\<lambda>k. (k, the (gm_get m k))) (sort (gm_keys m))"

lemma sorted_facts_map: "sorted_facts m = map snd (sorted_map m)"
  by (simp add: sorted_facts_def sorted_map_def comp_def)

lemma gm_keys_sorted_map [simp]: "gm_keys (sorted_map m) = sort (gm_keys m)"
  by (simp add: sorted_map_def comp_def)

lemma length_sorted_map [simp]: "length (sorted_map m) = length m"
  by (simp add: sorted_map_def)

lemma map_ok_sorted: "map_ok uuid ident p m \<Longrightarrow> map_ok uuid ident p (sorted_map m)"
  by (auto simp: map_ok_def sorted_map_def comp_def)

lemma scan_written:
  assumes "map_ok uuid ident MarkerApprovalPending P" "map_ok uuid ident MarkerApprovalAnswered A"
    "Predicate c = MarkerApprovalOutstanding" "Subject c = ident"
    "\<forall>tr \<in> set others. Predicate tr \<notin> set approvalPredicates"
  shows "scan_facts uuid ident start_facts (others @ sorted_facts P @ sorted_facts A @ [c]) =
     Inr \<lparr>fs_pending = sorted_map P, fs_answered = sorted_map A, fs_count = Some c\<rparr>"
  using map_ok_sorted [OF assms(1)] map_ok_sorted [OF assms(2)] assms(3-5)
  by (simp add: scan_facts_skip sorted_facts_map scan_pending scan_answered start_facts_def map_ok_def)

section \<open>The abstract ledger\<close>

text \<open>
  The specification: a ledger is the set of observed gates and the set of answered ones. Observing
  a gate adds it to the first, answering adds it to both.
\<close>

record ledger =
  lg_pending :: "string set"
  lg_answered :: "string set"

definition ledger_step :: "string \<Rightarrow> bool \<Rightarrow> ledger \<Rightarrow> ledger" where
  "ledger_step key answer l = \<lparr>lg_pending = insert key (lg_pending l),
     lg_answered = (if answer then insert key (lg_answered l) else lg_answered l)\<rparr>"

definition consistent :: "facts_state \<Rightarrow> bool" where
  "consistent st \<longleftrightarrow> set (gm_keys (fs_answered st)) \<subseteq> set (gm_keys (fs_pending st)) \<and>
     (case fs_count st of Some c \<Rightarrow> countEquals (Object c) (outstanding st)
      | None \<Rightarrow> fs_pending st = [] \<and> fs_answered st = [])"

definition state_ledger :: "facts_state \<Rightarrow> ledger" where
  "state_ledger st = \<lparr>lg_pending = set (gm_keys (fs_pending st)), lg_answered = set (gm_keys (fs_answered st))\<rparr>"

text \<open>The ledger a run entity stores, if its approval facts are well formed.\<close>

definition ledger_of :: "(string \<Rightarrow> bool) \<Rightarrow> EntityState \<Rightarrow> ledger option" where
  "ledger_of uuid e = (case scan_facts uuid (es_ID e) start_facts (es_Triples e) of
      Inl _ \<Rightarrow> None | Inr st \<Rightarrow> if consistent st then Some (state_ledger st) else None)"

text \<open>What the graph's owner does with a reconcile request: the listed predicates are replaced.\<close>

definition reconcile :: "EntityState \<Rightarrow> triple list \<Rightarrow> EntityState" where
  "reconcile e desired = e\<lparr>es_Triples :=
     filter (\<lambda>tr. Predicate tr \<notin> set approvalPredicates) (es_Triples e) @ desired\<rparr>"

lemma approvalFacts_state:
  assumes "scan_facts uuid (es_ID e) start_facts (es_Triples e) = Inr st"
  shows "(\<exists>x. approvalFacts uuid e key answer now = Inr x) \<longleftrightarrow> consistent st"
  using assms by (auto simp: approvalFacts_def consistent_def Let_def gm_get_None split: option.splits)

text \<open>The count fact a successful computation ends with.\<close>

definition count_fact :: "string \<Rightarrow> gotime \<Rightarrow> facts_state \<Rightarrow> facts_state \<Rightarrow> triple" where
  "count_fact ident now st st' = (case fs_count st of
      Some c \<Rightarrow> if outstanding st = outstanding st' then c
                else makeFact ident now MarkerApprovalOutstanding (AnyInt (outstanding st'))
    | None \<Rightarrow> makeFact ident now MarkerApprovalOutstanding (AnyInt (outstanding st')))"

lemma approvalFacts_consistent:
  assumes "scan_facts uuid (es_ID e) start_facts (es_Triples e) = Inr st" "consistent st"
  shows "approvalFacts uuid e key answer now =
     (let st' = add_gate (es_ID e) now key answer st in
      Inr (sorted_facts (fs_pending st') @ sorted_facts (fs_answered st') @ [count_fact (es_ID e) now st st'],
           key \<in> set (gm_keys (fs_answered st))))"
proof -
  have "\<not> (\<exists>v \<in> set (gm_keys (fs_answered st)). gm_get (fs_pending st) v = None)"
    using assms(2) by (auto simp: consistent_def gm_get_None)
  moreover have "gm_get (fs_answered st) key \<noteq> None \<longleftrightarrow> key \<in> set (gm_keys (fs_answered st))"
    by (simp only: gm_get_None) simp
  ultimately show ?thesis
    using assms unfolding approvalFacts_def assms(1)
    by (auto simp: consistent_def count_fact_def Let_def split: option.splits)
qed

lemma add_gate_ok:
  assumes "state_ok uuid ident st" "validatePair uuid key"
  shows "map_ok uuid ident MarkerApprovalPending (fs_pending (add_gate ident now key answer st))"
    "map_ok uuid ident MarkerApprovalAnswered (fs_answered (add_gate ident now key answer st))"
  using assms
  by (auto simp: add_gate_def state_ok_def Let_def fact_ok_def makeFact_def intro!: map_ok_put)

lemma add_gate_keys:
  "set (gm_keys (fs_pending (add_gate ident now key answer st))) = insert key (set (gm_keys (fs_pending st)))"
  "set (gm_keys (fs_answered (add_gate ident now key answer st))) =
     (if answer then insert key (set (gm_keys (fs_answered st))) else set (gm_keys (fs_answered st)))"
  using set_gm_keys_put [where m = "fs_pending st" and k = key] set_gm_keys_put [where m = "fs_answered st" and k = key]
    gm_get_None [of "fs_pending st" key] gm_get_None [of "fs_answered st" key]
  by (auto simp: add_gate_def Let_def simp del: set_map)

lemma count_fact_ok:
  assumes "state_ok uuid ident st" "consistent st"
  shows "Predicate (count_fact ident now st st') = MarkerApprovalOutstanding \<and> Subject (count_fact ident now st st') = ident \<and>
     countEquals (Object (count_fact ident now st st')) (outstanding st')"
proof -
  have made: "countEquals (AnyInt n) n" for n by (simp add: countEquals_def)
  show ?thesis
  proof (cases "fs_count st")
    case None
    then show ?thesis by (simp add: count_fact_def makeFact_def made)
  next
    case (Some c)
    then have "Predicate c = MarkerApprovalOutstanding" "Subject c = ident" "countEquals (Object c) (outstanding st)"
      using assms by (simp_all add: state_ok_def consistent_def)
    with Some show ?thesis
      by (cases "outstanding st = outstanding st'") (simp_all add: count_fact_def makeFact_def made)
  qed
qed

lemma approvalFacts_step:
  assumes "ledger_of uuid e = Some l" "validatePair uuid key"
  shows "\<exists>desired. approvalFacts uuid e key answer now = Inr (desired, key \<in> lg_answered l) \<and>
     ledger_of uuid (reconcile e desired) = Some (ledger_step key answer l)"
proof -
  obtain st where st: "scan_facts uuid (es_ID e) start_facts (es_Triples e) = Inr st" "consistent st" "l = state_ledger st"
    using assms(1) by (auto simp: ledger_of_def split: sum.splits if_splits)
  note ok = scan_facts_ok [OF start_facts_ok st(1)]
  define st' where "st' = add_gate (es_ID e) now key answer st"
  define c where "c = count_fact (es_ID e) now st st'"
  define desired where "desired = sorted_facts (fs_pending st') @ sorted_facts (fs_answered st') @ [c]"
  have facts: "approvalFacts uuid e key answer now = Inr (desired, key \<in> lg_answered l)"
    using approvalFacts_consistent [OF st(1,2)] by (simp add: desired_def c_def st'_def st(3) state_ledger_def Let_def)
  note c_ok = count_fact_ok [OF ok st(2), of now st', folded c_def]
  have scan: "scan_facts uuid (es_ID e) start_facts (es_Triples (reconcile e desired)) =
      Inr \<lparr>fs_pending = sorted_map (fs_pending st'), fs_answered = sorted_map (fs_answered st'), fs_count = Some c\<rparr>"
    unfolding reconcile_def desired_def using add_gate_ok [OF ok assms(2)] c_ok
    by (simp add: scan_written st'_def)
  have "set (gm_keys (fs_answered st')) \<subseteq> set (gm_keys (fs_pending st'))"
    using st(2) unfolding st'_def add_gate_keys consistent_def by (auto simp del: set_map)
  then have "ledger_of uuid (reconcile e desired) = Some (ledger_step key answer l)"
    using scan c_ok add_gate_keys [of "es_ID e" now key answer st]
    by (simp add: ledger_of_def consistent_def outstanding_def state_ledger_def ledger_step_def st(3) st'_def reconcile_def)
  with facts show ?thesis by blast
qed

lemma ledger_of_subset: "ledger_of uuid e = Some l \<Longrightarrow> lg_answered l \<subseteq> lg_pending l \<and> finite (lg_pending l)"
  by (auto simp: ledger_of_def state_ledger_def consistent_def simp del: set_map split: sum.splits if_splits)

lemma approvalFacts_ok_iff: "(\<exists>x. approvalFacts uuid e key answer now = Inr x) \<longleftrightarrow> ledger_of uuid e \<noteq> None"
proof (cases "scan_facts uuid (es_ID e) start_facts (es_Triples e)")
  case (Inl err)
  then show ?thesis by (simp add: approvalFacts_def ledger_of_def)
next
  case (Inr st)
  then show ?thesis using approvalFacts_state [OF Inr] by (simp add: ledger_of_def)
qed

lemma approvalFacts_count:
  assumes "ledger_of uuid e = Some l" "validatePair uuid key" "approvalFacts uuid e key answer now = Inr (desired, already)"
  shows "Predicate (last desired) = MarkerApprovalOutstanding \<and>
     countEquals (Object (last desired))
       (int (card (lg_pending (ledger_step key answer l))) - int (card (lg_answered (ledger_step key answer l))))"
proof -
  obtain st where st: "scan_facts uuid (es_ID e) start_facts (es_Triples e) = Inr st" "consistent st" "l = state_ledger st"
    using assms(1) by (auto simp: ledger_of_def split: sum.splits if_splits)
  note ok = scan_facts_ok [OF start_facts_ok st(1)]
  let ?st = "add_gate (es_ID e) now key answer st"
  have last: "last desired = count_fact (es_ID e) now st ?st"
    using assms(3) approvalFacts_consistent [OF st(1,2), of key answer now] by (simp add: Let_def) auto
  have len: "int (length m) = int (card (set (gm_keys m)))" if "map_ok uuid i p m" for i p m
    using that by (metis distinct_card length_map map_ok_def)
  have "outstanding ?st = int (card (set (gm_keys (fs_pending ?st)))) - int (card (set (gm_keys (fs_answered ?st))))"
    unfolding outstanding_def using add_gate_ok [OF ok assms(2), THEN len] by simp
  then show ?thesis
    using count_fact_ok [OF ok st(2), of now ?st]
    unfolding last st(3) ledger_step_def state_ledger_def add_gate_keys by (cases answer) (simp_all del: set_map)
qed

text \<open>
  C3. \<^verbatim>\<open>approvalFacts\<close> implements the ledger: on a run whose stored facts are well formed it succeeds and
  the facts it asks for, once reconciled, are well formed again and store exactly the next ledger,
  with the gate observed and, for an answer, also answered; it reports whether the gate had been
  answered before; and the count it stores is the number of observed gates not yet answered. On a
  run whose facts are not well formed it fails, for every gate.
\<close>

theorem approvalFacts_refines:
  assumes "validatePair uuid key"
  shows "(\<forall>l. ledger_of uuid e = Some l \<longrightarrow> (\<exists>desired.
      approvalFacts uuid e key answer now = Inr (desired, key \<in> lg_answered l) \<and>
      ledger_of uuid (reconcile e desired) = Some (ledger_step key answer l) \<and>
      Predicate (last desired) = MarkerApprovalOutstanding \<and>
      countEquals (Object (last desired)) (int (card (lg_pending (ledger_step key answer l) - lg_answered (ledger_step key answer l)))))) \<and>
    (ledger_of uuid e = None \<longrightarrow> (\<exists>err. approvalFacts uuid e key answer now = Inl err))"
proof (intro conjI allI impI)
  fix l assume l: "ledger_of uuid e = Some l"
  from approvalFacts_step [OF this assms, of answer now] obtain desired where
    d: "approvalFacts uuid e key answer now = Inr (desired, key \<in> lg_answered l)"
      "ledger_of uuid (reconcile e desired) = Some (ledger_step key answer l)" by blast
  have "int (card (P - A)) = int (card P) - int (card A)" if "A \<subseteq> P" "finite P" for A P :: "string set"
    using that finite_subset [OF that] by (simp add: card_Diff_subset card_mono of_nat_diff)
  then show "\<exists>desired. approvalFacts uuid e key answer now = Inr (desired, key \<in> lg_answered l) \<and>
      ledger_of uuid (reconcile e desired) = Some (ledger_step key answer l) \<and>
      Predicate (last desired) = MarkerApprovalOutstanding \<and>
      countEquals (Object (last desired)) (int (card (lg_pending (ledger_step key answer l) - lg_answered (ledger_step key answer l))))"
    using d approvalFacts_count [OF l assms d(1)] ledger_of_subset [OF d(2)] by auto
next
  assume "ledger_of uuid e = None"
  then show "\<exists>err. approvalFacts uuid e key answer now = Inl err"
    using approvalFacts_ok_iff [of uuid e key answer now] by (cases "approvalFacts uuid e key answer now") auto
qed

section \<open>Order and repetition of events do not matter\<close>

text \<open>
  Any store of a ledger that takes events one at a time and steps as the specification does ends
  with a ledger that depends on the set of events alone.
\<close>

locale gate_store =
  fixes record_event :: "string \<times> bool \<times> gotime \<Rightarrow> 's \<Rightarrow> 's" and abs :: "'s \<Rightarrow> ledger option"
    and valid :: "string \<Rightarrow> bool"
  assumes record_step: "abs s = Some l \<Longrightarrow> valid k \<Longrightarrow> abs (record_event (k, a, t) s) = Some (ledger_step k a l)"
begin

lemma fold_events:
  assumes "abs s = Some l" "\<forall>ev \<in> set evs. valid (fst ev)"
  shows "abs (fold record_event evs s) = Some \<lparr>lg_pending = lg_pending l \<union> fst ` set evs,
     lg_answered = lg_answered l \<union> fst ` {ev \<in> set evs. fst (snd ev)}\<rparr>"
  using assms
proof (induction evs arbitrary: s l)
  case (Cons ev evs)
  obtain k a t where ev: "ev = (k, a, t)" by (cases ev)
  have "abs (record_event ev s) = Some (ledger_step k a l)"
    using Cons.prems ev record_step by simp
  from Cons.IH [OF this] Cons.prems(2) have "abs (fold record_event (ev # evs) s) =
      Some \<lparr>lg_pending = lg_pending (ledger_step k a l) \<union> fst ` set evs,
        lg_answered = lg_answered (ledger_step k a l) \<union> fst ` {ev \<in> set evs. fst (snd ev)}\<rparr>" by simp
  moreover have "{x \<in> set (ev # evs). fst (snd x)} = (if a then insert ev {x \<in> set evs. fst (snd x)} else {x \<in> set evs. fst (snd x)})"
    using ev by auto
  ultimately show ?case using ev by (auto simp: ledger_step_def)
qed simp

end

definition record_gate :: "(string \<Rightarrow> bool) \<Rightarrow> string \<times> bool \<times> gotime \<Rightarrow> EntityState \<Rightarrow> EntityState" where
  "record_gate uuid ev e = (case approvalFacts uuid e (fst ev) (fst (snd ev)) (snd (snd ev)) of
      Inr (desired, _) \<Rightarrow> reconcile e desired | Inl _ \<Rightarrow> e)"

interpretation gates: gate_store "record_gate uuid" "ledger_of uuid" "validatePair uuid" for uuid
proof
  fix s l k a t
  assume "ledger_of uuid s = Some l" "validatePair uuid k"
  from approvalFacts_step [OF this, of a t] show "ledger_of uuid (record_gate uuid (k, a, t) s) = Some (ledger_step k a l)"
    by (auto simp: record_gate_def)
qed

text \<open>
  C33. Whatever the order in which pending and response events of a run arrive, and however often each is
  delivered, an answer before its gate included, the run's facts stay well formed and end with the
  same ledger: every gate of an event observed, every gate with a response answered, and nothing
  else changed. In particular every answered gate is observed.
\<close>

theorem approval_events_converge:
  assumes "ledger_of uuid e = Some l" "\<forall>ev \<in> set evs. validatePair uuid (fst ev)"
  shows "ledger_of uuid (fold (record_gate uuid) evs e) = Some \<lparr>lg_pending = lg_pending l \<union> fst ` set evs,
     lg_answered = lg_answered l \<union> fst ` {ev \<in> set evs. fst (snd ev)}\<rparr>"
  by (rule gates.fold_events [OF assms])

section \<open>Witnesses\<close>

definition sample_uuid :: "string \<Rightarrow> bool" where
  "sample_uuid s \<longleftrightarrow> length s = 36"

definition sample_key :: string where
  "sample_key = pair_key ''0f8fad5b-d9cb-469f-a165-70867728950e'' ''exec-1''"

definition sample_run :: EntityState where
  "sample_run = \<lparr>es_ID = ''acme.p.chain.agent.execution.r1'', es_MessageType = ''run'', es_Triples = []\<rparr>"

lemma sample_key_valid: "validatePair sample_uuid sample_key"
  unfolding validatePair_iff sample_key_def sample_uuid_def by (intro exI conjI, rule refl) simp_all

lemma sample_run_ledger: "ledger_of sample_uuid sample_run = Some \<lparr>lg_pending = {}, lg_answered = {}\<rparr>"
  by (simp add: ledger_of_def sample_run_def start_facts_def consistent_def state_ledger_def)

theorem approvalFacts_refines_witness:
  "\<exists>desired. approvalFacts sample_uuid sample_run sample_key True (mk_utc 1) = Inr (desired, False)"
  using approvalFacts_refines [OF sample_key_valid, of sample_run True "mk_utc 1"] sample_run_ledger by auto

theorem approval_events_converge_witness:
  "ledger_of sample_uuid (fold (record_gate sample_uuid) [(sample_key, True, mk_utc 1), (sample_key, False, mk_utc 2)] sample_run) =
     Some \<lparr>lg_pending = {sample_key}, lg_answered = {sample_key}\<rparr>"
proof -
  have "{ev \<in> set [(sample_key, True, mk_utc 1), (sample_key, False, mk_utc 2)]. fst (snd ev)} = {(sample_key, True, mk_utc 1)}"
    by auto
  then show ?thesis
    using approval_events_converge [OF sample_run_ledger, of "[(sample_key, True, mk_utc 1), (sample_key, False, mk_utc 2)]"]
      sample_key_valid by simp
qed

end
