(* ===== verification/Approval_Projection.thy ===== *)
theory Approval_Projection
  imports Approval_Ledger
begin

text \<open>
  Recording an approval event on a run: \<^verbatim>\<open>NATSProjection.RecordApproval\<close> (\<^verbatim>\<open>approvalpause/projection.go\<close>),
  the \<^verbatim>\<open>Pauser\<close> above it (\<^verbatim>\<open>pauser.go\<close>) and the message handlers of the subscriber (\<^verbatim>\<open>subscriber.go\<close>).

  The graph owner is reached over the network, so its two operations are functions on an arbitrary
  world \<open>'w\<close>: an exact read and a classified request. The context is a function of the world too,
  since it may expire between any two calls, and the derived context of the call fails when either
  its parent or the deadline does. \<^verbatim>\<open>time.Now\<close> and \<^verbatim>\<open>uuid.NewString\<close> are the arguments \<open>now\<close> and
  \<open>requestID\<close>. Logging is left out; a handler returns the line it would log, as a constructor.
\<close>

section \<open>Types\<close>

record EntityID =
  ei_Org :: string
  ei_Platform :: string
  ei_System :: string
  ei_Domain :: string
  ei_Type :: string

text \<open>An exact read: the entity pointer and its revision.\<close>

record exact_entity =
  ex_Entity :: "EntityState option"
  ex_KVRevision :: nat

record ReconcileRequest =
  rr_EntityID :: string
  rr_ExpectedRevision :: nat
  rr_Predicates :: "string list"
  rr_Desired :: "triple list"
  rr_RequestID :: string

datatype MutationOutcome = MutationApplied | MutationUnchanged | MutationOther string

record ReconcileResponse =
  rs_Outcome :: MutationOutcome
  rs_KVRevision :: nat
  rs_RequestID :: string
  rs_Entity :: "EntityState option"

text \<open>The error classes of the framework that the code distinguishes.\<close>

datatype error_class = ErrorTransient | ErrorInvalid | ErrorFatal

record request_error =
  re_msg :: string
  re_RevisionMismatch :: bool
  re_Classified :: "(error_class \<times> string) option"
  re_NoResponders :: bool

datatype request_reply = GarbledReply string | Reply ReconcileResponse

datatype MutationKind = MutationCommitUnknown | MutationUnavailable | MutationInvalid | MutationInternal
datatype Commit = CommitUnknown | CommitNotCommitted

record MutationError =
  me_Kind :: MutationKind
  me_Commit :: Commit
  me_Class :: "error_class option"
  me_Code :: string
  me_Err :: string

datatype projection_error =
    NilContext
  | ContextErr string
  | RunIdentity string
  | OutsideContract string
  | BadPair
  | ReadFailed string
  | NoExactRevision
  | EntityMismatch
  | BadFacts facts_error
  | EncodeFailed string
  | Mutation MutationError
  | ConflictAfterAttempts

abbreviation maxProjectionAttempts :: nat where "maxProjectionAttempts \<equiv> 8"

text \<open>
  The projection with the framework functions it calls: the exact reader, the requester, the entity-id
  parser, the classifier of errors, the message type of runs, the encodings of a request (which may
  fail) and of a triple, the deadline, and the test for a canonical UUID.
\<close>

record 'w NATSProjection =
  pj_ReadExactEntity :: "'w \<Rightarrow> string \<Rightarrow> (string + exact_entity option) \<times> 'w"
  pj_RequestClassified :: "'w \<Rightarrow> ReconcileRequest \<Rightarrow> (request_error + request_reply) \<times> 'w"
  pj_ParseEntityID :: "string \<Rightarrow> string + EntityID"
  pj_Classify :: "string \<Rightarrow> error_class"
  pj_HarnessMessageType :: string
  pj_EncodeErr :: "ReconcileRequest \<Rightarrow> string option"
  pj_Marshal :: "triple \<Rightarrow> string"
  pj_Expired :: "'w \<Rightarrow> string option"
  pj_uuid :: "string \<Rightarrow> bool"
  pj_org :: string
  pj_platform :: string

type_synonym 'w ctx = "'w \<Rightarrow> string option"

section \<open>RecordApproval\<close>

definition validateRun :: "'w NATSProjection \<Rightarrow> string \<Rightarrow> projection_error option" where
  "validateRun p ident =
     (case pj_ParseEntityID p ident of
        Inl e \<Rightarrow> Some (RunIdentity e)
      | Inr parsed \<Rightarrow>
          if ei_Org parsed \<noteq> pj_org p \<or> ei_Platform parsed \<noteq> pj_platform p \<or> ei_System parsed \<noteq> ''chain'' \<or>
             ei_Domain parsed \<noteq> ''agent'' \<or> ei_Type parsed \<noteq> ''execution''
          then Some (OutsideContract ident) else None)"

definition validateEntity :: "'w NATSProjection \<Rightarrow> EntityState option \<Rightarrow> string \<Rightarrow> bool" where
  "validateEntity p entity ident =
     (case entity of None \<Rightarrow> False
      | Some e \<Rightarrow> es_ID e = ident \<and> es_MessageType e = pj_HarnessMessageType p)"

definition unknownProjection :: "string \<Rightarrow> projection_error" where
  "unknownProjection err = Mutation \<lparr>me_Kind = MutationCommitUnknown, me_Commit = CommitUnknown,
     me_Class = None, me_Code = [], me_Err = err\<rparr>"

definition refusedProjection :: "'w NATSProjection \<Rightarrow> string \<Rightarrow> (error_class \<times> string) option \<Rightarrow> projection_error" where
  "refusedProjection p err classified =
     (let failure = \<lparr>me_Kind = MutationUnavailable, me_Commit = CommitNotCommitted,
                     me_Class = Some (pj_Classify p err), me_Code = [], me_Err = err\<rparr>
      in Mutation (case classified of
           None \<Rightarrow> failure
         | Some (cls, code) \<Rightarrow>
             failure\<lparr>me_Class := Some cls, me_Code := code,
               me_Kind := (case cls of ErrorInvalid \<Rightarrow> MutationInvalid | ErrorFatal \<Rightarrow> MutationInternal
                           | ErrorTransient \<Rightarrow> MutationUnavailable)\<rparr>))"

text \<open>The error a failed request ends with when it is not a revision mismatch.\<close>

definition request_failure :: "'w NATSProjection \<Rightarrow> request_error \<Rightarrow> projection_error" where
  "request_failure p err =
     (if re_Classified err \<noteq> None \<or> re_NoResponders err then refusedProjection p (re_msg err) (re_Classified err)
      else unknownProjection (re_msg err))"

text \<open>The receipt of a request that was answered.\<close>

definition check_receipt :: "'w NATSProjection \<Rightarrow> string \<Rightarrow> nat \<Rightarrow> string \<Rightarrow> triple list \<Rightarrow> bool \<Rightarrow> request_reply \<Rightarrow> projection_error + bool" where
  "check_receipt p runID revision requestID desired already reply =
     (case reply of
        GarbledReply e \<Rightarrow> Inl (unknownProjection e)
      | Reply response \<Rightarrow>
          (let validRevision = (rs_Outcome response = MutationApplied \<and> rs_KVRevision response > revision) \<or>
                               (rs_Outcome response = MutationUnchanged \<and> rs_KVRevision response = revision)
           in if \<not> validRevision \<or> rs_RequestID response \<noteq> requestID
              then Inl (unknownProjection ''invalid approval mutation receipt'')
              else if \<not> validateEntity p (rs_Entity response) runID
              then Inl (unknownProjection ''approval exact entity identity/type mismatch'')
              else if \<not> sameApprovalFacts (pj_Marshal p) desired (es_Triples (the (rs_Entity response)))
              then Inl (unknownProjection ''approval mutation receipt differs from desired facts'')
              else Inr already))"

definition reconcile_request :: "string \<Rightarrow> nat \<Rightarrow> triple list \<Rightarrow> string \<Rightarrow> ReconcileRequest" where
  "reconcile_request runID revision desired requestID =
     \<lparr>rr_EntityID = runID, rr_ExpectedRevision = revision, rr_Predicates = approvalPredicates,
      rr_Desired = desired, rr_RequestID = requestID\<rparr>"

text \<open>The retry loop, with the number of attempts left.\<close>

fun record_loop :: "'w NATSProjection \<Rightarrow> 'w ctx \<Rightarrow> string \<Rightarrow> string \<Rightarrow> bool \<Rightarrow> gotime \<Rightarrow> string \<Rightarrow> nat \<Rightarrow> 'w \<Rightarrow> (projection_error + bool) \<times> 'w" where
  "record_loop p ctx runID key answered now requestID 0 w = (Inl ConflictAfterAttempts, w)"
| "record_loop p ctx runID key answered now requestID (Suc n) w =
     (case ctx w of
        Some e \<Rightarrow> (Inl (ContextErr e), w)
      | None \<Rightarrow>
     (case pj_ReadExactEntity p w runID of
        (Inl e, w1) \<Rightarrow> (Inl (ReadFailed e), w1)
      | (Inr None, w1) \<Rightarrow> (Inl NoExactRevision, w1)
      | (Inr (Some exact), w1) \<Rightarrow>
          if ex_KVRevision exact = 0 then (Inl NoExactRevision, w1)
          else if \<not> validateEntity p (ex_Entity exact) runID then (Inl EntityMismatch, w1)
          else
     (case approvalFacts (pj_uuid p) (the (ex_Entity exact)) key answered now of
        Inl e \<Rightarrow> (Inl (BadFacts e), w1)
      | Inr (desired, already) \<Rightarrow>
     (let request = reconcile_request runID (ex_KVRevision exact) desired requestID in
      case pj_EncodeErr p request of
        Some e \<Rightarrow> (Inl (EncodeFailed e), w1)
      | None \<Rightarrow>
     (case ctx w1 of
        Some e \<Rightarrow> (Inl (refusedProjection p e None), w1)
      | None \<Rightarrow>
     (case pj_RequestClassified p w1 request of
        (Inl err, w2) \<Rightarrow>
          if re_RevisionMismatch err then record_loop p ctx runID key answered now requestID n w2
          else (Inl (request_failure p err), w2)
      | (Inr reply, w2) \<Rightarrow>
          (check_receipt p runID (ex_KVRevision exact) requestID desired already reply, w2)))))))"

definition RecordApproval :: "'w NATSProjection \<Rightarrow> gotime \<Rightarrow> string \<Rightarrow> 'w ctx option \<Rightarrow> 'w \<Rightarrow> string \<Rightarrow> string \<Rightarrow> string \<Rightarrow> bool \<Rightarrow> (projection_error + bool) \<times> 'w" where
  "RecordApproval p now requestID ctx w runID loopID executionID answered =
     (case ctx of
        None \<Rightarrow> (Inl NilContext, w)
      | Some parent \<Rightarrow>
     (case parent w of
        Some e \<Rightarrow> (Inl (ContextErr e), w)
      | None \<Rightarrow>
     (case validateRun p runID of
        Some e \<Rightarrow> (Inl e, w)
      | None \<Rightarrow>
     (let key = pair_key loopID executionID in
      if \<not> validatePair (pj_uuid p) key then (Inl BadPair, w)
      else record_loop p (\<lambda>u. if parent u \<noteq> None then parent u else pj_Expired p u)
             runID key answered now requestID maxProjectionAttempts w))))"

section \<open>Pauser\<close>

text \<open>The framework's names the pauser uses, and its builder of loop entity ids.\<close>

record 'w Pauser =
  pz_ReadEntity :: "'w \<Rightarrow> string \<Rightarrow> (string + (string \<times> any) list) \<times> 'w"
  pz_RecordApproval :: "'w ctx option \<Rightarrow> 'w \<Rightarrow> string \<Rightarrow> string \<Rightarrow> string \<Rightarrow> bool \<Rightarrow> (projection_error + bool) \<times> 'w"
  pz_TryLoopExecutionEntityID :: "string \<Rightarrow> string \<Rightarrow> string \<Rightarrow> string + string"
  pz_LoopRunEntityID :: string
  pz_Decisions :: "string \<times> string \<times> string"
  pz_org :: string
  pz_platform :: string

record ApprovalPendingEvent =
  pe_LoopID :: string
  pe_ExecutionID :: string
  pe_ToolName :: string

record ApprovalResponse =
  an_LoopID :: string
  an_ExecutionID :: string
  an_Decision :: string

datatype pauser_error =
    PauserNilContext
  | NoExecutionID
  | LoopEntityIDErr string string
  | PauserContextErr string
  | ReadLoopErr string string
  | RecordErr string projection_error
  | InvalidDecision string

record marker_result =
  mr_RunEntityID :: string
  mr_Stamped :: bool
  mr_Answered :: bool

record PauseResult =
  ps_LoopID :: string
  ps_RunEntityID :: string
  ps_ToolName :: string
  ps_Stamped :: bool
  ps_AlreadyAnswered :: bool

record ResumeResult =
  rm_LoopID :: string
  rm_RunEntityID :: string
  rm_Decision :: string
  rm_Stamped :: bool
  rm_AlreadyAnswered :: bool

abbreviation lineageRunAnchor :: string where "lineageRunAnchor \<equiv> ''agent.lineage.run-loop-entity-id''"

definition resolveRunAnchor :: "string \<Rightarrow> (string \<times> any) list \<Rightarrow> string" where
  "resolveRunAnchor runPredicate triples =
     (case gm_get triples runPredicate of
        Some (AnyStr v) \<Rightarrow> if v \<noteq> [] then v else str_or_empty (gm_get triples lineageRunAnchor)
      | _ \<Rightarrow> str_or_empty (gm_get triples lineageRunAnchor))"

definition no_marker :: marker_result where
  "no_marker = \<lparr>mr_RunEntityID = [], mr_Stamped = False, mr_Answered = False\<rparr>"

definition stampRunMarker :: "'w Pauser \<Rightarrow> 'w ctx \<Rightarrow> 'w \<Rightarrow> string \<Rightarrow> string \<Rightarrow> string \<Rightarrow> (marker_result \<times> pauser_error option) \<times> 'w" where
  "stampRunMarker p ctx w loopID executionID predicate =
     (if executionID = [] then ((no_marker, Some NoExecutionID), w)
      else case pz_TryLoopExecutionEntityID p (pz_org p) (pz_platform p) loopID of
        Inl e \<Rightarrow> ((no_marker, Some (LoopEntityIDErr loopID e)), w)
      | Inr loopEntityID \<Rightarrow>
     (case ctx w of
        Some e \<Rightarrow> ((no_marker, Some (PauserContextErr e)), w)
      | None \<Rightarrow>
     (case pz_ReadEntity p w loopEntityID of
        (Inl e, w1) \<Rightarrow> ((no_marker, Some (ReadLoopErr loopEntityID e)), w1)
      | (Inr triples, w1) \<Rightarrow>
     (let runEntityID = resolveRunAnchor (pz_LoopRunEntityID p) triples in
      if runEntityID = [] then ((no_marker, None), w1)
      else case pz_RecordApproval p (Some ctx) w1 runEntityID loopID executionID (predicate = MarkerApprovalAnswered) of
        (Inl e, w2) \<Rightarrow> ((no_marker\<lparr>mr_RunEntityID := runEntityID\<rparr>, Some (RecordErr runEntityID e)), w2)
      | (Inr answered, w2) \<Rightarrow>
          ((\<lparr>mr_RunEntityID = runEntityID, mr_Stamped = \<not> answered, mr_Answered = answered\<rparr>, None), w2)))))"

definition no_pause :: PauseResult where
  "no_pause = \<lparr>ps_LoopID = [], ps_RunEntityID = [], ps_ToolName = [], ps_Stamped = False, ps_AlreadyAnswered = False\<rparr>"

definition no_resume :: ResumeResult where
  "no_resume = \<lparr>rm_LoopID = [], rm_RunEntityID = [], rm_Decision = [], rm_Stamped = False, rm_AlreadyAnswered = False\<rparr>"

definition HandlePending :: "'w Pauser \<Rightarrow> 'w ctx option \<Rightarrow> 'w \<Rightarrow> ApprovalPendingEvent option \<Rightarrow> (PauseResult \<times> pauser_error option) \<times> 'w" where
  "HandlePending p ctx w ev =
     (case (ctx, ev) of
        (None, _) \<Rightarrow> ((no_pause, Some PauserNilContext), w)
      | (Some _, None) \<Rightarrow> ((no_pause, None), w)
      | (Some c, Some e) \<Rightarrow>
          if pe_LoopID e = [] then ((no_pause, None), w)
          else (let ((r, err), w') = stampRunMarker p c w (pe_LoopID e) (pe_ExecutionID e) MarkerApprovalPending in
            ((\<lparr>ps_LoopID = pe_LoopID e, ps_RunEntityID = mr_RunEntityID r, ps_ToolName = pe_ToolName e,
               ps_Stamped = mr_Stamped r, ps_AlreadyAnswered = mr_Answered r\<rparr>, err), w')))"

definition HandleResponse :: "'w Pauser \<Rightarrow> 'w ctx option \<Rightarrow> 'w \<Rightarrow> ApprovalResponse option \<Rightarrow> (ResumeResult \<times> pauser_error option) \<times> 'w" where
  "HandleResponse p ctx w ev =
     (case (ctx, ev) of
        (None, _) \<Rightarrow> ((no_resume, Some PauserNilContext), w)
      | (Some _, None) \<Rightarrow> ((no_resume, None), w)
      | (Some c, Some e) \<Rightarrow>
          if an_LoopID e = [] then ((no_resume, None), w)
          else (case pz_Decisions p of (approve, reject, modify) \<Rightarrow>
            if an_Decision e \<notin> {approve, reject, modify} then ((no_resume, Some (InvalidDecision (an_Decision e))), w)
            else (let ((r, err), w') = stampRunMarker p c w (an_LoopID e) (an_ExecutionID e) MarkerApprovalAnswered in
              ((\<lparr>rm_LoopID = an_LoopID e, rm_RunEntityID = mr_RunEntityID r, rm_Decision = an_Decision e,
                 rm_Stamped = mr_Stamped r, rm_AlreadyAnswered = mr_Answered r\<rparr>, err), w'))))"

section \<open>Subscriber\<close>

text \<open>A message as its decoder sees it: an envelope with a category and a payload that decodes or not.\<close>

datatype 'e wire = BadEnvelope | Envelope string "'e option"

datatype log_line = LogNothing | LogBadEnvelope | LogBadPayload | LogError | LogRecorded | LogAlreadyAnswered | LogRunless

definition decodeEnvelope :: "'e wire \<Rightarrow> (string \<times> 'e option) option" where
  "decodeEnvelope data = (case data of BadEnvelope \<Rightarrow> None | Envelope category payload \<Rightarrow> Some (category, payload))"

definition handlePendingMsg :: "'w Pauser \<Rightarrow> string \<Rightarrow> 'w ctx option \<Rightarrow> 'w \<Rightarrow> ApprovalPendingEvent wire \<Rightarrow> log_line \<times> 'w" where
  "handlePendingMsg p category ctx w data =
     (case decodeEnvelope data of
        None \<Rightarrow> (LogBadEnvelope, w)
      | Some (cat, payload) \<Rightarrow>
          if cat \<noteq> category then (LogNothing, w)
          else case payload of
            None \<Rightarrow> (LogBadPayload, w)
          | Some ev \<Rightarrow>
              (case HandlePending p ctx w (Some ev) of
                 ((_, Some _), w') \<Rightarrow> (LogError, w')
               | ((result, None), w') \<Rightarrow>
                   (if ps_Stamped result then LogRecorded
                    else if ps_AlreadyAnswered result then LogAlreadyAnswered else LogRunless, w')))"

definition handleResponseMsg :: "'w Pauser \<Rightarrow> string \<Rightarrow> 'w ctx option \<Rightarrow> 'w \<Rightarrow> ApprovalResponse wire \<Rightarrow> log_line \<times> 'w" where
  "handleResponseMsg p category ctx w data =
     (case decodeEnvelope data of
        None \<Rightarrow> (LogBadEnvelope, w)
      | Some (cat, payload) \<Rightarrow>
          if cat \<noteq> category then (LogNothing, w)
          else case payload of
            None \<Rightarrow> (LogBadPayload, w)
          | Some ev \<Rightarrow>
              (case HandleResponse p ctx w (Some ev) of
                 ((_, Some _), w') \<Rightarrow> (LogError, w')
               | ((result, None), w') \<Rightarrow>
                   (if rm_Stamped result then LogRecorded
                    else if rm_AlreadyAnswered result then LogAlreadyAnswered else LogRunless, w')))"

section \<open>What a call reports is what happened\<close>

text \<open>
  The graph owner as its documentation states it: other processes move the world along \<open>env\<close>, and a
  revision identifies a state. An exact read returns the entity and the revision of some moment
  during the call. A request that is refused, for its revision or for a classified reason, or that
  nobody answered, has changed nothing; an applied or unchanged receipt means that the facts were
  stored at a moment at which the revision was the expected one; after any other error or reply the
  request may have been stored or not.
\<close>

definition commit_unknown :: "projection_error \<Rightarrow> bool" where
  "commit_unknown e = (case e of Mutation m \<Rightarrow> me_Commit m = CommitUnknown | _ \<Rightarrow> False)"

lemma commit_unknown_simps [simp]:
  "commit_unknown (unknownProjection s)" "\<not> commit_unknown (refusedProjection p s c)"
  "\<not> commit_unknown NilContext" "\<not> commit_unknown (ContextErr s)" "\<not> commit_unknown (RunIdentity s)"
  "\<not> commit_unknown (OutsideContract s)" "\<not> commit_unknown BadPair" "\<not> commit_unknown (ReadFailed s)"
  "\<not> commit_unknown NoExactRevision" "\<not> commit_unknown EntityMismatch" "\<not> commit_unknown (BadFacts f)"
  "\<not> commit_unknown (EncodeFailed s)" "\<not> commit_unknown ConflictAfterAttempts"
  by (simp_all add: commit_unknown_def unknownProjection_def refusedProjection_def Let_def split: option.split prod.split)

lemma commit_unknown_request_failure:
  "commit_unknown (request_failure p err) \<longleftrightarrow> re_Classified err = None \<and> \<not> re_NoResponders err"
  by (cases "re_Classified err") (simp_all add: request_failure_def)

definition refused :: "request_error \<Rightarrow> bool" where
  "refused err \<longleftrightarrow> re_RevisionMismatch err \<or> re_Classified err \<noteq> None \<or> re_NoResponders err"

fun receipt_for :: "ReconcileRequest \<Rightarrow> request_error + request_reply \<Rightarrow> bool" where
  "receipt_for q (Inr (Reply r)) \<longleftrightarrow> rs_RequestID r = rr_RequestID q \<and>
     ((rs_Outcome r = MutationApplied \<and> rs_KVRevision r > rr_ExpectedRevision q) \<or>
      (rs_Outcome r = MutationUnchanged \<and> rs_KVRevision r = rr_ExpectedRevision q))"
| "receipt_for q _ \<longleftrightarrow> False"

locale cas_owner =
  fixes p :: "'w NATSProjection" and ent :: "'w \<Rightarrow> EntityState" and rev :: "'w \<Rightarrow> nat" and env :: "'w \<Rightarrow> 'w \<Rightarrow> bool"
  assumes env_refl: "env w w"
    and env_trans: "env u v \<Longrightarrow> env v w \<Longrightarrow> env u w"
    and env_rev: "env u v \<Longrightarrow> rev u = rev v \<Longrightarrow> ent u = ent v"
    and read_env: "pj_ReadExactEntity p w ident = (rd, w') \<Longrightarrow> env w w'"
    and read_exact: "pj_ReadExactEntity p w ident = (Inr (Some x), w') \<Longrightarrow> ex_Entity x = Some e \<Longrightarrow>
        \<exists>u. env w u \<and> env u w' \<and> e = ent u \<and> ex_KVRevision x = rev u"
    and request_refused: "pj_RequestClassified p w q = (Inl err, w') \<Longrightarrow> refused err \<Longrightarrow> env w w'"
    and request_receipt: "pj_RequestClassified p w q = (res, w') \<Longrightarrow> receipt_for q res \<Longrightarrow>
        \<exists>u v. env w u \<and> rev u = rr_ExpectedRevision q \<and>
          ledger_of (pj_uuid p) (ent v) = ledger_of (pj_uuid p) (reconcile (ent u) (rr_Desired q)) \<and> env v w'"
    and request_unknown: "pj_RequestClassified p w q = (res, w') \<Longrightarrow> env w w' \<or> (\<exists>u v. env w u \<and> rev u = rr_ExpectedRevision q \<and>
          ledger_of (pj_uuid p) (ent v) = ledger_of (pj_uuid p) (reconcile (ent u) (rr_Desired q)) \<and> env v w')"
begin

definition took_effect :: "string \<Rightarrow> bool \<Rightarrow> 'w \<Rightarrow> bool \<Rightarrow> 'w \<Rightarrow> bool" where
  "took_effect key answered w already w' \<longleftrightarrow> (\<exists>u v l. env w u \<and> ledger_of (pj_uuid p) (ent u) = Some l \<and>
     ledger_of (pj_uuid p) (ent v) = Some (ledger_step key answered l) \<and> already = (key \<in> lg_answered l) \<and> env v w')"

lemma took_effect_env: "env w w1 \<Longrightarrow> took_effect key answered w1 already w' \<Longrightarrow> took_effect key answered w already w'"
  unfolding took_effect_def using env_trans by blast

lemma commit_effect:
  assumes "validatePair (pj_uuid p) key" "approvalFacts (pj_uuid p) (ent u0) key answered now = Inr (desired, already)"
    "env w u0" "env u0 u" "rev u = rev u0"
    "ledger_of (pj_uuid p) (ent v) = ledger_of (pj_uuid p) (reconcile (ent u) desired)" "env v w'"
  shows "took_effect key answered w already w'"
proof -
  have same: "ent u = ent u0" using env_rev assms(4,5) by metis
  obtain l where l: "ledger_of (pj_uuid p) (ent u0) = Some l"
    using approvalFacts_ok_iff [of "pj_uuid p" "ent u0" key answered now] assms(2) by auto
  from approvalFacts_step [OF this assms(1), of answered now] assms(2)
  have "already = (key \<in> lg_answered l)" "ledger_of (pj_uuid p) (reconcile (ent u0) desired) = Some (ledger_step key answered l)"
    by auto
  then show ?thesis
    unfolding took_effect_def using l assms(3,6,7) same by metis
qed

definition reports :: "string \<Rightarrow> bool \<Rightarrow> 'w \<Rightarrow> projection_error + bool \<Rightarrow> 'w \<Rightarrow> bool" where
  "reports key answered w res w' \<longleftrightarrow> (case res of
      Inr already \<Rightarrow> took_effect key answered w already w'
    | Inl e \<Rightarrow> env w w' \<or> (commit_unknown e \<and> (\<exists>already. took_effect key answered w already w')))"

lemma reports_env: "env w w1 \<Longrightarrow> reports key answered w1 res w' \<Longrightarrow> reports key answered w res w'"
  by (auto simp: reports_def took_effect_env split: sum.splits dest: env_trans intro: took_effect_env)

lemma receipt_reports:
  assumes "validatePair (pj_uuid p) key" "approvalFacts (pj_uuid p) (ent u0) key answered now = Inr (desired, already)"
    "env w u0" "env u0 w1" "rev u0 = rv" "pj_RequestClassified p w1 (reconcile_request runID rv desired rid) = (res, w')"
  shows "\<And>err. res = Inl err \<Longrightarrow> \<not> re_RevisionMismatch err \<Longrightarrow> reports key answered w (Inl (request_failure p err)) w'"
    and "\<And>reply. res = Inr reply \<Longrightarrow> reports key answered w (check_receipt p runID rv rid desired already reply) w'"
proof -
  let ?q = "reconcile_request runID rv desired rid"
  have ww1: "env w w1" using env_trans assms(3,4) by blast
  have eff: "took_effect key answered w already w'"
    if "env w1 u" "rev u = rr_ExpectedRevision ?q" "ledger_of (pj_uuid p) (ent v) = ledger_of (pj_uuid p) (reconcile (ent u) (rr_Desired ?q))" "env v w'" for u v
    using commit_effect [OF assms(1-3) env_trans [OF assms(4) that(1)]] that assms(5) by (simp add: reconcile_request_def)
  have unk: "env w w' \<or> took_effect key answered w already w'"
    using request_unknown [OF assms(6)] eff env_trans [OF ww1] by blast
  show "reports key answered w (Inl (request_failure p err)) w'" if "res = Inl err" "\<not> re_RevisionMismatch err" for err
  proof (cases "refused err")
    case True
    then have "env w1 w'" using request_refused assms(6) that(1) by blast
    then show ?thesis using env_trans [OF ww1] by (simp add: reports_def)
  next
    case False
    then have "commit_unknown (request_failure p err)"
      unfolding commit_unknown_request_failure refused_def by blast
    then show ?thesis using unk by (auto simp: reports_def)
  qed
  show "reports key answered w (check_receipt p runID rv rid desired already reply) w'" if "res = Inr reply" for reply
  proof (cases "check_receipt p runID rv rid desired already reply")
    case (Inl e)
    then have "commit_unknown e" by (auto simp: check_receipt_def Let_def split: request_reply.splits if_splits)
    then show ?thesis using unk Inl by (auto simp: reports_def)
  next
    case (Inr b)
    then have "b = already" "receipt_for ?q res"
      using that by (auto simp: check_receipt_def reconcile_request_def Let_def split: request_reply.splits if_splits)
    then show ?thesis using request_receipt [OF assms(6)] eff Inr by (auto simp: reports_def)
  qed
qed

lemma record_loop_reports:
  assumes "validatePair (pj_uuid p) key"
  shows "record_loop p ctx runID key answered now rid n w = (res, w') \<Longrightarrow> reports key answered w res w'"
proof (induction n arbitrary: w)
  case 0
  then show ?case by (auto simp: reports_def env_refl)
next
  case (Suc n)
  note unchanged = env_refl [of w]
  show ?case
  proof (cases "ctx w")
    case (Some e)
    then show ?thesis using Suc.prems unchanged by (auto simp: reports_def)
  next
    case ctx: None
    obtain rd w1 where rd: "pj_ReadExactEntity p w runID = (rd, w1)" by (cases "pj_ReadExactEntity p w runID")
    note ww1 = read_env [OF rd]
    have no_write: "reports key answered w (Inl e) w1" for e using ww1 by (simp add: reports_def)
    show ?thesis
    proof (cases "\<exists>x e. rd = Inr (Some x) \<and> ex_KVRevision x \<noteq> 0 \<and> ex_Entity x = Some e \<and> validateEntity p (Some e) runID")
      case False
      then have "\<exists>e. res = Inl e \<and> w' = w1"
        using Suc.prems ctx rd
        by (cases rd) (auto simp: validateEntity_def split: option.splits if_splits)
      then show ?thesis using no_write by blast
    next
      case True
      then obtain x e where x: "rd = Inr (Some x)" "ex_KVRevision x \<noteq> 0" "ex_Entity x = Some e" "validateEntity p (Some e) runID" by blast
      obtain u0 where u0: "env w u0" "env u0 w1" "e = ent u0" "ex_KVRevision x = rev u0"
        using read_exact rd x(1,3) by blast
      show ?thesis
      proof (cases "approvalFacts (pj_uuid p) e key answered now")
        case (Inl err)
        then show ?thesis using Suc.prems ctx rd x no_write by auto
      next
        case (Inr da)
        obtain desired already where da: "da = (desired, already)" by (cases da)
        let ?q = "reconcile_request runID (ex_KVRevision x) desired rid"
        obtain rs w2 where rs: "pj_RequestClassified p w1 ?q = (rs, w2)" by (cases "pj_RequestClassified p w1 ?q")
        note facts = Inr [unfolded da u0(3)]
        note rep = receipt_reports [OF assms facts u0(1,2) u0(4) [symmetric] rs]
        have retry: "env w w2" if "rs = Inl err" "re_RevisionMismatch err" for err
          using request_refused [OF rs [unfolded that(1)]] that(2) env_trans [OF ww1] by (simp add: refused_def)
        have "record_loop p ctx runID key answered now rid (Suc n) w =
          (case pj_EncodeErr p ?q of Some e \<Rightarrow> (Inl (EncodeFailed e), w1)
           | None \<Rightarrow> (case ctx w1 of Some e \<Rightarrow> (Inl (refusedProjection p e None), w1)
             | None \<Rightarrow> (case rs of
                 Inl err \<Rightarrow> if re_RevisionMismatch err then record_loop p ctx runID key answered now rid n w2
                            else (Inl (request_failure p err), w2)
               | Inr reply \<Rightarrow> (check_receipt p runID (ex_KVRevision x) rid desired already reply, w2))))"
          using ctx rd x Inr da rs by (simp add: Let_def split: option.split)
        with Suc.prems show ?thesis
          using no_write rep Suc.IH [of w2] retry reports_env
          by (auto split: option.splits sum.splits if_splits)
      qed
    qed
  qed
qed

lemma RecordApproval_reports:
  assumes "RecordApproval p now rid ctx w runID loopID executionID answered = (res, w')"
  shows "reports (pair_key loopID executionID) answered w res w'"
proof -
  have stop: "reports key answered w (Inl e) w" for key e by (simp add: reports_def env_refl)
  show ?thesis
    using assms record_loop_reports [of "pair_key loopID executionID"] stop
    by (auto simp: RecordApproval_def Let_def split: option.splits if_splits)
qed

end

section \<open>A run shared with other processes\<close>

text \<open>
  A run in a graph that other processes write to: between the exact read of an attempt and its
  request, the next batch of rival events is recorded. The fate of a request is a choice of the
  network: it is delivered and answered, answered by nobody, lost before the owner sees it, or
  stored with its answer lost.
\<close>

datatype fate = Delivered | Unanswered | LostRequest | LostReply

record shared_run =
  sr_ent :: EntityState
  sr_rev :: nat
  sr_rivals :: "(string \<times> bool \<times> gotime) list list"
  sr_fates :: "fate list"

definition rival_events :: "(string \<Rightarrow> bool) \<Rightarrow> (string \<times> bool \<times> gotime) list \<Rightarrow> shared_run \<Rightarrow> shared_run" where
  "rival_events uuid evs w = w\<lparr>sr_ent := fold (record_gate uuid) evs (sr_ent w), sr_rev := sr_rev w + length evs\<rparr>"

definition pop :: "'a list \<Rightarrow> 'a list" where "pop xs = (case xs of [] \<Rightarrow> [] | _ # ys \<Rightarrow> ys)"

definition shared_read :: "(string \<Rightarrow> bool) \<Rightarrow> shared_run \<Rightarrow> string \<Rightarrow> (string + exact_entity option) \<times> shared_run" where
  "shared_read uuid w ident =
     (if ident \<noteq> es_ID (sr_ent w) then (Inr None, w)
      else (Inr (Some \<lparr>ex_Entity = Some (sr_ent w), ex_KVRevision = sr_rev w\<rparr>),
            rival_events uuid (case sr_rivals w of [] \<Rightarrow> [] | evs # _ \<Rightarrow> evs) (w\<lparr>sr_rivals := pop (sr_rivals w)\<rparr>)))"

definition transport_error :: "string \<Rightarrow> request_error" where
  "transport_error msg = \<lparr>re_msg = msg, re_RevisionMismatch = False, re_Classified = None, re_NoResponders = False\<rparr>"

definition shared_request :: "shared_run \<Rightarrow> ReconcileRequest \<Rightarrow> (request_error + request_reply) \<times> shared_run" where
  "shared_request w q =
     (let fate = (case sr_fates w of [] \<Rightarrow> Delivered | f # _ \<Rightarrow> f);
          w1 = w\<lparr>sr_fates := pop (sr_fates w)\<rparr>;
          stored = w1\<lparr>sr_ent := reconcile (sr_ent w) (rr_Desired q), sr_rev := Suc (sr_rev w)\<rparr>
      in case fate of
           Unanswered \<Rightarrow> (Inl (transport_error ''no responders''\<lparr>re_NoResponders := True\<rparr>), w1)
         | LostRequest \<Rightarrow> (Inl (transport_error ''timeout''), w1)
         | _ \<Rightarrow>
             if rr_ExpectedRevision q \<noteq> sr_rev w
             then (Inl (transport_error ''revision mismatch''\<lparr>re_RevisionMismatch := True, re_Classified := Some (ErrorTransient, [])\<rparr>), w1)
             else if fate = LostReply then (Inl (transport_error ''timeout''), stored)
             else (Inr (Reply \<lparr>rs_Outcome = MutationApplied, rs_KVRevision = Suc (sr_rev w),
                     rs_RequestID = rr_RequestID q, rs_Entity = Some (sr_ent stored)\<rparr>), stored))"

definition shared_projection :: "(string \<Rightarrow> bool) \<Rightarrow> (triple \<Rightarrow> string) \<Rightarrow> (string \<Rightarrow> string + EntityID) \<Rightarrow> string \<Rightarrow> string \<Rightarrow> string \<Rightarrow> shared_run NATSProjection" where
  "shared_projection uuid marshal parse mtype org platform =
     \<lparr>pj_ReadExactEntity = shared_read uuid, pj_RequestClassified = shared_request,
      pj_ParseEntityID = parse, pj_Classify = (\<lambda>_. ErrorTransient), pj_HarnessMessageType = mtype,
      pj_EncodeErr = (\<lambda>_. None), pj_Marshal = marshal, pj_Expired = (\<lambda>_. None), pj_uuid = uuid,
      pj_org = org, pj_platform = platform\<rparr>"

definition rival_env :: "(string \<Rightarrow> bool) \<Rightarrow> shared_run \<Rightarrow> shared_run \<Rightarrow> bool" where
  "rival_env uuid w w' \<longleftrightarrow> (\<exists>evs. sr_ent w' = fold (record_gate uuid) evs (sr_ent w) \<and> sr_rev w' = sr_rev w + length evs)"

lemma rival_env_refl: "sr_ent w' = sr_ent w \<Longrightarrow> sr_rev w' = sr_rev w \<Longrightarrow> rival_env uuid w w'"
  unfolding rival_env_def by (intro exI [of _ "[]"]) simp

lemma rival_env_trans: "rival_env uuid u v \<Longrightarrow> rival_env uuid v w \<Longrightarrow> rival_env uuid u w"
  unfolding rival_env_def by (metis (no_types, lifting) add.assoc comp_apply fold_append length_append)

lemma rival_env_events: "rival_env uuid w (rival_events uuid evs (w\<lparr>sr_rivals := rs\<rparr>))"
  unfolding rival_env_def rival_events_def by auto

lemma shared_request_cases:
  assumes "shared_request w q = (res, w')"
  shows "(rival_env uuid w w' \<and> \<not> receipt_for q res) \<or>
     (rr_ExpectedRevision q = sr_rev w \<and> sr_ent w' = reconcile (sr_ent w) (rr_Desired q) \<and> (\<forall>err. res = Inl err \<longrightarrow> \<not> refused err))"
  using assms rival_env_refl [of w' w uuid]
  by (auto simp: shared_request_def Let_def transport_error_def refused_def split: if_splits fate.splits list.splits)

interpretation shared: cas_owner "shared_projection uuid marshal parse mtype org platform" sr_ent sr_rev "rival_env uuid"
  for uuid marshal parse mtype org platform
proof
  fix w w' q res ident rd
  show "rival_env uuid w w" by (simp add: rival_env_refl)
  show "rival_env uuid w w'" if "pj_ReadExactEntity (shared_projection uuid marshal parse mtype org platform) w ident = (rd, w')"
    using that rival_env_refl rival_env_events
    by (auto simp: shared_projection_def shared_read_def split: if_splits)
  show "\<exists>u. rival_env uuid w u \<and> rival_env uuid u w' \<and> e = sr_ent u \<and> ex_KVRevision x = sr_rev u"
    if "pj_ReadExactEntity (shared_projection uuid marshal parse mtype org platform) w ident = (Inr (Some x), w')" "ex_Entity x = Some e" for x e
    using that rival_env_refl [of w w] rival_env_events
    by (intro exI [of _ w]) (auto simp: shared_projection_def shared_read_def split: if_splits)
  show "rival_env uuid w w'" if "pj_RequestClassified (shared_projection uuid marshal parse mtype org platform) w q = (Inl err, w')" "refused err" for err
    using shared_request_cases [of w q "Inl err" w' uuid] that by (auto simp: shared_projection_def)
  let ?stored = "\<exists>u v. rival_env uuid w u \<and> sr_rev u = rr_ExpectedRevision q \<and>
      ledger_of (pj_uuid (shared_projection uuid marshal parse mtype org platform)) (sr_ent v) =
      ledger_of (pj_uuid (shared_projection uuid marshal parse mtype org platform)) (reconcile (sr_ent u) (rr_Desired q)) \<and> rival_env uuid v w'"
  have stored: ?stored if "rr_ExpectedRevision q = sr_rev w" "sr_ent w' = reconcile (sr_ent w) (rr_Desired q)"
    using that rival_env_refl [of w w] rival_env_refl [of w' w'] by metis
  assume rq: "pj_RequestClassified (shared_projection uuid marshal parse mtype org platform) w q = (res, w')"
  then have "shared_request w q = (res, w')" by (simp add: shared_projection_def)
  note cases = shared_request_cases [OF this, of uuid]
  show "rival_env uuid w w' \<or> ?stored" using cases stored by blast
  show ?stored if "receipt_for q res" using cases stored that by blast
qed (blast intro: rival_env_trans, auto simp: rival_env_def)

lemma approvalFacts_predicates:
  assumes "approvalFacts uuid e key answered now = Inr (desired, already)" "validatePair uuid key"
  shows "\<forall>tr \<in> set desired. Predicate tr \<in> set approvalPredicates"
proof -
  obtain l where "ledger_of uuid e = Some l"
    using approvalFacts_ok_iff [of uuid e key answered now] assms(1) by auto
  then obtain st where st: "scan_facts uuid (es_ID e) start_facts (es_Triples e) = Inr st" "consistent st"
    by (auto simp: ledger_of_def split: sum.splits if_splits)
  note ok = scan_facts_ok [OF start_facts_ok st(1)]
  have pred: "Predicate tr = q" if "map_ok uuid (es_ID e) q m" "tr \<in> set (sorted_facts m)" for q m tr
    using map_ok_sorted [OF that(1)] that(2) by (auto simp: sorted_facts_map map_ok_def fact_ok_def)
  let ?st = "add_gate (es_ID e) now key answered st"
  have "desired = sorted_facts (fs_pending ?st) @ sorted_facts (fs_answered ?st) @ [count_fact (es_ID e) now st ?st]"
    using assms(1) approvalFacts_consistent [OF st, of key answered now] by (simp add: Let_def)
  then show ?thesis
    using pred [OF add_gate_ok(1) [OF ok assms(2)]] pred [OF add_gate_ok(2) [OF ok assms(2)]]
      count_fact_ok [OF ok st(2), of now ?st] by (auto simp: approvalPredicates_def)
qed

lemma sameApprovalFacts_reconcile:
  assumes "\<forall>tr \<in> set desired. Predicate tr \<in> set approvalPredicates"
  shows "sameApprovalFacts marshal desired (es_Triples (reconcile e desired))"
proof -
  have "filter (\<lambda>tr. Predicate tr = MarkerApprovalPending \<or> Predicate tr = MarkerApprovalAnswered \<or> Predicate tr = MarkerApprovalOutstanding)
      (es_Triples (reconcile e desired)) = desired"
    using assms by (auto simp: reconcile_def approvalPredicates_def filter_empty_conv intro!: filter_True)
  then show ?thesis by (simp add: sameApprovalFacts_def Let_def)
qed

text \<open>The ledger after a list of events.\<close>

definition ledger_with :: "ledger \<Rightarrow> (string \<times> bool \<times> gotime) list \<Rightarrow> ledger" where
  "ledger_with l evs = fold (\<lambda>(k, a, _). ledger_step k a) evs l"

lemma ledger_of_events:
  "ledger_of uuid e = Some l \<Longrightarrow> \<forall>ev \<in> set evs. validatePair uuid (fst ev) \<Longrightarrow>
   ledger_of uuid (fold (record_gate uuid) evs e) = Some (ledger_with l evs)"
proof (induction evs arbitrary: e l)
  case (Cons ev evs)
  obtain k a t where ev: "ev = (k, a, t)" by (cases ev)
  have "ledger_of uuid (record_gate uuid ev e) = Some (ledger_step k a l)"
    using gates.record_step Cons.prems ev by simp
  from Cons.IH [OF this] Cons.prems(2) show ?case by (simp add: ledger_with_def ev)
qed (simp add: ledger_with_def)

lemma record_gate_identity [simp]:
  "es_ID (record_gate uuid ev e) = es_ID e" "es_MessageType (record_gate uuid ev e) = es_MessageType e"
  by (simp_all add: record_gate_def reconcile_def split: sum.split prod.split)

lemma fold_record_gate_identity [simp]:
  "es_ID (fold (record_gate uuid) evs e) = es_ID e" "es_MessageType (fold (record_gate uuid) evs e) = es_MessageType e"
  by (induction evs arbitrary: e) auto

text \<open>The number of attempts that find a rival in their way.\<close>

definition conflicts :: "shared_run \<Rightarrow> nat" where
  "conflicts w = length (takeWhile (\<lambda>evs. evs \<noteq> []) (sr_rivals w))"

definition quiet_network :: "(string \<Rightarrow> bool) \<Rightarrow> string \<Rightarrow> string \<Rightarrow> shared_run \<Rightarrow> bool" where
  "quiet_network uuid runID mtype w \<longleftrightarrow> es_ID (sr_ent w) = runID \<and> es_MessageType (sr_ent w) = mtype \<and>
     0 < sr_rev w \<and> sr_fates w = [] \<and> (\<forall>evs \<in> set (sr_rivals w). \<forall>ev \<in> set evs. validatePair uuid (fst ev))"

lemma shared_loop_clear:
  assumes "quiet_network uuid runID mtype w" "ledger_of uuid (sr_ent w) = Some l" "validatePair uuid key"
    "sr_rivals w = [] \<or> hd (sr_rivals w) = []"
  shows "\<exists>w'. record_loop (shared_projection uuid marshal parse mtype org platform) (\<lambda>_. None) runID key a now rid (Suc n) w =
      (Inr (key \<in> lg_answered l), w') \<and> ledger_of uuid (sr_ent w') = Some (ledger_step key a l)"
proof -
  obtain desired where d: "approvalFacts uuid (sr_ent w) key a now = Inr (desired, key \<in> lg_answered l)"
      "ledger_of uuid (reconcile (sr_ent w) desired) = Some (ledger_step key a l)"
    using approvalFacts_step [OF assms(2,3)] by blast
  note same = sameApprovalFacts_reconcile [OF approvalFacts_predicates [OF d(1) assms(3)], of marshal "sr_ent w"]
  have "(case sr_rivals w of [] \<Rightarrow> [] | evs # _ \<Rightarrow> evs) = []" using assms(4) by (cases "sr_rivals w") auto
  then show ?thesis
    using assms(1) d same
    by (auto simp: shared_projection_def shared_read_def shared_request_def reconcile_request_def quiet_network_def
      rival_events_def validateEntity_def check_receipt_def pop_def Let_def reconcile_def)
qed

lemma shared_loop_conflict:
  assumes "quiet_network uuid runID mtype w" "ledger_of uuid (sr_ent w) = Some l" "validatePair uuid key"
    "sr_rivals w = evs # rest" "evs \<noteq> []"
  shows "\<exists>w1. record_loop (shared_projection uuid marshal parse mtype org platform) (\<lambda>_. None) runID key a now rid (Suc n) w =
      record_loop (shared_projection uuid marshal parse mtype org platform) (\<lambda>_. None) runID key a now rid n w1 \<and>
      quiet_network uuid runID mtype w1 \<and> sr_rivals w1 = rest \<and> ledger_of uuid (sr_ent w1) = Some (ledger_with l evs)"
proof -
  obtain desired where d: "approvalFacts uuid (sr_ent w) key a now = Inr (desired, key \<in> lg_answered l)"
    using approvalFacts_step [OF assms(2,3)] by blast
  have "ledger_of uuid (fold (record_gate uuid) evs (sr_ent w)) = Some (ledger_with l evs)"
    using ledger_of_events [OF assms(2)] assms(1,4) by (auto simp: quiet_network_def)
  then show ?thesis
    using assms(1,4,5) d
    by (auto simp: shared_projection_def shared_read_def shared_request_def reconcile_request_def quiet_network_def
      rival_events_def validateEntity_def pop_def Let_def transport_error_def intro!: exI)
qed

lemma shared_loop:
  assumes "quiet_network uuid runID mtype w" "ledger_of uuid (sr_ent w) = Some l" "validatePair uuid key"
  shows "\<exists>res w'. record_loop (shared_projection uuid marshal parse mtype org platform) (\<lambda>_. None) runID key a now rid n w = (res, w') \<and>
     (if conflicts w < n
      then let l' = ledger_with l (concat (take (conflicts w) (sr_rivals w)))
           in res = Inr (key \<in> lg_answered l') \<and> ledger_of uuid (sr_ent w') = Some (ledger_step key a l')
      else res = Inl ConflictAfterAttempts \<and>
           ledger_of uuid (sr_ent w') = Some (ledger_with l (concat (take n (sr_rivals w)))))"
  using assms
proof (induction n arbitrary: w l)
  case 0
  then show ?case by (simp add: ledger_with_def)
next
  case (Suc n)
  show ?case
  proof (cases "sr_rivals w = [] \<or> hd (sr_rivals w) = []")
    case True
    then have "conflicts w = 0" by (cases "sr_rivals w") (auto simp: conflicts_def)
    then show ?thesis using shared_loop_clear [OF Suc.prems True] by (auto simp: ledger_with_def Let_def)
  next
    case False
    then obtain evs rest where r: "sr_rivals w = evs # rest" "evs \<noteq> []" by (cases "sr_rivals w") auto
    obtain w1 where w1: "record_loop (shared_projection uuid marshal parse mtype org platform) (\<lambda>_. None) runID key a now rid (Suc n) w =
        record_loop (shared_projection uuid marshal parse mtype org platform) (\<lambda>_. None) runID key a now rid n w1"
      "quiet_network uuid runID mtype w1" "sr_rivals w1 = rest" "ledger_of uuid (sr_ent w1) = Some (ledger_with l evs)"
      using shared_loop_conflict [OF Suc.prems r] by blast
    have "conflicts w = Suc (conflicts w1)" using r w1(3) by (simp add: conflicts_def)
    moreover have "ledger_with (ledger_with l evs) xs = ledger_with l (evs @ xs)" for xs by (simp add: ledger_with_def)
    moreover obtain res w' where "record_loop (shared_projection uuid marshal parse mtype org platform) (\<lambda>_. None) runID key a now rid n w1 = (res, w')"
      by (rule prod.exhaust)
    ultimately show ?thesis
      using Suc.IH [OF w1(2,4) Suc.prems(3)] unfolding w1(1) r(1) w1(3)
      by (cases "conflicts w1 < n") (simp_all add: Let_def del: record_loop.simps)
  qed
qed

lemma RecordApproval_shared:
  assumes "validatePair uuid (pair_key loopID executionID)"
    "validateRun (shared_projection uuid marshal parse mtype org platform) runID = None"
  shows "RecordApproval (shared_projection uuid marshal parse mtype org platform) now requestID (Some (\<lambda>_. None)) w
       runID loopID executionID answered =
     record_loop (shared_projection uuid marshal parse mtype org platform) (\<lambda>_. None) runID (pair_key loopID executionID)
       answered now requestID 8 w"
proof -
  have "pj_uuid (shared_projection uuid marshal parse mtype org platform) = uuid"
    "pj_Expired (shared_projection uuid marshal parse mtype org platform) = (\<lambda>_. None)" by (simp_all add: shared_projection_def)
  then show ?thesis using assms unfolding RecordApproval_def Let_def by simp
qed

text \<open>
  C1. The outcome \<^verbatim>\<open>RecordApproval\<close> reports is what happened, whatever the graph owner, the network, the
  deadline and other processes do within the owner's contract. A reported success means that the
  event took effect exactly once, at one moment during the call: the ledger just after it is the
  ledger just before it stepped by this event, and the flag says whether the gate had been answered
  just before. After every error that does not say the commit is unknown, the call has
  changed nothing.
\<close>

theorem RecordApproval_linearizable:
  assumes "cas_owner p ent rv env"
    "RecordApproval p now requestID ctx w runID loopID executionID answered = (res, w')"
  shows "(\<forall>already. res = Inr already \<longrightarrow> (\<exists>u v l. env w u \<and> ledger_of (pj_uuid p) (ent u) = Some l \<and>
      ledger_of (pj_uuid p) (ent v) = Some (ledger_step (pair_key loopID executionID) answered l) \<and>
      already = (pair_key loopID executionID \<in> lg_answered l) \<and> env v w')) \<and>
    (\<forall>e. res = Inl e \<and> \<not> commit_unknown e \<longrightarrow> env w w')"
  using cas_owner.RecordApproval_reports [OF assms]
  unfolding cas_owner.reports_def [OF assms(1)] cas_owner.took_effect_def [OF assms(1)] by auto

text \<open>
  C2. Contention: on a run whose facts are well formed and that other processes keep writing to, while the
  network delivers, up to seven conflicts in a row are survived and no event is lost, neither ours nor a
  rival's; after eight the call gives up with the conflict error and only the rivals' events are recorded.
\<close>

theorem RecordApproval_contention:
  assumes "quiet_network uuid runID mtype w" "ledger_of uuid (sr_ent w) = Some l"
    "validatePair uuid (pair_key loopID executionID)"
    "validateRun (shared_projection uuid marshal parse mtype org platform) runID = None"
  shows "\<exists>res w'. RecordApproval (shared_projection uuid marshal parse mtype org platform) now requestID (Some (\<lambda>_. None)) w
       runID loopID executionID answered = (res, w') \<and>
     (if conflicts w < 8
      then let l' = ledger_with l (concat (take (conflicts w) (sr_rivals w)))
           in res = Inr (pair_key loopID executionID \<in> lg_answered l') \<and>
              ledger_of uuid (sr_ent w') = Some (ledger_step (pair_key loopID executionID) answered l')
      else res = Inl ConflictAfterAttempts \<and>
           ledger_of uuid (sr_ent w') = Some (ledger_with l (concat (take 8 (sr_rivals w)))))"
  using RecordApproval_shared [OF assms(3,4)] shared_loop [OF assms(1-3), of marshal parse org platform answered now requestID 8]
  by simp

text \<open>
  The pauser writes only for a loop that belongs to a run: when neither anchor of the loop's entity is a
  non-empty text, or the execution id is empty, or a response carries a decision outside the three,
  nothing is recorded; and a response is recorded on the same run as the pending event of its loop,
  under the same gate.
\<close>

theorem pauser_same_gate:
  assumes "pz_ReadEntity p w ident = (Inr triples, w)" "pz_TryLoopExecutionEntityID p (pz_org p) (pz_platform p) (pe_LoopID e) = Inr ident"
    "an_LoopID r = pe_LoopID e" "an_ExecutionID r = pe_ExecutionID e" "pe_LoopID e \<noteq> []" "ctx w = None"
  shows "snd (HandlePending p (Some ctx) w (Some e)) =
      (if pe_ExecutionID e = [] \<or> resolveRunAnchor (pz_LoopRunEntityID p) triples = [] then w
       else snd (pz_RecordApproval p (Some ctx) w (resolveRunAnchor (pz_LoopRunEntityID p) triples) (pe_LoopID e) (pe_ExecutionID e) False)) \<and>
    snd (HandleResponse p (Some ctx) w (Some r)) =
      (if an_Decision r \<notin> {fst (pz_Decisions p), fst (snd (pz_Decisions p)), snd (snd (pz_Decisions p))} \<or>
          pe_ExecutionID e = [] \<or> resolveRunAnchor (pz_LoopRunEntityID p) triples = [] then w
       else snd (pz_RecordApproval p (Some ctx) w (resolveRunAnchor (pz_LoopRunEntityID p) triples) (pe_LoopID e) (pe_ExecutionID e) True))"
proof -
  have markers: "MarkerApprovalPending \<noteq> MarkerApprovalAnswered" by simp
  have stamp: "snd (stampRunMarker p ctx w (pe_LoopID e) (pe_ExecutionID e) m) =
      (if pe_ExecutionID e = [] \<or> resolveRunAnchor (pz_LoopRunEntityID p) triples = [] then w
       else snd (pz_RecordApproval p (Some ctx) w (resolveRunAnchor (pz_LoopRunEntityID p) triples) (pe_LoopID e) (pe_ExecutionID e)
              (m = MarkerApprovalAnswered)))" for m
    using assms by (simp add: stampRunMarker_def Let_def split: prod.split sum.split)
  obtain a b c where d: "pz_Decisions p = (a, b, c)" by (cases "pz_Decisions p")
  show ?thesis
    using assms(3-5) stamp [of MarkerApprovalPending] stamp [of MarkerApprovalAnswered]
    by (auto simp: HandlePending_def HandleResponse_def d split_beta simp del: bex_simps ball_simps)
qed

section \<open>Witnesses\<close>

definition sample_parse :: "string \<Rightarrow> string + EntityID" where
  "sample_parse s = Inr \<lparr>ei_Org = ''acme'', ei_Platform = ''p'', ei_System = ''chain'', ei_Domain = ''agent'', ei_Type = ''execution''\<rparr>"

abbreviation sample_projection :: "shared_run NATSProjection" where
  "sample_projection \<equiv> shared_projection sample_uuid Predicate sample_parse ''run'' ''acme'' ''p''"

definition sample_shared :: shared_run where
  "sample_shared = \<lparr>sr_ent = sample_run, sr_rev = 3,
     sr_rivals = [[(pair_key ''0f8fad5b-d9cb-469f-a165-70867728950e'' ''exec-2'', False, mk_utc 5)]], sr_fates = []\<rparr>"

lemma sample_rival_valid: "validatePair sample_uuid (pair_key ''0f8fad5b-d9cb-469f-a165-70867728950e'' ''exec-2'')"
  unfolding validatePair_iff sample_uuid_def by (intro exI conjI, rule refl) simp_all

lemma sample_shared_ok:
  "quiet_network sample_uuid ''acme.p.chain.agent.execution.r1'' ''run'' sample_shared"
  "ledger_of sample_uuid (sr_ent sample_shared) = Some \<lparr>lg_pending = {}, lg_answered = {}\<rparr>"
  "validateRun sample_projection ''acme.p.chain.agent.execution.r1'' = None"
  "conflicts sample_shared = 1"
  "lg_answered (ledger_with \<lparr>lg_pending = {}, lg_answered = {}\<rparr> (concat (take 1 (sr_rivals sample_shared)))) = {}"
  using sample_run_ledger sample_rival_valid
  by (simp_all add: quiet_network_def sample_shared_def sample_run_def validateRun_def shared_projection_def sample_parse_def
    conflicts_def ledger_with_def ledger_step_def)

theorem RecordApproval_contention_witness:
  "fst (RecordApproval sample_projection (mk_utc 9) ''q1'' (Some (\<lambda>_. None)) sample_shared ''acme.p.chain.agent.execution.r1''
     ''0f8fad5b-d9cb-469f-a165-70867728950e'' ''exec-1'' True) = Inr False"
  using RecordApproval_contention [OF sample_shared_ok(1,2) sample_key_valid [unfolded sample_key_def] sample_shared_ok(3), of "mk_utc 9" "''q1''" True]
  unfolding sample_shared_ok(4) Let_def sample_shared_ok(5) by auto

lemma sample_record:
  "fst (RecordApproval sample_projection (mk_utc 9) ''q1'' (Some (\<lambda>_. None)) sample_shared ''acme.p.chain.agent.execution.r1''
     ''0f8fad5b-d9cb-469f-a165-70867728950e'' ''exec-1'' True) = Inr False"
  unfolding RecordApproval_shared [OF sample_key_valid [unfolded sample_key_def] sample_shared_ok(3)]
  using shared_loop [OF sample_shared_ok(1,2) sample_key_valid [unfolded sample_key_def], of Predicate sample_parse "''acme''" "''p''" True "mk_utc 9" "''q1''" 8]
  unfolding sample_shared_ok(4) Let_def sample_shared_ok(5) by (auto simp del: record_loop.simps)

theorem RecordApproval_linearizable_witness:
  "\<exists>w' u v l. RecordApproval sample_projection (mk_utc 9) ''q1'' (Some (\<lambda>_. None)) sample_shared ''acme.p.chain.agent.execution.r1''
     ''0f8fad5b-d9cb-469f-a165-70867728950e'' ''exec-1'' True = (Inr False, w') \<and>
     rival_env sample_uuid sample_shared u \<and> ledger_of sample_uuid (sr_ent u) = Some l \<and>
     ledger_of sample_uuid (sr_ent v) = Some (ledger_step sample_key True l) \<and> sample_key \<notin> lg_answered l \<and> rival_env sample_uuid v w'"
proof -
  from sample_record obtain w' where w': "RecordApproval sample_projection (mk_utc 9) ''q1'' (Some (\<lambda>_. None)) sample_shared ''acme.p.chain.agent.execution.r1''
     ''0f8fad5b-d9cb-469f-a165-70867728950e'' ''exec-1'' True = (Inr False, w')"
    by (metis prod.collapse)
  from RecordApproval_linearizable [OF shared.cas_owner_axioms this]
  show ?thesis using w' by (auto simp: shared_projection_def sample_key_def)
qed

definition sample_pauser :: "(string \<times> string \<times> string \<times> bool) list Pauser" where
  "sample_pauser =
     \<lparr>pz_ReadEntity = (\<lambda>w _. (Inr [(''agent.run.entity-id'', AnyStr ''acme.p.chain.agent.execution.r1'')], w)),
      pz_RecordApproval = (\<lambda>_ w run l e a. (Inr False, w @ [(run, l, e, a)])),
      pz_TryLoopExecutionEntityID = (\<lambda>org platform l. Inr (org @ l)),
      pz_LoopRunEntityID = ''agent.run.entity-id'', pz_Decisions = (''approve'', ''reject'', ''modify''),
      pz_org = ''acme'', pz_platform = ''p''\<rparr>"

theorem pauser_same_gate_witness:
  "snd (HandleResponse sample_pauser (Some (\<lambda>_. None)) [] (Some \<lparr>an_LoopID = ''l1'', an_ExecutionID = ''e1'', an_Decision = ''approve''\<rparr>)) =
     [(''acme.p.chain.agent.execution.r1'', ''l1'', ''e1'', True)]"
  using pauser_same_gate [where p = sample_pauser and w = "[]" and ctx = "\<lambda>_. None" and ident = "''acmel1''"
      and triples = "[(''agent.run.entity-id'', AnyStr ''acme.p.chain.agent.execution.r1'')]"
      and e = "\<lparr>pe_LoopID = ''l1'', pe_ExecutionID = ''e1'', pe_ToolName = ''bash''\<rparr>"
      and r = "\<lparr>an_LoopID = ''l1'', an_ExecutionID = ''e1'', an_Decision = ''approve''\<rparr>"]
  by (simp add: sample_pauser_def resolveRunAnchor_def)

end
