(* ===== verification/Go_Lines.thy ===== *)
theory Go_Lines
  imports Prelude
begin

text \<open>
  Line-oriented text, as the OpenSpec reader and writer handle it: \<^verbatim>\<open>strings.SplitSeq(s, "\n")\<close>,
  \<^verbatim>\<open>strings.TrimRight(s, " \t\r")\<close>, \<^verbatim>\<open>strings.Cut\<close>, and the lemmas on documents that are written line
  by line. A \<^emph>\<open>text line\<close> is what the reader keeps of a line of prose: trimmed, not empty, without
  line break.
\<close>

abbreviation newline :: char where "newline \<equiv> CHR 0x0A"
abbreviation nl :: string where "nl \<equiv> [CHR 0x0A]"

fun split_nl :: "string \<Rightarrow> string list" where
  "split_nl [] = [[]]"
| "split_nl (c # cs) =
     (if c = newline then [] # split_nl cs
      else (case split_nl cs of [] \<Rightarrow> [[c]] | l # ls \<Rightarrow> (c # l) # ls))"

definition blank_char :: "char \<Rightarrow> bool" where
  "blank_char c \<longleftrightarrow> c = CHR '' '' \<or> c = CHR 0x09 \<or> c = CHR 0x0D"

definition TrimRight_blank :: "string \<Rightarrow> string" where
  "TrimRight_blank s = rev (dropWhile blank_char (rev s))"

definition CutChar :: "string \<Rightarrow> char \<Rightarrow> string \<times> string \<times> bool" where
  "CutChar s c = (takeWhile (\<lambda>d. d \<noteq> c) s, drop 1 (dropWhile (\<lambda>d. d \<noteq> c) s), c \<in> set s)"

text \<open>Lines as a writer emits them, each with its line break.\<close>

definition write_lines :: "string list \<Rightarrow> string" where
  "write_lines ls = concat (map (\<lambda>l. l @ nl) ls)"

definition name_ok :: "string \<Rightarrow> bool" where
  "name_ok s \<longleftrightarrow> TrimSpace s = s \<and> newline \<notin> set s"

definition text_line :: "string \<Rightarrow> bool" where
  "text_line s \<longleftrightarrow> s \<noteq> [] \<and> name_ok s"

text \<open>The lines of a block of prose, none for the empty one.\<close>

definition prose_lines :: "string \<Rightarrow> string list" where
  "prose_lines p = (if p = [] then [] else split_nl p)"

section \<open>Splitting\<close>

lemma split_nl_neq_Nil [simp]: "split_nl s \<noteq> []"
  by (cases s) (auto split: list.splits)

lemma split_nl_plain: "newline \<notin> set l \<Longrightarrow> split_nl l = [l]"
  by (induction l) auto

lemma split_nl_line: "newline \<notin> set l \<Longrightarrow> split_nl (l @ newline # s) = l # split_nl s"
  by (induction l) auto

lemma split_nl_write: "\<forall>l \<in> set ls. newline \<notin> set l \<Longrightarrow> split_nl (write_lines ls @ s) = ls @ split_nl s"
  by (induction ls) (simp_all add: write_lines_def split_nl_line)

lemma split_nl_written: "\<forall>l \<in> set ls. newline \<notin> set l \<Longrightarrow> split_nl (write_lines ls) = ls @ [[]]"
  using split_nl_write [of ls "[]"] by simp

lemma split_nl_lines: "l \<in> set (split_nl s) \<Longrightarrow> newline \<notin> set l"
proof (induction s arbitrary: l)
  case (Cons c s)
  then show ?case by (cases "split_nl s") (auto split: if_splits)
qed simp

lemma write_lines_append [simp]: "write_lines (ls @ ms) = write_lines ls @ write_lines ms"
  by (simp add: write_lines_def)

lemma write_lines_Cons: "write_lines (l # ls) = l @ newline # write_lines ls"
  by (simp add: write_lines_def)

lemma write_lines_Nil [simp]: "write_lines [] = []"
  by (simp add: write_lines_def)

lemma write_lines_concat: "write_lines (concat (map f xs)) = concat (map (\<lambda>x. write_lines (f x)) xs)"
  by (induction xs) simp_all

lemma split_nl_Join: "ls \<noteq> [] \<Longrightarrow> \<forall>l \<in> set ls. newline \<notin> set l \<Longrightarrow> split_nl (Join ls nl) = ls"
proof (induction ls)
  case (Cons l ls)
  then show ?case by (cases ls) (simp_all add: split_nl_plain split_nl_line)
qed simp

lemma Join_split_nl: "Join (split_nl s) nl = s"
proof (induction s)
  case (Cons c s)
  obtain l ls where ls: "split_nl s = l # ls" by (cases "split_nl s") auto
  then show ?case using Cons by (cases ls) simp_all
qed simp

lemma write_Join: "ls \<noteq> [] \<Longrightarrow> write_lines ls = Join ls nl @ nl"
proof (induction ls)
  case (Cons l ls)
  then show ?case by (cases ls) (simp_all add: write_lines_Cons)
qed simp

lemma write_prose: "p \<noteq> [] \<Longrightarrow> write_lines (prose_lines p) = p @ nl"
  by (simp add: prose_lines_def write_Join Join_split_nl)

lemma write_prose_lines: "write_lines (prose_lines p) = (if p = [] then [] else p @ nl)"
  using write_prose by (simp add: prose_lines_def)

lemma prose_lines_Join: "list_all text_line ls \<Longrightarrow> prose_lines (Join ls nl) = ls"
proof (cases "ls = []")
  case False
  assume ok: "list_all text_line ls"
  then have "Join ls nl \<noteq> []" using False by (cases ls rule: list.exhaust, simp) (case_tac x22, auto simp: text_line_def)
  then show ?thesis using ok False by (simp add: prose_lines_def split_nl_Join list_all_iff text_line_def name_ok_def)
qed (simp add: prose_lines_def)

lemma Join_prose_lines: "Join (prose_lines p) nl = p"
  by (simp add: prose_lines_def Join_split_nl)

section \<open>Trimming\<close>

lemma is_space_newline [simp]: "is_space newline"
  by (simp add: is_space_def byte_val_def)

lemma blank_char_space: "blank_char c \<Longrightarrow> is_space c"
  by (auto simp: blank_char_def is_space_def byte_val_def)

lemma TrimSpace_fix_iff: "TrimSpace s = s \<longleftrightarrow> s = [] \<or> (\<not> is_space (hd s) \<and> \<not> is_space (last s))"
proof
  assume eq: "TrimSpace s = s"
  have "\<not> is_space (hd s)" if "s \<noteq> []"
    using eq that unfolding TrimSpace_def
    by (metis hd_dropWhile rev_dropWhile_fix)
  moreover have "\<not> is_space (last s)" if "s \<noteq> []"
    using eq that unfolding TrimSpace_def
    by (metis hd_dropWhile last_rev rev_is_Nil_conv)
  ultimately show "s = [] \<or> (\<not> is_space (hd s) \<and> \<not> is_space (last s))" by blast
qed (auto intro: TrimSpace_id)

lemma TrimSpace_left: "is_space c \<Longrightarrow> TrimSpace (c # s) = TrimSpace s"
  by (simp add: TrimSpace_def)

lemma TrimRight_blank_id: "s = [] \<or> \<not> is_space (last s) \<Longrightarrow> TrimRight_blank s = s"
  using blank_char_space by (cases s rule: rev_cases) (auto simp: TrimRight_blank_def)

lemma TrimRight_text: "TrimSpace t = t \<Longrightarrow> TrimRight_blank t = t"
  by (rule TrimRight_blank_id) (auto simp: TrimSpace_fix_iff)

lemma TrimRight_blank_append: "\<exists>c \<in> set t. \<not> blank_char c \<Longrightarrow> TrimRight_blank (s @ t) = s @ TrimRight_blank t"
  by (auto simp: TrimRight_blank_def dropWhile_append)

text \<open>A line that is a fixed head and a trimmed name: what the reader sees of it.\<close>

lemma TrimRight_head:
  assumes "h \<noteq> []" "\<not> is_space (last h)" "TrimSpace n = n"
  shows "TrimRight_blank (h @ CHR '' '' # n) = (if n = [] then h else h @ CHR '' '' # n)"
proof (cases "n = []")
  case True
  have "blank_char CHR '' ''" by (simp add: blank_char_def)
  then show ?thesis using True TrimRight_blank_id [of h] assms by (simp add: TrimRight_blank_def)
next
  case False
  then show ?thesis using assms by (simp add: TrimRight_blank_id TrimSpace_fix_iff)
qed

lemma TrimSpace_space_name: "TrimSpace n = n \<Longrightarrow> TrimSpace (CHR '' '' # n) = n"
  by (simp add: TrimSpace_left is_space_def byte_val_def)

lemma head_name:
  assumes "h \<noteq> []" "\<not> is_space (last h)" "TrimSpace n = n"
  shows "HasPrefix (TrimRight_blank (h @ CHR '' '' # n)) h"
    "TrimSpace (TrimPrefix (TrimRight_blank (h @ CHR '' '' # n)) h) = n"
proof -
  obtain t where t: "TrimRight_blank (h @ CHR '' '' # n) = h @ t" "TrimSpace t = n"
    using TrimSpace_space_name [OF assms(3)] TrimRight_head [OF assms] by (cases "n = []") force+
  then show "HasPrefix (TrimRight_blank (h @ CHR '' '' # n)) h"
    "TrimSpace (TrimPrefix (TrimRight_blank (h @ CHR '' '' # n)) h) = n" by simp_all
qed

lemma TrimSpace_Join:
  assumes "list_all text_line ls"
  shows "TrimSpace (Join ls nl) = Join ls nl"
  using assms
proof (induction ls)
  case (Cons l ls)
  have l: "l \<noteq> []" "\<not> is_space (hd l)" "\<not> is_space (last l)"
    using Cons.prems by (auto simp: text_line_def name_ok_def TrimSpace_fix_iff)
  show ?case
  proof (cases "ls = []")
    case False
    have "Join ls nl \<noteq> []" using False Cons.prems by (cases ls; cases "tl ls") (auto simp: text_line_def)
    then have "\<not> is_space (last (Join ls nl))"
      using Cons by (auto simp: TrimSpace_fix_iff)
    then show ?thesis
      using False l \<open>Join ls nl \<noteq> []\<close> by (simp add: Join_map_Cons TrimSpace_fix_iff)
  qed (use l in \<open>simp add: TrimSpace_fix_iff\<close>)
qed simp

lemma newline_TrimSpace: "newline \<notin> set s \<Longrightarrow> newline \<notin> set (TrimSpace s)"
  using set_TrimSpace by blast

lemma newline_TrimRight: "newline \<notin> set s \<Longrightarrow> newline \<notin> set (TrimRight_blank s)"
  by (auto simp: TrimRight_blank_def dest: set_dropWhileD)

lemma newline_TrimPrefix: "newline \<notin> set s \<Longrightarrow> newline \<notin> set (TrimPrefix s p)"
  by (auto simp: TrimPrefix_def dest: in_set_dropD)

lemma name_ok_TrimSpace: "newline \<notin> set s \<Longrightarrow> name_ok (TrimSpace s)"
  by (simp add: name_ok_def newline_TrimSpace)

lemmas name_ok_intro = name_ok_TrimSpace newline_TrimPrefix newline_TrimRight newline_TrimSpace

section \<open>Headings and prose\<close>

text \<open>A line of prose that the reader cannot take for one of its headings, and a block of such lines.\<close>

definition plain_line :: "string list \<Rightarrow> string \<Rightarrow> bool" where
  "plain_line hs t \<longleftrightarrow> text_line t \<and> (\<forall>h \<in> set hs. \<not> HasPrefix t h)"

definition prose_ok :: "string list \<Rightarrow> string \<Rightarrow> bool" where
  "prose_ok hs p \<longleftrightarrow> list_all (plain_line hs) (prose_lines p)"

text \<open>A document none of whose lines becomes a heading once its indentation is removed.\<close>

definition tidy :: "string list \<Rightarrow> string \<Rightarrow> bool" where
  "tidy hs md \<longleftrightarrow> (\<forall>raw \<in> set (split_nl md). \<forall>h \<in> set hs.
     HasPrefix (TrimSpace (TrimRight_blank raw)) h \<longrightarrow> HasPrefix (TrimRight_blank raw) h)"

lemma plain_text: "plain_line hs t \<Longrightarrow> text_line t"
  by (simp add: plain_line_def)

lemma plain_trim: "plain_line hs t \<Longrightarrow> TrimSpace t = t \<and> TrimRight_blank t = t \<and> t \<noteq> [] \<and> newline \<notin> set t"
  by (simp add: plain_line_def text_line_def name_ok_def TrimRight_text)

lemma prose_ok_Join: "list_all (plain_line hs) ls \<Longrightarrow> prose_ok hs (Join ls nl)"
  unfolding prose_ok_def by (subst prose_lines_Join) (auto simp: list_all_iff plain_text)

lemma prose_no_newline: "prose_ok hs p \<Longrightarrow> \<forall>l \<in> set (prose_lines p). newline \<notin> set l"
  by (auto simp: prose_ok_def list_all_iff dest: plain_trim)

lemma TrimSpace_prose: "prose_ok hs p \<Longrightarrow> TrimSpace p = p"
proof -
  assume "prose_ok hs p"
  then have "list_all text_line (prose_lines p)" by (auto simp: prose_ok_def list_all_iff plain_text)
  from TrimSpace_Join [OF this] show ?thesis by (simp add: Join_prose_lines)
qed

lemma TrimSpace_Join_plain: "list_all (plain_line hs) ls \<Longrightarrow> TrimSpace (Join ls nl) = Join ls nl"
  by (rule TrimSpace_Join) (auto simp: list_all_iff plain_text)

lemma tidy_plain:
  assumes "tidy hs md" "raw \<in> set (split_nl md)" "\<forall>h \<in> set hs. \<not> HasPrefix (TrimRight_blank raw) h"
    "TrimSpace (TrimRight_blank raw) \<noteq> []"
  shows "plain_line hs (TrimSpace (TrimRight_blank raw))"
  using assms name_ok_TrimSpace [OF newline_TrimRight [OF split_nl_lines [OF assms(2)]]]
  by (auto simp: plain_line_def tidy_def text_line_def)

text \<open>A document format: what is read back from what was written, and what reading yields.\<close>

locale document_format =
  fixes parse :: "string \<Rightarrow> 'm" and render :: "'m \<Rightarrow> string" and good :: "'m \<Rightarrow> bool"
    and clean :: "string \<Rightarrow> bool" and modelled :: "'m \<Rightarrow> 'm"
  assumes read_back: "good m \<Longrightarrow> parse (render m) = modelled m"
    and read_good: "clean md \<Longrightarrow> good (parse md)"
    and render_modelled: "render (modelled m) = render m"
begin

lemma stable: "clean md \<Longrightarrow> parse (render (parse md)) = modelled (parse md)"
  by (simp add: read_back read_good)

lemma canonical: "clean md \<Longrightarrow> render (parse (render (parse md))) = render (parse md)"
  by (simp add: stable render_modelled)

lemma render_inject: "good m \<Longrightarrow> good m' \<Longrightarrow> render m = render m' \<Longrightarrow> modelled m = modelled m'"
  by (metis read_back)

end

end
