(* ===== verification/Openspec_Spec.thy ===== *)
theory Openspec_Spec
  imports Go_Lines
begin

text \<open>
  The OpenSpec capability specification: the model of \<^verbatim>\<open>openspec/model.go\<close>, the line-oriented reader
  \<^verbatim>\<open>ParseSpec\<close> (\<^verbatim>\<open>openspec/parse.go\<close>) and the writer \<^verbatim>\<open>RenderSpec\<close> (\<^verbatim>\<open>openspec/render.go\<close>). The local variables
  of the reader's loop are a state record, its two local closures functions on that record. A nil
  slice and an empty one are the same value.
\<close>

section \<open>Model\<close>

record Step =
  st_Keyword :: string
  st_Text :: string

record Scenario =
  sn_Name :: string
  sn_Steps :: "Step list"

record Requirement =
  r_Name :: string
  r_Statement :: string
  r_Scenarios :: "Scenario list"

record Spec =
  sp_Capability :: string
  sp_Title :: string
  sp_Purpose :: string
  sp_Requirements :: "Requirement list"
  sp_Warnings :: "string list"

section \<open>Bullets and steps\<close>

definition scenarioStepKeywords :: "string list" where
  "scenarioStepKeywords = [''GIVEN'', ''WHEN'', ''THEN'', ''AND'']"

definition bulletMarkers :: "string list" where
  "bulletMarkers = [''- '', ''* '', ''+ '']"

fun cut_first :: "string list \<Rightarrow> string \<Rightarrow> string option" where
  "cut_first [] s = None"
| "cut_first (m # ms) s = (if HasPrefix s m then Some (drop (length m) s) else cut_first ms s)"

definition bulletBody :: "string \<Rightarrow> string option" where
  "bulletBody trimmed = map_option TrimSpace (cut_first bulletMarkers trimmed)"

definition parseStep :: "string \<Rightarrow> Step" where
  "parseStep bullet =
     (let b = TrimSpace bullet; (head, rest, _) = CutChar b CHR '' ''; kw = ToUpper head
      in if kw \<in> set scenarioStepKeywords then \<lparr>st_Keyword = kw, st_Text = TrimSpace rest\<rparr>
         else \<lparr>st_Keyword = [], st_Text = b\<rparr>)"

section \<open>ParseSpec\<close>

abbreviation scenario_head :: string where "scenario_head \<equiv> ''#### Scenario:''"
abbreviation requirement_head :: string where "requirement_head \<equiv> ''### Requirement:''"

definition dropped_scenario :: "string \<Rightarrow> string" where
  "dropped_scenario name = ''scenario '' @ quote_str name @ '' before any requirement; dropped''"

record spec_state =
  ss_spec :: Spec
  ss_section :: string
  ss_purpose :: "string list"
  ss_stmt :: "string list"
  ss_req :: "Requirement option"
  ss_scen :: "Scenario option"

definition empty_spec :: Spec where
  "empty_spec = \<lparr>sp_Capability = [], sp_Title = [], sp_Purpose = [], sp_Requirements = [], sp_Warnings = []\<rparr>"

definition spec_start :: spec_state where
  "spec_start = \<lparr>ss_spec = empty_spec, ss_section = [], ss_purpose = [], ss_stmt = [], ss_req = None, ss_scen = None\<rparr>"

definition spec_flushScenario :: "spec_state \<Rightarrow> spec_state" where
  "spec_flushScenario st =
     (case (ss_req st, ss_scen st) of
        (Some r, Some sc) \<Rightarrow> st\<lparr>ss_req := Some (r\<lparr>r_Scenarios := r_Scenarios r @ [sc]\<rparr>), ss_scen := None\<rparr>
      | _ \<Rightarrow> st\<lparr>ss_scen := None\<rparr>)"

definition spec_flushRequirement :: "spec_state \<Rightarrow> spec_state" where
  "spec_flushRequirement st0 =
     (let st = spec_flushScenario st0;
          st' = (case ss_req st of
                   None \<Rightarrow> st
                 | Some r \<Rightarrow>
                     (let r' = (if ss_stmt st \<noteq> [] then r\<lparr>r_Statement := TrimSpace (Join (ss_stmt st) nl)\<rparr> else r)
                      in st\<lparr>ss_spec := (ss_spec st)\<lparr>sp_Requirements := sp_Requirements (ss_spec st) @ [r']\<rparr>\<rparr>))
      in st'\<lparr>ss_req := None, ss_stmt := []\<rparr>)"

definition spec_section :: "string \<Rightarrow> string" where
  "spec_section heading =
     (let h = ToLower (TrimSpace heading)
      in if h = ''purpose'' then ''purpose'' else if h = ''requirements'' then ''requirements'' else [])"

definition spec_line :: "spec_state \<Rightarrow> string \<Rightarrow> spec_state" where
  "spec_line st raw =
     (let line = TrimRight_blank raw; trimmed = TrimSpace line in
      if HasPrefix line scenario_head then
        (let st1 = spec_flushScenario st; name = TrimSpace (TrimPrefix line scenario_head)
         in if ss_req st1 = None
            then st1\<lparr>ss_spec := (ss_spec st1)\<lparr>sp_Warnings := sp_Warnings (ss_spec st1) @ [dropped_scenario name]\<rparr>\<rparr>
            else st1\<lparr>ss_scen := Some \<lparr>sn_Name = name, sn_Steps = []\<rparr>\<rparr>)
      else if HasPrefix line requirement_head then
        (spec_flushRequirement st)\<lparr>ss_req := Some \<lparr>r_Name = TrimSpace (TrimPrefix line requirement_head),
           r_Statement = [], r_Scenarios = []\<rparr>\<rparr>
      else if HasPrefix line ''## '' then
        (spec_flushRequirement st)\<lparr>ss_section := spec_section (TrimPrefix line ''## '')\<rparr>
      else if HasPrefix line ''# '' then
        st\<lparr>ss_spec := (ss_spec st)\<lparr>sp_Title := TrimSpace (TrimPrefix line ''# '')\<rparr>\<rparr>
      else if trimmed = [] then st
      else (case (bulletBody trimmed, ss_scen st) of
              (Some body, Some sc) \<Rightarrow> st\<lparr>ss_scen := Some (sc\<lparr>sn_Steps := sn_Steps sc @ [parseStep body]\<rparr>)\<rparr>
            | _ \<Rightarrow>
                if ss_section st = ''purpose'' then st\<lparr>ss_purpose := ss_purpose st @ [trimmed]\<rparr>
                else if ss_req st \<noteq> None \<and> ss_scen st = None then st\<lparr>ss_stmt := ss_stmt st @ [trimmed]\<rparr>
                else st))"

definition ParseSpec :: "string \<Rightarrow> Spec" where
  "ParseSpec md =
     (let st = spec_flushRequirement (foldl spec_line spec_start (split_nl md))
      in (ss_spec st)\<lparr>sp_Purpose := TrimSpace (Join (ss_purpose st) nl)\<rparr>)"

section \<open>RenderSpec\<close>

definition renderStep :: "Step \<Rightarrow> string" where
  "renderStep st = ''- '' @
     (if st_Keyword st \<noteq> [] then st_Keyword st @ (if st_Text st \<noteq> [] then '' '' @ st_Text st else []) else st_Text st) @ nl"

definition renderScenario :: "Scenario \<Rightarrow> string" where
  "renderScenario sc = nl @ ''#### Scenario: '' @ sn_Name sc @ nl @ concat (map renderStep (sn_Steps sc))"

definition renderRequirement :: "Requirement \<Rightarrow> string \<Rightarrow> string \<Rightarrow> string" where
  "renderRequirement r previously rationale =
     nl @ ''### Requirement: '' @ r_Name r @ nl @
     (if r_Statement r \<noteq> [] then r_Statement r @ nl else []) @
     (if previously \<noteq> [] then ''(Previously: '' @ previously @ '')'' @ nl else []) @
     (if rationale \<noteq> [] then ''(Rationale: '' @ rationale @ '')'' @ nl else []) @
     concat (map renderScenario (r_Scenarios r))"

definition RenderSpec :: "Spec \<Rightarrow> string" where
  "RenderSpec s =
     ''# '' @ sp_Title s @ nl @
     (if sp_Purpose s \<noteq> [] then nl @ ''## Purpose'' @ nl @ sp_Purpose s @ nl else []) @
     nl @ ''## Requirements'' @ nl @
     concat (map (\<lambda>r. renderRequirement r [] []) (sp_Requirements s))"

section \<open>The writer, line by line\<close>

definition step_line :: "Step \<Rightarrow> string" where
  "step_line st = ''- '' @
     (if st_Keyword st \<noteq> [] then st_Keyword st @ (if st_Text st \<noteq> [] then '' '' @ st_Text st else []) else st_Text st)"

definition scenario_lines :: "Scenario \<Rightarrow> string list" where
  "scenario_lines sc = [[], ''#### Scenario: '' @ sn_Name sc] @ map step_line (sn_Steps sc)"

definition annotation :: "string \<Rightarrow> string \<Rightarrow> string list" where
  "annotation label v = (if v = [] then [] else [''('' @ label @ '': '' @ v @ '')''])"

definition requirement_lines :: "Requirement \<Rightarrow> string \<Rightarrow> string \<Rightarrow> string list" where
  "requirement_lines r previously rationale = [[], ''### Requirement: '' @ r_Name r] @ prose_lines (r_Statement r) @
     annotation ''Previously'' previously @ annotation ''Rationale'' rationale @ concat (map scenario_lines (r_Scenarios r))"

definition spec_lines :: "Spec \<Rightarrow> string list" where
  "spec_lines s = [''# '' @ sp_Title s] @
     (if sp_Purpose s \<noteq> [] then [[], ''## Purpose''] @ prose_lines (sp_Purpose s) else []) @
     [[], ''## Requirements''] @ concat (map (\<lambda>r. requirement_lines r [] []) (sp_Requirements s))"

lemma renderStep_line: "renderStep = (\<lambda>st. step_line st @ nl)"
  by (simp add: fun_eq_iff renderStep_def step_line_def)

lemma write_scenario: "write_lines (scenario_lines sc) = renderScenario sc"
  by (simp add: scenario_lines_def renderScenario_def renderStep_line write_lines_Cons)
    (simp add: write_lines_def comp_def)

lemma write_requirement: "write_lines (requirement_lines r p q) = renderRequirement r p q"
  by (simp add: requirement_lines_def renderRequirement_def write_lines_Cons annotation_def write_prose_lines
      write_lines_concat write_scenario)

lemma write_spec: "write_lines (spec_lines s) = RenderSpec s"
  by (simp add: spec_lines_def RenderSpec_def write_lines_Cons write_prose_lines write_lines_concat write_requirement)

section \<open>Steps and scenarios are read back\<close>

definition first_word :: "string \<Rightarrow> string" where
  "first_word s = takeWhile (\<lambda>d. d \<noteq> CHR '' '') s"

definition step_ok :: "Step \<Rightarrow> bool" where
  "step_ok st \<longleftrightarrow> name_ok (st_Text st) \<and>
     (if st_Keyword st = [] then st_Text st \<noteq> [] \<and> ToUpper (first_word (st_Text st)) \<notin> set scenarioStepKeywords
      else st_Keyword st \<in> set scenarioStepKeywords)"

definition scenario_ok :: "Scenario \<Rightarrow> bool" where
  "scenario_ok sc \<longleftrightarrow> name_ok (sn_Name sc) \<and> list_all step_ok (sn_Steps sc)"

lemma CutChar_word: "c \<notin> set w \<Longrightarrow> CutChar (w @ c # t) c = (w, t, True)"
  by (induction w) (auto simp: CutChar_def)

lemma CutChar_none: "c \<notin> set w \<Longrightarrow> CutChar w c = (w, [], False)"
  by (induction w) (auto simp: CutChar_def)

lemma keyword_facts:
  assumes "kw \<in> set scenarioStepKeywords"
  shows "ToUpper kw = kw \<and> CHR '' '' \<notin> set kw \<and> newline \<notin> set kw \<and> kw \<noteq> [] \<and> \<not> is_space (hd kw) \<and> \<not> is_space (last kw)"
proof -
  have "\<forall>kw \<in> set scenarioStepKeywords. ToUpper kw = kw \<and> CHR '' '' \<notin> set kw \<and> newline \<notin> set kw \<and> kw \<noteq> [] \<and> \<not> is_space (hd kw) \<and> \<not> is_space (last kw)"
    by code_simp
  then show ?thesis using assms by blast
qed

text \<open>The body of a written step, and that it is trimmed.\<close>

definition step_body :: "Step \<Rightarrow> string" where
  "step_body st = (if st_Keyword st \<noteq> [] then st_Keyword st @ (if st_Text st \<noteq> [] then '' '' @ st_Text st else []) else st_Text st)"

lemma step_body_trim: "step_ok st \<Longrightarrow> step_body st \<noteq> [] \<and> TrimSpace (step_body st) = step_body st \<and> newline \<notin> set (step_body st)"
  using keyword_facts [of "st_Keyword st"]
  by (auto simp: step_ok_def step_body_def name_ok_def TrimSpace_fix_iff split: if_splits)

lemma parseStep_body: "step_ok st \<Longrightarrow> parseStep (step_body st) = st"
proof -
  assume ok: "step_ok st"
  note trim = step_body_trim [OF ok]
  show ?thesis
  proof (cases "st_Keyword st = []")
    case True
    then show ?thesis
      using ok trim by (simp add: parseStep_def CutChar_def step_ok_def step_body_def first_word_def Let_def)
  next
    case False
    then have kw: "st_Keyword st \<in> set scenarioStepKeywords" using ok by (simp add: step_ok_def)
    have "CutChar (step_body st) CHR '' '' = (st_Keyword st, st_Text st, st_Text st \<noteq> [])"
      using keyword_facts [OF kw] False by (simp add: step_body_def CutChar_word CutChar_none)
    then show ?thesis using trim kw keyword_facts [OF kw] ok by (simp add: parseStep_def step_ok_def name_ok_def Let_def)
  qed
qed

lemma step_line_body: "step_line st = ''- '' @ step_body st"
  by (simp add: step_line_def step_body_def)

lemma bulletBody_step: "step_ok st \<Longrightarrow> bulletBody (step_line st) = Some (step_body st)"
  using step_body_trim [of st] by (simp add: bulletBody_def bulletMarkers_def step_line_body HasPrefix_def)

abbreviation spec_heads :: "string list" where
  "spec_heads \<equiv> [scenario_head, requirement_head, ''## '', ''# '']"

lemma step_line_plain: "step_ok st \<Longrightarrow> plain_line spec_heads (step_line st)"
  using step_body_trim [of st]
  by (auto simp: plain_line_def text_line_def name_ok_def step_line_body HasPrefix_def TrimSpace_fix_iff is_space_def byte_val_def)

text \<open>
  The reader of a document with requirements, as far as scenarios go: \<open>opened\<close> when a requirement is
  open, \<open>put\<close> sets the current scenario, \<open>add\<close> appends a finished one to the open requirement.
\<close>

locale scenario_reader =
  fixes line :: "'s \<Rightarrow> string \<Rightarrow> 's" and flush :: "'s \<Rightarrow> 's" and opened :: "'s \<Rightarrow> bool"
    and put :: "Scenario \<Rightarrow> 's \<Rightarrow> 's" and add :: "Scenario \<Rightarrow> 's \<Rightarrow> 's"
  assumes blank: "line st [] = st"
    and header: "opened st \<Longrightarrow> name_ok n \<Longrightarrow> line st (''#### Scenario: '' @ n) = put \<lparr>sn_Name = n, sn_Steps = []\<rparr> (flush st)"
    and bullet: "step_ok s \<Longrightarrow> line (put sc st) (step_line s) = put (sc\<lparr>sn_Steps := sn_Steps sc @ [s]\<rparr>) st"
    and flush_put: "opened st \<Longrightarrow> flush (put sc (flush st)) = add sc (flush st)"
    and flush_flush: "flush (flush st) = flush st"
    and flush_add: "flush (add sc (flush st)) = add sc (flush st)"
    and opened_put: "opened (put sc (flush st)) = opened st"
begin

lemma bullets:
  "list_all step_ok ss \<Longrightarrow> foldl line (put sc st) (map step_line ss) = put (sc\<lparr>sn_Steps := sn_Steps sc @ ss\<rparr>) st"
proof (induction ss arbitrary: sc)
  case (Cons s ss)
  then show ?case using Cons.IH [of "sc\<lparr>sn_Steps := sn_Steps sc @ [s]\<rparr>"] by (simp add: bullet)
qed simp

lemma scenario:
  assumes "opened st" "scenario_ok sc"
  shows "foldl line st (scenario_lines sc) = put sc (flush st)"
  using assms header [of st "sn_Name sc"] bullets [of "sn_Steps sc" "\<lparr>sn_Name = sn_Name sc, sn_Steps = []\<rparr>" "flush st"]
  by (cases sc) (simp add: scenario_lines_def scenario_ok_def blank)

lemma scenarios:
  "opened st \<Longrightarrow> list_all scenario_ok scs \<Longrightarrow>
   flush (foldl line st (concat (map scenario_lines scs))) = foldl (\<lambda>s sc. add sc s) (flush st) scs"
proof (induction scs arbitrary: st)
  case (Cons sc scs)
  have "foldl line st (scenario_lines sc) = put sc (flush st)" using Cons.prems by (simp add: scenario)
  then show ?case
    using Cons.IH [of "put sc (flush st)"] Cons.prems by (simp add: opened_put flush_put)
qed simp

end

section \<open>Requirements are read back\<close>

definition requirement_ok :: "Requirement \<Rightarrow> bool" where
  "requirement_ok r \<longleftrightarrow> name_ok (r_Name r) \<and> prose_ok spec_heads (r_Statement r) \<and> list_all scenario_ok (r_Scenarios r)"

definition spec_ok :: "Spec \<Rightarrow> bool" where
  "spec_ok s \<longleftrightarrow> name_ok (sp_Title s) \<and> prose_ok spec_heads (sp_Purpose s) \<and> list_all requirement_ok (sp_Requirements s)"

lemma spec_line_blank: "spec_line st [] = st"
  by (simp add: spec_line_def TrimRight_blank_def HasPrefix_def)

lemma spec_line_plain:
  "plain_line spec_heads t \<Longrightarrow> spec_line st t =
     (case (bulletBody t, ss_scen st) of
        (Some body, Some sc) \<Rightarrow> st\<lparr>ss_scen := Some (sc\<lparr>sn_Steps := sn_Steps sc @ [parseStep body]\<rparr>)\<rparr>
      | _ \<Rightarrow> if ss_section st = ''purpose'' then st\<lparr>ss_purpose := ss_purpose st @ [t]\<rparr>
             else if ss_req st \<noteq> None \<and> ss_scen st = None then st\<lparr>ss_stmt := ss_stmt st @ [t]\<rparr>
             else st)"
  using plain_trim [of spec_heads t] by (simp add: spec_line_def plain_line_def)

lemma space_facts: "\<not> is_space CHR '':''" "\<not> is_space CHR ''#''" "\<not> is_space CHR ''-''" "is_space CHR '' ''"
  by (simp_all add: is_space_def byte_val_def)

lemma spec_line_requirement:
  assumes "name_ok n"
  shows "spec_line st (''### Requirement: '' @ n) =
     (spec_flushRequirement st)\<lparr>ss_req := Some \<lparr>r_Name = n, r_Statement = [], r_Scenarios = []\<rparr>\<rparr>"
proof -
  have n: "TrimSpace n = n" using assms by (simp add: name_ok_def)
  note h = head_name [where h = requirement_head, OF _ _ n]
  obtain t where t: "TrimRight_blank (requirement_head @ CHR '' '' # n) = requirement_head @ t"
    using TrimRight_head [where h = requirement_head, OF _ _ n] by (cases "n = []") (force simp: space_facts)+
  then have "\<not> HasPrefix (TrimRight_blank (requirement_head @ CHR '' '' # n)) scenario_head" by (simp add: HasPrefix_def)
  then show ?thesis using h by (simp add: spec_line_def space_facts)
qed

lemma spec_line_scenario:
  assumes "name_ok n"
  shows "spec_line st (''#### Scenario: '' @ n) =
     (let st1 = spec_flushScenario st in if ss_req st1 = None
        then st1\<lparr>ss_spec := (ss_spec st1)\<lparr>sp_Warnings := sp_Warnings (ss_spec st1) @ [dropped_scenario n]\<rparr>\<rparr>
        else st1\<lparr>ss_scen := Some \<lparr>sn_Name = n, sn_Steps = []\<rparr>\<rparr>)"
  using head_name [where h = scenario_head, of n] assms by (simp add: spec_line_def space_facts name_ok_def Let_def)

interpretation spec_scenarios: scenario_reader spec_line spec_flushScenario "\<lambda>st. ss_req st \<noteq> None"
  "\<lambda>sc st. st\<lparr>ss_scen := Some sc\<rparr>" "\<lambda>sc st. st\<lparr>ss_req := map_option (\<lambda>r. r\<lparr>r_Scenarios := r_Scenarios r @ [sc]\<rparr>) (ss_req st)\<rparr>"
proof
  fix st n s sc
  show "spec_line st [] = st" by (rule spec_line_blank)
  show "spec_line st (''#### Scenario: '' @ n) = spec_flushScenario st\<lparr>ss_scen := Some \<lparr>sn_Name = n, sn_Steps = []\<rparr>\<rparr>"
    if "ss_req st \<noteq> None" "name_ok n"
    using that spec_line_scenario [OF that(2)] by (auto simp: spec_flushScenario_def Let_def split: option.splits)
  show "spec_line (st\<lparr>ss_scen := Some sc\<rparr>) (step_line s) = st\<lparr>ss_scen := Some (sc\<lparr>sn_Steps := sn_Steps sc @ [s]\<rparr>)\<rparr>"
    if "step_ok s"
    using spec_line_plain [OF step_line_plain [OF that]] bulletBody_step [OF that] parseStep_body [OF that] by simp
qed (auto simp: spec_flushScenario_def split: option.splits)

lemma fold_add_scenarios:
  "foldl (\<lambda>st sc. st\<lparr>ss_req := map_option (\<lambda>r. r\<lparr>r_Scenarios := r_Scenarios r @ [sc]\<rparr>) (ss_req st)\<rparr>) st scs =
   st\<lparr>ss_req := map_option (\<lambda>r. r\<lparr>r_Scenarios := r_Scenarios r @ scs\<rparr>) (ss_req st)\<rparr>"
  by (induction scs arbitrary: st) (simp_all add: option.map_comp comp_def option.map_ident)

lemma spec_statement:
  "list_all (plain_line spec_heads) ls \<Longrightarrow> ss_section st \<noteq> ''purpose'' \<Longrightarrow> ss_req st \<noteq> None \<Longrightarrow> ss_scen st = None \<Longrightarrow>
   foldl spec_line st ls = st\<lparr>ss_stmt := ss_stmt st @ ls\<rparr>"
  by (induction ls arbitrary: st) (simp_all add: spec_line_plain split: option.split)

lemma spec_purpose:
  "list_all (plain_line spec_heads) ls \<Longrightarrow> ss_section st = ''purpose'' \<Longrightarrow> ss_scen st = None \<Longrightarrow>
   foldl spec_line st ls = st\<lparr>ss_purpose := ss_purpose st @ ls\<rparr>"
  by (induction ls arbitrary: st) (simp_all add: spec_line_plain split: option.split)

lemma spec_section_kept: "ss_section (spec_flushScenario st) = ss_section st" "ss_section (spec_flushRequirement st) = ss_section st"
  by (simp_all add: spec_flushScenario_def spec_flushRequirement_def Let_def split: option.split)

lemma spec_flush_flush: "spec_flushRequirement (spec_flushScenario st) = spec_flushRequirement st"
  by (simp add: spec_flushScenario_def spec_flushRequirement_def split: option.split)

lemma spec_flush_clears:
  "ss_stmt (spec_flushRequirement st) = []" "ss_req (spec_flushRequirement st) = None" "ss_scen (spec_flushRequirement st) = None"
  by (simp_all add: spec_flushRequirement_def spec_flushScenario_def Let_def split: option.split)

lemma spec_requirement:
  assumes "requirement_ok r" "ss_section st \<noteq> ''purpose''"
  shows "spec_flushRequirement (foldl spec_line st (requirement_lines r [] [])) =
     (spec_flushRequirement st)\<lparr>ss_spec := (ss_spec (spec_flushRequirement st))\<lparr>sp_Requirements := sp_Requirements (ss_spec (spec_flushRequirement st)) @ [r]\<rparr>\<rparr>"
proof -
  define st1 where "st1 = (spec_flushRequirement st)\<lparr>ss_req := Some \<lparr>r_Name = r_Name r, r_Statement = [], r_Scenarios = []\<rparr>\<rparr>"
  define st2 where "st2 = st1\<lparr>ss_stmt := prose_lines (r_Statement r)\<rparr>"
  have r: "name_ok (r_Name r)" "list_all (plain_line spec_heads) (prose_lines (r_Statement r))" "list_all scenario_ok (r_Scenarios r)"
    "TrimSpace (r_Statement r) = r_Statement r"
    using assms(1) by (auto simp: requirement_ok_def prose_ok_def intro!: TrimSpace_prose [of spec_heads])
  have st1: "ss_scen st1 = None" "ss_stmt st1 = []" "ss_section st1 = ss_section st"
    by (simp_all add: st1_def spec_section_kept) (simp_all add: spec_flushRequirement_def spec_flushScenario_def Let_def split: option.split)
  have "foldl spec_line st ([[], ''### Requirement: '' @ r_Name r] @ prose_lines (r_Statement r)) = st2"
    using spec_line_requirement [OF r(1)] spec_statement [OF r(2), of st1] st1 assms(2)
    by (simp add: st2_def spec_line_blank st1_def)
  then have "foldl spec_line st (requirement_lines r [] []) = foldl spec_line st2 (concat (map scenario_lines (r_Scenarios r)))"
    by (simp add: requirement_lines_def annotation_def)
  moreover have flush2: "spec_flushScenario st2 = st2" "ss_req st2 = Some \<lparr>r_Name = r_Name r, r_Statement = [], r_Scenarios = []\<rparr>"
    using st1 by (simp_all add: st2_def spec_flushScenario_def) (simp_all add: st1_def)
  moreover have "spec_flushScenario (foldl spec_line st2 (concat (map scenario_lines (r_Scenarios r)))) =
      st2\<lparr>ss_req := Some \<lparr>r_Name = r_Name r, r_Statement = [], r_Scenarios = r_Scenarios r\<rparr>\<rparr>"
    using spec_scenarios.scenarios [of st2 "r_Scenarios r"] r(3) flush2 by (simp add: fold_add_scenarios)
  ultimately have "spec_flushRequirement (foldl spec_line st (requirement_lines r [] [])) =
      spec_flushRequirement (st2\<lparr>ss_req := Some \<lparr>r_Name = r_Name r, r_Statement = [], r_Scenarios = r_Scenarios r\<rparr>\<rparr>)"
    by (metis spec_flush_flush)
  also have "\<dots> = (spec_flushRequirement st)\<lparr>ss_spec := (ss_spec (spec_flushRequirement st))\<lparr>sp_Requirements := sp_Requirements (ss_spec (spec_flushRequirement st)) @ [r]\<rparr>\<rparr>"
  proof -
    obtain sp sec pur where F: "spec_flushRequirement st = \<lparr>ss_spec = sp, ss_section = sec, ss_purpose = pur, ss_stmt = [], ss_req = None, ss_scen = None\<rparr>"
      using spec_flush_clears [of st] by (cases "spec_flushRequirement st") auto
    show ?thesis
      using r(4) unfolding st2_def st1_def F
      by (cases r; cases "r_Statement r = []") (simp_all add: spec_flushRequirement_def spec_flushScenario_def prose_lines_def Join_split_nl)
  qed
  finally show ?thesis .
qed

section \<open>Specifications are read back\<close>

lemma spec_requirements:
  "list_all requirement_ok rs \<Longrightarrow> ss_section st \<noteq> ''purpose'' \<Longrightarrow>
   spec_flushRequirement (foldl spec_line st (concat (map (\<lambda>r. requirement_lines r [] []) rs))) =
     (spec_flushRequirement st)\<lparr>ss_spec := (ss_spec (spec_flushRequirement st))\<lparr>sp_Requirements := sp_Requirements (ss_spec (spec_flushRequirement st)) @ rs\<rparr>\<rparr>"
proof (induction rs arbitrary: st)
  case (Cons r rs)
  let ?st = "foldl spec_line st (requirement_lines r [] [])"
  have one: "spec_flushRequirement ?st = (spec_flushRequirement st)\<lparr>ss_spec := (ss_spec (spec_flushRequirement st))\<lparr>sp_Requirements := sp_Requirements (ss_spec (spec_flushRequirement st)) @ [r]\<rparr>\<rparr>"
    using spec_requirement Cons.prems by simp
  then have "ss_section ?st \<noteq> ''purpose''"
    using Cons.prems(2) by (metis (no_types, lifting) spec_section_kept(2) spec_state.simps(2) spec_state.surjective spec_state.update_convs(1))
  then show ?case using Cons.IH [of ?st] Cons.prems one by simp
qed simp

lemma spec_line_title:
  "name_ok t \<Longrightarrow> spec_line spec_start (''# '' @ t) = spec_start\<lparr>ss_spec := empty_spec\<lparr>sp_Title := t\<rparr>\<rparr>"
proof (cases "t = []")
  case True
  then show ?thesis
    by (simp add: spec_line_def TrimRight_blank_def blank_char_def HasPrefix_def TrimSpace_def space_facts bulletBody_def
        bulletMarkers_def spec_start_def empty_spec_def)
next
  case False
  assume "name_ok t"
  then have "TrimRight_blank (''# '' @ t) = ''# '' @ t" "TrimSpace t = t"
    using False TrimRight_head [of "''#''" t] by (simp_all add: name_ok_def space_facts)
  then show ?thesis by (simp add: spec_line_def HasPrefix_def TrimPrefix_def spec_start_def)
qed

lemma spec_line_sections:
  "spec_line st ''## Purpose'' = (spec_flushRequirement st)\<lparr>ss_section := ''purpose''\<rparr>"
  "spec_line st ''## Requirements'' = (spec_flushRequirement st)\<lparr>ss_section := ''requirements''\<rparr>"
proof -
  have "TrimRight_blank ''## Purpose'' = ''## Purpose''" "TrimRight_blank ''## Requirements'' = ''## Requirements''"
    "spec_section ''Purpose'' = ''purpose''" "spec_section ''Requirements'' = ''requirements''" by code_simp+
  then show "spec_line st ''## Purpose'' = (spec_flushRequirement st)\<lparr>ss_section := ''purpose''\<rparr>"
    "spec_line st ''## Requirements'' = (spec_flushRequirement st)\<lparr>ss_section := ''requirements''\<rparr>"
    by (simp_all add: spec_line_def HasPrefix_def TrimPrefix_def)
qed

lemma requirement_lines_plain: "requirement_ok r \<Longrightarrow> \<forall>l \<in> set (requirement_lines r [] []). newline \<notin> set l"
proof -
  assume r: "requirement_ok r"
  then have "\<forall>l \<in> set (prose_lines (r_Statement r)). newline \<notin> set l" "newline \<notin> set (r_Name r)"
    using prose_no_newline [of spec_heads] by (auto simp: requirement_ok_def name_ok_def)
  moreover have "\<forall>l \<in> set (scenario_lines sc). newline \<notin> set l" if "sc \<in> set (r_Scenarios r)" for sc
    using r that step_line_plain plain_trim by (auto simp: requirement_ok_def list_all_iff scenario_lines_def scenario_ok_def name_ok_def) blast+
  ultimately show ?thesis by (auto simp: requirement_lines_def annotation_def)
qed

lemma spec_lines_plain: "spec_ok s \<Longrightarrow> \<forall>l \<in> set (spec_lines s). newline \<notin> set l"
  using prose_no_newline [of spec_heads "sp_Purpose s"] requirement_lines_plain
  by (auto simp: spec_lines_def spec_ok_def name_ok_def list_all_iff)

definition spec_modelled :: "Spec \<Rightarrow> Spec" where
  "spec_modelled s = s\<lparr>sp_Capability := [], sp_Warnings := []\<rparr>"

definition spec_headed :: "Spec \<Rightarrow> spec_state" where
  "spec_headed s = spec_start\<lparr>ss_spec := empty_spec\<lparr>sp_Title := sp_Title s\<rparr>, ss_purpose := prose_lines (sp_Purpose s), ss_section := ''requirements''\<rparr>"

lemma spec_lines_read:
  assumes "spec_ok s"
  shows "spec_flushRequirement (foldl spec_line spec_start (spec_lines s)) =
     (spec_headed s)\<lparr>ss_spec := empty_spec\<lparr>sp_Title := sp_Title s, sp_Requirements := sp_Requirements s\<rparr>\<rparr>"
proof -
  have s: "name_ok (sp_Title s)" "list_all (plain_line spec_heads) (prose_lines (sp_Purpose s))" "list_all requirement_ok (sp_Requirements s)"
    using assms by (auto simp: spec_ok_def prose_ok_def)
  have "foldl spec_line spec_start ([''# '' @ sp_Title s] @ (if sp_Purpose s \<noteq> [] then [[], ''## Purpose''] @ prose_lines (sp_Purpose s) else []) @ [[], ''## Requirements'']) = spec_headed s"
    using spec_line_title [OF s(1)] s(2)
    by (auto simp: spec_headed_def spec_line_blank spec_line_sections spec_purpose spec_flushRequirement_def spec_flushScenario_def spec_start_def prose_lines_def)
  then have "foldl spec_line spec_start (spec_lines s) = foldl spec_line (spec_headed s) (concat (map (\<lambda>r. requirement_lines r [] []) (sp_Requirements s)))"
    by (simp add: spec_lines_def spec_line_blank)
  moreover have "spec_flushRequirement (spec_headed s) = spec_headed s"
    by (simp add: spec_headed_def spec_start_def spec_flushRequirement_def spec_flushScenario_def)
  ultimately show ?thesis
    using spec_requirements [OF s(3), of "spec_headed s"] by (simp add: spec_headed_def empty_spec_def)
qed

lemma ParseSpec_RenderSpec:
  assumes "spec_ok s"
  shows "ParseSpec (RenderSpec s) = spec_modelled s"
proof -
  have "TrimSpace (sp_Purpose s) = sp_Purpose s"
    using assms by (auto simp: spec_ok_def intro!: TrimSpace_prose [of spec_heads])
  then show ?thesis
    using split_nl_written [OF spec_lines_plain [OF assms]] spec_lines_read [OF assms]
    by (cases s) (simp add: ParseSpec_def write_spec spec_headed_def spec_start_def empty_spec_def spec_modelled_def
        Join_prose_lines Let_def spec_line_blank)
qed

section \<open>What is read can be written\<close>

lemma TrimSpace_eq_Nil: "TrimSpace s = [] \<longleftrightarrow> (\<forall>c \<in> set s. is_space c)"
proof -
  have "(\<forall>c \<in> set (dropWhile is_space s). is_space c) \<longleftrightarrow> (\<forall>c \<in> set s. is_space c)"
    by (induction s) auto
  then show ?thesis by (simp add: TrimSpace_def)
qed

lemma TrimSpace_neq_Nil: "s \<noteq> [] \<Longrightarrow> \<not> is_space (last s) \<Longrightarrow> TrimSpace s \<noteq> []"
  using last_in_set by (auto simp: TrimSpace_eq_Nil)

lemma bulletBody_name: "text_line t \<Longrightarrow> bulletBody t = Some body \<Longrightarrow> text_line body"
proof -
  assume t: "text_line t" and b: "bulletBody t = Some body"
  have "\<exists>m rest. t = m @ rest \<and> body = TrimSpace rest \<and> is_space (last m) \<and> m \<noteq> []"
    using b by (auto simp: bulletBody_def bulletMarkers_def HasPrefix_iff prefix_def space_facts split: if_splits)
      (metis append.simps last.simps list.distinct(1) space_facts(4))+
  then obtain m rest where m: "t = m @ rest" "body = TrimSpace rest" "is_space (last m)" by blast
  then have "rest \<noteq> []" "\<not> is_space (last rest)"
    using t by (auto simp: text_line_def name_ok_def TrimSpace_fix_iff last_append split: if_splits)
  then show ?thesis
    using t m TrimSpace_neq_Nil [of rest] name_ok_TrimSpace [of rest] by (auto simp: text_line_def name_ok_def)
qed

lemma parseStep_ok: "text_line b \<Longrightarrow> step_ok (parseStep b)"
proof -
  assume b: "text_line b"
  have "newline \<notin> set (drop 1 (dropWhile (\<lambda>d. d \<noteq> CHR '' '') b))"
    using b by (auto simp: text_line_def name_ok_def dest: in_set_dropD set_dropWhileD)
  from name_ok_TrimSpace [OF this] show ?thesis
    using b keyword_facts by (auto simp: parseStep_def CutChar_def step_ok_def text_line_def name_ok_def first_word_def Let_def)
qed

definition spec_state_ok :: "spec_state \<Rightarrow> bool" where
  "spec_state_ok st \<longleftrightarrow> name_ok (sp_Title (ss_spec st)) \<and> list_all requirement_ok (sp_Requirements (ss_spec st)) \<and>
     list_all (plain_line spec_heads) (ss_purpose st) \<and> list_all (plain_line spec_heads) (ss_stmt st) \<and>
     (\<forall>r. ss_req st = Some r \<longrightarrow> name_ok (r_Name r) \<and> r_Statement r = [] \<and> list_all scenario_ok (r_Scenarios r)) \<and>
     (\<forall>sc. ss_scen st = Some sc \<longrightarrow> scenario_ok sc)"

lemma prose_ok_Nil: "prose_ok hs []"
  by (simp add: prose_ok_def prose_lines_def)

lemma spec_flushScenario_ok: "spec_state_ok st \<Longrightarrow> spec_state_ok (spec_flushScenario st)"
  by (auto simp: spec_flushScenario_def spec_state_ok_def split: option.splits)

lemma spec_flushRequirement_ok: "spec_state_ok st \<Longrightarrow> spec_state_ok (spec_flushRequirement st)"
proof -
  assume "spec_state_ok st"
  from spec_flushScenario_ok [OF this] show ?thesis
    by (auto simp: spec_flushRequirement_def Let_def spec_state_ok_def requirement_ok_def prose_ok_Nil TrimSpace_Join_plain
        intro: prose_ok_Join split: option.splits)
qed

lemma spec_line_ok:
  assumes "spec_state_ok st" "tidy spec_heads md" "raw \<in> set (split_nl md)"
  shows "spec_state_ok (spec_line st raw)"
proof -
  let ?line = "TrimRight_blank raw"
  have name: "name_ok (TrimSpace (TrimPrefix ?line h))" for h
    by (intro name_ok_TrimSpace newline_TrimPrefix newline_TrimRight split_nl_lines [OF assms(3)])
  note fS = spec_flushScenario_ok [OF assms(1)] and fR = spec_flushRequirement_ok [OF assms(1)]
  show ?thesis
  proof (cases "\<exists>h \<in> set spec_heads. HasPrefix ?line h")
    case True
    then consider (sc) "HasPrefix ?line scenario_head"
      | (rq) "\<not> HasPrefix ?line scenario_head" "HasPrefix ?line requirement_head"
      | (sec) "\<not> HasPrefix ?line scenario_head" "\<not> HasPrefix ?line requirement_head" "HasPrefix ?line ''## ''"
      | (ti) "\<not> HasPrefix ?line scenario_head" "\<not> HasPrefix ?line requirement_head" "\<not> HasPrefix ?line ''## ''" "HasPrefix ?line ''# ''"
      by auto
    then show ?thesis
    proof cases
      case sc
      then show ?thesis using fS name [of scenario_head] by (simp add: spec_line_def Let_def spec_state_ok_def scenario_ok_def)
    next
      case rq
      then show ?thesis using fR name [of requirement_head] by (simp add: spec_line_def Let_def spec_state_ok_def)
    next
      case sec
      then show ?thesis using fR by (simp add: spec_line_def Let_def spec_state_ok_def)
    next
      case ti
      then show ?thesis using assms(1) name [of "''# ''"] by (simp add: spec_line_def Let_def spec_state_ok_def)
    qed
  next
    case False
    then show ?thesis
    proof (cases "TrimSpace ?line = []")
      case blank: True
      then show ?thesis using False assms(1) by (simp add: spec_line_def)
    next
      case nonblank: False
      let ?t = "TrimSpace ?line"
      have plain: "plain_line spec_heads ?t" using tidy_plain [OF assms(2,3)] False nonblank by auto
      have "step_ok (parseStep body)" if "bulletBody ?t = Some body" for body
        using parseStep_ok bulletBody_name that plain_text [OF plain] by blast
      moreover have "spec_line st raw = (case (bulletBody ?t, ss_scen st) of
          (Some body, Some sc) \<Rightarrow> st\<lparr>ss_scen := Some (sc\<lparr>sn_Steps := sn_Steps sc @ [parseStep body]\<rparr>)\<rparr>
        | _ \<Rightarrow> if ss_section st = ''purpose'' then st\<lparr>ss_purpose := ss_purpose st @ [?t]\<rparr>
               else if ss_req st \<noteq> None \<and> ss_scen st = None then st\<lparr>ss_stmt := ss_stmt st @ [?t]\<rparr>
               else st)"
        using False nonblank unfolding spec_line_def Let_def by auto
      ultimately show ?thesis
        using plain assms(1) by (auto simp: spec_state_ok_def scenario_ok_def split: option.splits)
    qed
  qed
qed

lemma ParseSpec_ok: "tidy spec_heads md \<Longrightarrow> spec_ok (ParseSpec md)"
proof -
  assume tidy: "tidy spec_heads md"
  have "spec_state_ok (foldl spec_line st ls)" if "set ls \<subseteq> set (split_nl md)" "spec_state_ok st" for ls st
    using that by (induction ls arbitrary: st) (auto intro: spec_line_ok [OF _ tidy])
  moreover have "spec_state_ok spec_start"
    by (simp add: spec_state_ok_def spec_start_def empty_spec_def name_ok_def)
  ultimately have "spec_state_ok (spec_flushRequirement (foldl spec_line spec_start (split_nl md)))"
    by (simp add: spec_flushRequirement_ok)
  then show ?thesis
    by (auto simp: ParseSpec_def Let_def spec_ok_def spec_state_ok_def TrimSpace_Join_plain intro: prose_ok_Join)
qed

interpretation specs: document_format ParseSpec RenderSpec spec_ok "tidy spec_heads" spec_modelled
proof
  show "RenderSpec (spec_modelled m) = RenderSpec m" for m by (simp add: RenderSpec_def spec_modelled_def)
qed (fact ParseSpec_RenderSpec ParseSpec_ok)+

text \<open>
  C28. The round-trip contract of the format layer, \<^verbatim>\<open>parse(render(parse(x))) = parse(x)\<close>: it holds on the
  modelled fields for every document without an indented heading, and writing is then canonical,
  so writing what was read from a written document changes nothing.
\<close>

theorem ParseSpec_stable:
  assumes "tidy spec_heads md"
  shows "ParseSpec (RenderSpec (ParseSpec md)) = spec_modelled (ParseSpec md) \<and>
     RenderSpec (ParseSpec (RenderSpec (ParseSpec md))) = RenderSpec (ParseSpec md)"
  using specs.stable [OF assms] specs.canonical [OF assms] by simp

section \<open>Indented headings\<close>

lemma spec_line_heading:
  assumes "name_ok h" "h \<noteq> []"
  shows "spec_line st (''## '' @ h) = (spec_flushRequirement st)\<lparr>ss_section := spec_section h\<rparr>"
proof -
  have "TrimRight_blank (''## '' @ h) = ''## '' @ h"
    using assms TrimRight_head [of "''##''" h] by (simp add: name_ok_def space_facts)
  then show ?thesis by (simp add: spec_line_def HasPrefix_def TrimPrefix_def)
qed

lemma spec_line_indented:
  assumes "name_ok h" "h \<noteq> []" "ws \<noteq> []" "\<forall>c \<in> set ws. blank_char c" "ss_section st \<noteq> ''purpose''" "ss_req st \<noteq> None" "ss_scen st = None"
  shows "spec_line st (ws @ ''## '' @ h) = st\<lparr>ss_stmt := ss_stmt st @ [''## '' @ h]\<rparr>"
proof -
  have own: "TrimSpace (''## '' @ h) = ''## '' @ h"
    using assms(1,2) TrimSpace_fix_iff [of h] TrimSpace_fix_iff [of "''## '' @ h"] by (simp add: name_ok_def space_facts)
  have "TrimRight_blank (ws @ ''## '' @ h) = ws @ TrimRight_blank (''## '' @ h)"
    by (rule TrimRight_blank_append) (simp add: blank_char_def)
  then have line: "TrimRight_blank (ws @ ''## '' @ h) = ws @ ''## '' @ h" by (simp only: TrimRight_text [OF own])
  have "TrimSpace (ws @ t) = TrimSpace t" for t
    using assms(4) by (induction ws) (simp_all add: blank_char_space TrimSpace_left)
  then have "TrimSpace (ws @ ''## '' @ h) = ''## '' @ h" by (simp only: own)
  moreover have "hd ws \<noteq> CHR ''#''" using assms(3,4) by (cases ws) (auto simp: blank_char_def)
  ultimately show ?thesis
    using line assms(3,5-7) by (cases ws) (auto simp: spec_line_def HasPrefix_def Let_def split: option.split)
qed

lemma prose_lines_snoc: "newline \<notin> set t \<Longrightarrow> t \<noteq> [] \<Longrightarrow>
   prose_lines ((if p = [] then [] else p @ nl) @ t) = prose_lines p @ [t]"
proof -
  assume t: "newline \<notin> set t" "t \<noteq> []"
  have "split_nl (p @ newline # t) = split_nl p @ [t]" for p
    by (induction p rule: split_nl.induct) (use t in \<open>auto simp: split_nl_plain neq_Nil_conv split: list.splits if_splits\<close>)
  with t show ?thesis by (auto simp: prose_lines_def split_nl_plain)
qed

lemma spec_flush_again: "spec_flushRequirement ((spec_flushRequirement st)\<lparr>ss_section := x\<rparr>) = (spec_flushRequirement st)\<lparr>ss_section := x\<rparr>"
  using spec_flush_clears [of st] by (simp add: spec_flushRequirement_def [of "_\<lparr>ss_section := x\<rparr>"] spec_flushScenario_def)

text \<open>A last heading that opens a section leaves no trace in what is read.\<close>

lemma ParseSpec_last_heading:
  assumes "\<forall>l \<in> set ls. newline \<notin> set l" "name_ok h" "h \<noteq> []"
  shows "ParseSpec (write_lines (ls @ [''## '' @ h])) = ParseSpec (write_lines ls)"
proof -
  have "\<forall>l \<in> set (ls @ [''## '' @ h]). newline \<notin> set l" using assms by (auto simp: name_ok_def)
  then show ?thesis
    using split_nl_written [of ls] split_nl_written [of "ls @ [''## '' @ h]"] assms
    by (simp add: ParseSpec_def spec_line_blank spec_line_heading [OF assms(2,3), simplified] spec_flush_again Let_def)
qed

lemma ParseSpec_indented:
  assumes "spec_ok s" "sp_Requirements s = rs @ [r]" "r_Scenarios r = []"
    and "name_ok h" "h \<noteq> []" "ws \<noteq> []" "\<forall>c \<in> set ws. blank_char c"
  shows "ParseSpec (RenderSpec s @ ws @ ''## '' @ h @ nl) = spec_modelled
     (s\<lparr>sp_Requirements := rs @ [r\<lparr>r_Statement := (if r_Statement r = [] then [] else r_Statement r @ nl) @ ''## '' @ h\<rparr>]\<rparr>)"
proof -
  define s0 where "s0 = s\<lparr>sp_Requirements := rs\<rparr>"
  define st0 where "st0 = foldl spec_line spec_start (spec_lines s0)"
  have r: "name_ok (r_Name r)" "list_all (plain_line spec_heads) (prose_lines (r_Statement r))"
    using assms(1,2) by (simp_all add: spec_ok_def requirement_ok_def prose_ok_def)
  have "spec_ok s0" using assms(1,2) by (simp add: s0_def spec_ok_def)
  then have st0: "spec_flushRequirement st0 =
      (spec_headed s)\<lparr>ss_spec := empty_spec\<lparr>sp_Title := sp_Title s, sp_Requirements := rs\<rparr>\<rparr>"
    using spec_lines_read [of s0] by (simp add: st0_def s0_def spec_headed_def)
  define st1 where "st1 = (spec_flushRequirement st0)\<lparr>ss_req := Some \<lparr>r_Name = r_Name r, r_Statement = [], r_Scenarios = []\<rparr>\<rparr>"
  have lines: "spec_lines s = spec_lines s0 @ [[], ''### Requirement: '' @ r_Name r] @ prose_lines (r_Statement r)"
    using assms(2,3) by (simp add: spec_lines_def s0_def requirement_lines_def annotation_def)
  have st1: "ss_section st1 = ''requirements''" "ss_scen st1 = None" "ss_stmt st1 = []"
    by (simp_all add: st1_def st0 spec_headed_def spec_start_def)
  have "foldl spec_line spec_start (spec_lines s) = st1\<lparr>ss_stmt := prose_lines (r_Statement r)\<rparr>"
    unfolding lines foldl_append st0_def [symmetric]
    using spec_line_requirement [OF r(1), of st0] spec_statement [OF r(2), of st1] st1
    by (simp add: spec_line_blank st1_def)
  then have read: "foldl spec_line spec_start (spec_lines s @ [ws @ ''## '' @ h, []]) =
      st1\<lparr>ss_stmt := prose_lines (r_Statement r) @ [''## '' @ h]\<rparr>"
    using spec_line_indented [OF assms(4-7), of "st1\<lparr>ss_stmt := prose_lines (r_Statement r)\<rparr>"] st1
    by (simp add: spec_line_blank st1_def)
  have split: "split_nl (RenderSpec s @ ws @ ''## '' @ h @ nl) = spec_lines s @ [ws @ ''## '' @ h, []]"
  proof -
    have "\<not> blank_char newline" by (simp add: blank_char_def)
    then have "newline \<notin> set ws" using assms(7) by blast
    then have "newline \<notin> set (ws @ ''## '' @ h)" using assms(4) by (simp add: name_ok_def)
    then have "\<forall>l \<in> set (spec_lines s @ [ws @ ''## '' @ h]). newline \<notin> set l"
      using spec_lines_plain [OF assms(1)] by (metis Un_iff empty_iff insert_iff list.set(1,2) set_append)
    from split_nl_written [OF this] show ?thesis by (simp add: write_spec write_lines_Cons)
  qed
  have joined: "TrimSpace (Join (prose_lines (r_Statement r) @ [''## '' @ h]) nl) = (if r_Statement r = [] then [] else r_Statement r @ nl) @ ''## '' @ h"
  proof -
    have new: "text_line (''## '' @ h)"
      using assms(4,5) TrimSpace_fix_iff [of h] TrimSpace_fix_iff [of "''## '' @ h"] by (simp add: text_line_def name_ok_def space_facts)
    then have "list_all text_line (prose_lines (r_Statement r) @ [''## '' @ h])"
      using r(2) by (auto simp: list_all_iff plain_text)
    note all = TrimSpace_Join [OF this]
    have snoc: "prose_lines ((if r_Statement r = [] then [] else r_Statement r @ nl) @ ''## '' @ h) = prose_lines (r_Statement r) @ [''## '' @ h]"
      by (rule prose_lines_snoc) (use new in \<open>simp_all add: text_line_def name_ok_def\<close>)
    show ?thesis unfolding all unfolding snoc [symmetric] by (rule Join_prose_lines)
  qed
  have purpose: "TrimSpace (sp_Purpose s) = sp_Purpose s"
    using assms(1) by (auto simp: spec_ok_def intro!: TrimSpace_prose [of spec_heads])
  have "st1 = \<lparr>ss_spec = empty_spec\<lparr>sp_Title := sp_Title s, sp_Requirements := rs\<rparr>, ss_section = ''requirements'',
      ss_purpose = prose_lines (sp_Purpose s), ss_stmt = [],
      ss_req = Some \<lparr>r_Name = r_Name r, r_Statement = [], r_Scenarios = []\<rparr>, ss_scen = None\<rparr>"
    by (simp add: st1_def st0 spec_headed_def spec_start_def)
  then have "spec_flushRequirement (st1\<lparr>ss_stmt := prose_lines (r_Statement r) @ [''## '' @ h]\<rparr>) =
      \<lparr>ss_spec = empty_spec\<lparr>sp_Title := sp_Title s, sp_Requirements := rs @
         [\<lparr>r_Name = r_Name r, r_Statement = (if r_Statement r = [] then [] else r_Statement r @ nl) @ ''## '' @ h, r_Scenarios = []\<rparr>]\<rparr>,
       ss_section = ''requirements'', ss_purpose = prose_lines (sp_Purpose s), ss_stmt = [], ss_req = None, ss_scen = None\<rparr>"
    using joined by (simp add: spec_flushRequirement_def spec_flushScenario_def Let_def empty_spec_def)
  then have "ParseSpec (RenderSpec s @ ws @ ''## '' @ h @ nl) = empty_spec\<lparr>sp_Title := sp_Title s, sp_Purpose := sp_Purpose s, sp_Requirements := rs @
      [\<lparr>r_Name = r_Name r, r_Statement = (if r_Statement r = [] then [] else r_Statement r @ nl) @ ''## '' @ h, r_Scenarios = []\<rparr>]\<rparr>"
    unfolding ParseSpec_def split read Let_def by (simp add: Join_prose_lines purpose empty_spec_def)
  then show ?thesis using assms(3) by (cases s; cases r) (simp add: spec_modelled_def empty_spec_def)
qed

text \<open>
  C34. Without that restriction the contract fails, and text is lost. Put an indented second-level heading
  under the last requirement of any written specification, when that requirement has no scenario:
  the first reading takes the heading for the last line of the requirement's statement, writing puts
  it at the left margin, and the second reading yields the specification without it.
\<close>

theorem ParseSpec_unstable:
  assumes "spec_ok s" "sp_Requirements s = rs @ [r]" "r_Scenarios r = []"
    and "name_ok h" "h \<noteq> []" "ws \<noteq> []" "\<forall>c \<in> set ws. c = CHR '' '' \<or> c = CHR 0x09"
  defines "md \<equiv> RenderSpec s @ ws @ ''## '' @ h @ nl"
  shows "ParseSpec md = spec_modelled (s\<lparr>sp_Requirements :=
       rs @ [r\<lparr>r_Statement := (if r_Statement r = [] then [] else r_Statement r @ nl) @ ''## '' @ h\<rparr>]\<rparr>) \<and>
     ParseSpec (RenderSpec (ParseSpec md)) = spec_modelled s"
proof -
  have "\<forall>c \<in> set ws. blank_char c" using assms(7) by (auto simp: blank_char_def)
  note first = ParseSpec_indented [OF assms(1-6) this]
  let ?s = "s\<lparr>sp_Requirements := rs @ [r\<lparr>r_Statement := (if r_Statement r = [] then [] else r_Statement r @ nl) @ ''## '' @ h\<rparr>]\<rparr>"
  have "newline \<notin> set (''## '' @ h)" using assms(4) by (simp add: name_ok_def)
  from prose_lines_snoc [OF this, of "r_Statement r"] have "spec_lines ?s = spec_lines s @ [''## '' @ h]"
    using assms(2,3) by (simp add: spec_lines_def requirement_lines_def annotation_def)
  then have "RenderSpec (spec_modelled ?s) = write_lines (spec_lines s @ [''## '' @ h])"
    by (metis specs.render_modelled write_spec)
  then have "ParseSpec (RenderSpec (spec_modelled ?s)) = spec_modelled s"
    using ParseSpec_last_heading [OF spec_lines_plain [OF assms(1)] assms(4,5)] ParseSpec_RenderSpec [OF assms(1)]
    by (simp only: write_spec)
  with first show ?thesis by (simp only: md_def)
qed

section \<open>Witnesses\<close>

definition sample_spec :: string where
  "sample_spec = ''# Auth Specification'' @ nl @ ''## Purpose'' @ nl @ ''Login.'' @ nl @ ''## Requirements'' @ nl @
     ''### Requirement: Session'' @ nl @ ''The system SHALL expire.'' @ nl @ ''#### Scenario: Idle'' @ nl @
     ''* given a session'' @ nl @ ''- it ends'' @ nl"

lemma sample_spec_tidy: "tidy spec_heads sample_spec"
  unfolding tidy_def by code_simp

theorem ParseSpec_stable_witness:
  "ParseSpec (RenderSpec (ParseSpec sample_spec)) = spec_modelled (ParseSpec sample_spec) \<and>
   length (sp_Requirements (ParseSpec sample_spec)) = 1"
proof -
  have "length (sp_Requirements (ParseSpec sample_spec)) = 1" by code_simp
  then show ?thesis using ParseSpec_stable [OF sample_spec_tidy] by simp
qed

text \<open>A statement that loses its last line.\<close>

definition indented_spec :: Spec where
  "indented_spec = \<lparr>sp_Capability = [], sp_Title = ''T'', sp_Purpose = [],
     sp_Requirements = [\<lparr>r_Name = ''A'', r_Statement = ''The system SHALL log.'', r_Scenarios = []\<rparr>], sp_Warnings = []\<rparr>"

theorem ParseSpec_unstable_witness:
  "map r_Statement (sp_Requirements (ParseSpec (RenderSpec indented_spec @ ''  ## Purpose'' @ nl))) =
     [''The system SHALL log.'' @ nl @ ''## Purpose''] \<and>
   ParseSpec (RenderSpec (ParseSpec (RenderSpec indented_spec @ ''  ## Purpose'' @ nl))) = indented_spec"
proof -
  let ?r = "\<lparr>r_Name = ''A'', r_Statement = ''The system SHALL log.'', r_Scenarios = []\<rparr>"
  have "spec_ok indented_spec" "name_ok ''Purpose''"
    unfolding spec_ok_def requirement_ok_def prose_ok_def plain_line_def text_line_def name_ok_def by code_simp+
  moreover have "sp_Requirements indented_spec = [] @ [?r]" by (simp add: indented_spec_def)
  moreover have "\<forall>c \<in> set ''  ''. c = CHR '' '' \<or> c = CHR 0x09" "''Purpose'' \<noteq> []" "''  '' \<noteq> []" by simp_all
  ultimately have lost: "ParseSpec (RenderSpec indented_spec @ ''  '' @ ''## '' @ ''Purpose'' @ nl) = spec_modelled (indented_spec\<lparr>sp_Requirements :=
      [] @ [?r\<lparr>r_Statement := (if r_Statement ?r = [] then [] else r_Statement ?r @ nl) @ ''## '' @ ''Purpose''\<rparr>]\<rparr>) \<and>
    ParseSpec (RenderSpec (ParseSpec (RenderSpec indented_spec @ ''  '' @ ''## '' @ ''Purpose'' @ nl))) = spec_modelled indented_spec"
    by (intro ParseSpec_unstable) simp_all
  have "''  ## Purpose'' @ nl = ''  '' @ ''## '' @ ''Purpose'' @ nl" by simp
  then have "ParseSpec (RenderSpec (ParseSpec (RenderSpec indented_spec @ ''  ## Purpose'' @ nl))) = indented_spec"
    using conjunct2 [OF lost] by (simp add: spec_modelled_def) (simp add: indented_spec_def)
  moreover have "map r_Statement (sp_Requirements (ParseSpec (RenderSpec indented_spec @ ''  ## Purpose'' @ nl))) =
      [''The system SHALL log.'' @ nl @ ''## Purpose'']"
    unfolding \<open>''  ## Purpose'' @ nl = _\<close> conjunct1 [OF lost] by (simp add: spec_modelled_def)
  ultimately show ?thesis by simp
qed

end
