(* ===== verification/Openspec_Delta.thy ===== *)
theory Openspec_Delta
  imports Openspec_Spec
begin

text \<open>
  The delta specification of a change: \<^verbatim>\<open>openspec/model_delta.go\<close>, \<^verbatim>\<open>ParseDelta\<close> with its helpers
  (\<^verbatim>\<open>parse.go\<close>) and \<^verbatim>\<open>RenderDelta\<close> (\<^verbatim>\<open>render.go\<close>).
\<close>

section \<open>Model\<close>

record ModifiedRequirement =
  mq_Requirement :: Requirement
  mq_Previously :: string

record RemovedRequirement =
  rv_Name :: string
  rv_Rationale :: string

record Delta =
  dl_Capability :: string
  dl_Title :: string
  dl_Added :: "Requirement list"
  dl_Modified :: "ModifiedRequirement list"
  dl_Removed :: "RemovedRequirement list"
  dl_Warnings :: "string list"

datatype deltaSection = sectionNone | sectionAdded | sectionModified | sectionRemoved

record reqAccum =
  ra_name :: string
  ra_scenarios :: "Scenario list"
  ra_previously :: string
  ra_rationale :: string

section \<open>ParseDelta\<close>

definition parseDeltaSection :: "string \<Rightarrow> deltaSection" where
  "parseDeltaSection heading =
     (let h = ToUpper (TrimSpace heading)
      in if HasPrefix h ''ADDED'' then sectionAdded
         else if HasPrefix h ''MODIFIED'' then sectionModified
         else if HasPrefix h ''REMOVED'' then sectionRemoved
         else sectionNone)"

definition parenAnnotation :: "string \<Rightarrow> string \<Rightarrow> string option" where
  "parenAnnotation trimmed label =
     (let pre = ''('' @ label @ '':'' in
      if length trimmed < length pre \<or> \<not> EqualFold (take (length pre) trimmed) pre then None
      else Some (TrimSpace (TrimSuffix (TrimSpace (drop (length pre) trimmed)) '')'')))"

definition removed_warning :: "string \<Rightarrow> string" where
  "removed_warning name = ''removed requirement '' @ quote_str name @
     '' carries a statement or scenarios; only name + rationale are kept''"

definition orphan_warning :: "string \<Rightarrow> string" where
  "orphan_warning name = ''requirement '' @ quote_str name @ '' outside any ADDED/MODIFIED/REMOVED section; dropped''"

definition appendDeltaRequirement :: "Delta \<Rightarrow> deltaSection \<Rightarrow> reqAccum \<Rightarrow> string \<Rightarrow> Delta" where
  "appendDeltaRequirement d section cur statement =
     (let req = \<lparr>r_Name = ra_name cur, r_Statement = statement, r_Scenarios = ra_scenarios cur\<rparr>
      in case section of
           sectionAdded \<Rightarrow> d\<lparr>dl_Added := dl_Added d @ [req]\<rparr>
         | sectionModified \<Rightarrow>
             d\<lparr>dl_Modified := dl_Modified d @ [\<lparr>mq_Requirement = req, mq_Previously = ra_previously cur\<rparr>]\<rparr>
         | sectionRemoved \<Rightarrow>
             (let d1 = (if statement \<noteq> [] \<or> ra_scenarios cur \<noteq> []
                        then d\<lparr>dl_Warnings := dl_Warnings d @ [removed_warning (ra_name cur)]\<rparr> else d)
              in d1\<lparr>dl_Removed := dl_Removed d1 @ [\<lparr>rv_Name = ra_name cur, rv_Rationale = ra_rationale cur\<rparr>]\<rparr>)
         | sectionNone \<Rightarrow> d\<lparr>dl_Warnings := dl_Warnings d @ [orphan_warning (ra_name cur)]\<rparr>)"

record delta_state =
  ds_delta :: Delta
  ds_section :: deltaSection
  ds_cur :: "reqAccum option"
  ds_scen :: "Scenario option"
  ds_stmt :: "string list"

definition empty_delta :: Delta where
  "empty_delta = \<lparr>dl_Capability = [], dl_Title = [], dl_Added = [], dl_Modified = [], dl_Removed = [], dl_Warnings = []\<rparr>"

definition delta_start :: delta_state where
  "delta_start = \<lparr>ds_delta = empty_delta, ds_section = sectionNone, ds_cur = None, ds_scen = None, ds_stmt = []\<rparr>"

definition delta_flushScenario :: "delta_state \<Rightarrow> delta_state" where
  "delta_flushScenario st =
     (case (ds_cur st, ds_scen st) of
        (Some c, Some sc) \<Rightarrow> st\<lparr>ds_cur := Some (c\<lparr>ra_scenarios := ra_scenarios c @ [sc]\<rparr>), ds_scen := None\<rparr>
      | _ \<Rightarrow> st\<lparr>ds_scen := None\<rparr>)"

definition delta_flushRequirement :: "delta_state \<Rightarrow> delta_state" where
  "delta_flushRequirement st0 =
     (let st = delta_flushScenario st0;
          st' = (case ds_cur st of
                   None \<Rightarrow> st
                 | Some cur \<Rightarrow>
                     st\<lparr>ds_delta := appendDeltaRequirement (ds_delta st) (ds_section st) cur
                          (if ds_stmt st \<noteq> [] then TrimSpace (Join (ds_stmt st) nl) else [])\<rparr>)
      in st'\<lparr>ds_cur := None, ds_stmt := []\<rparr>)"

text \<open>A line that is no heading and not blank.\<close>

definition delta_text :: "delta_state \<Rightarrow> string \<Rightarrow> delta_state" where
  "delta_text st trimmed =
     (let bullet_or_text =
        (case (bulletBody trimmed, ds_scen st) of
           (Some body, Some sc) \<Rightarrow> st\<lparr>ds_scen := Some (sc\<lparr>sn_Steps := sn_Steps sc @ [parseStep body]\<rparr>)\<rparr>
         | _ \<Rightarrow> if ds_cur st \<noteq> None \<and> ds_scen st = None then st\<lparr>ds_stmt := ds_stmt st @ [trimmed]\<rparr> else st)
      in case ds_cur st of
           None \<Rightarrow> bullet_or_text
         | Some cur \<Rightarrow>
             (case parenAnnotation trimmed ''Previously'' of
                Some v \<Rightarrow> st\<lparr>ds_cur := Some (cur\<lparr>ra_previously := v\<rparr>)\<rparr>
              | None \<Rightarrow>
                  (case parenAnnotation trimmed ''Rationale'' of
                     Some v \<Rightarrow> st\<lparr>ds_cur := Some (cur\<lparr>ra_rationale := v\<rparr>)\<rparr>
                   | None \<Rightarrow> bullet_or_text)))"

definition delta_line :: "delta_state \<Rightarrow> string \<Rightarrow> delta_state" where
  "delta_line st raw =
     (let line = TrimRight_blank raw; trimmed = TrimSpace line in
      if HasPrefix line scenario_head then
        (let st1 = delta_flushScenario st; name = TrimSpace (TrimPrefix line scenario_head)
         in if ds_cur st1 = None
            then st1\<lparr>ds_delta := (ds_delta st1)\<lparr>dl_Warnings := dl_Warnings (ds_delta st1) @ [dropped_scenario name]\<rparr>\<rparr>
            else st1\<lparr>ds_scen := Some \<lparr>sn_Name = name, sn_Steps = []\<rparr>\<rparr>)
      else if HasPrefix line requirement_head then
        (delta_flushRequirement st)\<lparr>ds_cur := Some \<lparr>ra_name = TrimSpace (TrimPrefix line requirement_head),
           ra_scenarios = [], ra_previously = [], ra_rationale = []\<rparr>\<rparr>
      else if HasPrefix line ''## '' then
        (delta_flushRequirement st)\<lparr>ds_section := parseDeltaSection (TrimPrefix line ''## '')\<rparr>
      else if HasPrefix line ''# '' then
        st\<lparr>ds_delta := (ds_delta st)\<lparr>dl_Title := TrimSpace (TrimPrefix line ''# '')\<rparr>\<rparr>
      else if trimmed = [] then st
      else delta_text st trimmed)"

definition ParseDelta :: "string \<Rightarrow> Delta" where
  "ParseDelta md = ds_delta (delta_flushRequirement (foldl delta_line delta_start (split_nl md)))"

section \<open>RenderDelta\<close>

definition RenderDelta :: "Delta \<Rightarrow> string" where
  "RenderDelta d =
     ''# '' @ dl_Title d @ nl @
     (if dl_Added d \<noteq> [] then nl @ ''## ADDED Requirements'' @ nl @
        concat (map (\<lambda>r. renderRequirement r [] []) (dl_Added d)) else []) @
     (if dl_Modified d \<noteq> [] then nl @ ''## MODIFIED Requirements'' @ nl @
        concat (map (\<lambda>m. renderRequirement (mq_Requirement m) (mq_Previously m) []) (dl_Modified d)) else []) @
     (if dl_Removed d \<noteq> [] then nl @ ''## REMOVED Requirements'' @ nl @
        concat (map (\<lambda>r. renderRequirement \<lparr>r_Name = rv_Name r, r_Statement = [], r_Scenarios = []\<rparr> [] (rv_Rationale r)) (dl_Removed d)) else [])"

definition delta_section_lines :: "string \<Rightarrow> ('a \<Rightarrow> string list) \<Rightarrow> 'a list \<Rightarrow> string list" where
  "delta_section_lines heading f xs = (if xs = [] then [] else [[], heading] @ concat (map f xs))"

definition delta_lines :: "Delta \<Rightarrow> string list" where
  "delta_lines d = [''# '' @ dl_Title d] @
     delta_section_lines ''## ADDED Requirements'' (\<lambda>r. requirement_lines r [] []) (dl_Added d) @
     delta_section_lines ''## MODIFIED Requirements'' (\<lambda>m. requirement_lines (mq_Requirement m) (mq_Previously m) []) (dl_Modified d) @
     delta_section_lines ''## REMOVED Requirements''
       (\<lambda>r. requirement_lines \<lparr>r_Name = rv_Name r, r_Statement = [], r_Scenarios = []\<rparr> [] (rv_Rationale r)) (dl_Removed d)"

lemma write_delta: "write_lines (delta_lines d) = RenderDelta d"
  by (simp add: delta_lines_def delta_section_lines_def RenderDelta_def write_lines_Cons write_lines_concat write_requirement)

section \<open>Annotations\<close>

lemma parenAnnotation_same:
  assumes "name_ok v"
  shows "parenAnnotation (''('' @ label @ '': '' @ v @ '')'') label = Some v"
proof -
  have v: "TrimSpace v = v" using assms by (simp add: name_ok_def)
  have close: "\<not> is_space CHR '')''" by (simp add: is_space_def byte_val_def)
  have "TrimSpace (v @ '')'') = v @ '')''"
    using v close by (cases v) (auto simp: TrimSpace_fix_iff)
  then have "TrimSpace (CHR '' '' # v @ '')'') = v @ '')''"
    by (simp add: TrimSpace_left space_facts)
  then show ?thesis
    using v by (simp add: parenAnnotation_def EqualFold_def)
qed

lemma parenAnnotation_other: "parenAnnotation (''(Rationale: '' @ v) ''Previously'' = None"
  by (simp add: parenAnnotation_def EqualFold_def ToLower_def lower_byte_def is_upper_alpha_def byte_val_def Let_def)

lemma parenAnnotation_bullet: "parenAnnotation (CHR ''-'' # s) label = None"
  by (simp add: parenAnnotation_def EqualFold_def ToLower_def lower_byte_def is_upper_alpha_def byte_val_def Let_def)

section \<open>Requirements are read back\<close>

definition statement_line :: "string \<Rightarrow> bool" where
  "statement_line t \<longleftrightarrow> plain_line spec_heads t \<and> parenAnnotation t ''Previously'' = None \<and> parenAnnotation t ''Rationale'' = None"

definition delta_requirement_ok :: "Requirement \<Rightarrow> bool" where
  "delta_requirement_ok r \<longleftrightarrow> name_ok (r_Name r) \<and> list_all statement_line (prose_lines (r_Statement r)) \<and> list_all scenario_ok (r_Scenarios r)"

definition delta_ok :: "Delta \<Rightarrow> bool" where
  "delta_ok d \<longleftrightarrow> name_ok (dl_Title d) \<and> list_all delta_requirement_ok (dl_Added d) \<and>
     list_all (\<lambda>m. delta_requirement_ok (mq_Requirement m) \<and> name_ok (mq_Previously m)) (dl_Modified d) \<and>
     list_all (\<lambda>r. name_ok (rv_Name r) \<and> name_ok (rv_Rationale r)) (dl_Removed d)"

lemma delta_line_blank: "delta_line st [] = st"
  by (simp add: delta_line_def TrimRight_blank_def HasPrefix_def)

lemma delta_line_plain: "plain_line spec_heads t \<Longrightarrow> delta_line st t = delta_text st t"
  using plain_trim [of spec_heads t] by (simp add: delta_line_def plain_line_def)

lemma delta_line_requirement:
  assumes "name_ok n"
  shows "delta_line st (''### Requirement: '' @ n) =
     (delta_flushRequirement st)\<lparr>ds_cur := Some \<lparr>ra_name = n, ra_scenarios = [], ra_previously = [], ra_rationale = []\<rparr>\<rparr>"
proof -
  have n: "TrimSpace n = n" using assms by (simp add: name_ok_def)
  note h = head_name [where h = requirement_head, OF _ _ n]
  obtain t where t: "TrimRight_blank (requirement_head @ CHR '' '' # n) = requirement_head @ t"
    using TrimRight_head [where h = requirement_head, OF _ _ n] by (cases "n = []") (force simp: space_facts)+
  then have "\<not> HasPrefix (TrimRight_blank (requirement_head @ CHR '' '' # n)) scenario_head" by (simp add: HasPrefix_def)
  then show ?thesis using h by (simp add: delta_line_def space_facts)
qed

lemma delta_line_scenario:
  assumes "name_ok n" "ds_cur st \<noteq> None"
  shows "delta_line st (''#### Scenario: '' @ n) = (delta_flushScenario st)\<lparr>ds_scen := Some \<lparr>sn_Name = n, sn_Steps = []\<rparr>\<rparr>"
proof -
  have "ds_cur (delta_flushScenario st) \<noteq> None" using assms(2) by (auto simp: delta_flushScenario_def split: option.splits)
  then show ?thesis
    using head_name [where h = scenario_head, of n] assms(1) by (auto simp: delta_line_def space_facts name_ok_def Let_def)
qed

interpretation delta_scenarios: scenario_reader delta_line delta_flushScenario "\<lambda>st. ds_cur st \<noteq> None"
  "\<lambda>sc st. st\<lparr>ds_scen := Some sc\<rparr>" "\<lambda>sc st. st\<lparr>ds_cur := map_option (\<lambda>c. c\<lparr>ra_scenarios := ra_scenarios c @ [sc]\<rparr>) (ds_cur st)\<rparr>"
proof
  fix st n s sc
  show "delta_line st [] = st" by (rule delta_line_blank)
  show "delta_line st (''#### Scenario: '' @ n) = delta_flushScenario st\<lparr>ds_scen := Some \<lparr>sn_Name = n, sn_Steps = []\<rparr>\<rparr>"
    if "ds_cur st \<noteq> None" "name_ok n" using delta_line_scenario that by blast
  show "delta_line (st\<lparr>ds_scen := Some sc\<rparr>) (step_line s) = st\<lparr>ds_scen := Some (sc\<lparr>sn_Steps := sn_Steps sc @ [s]\<rparr>)\<rparr>"
    if "step_ok s"
  proof -
    have "parenAnnotation (step_line s) label = None" for label by (simp add: step_line_body parenAnnotation_bullet)
    then show ?thesis
      using delta_line_plain [OF step_line_plain [OF that]] bulletBody_step [OF that] parseStep_body [OF that]
      by (cases "ds_cur st") (simp_all add: delta_text_def Let_def)
  qed
qed (auto simp: delta_flushScenario_def split: option.splits)

lemma fold_delta_scenarios:
  "foldl (\<lambda>st sc. st\<lparr>ds_cur := map_option (\<lambda>c. c\<lparr>ra_scenarios := ra_scenarios c @ [sc]\<rparr>) (ds_cur st)\<rparr>) st scs =
   st\<lparr>ds_cur := map_option (\<lambda>c. c\<lparr>ra_scenarios := ra_scenarios c @ scs\<rparr>) (ds_cur st)\<rparr>"
  by (induction scs arbitrary: st) (simp_all add: option.map_comp comp_def option.map_ident)

lemma delta_statement:
  "list_all statement_line ls \<Longrightarrow> ds_cur st \<noteq> None \<Longrightarrow> ds_scen st = None \<Longrightarrow>
   foldl delta_line st ls = st\<lparr>ds_stmt := ds_stmt st @ ls\<rparr>"
  by (induction ls arbitrary: st) (auto simp: statement_line_def delta_line_plain delta_text_def split: option.split)

lemma annotation_plain: "name_ok v \<Longrightarrow> label \<in> {''Previously'', ''Rationale''} \<Longrightarrow> plain_line spec_heads (''('' @ label @ '': '' @ v @ '')'')"
  by (auto simp: plain_line_def text_line_def name_ok_def HasPrefix_def TrimSpace_fix_iff is_space_def byte_val_def)

lemma delta_previously:
  "name_ok v \<Longrightarrow> ds_cur st = Some c \<Longrightarrow> ra_previously c = [] \<Longrightarrow>
   foldl delta_line st (annotation ''Previously'' v) = st\<lparr>ds_cur := Some (c\<lparr>ra_previously := v\<rparr>)\<rparr>"
  using parenAnnotation_same [of v "''Previously''"] annotation_plain [of v "''Previously''"]
  by (auto simp: annotation_def delta_line_plain delta_text_def)

lemma delta_rationale:
  "name_ok v \<Longrightarrow> ds_cur st = Some c \<Longrightarrow> ra_rationale c = [] \<Longrightarrow>
   foldl delta_line st (annotation ''Rationale'' v) = st\<lparr>ds_cur := Some (c\<lparr>ra_rationale := v\<rparr>)\<rparr>"
  using parenAnnotation_same [of v "''Rationale''"] annotation_plain [of v "''Rationale''"] parenAnnotation_other [of "v @ '')''"]
  by (auto simp: annotation_def delta_line_plain delta_text_def)

lemma delta_flush_clears:
  "ds_stmt (delta_flushRequirement st) = []" "ds_cur (delta_flushRequirement st) = None" "ds_scen (delta_flushRequirement st) = None"
  by (simp_all add: delta_flushRequirement_def delta_flushScenario_def Let_def split: option.split)

lemma delta_flush_flush: "delta_flushRequirement (delta_flushScenario st) = delta_flushRequirement st"
  by (simp add: delta_flushScenario_def delta_flushRequirement_def split: option.split)

definition accum_of :: "Requirement \<Rightarrow> string \<Rightarrow> string \<Rightarrow> reqAccum" where
  "accum_of r p q = \<lparr>ra_name = r_Name r, ra_scenarios = r_Scenarios r, ra_previously = p, ra_rationale = q\<rparr>"

lemma delta_requirement:
  assumes "delta_requirement_ok r" "name_ok p" "name_ok q"
  shows "delta_flushRequirement (foldl delta_line st (requirement_lines r p q)) =
     (delta_flushRequirement st)\<lparr>ds_delta := appendDeltaRequirement (ds_delta (delta_flushRequirement st))
        (ds_section (delta_flushRequirement st)) (accum_of r p q) (r_Statement r)\<rparr>"
proof -
  obtain dl sec where F: "delta_flushRequirement st = \<lparr>ds_delta = dl, ds_section = sec, ds_cur = None, ds_scen = None, ds_stmt = []\<rparr>"
    using delta_flush_clears [of st] by (cases "delta_flushRequirement st") auto
  have r: "name_ok (r_Name r)" "list_all statement_line (prose_lines (r_Statement r))" "list_all scenario_ok (r_Scenarios r)"
    using assms(1) by (auto simp: delta_requirement_ok_def)
  have stmt: "TrimSpace (r_Statement r) = r_Statement r"
    using r(2) by (intro TrimSpace_prose [of spec_heads]) (auto simp: prose_ok_def list_all_iff statement_line_def)
  define st3 where "st3 = \<lparr>ds_delta = dl, ds_section = sec, ds_cur = Some \<lparr>ra_name = r_Name r, ra_scenarios = [], ra_previously = p, ra_rationale = q\<rparr>,
      ds_scen = None, ds_stmt = prose_lines (r_Statement r)\<rparr>"
  have "foldl delta_line st ([[], ''### Requirement: '' @ r_Name r] @ prose_lines (r_Statement r) @ annotation ''Previously'' p @ annotation ''Rationale'' q) = st3"
    using delta_line_requirement [OF r(1)] delta_statement [OF r(2)] delta_previously [OF assms(2)] delta_rationale [OF assms(3)]
    by (simp add: delta_line_blank F st3_def)
  then have "foldl delta_line st (requirement_lines r p q) = foldl delta_line st3 (concat (map scenario_lines (r_Scenarios r)))"
    by (simp add: requirement_lines_def)
  moreover have "delta_flushScenario (foldl delta_line st3 (concat (map scenario_lines (r_Scenarios r)))) =
      st3\<lparr>ds_cur := Some (accum_of r p q)\<rparr>"
    using delta_scenarios.scenarios [of st3 "r_Scenarios r"] r(3)
    by (simp add: fold_delta_scenarios) (simp add: st3_def delta_flushScenario_def accum_of_def)
  ultimately have "delta_flushRequirement (foldl delta_line st (requirement_lines r p q)) = delta_flushRequirement (st3\<lparr>ds_cur := Some (accum_of r p q)\<rparr>)"
    by (metis delta_flush_flush)
  also have "\<dots> = (delta_flushRequirement st)\<lparr>ds_delta := appendDeltaRequirement (ds_delta (delta_flushRequirement st))
        (ds_section (delta_flushRequirement st)) (accum_of r p q) (r_Statement r)\<rparr>"
    using stmt unfolding F
    by (cases "r_Statement r = []") (simp_all add: st3_def delta_flushRequirement_def delta_flushScenario_def prose_lines_def Join_split_nl)
  finally show ?thesis .
qed

section \<open>Deltas are read back\<close>

text \<open>A requirement with its annotations, as the writer passes them on.\<close>

type_synonym entry = "Requirement \<times> string \<times> string"

definition entry_ok :: "entry \<Rightarrow> bool" where
  "entry_ok e \<longleftrightarrow> delta_requirement_ok (fst e) \<and> name_ok (fst (snd e)) \<and> name_ok (snd (snd e))"

definition entry_lines :: "entry \<Rightarrow> string list" where
  "entry_lines e = requirement_lines (fst e) (fst (snd e)) (snd (snd e))"

definition add_entry :: "deltaSection \<Rightarrow> Delta \<Rightarrow> entry \<Rightarrow> Delta" where
  "add_entry sec d e = appendDeltaRequirement d sec (accum_of (fst e) (fst (snd e)) (snd (snd e))) (r_Statement (fst e))"

lemma delta_entries:
  "list_all entry_ok es \<Longrightarrow> delta_flushRequirement (foldl delta_line st (concat (map entry_lines es))) =
     (delta_flushRequirement st)\<lparr>ds_delta := foldl (add_entry (ds_section (delta_flushRequirement st))) (ds_delta (delta_flushRequirement st)) es\<rparr>"
proof (induction es arbitrary: st)
  case (Cons e es)
  have "delta_flushRequirement (foldl delta_line st (entry_lines e)) = (delta_flushRequirement st)\<lparr>ds_delta :=
      add_entry (ds_section (delta_flushRequirement st)) (ds_delta (delta_flushRequirement st)) e\<rparr>"
    using delta_requirement Cons.prems by (simp add: entry_lines_def add_entry_def entry_ok_def)
  then show ?case using Cons.IH [of "foldl delta_line st (entry_lines e)"] Cons.prems by simp
qed simp

definition section_heading :: "deltaSection \<Rightarrow> string" where
  "section_heading sec = (case sec of sectionAdded \<Rightarrow> ''## ADDED Requirements'' | sectionModified \<Rightarrow> ''## MODIFIED Requirements''
     | _ \<Rightarrow> ''## REMOVED Requirements'')"

lemma delta_line_heading:
  assumes "sec \<noteq> sectionNone"
  shows "delta_line st (section_heading sec) = (delta_flushRequirement st)\<lparr>ds_section := sec\<rparr>"
proof -
  have "\<forall>sec \<in> {sectionAdded, sectionModified, sectionRemoved}.
      TrimRight_blank (section_heading sec) = section_heading sec \<and>
      \<not> HasPrefix (section_heading sec) scenario_head \<and> \<not> HasPrefix (section_heading sec) requirement_head \<and>
      HasPrefix (section_heading sec) ''## '' \<and> parseDeltaSection (TrimPrefix (section_heading sec) ''## '') = sec"
    by code_simp
  moreover have "sec \<in> {sectionAdded, sectionModified, sectionRemoved}" using assms by (cases sec) auto
  ultimately have "TrimRight_blank (section_heading sec) = section_heading sec \<and>
      \<not> HasPrefix (section_heading sec) scenario_head \<and> \<not> HasPrefix (section_heading sec) requirement_head \<and>
      HasPrefix (section_heading sec) ''## '' \<and> parseDeltaSection (TrimPrefix (section_heading sec) ''## '') = sec" by blast
  then show ?thesis by (simp add: delta_line_def Let_def)
qed

lemma delta_flush_closed: "ds_cur st = None \<Longrightarrow> ds_scen st = None \<Longrightarrow> ds_stmt st = [] \<Longrightarrow> delta_flushRequirement st = st"
  by (simp add: delta_flushRequirement_def delta_flushScenario_def)

lemma delta_section_read:
  assumes "list_all entry_ok es" "sec \<noteq> sectionNone"
  shows "ds_delta (delta_flushRequirement (foldl delta_line st (delta_section_lines (section_heading sec) entry_lines es))) =
     foldl (add_entry sec) (ds_delta (delta_flushRequirement st)) es"
proof (cases "es = []")
  case False
  let ?st = "(delta_flushRequirement st)\<lparr>ds_section := sec\<rparr>"
  have "delta_flushRequirement ?st = ?st" by (rule delta_flush_closed) (simp_all add: delta_flush_clears)
  then show ?thesis
    using False delta_entries [OF assms(1), of ?st]
    by (simp add: delta_section_lines_def delta_line_blank delta_line_heading [OF assms(2)])
qed (simp add: delta_section_lines_def)

lemma add_entries:
  "foldl (add_entry sectionAdded) d es = d\<lparr>dl_Added := dl_Added d @ map fst es\<rparr>"
  "foldl (add_entry sectionModified) d es = d\<lparr>dl_Modified := dl_Modified d @ map (\<lambda>e. \<lparr>mq_Requirement = fst e, mq_Previously = fst (snd e)\<rparr>) es\<rparr>"
  "list_all (\<lambda>e. r_Statement (fst e) = [] \<and> r_Scenarios (fst e) = []) es \<Longrightarrow>
   foldl (add_entry sectionRemoved) d es = d\<lparr>dl_Removed := dl_Removed d @ map (\<lambda>e. \<lparr>rv_Name = r_Name (fst e), rv_Rationale = snd (snd e)\<rparr>) es\<rparr>"
  by (induction es arbitrary: d) (auto simp: add_entry_def appendDeltaRequirement_def accum_of_def)

definition added_entries :: "Delta \<Rightarrow> entry list" where
  "added_entries d = map (\<lambda>r. (r, [], [])) (dl_Added d)"

definition modified_entries :: "Delta \<Rightarrow> entry list" where
  "modified_entries d = map (\<lambda>m. (mq_Requirement m, mq_Previously m, [])) (dl_Modified d)"

definition removed_entries :: "Delta \<Rightarrow> entry list" where
  "removed_entries d = map (\<lambda>r. (\<lparr>r_Name = rv_Name r, r_Statement = [], r_Scenarios = []\<rparr>, [], rv_Rationale r)) (dl_Removed d)"

lemma section_lines_entries: "delta_section_lines h (\<lambda>x. entry_lines (g x)) xs = delta_section_lines h entry_lines (map g xs)"
  by (simp add: delta_section_lines_def comp_def)

lemma delta_lines_entries:
  "delta_lines d = [''# '' @ dl_Title d] @
     delta_section_lines (section_heading sectionAdded) entry_lines (added_entries d) @
     delta_section_lines (section_heading sectionModified) entry_lines (modified_entries d) @
     delta_section_lines (section_heading sectionRemoved) entry_lines (removed_entries d)"
  unfolding delta_lines_def added_entries_def modified_entries_def removed_entries_def section_lines_entries [symmetric]
  by (simp add: entry_lines_def section_heading_def)

lemma name_ok_Nil: "name_ok []"
  by (simp add: name_ok_def)

lemma delta_entries_ok:
  assumes "delta_ok d"
  shows "list_all entry_ok (added_entries d)" "list_all entry_ok (modified_entries d)" "list_all entry_ok (removed_entries d)"
  using assms by (auto simp: delta_ok_def added_entries_def modified_entries_def removed_entries_def entry_ok_def list_all_iff name_ok_Nil
      delta_requirement_ok_def prose_lines_def)

lemma delta_line_title: "name_ok t \<Longrightarrow> delta_line delta_start (''# '' @ t) = delta_start\<lparr>ds_delta := empty_delta\<lparr>dl_Title := t\<rparr>\<rparr>"
proof (cases "t = []")
  case True
  then show ?thesis
    by (simp add: delta_line_def TrimRight_blank_def blank_char_def HasPrefix_def TrimSpace_def space_facts delta_text_def bulletBody_def
        bulletMarkers_def delta_start_def empty_delta_def)
next
  case False
  assume "name_ok t"
  then have "TrimRight_blank (''# '' @ t) = ''# '' @ t" "TrimSpace t = t"
    using False TrimRight_head [of "''#''" t] by (simp_all add: name_ok_def space_facts)
  then show ?thesis by (simp add: delta_line_def HasPrefix_def TrimPrefix_def delta_start_def)
qed

lemma entry_lines_plain: "entry_ok e \<Longrightarrow> l \<in> set (entry_lines e) \<Longrightarrow> newline \<notin> set l"
proof -
  assume e: "entry_ok e" and l: "l \<in> set (entry_lines e)"
  let ?r = "fst e"
  have "\<forall>l \<in> set (prose_lines (r_Statement ?r)). newline \<notin> set l" "newline \<notin> set (r_Name ?r)"
    using e by (auto simp: entry_ok_def delta_requirement_ok_def list_all_iff statement_line_def name_ok_def dest: plain_trim)
  moreover have "\<forall>l \<in> set (scenario_lines sc). newline \<notin> set l" if "sc \<in> set (r_Scenarios ?r)" for sc
    using e that step_line_plain plain_trim
    by (auto simp: entry_ok_def delta_requirement_ok_def list_all_iff scenario_lines_def scenario_ok_def name_ok_def) blast+
  ultimately show ?thesis
    using l e by (auto simp: entry_lines_def requirement_lines_def annotation_def entry_ok_def name_ok_def split: if_splits)
qed

lemma delta_lines_plain: "delta_ok d \<Longrightarrow> \<forall>l \<in> set (delta_lines d). newline \<notin> set l"
  using delta_entries_ok [of d] entry_lines_plain
  unfolding delta_lines_entries
  by (auto simp: delta_section_lines_def section_heading_def list_all_iff delta_ok_def name_ok_def split: if_splits)

definition delta_modelled :: "Delta \<Rightarrow> Delta" where
  "delta_modelled d = d\<lparr>dl_Capability := [], dl_Warnings := []\<rparr>"

lemma delta_eta: "\<lparr>mq_Requirement = mq_Requirement m, mq_Previously = mq_Previously m\<rparr> = m" "\<lparr>rv_Name = rv_Name r, rv_Rationale = rv_Rationale r\<rparr> = r"
  by simp_all

lemma ParseDelta_RenderDelta:
  assumes "delta_ok d"
  shows "ParseDelta (RenderDelta d) = delta_modelled d"
proof -
  note ok = delta_entries_ok [OF assms]
  define st0 where "st0 = delta_start\<lparr>ds_delta := empty_delta\<lparr>dl_Title := dl_Title d\<rparr>\<rparr>"
  have start: "delta_line delta_start (''# '' @ dl_Title d) = st0"
    using assms delta_line_title by (simp add: st0_def delta_ok_def)
  have flush0: "delta_flushRequirement st0 = st0" by (rule delta_flush_closed) (simp_all add: st0_def delta_start_def)
  have "ParseDelta (RenderDelta d) = ds_delta (delta_flushRequirement (foldl delta_line delta_start (delta_lines d @ [[]])))"
    using split_nl_written [OF delta_lines_plain [OF assms]] by (simp add: ParseDelta_def write_delta)
  also have "\<dots> = foldl (add_entry sectionRemoved) (foldl (add_entry sectionModified) (foldl (add_entry sectionAdded) (ds_delta st0)
      (added_entries d)) (modified_entries d)) (removed_entries d)"
    using delta_section_read [OF ok(1), of sectionAdded] delta_section_read [OF ok(2), of sectionModified] delta_section_read [OF ok(3), of sectionRemoved]
    by (simp add: delta_lines_entries start [simplified] delta_line_blank flush0)
  also have "\<dots> = delta_modelled d"
    by (cases d) (simp add: add_entries st0_def delta_start_def empty_delta_def added_entries_def modified_entries_def removed_entries_def
        delta_modelled_def comp_def list_all_iff delta_eta)
  finally show ?thesis .
qed

section \<open>What is read can be written\<close>

lemma no_newline_drop: "newline \<notin> set t \<Longrightarrow> newline \<notin> set (drop k t)"
  by (meson in_set_dropD)

lemma parenAnnotation_name: "newline \<notin> set t \<Longrightarrow> parenAnnotation t label = Some v \<Longrightarrow> name_ok v"
proof -
  assume t: "newline \<notin> set t" and v: "parenAnnotation t label = Some v"
  let ?u = "TrimSpace (drop (length (''('' @ label @ '':'')) t)"
  have "newline \<notin> set (drop (length (''('' @ label @ '':'')) t)" using t no_newline_drop by simp
  then have "newline \<notin> set ?u" by (rule newline_TrimSpace)
  then have "newline \<notin> set (TrimSuffix ?u '')'')" by (auto simp: TrimSuffix_def dest: in_set_takeD)
  then have "name_ok (TrimSpace (TrimSuffix ?u '')''))" by (rule name_ok_TrimSpace)
  moreover have "v = TrimSpace (TrimSuffix ?u '')'')" using v by (simp add: parenAnnotation_def Let_def split: if_splits)
  ultimately show ?thesis by simp
qed

definition accum_ok :: "reqAccum \<Rightarrow> bool" where
  "accum_ok c \<longleftrightarrow> name_ok (ra_name c) \<and> list_all scenario_ok (ra_scenarios c) \<and> name_ok (ra_previously c) \<and> name_ok (ra_rationale c)"

definition delta_state_ok :: "delta_state \<Rightarrow> bool" where
  "delta_state_ok st \<longleftrightarrow> delta_ok (ds_delta st) \<and> list_all statement_line (ds_stmt st) \<and>
     (\<forall>c. ds_cur st = Some c \<longrightarrow> accum_ok c) \<and> (\<forall>sc. ds_scen st = Some sc \<longrightarrow> scenario_ok sc)"

lemma delta_flushScenario_ok: "delta_state_ok st \<Longrightarrow> delta_state_ok (delta_flushScenario st)"
  by (auto simp: delta_flushScenario_def delta_state_ok_def accum_ok_def split: option.splits)

lemma append_ok: "delta_ok d \<Longrightarrow> accum_ok c \<Longrightarrow> list_all statement_line (prose_lines stmt) \<Longrightarrow> delta_ok (appendDeltaRequirement d sec c stmt)"
  by (cases sec) (simp_all add: appendDeltaRequirement_def delta_ok_def accum_ok_def delta_requirement_ok_def Let_def)

lemma statement_Join: "list_all statement_line ls \<Longrightarrow> list_all statement_line (prose_lines (if ls \<noteq> [] then TrimSpace (Join ls nl) else []))"
proof -
  assume ls: "list_all statement_line ls"
  then have plain: "list_all (plain_line spec_heads) ls" by (auto simp: list_all_iff statement_line_def)
  then have "prose_lines (Join ls nl) = ls" by (intro prose_lines_Join) (auto simp: list_all_iff plain_text)
  then show ?thesis using ls TrimSpace_Join_plain [OF plain] by (cases "ls = []") (simp_all add: prose_lines_def [of "[]"])
qed

lemma delta_flushRequirement_ok: "delta_state_ok st \<Longrightarrow> delta_state_ok (delta_flushRequirement st)"
proof -
  assume "delta_state_ok st"
  from delta_flushScenario_ok [OF this] have ok: "delta_state_ok (delta_flushScenario st)" .
  then have "delta_ok (appendDeltaRequirement (ds_delta (delta_flushScenario st)) (ds_section (delta_flushScenario st)) c
      (if ds_stmt (delta_flushScenario st) \<noteq> [] then TrimSpace (Join (ds_stmt (delta_flushScenario st)) nl) else []))"
    if "ds_cur (delta_flushScenario st) = Some c" for c
    using that by (intro append_ok statement_Join) (simp_all add: delta_state_ok_def)
  with ok show ?thesis
    by (cases "ds_cur (delta_flushScenario st)") (simp_all add: delta_flushRequirement_def delta_state_ok_def Let_def)
qed

lemma delta_text_ok:
  assumes "delta_state_ok st" "plain_line spec_heads t"
  shows "delta_state_ok (delta_text st t)"
proof -
  have name: "name_ok v" if "parenAnnotation t label = Some v" for v label
    using that parenAnnotation_name plain_trim [OF assms(2)] by blast
  have bullet: "step_ok (parseStep body)" if "bulletBody t = Some body" for body
    using parseStep_ok bulletBody_name that plain_text [OF assms(2)] by blast
  let ?b = "case (bulletBody t, ds_scen st) of
           (Some body, Some sc) \<Rightarrow> st\<lparr>ds_scen := Some (sc\<lparr>sn_Steps := sn_Steps sc @ [parseStep body]\<rparr>)\<rparr>
         | _ \<Rightarrow> if ds_cur st \<noteq> None \<and> ds_scen st = None then st\<lparr>ds_stmt := ds_stmt st @ [t]\<rparr> else st"
  have b: "delta_state_ok ?b"
    if "ds_cur st = None \<or> (parenAnnotation t ''Previously'' = None \<and> parenAnnotation t ''Rationale'' = None)"
    using assms that bullet by (auto simp: delta_state_ok_def scenario_ok_def statement_line_def split: option.splits)
  show ?thesis
  proof (cases "ds_cur st")
    case None
    then show ?thesis using b by (simp add: delta_text_def)
  next
    case (Some c)
    then have "accum_ok c" using assms(1) by (simp add: delta_state_ok_def)
    then show ?thesis
      using Some b assms(1) name unfolding delta_text_def Let_def
      by (cases "parenAnnotation t ''Previously''"; cases "parenAnnotation t ''Rationale''")
        (auto simp: delta_state_ok_def accum_ok_def simp del: split_paired_All)
  qed
qed

lemma delta_line_ok:
  assumes "delta_state_ok st" "tidy spec_heads md" "raw \<in> set (split_nl md)"
  shows "delta_state_ok (delta_line st raw)"
proof -
  let ?line = "TrimRight_blank raw"
  have name: "name_ok (TrimSpace (TrimPrefix ?line h))" for h
    by (intro name_ok_TrimSpace newline_TrimPrefix newline_TrimRight split_nl_lines [OF assms(3)])
  note fS = delta_flushScenario_ok [OF assms(1)] and fR = delta_flushRequirement_ok [OF assms(1)]
  consider (sc) "HasPrefix ?line scenario_head"
    | (rq) "\<not> HasPrefix ?line scenario_head" "HasPrefix ?line requirement_head"
    | (sec) "\<not> HasPrefix ?line scenario_head" "\<not> HasPrefix ?line requirement_head" "HasPrefix ?line ''## ''"
    | (ti) "\<not> HasPrefix ?line scenario_head" "\<not> HasPrefix ?line requirement_head" "\<not> HasPrefix ?line ''## ''" "HasPrefix ?line ''# ''"
    | (body) "\<forall>h \<in> set spec_heads. \<not> HasPrefix ?line h"
    by auto
  then show ?thesis
  proof cases
    case sc
    then show ?thesis using fS name [of scenario_head] by (simp add: delta_line_def Let_def delta_state_ok_def scenario_ok_def delta_ok_def)
  next
    case rq
    then show ?thesis using fR name [of requirement_head] by (simp add: delta_line_def Let_def delta_state_ok_def accum_ok_def name_ok_Nil)
  next
    case sec
    then show ?thesis using fR by (simp add: delta_line_def Let_def delta_state_ok_def)
  next
    case ti
    then show ?thesis using assms(1) name [of "''# ''"] by (simp add: delta_line_def Let_def delta_state_ok_def delta_ok_def)
  next
    case body
    then show ?thesis
      using assms(1) delta_text_ok [OF assms(1) tidy_plain [OF assms(2,3)]] by (simp add: delta_line_def Let_def)
  qed
qed

lemma ParseDelta_ok: "tidy spec_heads md \<Longrightarrow> delta_ok (ParseDelta md)"
proof -
  assume tidy: "tidy spec_heads md"
  have "delta_state_ok (foldl delta_line st ls)" if "set ls \<subseteq> set (split_nl md)" "delta_state_ok st" for ls st
    using that by (induction ls arbitrary: st) (auto intro: delta_line_ok [OF _ tidy])
  moreover have "delta_state_ok delta_start"
    by (simp add: delta_state_ok_def delta_start_def empty_delta_def delta_ok_def name_ok_Nil)
  ultimately have "delta_state_ok (delta_flushRequirement (foldl delta_line delta_start (split_nl md)))"
    by (simp add: delta_flushRequirement_ok)
  then show ?thesis by (simp add: ParseDelta_def delta_state_ok_def)
qed

interpretation deltas: document_format ParseDelta RenderDelta delta_ok "tidy spec_heads" delta_modelled
proof
  show "RenderDelta (delta_modelled m) = RenderDelta m" for m by (simp add: RenderDelta_def delta_modelled_def)
qed (fact ParseDelta_RenderDelta ParseDelta_ok)+

text \<open>
  A delta specification survives the round trip: for every document without an indented heading, writing
  what was read and reading it again gives the same added, modified and removed requirements, with
  their annotations, in the canonical order of sections whatever the order of the document was.
\<close>

theorem ParseDelta_stable:
  assumes "tidy spec_heads md"
  shows "ParseDelta (RenderDelta (ParseDelta md)) = delta_modelled (ParseDelta md) \<and>
     RenderDelta (ParseDelta (RenderDelta (ParseDelta md))) = RenderDelta (ParseDelta md)"
  using deltas.stable [OF assms] deltas.canonical [OF assms] by simp

definition sample_delta :: string where
  "sample_delta = ''# Delta for Auth'' @ nl @ ''## REMOVED Requirements'' @ nl @ ''### Requirement: Old'' @ nl @ ''(rationale: unused'' @ nl @
     ''## Modified'' @ nl @ ''### Requirement: Session'' @ nl @ ''The system SHALL expire.'' @ nl @ ''(Previously: never (sic))'' @ nl @
     ''#### Scenario: Idle'' @ nl @ ''- GIVEN a session'' @ nl"

lemma sample_delta_tidy: "tidy spec_heads sample_delta"
  unfolding tidy_def by code_simp

theorem ParseDelta_stable_witness:
  "ParseDelta (RenderDelta (ParseDelta sample_delta)) = delta_modelled (ParseDelta sample_delta) \<and>
   map mq_Previously (dl_Modified (ParseDelta sample_delta)) = [''never (sic)''] \<and>
   map rv_Rationale (dl_Removed (ParseDelta sample_delta)) = [''unused'']"
proof -
  have "map mq_Previously (dl_Modified (ParseDelta sample_delta)) = [''never (sic)'']"
    "map rv_Rationale (dl_Removed (ParseDelta sample_delta)) = [''unused'']" by code_simp+
  then show ?thesis using ParseDelta_stable [OF sample_delta_tidy] by simp
qed

end
