(* ===== verification/Openspec_Proposal.thy ===== *)
theory Openspec_Proposal
  imports Openspec_Spec
begin

text \<open>
  A change's proposal: \<^verbatim>\<open>Proposal\<close> and \<^verbatim>\<open>MarkdownSection\<close> (\<^verbatim>\<open>openspec/model_change.go\<close>), \<^verbatim>\<open>ParseProposal\<close>
  (\<^verbatim>\<open>parse.go\<close>) and \<^verbatim>\<open>RenderProposal\<close> (\<^verbatim>\<open>render.go\<close>).
\<close>

section \<open>Model\<close>

record MarkdownSection =
  ms_Heading :: string
  ms_Body :: string

record Proposal =
  pp_Title :: string
  pp_Intent :: string
  pp_ScopeIn :: "string list"
  pp_ScopeOut :: "string list"
  pp_Approach :: string
  pp_ExtraSections :: "MarkdownSection list"

section \<open>ParseProposal\<close>

definition proposalSection :: "string \<Rightarrow> string" where
  "proposalSection heading =
     (let h = ToLower (TrimSpace heading)
      in if HasPrefix h ''intent'' then ''intent''
         else if HasPrefix h ''scope'' then ''scope''
         else if HasPrefix h ''approach'' then ''approach''
         else [])"

record prop_state =
  pt_p :: Proposal
  pt_section :: string
  pt_scopeOut :: bool
  pt_intent :: "string list"
  pt_approach :: "string list"
  pt_extra :: "MarkdownSection option"
  pt_extraRaw :: "string list"

definition empty_proposal :: Proposal where
  "empty_proposal = \<lparr>pp_Title = [], pp_Intent = [], pp_ScopeIn = [], pp_ScopeOut = [], pp_Approach = [], pp_ExtraSections = []\<rparr>"

definition prop_start :: prop_state where
  "prop_start = \<lparr>pt_p = empty_proposal, pt_section = [], pt_scopeOut = False, pt_intent = [], pt_approach = [],
     pt_extra = None, pt_extraRaw = []\<rparr>"

definition prop_flushExtra :: "prop_state \<Rightarrow> prop_state" where
  "prop_flushExtra st =
     (let st' = (case pt_extra st of
                   None \<Rightarrow> st
                 | Some e \<Rightarrow> st\<lparr>pt_p := (pt_p st)\<lparr>pp_ExtraSections := pp_ExtraSections (pt_p st) @
                     [e\<lparr>ms_Body := TrimSpace (Join (pt_extraRaw st) nl)\<rparr>]\<rparr>\<rparr>)
      in st'\<lparr>pt_extra := None, pt_extraRaw := []\<rparr>)"

definition scope_line :: "prop_state \<Rightarrow> string \<Rightarrow> prop_state" where
  "scope_line st trimmed =
     (let low = ToLower trimmed in
      if HasPrefix low ''in scope'' then st\<lparr>pt_scopeOut := False\<rparr>
      else if HasPrefix low ''out of scope'' \<or> HasPrefix low ''out-of-scope'' then st\<lparr>pt_scopeOut := True\<rparr>
      else (case bulletBody trimmed of
              None \<Rightarrow> st
            | Some body \<Rightarrow>
                if pt_scopeOut st then st\<lparr>pt_p := (pt_p st)\<lparr>pp_ScopeOut := pp_ScopeOut (pt_p st) @ [body]\<rparr>\<rparr>
                else st\<lparr>pt_p := (pt_p st)\<lparr>pp_ScopeIn := pp_ScopeIn (pt_p st) @ [body]\<rparr>\<rparr>))"

definition prop_text :: "prop_state \<Rightarrow> string \<Rightarrow> prop_state" where
  "prop_text st trimmed =
     (if pt_section st = ''intent'' then st\<lparr>pt_intent := pt_intent st @ [trimmed]\<rparr>
      else if pt_section st = ''approach'' then st\<lparr>pt_approach := pt_approach st @ [trimmed]\<rparr>
      else if pt_section st = ''scope'' then scope_line st trimmed
      else if pt_extra st \<noteq> None then st\<lparr>pt_extraRaw := pt_extraRaw st @ [trimmed]\<rparr>
      else st)"

definition prop_line :: "prop_state \<Rightarrow> string \<Rightarrow> prop_state" where
  "prop_line st raw =
     (let line = TrimRight_blank raw; trimmed = TrimSpace line in
      if HasPrefix line ''## '' then
        (let st1 = prop_flushExtra st; heading = TrimSpace (TrimPrefix line ''## '');
             st2 = st1\<lparr>pt_section := proposalSection heading, pt_scopeOut := False\<rparr>
         in if pt_section st2 = [] then st2\<lparr>pt_extra := Some \<lparr>ms_Heading = heading, ms_Body = []\<rparr>\<rparr> else st2)
      else if HasPrefix line ''# '' then st\<lparr>pt_p := (pt_p st)\<lparr>pp_Title := TrimSpace (TrimPrefix line ''# '')\<rparr>\<rparr>
      else if trimmed = [] then st
      else prop_text st trimmed)"

definition ParseProposal :: "string \<Rightarrow> Proposal" where
  "ParseProposal md =
     (let st = prop_flushExtra (foldl prop_line prop_start (split_nl md))
      in (pt_p st)\<lparr>pp_Intent := TrimSpace (Join (pt_intent st) nl), pp_Approach := TrimSpace (Join (pt_approach st) nl)\<rparr>)"

section \<open>RenderProposal\<close>

definition renderBullets :: "string list \<Rightarrow> string" where
  "renderBullets items = concat (map (\<lambda>it. ''- '' @ it @ nl) items)"

definition renderExtraSections :: "MarkdownSection list \<Rightarrow> string" where
  "renderExtraSections secs = concat (map (\<lambda>sec.
     if ms_Heading sec = [] then []
     else nl @ ''## '' @ ms_Heading sec @ nl @ (if ms_Body sec \<noteq> [] then ms_Body sec @ nl else [])) secs)"

definition RenderProposal :: "Proposal \<Rightarrow> string" where
  "RenderProposal p =
     ''# '' @ pp_Title p @ nl @
     (if pp_Intent p \<noteq> [] then nl @ ''## Intent'' @ nl @ pp_Intent p @ nl else []) @
     (if pp_ScopeIn p \<noteq> [] \<or> pp_ScopeOut p \<noteq> [] then
        nl @ ''## Scope'' @ nl @
        (if pp_ScopeIn p \<noteq> [] then ''In scope:'' @ nl @ renderBullets (pp_ScopeIn p) else []) @
        (if pp_ScopeOut p \<noteq> [] then
           (if pp_ScopeIn p \<noteq> [] then nl else []) @ ''Out of scope:'' @ nl @ renderBullets (pp_ScopeOut p)
         else [])
      else []) @
     (if pp_Approach p \<noteq> [] then nl @ ''## Approach'' @ nl @ pp_Approach p @ nl else []) @
     renderExtraSections (pp_ExtraSections p)"

section \<open>The writer, line by line\<close>

abbreviation section_heads :: "string list" where
  "section_heads \<equiv> [''## '', ''# '']"

definition bullet_lines :: "string list \<Rightarrow> string list" where
  "bullet_lines items = map (\<lambda>it. ''- '' @ it) items"

definition extra_lines :: "MarkdownSection \<Rightarrow> string list" where
  "extra_lines sec = (if ms_Heading sec = [] then [] else [[], ''## '' @ ms_Heading sec] @ prose_lines (ms_Body sec))"

definition prose_section :: "string \<Rightarrow> string \<Rightarrow> string list" where
  "prose_section heading p = (if p = [] then [] else [[], heading] @ prose_lines p)"

definition scope_lines :: "Proposal \<Rightarrow> string list" where
  "scope_lines p =
     (if pp_ScopeIn p = [] \<and> pp_ScopeOut p = [] then []
      else [[], ''## Scope''] @
        (if pp_ScopeIn p \<noteq> [] then ''In scope:'' # bullet_lines (pp_ScopeIn p) else []) @
        (if pp_ScopeOut p \<noteq> [] then (if pp_ScopeIn p \<noteq> [] then [[]] else []) @ ''Out of scope:'' # bullet_lines (pp_ScopeOut p) else []))"

definition proposal_lines :: "Proposal \<Rightarrow> string list" where
  "proposal_lines p = [''# '' @ pp_Title p] @ prose_section ''## Intent'' (pp_Intent p) @ scope_lines p @
     prose_section ''## Approach'' (pp_Approach p) @ concat (map extra_lines (pp_ExtraSections p))"

lemma write_bullets: "write_lines (bullet_lines items) = renderBullets items"
  by (simp add: bullet_lines_def renderBullets_def write_lines_def comp_def)

lemma write_extra: "write_lines (concat (map extra_lines secs)) = renderExtraSections secs"
  unfolding write_lines_concat renderExtraSections_def extra_lines_def
  by (rule arg_cong [where f = concat], rule map_cong) (simp_all add: write_lines_Cons write_prose_lines)

lemma write_prose_section: "write_lines (prose_section h p) = (if p \<noteq> [] then nl @ h @ nl @ p @ nl else [])"
  by (simp add: prose_section_def write_lines_Cons write_prose)

lemma write_proposal: "write_lines (proposal_lines p) = RenderProposal p"
  by (simp add: proposal_lines_def RenderProposal_def write_lines_Cons write_prose_section write_extra scope_lines_def write_bullets)

section \<open>Sections are read back\<close>

definition section_ok :: "(string \<Rightarrow> string) \<Rightarrow> string list \<Rightarrow> MarkdownSection \<Rightarrow> bool" where
  "section_ok classify hs sec \<longleftrightarrow> text_line (ms_Heading sec) \<and> classify (ms_Heading sec) = [] \<and> prose_ok hs (ms_Body sec)"

definition proposal_ok :: "Proposal \<Rightarrow> bool" where
  "proposal_ok p \<longleftrightarrow> name_ok (pp_Title p) \<and> prose_ok section_heads (pp_Intent p) \<and> prose_ok section_heads (pp_Approach p) \<and>
     list_all text_line (pp_ScopeIn p) \<and> list_all text_line (pp_ScopeOut p) \<and>
     list_all (section_ok proposalSection section_heads) (pp_ExtraSections p)"

lemma prop_line_blank: "prop_line st [] = st"
  by (simp add: prop_line_def TrimRight_blank_def HasPrefix_def)

lemma prop_line_plain: "plain_line section_heads t \<Longrightarrow> prop_line st t = prop_text st t"
  using plain_trim [of section_heads t] by (simp add: prop_line_def plain_line_def)

lemma heading_line:
  assumes "text_line h"
  shows "TrimRight_blank (''## '' @ h) = ''## '' @ h" "TrimSpace h = h" "newline \<notin> set (''## '' @ h)"
  using assms TrimRight_head [of "''##''" h] by (auto simp: text_line_def name_ok_def space_facts)

lemma prop_line_heading:
  assumes "text_line h"
  shows "prop_line st (''## '' @ h) = (let st2 = (prop_flushExtra st)\<lparr>pt_section := proposalSection h, pt_scopeOut := False\<rparr>
     in if proposalSection h = [] then st2\<lparr>pt_extra := Some \<lparr>ms_Heading = h, ms_Body = []\<rparr>\<rparr> else st2)"
  using heading_line [OF assms] by (simp add: prop_line_def HasPrefix_def TrimPrefix_def Let_def)

lemma prop_intent:
  "list_all (plain_line section_heads) ls \<Longrightarrow> pt_section st = ''intent'' \<Longrightarrow> foldl prop_line st ls = st\<lparr>pt_intent := pt_intent st @ ls\<rparr>"
  by (induction ls arbitrary: st) (simp_all add: prop_line_plain prop_text_def)

lemma prop_approach:
  "list_all (plain_line section_heads) ls \<Longrightarrow> pt_section st = ''approach'' \<Longrightarrow> foldl prop_line st ls = st\<lparr>pt_approach := pt_approach st @ ls\<rparr>"
  by (induction ls arbitrary: st) (simp_all add: prop_line_plain prop_text_def)

lemma prop_extra:
  "list_all (plain_line section_heads) ls \<Longrightarrow> pt_section st = [] \<Longrightarrow> pt_extra st \<noteq> None \<Longrightarrow> foldl prop_line st ls = st\<lparr>pt_extraRaw := pt_extraRaw st @ ls\<rparr>"
  by (induction ls arbitrary: st) (auto simp: prop_line_plain prop_text_def)

lemma bullet_plain: "text_line b \<Longrightarrow> plain_line section_heads (''- '' @ b)"
  by (auto simp: plain_line_def text_line_def name_ok_def HasPrefix_def TrimSpace_fix_iff space_facts)

lemma bullet_body: "text_line b \<Longrightarrow> bulletBody (''- '' @ b) = Some b"
  by (simp add: bulletBody_def bulletMarkers_def HasPrefix_def text_line_def name_ok_def)

lemma prop_bullet:
  assumes "text_line b" "pt_section st = ''scope''"
  shows "prop_line st (''- '' @ b) =
    (if pt_scopeOut st then st\<lparr>pt_p := (pt_p st)\<lparr>pp_ScopeOut := pp_ScopeOut (pt_p st) @ [b]\<rparr>\<rparr>
     else st\<lparr>pt_p := (pt_p st)\<lparr>pp_ScopeIn := pp_ScopeIn (pt_p st) @ [b]\<rparr>\<rparr>)"
proof -
  have "ToLower (''- '' @ b) = ''- '' @ ToLower b" by (simp add: ToLower_def lower_byte_def is_upper_alpha_def byte_val_def)
  then have "\<not> HasPrefix (ToLower (''- '' @ b)) ''in scope'' \<and> \<not> HasPrefix (ToLower (''- '' @ b)) ''out of scope'' \<and> \<not> HasPrefix (ToLower (''- '' @ b)) ''out-of-scope''"
    by (simp add: HasPrefix_def)
  then show ?thesis
    using assms prop_line_plain [OF bullet_plain [OF assms(1)]] bullet_body [OF assms(1)] by (simp add: prop_text_def scope_line_def)
qed

lemma prop_bullets_in:
  "list_all text_line bs \<Longrightarrow> pt_section st = ''scope'' \<Longrightarrow> \<not> pt_scopeOut st \<Longrightarrow>
   foldl prop_line st (bullet_lines bs) = st\<lparr>pt_p := (pt_p st)\<lparr>pp_ScopeIn := pp_ScopeIn (pt_p st) @ bs\<rparr>\<rparr>"
  by (induction bs arbitrary: st) (simp_all add: bullet_lines_def prop_bullet [simplified])

lemma prop_bullets_out:
  "list_all text_line bs \<Longrightarrow> pt_section st = ''scope'' \<Longrightarrow> pt_scopeOut st \<Longrightarrow>
   foldl prop_line st (bullet_lines bs) = st\<lparr>pt_p := (pt_p st)\<lparr>pp_ScopeOut := pp_ScopeOut (pt_p st) @ bs\<rparr>\<rparr>"
  by (induction bs arbitrary: st) (simp_all add: bullet_lines_def prop_bullet [simplified])

lemma scope_labels:
  assumes "pt_section st = ''scope''"
  shows "prop_line st ''In scope:'' = st\<lparr>pt_scopeOut := False\<rparr>" "prop_line st ''Out of scope:'' = st\<lparr>pt_scopeOut := True\<rparr>"
proof -
  have "plain_line section_heads ''In scope:''" "plain_line section_heads ''Out of scope:''"
    "HasPrefix (ToLower ''In scope:'') ''in scope''" "\<not> HasPrefix (ToLower ''Out of scope:'') ''in scope''"
    "HasPrefix (ToLower ''Out of scope:'') ''out of scope''" by code_simp+
  then show "prop_line st ''In scope:'' = st\<lparr>pt_scopeOut := False\<rparr>" "prop_line st ''Out of scope:'' = st\<lparr>pt_scopeOut := True\<rparr>"
    using assms by (simp_all add: prop_line_plain prop_text_def scope_line_def)
qed

lemma prop_headings:
  "prop_line st ''## Intent'' = (prop_flushExtra st)\<lparr>pt_section := ''intent'', pt_scopeOut := False\<rparr>"
  "prop_line st ''## Scope'' = (prop_flushExtra st)\<lparr>pt_section := ''scope'', pt_scopeOut := False\<rparr>"
  "prop_line st ''## Approach'' = (prop_flushExtra st)\<lparr>pt_section := ''approach'', pt_scopeOut := False\<rparr>"
proof -
  have "text_line ''Intent''" "text_line ''Scope''" "text_line ''Approach''" "proposalSection ''Intent'' = ''intent''"
    "proposalSection ''Scope'' = ''scope''" "proposalSection ''Approach'' = ''approach''" by code_simp+
  then show "prop_line st ''## Intent'' = (prop_flushExtra st)\<lparr>pt_section := ''intent'', pt_scopeOut := False\<rparr>"
    "prop_line st ''## Scope'' = (prop_flushExtra st)\<lparr>pt_section := ''scope'', pt_scopeOut := False\<rparr>"
    "prop_line st ''## Approach'' = (prop_flushExtra st)\<lparr>pt_section := ''approach'', pt_scopeOut := False\<rparr>"
    using prop_line_heading [of "''Intent''" st] prop_line_heading [of "''Scope''" st] prop_line_heading [of "''Approach''" st] by simp_all
qed

lemma flushExtra_none: "pt_extra st = None \<Longrightarrow> pt_extraRaw st = [] \<Longrightarrow> prop_flushExtra st = st"
  by (simp add: prop_flushExtra_def)

lemma flushExtra_clears: "pt_extra (prop_flushExtra st) = None" "pt_extraRaw (prop_flushExtra st) = []"
  by (simp_all add: prop_flushExtra_def Let_def)

lemma flushExtra_fields:
  "pt_intent (prop_flushExtra st) = pt_intent st" "pt_approach (prop_flushExtra st) = pt_approach st"
  "pt_section (prop_flushExtra st) = pt_section st" "pt_scopeOut (prop_flushExtra st) = pt_scopeOut st"
  by (simp_all add: prop_flushExtra_def Let_def split: option.split)

lemma prop_extra_section:
  assumes "section_ok proposalSection section_heads sec"
  shows "prop_flushExtra (foldl prop_line st (extra_lines sec)) = (prop_flushExtra st)\<lparr>pt_section := [], pt_scopeOut := False,
     pt_p := (pt_p (prop_flushExtra st))\<lparr>pp_ExtraSections := pp_ExtraSections (pt_p (prop_flushExtra st)) @ [sec]\<rparr>\<rparr>"
proof -
  have sec: "text_line (ms_Heading sec)" "proposalSection (ms_Heading sec) = []" "prose_ok section_heads (ms_Body sec)"
    using assms by (auto simp: section_ok_def)
  define st1 where "st1 = (prop_flushExtra st)\<lparr>pt_section := [], pt_scopeOut := False, pt_extra := Some \<lparr>ms_Heading = ms_Heading sec, ms_Body = []\<rparr>\<rparr>"
  have "foldl prop_line st (extra_lines sec) = foldl prop_line st1 (prose_lines (ms_Body sec))"
    using sec(1) prop_line_heading [OF sec(1)] sec(2) by (simp add: extra_lines_def text_line_def prop_line_blank st1_def)
  also have "\<dots> = st1\<lparr>pt_extraRaw := prose_lines (ms_Body sec)\<rparr>"
    using prop_extra [of "prose_lines (ms_Body sec)" st1] sec(3) by (simp add: st1_def prose_ok_def flushExtra_clears)
  finally have "foldl prop_line st (extra_lines sec) = st1\<lparr>pt_extraRaw := prose_lines (ms_Body sec)\<rparr>" .
  then show ?thesis
    using TrimSpace_prose [OF sec(3)] flushExtra_clears [of st]
    by (cases sec; cases "prop_flushExtra st") (simp add: st1_def prop_flushExtra_def [of "prop_state_ext _ _ _ _ _ _ _ _"] Join_prose_lines)
qed

lemma prop_extra_sections:
  "list_all (section_ok proposalSection section_heads) secs \<Longrightarrow>
   (let F = prop_flushExtra (foldl prop_line st (concat (map extra_lines secs))) in
     pt_p F = (pt_p (prop_flushExtra st))\<lparr>pp_ExtraSections := pp_ExtraSections (pt_p (prop_flushExtra st)) @ secs\<rparr> \<and>
     pt_intent F = pt_intent st \<and> pt_approach F = pt_approach st)"
proof (induction secs arbitrary: st)
  case (Cons sec secs)
  let ?st = "foldl prop_line st (extra_lines sec)"
  have one: "prop_flushExtra ?st = (prop_flushExtra st)\<lparr>pt_section := [], pt_scopeOut := False,
     pt_p := (pt_p (prop_flushExtra st))\<lparr>pp_ExtraSections := pp_ExtraSections (pt_p (prop_flushExtra st)) @ [sec]\<rparr>\<rparr>"
    using prop_extra_section Cons.prems by simp
  then have "pt_intent ?st = pt_intent st" "pt_approach ?st = pt_approach st"
    using flushExtra_fields [of ?st] flushExtra_fields [of st] by (metis (no_types, lifting) prop_state.ext_inject prop_state.surjective prop_state.update_convs(1-3))+
  then show ?case using Cons.IH [of ?st] Cons.prems one by (simp add: Let_def)
qed (simp add: flushExtra_fields)

lemma prop_line_title: "name_ok t \<Longrightarrow> prop_line prop_start (''# '' @ t) = prop_start\<lparr>pt_p := empty_proposal\<lparr>pp_Title := t\<rparr>\<rparr>"
proof (cases "t = []")
  case True
  then show ?thesis
    by (simp add: prop_line_def TrimRight_blank_def blank_char_def HasPrefix_def TrimSpace_def space_facts prop_text_def prop_start_def empty_proposal_def)
next
  case False
  assume "name_ok t"
  then have "TrimRight_blank (''# '' @ t) = ''# '' @ t" "TrimSpace t = t"
    using False TrimRight_head [of "''#''" t] by (simp_all add: name_ok_def space_facts)
  then show ?thesis by (simp add: prop_line_def HasPrefix_def TrimPrefix_def prop_start_def)
qed

lemma prose_section_plain: "prose_ok hs p \<Longrightarrow> newline \<notin> set h \<Longrightarrow> \<forall>l \<in> set (prose_section h p). newline \<notin> set l"
  using prose_no_newline [of hs p] by (auto simp: prose_section_def)

lemma extra_lines_plain: "section_ok c hs sec \<Longrightarrow> \<forall>l \<in> set (extra_lines sec). newline \<notin> set l"
  using prose_no_newline [of hs "ms_Body sec"] by (auto simp: extra_lines_def section_ok_def text_line_def name_ok_def)

lemma proposal_lines_plain: "proposal_ok p \<Longrightarrow> \<forall>l \<in> set (proposal_lines p). newline \<notin> set l"
  using prose_section_plain [of section_heads "pp_Intent p" "''## Intent''"] prose_section_plain [of section_heads "pp_Approach p" "''## Approach''"]
    extra_lines_plain [of proposalSection section_heads]
  by (auto simp: proposal_lines_def proposal_ok_def name_ok_def scope_lines_def bullet_lines_def list_all_iff text_line_def split: if_splits)

text \<open>What is read before the extra sections.\<close>

lemma proposal_body:
  assumes "proposal_ok p"
  shows "\<exists>sec out. foldl prop_line prop_start ([''# '' @ pp_Title p] @ prose_section ''## Intent'' (pp_Intent p) @ scope_lines p @ prose_section ''## Approach'' (pp_Approach p)) =
     \<lparr>pt_p = p\<lparr>pp_Intent := [], pp_Approach := [], pp_ExtraSections := []\<rparr>, pt_section = sec, pt_scopeOut = out,
       pt_intent = prose_lines (pp_Intent p), pt_approach = prose_lines (pp_Approach p), pt_extra = None, pt_extraRaw = []\<rparr>"
proof -
  have ok: "name_ok (pp_Title p)" "list_all (plain_line section_heads) (prose_lines (pp_Intent p))"
    "list_all (plain_line section_heads) (prose_lines (pp_Approach p))" "list_all text_line (pp_ScopeIn p)" "list_all text_line (pp_ScopeOut p)"
    using assms by (auto simp: proposal_ok_def prose_ok_def)
  define q where "q = empty_proposal\<lparr>pp_Title := pp_Title p\<rparr>"
  have intent: "\<exists>sec. foldl prop_line prop_start ([''# '' @ pp_Title p] @ prose_section ''## Intent'' (pp_Intent p)) =
      prop_start\<lparr>pt_p := q, pt_section := sec, pt_intent := prose_lines (pp_Intent p)\<rparr>"
    using prop_line_title [OF ok(1)] ok(2)
    by (auto simp: prose_section_def prop_line_blank prop_headings flushExtra_none prop_start_def prop_intent q_def prose_lines_def)
  have scope: "\<exists>sec out. foldl prop_line (prop_start\<lparr>pt_p := q, pt_section := sec0, pt_intent := i\<rparr>) (scope_lines p) =
      prop_start\<lparr>pt_p := q\<lparr>pp_ScopeIn := pp_ScopeIn p, pp_ScopeOut := pp_ScopeOut p\<rparr>, pt_section := sec, pt_scopeOut := out, pt_intent := i\<rparr>" for sec0 i
    using ok(4,5)
    by (auto simp: scope_lines_def prop_line_blank prop_headings flushExtra_none prop_start_def scope_labels prop_bullets_in prop_bullets_out q_def empty_proposal_def)
  have approach: "\<exists>sec out. foldl prop_line (prop_start\<lparr>pt_p := r, pt_section := sec0, pt_scopeOut := out0, pt_intent := i\<rparr>) (prose_section ''## Approach'' (pp_Approach p)) =
      prop_start\<lparr>pt_p := r, pt_section := sec, pt_scopeOut := out, pt_intent := i, pt_approach := prose_lines (pp_Approach p)\<rparr>" for sec0 out0 i r
    using ok(3)
    by (auto simp: prose_section_def prop_line_blank prop_headings flushExtra_none prop_start_def prop_approach prose_lines_def)
  from intent obtain sec1 where 1: "foldl prop_line prop_start ([''# '' @ pp_Title p] @ prose_section ''## Intent'' (pp_Intent p)) =
      prop_start\<lparr>pt_p := q, pt_section := sec1, pt_intent := prose_lines (pp_Intent p)\<rparr>" by blast
  from scope [where ?sec0.0 = sec1 and i = "prose_lines (pp_Intent p)"] obtain sec2 out2 where 2: "foldl prop_line (prop_start\<lparr>pt_p := q, pt_section := sec1, pt_intent := prose_lines (pp_Intent p)\<rparr>) (scope_lines p) =
      prop_start\<lparr>pt_p := q\<lparr>pp_ScopeIn := pp_ScopeIn p, pp_ScopeOut := pp_ScopeOut p\<rparr>, pt_section := sec2, pt_scopeOut := out2, pt_intent := prose_lines (pp_Intent p)\<rparr>" by blast
  from approach [where r = "q\<lparr>pp_ScopeIn := pp_ScopeIn p, pp_ScopeOut := pp_ScopeOut p\<rparr>" and ?sec0.0 = sec2 and ?out0.0 = out2 and i = "prose_lines (pp_Intent p)"]
  obtain sec3 out3 where 3: "foldl prop_line (prop_start\<lparr>pt_p := q\<lparr>pp_ScopeIn := pp_ScopeIn p, pp_ScopeOut := pp_ScopeOut p\<rparr>, pt_section := sec2, pt_scopeOut := out2,
        pt_intent := prose_lines (pp_Intent p)\<rparr>) (prose_section ''## Approach'' (pp_Approach p)) =
      prop_start\<lparr>pt_p := q\<lparr>pp_ScopeIn := pp_ScopeIn p, pp_ScopeOut := pp_ScopeOut p\<rparr>, pt_section := sec3, pt_scopeOut := out3,
        pt_intent := prose_lines (pp_Intent p), pt_approach := prose_lines (pp_Approach p)\<rparr>" by blast
  have "foldl prop_line prop_start ([''# '' @ pp_Title p] @ prose_section ''## Intent'' (pp_Intent p) @ scope_lines p @ prose_section ''## Approach'' (pp_Approach p)) =
      foldl prop_line (foldl prop_line (foldl prop_line prop_start ([''# '' @ pp_Title p] @ prose_section ''## Intent'' (pp_Intent p))) (scope_lines p))
        (prose_section ''## Approach'' (pp_Approach p))" by simp
  also have "\<dots> = prop_start\<lparr>pt_p := q\<lparr>pp_ScopeIn := pp_ScopeIn p, pp_ScopeOut := pp_ScopeOut p\<rparr>, pt_section := sec3, pt_scopeOut := out3,
        pt_intent := prose_lines (pp_Intent p), pt_approach := prose_lines (pp_Approach p)\<rparr>"
    unfolding 1 2 3 ..
  finally show ?thesis by (simp add: q_def prop_start_def empty_proposal_def)
qed

lemma ParseProposal_RenderProposal:
  assumes "proposal_ok p"
  shows "ParseProposal (RenderProposal p) = p"
proof -
  let ?head = "[''# '' @ pp_Title p] @ prose_section ''## Intent'' (pp_Intent p) @ scope_lines p @ prose_section ''## Approach'' (pp_Approach p)"
  obtain st where st: "foldl prop_line prop_start ?head = st" "pt_p st = p\<lparr>pp_Intent := [], pp_Approach := [], pp_ExtraSections := []\<rparr>"
    "pt_intent st = prose_lines (pp_Intent p)" "pt_approach st = prose_lines (pp_Approach p)" "pt_extra st = None" "pt_extraRaw st = []"
    using proposal_body [OF assms] by force
  have lines: "split_nl (RenderProposal p) = ?head @ concat (map extra_lines (pp_ExtraSections p)) @ [[]]"
    using split_nl_written [OF proposal_lines_plain [OF assms]] by (simp add: write_proposal) (simp add: proposal_lines_def)
  have fold: "foldl prop_line prop_start (split_nl (RenderProposal p)) = foldl prop_line st (concat (map extra_lines (pp_ExtraSections p)))"
    unfolding lines foldl_append [of prop_line prop_start ?head] st(1) by (simp add: prop_line_blank)
  have "list_all (section_ok proposalSection section_heads) (pp_ExtraSections p)" using assms by (simp add: proposal_ok_def)
  from prop_extra_sections [OF this, of st] have "ParseProposal (RenderProposal p) = p\<lparr>pp_Intent := TrimSpace (pp_Intent p), pp_Approach := TrimSpace (pp_Approach p)\<rparr>"
    using st(2-6) by (simp add: ParseProposal_def fold Let_def flushExtra_none Join_prose_lines)
  then show ?thesis
    using assms TrimSpace_prose [of section_heads] by (simp add: proposal_ok_def)
qed

section \<open>What is read can be written\<close>

text \<open>
  No section heading consists of form feeds or vertical tabs alone: these are trimmed from a heading but
  not from the end of a line, and a section without heading is not written.
\<close>

definition named_sections :: "string \<Rightarrow> bool" where
  "named_sections md \<longleftrightarrow> (\<forall>raw \<in> set (split_nl md). HasPrefix (TrimRight_blank raw) ''## '' \<longrightarrow>
     TrimSpace (TrimPrefix (TrimRight_blank raw) ''## '') \<noteq> [])"

definition prop_state_ok :: "prop_state \<Rightarrow> bool" where
  "prop_state_ok st \<longleftrightarrow> name_ok (pp_Title (pt_p st)) \<and> list_all text_line (pp_ScopeIn (pt_p st)) \<and> list_all text_line (pp_ScopeOut (pt_p st)) \<and>
     list_all (section_ok proposalSection section_heads) (pp_ExtraSections (pt_p st)) \<and>
     list_all (plain_line section_heads) (pt_intent st) \<and> list_all (plain_line section_heads) (pt_approach st) \<and>
     list_all (plain_line section_heads) (pt_extraRaw st) \<and>
     (\<forall>e. pt_extra st = Some e \<longrightarrow> text_line (ms_Heading e) \<and> proposalSection (ms_Heading e) = [])"

lemma prop_flushExtra_ok: "prop_state_ok st \<Longrightarrow> prop_state_ok (prop_flushExtra st)"
  by (auto simp: prop_flushExtra_def prop_state_ok_def section_ok_def TrimSpace_Join_plain intro: prose_ok_Join split: option.splits)

lemma prop_text_ok: "prop_state_ok st \<Longrightarrow> plain_line section_heads t \<Longrightarrow> prop_state_ok (prop_text st t)"
  using bulletBody_name [of t] plain_text [of section_heads t]
  by (auto simp: prop_text_def prop_state_ok_def scope_line_def Let_def split: option.splits)

lemma prop_line_ok:
  assumes "prop_state_ok st" "tidy section_heads md" "named_sections md" "raw \<in> set (split_nl md)"
  shows "prop_state_ok (prop_line st raw)"
proof -
  let ?line = "TrimRight_blank raw"
  have name: "name_ok (TrimSpace (TrimPrefix ?line h))" for h
    by (intro name_ok_TrimSpace newline_TrimPrefix newline_TrimRight split_nl_lines [OF assms(4)])
  consider (sec) "HasPrefix ?line ''## ''" | (ti) "\<not> HasPrefix ?line ''## ''" "HasPrefix ?line ''# ''"
    | (body) "\<forall>h \<in> set section_heads. \<not> HasPrefix ?line h" by auto
  then show ?thesis
  proof cases
    case sec
    then have "text_line (TrimSpace (TrimPrefix ?line ''## ''))"
      using assms(3,4) name [of "''## ''"] by (simp add: text_line_def named_sections_def)
    then show ?thesis using sec prop_flushExtra_ok [OF assms(1)] by (simp add: prop_line_def Let_def prop_state_ok_def flushExtra_clears)
  next
    case ti
    then show ?thesis using assms(1) name [of "''# ''"] by (simp add: prop_line_def Let_def prop_state_ok_def)
  next
    case body
    then show ?thesis using assms(1) prop_text_ok [OF assms(1) tidy_plain [OF assms(2,4)]] by (simp add: prop_line_def Let_def)
  qed
qed

lemma ParseProposal_ok:
  assumes "tidy section_heads md \<and> named_sections md"
  shows "proposal_ok (ParseProposal md)"
proof -
  have "prop_state_ok (foldl prop_line st ls)" if "set ls \<subseteq> set (split_nl md)" "prop_state_ok st" for ls st
    using that assms by (induction ls arbitrary: st) (auto intro: prop_line_ok)
  moreover have "prop_state_ok prop_start" by (simp add: prop_state_ok_def prop_start_def empty_proposal_def name_ok_def)
  ultimately have "prop_state_ok (prop_flushExtra (foldl prop_line prop_start (split_nl md)))" by (simp add: prop_flushExtra_ok)
  then show ?thesis
    by (auto simp: ParseProposal_def Let_def proposal_ok_def prop_state_ok_def TrimSpace_Join_plain intro: prose_ok_Join)
qed

interpretation proposals: document_format ParseProposal RenderProposal proposal_ok "\<lambda>md. tidy section_heads md \<and> named_sections md" id
  by unfold_locales (simp_all add: ParseProposal_RenderProposal ParseProposal_ok)

text \<open>
  A proposal survives the round trip, its unmodelled sections included: for every document without an
  indented or unnamed heading, reading what was written gives back exactly what was read first.
\<close>

theorem ParseProposal_stable:
  assumes "tidy section_heads md" "named_sections md"
  shows "ParseProposal (RenderProposal (ParseProposal md)) = ParseProposal md"
  using proposals.stable [of md] assms by simp

definition sample_proposal :: string where
  "sample_proposal = ''# Proposal: Dark Mode'' @ nl @ ''## Scope'' @ nl @ ''* themes'' @ nl @ ''Out-of-scope:'' @ nl @ ''+ fonts'' @ nl @
     ''## Roadmap'' @ nl @ ''Later.'' @ nl @ ''## Intent'' @ nl @ ''Ease.'' @ nl"

lemma sample_proposal_clean: "tidy section_heads sample_proposal" "named_sections sample_proposal"
  unfolding tidy_def named_sections_def by code_simp+

theorem ParseProposal_stable_witness:
  "ParseProposal (RenderProposal (ParseProposal sample_proposal)) = ParseProposal sample_proposal \<and>
   pp_ScopeOut (ParseProposal sample_proposal) = [''fonts'']"
proof -
  have "pp_ScopeOut (ParseProposal sample_proposal) = [''fonts'']" by code_simp
  then show ?thesis using ParseProposal_stable [OF sample_proposal_clean] by simp
qed

end
