(* ===== verification/Openspec_Design.thy ===== *)
theory Openspec_Design
  imports Openspec_Proposal
begin

text \<open>
  A change's design: \<^verbatim>\<open>Design\<close>, \<^verbatim>\<open>DesignDecision\<close>, \<^verbatim>\<open>FileChange\<close> (\<^verbatim>\<open>openspec/model_change.go\<close>), \<^verbatim>\<open>ParseDesign\<close> with
  its helpers (\<^verbatim>\<open>parse.go\<close>) and \<^verbatim>\<open>RenderDesign\<close> (\<^verbatim>\<open>render.go\<close>).
\<close>

section \<open>Model\<close>

record DesignDecision =
  dd_Name :: string
  dd_Body :: string

record FileChange =
  fc_Path :: string
  fc_Kind :: string

record Design =
  dg_Title :: string
  dg_TechnicalApproach :: string
  dg_Decisions :: "DesignDecision list"
  dg_DataFlow :: string
  dg_FileChanges :: "FileChange list"
  dg_ExtraSections :: "MarkdownSection list"

section \<open>ParseDesign\<close>

definition designSection :: "string \<Rightarrow> string" where
  "designSection heading =
     (let h = ToLower (TrimSpace heading)
      in if HasPrefix h ''technical approach'' then ''technical''
         else if HasPrefix h ''architecture decision'' then ''decisions''
         else if HasPrefix h ''data flow'' then ''dataflow''
         else if HasPrefix h ''file change'' then ''filechanges''
         else [])"

abbreviation backtick :: char where "backtick \<equiv> CHR 0x60"

definition parseFileChange :: "string \<Rightarrow> FileChange option" where
  "parseFileChange trimmed =
     (case bulletBody trimmed of
        None \<Rightarrow> None
      | Some body \<Rightarrow>
          if \<not> HasPrefix body [backtick] then None
          else if backtick \<notin> set (drop 1 body) then None
          else (let path = takeWhile (\<lambda>c. c \<noteq> backtick) (drop 1 body);
                    rest = TrimSpace (drop (length path + 2) body)
                in Some \<lparr>fc_Path = path,
                     fc_Kind = (if HasPrefix rest ''('' \<and> HasSuffix rest '')''
                                then TrimSpace (take (length rest - 2) (drop 1 rest)) else [])\<rparr>))"

abbreviation decision_head :: string where "decision_head \<equiv> ''### Decision:''"

record design_state =
  dz_d :: Design
  dz_section :: string
  dz_technical :: "string list"
  dz_dataFlow :: "string list"
  dz_curDec :: "DesignDecision option"
  dz_decBody :: "string list"
  dz_extra :: "MarkdownSection option"
  dz_extraRaw :: "string list"

definition empty_design :: Design where
  "empty_design = \<lparr>dg_Title = [], dg_TechnicalApproach = [], dg_Decisions = [], dg_DataFlow = [], dg_FileChanges = [], dg_ExtraSections = []\<rparr>"

definition design_start :: design_state where
  "design_start = \<lparr>dz_d = empty_design, dz_section = [], dz_technical = [], dz_dataFlow = [], dz_curDec = None, dz_decBody = [],
     dz_extra = None, dz_extraRaw = []\<rparr>"

definition flushDecision :: "design_state \<Rightarrow> design_state" where
  "flushDecision st =
     (let st' = (case dz_curDec st of
                   None \<Rightarrow> st
                 | Some c \<Rightarrow> st\<lparr>dz_d := (dz_d st)\<lparr>dg_Decisions := dg_Decisions (dz_d st) @
                     [c\<lparr>dd_Body := TrimSpace (Join (dz_decBody st) nl)\<rparr>]\<rparr>\<rparr>)
      in st'\<lparr>dz_curDec := None, dz_decBody := []\<rparr>)"

definition design_flushExtra :: "design_state \<Rightarrow> design_state" where
  "design_flushExtra st =
     (let st' = (case dz_extra st of
                   None \<Rightarrow> st
                 | Some e \<Rightarrow> st\<lparr>dz_d := (dz_d st)\<lparr>dg_ExtraSections := dg_ExtraSections (dz_d st) @
                     [e\<lparr>ms_Body := TrimSpace (Join (dz_extraRaw st) nl)\<rparr>]\<rparr>\<rparr>)
      in st'\<lparr>dz_extra := None, dz_extraRaw := []\<rparr>)"

definition design_text :: "design_state \<Rightarrow> string \<Rightarrow> design_state" where
  "design_text st trimmed =
     (if dz_section st = ''technical'' then st\<lparr>dz_technical := dz_technical st @ [trimmed]\<rparr>
      else if dz_section st = ''dataflow'' then st\<lparr>dz_dataFlow := dz_dataFlow st @ [trimmed]\<rparr>
      else if dz_section st = ''decisions'' then
        (if dz_curDec st \<noteq> None then st\<lparr>dz_decBody := dz_decBody st @ [trimmed]\<rparr> else st)
      else if dz_section st = ''filechanges'' then
        (case parseFileChange trimmed of
           None \<Rightarrow> st
         | Some fc \<Rightarrow> st\<lparr>dz_d := (dz_d st)\<lparr>dg_FileChanges := dg_FileChanges (dz_d st) @ [fc]\<rparr>\<rparr>)
      else if dz_extra st \<noteq> None then st\<lparr>dz_extraRaw := dz_extraRaw st @ [trimmed]\<rparr>
      else st)"

definition design_line :: "design_state \<Rightarrow> string \<Rightarrow> design_state" where
  "design_line st raw =
     (let line = TrimRight_blank raw; trimmed = TrimSpace line in
      if dz_section st = ''decisions'' \<and> HasPrefix line decision_head then
        (flushDecision st)\<lparr>dz_curDec := Some \<lparr>dd_Name = TrimSpace (TrimPrefix line decision_head), dd_Body = []\<rparr>\<rparr>
      else if HasPrefix line ''## '' then
        (let st1 = design_flushExtra (flushDecision st); heading = TrimSpace (TrimPrefix line ''## '');
             st2 = st1\<lparr>dz_section := designSection heading\<rparr>
         in if dz_section st2 = [] then st2\<lparr>dz_extra := Some \<lparr>ms_Heading = heading, ms_Body = []\<rparr>\<rparr> else st2)
      else if HasPrefix line ''# '' then st\<lparr>dz_d := (dz_d st)\<lparr>dg_Title := TrimSpace (TrimPrefix line ''# '')\<rparr>\<rparr>
      else if trimmed = [] then st
      else design_text st trimmed)"

definition ParseDesign :: "string \<Rightarrow> Design" where
  "ParseDesign md =
     (let st = design_flushExtra (flushDecision (foldl design_line design_start (split_nl md)))
      in (dz_d st)\<lparr>dg_TechnicalApproach := TrimSpace (Join (dz_technical st) nl),
                   dg_DataFlow := TrimSpace (Join (dz_dataFlow st) nl)\<rparr>)"

section \<open>RenderDesign\<close>

definition renderDecision :: "DesignDecision \<Rightarrow> string" where
  "renderDecision dec = nl @ ''### Decision: '' @ dd_Name dec @ nl @ (if dd_Body dec \<noteq> [] then dd_Body dec @ nl else [])"

definition renderFileChange :: "FileChange \<Rightarrow> string" where
  "renderFileChange fc = ''- '' @ [backtick] @ fc_Path fc @ [backtick] @ (if fc_Kind fc \<noteq> [] then '' ('' @ fc_Kind fc @ '')'' else []) @ nl"

definition RenderDesign :: "Design \<Rightarrow> string" where
  "RenderDesign d =
     ''# '' @ dg_Title d @ nl @
     (if dg_TechnicalApproach d \<noteq> [] then nl @ ''## Technical Approach'' @ nl @ dg_TechnicalApproach d @ nl else []) @
     (if dg_Decisions d \<noteq> [] then nl @ ''## Architecture Decisions'' @ nl @ concat (map renderDecision (dg_Decisions d)) else []) @
     (if dg_DataFlow d \<noteq> [] then nl @ ''## Data Flow'' @ nl @ dg_DataFlow d @ nl else []) @
     (if dg_FileChanges d \<noteq> [] then nl @ ''## File Changes'' @ nl @ concat (map renderFileChange (dg_FileChanges d)) else []) @
     renderExtraSections (dg_ExtraSections d)"

section \<open>The writer, line by line\<close>

definition decision_lines :: "DesignDecision \<Rightarrow> string list" where
  "decision_lines dec = [[], ''### Decision: '' @ dd_Name dec] @ prose_lines (dd_Body dec)"

definition file_line :: "FileChange \<Rightarrow> string" where
  "file_line fc = ''- '' @ [backtick] @ fc_Path fc @ [backtick] @ (if fc_Kind fc \<noteq> [] then '' ('' @ fc_Kind fc @ '')'' else [])"

definition list_section :: "string \<Rightarrow> ('a \<Rightarrow> string list) \<Rightarrow> 'a list \<Rightarrow> string list" where
  "list_section heading f xs = (if xs = [] then [] else [[], heading] @ concat (map f xs))"

definition design_lines :: "Design \<Rightarrow> string list" where
  "design_lines d = [''# '' @ dg_Title d] @ prose_section ''## Technical Approach'' (dg_TechnicalApproach d) @
     list_section ''## Architecture Decisions'' decision_lines (dg_Decisions d) @ prose_section ''## Data Flow'' (dg_DataFlow d) @
     list_section ''## File Changes'' (\<lambda>fc. [file_line fc]) (dg_FileChanges d) @ concat (map extra_lines (dg_ExtraSections d))"

lemma write_decision: "write_lines (decision_lines dec) = renderDecision dec"
  by (simp add: decision_lines_def renderDecision_def write_lines_Cons write_prose_lines)

lemma write_file: "renderFileChange = (\<lambda>fc. file_line fc @ nl)"
  by (simp add: fun_eq_iff file_line_def renderFileChange_def)

lemma write_list_section: "write_lines (list_section h f xs) = (if xs \<noteq> [] then nl @ h @ nl @ concat (map (\<lambda>x. write_lines (f x)) xs) else [])"
  by (simp add: list_section_def write_lines_Cons write_lines_concat)

lemma write_design: "write_lines (design_lines d) = RenderDesign d"
  by (simp add: design_lines_def RenderDesign_def write_lines_Cons write_prose_section write_extra write_list_section write_decision write_file)

section \<open>Lines are read back\<close>

abbreviation design_heads :: "string list" where
  "design_heads \<equiv> [decision_head, ''## '', ''# '']"

definition file_ok :: "FileChange \<Rightarrow> bool" where
  "file_ok fc \<longleftrightarrow> backtick \<notin> set (fc_Path fc) \<and> newline \<notin> set (fc_Path fc) \<and> name_ok (fc_Kind fc)"

definition design_ok :: "Design \<Rightarrow> bool" where
  "design_ok d \<longleftrightarrow> name_ok (dg_Title d) \<and> prose_ok section_heads (dg_TechnicalApproach d) \<and> prose_ok section_heads (dg_DataFlow d) \<and>
     list_all (\<lambda>dec. name_ok (dd_Name dec) \<and> prose_ok design_heads (dd_Body dec)) (dg_Decisions d) \<and>
     list_all file_ok (dg_FileChanges d) \<and> list_all (section_ok designSection section_heads) (dg_ExtraSections d)"

definition design_flush :: "design_state \<Rightarrow> design_state" where
  "design_flush st = design_flushExtra (flushDecision st)"

text \<open>What a state amounts to once the open blocks are closed.\<close>

definition core :: "design_state \<Rightarrow> Design \<times> string list \<times> string list" where
  "core st = (dz_d (design_flush st), dz_technical st, dz_dataFlow st)"

lemma design_flush_fields:
  "dz_technical (design_flush st) = dz_technical st" "dz_dataFlow (design_flush st) = dz_dataFlow st" "dz_section (design_flush st) = dz_section st"
  "dz_curDec (design_flush st) = None" "dz_decBody (design_flush st) = []" "dz_extra (design_flush st) = None" "dz_extraRaw (design_flush st) = []"
  by (simp_all add: design_flush_def design_flushExtra_def flushDecision_def Let_def split: option.split)

lemma design_flush_closed:
  "dz_curDec st = None \<Longrightarrow> dz_decBody st = [] \<Longrightarrow> dz_extra st = None \<Longrightarrow> dz_extraRaw st = [] \<Longrightarrow> design_flush st = st"
  by (simp add: design_flush_def design_flushExtra_def flushDecision_def)

lemma core_closed:
  "dz_curDec st = None \<Longrightarrow> dz_decBody st = [] \<Longrightarrow> dz_extra st = None \<Longrightarrow> dz_extraRaw st = [] \<Longrightarrow> core st = (dz_d st, dz_technical st, dz_dataFlow st)"
  by (simp add: core_def design_flush_closed)

lemma design_line_blank: "design_line st [] = st"
  by (simp add: design_line_def TrimRight_blank_def HasPrefix_def)

lemma design_line_plain:
  "plain_line section_heads t \<Longrightarrow> dz_section st \<noteq> ''decisions'' \<Longrightarrow> design_line st t = design_text st t"
  "plain_line design_heads t \<Longrightarrow> design_line st t = design_text st t"
  using plain_trim [of section_heads t] plain_trim [of design_heads t] by (simp_all add: design_line_def plain_line_def)

lemma design_line_heading:
  assumes "text_line h"
  shows "design_line st (''## '' @ h) = (let st2 = (design_flush st)\<lparr>dz_section := designSection h\<rparr>
     in if designSection h = [] then st2\<lparr>dz_extra := Some \<lparr>ms_Heading = h, ms_Body = []\<rparr>\<rparr> else st2)"
  using heading_line [OF assms] by (simp add: design_line_def design_flush_def HasPrefix_def TrimPrefix_def Let_def)

lemma design_headings:
  "design_line st ''## Technical Approach'' = (design_flush st)\<lparr>dz_section := ''technical''\<rparr>"
  "design_line st ''## Architecture Decisions'' = (design_flush st)\<lparr>dz_section := ''decisions''\<rparr>"
  "design_line st ''## Data Flow'' = (design_flush st)\<lparr>dz_section := ''dataflow''\<rparr>"
  "design_line st ''## File Changes'' = (design_flush st)\<lparr>dz_section := ''filechanges''\<rparr>"
proof -
  have 1: "text_line ''Technical Approach''" "designSection ''Technical Approach'' = ''technical''" by code_simp+
  have 2: "text_line ''Architecture Decisions''" "designSection ''Architecture Decisions'' = ''decisions''" by code_simp+
  have 3: "text_line ''Data Flow''" "designSection ''Data Flow'' = ''dataflow''" by code_simp+
  have 4: "text_line ''File Changes''" "designSection ''File Changes'' = ''filechanges''" by code_simp+
  show "design_line st ''## Technical Approach'' = (design_flush st)\<lparr>dz_section := ''technical''\<rparr>"
    "design_line st ''## Architecture Decisions'' = (design_flush st)\<lparr>dz_section := ''decisions''\<rparr>"
    "design_line st ''## Data Flow'' = (design_flush st)\<lparr>dz_section := ''dataflow''\<rparr>"
    "design_line st ''## File Changes'' = (design_flush st)\<lparr>dz_section := ''filechanges''\<rparr>"
    using design_line_heading [OF 1(1), of st] design_line_heading [OF 2(1), of st] design_line_heading [OF 3(1), of st]
      design_line_heading [OF 4(1), of st] 1(2) 2(2) 3(2) 4(2) by simp_all
qed

lemma core_technical:
  assumes "prose_ok section_heads p" "core st = (d, t, f)"
  shows "core (foldl design_line st (prose_section ''## Technical Approach'' p)) = (d, t @ prose_lines p, f)"
proof -
  have read: "foldl design_line u ls = u\<lparr>dz_technical := dz_technical u @ ls\<rparr>"
    if "list_all (plain_line section_heads) ls" "dz_section u = ''technical''" for u ls
    using that by (induction ls arbitrary: u) (simp_all add: design_line_plain design_text_def)
  show ?thesis
    using assms by (cases "p = []")
      (simp_all add: prose_section_def prose_lines_def design_line_blank design_headings read prose_ok_def core_closed design_flush_fields, auto simp: core_def)
qed

lemma core_dataFlow:
  assumes "prose_ok section_heads p" "core st = (d, t, f)"
  shows "core (foldl design_line st (prose_section ''## Data Flow'' p)) = (d, t, f @ prose_lines p)"
proof -
  have read: "foldl design_line u ls = u\<lparr>dz_dataFlow := dz_dataFlow u @ ls\<rparr>"
    if "list_all (plain_line section_heads) ls" "dz_section u = ''dataflow''" for u ls
    using that by (induction ls arbitrary: u) (simp_all add: design_line_plain design_text_def)
  show ?thesis
    using assms by (cases "p = []")
      (simp_all add: prose_section_def prose_lines_def design_line_blank design_headings read prose_ok_def core_closed design_flush_fields, auto simp: core_def)
qed

lemma design_line_decision:
  assumes "name_ok n" "dz_section st = ''decisions''"
  shows "design_line st (''### Decision: '' @ n) = (flushDecision st)\<lparr>dz_curDec := Some \<lparr>dd_Name = n, dd_Body = []\<rparr>\<rparr>"
  using head_name [where h = decision_head, of n] assms by (simp add: design_line_def space_facts name_ok_def)

lemma flushDecision_fields: "dz_section (flushDecision st) = dz_section st" "dz_technical (flushDecision st) = dz_technical st"
  "dz_dataFlow (flushDecision st) = dz_dataFlow st" "dz_extra (flushDecision st) = dz_extra st" "dz_extraRaw (flushDecision st) = dz_extraRaw st"
  "dz_curDec (flushDecision st) = None" "dz_decBody (flushDecision st) = []"
  by (simp_all add: flushDecision_def Let_def split: option.split)

lemma design_decision:
  assumes "name_ok (dd_Name dec)" "prose_ok design_heads (dd_Body dec)" "dz_section st = ''decisions''"
  shows "flushDecision (foldl design_line st (decision_lines dec)) = (flushDecision st)\<lparr>dz_d :=
     (dz_d (flushDecision st))\<lparr>dg_Decisions := dg_Decisions (dz_d (flushDecision st)) @ [dec]\<rparr>\<rparr>"
proof -
  define st1 where "st1 = (flushDecision st)\<lparr>dz_curDec := Some \<lparr>dd_Name = dd_Name dec, dd_Body = []\<rparr>\<rparr>"
  have read: "foldl design_line u ls = u\<lparr>dz_decBody := dz_decBody u @ ls\<rparr>"
    if "list_all (plain_line design_heads) ls" "dz_section u = ''decisions''" "dz_curDec u \<noteq> None" for u ls
    using that by (induction ls arbitrary: u) (auto simp: design_line_plain design_text_def)
  have "foldl design_line st (decision_lines dec) = st1\<lparr>dz_decBody := prose_lines (dd_Body dec)\<rparr>"
    using read [of "prose_lines (dd_Body dec)" st1] design_line_decision [OF assms(1,3)] assms(2,3)
    by (simp add: decision_lines_def design_line_blank prose_ok_def st1_def flushDecision_fields)
  moreover obtain d s t f e r where F: "flushDecision st = \<lparr>dz_d = d, dz_section = s, dz_technical = t, dz_dataFlow = f, dz_curDec = None, dz_decBody = [], dz_extra = e, dz_extraRaw = r\<rparr>"
    using flushDecision_fields [of st] by (cases "flushDecision st") auto
  ultimately show ?thesis
    using TrimSpace_prose [OF assms(2)] unfolding st1_def F by (cases dec) (simp add: flushDecision_def Join_prose_lines)
qed

lemma design_decisions:
  "list_all (\<lambda>dec. name_ok (dd_Name dec) \<and> prose_ok design_heads (dd_Body dec)) ds \<Longrightarrow> dz_section st = ''decisions'' \<Longrightarrow>
   flushDecision (foldl design_line st (concat (map decision_lines ds))) = (flushDecision st)\<lparr>dz_d :=
     (dz_d (flushDecision st))\<lparr>dg_Decisions := dg_Decisions (dz_d (flushDecision st)) @ ds\<rparr>\<rparr>"
proof (induction ds arbitrary: st)
  case (Cons dec ds)
  let ?st = "foldl design_line st (decision_lines dec)"
  have one: "flushDecision ?st = (flushDecision st)\<lparr>dz_d := (dz_d (flushDecision st))\<lparr>dg_Decisions := dg_Decisions (dz_d (flushDecision st)) @ [dec]\<rparr>\<rparr>"
    using design_decision Cons.prems by simp
  then have "dz_section (flushDecision ?st) = dz_section (flushDecision st)" by simp
  then have "dz_section ?st = ''decisions''" using Cons.prems(2) by (simp add: flushDecision_fields)
  then show ?case using Cons.IH [of ?st] Cons.prems one by simp
qed simp

lemma core_decisions:
  assumes "list_all (\<lambda>dec. name_ok (dd_Name dec) \<and> prose_ok design_heads (dd_Body dec)) ds" "core st = (d, t, f)"
  shows "core (foldl design_line st (list_section ''## Architecture Decisions'' decision_lines ds)) = (d\<lparr>dg_Decisions := dg_Decisions d @ ds\<rparr>, t, f)"
proof (cases "ds = []")
  case False
  define u where "u = (design_flush st)\<lparr>dz_section := ''decisions''\<rparr>"
  let ?v = "foldl design_line u (concat (map decision_lines ds))"
  have u: "flushDecision u = u" "dz_section u = ''decisions''" "dz_extra u = None" "dz_extraRaw u = []"
    by (simp_all add: u_def design_flush_fields flushDecision_def)
  have v: "flushDecision ?v = u\<lparr>dz_d := (dz_d u)\<lparr>dg_Decisions := dg_Decisions (dz_d u) @ ds\<rparr>\<rparr>"
    using design_decisions [OF assms(1) u(2)] u(1) by simp
  then have "dz_technical ?v = dz_technical u \<and> dz_dataFlow ?v = dz_dataFlow u"
    using flushDecision_fields(2,3) [of ?v] by simp
  moreover have "dz_d (design_flush ?v) = (dz_d u)\<lparr>dg_Decisions := dg_Decisions (dz_d u) @ ds\<rparr>"
    unfolding design_flush_def v by (simp add: design_flushExtra_def u)
  moreover have "foldl design_line st (list_section ''## Architecture Decisions'' decision_lines ds) = ?v"
    using False by (simp add: list_section_def design_line_blank design_headings u_def)
  ultimately show ?thesis using assms(2) by (simp add: core_def u_def design_flush_fields)
qed (use assms(2) in \<open>simp add: list_section_def\<close>)

lemma file_body_text:
  assumes "file_ok fc"
  shows "text_line ([backtick] @ fc_Path fc @ [backtick] @ (if fc_Kind fc \<noteq> [] then '' ('' @ fc_Kind fc @ '')'' else []))"
proof -
  have "\<not> is_space backtick" "\<not> is_space CHR '')''" by (simp_all add: is_space_def byte_val_def)
  then show ?thesis using assms by (auto simp: text_line_def name_ok_def file_ok_def TrimSpace_fix_iff)
qed

lemma parseFileChange_line: "file_ok fc \<Longrightarrow> parseFileChange (file_line fc) = Some fc"
proof -
  assume fc: "file_ok fc"
  let ?tail = "if fc_Kind fc \<noteq> [] then '' ('' @ fc_Kind fc @ '')'' else []"
  let ?body = "[backtick] @ fc_Path fc @ [backtick] @ ?tail"
  have body: "bulletBody (file_line fc) = Some ?body"
    using bullet_body [OF file_body_text [OF fc]] by (simp add: file_line_def)
  have path: "takeWhile (\<lambda>c. c \<noteq> backtick) (drop 1 ?body) = fc_Path fc"
    using fc by (simp add: file_ok_def takeWhile_tail takeWhile_append2) (metis takeWhile_append2 takeWhile.simps(2) append_Nil2)
  have "TrimSpace (''('' @ fc_Kind fc @ '')'') = ''('' @ fc_Kind fc @ '')''"
    by (simp add: TrimSpace_fix_iff is_space_def byte_val_def)
  then have rest: "TrimSpace (drop (length (fc_Path fc) + 2) ?body) = (if fc_Kind fc \<noteq> [] then ''('' @ fc_Kind fc @ '')'' else [])"
    using TrimSpace_left [of "CHR '' ''" "''('' @ fc_Kind fc @ '')''"] space_facts(4) by simp
  have "TrimSpace (fc_Kind fc) = fc_Kind fc" using fc by (simp add: file_ok_def name_ok_def)
  moreover have "HasSuffix (''('' @ fc_Kind fc @ '')'') '')''" using HasSuffix_append [of "''('' @ fc_Kind fc" "'')''"] by simp
  ultimately show ?thesis
    using path rest body by (cases fc) (auto simp: parseFileChange_def HasPrefix_def HasSuffix_def)
qed

lemma file_line_plain: "file_ok fc \<Longrightarrow> plain_line section_heads (file_line fc)"
  using bullet_plain [OF file_body_text] by (simp add: file_line_def)

lemma core_files:
  assumes "list_all file_ok fs" "core st = (d, t, f)"
  shows "core (foldl design_line st (list_section ''## File Changes'' (\<lambda>fc. [file_line fc]) fs)) = (d\<lparr>dg_FileChanges := dg_FileChanges d @ fs\<rparr>, t, f)"
proof -
  have read: "foldl design_line u (map file_line fs) = u\<lparr>dz_d := (dz_d u)\<lparr>dg_FileChanges := dg_FileChanges (dz_d u) @ fs\<rparr>\<rparr>"
    if "list_all file_ok fs" "dz_section u = ''filechanges''" for u fs
    using that by (induction fs arbitrary: u) (simp_all add: design_line_plain(1) file_line_plain design_text_def parseFileChange_line)
  show ?thesis
    using assms by (cases "fs = []")
      (simp_all add: list_section_def design_line_blank design_headings read core_closed design_flush_fields, auto simp: core_def)
qed

lemma core_extra:
  assumes "section_ok designSection section_heads sec" "core st = (d, t, f)"
  shows "core (foldl design_line st (extra_lines sec)) = (d\<lparr>dg_ExtraSections := dg_ExtraSections d @ [sec]\<rparr>, t, f)"
proof -
  have sec: "text_line (ms_Heading sec)" "designSection (ms_Heading sec) = []" "prose_ok section_heads (ms_Body sec)"
    using assms(1) by (auto simp: section_ok_def)
  have read: "foldl design_line u ls = u\<lparr>dz_extraRaw := dz_extraRaw u @ ls\<rparr>"
    if "list_all (plain_line section_heads) ls" "dz_section u = []" "dz_extra u \<noteq> None" for u ls
    using that by (induction ls arbitrary: u) (auto simp: design_line_plain(1) design_text_def)
  define u where "u = (design_flush st)\<lparr>dz_section := [], dz_extra := Some \<lparr>ms_Heading = ms_Heading sec, ms_Body = []\<rparr>\<rparr>"
  have "foldl design_line st (extra_lines sec) = u\<lparr>dz_extraRaw := prose_lines (ms_Body sec)\<rparr>"
    using read [of "prose_lines (ms_Body sec)" u] sec design_line_heading [OF sec(1), of st]
    by (simp add: extra_lines_def text_line_def design_line_blank u_def prose_ok_def design_flush_fields)
  then show ?thesis
    using assms(2) TrimSpace_prose [OF sec(3)]
    by (cases sec) (simp add: core_def u_def design_flush_fields design_flush_def [of "_\<lparr>dz_extraRaw := _\<rparr>"] flushDecision_def [of "_\<lparr>dz_extraRaw := _\<rparr>"]
        design_flushExtra_def [of "_\<lparr>dz_decBody := _\<rparr>"] Join_prose_lines Let_def)
qed

lemma core_extras:
  "list_all (section_ok designSection section_heads) secs \<Longrightarrow> core st = (d, t, f) \<Longrightarrow>
   core (foldl design_line st (concat (map extra_lines secs))) = (d\<lparr>dg_ExtraSections := dg_ExtraSections d @ secs\<rparr>, t, f)"
proof (induction secs arbitrary: st d)
  case (Cons sec secs)
  have "core (foldl design_line st (extra_lines sec)) = (d\<lparr>dg_ExtraSections := dg_ExtraSections d @ [sec]\<rparr>, t, f)"
    using core_extra Cons.prems by simp
  from Cons.IH [OF _ this] Cons.prems show ?case by simp
qed simp

section \<open>Designs are read back\<close>

lemma design_line_title: "name_ok t \<Longrightarrow> design_line design_start (''# '' @ t) = design_start\<lparr>dz_d := empty_design\<lparr>dg_Title := t\<rparr>\<rparr>"
proof (cases "t = []")
  case True
  then show ?thesis
    by (simp add: design_line_def TrimRight_blank_def blank_char_def HasPrefix_def TrimSpace_def space_facts design_text_def design_start_def empty_design_def)
next
  case False
  assume "name_ok t"
  then have "TrimRight_blank (''# '' @ t) = ''# '' @ t" "TrimSpace t = t"
    using False TrimRight_head [of "''#''" t] by (simp_all add: name_ok_def space_facts)
  then show ?thesis by (simp add: design_line_def HasPrefix_def TrimPrefix_def design_start_def)
qed

lemma design_lines_plain: "design_ok d \<Longrightarrow> \<forall>l \<in> set (design_lines d). newline \<notin> set l"
proof -
  assume d: "design_ok d"
  have "\<forall>l \<in> set (decision_lines dec). newline \<notin> set l" if "dec \<in> set (dg_Decisions d)" for dec
    using d that prose_no_newline [of design_heads "dd_Body dec"] by (auto simp: decision_lines_def design_ok_def list_all_iff name_ok_def)
  moreover have "newline \<notin> set (file_line fc)" if "fc \<in> set (dg_FileChanges d)" for fc
    using d that plain_trim [OF file_line_plain] by (auto simp: design_ok_def list_all_iff)
  ultimately show ?thesis
    using d prose_section_plain [of section_heads "dg_TechnicalApproach d" "''## Technical Approach''"]
      prose_section_plain [of section_heads "dg_DataFlow d" "''## Data Flow''"] extra_lines_plain [of designSection section_heads]
    by (auto simp: design_lines_def design_ok_def name_ok_def list_section_def list_all_iff split: if_splits)
qed

lemma ParseDesign_RenderDesign:
  assumes "design_ok d"
  shows "ParseDesign (RenderDesign d) = d"
proof -
  have d: "name_ok (dg_Title d)" "prose_ok section_heads (dg_TechnicalApproach d)" "prose_ok section_heads (dg_DataFlow d)"
    "list_all (\<lambda>dec. name_ok (dd_Name dec) \<and> prose_ok design_heads (dd_Body dec)) (dg_Decisions d)"
    "list_all file_ok (dg_FileChanges d)" "list_all (section_ok designSection section_heads) (dg_ExtraSections d)"
    using assms by (auto simp: design_ok_def)
  define st0 where "st0 = design_line design_start (''# '' @ dg_Title d)"
  have core0: "core st0 = (empty_design\<lparr>dg_Title := dg_Title d\<rparr>, [], [])"
    using design_line_title [OF d(1)] by (simp add: st0_def core_closed design_start_def)
  let ?F = "foldl design_line"
  have "core (?F (?F (?F (?F (?F st0 (prose_section ''## Technical Approach'' (dg_TechnicalApproach d)))
      (list_section ''## Architecture Decisions'' decision_lines (dg_Decisions d))) (prose_section ''## Data Flow'' (dg_DataFlow d)))
      (list_section ''## File Changes'' (\<lambda>fc. [file_line fc]) (dg_FileChanges d))) (concat (map extra_lines (dg_ExtraSections d)))) =
    (d\<lparr>dg_TechnicalApproach := [], dg_DataFlow := []\<rparr>, prose_lines (dg_TechnicalApproach d), prose_lines (dg_DataFlow d))"
    using core_extras [OF d(6) core_files [OF d(5) core_dataFlow [OF d(3) core_decisions [OF d(4) core_technical [OF d(2) core0]]]]]
    by (simp add: empty_design_def)
  moreover have lines: "split_nl (RenderDesign d) = design_lines d @ [[]]"
    using split_nl_written [OF design_lines_plain [OF assms]] by (simp add: write_design)
  ultimately have "core (?F design_start (split_nl (RenderDesign d))) =
      (d\<lparr>dg_TechnicalApproach := [], dg_DataFlow := []\<rparr>, prose_lines (dg_TechnicalApproach d), prose_lines (dg_DataFlow d))"
    by (simp add: design_lines_def st0_def design_line_blank)
  then have "ParseDesign (RenderDesign d) = d\<lparr>dg_TechnicalApproach := TrimSpace (dg_TechnicalApproach d), dg_DataFlow := TrimSpace (dg_DataFlow d)\<rparr>"
    unfolding ParseDesign_def Let_def design_flush_def [symmetric] design_flush_fields by (simp add: core_def Join_prose_lines)
  then show ?thesis using TrimSpace_prose [OF d(2)] TrimSpace_prose [OF d(3)] by simp
qed

section \<open>What is read can be written\<close>

definition design_state_ok :: "design_state \<Rightarrow> bool" where
  "design_state_ok st \<longleftrightarrow> name_ok (dg_Title (dz_d st)) \<and>
     list_all (\<lambda>dec. name_ok (dd_Name dec) \<and> prose_ok design_heads (dd_Body dec)) (dg_Decisions (dz_d st)) \<and>
     list_all file_ok (dg_FileChanges (dz_d st)) \<and> list_all (section_ok designSection section_heads) (dg_ExtraSections (dz_d st)) \<and>
     list_all (plain_line section_heads) (dz_technical st) \<and> list_all (plain_line section_heads) (dz_dataFlow st) \<and>
     list_all (plain_line design_heads) (dz_decBody st) \<and> list_all (plain_line section_heads) (dz_extraRaw st) \<and>
     (\<forall>c. dz_curDec st = Some c \<longrightarrow> name_ok (dd_Name c)) \<and>
     (\<forall>e. dz_extra st = Some e \<longrightarrow> text_line (ms_Heading e) \<and> designSection (ms_Heading e) = [])"

lemma flushDecision_ok: "design_state_ok st \<Longrightarrow> design_state_ok (flushDecision st)"
  by (auto simp: flushDecision_def design_state_ok_def TrimSpace_Join_plain intro: prose_ok_Join split: option.splits)

lemma design_flushExtra_ok: "design_state_ok st \<Longrightarrow> design_state_ok (design_flushExtra st)"
  by (auto simp: design_flushExtra_def design_state_ok_def section_ok_def TrimSpace_Join_plain intro: prose_ok_Join split: option.splits)

lemma parseFileChange_ok: "text_line u \<Longrightarrow> parseFileChange u = Some fc \<Longrightarrow> file_ok fc"
proof -
  assume u: "text_line u" and fc: "parseFileChange u = Some fc"
  then obtain body where b: "bulletBody u = Some body" by (cases "bulletBody u") (auto simp: parseFileChange_def)
  have nb: "newline \<notin> set body" using bulletBody_name [OF u b] by (simp add: text_line_def name_ok_def)
  define path where "path = takeWhile (\<lambda>c. c \<noteq> backtick) (drop 1 body)"
  define rest where "rest = TrimSpace (drop (length path + 2) body)"
  have "newline \<notin> set path" "backtick \<notin> set path"
    using nb by (auto simp: path_def dest!: set_takeWhileD in_set_dropD)
  moreover have "newline \<notin> set rest" unfolding rest_def using nb by (intro newline_TrimSpace) (auto dest: in_set_dropD)
  then have "name_ok (TrimSpace (take (length rest - 2) (drop 1 rest)))"
    by (intro name_ok_TrimSpace) (auto dest!: in_set_takeD in_set_dropD)
  moreover have "fc_Path fc = path \<and> (fc_Kind fc = [] \<or> fc_Kind fc = TrimSpace (take (length rest - 2) (drop 1 rest)))"
    using fc b by (auto simp: parseFileChange_def path_def rest_def Let_def split: if_splits)
  ultimately show ?thesis by (auto simp: file_ok_def name_ok_def)
qed

lemma plain_sections: "plain_line design_heads t \<Longrightarrow> plain_line section_heads t"
  by (simp add: plain_line_def)

lemma tidy_sections: "tidy design_heads md \<Longrightarrow> tidy section_heads md"
  by (simp add: tidy_def)

lemma design_text_ok:
  assumes "design_state_ok st" "plain_line section_heads t" "dz_section st = ''decisions'' \<Longrightarrow> plain_line design_heads t"
  shows "design_state_ok (design_text st t)"
  using assms parseFileChange_ok [OF plain_text [OF assms(2)]]
  by (auto simp: design_text_def design_state_ok_def split: option.splits)

lemma design_line_ok:
  assumes "design_state_ok st" "tidy design_heads md" "named_sections md" "raw \<in> set (split_nl md)"
  shows "design_state_ok (design_line st raw)"
proof -
  let ?line = "TrimRight_blank raw"
  have name: "name_ok (TrimSpace (TrimPrefix ?line h))" for h
    by (intro name_ok_TrimSpace newline_TrimPrefix newline_TrimRight split_nl_lines [OF assms(4)])
  consider (dec) "dz_section st = ''decisions''" "HasPrefix ?line decision_head"
    | (sec) "\<not> (dz_section st = ''decisions'' \<and> HasPrefix ?line decision_head)" "HasPrefix ?line ''## ''"
    | (ti) "\<not> (dz_section st = ''decisions'' \<and> HasPrefix ?line decision_head)" "\<not> HasPrefix ?line ''## ''" "HasPrefix ?line ''# ''"
    | (body) "\<not> (dz_section st = ''decisions'' \<and> HasPrefix ?line decision_head)" "\<forall>h \<in> set section_heads. \<not> HasPrefix ?line h" by auto
  then show ?thesis
  proof cases
    case dec
    then show ?thesis using flushDecision_ok [OF assms(1)] name [of decision_head]
      by (simp add: design_line_def Let_def design_state_ok_def)
  next
    case sec
    then have "text_line (TrimSpace (TrimPrefix ?line ''## ''))"
      using assms(3,4) name [of "''## ''"] by (simp add: text_line_def named_sections_def)
    moreover have "dz_extra (design_flushExtra (flushDecision st)) = None" by (simp add: design_flushExtra_def Let_def)
    moreover have "design_line st raw = (let st2 = (design_flushExtra (flushDecision st))\<lparr>dz_section := designSection (TrimSpace (TrimPrefix ?line ''## ''))\<rparr>
        in if dz_section st2 = [] then st2\<lparr>dz_extra := Some \<lparr>ms_Heading = TrimSpace (TrimPrefix ?line ''## ''), ms_Body = []\<rparr>\<rparr> else st2)"
      using sec unfolding design_line_def Let_def by auto
    ultimately show ?thesis using design_flushExtra_ok [OF flushDecision_ok [OF assms(1)]]
      by (simp add: Let_def design_state_ok_def)
  next
    case ti
    then have "design_line st raw = st\<lparr>dz_d := (dz_d st)\<lparr>dg_Title := TrimSpace (TrimPrefix ?line ''# '')\<rparr>\<rparr>"
      unfolding design_line_def Let_def by auto
    then show ?thesis using assms(1) name [of "''# ''"] by (simp add: design_state_ok_def)
  next
    case body
    then have "design_line st raw = (if TrimSpace ?line = [] then st else design_text st (TrimSpace ?line))"
      unfolding design_line_def Let_def by auto
    moreover have "plain_line section_heads (TrimSpace ?line)" if "TrimSpace ?line \<noteq> []"
      using tidy_plain [OF tidy_sections [OF assms(2)] assms(4)] body that by simp
    moreover have "plain_line design_heads (TrimSpace ?line)" if "TrimSpace ?line \<noteq> []" "dz_section st = ''decisions''"
      using tidy_plain [OF assms(2,4)] body that by simp
    ultimately show ?thesis using assms(1) design_text_ok [of st "TrimSpace ?line"] by simp
  qed
qed

lemma ParseDesign_ok:
  assumes "tidy design_heads md \<and> named_sections md"
  shows "design_ok (ParseDesign md)"
proof -
  have "design_state_ok (foldl design_line st ls)" if "set ls \<subseteq> set (split_nl md)" "design_state_ok st" for ls st
    using that assms by (induction ls arbitrary: st) (auto intro: design_line_ok)
  moreover have "design_state_ok design_start" by (simp add: design_state_ok_def design_start_def empty_design_def name_ok_def)
  ultimately have "design_state_ok (design_flushExtra (flushDecision (foldl design_line design_start (split_nl md))))"
    by (simp add: design_flushExtra_ok flushDecision_ok)
  then show ?thesis
    by (auto simp: ParseDesign_def Let_def design_ok_def design_state_ok_def TrimSpace_Join_plain intro: prose_ok_Join)
qed

interpretation designs: document_format ParseDesign RenderDesign design_ok "\<lambda>md. tidy design_heads md \<and> named_sections md" id
  by unfold_locales (simp_all add: ParseDesign_RenderDesign ParseDesign_ok)

text \<open>
  A design survives the round trip: prose, decisions with their bodies, file changes with path and kind,
  and unmodelled sections are read back as they were written, for every document without an
  indented or unnamed heading.
\<close>

theorem ParseDesign_stable:
  assumes "tidy design_heads md" "named_sections md"
  shows "ParseDesign (RenderDesign (ParseDesign md)) = ParseDesign md"
  using designs.stable [of md] assms by simp

definition sample_design :: string where
  "sample_design = ''# Design: Dark Mode'' @ nl @ ''## File Changes'' @ nl @ ''* '' @ [backtick] @ ''src/a b.ts'' @ [backtick] @ '' ( new )'' @ nl @
     ''## Architecture Decisions'' @ nl @ ''### Decision: CSS'' @ nl @ ''Because.'' @ nl @ ''## Risks'' @ nl @ ''None.'' @ nl"

lemma sample_design_clean: "tidy design_heads sample_design" "named_sections sample_design"
  unfolding tidy_def named_sections_def by code_simp+

theorem ParseDesign_stable_witness:
  "ParseDesign (RenderDesign (ParseDesign sample_design)) = ParseDesign sample_design \<and>
   dg_FileChanges (ParseDesign sample_design) = [\<lparr>fc_Path = ''src/a b.ts'', fc_Kind = ''new''\<rparr>]"
proof -
  have "dg_FileChanges (ParseDesign sample_design) = [\<lparr>fc_Path = ''src/a b.ts'', fc_Kind = ''new''\<rparr>]" by code_simp
  then show ?thesis using ParseDesign_stable [OF sample_design_clean] by simp
qed

end
