(* ===== verification/Openspec_Tasks.thy ===== *)
theory Openspec_Tasks
  imports Openspec_Proposal
begin

text \<open>
  A change's task list: \<^verbatim>\<open>Tasks\<close>, \<^verbatim>\<open>TaskSection\<close>, \<^verbatim>\<open>Task\<close> (\<^verbatim>\<open>openspec/model_change.go\<close>), \<^verbatim>\<open>ParseTasks\<close> with its
  helpers (\<^verbatim>\<open>parse.go\<close>) and \<^verbatim>\<open>RenderTasks\<close> (\<^verbatim>\<open>render.go\<close>).
\<close>

section \<open>Model\<close>

record Task =
  tk_Number :: string
  tk_Text :: string
  tk_Done :: bool

record TaskSection =
  ts_Name :: string
  ts_Tasks :: "Task list"

record Tasks =
  tt_Title :: string
  tt_Sections :: "TaskSection list"

section \<open>ParseTasks\<close>

definition isTaskNumber :: "string \<Rightarrow> bool" where
  "isTaskNumber s \<longleftrightarrow> s \<noteq> [] \<and> list_all (\<lambda>c. is_digit c \<or> c = CHR ''.'') s \<and> list_ex is_digit s"

definition splitTaskNumber :: "string \<Rightarrow> string \<times> string" where
  "splitTaskNumber s =
     (let (head, rest, found) = CutChar s CHR '' ''
      in if found \<and> isTaskNumber head then (head, TrimSpace rest)
         else if isTaskNumber s then (s, [])
         else ([], s))"

definition parseTaskBullet :: "string \<Rightarrow> Task option" where
  "parseTaskBullet trimmed =
     (case bulletBody trimmed of
        None \<Rightarrow> None
      | Some body \<Rightarrow>
          (let (isDone, body') =
             (if HasPrefix body ''[x]'' \<or> HasPrefix body ''[X]'' then (True, TrimSpace (drop 3 body))
              else if HasPrefix body ''[ ]'' then (False, TrimSpace (drop 3 body))
              else (False, body));
             (number, txt) = splitTaskNumber body'
           in Some \<lparr>tk_Number = number, tk_Text = txt, tk_Done = isDone\<rparr>))"

record tasks_state =
  tz_t :: Tasks
  tz_cur :: "TaskSection option"

definition tasks_start :: tasks_state where
  "tasks_start = \<lparr>tz_t = \<lparr>tt_Title = [], tt_Sections = []\<rparr>, tz_cur = None\<rparr>"

definition flushSection :: "tasks_state \<Rightarrow> tasks_state" where
  "flushSection st =
     (case tz_cur st of
        None \<Rightarrow> st
      | Some c \<Rightarrow> st\<lparr>tz_t := (tz_t st)\<lparr>tt_Sections := tt_Sections (tz_t st) @ [c]\<rparr>, tz_cur := None\<rparr>)"

definition add_task :: "tasks_state \<Rightarrow> Task \<Rightarrow> tasks_state" where
  "add_task st task =
     (let c = (case tz_cur st of None \<Rightarrow> \<lparr>ts_Name = [], ts_Tasks = []\<rparr> | Some c \<Rightarrow> c)
      in st\<lparr>tz_cur := Some (c\<lparr>ts_Tasks := ts_Tasks c @ [task]\<rparr>)\<rparr>)"

definition tasks_line :: "tasks_state \<Rightarrow> string \<Rightarrow> tasks_state" where
  "tasks_line st raw =
     (let line = TrimRight_blank raw; trimmed = TrimSpace line in
      if HasPrefix line ''## '' then
        (flushSection st)\<lparr>tz_cur := Some \<lparr>ts_Name = TrimSpace (TrimPrefix line ''## ''), ts_Tasks = []\<rparr>\<rparr>
      else if HasPrefix line ''# '' then st\<lparr>tz_t := (tz_t st)\<lparr>tt_Title := TrimSpace (TrimPrefix line ''# '')\<rparr>\<rparr>
      else if trimmed = [] then st
      else (case parseTaskBullet trimmed of None \<Rightarrow> st | Some task \<Rightarrow> add_task st task))"

definition ParseTasks :: "string \<Rightarrow> Tasks" where
  "ParseTasks md = tz_t (flushSection (foldl tasks_line tasks_start (split_nl md)))"

section \<open>RenderTasks\<close>

definition taskContent :: "Task \<Rightarrow> string" where
  "taskContent t =
     (if tk_Number t \<noteq> [] \<and> tk_Text t \<noteq> [] then tk_Number t @ '' '' @ tk_Text t
      else if tk_Number t \<noteq> [] then tk_Number t
      else tk_Text t)"

definition renderTask :: "Task \<Rightarrow> string" where
  "renderTask t = ''- ['' @ (if tk_Done t then ''x'' else '' '') @ '']'' @
     (if taskContent t \<noteq> [] then '' '' @ taskContent t else []) @ nl"

definition RenderTasks :: "Tasks \<Rightarrow> string" where
  "RenderTasks t =
     ''# '' @ tt_Title t @ nl @
     concat (map (\<lambda>sec. (if ts_Name sec \<noteq> [] then nl @ ''## '' @ ts_Name sec @ nl else []) @
       concat (map renderTask (ts_Tasks sec))) (tt_Sections t))"

section \<open>The writer, line by line\<close>

definition task_line :: "Task \<Rightarrow> string" where
  "task_line t = ''- ['' @ (if tk_Done t then ''x'' else '' '') @ '']'' @ (if taskContent t \<noteq> [] then '' '' @ taskContent t else [])"

definition task_section_lines :: "TaskSection \<Rightarrow> string list" where
  "task_section_lines sec = (if ts_Name sec \<noteq> [] then [[], ''## '' @ ts_Name sec] else []) @ map task_line (ts_Tasks sec)"

definition tasks_lines :: "Tasks \<Rightarrow> string list" where
  "tasks_lines t = [''# '' @ tt_Title t] @ concat (map task_section_lines (tt_Sections t))"

lemma renderTask_line: "renderTask = (\<lambda>t. task_line t @ nl)"
  by (simp add: fun_eq_iff renderTask_def task_line_def)

lemma write_task_section: "write_lines (task_section_lines sec) =
    (if ts_Name sec \<noteq> [] then nl @ ''## '' @ ts_Name sec @ nl else []) @ concat (map renderTask (ts_Tasks sec))"
proof -
  have "write_lines (map task_line ts) = concat (map renderTask ts)" for ts
    by (simp add: write_lines_def comp_def renderTask_line)
  then show ?thesis by (simp add: task_section_lines_def write_lines_Cons)
qed

lemma write_tasks: "write_lines (tasks_lines t) = RenderTasks t"
  by (simp add: tasks_lines_def RenderTasks_def write_lines_Cons write_lines_concat write_task_section)

section \<open>Tasks are read back\<close>

definition task_ok :: "Task \<Rightarrow> bool" where
  "task_ok t \<longleftrightarrow> name_ok (tk_Text t) \<and>
     (if tk_Number t = [] then splitTaskNumber (tk_Text t) = ([], tk_Text t) else isTaskNumber (tk_Number t))"

definition tasks_ok :: "Tasks \<Rightarrow> bool" where
  "tasks_ok t \<longleftrightarrow> name_ok (tt_Title t) \<and> list_all (\<lambda>s. list_all task_ok (ts_Tasks s) \<and> name_ok (ts_Name s)) (tt_Sections t) \<and>
     list_all (\<lambda>s. ts_Name s \<noteq> []) (tl (tt_Sections t)) \<and>
     (tt_Sections t \<noteq> [] \<longrightarrow> ts_Name (hd (tt_Sections t)) \<noteq> [] \<or> ts_Tasks (hd (tt_Sections t)) \<noteq> [])"

lemma isTaskNumber_chars:
  assumes "isTaskNumber s"
  shows "s \<noteq> [] \<and> (\<forall>c \<in> set s. \<not> is_space c)"
proof (intro conjI ballI)
  show "s \<noteq> []" using assms by (simp add: isTaskNumber_def)
  fix c assume "c \<in> set s"
  then have "is_digit c \<or> c = CHR ''.''" using assms by (simp add: isTaskNumber_def list_all_iff)
  moreover have "\<not> is_space CHR ''.''" by (simp add: is_space_def byte_val_def)
  ultimately show "\<not> is_space c" using digit_not_space by blast
qed

lemma number_facts:
  assumes "isTaskNumber s"
  shows "CHR '' '' \<notin> set s \<and> newline \<notin> set s \<and> TrimSpace s = s"
proof (intro conjI)
  have ns: "\<not> is_space c" if "c \<in> set s" for c using isTaskNumber_chars [OF assms] that by simp
  show "CHR '' '' \<notin> set s" using ns [of "CHR '' ''"] space_facts(4) by blast
  show "newline \<notin> set s" using ns [of newline] is_space_newline by blast
  from ns show "TrimSpace s = s" by (rule TrimSpace_no_space)
qed

lemma content_name: "task_ok t \<Longrightarrow> name_ok (taskContent t)"
proof -
  assume t: "task_ok t"
  show ?thesis
  proof (cases "tk_Number t = []")
    case True
    then show ?thesis using t by (simp add: taskContent_def task_ok_def)
  next
    case False
    then have "isTaskNumber (tk_Number t)" using t by (simp add: task_ok_def)
    from isTaskNumber_chars [OF this] number_facts [OF this] show ?thesis
      using False t by (auto simp: taskContent_def task_ok_def name_ok_def TrimSpace_fix_iff)
  qed
qed

lemma split_content: "task_ok t \<Longrightarrow> splitTaskNumber (taskContent t) = (tk_Number t, tk_Text t)"
proof -
  assume t: "task_ok t"
  show ?thesis
  proof (cases "tk_Number t = []")
    case True
    then show ?thesis using t by (simp add: taskContent_def task_ok_def)
  next
    case False
    then have n: "isTaskNumber (tk_Number t)" using t by (simp add: task_ok_def)
    from number_facts [OF this] have "CHR '' '' \<notin> set (tk_Number t)" by simp
    then show ?thesis
      using False t n CutChar_word [of "CHR '' ''" "tk_Number t" "tk_Text t"] CutChar_none [of "CHR '' ''" "tk_Number t"]
      by (auto simp: taskContent_def splitTaskNumber_def task_ok_def name_ok_def)
  qed
qed

definition task_body :: "Task \<Rightarrow> string" where
  "task_body t = ''['' @ (if tk_Done t then ''x'' else '' '') @ '']'' @ (if taskContent t \<noteq> [] then '' '' @ taskContent t else [])"

lemma task_line_body: "task_line t = ''- '' @ task_body t"
  by (simp add: task_line_def task_body_def)

lemma bracket_facts: "\<not> is_space CHR ''[''" "\<not> is_space CHR '']''"
  by (simp_all add: is_space_def byte_val_def)

lemma task_body_text: "task_ok t \<Longrightarrow> text_line (task_body t)"
  using content_name [of t] by (auto simp: task_body_def text_line_def name_ok_def TrimSpace_fix_iff bracket_facts)

lemma parseTaskBullet_line: "task_ok t \<Longrightarrow> parseTaskBullet (task_line t) = Some t"
proof -
  assume t: "task_ok t"
  have "TrimSpace (drop 3 (task_body t)) = taskContent t"
    using content_name [OF t] TrimSpace_space_name by (auto simp: task_body_def name_ok_def)
  moreover have "HasPrefix (task_body t) ''[x]'' = tk_Done t" "\<not> HasPrefix (task_body t) ''[X]''" "HasPrefix (task_body t) ''[ ]'' = (\<not> tk_Done t)"
    by (simp_all add: task_body_def HasPrefix_def)
  ultimately show ?thesis
    using bullet_body [OF task_body_text [OF t]] split_content [OF t] unfolding task_line_body
    by (cases t) (auto simp: parseTaskBullet_def)
qed

lemma tasks_line_blank: "tasks_line st [] = st"
  by (simp add: tasks_line_def TrimRight_blank_def HasPrefix_def)

lemma tasks_line_task: "task_ok t \<Longrightarrow> tasks_line st (task_line t) = add_task st t"
proof -
  assume t: "task_ok t"
  note plain = bullet_plain [OF task_body_text [OF t], folded task_line_body]
  show ?thesis using plain_trim [OF plain] plain parseTaskBullet_line [OF t] by (simp add: tasks_line_def plain_line_def)
qed

lemma tasks_line_heading: "text_line h \<Longrightarrow> tasks_line st (''## '' @ h) = (flushSection st)\<lparr>tz_cur := Some \<lparr>ts_Name = h, ts_Tasks = []\<rparr>\<rparr>"
  using heading_line [of h] by (simp add: tasks_line_def HasPrefix_def TrimPrefix_def Let_def)

lemma tasks_read:
  "list_all task_ok ts \<Longrightarrow> tz_cur st = Some c \<Longrightarrow> foldl tasks_line st (map task_line ts) = st\<lparr>tz_cur := Some (c\<lparr>ts_Tasks := ts_Tasks c @ ts\<rparr>)\<rparr>"
  by (induction ts arbitrary: st c) (simp_all add: tasks_line_task add_task_def)

lemma task_section_read:
  assumes "list_all task_ok (ts_Tasks s)" "text_line (ts_Name s)"
  shows "foldl tasks_line st (task_section_lines s) = (flushSection st)\<lparr>tz_cur := Some s\<rparr>"
  using tasks_read [OF assms(1), of "(flushSection st)\<lparr>tz_cur := Some \<lparr>ts_Name = ts_Name s, ts_Tasks = []\<rparr>\<rparr>"] assms(2)
    tasks_line_heading [OF assms(2), of st]
  by (cases s) (simp add: task_section_lines_def text_line_def tasks_line_blank)

lemma flushSection_put: "flushSection ((flushSection st)\<lparr>tz_cur := Some s\<rparr>) =
    (flushSection st)\<lparr>tz_t := (tz_t (flushSection st))\<lparr>tt_Sections := tt_Sections (tz_t (flushSection st)) @ [s]\<rparr>\<rparr>"
  by (cases "tz_cur st") (simp_all add: flushSection_def)

lemma task_sections_read:
  "list_all (\<lambda>s. list_all task_ok (ts_Tasks s) \<and> text_line (ts_Name s)) ss \<Longrightarrow>
   tz_t (flushSection (foldl tasks_line st (concat (map task_section_lines ss)))) =
     (tz_t (flushSection st))\<lparr>tt_Sections := tt_Sections (tz_t (flushSection st)) @ ss\<rparr>"
proof (induction ss arbitrary: st)
  case (Cons s ss)
  then have "foldl tasks_line st (task_section_lines s) = (flushSection st)\<lparr>tz_cur := Some s\<rparr>" by (simp add: task_section_read)
  then show ?case using Cons.IH [of "(flushSection st)\<lparr>tz_cur := Some s\<rparr>"] Cons.prems by (simp add: flushSection_put)
qed simp

lemma tasks_line_title: "name_ok t \<Longrightarrow> tasks_line tasks_start (''# '' @ t) = tasks_start\<lparr>tz_t := \<lparr>tt_Title = t, tt_Sections = []\<rparr>\<rparr>"
proof (cases "t = []")
  case True
  then show ?thesis
    by (simp add: tasks_line_def TrimRight_blank_def blank_char_def HasPrefix_def TrimSpace_def space_facts parseTaskBullet_def
        bulletBody_def bulletMarkers_def tasks_start_def)
next
  case False
  assume "name_ok t"
  then have "TrimRight_blank (''# '' @ t) = ''# '' @ t" "TrimSpace t = t"
    using False TrimRight_head [of "''#''" t] by (simp_all add: name_ok_def space_facts)
  then show ?thesis by (simp add: tasks_line_def HasPrefix_def TrimPrefix_def tasks_start_def)
qed

text \<open>The tasks of an unnamed first section, read before any heading.\<close>

lemma implicit_section_read:
  assumes "list_all task_ok (ts_Tasks s)" "ts_Name s = []" "ts_Tasks s \<noteq> []" "tz_cur st = None"
  shows "foldl tasks_line st (task_section_lines s) = st\<lparr>tz_cur := Some s\<rparr>"
proof -
  obtain t ts where ts: "ts_Tasks s = t # ts" using assms(3) by (cases "ts_Tasks s") auto
  have "tasks_line st (task_line t) = st\<lparr>tz_cur := Some \<lparr>ts_Name = [], ts_Tasks = [t]\<rparr>\<rparr>"
    using assms ts by (simp add: tasks_line_task add_task_def)
  then show ?thesis
    using assms ts tasks_read [of ts "st\<lparr>tz_cur := Some \<lparr>ts_Name = [], ts_Tasks = [t]\<rparr>\<rparr>"]
    by (cases s) (simp add: task_section_lines_def)
qed

lemma tasks_lines_plain: "tasks_ok t \<Longrightarrow> \<forall>l \<in> set (tasks_lines t). newline \<notin> set l"
proof -
  assume t: "tasks_ok t"
  have "newline \<notin> set (task_line k)" if "task_ok k" for k
    using task_body_text [OF that] by (simp add: task_line_body text_line_def name_ok_def)
  then show ?thesis using t by (auto simp: tasks_lines_def tasks_ok_def task_section_lines_def list_all_iff name_ok_def split: if_splits)
qed

lemma ParseTasks_RenderTasks:
  assumes "tasks_ok t"
  shows "ParseTasks (RenderTasks t) = t"
proof -
  let ?st = "tasks_start\<lparr>tz_t := \<lparr>tt_Title = tt_Title t, tt_Sections = []\<rparr>\<rparr>"
  have title: "tasks_line tasks_start (''# '' @ tt_Title t) = ?st" using assms tasks_line_title by (simp add: tasks_ok_def)
  have lines: "split_nl (RenderTasks t) = tasks_lines t @ [[]]"
    using split_nl_written [OF tasks_lines_plain [OF assms]] by (simp add: write_tasks)
  have "ParseTasks (RenderTasks t) = tz_t (flushSection (foldl tasks_line ?st (concat (map task_section_lines (tt_Sections t)))))"
    using title [simplified] by (simp add: ParseTasks_def lines tasks_lines_def tasks_line_blank)
  also have "\<dots> = t"
  proof (cases "tt_Sections t")
    case Nil
    then show ?thesis by (cases t) (simp add: tasks_start_def flushSection_def)
  next
    case (Cons s ss)
    have rest: "list_all (\<lambda>s. list_all task_ok (ts_Tasks s) \<and> text_line (ts_Name s)) ss"
      and s: "list_all task_ok (ts_Tasks s)" "name_ok (ts_Name s)" "ts_Name s \<noteq> [] \<or> ts_Tasks s \<noteq> []"
      using assms Cons by (auto simp: tasks_ok_def list_all_iff text_line_def)
    have "foldl tasks_line ?st (task_section_lines s) = ?st\<lparr>tz_cur := Some s\<rparr>"
    proof (cases "ts_Name s = []")
      case True
      then show ?thesis using s implicit_section_read [OF s(1) True] by (simp add: tasks_start_def)
    next
      case False
      then show ?thesis using task_section_read [OF s(1), of ?st] s(2) by (simp add: text_line_def flushSection_def tasks_start_def)
    qed
    then show ?thesis
      using task_sections_read [OF rest, of "?st\<lparr>tz_cur := Some s\<rparr>"] Cons
      by (cases t) (simp add: flushSection_def tasks_start_def)
  qed
  finally show ?thesis .
qed

section \<open>What is read can be written\<close>

lemma splitTaskNumber_ok:
  assumes "name_ok s" "splitTaskNumber s = (n, t)"
  shows "task_ok \<lparr>tk_Number = n, tk_Text = t, tk_Done = d\<rparr>"
proof -
  have "newline \<notin> set (drop 1 (dropWhile (\<lambda>d. d \<noteq> CHR '' '') s))"
    using assms(1) by (auto simp: name_ok_def dest: in_set_dropD set_dropWhileD)
  from name_ok_TrimSpace [OF this] show ?thesis
    using assms isTaskNumber_chars by (auto simp: task_ok_def splitTaskNumber_def CutChar_def Let_def name_ok_def split: if_splits)
qed

lemma parseTaskBullet_ok:
  assumes "text_line u" "parseTaskBullet u = Some task"
  shows "task_ok task"
proof -
  obtain body where b: "bulletBody u = Some body" using assms(2) by (cases "bulletBody u") (auto simp: parseTaskBullet_def)
  have nb: "name_ok body" using bulletBody_name [OF assms(1) b] by (simp add: text_line_def)
  have "newline \<notin> set (drop 3 body)" using nb by (auto simp: name_ok_def dest: in_set_dropD)
  then have nd: "name_ok (TrimSpace (drop 3 body))" by (rule name_ok_TrimSpace)
  show ?thesis
    using assms(2) b splitTaskNumber_ok [OF nb] splitTaskNumber_ok [OF nd]
    by (auto simp: parseTaskBullet_def Let_def split: if_splits prod.splits)
qed

definition tasks_state_ok :: "tasks_state \<Rightarrow> bool" where
  "tasks_state_ok st \<longleftrightarrow> tasks_ok (tz_t st) \<and> (case tz_cur st of None \<Rightarrow> tt_Sections (tz_t st) = []
     | Some c \<Rightarrow> list_all task_ok (ts_Tasks c) \<and> name_ok (ts_Name c) \<and>
        (ts_Name c \<noteq> [] \<or> (tt_Sections (tz_t st) = [] \<and> ts_Tasks c \<noteq> [])))"

lemma tasks_ok_flush: "tasks_state_ok st \<Longrightarrow> tasks_ok (tz_t (flushSection st))"
  by (cases "tt_Sections (tz_t st)") (auto simp: tasks_state_ok_def flushSection_def tasks_ok_def split: option.splits)

lemma tasks_line_ok:
  assumes "tasks_state_ok st" "tidy section_heads md" "named_sections md" "raw \<in> set (split_nl md)"
  shows "tasks_state_ok (tasks_line st raw)"
proof -
  let ?line = "TrimRight_blank raw"
  have name: "name_ok (TrimSpace (TrimPrefix ?line h))" for h
    by (intro name_ok_TrimSpace newline_TrimPrefix newline_TrimRight split_nl_lines [OF assms(4)])
  consider (sec) "HasPrefix ?line ''## ''" | (ti) "\<not> HasPrefix ?line ''## ''" "HasPrefix ?line ''# ''"
    | (body) "\<forall>h \<in> set section_heads. \<not> HasPrefix ?line h" by auto
  then show ?thesis
  proof cases
    case sec
    then have "TrimSpace (TrimPrefix ?line ''## '') \<noteq> []" using assms(3,4) by (simp add: named_sections_def)
    then show ?thesis using sec tasks_ok_flush [OF assms(1)] name [of "''## ''"] by (simp add: tasks_line_def Let_def tasks_state_ok_def)
  next
    case ti
    then show ?thesis using assms(1) name [of "''# ''"] by (simp add: tasks_line_def Let_def tasks_state_ok_def tasks_ok_def split: option.splits)
  next
    case body
    show ?thesis
    proof (cases "TrimSpace ?line = [] \<or> parseTaskBullet (TrimSpace ?line) = None")
      case True
      then show ?thesis using body assms(1) by (auto simp: tasks_line_def Let_def)
    next
      case False
      then obtain task where task: "parseTaskBullet (TrimSpace ?line) = Some task" "TrimSpace ?line \<noteq> []" by auto
      have "task_ok task"
        using parseTaskBullet_ok [OF plain_text [OF tidy_plain [OF assms(2,4)]] task(1)] body task(2) by simp
      then show ?thesis
        using task body assms(1) by (auto simp: tasks_line_def Let_def add_task_def tasks_state_ok_def name_ok_def split: option.splits)
    qed
  qed
qed

lemma ParseTasks_ok:
  assumes "tidy section_heads md \<and> named_sections md"
  shows "tasks_ok (ParseTasks md)"
proof -
  have "tasks_state_ok (foldl tasks_line st ls)" if "set ls \<subseteq> set (split_nl md)" "tasks_state_ok st" for ls st
    using that assms by (induction ls arbitrary: st) (auto intro: tasks_line_ok)
  moreover have "tasks_state_ok tasks_start" by (simp add: tasks_state_ok_def tasks_start_def tasks_ok_def name_ok_def)
  ultimately show ?thesis by (simp add: ParseTasks_def tasks_ok_flush)
qed

interpretation task_lists: document_format ParseTasks RenderTasks tasks_ok "\<lambda>md. tidy section_heads md \<and> named_sections md" id
  by unfold_locales (simp_all add: ParseTasks_RenderTasks ParseTasks_ok)

text \<open>
  A task list survives the round trip: whatever mixture of check boxes, numbers and bullet marks the
  document has, reading what was written gives back the same sections and the same tasks with
  number, text and state, provided no heading is indented or unnamed.
\<close>

theorem ParseTasks_stable:
  assumes "tidy section_heads md" "named_sections md"
  shows "ParseTasks (RenderTasks (ParseTasks md)) = ParseTasks md"
  using task_lists.stable [of md] assms by simp

definition sample_tasks :: string where
  "sample_tasks = ''# Tasks'' @ nl @ ''- warm up'' @ nl @ ''## 1. Theme'' @ nl @ ''* [X] 1.1 [ ] two boxes'' @ nl @ ''- [ ] 1.2'' @ nl"

lemma sample_tasks_clean: "tidy section_heads sample_tasks" "named_sections sample_tasks"
  unfolding tidy_def named_sections_def by code_simp+

theorem ParseTasks_stable_witness:
  "ParseTasks (RenderTasks (ParseTasks sample_tasks)) = ParseTasks sample_tasks \<and>
   map (map tk_Number) (map ts_Tasks (tt_Sections (ParseTasks sample_tasks))) = [[[]], [''1.1'', ''1.2'']]"
proof -
  have "map (map tk_Number) (map ts_Tasks (tt_Sections (ParseTasks sample_tasks))) = [[[]], [''1.1'', ''1.2'']]" by code_simp
  then show ?thesis using ParseTasks_stable [OF sample_tasks_clean] by simp
qed

end
