(* ===== verification/Openspec_Folder.thy ===== *)
theory Openspec_Folder
  imports Openspec_Delta Openspec_Proposal Openspec_Design Openspec_Tasks Go_Path
begin

text \<open>
  Change folders on disk and as one document: \<^verbatim>\<open>openspec/change.go\<close> and \<^verbatim>\<open>RenderChangeFolder\<close>
  (\<^verbatim>\<open>render.go\<close>). The file system is what package \<^verbatim>\<open>os\<close> shows of it below the directory a function is
  called with: files and directories under the list of their path segments, so that
  \<^verbatim>\<open>filepath.Join(dir, a, b)\<close> is \<open>[a, b]\<close>. Capability names come from a directory listing or have
  passed \<^verbatim>\<open>validateCapability\<close>, so each is one segment. Any call may fail, and may have done part of its work
  by then: the failures are an argument, \<open>io\<close>, from the operation and the path to an error text and
  to how far the operation came, in bytes written or entries removed.
\<close>

section \<open>The file system\<close>

type_synonym path = "string list"

record fsys =
  fs_files :: "(path \<times> string) list"
  fs_dirs :: "path list"

type_synonym failures = "string \<Rightarrow> path \<Rightarrow> (string \<times> nat) option"

text \<open>
  \<^verbatim>\<open>os.MkdirAll\<close> makes one folder at a time, the outermost first; those it made stay when a later one
  fails.
\<close>

fun make_dirs :: "failures \<Rightarrow> fsys \<Rightarrow> path list \<Rightarrow> string option \<times> fsys" where
  "make_dirs io fs [] = (None, fs)"
| "make_dirs io fs (q # qs) =
     (case io ''mkdir'' q of
        Some (e, _) \<Rightarrow> (Some e, fs)
      | None \<Rightarrow>
          if gm_get (fs_files fs) q \<noteq> None then (Some ''not a directory'', fs)
          else if q \<in> set (fs_dirs fs) then make_dirs io fs qs
          else make_dirs io (fs\<lparr>fs_dirs := q # fs_dirs fs\<rparr>) qs)"

definition MkdirAll :: "failures \<Rightarrow> fsys \<Rightarrow> path \<Rightarrow> string option \<times> fsys" where
  "MkdirAll io fs p = make_dirs io fs (prefixes p)"

definition RemoveAll :: "failures \<Rightarrow> fsys \<Rightarrow> path \<Rightarrow> string option \<times> fsys" where
  "RemoveAll io fs p =
     (case io ''removeall'' p of
        Some (e, n) \<Rightarrow> (Some e, fs\<lparr>fs_files := filter (\<lambda>(q, _). \<not> prefix p q) (take n (fs_files fs)) @ drop n (fs_files fs)\<rparr>)
      | None \<Rightarrow> (None, \<lparr>fs_files = filter (\<lambda>(q, _). \<not> prefix p q) (fs_files fs), fs_dirs = filter (\<lambda>q. \<not> prefix p q) (fs_dirs fs)\<rparr>))"

text \<open>
  \<^verbatim>\<open>os.WriteFile\<close> opens the file, which creates or empties it, and then writes: a failure to open
  leaves everything as it was, a failure to write leaves a part of the content.
\<close>

definition WriteFile :: "failures \<Rightarrow> fsys \<Rightarrow> path \<Rightarrow> string \<Rightarrow> string option \<times> fsys" where
  "WriteFile io fs p content =
     (case io ''open'' p of
        Some (e, _) \<Rightarrow> (Some e, fs)
      | None \<Rightarrow>
          if p \<in> set (fs_dirs fs) then (Some ''is a directory'', fs)
          else if butlast p \<notin> set (fs_dirs fs) then (Some ''no such file or directory'', fs)
          else
            (case io ''write'' p of
               Some (e, n) \<Rightarrow> (Some e, fs\<lparr>fs_files := gm_put p (take n content) (fs_files fs)\<rparr>)
             | None \<Rightarrow> (None, fs\<lparr>fs_files := gm_put p content (fs_files fs)\<rparr>)))"

definition ReadFile :: "failures \<Rightarrow> fsys \<Rightarrow> path \<Rightarrow> string + string option" where
  "ReadFile io fs p =
     (case io ''read'' p of
        Some (e, _) \<Rightarrow> Inl e
      | None \<Rightarrow> if p \<in> set (fs_dirs fs) then Inl ''is a directory'' else Inr (gm_get (fs_files fs) p))"

text \<open>\<^verbatim>\<open>os.Remove\<close> of a file or an empty directory; the missing file is \<open>Inr False\<close>.\<close>

definition Remove :: "failures \<Rightarrow> fsys \<Rightarrow> path \<Rightarrow> (string + bool) \<times> fsys" where
  "Remove io fs p =
     (case io ''remove'' p of
        Some (e, _) \<Rightarrow> (Inl e, fs)
      | None \<Rightarrow>
          if gm_get (fs_files fs) p \<noteq> None then (Inr True, fs\<lparr>fs_files := AList.delete p (fs_files fs)\<rparr>)
          else if p \<in> set (fs_dirs fs) then
            (if (\<exists>q \<in> set (fs_dirs fs @ gm_keys (fs_files fs)). strict_prefix p q) then (Inl ''directory not empty'', fs)
             else (Inr True, fs\<lparr>fs_dirs := filter (\<lambda>q. q \<noteq> p) (fs_dirs fs)\<rparr>))
          else (Inr False, fs))"

text \<open>The names of the subdirectories of a directory, \<open>None\<close> when it does not exist.\<close>

definition ReadDir_dirs :: "failures \<Rightarrow> fsys \<Rightarrow> path \<Rightarrow> string + string list option" where
  "ReadDir_dirs io fs p =
     (case io ''readdir'' p of
        Some (e, _) \<Rightarrow> Inl e
      | None \<Rightarrow>
          if p \<notin> set (fs_dirs fs) then (if gm_get (fs_files fs) p \<noteq> None then Inl ''not a directory'' else Inr None)
          else Inr (Some (remdups (map last (filter (\<lambda>q. q \<noteq> [] \<and> butlast q = p) (fs_dirs fs))))))"

section \<open>Changes\<close>

record Change =
  ch_Slug :: string
  ch_Proposal :: "Proposal option"
  ch_Design :: "Design option"
  ch_Tasks :: "Tasks option"
  ch_Deltas :: "Delta list"

datatype folder_error =
    CreateDirErr string
  | ClearSpecsErr string
  | WriteErr path string
  | RemoveErr path string
  | InvalidCapability string
  | CapabilityDirErr string string
  | CapabilitySpecErr string string
  | ReadErr path string
  | ReadSpecsErr string

definition validateCapability :: "string \<Rightarrow> folder_error option" where
  "validateCapability capability =
     (if capability = [] \<or> capability = ''.'' \<or> capability = ''..'' \<or>
         CHR ''/'' \<in> set capability \<or> CHR 0x5C \<in> set capability \<or> Contains capability ''..''
      then Some (InvalidCapability capability) else None)"

definition readFileIfExists :: "failures \<Rightarrow> fsys \<Rightarrow> path \<Rightarrow> folder_error + string option" where
  "readFileIfExists io fs p = (case ReadFile io fs p of Inl e \<Rightarrow> Inl (ReadErr p e) | Inr c \<Rightarrow> Inr c)"

definition removeIfExists :: "failures \<Rightarrow> fsys \<Rightarrow> path \<Rightarrow> folder_error option \<times> fsys" where
  "removeIfExists io fs p = (case Remove io fs p of (Inl e, fs') \<Rightarrow> (Some (RemoveErr p e), fs') | (Inr _, fs') \<Rightarrow> (None, fs'))"

definition writeOrRemove :: "failures \<Rightarrow> fsys \<Rightarrow> path \<Rightarrow> string option \<Rightarrow> folder_error option \<times> fsys" where
  "writeOrRemove io fs p content =
     (case content of
        None \<Rightarrow> removeIfExists io fs p
      | Some c \<Rightarrow> (case WriteFile io fs p c of (Some e, fs') \<Rightarrow> (Some (WriteErr p e), fs') | (None, fs') \<Rightarrow> (None, fs')))"

definition writeCapabilitySpec :: "failures \<Rightarrow> fsys \<Rightarrow> path \<Rightarrow> string \<Rightarrow> string \<Rightarrow> folder_error option \<times> fsys" where
  "writeCapabilitySpec io fs specsDir capability content =
     (case validateCapability capability of
        Some e \<Rightarrow> (Some e, fs)
      | None \<Rightarrow>
          (case MkdirAll io fs (specsDir @ [capability]) of
             (Some e, fs1) \<Rightarrow> (Some (CapabilityDirErr capability e), fs1)
           | (None, fs1) \<Rightarrow>
               (case WriteFile io fs1 (specsDir @ [capability, ''spec.md'']) content of
                  (Some e, fs2) \<Rightarrow> (Some (CapabilitySpecErr capability e), fs2)
                | (None, fs2) \<Rightarrow> (None, fs2))))"

definition capabilityNames :: "failures \<Rightarrow> fsys \<Rightarrow> path \<Rightarrow> folder_error + string list" where
  "capabilityNames io fs specsDir =
     (case ReadDir_dirs io fs specsDir of
        Inl e \<Rightarrow> Inl (ReadSpecsErr e)
      | Inr None \<Rightarrow> Inr []
      | Inr (Some names) \<Rightarrow> Inr (sort names))"

fun read_each :: "failures \<Rightarrow> fsys \<Rightarrow> path \<Rightarrow> (string \<Rightarrow> string \<Rightarrow> 'a) \<Rightarrow> string list \<Rightarrow> folder_error + 'a list" where
  "read_each io fs specsDir parse [] = Inr []"
| "read_each io fs specsDir parse (name # names) =
     (case readFileIfExists io fs (specsDir @ [name, ''spec.md'']) of
        Inl e \<Rightarrow> Inl e
      | Inr None \<Rightarrow> read_each io fs specsDir parse names
      | Inr (Some md) \<Rightarrow>
          (case read_each io fs specsDir parse names of Inl e \<Rightarrow> Inl e | Inr xs \<Rightarrow> Inr (parse name md # xs)))"

definition readDeltas :: "failures \<Rightarrow> fsys \<Rightarrow> path \<Rightarrow> folder_error + Delta list" where
  "readDeltas io fs specsDir =
     (case capabilityNames io fs specsDir of
        Inl e \<Rightarrow> Inl e
      | Inr names \<Rightarrow> read_each io fs specsDir (\<lambda>name md. (ParseDelta md)\<lparr>dl_Capability := name\<rparr>) names)"

definition ReadSpecs :: "failures \<Rightarrow> fsys \<Rightarrow> folder_error + Spec list" where
  "ReadSpecs io fs =
     (case capabilityNames io fs [] of
        Inl e \<Rightarrow> Inl e
      | Inr names \<Rightarrow> read_each io fs [] (\<lambda>name md. (ParseSpec md)\<lparr>sp_Capability := name\<rparr>) names)"

text \<open>\<^verbatim>\<open>filepath.Base\<close>.\<close>

definition path_Base :: "string \<Rightarrow> string" where
  "path_Base p =
     (if p = [] then ''.''
      else (let q = TrimRightChar p CHR ''/'' in if q = [] then ''/'' else last (split_slash q)))"

definition ReadChange :: "failures \<Rightarrow> fsys \<Rightarrow> string \<Rightarrow> folder_error + Change" where
  "ReadChange io fs dir =
     (case readFileIfExists io fs [''proposal.md''] of Inl e \<Rightarrow> Inl e | Inr proposal \<Rightarrow>
     (case readFileIfExists io fs [''design.md''] of Inl e \<Rightarrow> Inl e | Inr design \<Rightarrow>
     (case readFileIfExists io fs [''tasks.md''] of Inl e \<Rightarrow> Inl e | Inr tasks \<Rightarrow>
     (case readDeltas io fs [''specs''] of Inl e \<Rightarrow> Inl e | Inr deltas \<Rightarrow>
       Inr \<lparr>ch_Slug = path_Base dir, ch_Proposal = map_option ParseProposal proposal, ch_Design = map_option ParseDesign design,
            ch_Tasks = map_option ParseTasks tasks, ch_Deltas = deltas\<rparr>))))"

fun write_each :: "failures \<Rightarrow> fsys \<Rightarrow> path \<Rightarrow> (string \<times> string) list \<Rightarrow> folder_error option \<times> fsys" where
  "write_each io fs specsDir [] = (None, fs)"
| "write_each io fs specsDir ((capability, content) # rest) =
     (case writeCapabilitySpec io fs specsDir capability content of
        (Some e, fs1) \<Rightarrow> (Some e, fs1)
      | (None, fs1) \<Rightarrow> write_each io fs1 specsDir rest)"

definition WriteSpecs :: "failures \<Rightarrow> fsys \<Rightarrow> Spec list \<Rightarrow> folder_error option \<times> fsys" where
  "WriteSpecs io fs specs = write_each io fs [] (map (\<lambda>s. (sp_Capability s, RenderSpec s)) specs)"

definition WriteChange :: "failures \<Rightarrow> fsys \<Rightarrow> Change \<Rightarrow> folder_error option \<times> fsys" where
  "WriteChange io fs c =
     (case MkdirAll io fs [] of (Some e, fs1) \<Rightarrow> (Some (CreateDirErr e), fs1) | (None, fs1) \<Rightarrow>
     (case RemoveAll io fs1 [''specs''] of (Some e, fs2) \<Rightarrow> (Some (ClearSpecsErr e), fs2) | (None, fs2) \<Rightarrow>
     (case writeOrRemove io fs2 [''proposal.md''] (map_option RenderProposal (ch_Proposal c)) of (Some e, fs3) \<Rightarrow> (Some e, fs3) | (None, fs3) \<Rightarrow>
     (case writeOrRemove io fs3 [''design.md''] (map_option RenderDesign (ch_Design c)) of (Some e, fs4) \<Rightarrow> (Some e, fs4) | (None, fs4) \<Rightarrow>
     (case writeOrRemove io fs4 [''tasks.md''] (map_option RenderTasks (ch_Tasks c)) of (Some e, fs5) \<Rightarrow> (Some e, fs5) | (None, fs5) \<Rightarrow>
       write_each io fs5 [''specs''] (map (\<lambda>d. (dl_Capability d, RenderDelta d)) (ch_Deltas c)))))))"

section \<open>RenderChangeFolder\<close>

definition writeChangeArtifact :: "string \<Rightarrow> string \<Rightarrow> string" where
  "writeChangeArtifact p content =
     nl @ ''<!-- '' @ p @ '' -->'' @ nl @ nl @ content @ (if HasSuffix content nl then [] else nl)"

definition RenderChangeFolder :: "Change \<Rightarrow> string" where
  "RenderChangeFolder c =
     (let base = ''openspec/changes/'' @ ch_Slug c @ ''/'' in
      ''# OpenSpec change: '' @ ch_Slug c @ nl @
      (case ch_Proposal c of None \<Rightarrow> []
       | Some p \<Rightarrow> writeChangeArtifact (base @ ''proposal.md'')
                     (RenderProposal (if pp_Title p = [] then p\<lparr>pp_Title := ''Proposal''\<rparr> else p))) @
      (case ch_Design c of None \<Rightarrow> []
       | Some d \<Rightarrow> writeChangeArtifact (base @ ''design.md'')
                     (RenderDesign (if dg_Title d = [] then d\<lparr>dg_Title := ''Design''\<rparr> else d))) @
      concat (map (\<lambda>d. writeChangeArtifact (base @ ''specs/'' @ dl_Capability d @ ''/spec.md'')
                         (RenderDelta (if dl_Title d = [] then d\<lparr>dl_Title := dl_Capability d\<rparr> else d))) (ch_Deltas c)) @
      (case ch_Tasks c of None \<Rightarrow> []
       | Some t \<Rightarrow> writeChangeArtifact (base @ ''tasks.md'')
                     (RenderTasks (if tt_Title t = [] then t\<lparr>tt_Title := ''Tasks''\<rparr> else t))))"

section \<open>A written folder is read back\<close>

abbreviation no_failures :: failures where
  "no_failures \<equiv> \<lambda>_ _. None"

definition change_ok :: "Change \<Rightarrow> bool" where
  "change_ok c \<longleftrightarrow> pred_option proposal_ok (ch_Proposal c) \<and> pred_option design_ok (ch_Design c) \<and> pred_option tasks_ok (ch_Tasks c) \<and>
     list_all (\<lambda>d. delta_ok d \<and> validateCapability (dl_Capability d) = None) (ch_Deltas c) \<and> sorted_wrt (<) (map dl_Capability (ch_Deltas c))"

text \<open>A directory in which the managed names can be written: no file stands for the folder itself, no directory for a managed file.\<close>

definition folder_ok :: "fsys \<Rightarrow> bool" where
  "folder_ok fs \<longleftrightarrow> gm_get (fs_files fs) [] = None \<and>
     (\<forall>n \<in> {''proposal.md'', ''design.md'', ''tasks.md''}. [n] \<notin> set (fs_dirs fs))"

definition file_at :: "fsys \<Rightarrow> path \<Rightarrow> string option" where
  "file_at fs p = gm_get (fs_files fs) p"

lemma make_dirs_frame:
  "make_dirs io fs qs = (err, fs') \<Longrightarrow>
   fs_files fs' = fs_files fs \<and> set (fs_dirs fs) \<subseteq> set (fs_dirs fs') \<and> set (fs_dirs fs') \<subseteq> set (fs_dirs fs) \<union> set qs \<and>
   (err = None \<longrightarrow> set qs \<subseteq> set (fs_dirs fs'))"
proof (induction qs arbitrary: fs)
  case (Cons q qs)
  show ?case
  proof (cases "q \<in> set (fs_dirs fs)")
    case True
    with Cons.prems Cons.IH [of fs] show ?thesis by (auto split: option.splits if_splits)
  next
    case False
    with Cons.prems Cons.IH [of "fs\<lparr>fs_dirs := q # fs_dirs fs\<rparr>"] show ?thesis by (auto split: option.splits if_splits)
  qed
qed simp

lemma make_dirs_made:
  "\<forall>q \<in> set qs. file_at fs q = None \<Longrightarrow> fst (make_dirs no_failures fs qs) = None"
  by (induction qs arbitrary: fs) (simp_all add: file_at_def)

lemma writeOrRemove_none:
  assumes "writeOrRemove no_failures fs p content = (err, fs')" "p \<notin> set (fs_dirs fs)" "butlast p \<in> set (fs_dirs fs)"
  shows "err = None \<and> fs_dirs fs' = fs_dirs fs \<and> file_at fs' = (file_at fs)(p := content)"
  using assms
  by (auto simp: writeOrRemove_def removeIfExists_def Remove_def WriteFile_def file_at_def fun_eq_iff go_map delete_conv' split: option.splits if_splits)

text \<open>The managed subtree holds capability directories with one file each.\<close>

definition specs_tree :: "fsys \<Rightarrow> bool" where
  "specs_tree fs \<longleftrightarrow> file_at fs [] = None \<and> [] \<in> set (fs_dirs fs) \<and>
     (\<forall>q. prefix [''specs''] q \<longrightarrow> (file_at fs q \<noteq> None \<longrightarrow> length q = 3) \<and> (q \<in> set (fs_dirs fs) \<longrightarrow> length q \<le> 2))"

abbreviation spec_path :: "string \<Rightarrow> path" where
  "spec_path cap \<equiv> [''specs'', cap, ''spec.md'']"

lemma specs_treeD: "specs_tree fs \<Longrightarrow> prefix [''specs''] q \<Longrightarrow> (length q \<noteq> 3 \<longrightarrow> file_at fs q = None) \<and> (2 < length q \<longrightarrow> q \<notin> set (fs_dirs fs))"
  unfolding specs_tree_def by (metis not_less)

lemma writeCapabilitySpec_tree:
  assumes "specs_tree fs" "validateCapability cap = None"
  shows "\<exists>fs'. writeCapabilitySpec no_failures fs [''specs''] cap content = (None, fs') \<and> specs_tree fs' \<and>
     file_at fs' = (file_at fs)(spec_path cap \<mapsto> content) \<and> set (fs_dirs fs') = set (fs_dirs fs) \<union> {[''specs''], [''specs'', cap]}"
proof -
  have free: "file_at fs [] = None" "file_at fs [''specs''] = None" "file_at fs [''specs'', cap] = None" "spec_path cap \<notin> set (fs_dirs fs)"
    using assms(1) specs_treeD [OF assms(1), of "[''specs'']"] specs_treeD [OF assms(1), of "[''specs'', cap]"] specs_treeD [OF assms(1), of "spec_path cap"]
    by (auto simp: specs_tree_def [of fs])
  let ?path = "prefixes [''specs'', cap]"
  obtain err fs1 where mk: "make_dirs no_failures fs ?path = (err, fs1)" by fastforce
  have "err = None" using make_dirs_made [of ?path fs] free mk by simp
  then have fs1: "MkdirAll no_failures fs [''specs'', cap] = (None, fs1)" using mk by (simp add: MkdirAll_def)
  have kept: "fs_files fs1 = fs_files fs" "set (fs_dirs fs1) = set (fs_dirs fs) \<union> set ?path"
    using make_dirs_frame [OF mk] \<open>err = None\<close> by auto
  define fs2 where "fs2 = fs1\<lparr>fs_files := gm_put (spec_path cap) content (fs_files fs1)\<rparr>"
  have "writeCapabilitySpec no_failures fs [''specs''] cap content = (None, fs2)"
    using assms(2) free kept by (simp add: writeCapabilitySpec_def fs1 WriteFile_def fs2_def)
  moreover have files: "file_at fs2 = (file_at fs)(spec_path cap \<mapsto> content)"
    by (simp add: fs2_def kept file_at_def fun_eq_iff go_map)
  moreover have dirs: "set (fs_dirs fs2) = set (fs_dirs fs) \<union> {[''specs''], [''specs'', cap]}"
    using assms(1) by (auto simp: fs2_def kept specs_tree_def)
  moreover have "specs_tree fs2"
    using assms(1) unfolding specs_tree_def files dirs by auto
  ultimately show ?thesis by blast
qed

definition spec_files :: "(string \<times> string) list \<Rightarrow> (path \<times> string) list" where
  "spec_files xs = map (\<lambda>x. (spec_path (fst x), snd x)) xs"

lemma spec_files_simps [simp]: "spec_files [] = []" "spec_files (x # xs) = (spec_path (fst x), snd x) # spec_files xs"
  by (simp_all add: spec_files_def)

lemma spec_files_under: "map_of (rev (spec_files ys)) (spec_path cap) = map_of (rev ys) cap"
  unfolding spec_files_def by (induction ys rule: rev_induct) auto

lemma spec_files_outside: "\<not> prefix [''specs''] q \<Longrightarrow> map_of (rev (spec_files ys)) q = None"
  by (auto simp: map_of_eq_None_iff spec_files_def)

lemma spec_files_short: "map_of (rev (spec_files ys)) [''specs''] = None"
  by (auto simp: map_of_eq_None_iff spec_files_def)

lemma write_each_tree:
  "specs_tree fs \<Longrightarrow> list_all (\<lambda>x. validateCapability (fst x) = None) xs \<Longrightarrow>
   \<exists>fs'. write_each no_failures fs [''specs''] xs = (None, fs') \<and>
     (\<forall>q. file_at fs' q = (case map_of (rev (spec_files xs)) q of Some c \<Rightarrow> Some c | None \<Rightarrow> file_at fs q)) \<and>
     set (fs_dirs fs') = set (fs_dirs fs) \<union> (if xs = [] then {} else {[''specs'']}) \<union> (\<lambda>x. [''specs'', fst x]) ` set xs"
proof (induction xs arbitrary: fs)
  case (Cons x xs)
  obtain cap content where x: "x = (cap, content)" by (cases x)
  have v: "validateCapability cap = None" using Cons.prems(2) x by simp
  obtain fs1 where fs1: "writeCapabilitySpec no_failures fs [''specs''] cap content = (None, fs1)" "specs_tree fs1"
    "file_at fs1 = (file_at fs)(spec_path cap \<mapsto> content)" "set (fs_dirs fs1) = set (fs_dirs fs) \<union> {[''specs''], [''specs'', cap]}"
    using writeCapabilitySpec_tree [OF Cons.prems(1) v, of content] by blast
  have "list_all (\<lambda>x. validateCapability (fst x) = None) xs" using Cons.prems(2) by simp
  from Cons.IH [OF fs1(2) this] obtain fs' where fs': "write_each no_failures fs1 [''specs''] xs = (None, fs')"
    "\<forall>q. file_at fs' q = (case map_of (rev (spec_files xs)) q of Some c \<Rightarrow> Some c | None \<Rightarrow> file_at fs1 q)"
    "set (fs_dirs fs') = set (fs_dirs fs1) \<union> (if xs = [] then {} else {[''specs'']}) \<union> (\<lambda>x. [''specs'', fst x]) ` set xs"
    by blast
  show ?case
    using fs1 fs' x by (intro exI [of _ fs']) (auto simp: map_add_def split: option.splits)
qed simp

lemma read_each_found:
  "\<forall>n \<in> set names. specsDir @ [n, ''spec.md''] \<notin> set (fs_dirs fs) \<and> file_at fs (specsDir @ [n, ''spec.md'']) = Some (content n) \<Longrightarrow>
   read_each no_failures fs specsDir parse names = Inr (map (\<lambda>n. parse n (content n)) names)"
  by (induction names) (simp_all add: readFileIfExists_def ReadFile_def file_at_def)

lemma WriteChange_state:
  assumes "folder_ok fs" "list_all (\<lambda>d. validateCapability (dl_Capability d) = None) (ch_Deltas c)"
  shows "\<exists>fs'. WriteChange no_failures fs c = (None, fs') \<and>
     file_at fs' [''proposal.md''] = map_option RenderProposal (ch_Proposal c) \<and>
     file_at fs' [''design.md''] = map_option RenderDesign (ch_Design c) \<and>
     file_at fs' [''tasks.md''] = map_option RenderTasks (ch_Tasks c) \<and>
     (\<forall>cap. file_at fs' (spec_path cap) = map_of (rev (map (\<lambda>d. (dl_Capability d, RenderDelta d)) (ch_Deltas c))) cap) \<and>
     (\<forall>q. prefix [''specs''] q \<longrightarrow> (q \<in> set (fs_dirs fs') \<longleftrightarrow> ch_Deltas c \<noteq> [] \<and> (q = [''specs''] \<or> q \<in> (\<lambda>d. [''specs'', dl_Capability d]) ` set (ch_Deltas c)))) \<and>
     (\<forall>q. \<not> prefix [''specs''] q \<and> q \<notin> {[''proposal.md''], [''design.md''], [''tasks.md'']} \<longrightarrow> file_at fs' q = file_at fs q) \<and>
     (\<forall>q. \<not> prefix [''specs''] q \<and> q \<noteq> [] \<longrightarrow> (q \<in> set (fs_dirs fs') \<longleftrightarrow> q \<in> set (fs_dirs fs))) \<and>
     file_at fs' [''specs''] = None"
proof -
  define fs1 where "fs1 = (if [] \<in> set (fs_dirs fs) then fs else fs\<lparr>fs_dirs := [] # fs_dirs fs\<rparr>)"
  define fs2 where "fs2 = \<lparr>fs_files = filter (\<lambda>(q, _). \<not> prefix [''specs''] q) (fs_files fs1), fs_dirs = filter (\<lambda>q. \<not> prefix [''specs''] q) (fs_dirs fs1)\<rparr>"
  have mk: "MkdirAll no_failures fs [] = (None, fs1)" using assms(1) by (simp add: MkdirAll_def folder_ok_def fs1_def)
  have rm: "RemoveAll no_failures fs1 [''specs''] = (None, fs2)" by (simp add: RemoveAll_def fs2_def)
  have f2: "file_at fs2 q = (if prefix [''specs''] q then None else file_at fs q)" for q
  proof -
    have "map_of (filter (\<lambda>(q, _). \<not> P q) xs) q = (if P q then None else map_of xs q)" for P and xs :: "(path \<times> string) list"
      by (induction xs) auto
    then show ?thesis by (simp add: file_at_def fs2_def fs1_def)
  qed
  have d2: "set (fs_dirs fs2) = {q. \<not> prefix [''specs''] q \<and> q \<in> set ([] # fs_dirs fs)}" by (auto simp: fs2_def fs1_def)
  have managed: "[n] \<notin> set (fs_dirs fs2)" if "n \<in> {''proposal.md'', ''design.md'', ''tasks.md''}" for n
    using that assms(1) by (auto simp: d2 folder_ok_def)
  have root: "[] \<in> set (fs_dirs fs2)" by (simp add: d2)
  obtain e3 fs3 where 3: "writeOrRemove no_failures fs2 [''proposal.md''] (map_option RenderProposal (ch_Proposal c)) = (e3, fs3)"
    by (cases "writeOrRemove no_failures fs2 [''proposal.md''] (map_option RenderProposal (ch_Proposal c))")
  have w3: "e3 = None" "fs_dirs fs3 = fs_dirs fs2" "file_at fs3 = (file_at fs2)([''proposal.md''] := map_option RenderProposal (ch_Proposal c))"
    using writeOrRemove_none [OF 3] managed root by simp_all
  obtain e4 fs4 where 4: "writeOrRemove no_failures fs3 [''design.md''] (map_option RenderDesign (ch_Design c)) = (e4, fs4)"
    by (cases "writeOrRemove no_failures fs3 [''design.md''] (map_option RenderDesign (ch_Design c))")
  have w4: "e4 = None" "fs_dirs fs4 = fs_dirs fs2" "file_at fs4 = (file_at fs3)([''design.md''] := map_option RenderDesign (ch_Design c))"
    using writeOrRemove_none [OF 4] managed root w3 by simp_all
  obtain e5 fs5 where 5: "writeOrRemove no_failures fs4 [''tasks.md''] (map_option RenderTasks (ch_Tasks c)) = (e5, fs5)"
    by (cases "writeOrRemove no_failures fs4 [''tasks.md''] (map_option RenderTasks (ch_Tasks c))")
  have w5: "e5 = None" "fs_dirs fs5 = fs_dirs fs2" "file_at fs5 = (file_at fs4)([''tasks.md''] := map_option RenderTasks (ch_Tasks c))"
    using writeOrRemove_none [OF 5] managed root w4 by simp_all
  have tree: "specs_tree fs5"
  proof -
    have "file_at fs [] = None" using assms(1) by (simp add: folder_ok_def file_at_def)
    then show ?thesis unfolding specs_tree_def w5 w4 w3 d2 by (auto simp: f2)
  qed
  let ?xs = "map (\<lambda>d. (dl_Capability d, RenderDelta d)) (ch_Deltas c)"
  have caps: "list_all (\<lambda>x. validateCapability (fst x) = None) ?xs" using assms(2) by (simp add: list_all_iff)
  obtain fs' where fs': "write_each no_failures fs5 [''specs''] ?xs = (None, fs')"
    "\<forall>q. file_at fs' q = (case map_of (rev (spec_files ?xs)) q of Some c \<Rightarrow> Some c | None \<Rightarrow> file_at fs5 q)"
    "set (fs_dirs fs') = set (fs_dirs fs5) \<union> (if ?xs = [] then {} else {[''specs'']}) \<union> (\<lambda>x. [''specs'', fst x]) ` set ?xs"
    using write_each_tree [OF tree caps] by blast
  have "WriteChange no_failures fs c = (None, fs')"
    by (simp add: WriteChange_def mk rm 3 w3(1) 4 w4(1) 5 w5(1) fs'(1))
  moreover have final: "file_at fs' q = file_at fs5 q" if "\<not> prefix [''specs''] q" for q
    by (simp add: fs'(2) spec_files_outside [OF that])
  moreover have "file_at fs5 (spec_path cap) = None" for cap by (simp add: w5 w4 w3 f2)
  ultimately show ?thesis
    apply (intro exI [of _ fs'] conjI)
    subgoal by simp
    subgoal by (simp add: final w5(3) w4(3) w3(3))
    subgoal by (simp add: final w5(3) w4(3))
    subgoal by (simp add: final w5(3))
    subgoal unfolding fs'(2) [rule_format] spec_files_under by (simp split: option.split)
    subgoal by (auto simp: fs'(3) w5(2) d2 image_image)
    subgoal by (simp add: final w5(3) w4(3) w3(3) f2)
    subgoal by (auto simp: fs'(3) w5(2) d2)
    subgoal by (simp add: fs'(2) spec_files_short w5(3) w4(3) w3(3) f2)
    done
qed

text \<open>What a change keeps on disk: the folder's own name, and deltas without diagnostics.\<close>

definition change_on_disk :: "string \<Rightarrow> Change \<Rightarrow> Change" where
  "change_on_disk dir c = c\<lparr>ch_Slug := path_Base dir, ch_Deltas := map (\<lambda>d. d\<lparr>dl_Warnings := []\<rparr>) (ch_Deltas c)\<rparr>"

lemma names_written:
  assumes "sorted_wrt (<) (map dl_Capability ds)"
    "\<forall>q. prefix [''specs''] q \<longrightarrow> (q \<in> set (fs_dirs fs) \<longleftrightarrow> ds \<noteq> [] \<and> (q = [''specs''] \<or> q \<in> (\<lambda>d. [''specs'', dl_Capability d]) ` set ds))"
    "file_at fs [''specs''] = None"
  shows "capabilityNames no_failures fs [''specs''] = Inr (map dl_Capability ds)"
proof (cases "ds = []")
  case True
  then have "[''specs''] \<notin> set (fs_dirs fs)" using assms(2) by simp
  then show ?thesis using True assms(3) by (simp add: capabilityNames_def ReadDir_dirs_def file_at_def)
next
  case False
  let ?sub = "filter (\<lambda>q. q \<noteq> [] \<and> butlast q = [''specs'']) (fs_dirs fs)"
  have spec_prefix: "prefix [''specs''] q" if "butlast q = [''specs'']" for q :: path
    using that by (metis prefixeq_butlast)
  have "q \<in> set ?sub \<longleftrightarrow> q \<in> (\<lambda>d. [''specs'', dl_Capability d]) ` set ds" for q
    using assms(2) [rule_format, of q] spec_prefix [of q] False by auto
  then have "set ?sub = (\<lambda>d. [''specs'', dl_Capability d]) ` set ds" by blast
  then have "set (remdups (map last ?sub)) = set (map dl_Capability ds)" by (simp add: image_image)
  moreover have "sorted (map dl_Capability ds)" "distinct (map dl_Capability ds)"
    using assms(1) by (simp_all add: strict_sorted_iff)
  ultimately have "sort (remdups (map last ?sub)) = map dl_Capability ds"
    by (intro sorted_distinct_set_unique) simp_all
  moreover have "[''specs''] \<in> set (fs_dirs fs)" using assms(2) False by simp
  ultimately show ?thesis by (simp add: capabilityNames_def ReadDir_dirs_def)
qed

text \<open>
  C27. \<^verbatim>\<open>WriteChange\<close> is authoritative and \<^verbatim>\<open>ReadChange\<close> its inverse: in a folder that no file stands for and that
  has no folder at the name of a managed file, whatever else it held before, writing a well-formed change succeeds
  when no call fails, and reading the folder gives back that change, with the folder's own name as its slug and
  without the diagnostics of its deltas; an omitted artifact or a stale capability is gone, and every file outside the
  managed ones is left as it was.
\<close>

theorem change_folder_roundtrip:
  assumes "folder_ok fs" "change_ok c"
  shows "\<exists>fs'. WriteChange no_failures fs c = (None, fs') \<and> ReadChange no_failures fs' dir = Inr (change_on_disk dir c) \<and>
     (\<forall>q. \<not> prefix [''specs''] q \<and> q \<notin> {[''proposal.md''], [''design.md''], [''tasks.md'']} \<longrightarrow> file_at fs' q = file_at fs q)"
proof -
  have caps: "list_all (\<lambda>d. validateCapability (dl_Capability d) = None) (ch_Deltas c)" and sorted: "sorted_wrt (<) (map dl_Capability (ch_Deltas c))"
    using assms(2) by (auto simp: change_ok_def list_all_iff)
  obtain fs' where w: "WriteChange no_failures fs c = (None, fs')"
     "file_at fs' [''proposal.md''] = map_option RenderProposal (ch_Proposal c)"
     "file_at fs' [''design.md''] = map_option RenderDesign (ch_Design c)"
     "file_at fs' [''tasks.md''] = map_option RenderTasks (ch_Tasks c)"
     "\<forall>cap. file_at fs' (spec_path cap) = map_of (rev (map (\<lambda>d. (dl_Capability d, RenderDelta d)) (ch_Deltas c))) cap"
     "\<forall>q. prefix [''specs''] q \<longrightarrow> (q \<in> set (fs_dirs fs') \<longleftrightarrow> ch_Deltas c \<noteq> [] \<and> (q = [''specs''] \<or> q \<in> (\<lambda>d. [''specs'', dl_Capability d]) ` set (ch_Deltas c)))"
     "\<forall>q. \<not> prefix [''specs''] q \<and> q \<notin> {[''proposal.md''], [''design.md''], [''tasks.md'']} \<longrightarrow> file_at fs' q = file_at fs q"
     "\<forall>q. \<not> prefix [''specs''] q \<and> q \<noteq> [] \<longrightarrow> (q \<in> set (fs_dirs fs') \<longleftrightarrow> q \<in> set (fs_dirs fs))"
    "file_at fs' [''specs''] = None"
    using WriteChange_state [OF assms(1) caps] by (elim exE conjE) (rule that)
  have nodir: "[n] \<notin> set (fs_dirs fs')" if "n \<in> {''proposal.md'', ''design.md'', ''tasks.md''}" for n
    using that w(8) [rule_format, of "[n]"] assms(1) by (auto simp: folder_ok_def)
  have top: "readFileIfExists no_failures fs' [n] = Inr (file_at fs' [n])" if "n \<in> {''proposal.md'', ''design.md'', ''tasks.md''}" for n
    using nodir [OF that] by (simp add: readFileIfExists_def ReadFile_def file_at_def)
  have distinct: "distinct (map dl_Capability (ch_Deltas c))" using sorted by (simp add: strict_sorted_iff)
  let ?xs = "map (\<lambda>d. (dl_Capability d, RenderDelta d)) (ch_Deltas c)"
  have keys: "distinct (map fst ?xs)" using distinct by (simp add: comp_def)
  have content: "file_at fs' (spec_path (dl_Capability d)) = Some (RenderDelta d)" if "d \<in> set (ch_Deltas c)" for d
  proof -
    have "distinct (map fst (rev ?xs))" using keys by (simp add: rev_map [symmetric])
    then show ?thesis using that w(5) by (intro trans [OF w(5) [rule_format]] map_of_is_SomeI) auto
  qed
  have looked: "map_of ?xs (dl_Capability d) = Some (RenderDelta d)" if "d \<in> set (ch_Deltas c)" for d
    using that keys by (intro map_of_is_SomeI) auto
  have "spec_path n \<notin> set (fs_dirs fs')" for n using w(6) [rule_format, of "spec_path n"] by auto
  then have "\<forall>n \<in> set (map dl_Capability (ch_Deltas c)). [''specs''] @ [n, ''spec.md''] \<notin> set (fs_dirs fs') \<and>
      file_at fs' ([''specs''] @ [n, ''spec.md'']) = Some (the (map_of ?xs n))"
    using content looked by auto
  from read_each_found [OF this, of "\<lambda>name md. (ParseDelta md)\<lparr>dl_Capability := name\<rparr>"]
  have "readDeltas no_failures fs' [''specs''] = Inr (map ((\<lambda>n. (ParseDelta (the (map_of ?xs n)))\<lparr>dl_Capability := n\<rparr>) \<circ> dl_Capability) (ch_Deltas c))"
    using names_written [OF sorted w(6) w(9)] by (simp add: readDeltas_def)
  also have "map ((\<lambda>n. (ParseDelta (the (map_of ?xs n)))\<lparr>dl_Capability := n\<rparr>) \<circ> dl_Capability) (ch_Deltas c) = map (\<lambda>d. d\<lparr>dl_Warnings := []\<rparr>) (ch_Deltas c)"
  proof (rule map_cong [OF refl])
    fix d assume d: "d \<in> set (ch_Deltas c)"
    note looked [OF d]
    moreover have "ParseDelta (RenderDelta d) = delta_modelled d" using d assms(2) ParseDelta_RenderDelta by (auto simp: change_ok_def list_all_iff)
    ultimately show "((\<lambda>n. (ParseDelta (the (map_of ?xs n)))\<lparr>dl_Capability := n\<rparr>) \<circ> dl_Capability) d = d\<lparr>dl_Warnings := []\<rparr>"
      by (simp add: delta_modelled_def)
  qed
  finally have deltas: "readDeltas no_failures fs' [''specs''] = Inr (map (\<lambda>d. d\<lparr>dl_Warnings := []\<rparr>) (ch_Deltas c))" .
  have "map_option ParseProposal (map_option RenderProposal (ch_Proposal c)) = ch_Proposal c"
    "map_option ParseDesign (map_option RenderDesign (ch_Design c)) = ch_Design c"
    "map_option ParseTasks (map_option RenderTasks (ch_Tasks c)) = ch_Tasks c"
    using assms(2) ParseProposal_RenderProposal ParseDesign_RenderDesign ParseTasks_RenderTasks
    by (cases "ch_Proposal c"; cases "ch_Design c"; cases "ch_Tasks c"; simp add: change_ok_def)+
  then have "ReadChange no_failures fs' dir = Inr (change_on_disk dir c)"
    using top deltas w(2-4) by (simp add: ReadChange_def change_on_disk_def)
  then show ?thesis using w(1,7) by blast
qed

text \<open>A name that stands for one folder of its parent, whatever the system's separator is.\<close>

definition plain_segment :: "string \<Rightarrow> bool" where
  "plain_segment s \<longleftrightarrow> s \<noteq> [] \<and> s \<noteq> ''.'' \<and> \<not> sublist ''..'' s \<and> CHR ''/'' \<notin> set s \<and> CHR 0x5C \<notin> set s"

lemma validateCapability_plain: "validateCapability cap = (if plain_segment cap then None else Some (InvalidCapability cap))"
  by (auto simp: validateCapability_def plain_segment_def Contains_iff)

lemma WriteFile_frame:
  assumes "WriteFile io fs p content = (err, fs')"
  shows "fs_dirs fs' = fs_dirs fs \<and> (\<forall>q. q \<noteq> p \<longrightarrow> file_at fs' q = file_at fs q) \<and>
     (file_at fs' p = file_at fs p \<or> (\<exists>n. file_at fs' p = Some (take n content))) \<and>
     (err = None \<longrightarrow> file_at fs' p = Some content)"
proof -
  have "content = take (length content) content" by simp
  then have "\<exists>n. content = take n content" ..
  then show ?thesis using assms by (auto simp: WriteFile_def file_at_def go_map split: option.splits if_splits)
qed

text \<open>
  C35. No capability name can make a write leave the folder, whatever fails meanwhile. A name that is not one plain
  path segment is refused with nothing touched. For any other, and whether the call returns an error or not, no file
  changes but \<^verbatim>\<open>spec.md\<close> of that segment, which holds what it held or a beginning of the new content, no folder
  disappears, and none is created but that segment's and its ancestors; a folder that cannot be made leaves every file
  as it was. Without an error the whole content is in place, and the folders are there.
\<close>

theorem capability_confined:
  assumes "writeCapabilitySpec io fs specsDir cap content = (err, fs')"
  shows "(\<not> plain_segment cap \<longrightarrow> err = Some (InvalidCapability cap) \<and> fs' = fs) \<and>
     (plain_segment cap \<longrightarrow> split_slash cap = [cap]) \<and>
     (\<forall>q. q \<noteq> specsDir @ [cap, ''spec.md''] \<longrightarrow> file_at fs' q = file_at fs q) \<and>
     (file_at fs' (specsDir @ [cap, ''spec.md'']) = file_at fs (specsDir @ [cap, ''spec.md'']) \<or>
        (\<exists>n. file_at fs' (specsDir @ [cap, ''spec.md'']) = Some (take n content))) \<and>
     set (fs_dirs fs) \<subseteq> set (fs_dirs fs') \<and> set (fs_dirs fs') \<subseteq> set (fs_dirs fs) \<union> set (prefixes (specsDir @ [cap])) \<and>
     (\<forall>e. err = Some (CapabilityDirErr cap e) \<longrightarrow> fs_files fs' = fs_files fs) \<and>
     (err = None \<longrightarrow> plain_segment cap \<and> file_at fs' (specsDir @ [cap, ''spec.md'']) = Some content \<and>
        set (fs_dirs fs') = set (fs_dirs fs) \<union> set (prefixes (specsDir @ [cap])))"
proof (cases "plain_segment cap")
  case False
  then show ?thesis using assms by (auto simp: writeCapabilitySpec_def validateCapability_plain)
next
  case True
  then have seg: "split_slash cap = [cap]" unfolding plain_segment_def using split_slash_plain by blast
  obtain err1 fs1 where mk: "make_dirs io fs (prefixes (specsDir @ [cap])) = (err1, fs1)" by fastforce
  obtain err2 fs2 where wr: "WriteFile io fs1 (specsDir @ [cap, ''spec.md'']) content = (err2, fs2)" by fastforce
  have same: "file_at fs1 = file_at fs" using make_dirs_frame [OF mk] by (simp add: file_at_def fun_eq_iff)
  show ?thesis
  proof (cases err1)
    case (Some e)
    then have "err = Some (CapabilityDirErr cap e)" "fs' = fs1"
      using assms True mk by (simp_all add: writeCapabilitySpec_def validateCapability_plain MkdirAll_def)
    then show ?thesis using make_dirs_frame [OF mk] True seg same by simp
  next
    case None
    then have "err = map_option (CapabilitySpecErr cap) err2" "fs' = fs2"
      using assms True mk wr by (auto simp: writeCapabilitySpec_def validateCapability_plain MkdirAll_def split: option.splits)
    then show ?thesis using make_dirs_frame [OF mk] WriteFile_frame [OF wr] None True seg same by auto
  qed
qed

section \<open>Witnesses\<close>

definition sample_change :: Change where
  "sample_change = \<lparr>ch_Slug = ''x'', ch_Proposal = Some (ParseProposal sample_proposal), ch_Design = None,
     ch_Tasks = Some (ParseTasks sample_tasks), ch_Deltas = [(ParseDelta sample_delta)\<lparr>dl_Capability := ''auth''\<rparr>]\<rparr>"

definition sample_folder :: fsys where
  "sample_folder = \<lparr>fs_files = [([''design.md''], ''old''), ([''README''], ''keep''), ([''specs'', ''stale'', ''spec.md''], ''old'')],
     fs_dirs = [[], [''specs''], [''specs'', ''stale'']]\<rparr>"

lemma sample_change_ok: "change_ok sample_change"
proof -
  have "validateCapability ''auth'' = None" by code_simp
  moreover have "delta_ok ((ParseDelta sample_delta)\<lparr>dl_Capability := ''auth''\<rparr>)"
    using ParseDelta_ok [OF sample_delta_tidy] by (simp add: delta_ok_def)
  ultimately show ?thesis
    using ParseProposal_ok [of sample_proposal] ParseTasks_ok [of sample_tasks] sample_proposal_clean sample_tasks_clean
    by (simp add: change_ok_def sample_change_def)
qed

theorem change_folder_roundtrip_witness:
  "\<exists>fs'. WriteChange no_failures sample_folder sample_change = (None, fs') \<and>
     ReadChange no_failures fs' ''changes/dark/'' = Inr (change_on_disk ''changes/dark/'' sample_change) \<and>
     file_at fs' [''README''] = Some ''keep''"
proof -
  have "folder_ok sample_folder" by (simp add: folder_ok_def sample_folder_def)
  from change_folder_roundtrip [OF this sample_change_ok, of "''changes/dark/''"]
  show ?thesis by (auto simp: sample_folder_def file_at_def)
qed

definition full_disk :: failures where
  "full_disk op p = (if op = ''write'' then Some (''no space left on device'', 2) else None)"

theorem capability_confined_witness:
  "writeCapabilitySpec full_disk sample_folder [''specs''] ''auth'' ''new'' =
     (Some (CapabilitySpecErr ''auth'' ''no space left on device''),
      \<lparr>fs_files = fs_files sample_folder @ [(spec_path ''auth'', ''ne'')], fs_dirs = [''specs'', ''auth''] # fs_dirs sample_folder\<rparr>) \<and>
   file_at (snd (writeCapabilitySpec full_disk sample_folder [''specs''] ''auth'' ''new'')) [''design.md''] = Some ''old'' \<and>
   snd (writeCapabilitySpec full_disk sample_folder [''specs''] ''../etc'' ''new'') = sample_folder"
proof -
  have w: "writeCapabilitySpec full_disk sample_folder [''specs''] ''auth'' ''new'' =
     (Some (CapabilitySpecErr ''auth'' ''no space left on device''),
      \<lparr>fs_files = fs_files sample_folder @ [(spec_path ''auth'', ''ne'')], fs_dirs = [''specs'', ''auth''] # fs_dirs sample_folder\<rparr>)"
    by code_simp
  obtain err fs' where bad: "writeCapabilitySpec full_disk sample_folder [''specs''] ''../etc'' ''new'' = (err, fs')" by fastforce
  have "\<not> plain_segment ''../etc''" by (simp add: plain_segment_def)
  then have "fs' = sample_folder" using capability_confined [OF bad] by blast
  moreover have "file_at (snd (writeCapabilitySpec full_disk sample_folder [''specs''] ''auth'' ''new'')) [''design.md''] = Some ''old''"
    using capability_confined [OF w] unfolding w by (simp add: file_at_def sample_folder_def)
  ultimately show ?thesis using w bad by simp
qed

end
