(* ===== verification/Openspec_Facts.thy ===== *)
theory Openspec_Facts
  imports Openspec_Spec Slug Go_Json_Read "HOL-Library.Product_Lexorder"
begin

text \<open>
  The graph encoding of capability specifications, \<^verbatim>\<open>openspec/facts.go\<close>: a specification becomes a list
  of subject-less facts, keyed by predicates with a minted id per requirement, and is read back from
  any collection of facts that holds them. Iteration over a Go map has no order of its own; here the
  order is an argument, \<open>ord\<close>, of the readers.
\<close>

section \<open>Facts\<close>

record Fact =
  ft_Predicate :: string
  ft_Object :: string

named_theorems key_defs

definition specPrefix :: string where [key_defs]: "specPrefix = ''spec.''"
definition changePrefix :: string where [key_defs]: "changePrefix = ''change.''"
definition keyTitle :: string where [key_defs]: "keyTitle = ''title''"
definition keyPurpose :: string where [key_defs]: "keyPurpose = ''purpose''"
definition keyName :: string where [key_defs]: "keyName = ''name''"
definition keyStatement :: string where [key_defs]: "keyStatement = ''statement''"
definition keyScenarios :: string where [key_defs]: "keyScenarios = ''scenarios''"
definition keyPosition :: string where [key_defs]: "keyPosition = ''position''"
definition segRequirement :: string where [key_defs]: "segRequirement = ''requirement''"

abbreviation (input) dot :: char where "dot \<equiv> CHR ''.''"

definition ChangeEntityPrefix :: "string \<Rightarrow> string" where
  "ChangeEntityPrefix slug = changePrefix @ slug @ ''.''"

text \<open>What \<^verbatim>\<open>add\<close> and \<^verbatim>\<open>addRaw\<close> append to the list.\<close>

definition add :: "string \<Rightarrow> string \<Rightarrow> Fact list" where
  "add predicate object = (if object = [] then [] else [\<lparr>ft_Predicate = predicate, ft_Object = object\<rparr>])"

definition addRaw :: "string \<Rightarrow> string \<Rightarrow> Fact list" where
  "addRaw predicate object = [\<lparr>ft_Predicate = predicate, ft_Object = object\<rparr>]"

section \<open>The index\<close>

fun indexFacts_loop :: "(string \<times> string) list \<Rightarrow> Fact list \<Rightarrow> (string \<times> string) list" where
  "indexFacts_loop idx [] = idx"
| "indexFacts_loop idx (f # fs) =
     indexFacts_loop (if gm_get idx (ft_Predicate f) = None then gm_put (ft_Predicate f) (ft_Object f) idx else idx) fs"

definition indexFacts :: "Fact list \<Rightarrow> (string \<times> string) list" where
  "indexFacts facts = indexFacts_loop [] facts"

text \<open>\<^verbatim>\<open>idx[k]\<close>, with the empty text for a missing key.\<close>

definition ix :: "(string \<times> string) list \<Rightarrow> string \<Rightarrow> string" where
  "ix idx k = (case gm_get idx k of None \<Rightarrow> [] | Some v \<Rightarrow> v)"

text \<open>\<^verbatim>\<open>strings.IndexByte(rest, '.')\<close> and the pieces around it, when there is a dot after the first character.\<close>

definition cut_dot :: "string \<Rightarrow> (string \<times> string) option" where
  "cut_dot rest =
     (let name = takeWhile (\<lambda>c. c \<noteq> dot) rest in
      if dot \<notin> set rest \<or> name = [] then None else Some (name, drop (Suc (length name)) rest))"

abbreviation noPos :: int where "noPos \<equiv> 2 ^ 30"

fun child_loop :: "(string \<times> string) list \<Rightarrow> string \<Rightarrow> (string \<times> int) list \<Rightarrow> string list \<Rightarrow> (string \<times> int) list" where
  "child_loop idx pre order [] = order"
| "child_loop idx pre order (key # keys) =
     (if \<not> HasPrefix key pre then child_loop idx pre order keys
      else (case cut_dot (drop (length pre) key) of
              None \<Rightarrow> child_loop idx pre order keys
            | Some (name, tail) \<Rightarrow>
                (let order1 = (if gm_get order name = None then order @ [(name, noPos)] else order);
                     (p, ok) = Atoi (ix idx key);
                     order2 = (if tail = keyPosition \<and> ok then gm_put name p order1 else order1)
                 in child_loop idx pre order2 keys)))"

definition childKeys :: "(string list \<Rightarrow> string list) \<Rightarrow> (string \<times> string) list \<Rightarrow> string \<Rightarrow> string list" where
  "childKeys ord idx pre =
     map fst (sort_key (\<lambda>(name, pos). (pos, name)) (child_loop idx pre [] (ord (gm_keys idx))))"

section \<open>Codecs\<close>

definition encodeStrings :: "string list \<Rightarrow> string" where
  "encodeStrings ss = (if ss = [] then [] else encode (JArr (map JStr ss)))"

text \<open>A list decoded from a text, empty when the text is empty or does not decode.\<close>

definition decode_list :: "(jval \<Rightarrow> 'a option) \<Rightarrow> string \<Rightarrow> 'a list" where
  "decode_list elem s =
     (if s = [] then []
      else case parse_json s of
             None \<Rightarrow> []
           | Some v \<Rightarrow> (case slice_of elem v of None \<Rightarrow> [] | Some xs \<Rightarrow> xs))"

definition decodeStrings :: "string \<Rightarrow> string list" where
  "decodeStrings = decode_list string_of"

text \<open>The wire form of steps and scenarios: the struct tags of \<^verbatim>\<open>stepJSON\<close> and \<^verbatim>\<open>scenarioJSON\<close>.\<close>

definition omit :: "string \<Rightarrow> string \<Rightarrow> (string \<times> json) list" where
  "omit k s = (if s = [] then [] else [(k, JStr s)])"

definition stepJSON :: "Step \<Rightarrow> json" where
  "stepJSON st = JObj (omit ''kw'' (st_Keyword st) @ omit ''text'' (st_Text st))"

definition scenarioJSON :: "Scenario \<Rightarrow> json" where
  "scenarioJSON s = JObj ((''name'', JStr (sn_Name s)) #
     (if sn_Steps s = [] then [] else [(''steps'', JArr (map stepJSON (sn_Steps s)))]))"

definition step_of :: "jval \<Rightarrow> Step option" where
  "step_of v =
     (case fields_of v of None \<Rightarrow> None | Some kvs \<Rightarrow>
     (case string_field ''kw'' kvs of None \<Rightarrow> None | Some kw \<Rightarrow>
     (case string_field ''text'' kvs of None \<Rightarrow> None | Some t \<Rightarrow> Some \<lparr>st_Keyword = kw, st_Text = t\<rparr>)))"

definition scenario_of :: "jval \<Rightarrow> Scenario option" where
  "scenario_of v =
     (case fields_of v of None \<Rightarrow> None | Some kvs \<Rightarrow>
     (case string_field ''name'' kvs of None \<Rightarrow> None | Some name \<Rightarrow>
     (case slice_field step_of ''steps'' kvs of None \<Rightarrow> None | Some steps \<Rightarrow> Some \<lparr>sn_Name = name, sn_Steps = steps\<rparr>)))"

definition encodeScenarios :: "Scenario list \<Rightarrow> string" where
  "encodeScenarios ss = (if ss = [] then [] else encode (JArr (map scenarioJSON ss)))"

definition decodeScenarios :: "string \<Rightarrow> Scenario list" where
  "decodeScenarios = decode_list scenario_of"

section \<open>Requirement ids\<close>

type_synonym ridMinter = "(string \<times> nat) list"

definition mint :: "ridMinter \<Rightarrow> string \<Rightarrow> string \<times> ridMinter" where
  "mint seen name =
     (let base0 = Slugify name;
          base = (if base0 = [] then ''requirement'' else base0);
          n = (case gm_get seen base of None \<Rightarrow> 0 | Some n \<Rightarrow> n)
      in (if n = 0 then base else base @ ''-'' @ Itoa (int (n + 1)), gm_put base (n + 1) seen))"

section \<open>Specifications\<close>

definition requirementFacts :: "string \<Rightarrow> Requirement \<Rightarrow> nat \<Rightarrow> Fact list" where
  "requirementFacts pre r pos =
     add (pre @ keyName) (r_Name r) @ add (pre @ keyStatement) (r_Statement r) @
     add (pre @ keyScenarios) (encodeScenarios (r_Scenarios r)) @ addRaw (pre @ keyPosition) (Itoa (int pos))"

definition requirementFromIndex :: "(string \<times> string) list \<Rightarrow> string \<Rightarrow> Requirement" where
  "requirementFromIndex idx pre =
     \<lparr>r_Name = ix idx (pre @ keyName), r_Statement = ix idx (pre @ keyStatement),
      r_Scenarios = decodeScenarios (ix idx (pre @ keyScenarios))\<rparr>"

text \<open>
  A loop that mints an id and a position for each element: what it appends, and the minter and the
  position after it.
\<close>

fun each_minted :: "('a \<Rightarrow> string) \<Rightarrow> (string \<Rightarrow> 'a \<Rightarrow> nat \<Rightarrow> Fact list) \<Rightarrow> ridMinter \<Rightarrow> nat \<Rightarrow> 'a list \<Rightarrow> Fact list \<times> ridMinter \<times> nat" where
  "each_minted name emit seen pos [] = ([], seen, pos)"
| "each_minted name emit seen pos (x # xs) =
     (let (rid, seen1) = mint seen (name x); (fs, rest) = each_minted name emit seen1 (Suc pos) xs
      in (emit rid x pos @ fs, rest))"

definition spec_Facts :: "Spec \<Rightarrow> Fact list" where
  "spec_Facts s =
     (let base = specPrefix @ sp_Capability s @ ''.'' in
      add (base @ keyTitle) (sp_Title s) @ add (base @ keyPurpose) (sp_Purpose s) @
      fst (each_minted r_Name (\<lambda>rid r i. requirementFacts (base @ segRequirement @ ''.'' @ rid @ ''.'') r i) [] 0 (sp_Requirements s)))"

definition SpecFromFacts :: "(string list \<Rightarrow> string list) \<Rightarrow> string \<Rightarrow> Fact list \<Rightarrow> Spec" where
  "SpecFromFacts ord capability facts =
     (let idx = indexFacts facts;
          base = specPrefix @ capability @ ''.'';
          reqPrefix = base @ segRequirement @ ''.''
      in \<lparr>sp_Capability = capability, sp_Title = ix idx (base @ keyTitle), sp_Purpose = ix idx (base @ keyPurpose),
          sp_Requirements = map (\<lambda>rid. requirementFromIndex idx (reqPrefix @ rid @ ''.'')) (childKeys ord idx reqPrefix),
          sp_Warnings = []\<rparr>)"

section \<open>Looking facts up\<close>

text \<open>
  Facts as the key-value pairs a writer means to store, of which the empty values are not stored: every
  pair can be looked up, in whatever order the facts are kept and whatever else is kept with them.
\<close>

definition facts_of :: "(string \<times> string) list \<Rightarrow> Fact list" where
  "facts_of P = map (\<lambda>(k, v). \<lparr>ft_Predicate = k, ft_Object = v\<rparr>) (filter (\<lambda>kv. snd kv \<noteq> []) P)"

definition kept_in :: "string \<Rightarrow> Fact list \<Rightarrow> Fact list \<Rightarrow> bool" where
  "kept_in base mine facts \<longleftrightarrow> mset (filter (\<lambda>f. HasPrefix (ft_Predicate f) base) facts) = mset mine"

lemma facts_of_simps [simp]:
  "facts_of [] = []" "facts_of (P @ Q) = facts_of P @ facts_of Q" "facts_of (kv # P) = add (fst kv) (snd kv) @ facts_of P"
  by (simp_all add: facts_of_def add_def split: prod.split)

lemma facts_of_concat: "facts_of (concat Ps) = concat (map facts_of Ps)"
  by (induction Ps) simp_all

lemma addRaw_add: "object \<noteq> [] \<Longrightarrow> addRaw predicate object = add predicate object"
  by (simp add: addRaw_def add_def)

abbreviation pair_of :: "Fact \<Rightarrow> string \<times> string" where
  "pair_of f \<equiv> (ft_Predicate f, ft_Object f)"

lemma get_indexFacts_loop:
  "gm_get (indexFacts_loop idx fs) k = (case gm_get idx k of Some v \<Rightarrow> Some v | None \<Rightarrow> gm_get (map pair_of fs) k)"
  by (induction fs arbitrary: idx) (auto simp: go_map split: option.splits)

lemma get_indexFacts: "gm_get (indexFacts facts) k = gm_get (map pair_of facts) k"
  by (simp add: indexFacts_def get_indexFacts_loop)

lemma distinct_indexFacts: "distinct (gm_keys (indexFacts facts))"
proof -
  have "distinct (gm_keys idx) \<Longrightarrow> distinct (gm_keys (indexFacts_loop idx facts))" for idx
    by (induction facts arbitrary: idx) (auto intro: distinct_update)
  then show ?thesis by (simp add: indexFacts_def)
qed

lemma set_indexFacts: "set (gm_keys (indexFacts facts)) = ft_Predicate ` set facts"
proof -
  have "k \<in> set (gm_keys (indexFacts facts)) \<longleftrightarrow> k \<in> ft_Predicate ` set facts" for k
    using map_of_eq_None_iff [of "indexFacts facts" k] map_of_eq_None_iff [of "map pair_of facts" k]
    by (simp add: get_indexFacts image_image)
  then show ?thesis by blast
qed

lemma pairs_facts_of: "map pair_of (facts_of P) = filter (\<lambda>kv. snd kv \<noteq> []) P"
  by (simp add: facts_of_def case_prod_beta comp_def)

lemma kept_set: "kept_in base (facts_of P) facts \<Longrightarrow> {f \<in> set facts. HasPrefix (ft_Predicate f) base} = set (facts_of P)"
  unfolding kept_in_def by (drule arg_cong [of _ _ set_mset]) simp

lemma ix_kept:
  assumes "(k, v) \<in> set P" "HasPrefix k base" "distinct (gm_keys P)" "kept_in base (facts_of P) facts"
  shows "ix (indexFacts facts) k = v"
proof -
  define F where "F = filter (\<lambda>f. HasPrefix (ft_Predicate f) base) facts"
  have "gm_get (map pair_of facts) k = gm_get (map pair_of F) k"
    unfolding F_def using assms(2) by (induction facts) auto
  also have "\<dots> = gm_get (filter (\<lambda>kv. snd kv \<noteq> []) P) k"
  proof (rule fun_cong, subst map_of_inject_set)
    have d: "distinct (gm_keys (filter (\<lambda>kv. snd kv \<noteq> []) P))" using assms(3) by (simp add: distinct_map_filter)
    then show "distinct (gm_keys (filter (\<lambda>kv. snd kv \<noteq> []) P))" .
    have m: "mset (map pair_of F) = mset (filter (\<lambda>kv. snd kv \<noteq> []) P)"
      using assms(4) unfolding kept_in_def F_def [symmetric] mset_map pairs_facts_of [symmetric] by simp
    then show "set (map pair_of F) = set (filter (\<lambda>kv. snd kv \<noteq> []) P)" by (rule mset_eq_setD)
    have "mset (gm_keys (map pair_of F)) = mset (gm_keys (filter (\<lambda>kv. snd kv \<noteq> []) P))"
      using arg_cong [OF m, of "image_mset fst"] by (simp only: mset_map)
    with d show "distinct (gm_keys (map pair_of F))" using mset_eq_imp_distinct_iff by blast
  qed
  also have "\<dots> = (if v = [] then None else Some v)"
  proof (cases "v = []")
    case True
    then have "k \<notin> fst ` set (filter (\<lambda>kv. snd kv \<noteq> []) P)"
      using True assms(1) eq_key_imp_eq_value [OF assms(3)] by fastforce
    then show ?thesis using True by (simp add: map_of_eq_None_iff)
  next
    case False
    then show ?thesis using assms(1,3) by (simp add: distinct_map_filter)
  qed
  finally show ?thesis by (simp add: ix_def get_indexFacts)
qed

lemma keys_kept:
  assumes "HasPrefix k base" "kept_in base (facts_of P) facts"
  shows "k \<in> set (gm_keys (indexFacts facts)) \<longleftrightarrow> (\<exists>v. (k, v) \<in> set P \<and> v \<noteq> [])"
proof -
  have "k \<in> set (gm_keys (indexFacts facts)) \<longleftrightarrow> k \<in> ft_Predicate ` set (facts_of P)"
    unfolding set_indexFacts kept_set [OF assms(2), symmetric] using assms(1) by auto
  also have "\<dots> \<longleftrightarrow> (\<exists>v. (k, v) \<in> set P \<and> v \<noteq> [])" by (force simp: facts_of_def)
  finally show ?thesis .
qed

section \<open>Children in order of position\<close>

lemma cut_dot_segment: "dot \<notin> set n \<Longrightarrow> n \<noteq> [] \<Longrightarrow> cut_dot (n @ dot # tail) = Some (n, tail)"
proof -
  assume n: "dot \<notin> set n" "n \<noteq> []"
  then have "takeWhile (\<lambda>c. c \<noteq> dot) (n @ dot # tail) = n" by (subst takeWhile_append2) auto
  with n show ?thesis by (simp add: cut_dot_def)
qed

definition segments :: "string set \<Rightarrow> bool" where
  "segments R \<longleftrightarrow> (\<forall>n \<in> R. n \<noteq> [] \<and> dot \<notin> set n)"

lemma child_loop_positions:
  assumes "segments R" "\<forall>n \<in> R. Atoi (ix idx (pre @ n @ dot # keyPosition)) = (pos n, True)"
    "\<forall>k \<in> set keys. HasPrefix k pre \<longrightarrow> (\<exists>n \<in> R. \<exists>tail. k = pre @ n @ dot # tail)"
    "distinct (gm_keys order)" "set (gm_keys order) \<subseteq> R"
  shows "distinct (gm_keys (child_loop idx pre order keys)) \<and> set (gm_keys (child_loop idx pre order keys)) \<subseteq> R \<and>
     (\<forall>n \<in> R. gm_get order n = Some (pos n) \<or> pre @ n @ dot # keyPosition \<in> set keys \<longrightarrow>
        gm_get (child_loop idx pre order keys) n = Some (pos n))"
  using assms(3-5)
proof (induction keys arbitrary: order)
  case (Cons key keys)
  show ?case
  proof (cases "HasPrefix key pre")
    case False
    then have "child_loop idx pre order (key # keys) = child_loop idx pre order keys"
      and "\<forall>n. pre @ n @ dot # keyPosition \<noteq> key" by auto
    then show ?thesis using Cons.IH [OF _ Cons.prems(2,3)] Cons.prems(1) by (simp only: list.set insert_iff) blast
  next
    case True
    then obtain m tail where m: "m \<in> R" "key = pre @ m @ dot # tail" using Cons.prems(1) by auto
    have cut: "cut_dot (drop (length pre) key) = Some (m, tail)"
      using m assms(1) by (simp add: segments_def cut_dot_segment)
    define order1 where "order1 = (if gm_get order m = None then order @ [(m, noPos)] else order)"
    define order2 where "order2 = (if tail = keyPosition \<and> snd (Atoi (ix idx key)) then gm_put m (fst (Atoi (ix idx key))) order1 else order1)"
    have run: "child_loop idx pre order (key # keys) = child_loop idx pre order2 keys"
      using True by (simp add: cut order1_def order2_def case_prod_beta Let_def)
    have at: "tail = keyPosition \<Longrightarrow> Atoi (ix idx key) = (pos m, True)" using assms(2) m by simp
    have get1: "gm_get order1 n = (if gm_get order m = None \<and> n = m then Some noPos else gm_get order n)" for n
      by (auto simp: order1_def map_add_def split: option.split)
    have get2: "gm_get order2 n = (if tail = keyPosition \<and> n = m then Some (pos m) else gm_get order1 n)" for n
      using at by (auto simp: order2_def go_map)
    have "distinct (gm_keys order1)" "set (gm_keys order1) \<subseteq> R"
      using Cons.prems(2,3) m(1) by (auto simp: order1_def map_of_eq_None_iff)
    then have 2: "distinct (gm_keys order2)" "set (gm_keys order2) \<subseteq> R"
      using m(1) by (auto simp: order2_def go_map simp del: set_map)
    have "gm_get order n = Some (pos n) \<or> pre @ n @ dot # keyPosition = key \<Longrightarrow> gm_get order2 n = Some (pos n)" if "n \<in> R" for n
    proof -
      assume "gm_get order n = Some (pos n) \<or> pre @ n @ dot # keyPosition = key"
      moreover have "pre @ n @ dot # keyPosition = key \<Longrightarrow> n = m \<and> tail = keyPosition"
        using m assms(1) that cut_dot_segment [of n keyPosition] cut by (auto simp: segments_def)
      ultimately show ?thesis using get1 get2 by (auto split: if_splits)
    qed
    then show ?thesis
      using Cons.IH [OF _ 2] Cons.prems(1) unfolding run by (simp only: list.set insert_iff) blast
  qed
qed simp

text \<open>Children whose positions increase come back in that order, whatever order the map is walked in.\<close>

lemma childKeys_positions:
  assumes "\<And>ks. mset (ord ks) = mset ks" "segments (set rs)" "distinct rs" "sorted_wrt (<) (map pos rs)"
    "\<forall>n \<in> set rs. Atoi (ix idx (pre @ n @ dot # keyPosition)) = (pos n, True)"
    "\<forall>k \<in> set (gm_keys idx). HasPrefix k pre \<longrightarrow> (\<exists>n \<in> set rs. \<exists>tail. k = pre @ n @ dot # tail)"
    "\<forall>n \<in> set rs. pre @ n @ dot # keyPosition \<in> set (gm_keys idx)"
  shows "childKeys ord idx pre = rs"
proof -
  have keys: "set (ord (gm_keys idx)) = set (gm_keys idx)" using mset_eq_setD [OF assms(1)] .
  define acc where "acc = child_loop idx pre [] (ord (gm_keys idx))"
  have acc: "distinct (gm_keys acc)" "set (gm_keys acc) \<subseteq> set rs" "\<forall>n \<in> set rs. gm_get acc n = Some (pos n)"
    using child_loop_positions [of "set rs" idx pre pos "ord (gm_keys idx)" "[]"] assms(2,5-7) keys
    unfolding acc_def by auto
  have "set acc = set (map (\<lambda>n. (n, pos n)) rs)"
  proof (intro equalityI subsetI)
    fix x assume "x \<in> set acc"
    then have "fst x \<in> set rs" "gm_get acc (fst x) = Some (snd x)" using acc(1,2) by auto
    then show "x \<in> set (map (\<lambda>n. (n, pos n)) rs)" using acc(3) by (cases x) auto
  next
    fix x assume "x \<in> set (map (\<lambda>n. (n, pos n)) rs)"
    then show "x \<in> set acc" using acc(3) map_of_SomeD by fastforce
  qed
  moreover have "distinct acc" using acc(1) by (simp add: distinct_map)
  moreover have "distinct (map (\<lambda>n. (n, pos n)) rs)" using assms(3) by (simp add: distinct_map inj_on_def)
  ultimately have "mset acc = mset (map (\<lambda>n. (n, pos n)) rs)" using set_eq_iff_mset_eq_distinct by blast
  moreover have "sorted (map (\<lambda>(name, pos). (pos, name)) (map (\<lambda>n. (n, pos n)) rs))"
    using assms(4) by (induction rs) (auto simp: less_eq_prod_def less_imp_le)
  ultimately have "sort_key (\<lambda>(name, pos). (pos, name)) acc = map (\<lambda>n. (n, pos n)) rs"
    by (intro sort_key_inj_key_eq) (auto simp: inj_on_def)
  then show ?thesis by (simp add: childKeys_def acc_def comp_def)
qed

section \<open>Codecs round-trip\<close>

lemma encode_neq_Nil [simp]: "encode v \<noteq> []"
  by (rule encode_head [of v]) simp

lemma decode_list_encode:
  assumes "\<And>x. x \<in> set xs \<Longrightarrow> elem (read_back (enc x)) = Some x" "\<And>x. x \<in> set xs \<Longrightarrow> nests (max_depth - 1) (enc x)"
  shows "decode_list elem (if xs = [] then [] else encode (JArr (map enc xs))) = xs"
  using slice_of_read_back [of xs elem enc] assms parse_encode [of "JArr (map enc xs)"]
  by (auto simp: decode_list_def simp del: encode.simps read_back.simps)

lemma decodeStrings_encode [simp]: "decodeStrings (encodeStrings ss) = ss"
  unfolding decodeStrings_def encodeStrings_def by (rule decode_list_encode) simp_all

lemmas field_defs = fields_of_def string_field_def slice_field_def slice_of_def omit_def EqualFold_def ToLower_def lower_byte_def is_upper_alpha_def byte_val_def

lemma step_of_JSON: "step_of (read_back (stepJSON st)) = Some st"
  by (cases st) (simp add: stepJSON_def step_of_def field_defs)

lemma scenario_of_JSON: "scenario_of (read_back (scenarioJSON s)) = Some s"
proof -
  have "those (map (step_of \<circ> (read_back \<circ> stepJSON)) (sn_Steps s)) = Some (sn_Steps s)"
    using those_map [of "sn_Steps s" "step_of \<circ> (read_back \<circ> stepJSON)" id] by (simp add: step_of_JSON)
  then show ?thesis
    by (cases s) (simp add: scenarioJSON_def scenario_of_def field_defs comp_def)
qed

lemma nests_scenario: "nests (max_depth - 1) (scenarioJSON s)"
  by (auto simp: scenarioJSON_def stepJSON_def omit_def)

lemma decodeScenarios_encode [simp]: "decodeScenarios (encodeScenarios ss) = ss"
  unfolding decodeScenarios_def encodeScenarios_def by (rule decode_list_encode) (rule scenario_of_JSON nests_scenario)+

section \<open>Minted ids\<close>

fun rids :: "ridMinter \<Rightarrow> string list \<Rightarrow> string list" where
  "rids seen [] = []"
| "rids seen (n # ns) = fst (mint seen n) # rids (snd (mint seen n)) ns"

lemma length_rids [simp]: "length (rids seen ns) = length ns"
  by (induction ns arbitrary: seen) simp_all

lemma Itoa_nat: "Itoa (int n) = nat_str n"
  by (simp add: Itoa_def)

lemma Slugify_no_dot: "dot \<notin> set (Slugify s)"
proof
  assume "dot \<in> set (Slugify s)"
  then have "lower_kebab (Slugify s)" using Slugify_kebab [of s] by auto
  with \<open>dot \<in> set (Slugify s)\<close> show False
    by (auto simp: lower_kebab_def list_all_iff kebab_char_def byte_class_defs byte_val_def)
qed

lemma nat_str_no_dot: "dot \<notin> set (nat_str n)"
  using nat_str_digits [of dot n] by (auto simp: is_digit_def byte_val_def)

lemma segments_rids: "segments (set (rids seen ns))"
proof -
  have "fst (mint seen n) \<noteq> [] \<and> dot \<notin> set (fst (mint seen n))" for seen n
    using Slugify_no_dot [of n] nat_str_no_dot [of "Suc (the (gm_get seen (if Slugify n = [] then ''requirement'' else Slugify n)))"]
    by (auto simp: mint_def Let_def Itoa_nat [of "Suc _", simplified] split: option.splits)
  then show ?thesis by (induction ns arbitrary: seen) (auto simp: segments_def)
qed

section \<open>The facts of a specification as pairs\<close>

definition req_pairs :: "string \<Rightarrow> Requirement \<Rightarrow> nat \<Rightarrow> (string \<times> string) list" where
  "req_pairs pre r pos =
     [(pre @ keyName, r_Name r), (pre @ keyStatement, r_Statement r),
      (pre @ keyScenarios, encodeScenarios (r_Scenarios r)), (pre @ keyPosition, Itoa (int pos))]"

lemma Itoa_neq_Nil [simp]: "Itoa i \<noteq> []"
  by (simp add: Itoa_def)

lemma requirementFacts_pairs: "requirementFacts pre r pos = facts_of (req_pairs pre r pos)"
  by (simp add: requirementFacts_def req_pairs_def addRaw_add)

text \<open>Each element with its id and its position.\<close>

definition numbered :: "ridMinter \<Rightarrow> ('a \<Rightarrow> string) \<Rightarrow> nat \<Rightarrow> 'a list \<Rightarrow> (string \<times> nat \<times> 'a) list" where
  "numbered seen name pos xs = zip (rids seen (map name xs)) (zip [pos..<pos + length xs] xs)"

lemma numbered_Cons:
  "numbered seen name pos (x # xs) =
     (fst (mint seen (name x)), pos, x) # numbered (snd (mint seen (name x))) name (Suc pos) xs"
  by (simp add: numbered_def upt_conv_Cons del: upt_Suc)

lemma map_numbered:
  "map fst (numbered seen name pos xs) = rids seen (map name xs)"
  "map (snd \<circ> snd) (numbered seen name pos xs) = xs"
  "map (fst \<circ> snd) (numbered seen name pos xs) = [pos..<pos + length xs]"
  unfolding numbered_def by (simp_all add: map_fst_zip map_snd_zip flip: map_map)

fun seen_after :: "ridMinter \<Rightarrow> string list \<Rightarrow> ridMinter" where
  "seen_after seen [] = seen"
| "seen_after seen (n # ns) = seen_after (snd (mint seen n)) ns"

lemma each_minted_numbered:
  "each_minted name emit seen pos xs =
     (concat (map (\<lambda>(rid, i, x). emit rid x i) (numbered seen name pos xs)),
      seen_after seen (map name xs), pos + length xs)"
proof (induction xs arbitrary: seen pos)
  case (Cons x xs)
  then show ?case by (simp add: numbered_Cons case_prod_beta)
qed (simp add: numbered_def)

definition spec_pairs :: "Spec \<Rightarrow> (string \<times> string) list" where
  "spec_pairs s =
     (let base = specPrefix @ sp_Capability s @ ''.'' in
      [(base @ keyTitle, sp_Title s), (base @ keyPurpose, sp_Purpose s)] @
      concat (map (\<lambda>(rid, i, r). req_pairs (base @ segRequirement @ ''.'' @ rid @ ''.'') r i)
        (numbered [] r_Name 0 (sp_Requirements s))))"

lemma spec_Facts_pairs: "spec_Facts s = facts_of (spec_pairs s)"
  by (simp add: spec_Facts_def spec_pairs_def each_minted_numbered requirementFacts_pairs facts_of_concat Let_def comp_def case_prod_unfold)

text \<open>Keys under different ids, or with different fields, are different.\<close>

lemma segment_key_inject:
  "dot \<notin> set n \<Longrightarrow> dot \<notin> set m \<Longrightarrow> n @ dot # f = m @ dot # g \<longleftrightarrow> n = m \<and> f = g"
  by (auto simp: append_eq_append_conv2 append_eq_Cons_conv Cons_eq_append_conv)

lemma distinct_segment_keys:
  assumes "segments (fst ` set xs)" "distinct (map fst xs)" "\<And>x. x \<in> set xs \<Longrightarrow> distinct (tails x)"
  shows "distinct (concat (map (\<lambda>x. map (\<lambda>f. pre @ fst x @ dot # f) (tails x)) xs))"
  using assms
proof (induction xs)
  case (Cons x xs)
  have "distinct (map (\<lambda>f. pre @ fst x @ dot # f) (tails x))"
    using Cons.prems(3) by (simp add: distinct_map inj_on_def)
  moreover have "pre @ fst x @ dot # f \<noteq> pre @ fst y @ dot # g" if "y \<in> set xs" for f g y
    using Cons.prems(1,2) that segment_key_inject [of "fst x" "fst y" f g] by (auto simp: segments_def rev_image_eqI)
  ultimately show ?case using Cons by (auto simp: segments_def)
qed simp

lemma distinct_spec_pairs:
  assumes "distinct (rids [] (map r_Name (sp_Requirements s)))"
  shows "distinct (gm_keys (spec_pairs s))"
proof -
  define pre where "pre = specPrefix @ sp_Capability s @ ''.'' @ segRequirement @ ''.''"
  let ?xs = "numbered [] r_Name 0 (sp_Requirements s)"
  have "distinct (concat (map (\<lambda>x. map (\<lambda>f. pre @ fst x @ dot # f) [keyName, keyStatement, keyScenarios, keyPosition]) ?xs))"
    using assms segments_rids [of "[]" "map r_Name (sp_Requirements s)"]
    by (intro distinct_segment_keys) (simp_all add: map_numbered key_defs flip: set_map)
  moreover have "gm_keys (spec_pairs s) =
     [specPrefix @ sp_Capability s @ ''.'' @ keyTitle, specPrefix @ sp_Capability s @ ''.'' @ keyPurpose] @
     concat (map (\<lambda>x. map (\<lambda>f. pre @ fst x @ dot # f) [keyName, keyStatement, keyScenarios, keyPosition]) ?xs)"
    by (simp add: spec_pairs_def Let_def map_concat req_pairs_def pre_def case_prod_unfold comp_def)
  ultimately show ?thesis by (auto simp: pre_def key_defs)
qed

section \<open>Specifications round-trip\<close>

lemma requirement_read_back:
  assumes "set (req_pairs pre r i) \<subseteq> set P" "HasPrefix pre base" "distinct (gm_keys P)" "kept_in base (facts_of P) facts"
  shows "requirementFromIndex (indexFacts facts) pre = r" "ix (indexFacts facts) (pre @ keyPosition) = Itoa (int i)"
proof -
  have get: "ix (indexFacts facts) (pre @ k) = v" if "(pre @ k, v) \<in> set (req_pairs pre r i)" for k v
    using ix_kept [of "pre @ k" v P base facts] that assms by (auto simp: HasPrefix_iff)
  have "ix (indexFacts facts) (pre @ keyName) = r_Name r" "ix (indexFacts facts) (pre @ keyStatement) = r_Statement r"
    "ix (indexFacts facts) (pre @ keyScenarios) = encodeScenarios (r_Scenarios r)"
    by (rule get, simp add: req_pairs_def)+
  then show "requirementFromIndex (indexFacts facts) pre = r" by (simp add: requirementFromIndex_def)
  show "ix (indexFacts facts) (pre @ keyPosition) = Itoa (int i)" by (rule get) (simp add: req_pairs_def)
qed

lemma req_pairs_key: "(k, v) \<in> set (req_pairs (pre @ rid @ ''.'') r i) \<Longrightarrow> \<exists>tail. k = pre @ rid @ dot # tail"
  by (auto simp: req_pairs_def)

lemma clamp64_nat: "n < 2 ^ 63 \<Longrightarrow> clamp64 (int n) = int n"
  by (simp add: clamp64_def)

lemma numbered_bounds: "(rid, i, x) \<in> set (numbered seen name pos xs) \<Longrightarrow> pos \<le> i \<and> i < pos + length xs \<and> x \<in> set xs"
proof -
  assume "(rid, i, x) \<in> set (numbered seen name pos xs)"
  then have "(i, x) \<in> set (zip [pos..<pos + length xs] xs)" unfolding numbered_def by (rule set_zip_rightD)
  then have "i \<in> set [pos..<pos + length xs]" "x \<in> set xs" by (rule set_zip_leftD, rule set_zip_rightD)
  then show ?thesis by simp
qed

lemma childKeys_numbered:
  assumes "\<And>ks. mset (ord ks) = mset ks" "xs = numbered [] name 0 ys" "distinct (map fst xs)" "length ys < 2 ^ 63"
    "\<And>rid i y. (rid, i, y) \<in> set xs \<Longrightarrow> ix idx (pre @ rid @ dot # keyPosition) = Itoa (int i)"
    "\<And>k. k \<in> set (gm_keys idx) \<Longrightarrow> HasPrefix k pre \<Longrightarrow> \<exists>n \<in> fst ` set xs. \<exists>tail. k = pre @ n @ dot # tail"
  shows "childKeys ord idx pre = map fst xs"
proof (rule childKeys_positions [where pos = "\<lambda>n. int (the (map_of (zip (map fst xs) [0..<length ys]) n))"])
  let ?rs = "map fst xs" and ?pos = "\<lambda>n. int (the (map_of (zip (map fst xs) [0..<length ys]) n))"
  have len: "length xs = length ys" unfolding assms(2) numbered_def by simp
  have snd_xs: "map (fst \<circ> snd) xs = [0..<length ys]" using map_numbered(3) [of "[]" name 0 ys] assms(2) by simp
  have pos: "?pos rid = int i" if m: "(rid, i, y) \<in> set xs" for rid i y
  proof -
    obtain j where j: "j < length xs" "xs ! j = (rid, i, y)" using m unfolding in_set_conv_nth by blast
    then have "?rs ! j = rid" "[0..<length ys] ! j = i"
      using arg_cong [OF snd_xs, of "\<lambda>l. l ! j"] by simp_all
    then show ?thesis using map_of_zip_nth [of ?rs "[0..<length ys]" j] assms(3) len j(1) by simp
  qed
  show "mset (ord ks) = mset ks" for ks by (rule assms(1))
  show "segments (set ?rs)" using segments_rids [of "[]" "map name ys"] by (simp add: assms(2) map_numbered flip: set_map)
  show "distinct ?rs" by (rule assms(3))
  have "map ?pos ?rs = map int (map (fst \<circ> snd) xs)" using pos by auto
  then have "map ?pos ?rs = map int [0..<length ys]" by (simp only: snd_xs)
  then show "sorted_wrt (<) (map ?pos ?rs)" by (simp add: sorted_wrt_map)
  have at: "Atoi (ix idx (pre @ fst x @ dot # keyPosition)) = (?pos (fst x), True)" if x: "x \<in> set xs" for x
  proof -
    obtain rid i y where x': "x = (rid, i, y)" by (cases x)
    have "i < 2 ^ 63" using numbered_bounds [of rid i y] x x' assms(2,4) by fastforce
    then show ?thesis using assms(5) pos x x' by (simp add: Atoi_Itoa clamp64_nat)
  qed
  then show "\<forall>n \<in> set ?rs. Atoi (ix idx (pre @ n @ dot # keyPosition)) = (?pos n, True)" by simp
  show "\<forall>k \<in> set (gm_keys idx). HasPrefix k pre \<longrightarrow> (\<exists>n \<in> set ?rs. \<exists>tail. k = pre @ n @ dot # tail)"
    using assms(6) by auto
  have "gm_get idx (pre @ fst x @ dot # keyPosition) \<noteq> None" if "x \<in> set xs" for x
  proof
    assume "gm_get idx (pre @ fst x @ dot # keyPosition) = None"
    then show False using at [OF that] by (simp add: ix_def Atoi_def)
  qed
  then show "\<forall>n \<in> set ?rs. pre @ n @ dot # keyPosition \<in> set (gm_keys idx)"
    by (auto simp: map_of_eq_None_iff)
qed

text \<open>
  A writer may keep further facts: any under other subjects, and under the ids of the specification's own
  requirements any field but the four of the format, as the lifecycle status of a requirement is.
\<close>

definition beside_spec :: "Spec \<Rightarrow> string \<Rightarrow> bool" where
  "beside_spec s k \<longleftrightarrow>
     (let base = specPrefix @ sp_Capability s @ ''.''; pre = base @ segRequirement @ ''.'' in
      (\<not> HasPrefix k pre \<and> k \<noteq> base @ keyTitle \<and> k \<noteq> base @ keyPurpose) \<or>
      (\<exists>rid \<in> set (rids [] (map r_Name (sp_Requirements s))). \<exists>field.
         k = pre @ rid @ dot # field \<and> field \<notin> {keyName, keyStatement, keyScenarios, keyPosition}))"

lemma spec_pairs_key:
  assumes "(k, v) \<in> set (spec_pairs s)"
  shows "k = specPrefix @ sp_Capability s @ ''.'' @ keyTitle \<or> k = specPrefix @ sp_Capability s @ ''.'' @ keyPurpose \<or>
    (\<exists>rid \<in> set (rids [] (map r_Name (sp_Requirements s))). \<exists>field \<in> {keyName, keyStatement, keyScenarios, keyPosition}.
       k = specPrefix @ sp_Capability s @ ''.'' @ segRequirement @ ''.'' @ rid @ dot # field)"
proof -
  let ?xs = "numbered [] r_Name 0 (sp_Requirements s)"
  have "rid \<in> set (rids [] (map r_Name (sp_Requirements s)))" if "(rid, x) \<in> set ?xs" for rid x
    using that map_numbered(1) [of "[]" r_Name 0 "sp_Requirements s"] by (metis fst_conv image_eqI list.set_map)
  then show ?thesis using assms by (fastforce simp: spec_pairs_def req_pairs_def Let_def)
qed

lemma beside_spec_not_key:
  assumes "beside_spec s k" shows "k \<notin> set (gm_keys (spec_pairs s))"
proof
  assume "k \<in> set (gm_keys (spec_pairs s))"
  then obtain v where "(k, v) \<in> set (spec_pairs s)" by auto
  note key = spec_pairs_key [OF this]
  have nodot: "dot \<notin> set rid" if "rid \<in> set (rids [] ns)" for rid ns
    using segments_rids [of "[]" ns] that by (auto simp: segments_def)
  from key assms show False
    by (auto simp: beside_spec_def Let_def HasPrefix_iff segment_key_inject nodot) (auto simp: key_defs)
qed

text \<open>What is looked up, when the earliest fact under each key is the specification's own.\<close>

lemma ix_spec:
  assumes "(k, v) \<in> set (spec_pairs s)" "distinct (gm_keys (spec_pairs s))"
    "\<forall>f \<in> set (spec_Facts s). gm_get (map pair_of facts) (ft_Predicate f) = Some (ft_Object f)"
    "\<forall>f \<in> set facts. ft_Predicate f \<in> ft_Predicate ` set (spec_Facts s) \<or> beside_spec s (ft_Predicate f)"
  shows "ix (indexFacts facts) k = v"
proof (cases "v = []")
  case False
  then have "\<lparr>ft_Predicate = k, ft_Object = v\<rparr> \<in> set (spec_Facts s)"
    using assms(1) by (force simp: spec_Facts_pairs facts_of_def)
  with assms(3) show ?thesis by (auto simp: ix_def get_indexFacts)
next
  case True
  have "k \<notin> ft_Predicate ` set facts"
  proof
    assume "k \<in> ft_Predicate ` set facts"
    moreover have "\<not> beside_spec s k" using beside_spec_not_key assms(1) by force
    ultimately obtain v' where "(k, v') \<in> set (spec_pairs s)" "v' \<noteq> []"
      using assms(4) by (auto simp: spec_Facts_pairs facts_of_def)
    then show False using True assms(1) eq_key_imp_eq_value [OF assms(2)] by blast
  qed
  then show ?thesis using True map_of_eq_None_iff [of "map pair_of facts" k]
    by (simp add: ix_def get_indexFacts image_image)
qed

text \<open>
  C8. A specification survives the graph. Its facts may be stored in any order, more than once, and among
  other facts: those of other subjects, later facts under its own keys, and further fields under the ids
  of its own requirements, such as their lifecycle status. As long as the earliest fact under each of
  its keys is its own, reading the facts back gives the specification, less its diagnostics, however
  the index is walked, provided the ids minted for its requirements differ.
\<close>

theorem SpecFromFacts_roundtrip:
  assumes "\<And>ks. mset (ord ks) = mset ks"
    "\<forall>f \<in> set (spec_Facts s). gm_get (map pair_of facts) (ft_Predicate f) = Some (ft_Object f)"
    "\<forall>f \<in> set facts. ft_Predicate f \<in> ft_Predicate ` set (spec_Facts s) \<or> beside_spec s (ft_Predicate f)"
    "distinct (rids [] (map r_Name (sp_Requirements s)))" "length (sp_Requirements s) < 2 ^ 63"
  shows "SpecFromFacts ord (sp_Capability s) facts = s\<lparr>sp_Warnings := []\<rparr>"
proof -
  define base where "base = specPrefix @ sp_Capability s @ ''.''"
  define pre where "pre = base @ segRequirement @ ''.''"
  define xs where "xs = numbered [] r_Name 0 (sp_Requirements s)"
  have P_eq: "spec_pairs s = [(base @ keyTitle, sp_Title s), (base @ keyPurpose, sp_Purpose s)] @
      concat (map (\<lambda>(rid, i, r). req_pairs (pre @ rid @ ''.'') r i) xs)"
    by (simp add: spec_pairs_def base_def pre_def xs_def Let_def)
  have ids: "fst ` set xs = set (rids [] (map r_Name (sp_Requirements s)))"
    by (simp add: xs_def map_numbered flip: set_map)
  note look = ix_spec [OF _ distinct_spec_pairs [OF assms(4)] assms(2,3)]
  have top: "ix (indexFacts facts) (base @ keyTitle) = sp_Title s" "ix (indexFacts facts) (base @ keyPurpose) = sp_Purpose s"
    by (rule look; simp add: P_eq)+
  have field: "ix (indexFacts facts) k = v" if "(rid, i, r) \<in> set xs" "(k, v) \<in> set (req_pairs (pre @ rid @ ''.'') r i)" for rid i r k v
    by (rule look) (use that in \<open>force simp: P_eq\<close>)
  have req: "requirementFromIndex (indexFacts facts) (pre @ rid @ ''.'') = r"
    "ix (indexFacts facts) (pre @ rid @ dot # keyPosition) = Itoa (int i)" if "(rid, i, r) \<in> set xs" for rid i r
  proof -
    have "ix (indexFacts facts) ((pre @ rid @ ''.'') @ keyName) = r_Name r"
      "ix (indexFacts facts) ((pre @ rid @ ''.'') @ keyStatement) = r_Statement r"
      "ix (indexFacts facts) ((pre @ rid @ ''.'') @ keyScenarios) = encodeScenarios (r_Scenarios r)"
      "ix (indexFacts facts) ((pre @ rid @ ''.'') @ keyPosition) = Itoa (int i)"
      by (rule field [OF that], simp add: req_pairs_def)+
    then show "requirementFromIndex (indexFacts facts) (pre @ rid @ ''.'') = r"
      "ix (indexFacts facts) (pre @ rid @ dot # keyPosition) = Itoa (int i)"
      by (cases r; simp add: requirementFromIndex_def)+
  qed
  have "childKeys ord (indexFacts facts) pre = map fst xs"
  proof (rule childKeys_numbered [OF assms(1) xs_def _ assms(5) req(2)])
    show "distinct (map fst xs)" using assms(4) by (simp add: xs_def map_numbered)
    fix k assume k: "k \<in> set (gm_keys (indexFacts facts))" "HasPrefix k pre"
    have "\<not> HasPrefix (base @ key) pre" if "key \<in> {keyTitle, keyPurpose}" for key
      using that by (auto simp: pre_def HasPrefix_iff key_defs)
    then have top: "k \<noteq> base @ keyTitle" "k \<noteq> base @ keyPurpose" using k(2) by auto
    obtain f where "f \<in> set facts" "k = ft_Predicate f" using k(1) unfolding set_indexFacts by blast
    then consider v where "(k, v) \<in> set (spec_pairs s)" | "beside_spec s k"
      using assms(3) by (fastforce simp: spec_Facts_pairs facts_of_def)
    then have "\<exists>n \<in> set (rids [] (map r_Name (sp_Requirements s))). \<exists>tail. k = pre @ n @ dot # tail"
    proof cases
      case 1
      then show ?thesis using spec_pairs_key [OF 1] top by (auto simp: base_def pre_def)
    next
      case 2
      then show ?thesis using k(2) top by (auto simp: beside_spec_def Let_def base_def pre_def)
    qed
    then show "\<exists>n \<in> fst ` set xs. \<exists>tail. k = pre @ n @ dot # tail" by (simp only: ids)
  qed
  then have "map (\<lambda>rid. requirementFromIndex (indexFacts facts) (pre @ rid @ ''.'')) (childKeys ord (indexFacts facts) pre) =
      map (snd \<circ> snd) xs"
    using req(1) by auto
  also have "\<dots> = sp_Requirements s" by (simp add: xs_def map_numbered)
  finally show ?thesis
    using top by (cases s) (simp add: SpecFromFacts_def Let_def base_def pre_def)
qed

section \<open>When minted ids differ\<close>

text \<open>A slug that ends in a hyphen and a numeral, as the ids of repeated names do.\<close>

definition numeric_tail :: "string \<Rightarrow> bool" where
  "numeric_tail s \<longleftrightarrow> s \<noteq> [] \<and> is_digit (last s) \<and> (case dropWhile is_digit (rev s) of [] \<Rightarrow> False | c # _ \<Rightarrow> c = hy)"

definition rid_base :: "string \<Rightarrow> string" where
  "rid_base n = (if Slugify n = [] then ''requirement'' else Slugify n)"

definition rid_tag :: "string \<Rightarrow> nat \<Rightarrow> string" where
  "rid_tag b c = (if c = 0 then b else b @ hy # nat_str (Suc c))"

definition minted_so_far :: "ridMinter \<Rightarrow> string \<Rightarrow> nat" where
  "minted_so_far seen b = (case gm_get seen b of None \<Rightarrow> 0 | Some n \<Rightarrow> n)"

lemma mint_tag:
  "mint seen n = (rid_tag (rid_base n) (minted_so_far seen (rid_base n)), gm_put (rid_base n) (Suc (minted_so_far seen (rid_base n))) seen)"
  unfolding mint_def rid_base_def [symmetric] minted_so_far_def [symmetric] Let_def rid_tag_def by (simp add: Itoa_def nat_add_distrib)

lemma numeric_tail_split:
  "rev (takeWhile is_digit (rev (b @ hy # nat_str n))) = nat_str n" "dropWhile is_digit (rev (b @ hy # nat_str n)) = hy # rev b"
proof -
  have d: "\<forall>c \<in> set (rev (nat_str n)). is_digit c" using nat_str_digits by simp
  have "\<not> is_digit hy" by (rule minus_not_digit)
  then show "rev (takeWhile is_digit (rev (b @ hy # nat_str n))) = nat_str n" "dropWhile is_digit (rev (b @ hy # nat_str n)) = hy # rev b"
    using d takeWhile_append2 [of "rev (nat_str n)" is_digit "hy # rev b"] dropWhile_append2 [of "rev (nat_str n)" is_digit "hy # rev b"] by auto
qed

lemma numeric_tail_tag: "numeric_tail (b @ hy # nat_str n)"
proof -
  have "is_digit (last (nat_str n))" using nat_str_digits [OF last_in_set [OF nat_str_neq_Nil]] .
  then show ?thesis using numeric_tail_split(2) [of b n] by (simp add: numeric_tail_def del: rev_append)
qed

lemma rid_tag_inject:
  assumes "\<not> numeric_tail b" "\<not> numeric_tail b'" "rid_tag b c = rid_tag b' c'"
  shows "b = b' \<and> c = c'"
proof -
  have "b = b' \<and> Suc c = Suc c'" if "b @ hy # nat_str (Suc c) = b' @ hy # nat_str (Suc c')"
    using numeric_tail_split [of b "Suc c"] numeric_tail_split [of b' "Suc c'"] unfolding that by simp
  then show ?thesis
    using assms numeric_tail_tag [of b "Suc c"] numeric_tail_tag [of b' "Suc c'"]
    by (auto simp: rid_tag_def split: if_splits)
qed

lemma set_rids:
  "r \<in> set (rids seen ns) \<Longrightarrow> \<exists>n \<in> set ns. \<exists>c \<ge> minted_so_far seen (rid_base n). r = rid_tag (rid_base n) c"
proof (induction ns arbitrary: seen)
  case (Cons m ns)
  show ?case
  proof (cases "r = fst (mint seen m)")
    case True
    then show ?thesis by (auto simp: mint_tag)
  next
    case False
    then obtain n c where n: "n \<in> set ns" "c \<ge> minted_so_far (snd (mint seen m)) (rid_base n)" "r = rid_tag (rid_base n) c"
      using Cons.IH [of "snd (mint seen m)"] Cons.prems by auto
    then have "c \<ge> minted_so_far seen (rid_base n)"
      by (auto simp: mint_tag minted_so_far_def go_map split: if_splits)
    with n show ?thesis by auto
  qed
qed simp

lemma numeric_tail_requirement: "\<not> numeric_tail ''requirement''"
  by code_simp

text \<open>
  C9. Repeated names are told apart: ids minted for any names, however often each occurs, are pairwise
  different, provided no name has a slug that itself ends in a hyphen and a numeral.
\<close>

theorem rids_distinct:
  assumes "\<forall>n \<in> set names. \<not> numeric_tail (Slugify n)"
  shows "distinct (rids [] names)"
proof -
  have "distinct (rids seen names)" for seen
    using assms
  proof (induction names arbitrary: seen)
    case (Cons n ns)
    have base: "\<not> numeric_tail (rid_base m)" if "m \<in> set (n # ns)" for m
      using Cons.prems that numeric_tail_requirement by (auto simp: rid_base_def)
    have "fst (mint seen n) \<notin> set (rids (snd (mint seen n)) ns)"
    proof
      assume "fst (mint seen n) \<in> set (rids (snd (mint seen n)) ns)"
      then obtain m c where m: "m \<in> set ns" "c \<ge> minted_so_far (snd (mint seen n)) (rid_base m)"
        "fst (mint seen n) = rid_tag (rid_base m) c" using set_rids by blast
      then have "rid_tag (rid_base n) (minted_so_far seen (rid_base n)) = rid_tag (rid_base m) c" by (simp add: mint_tag)
      then have "rid_base n = rid_base m" "minted_so_far seen (rid_base n) = c"
        using rid_tag_inject [OF base base] m(1) by auto
      with m(2) show False by (simp add: mint_tag minted_so_far_def go_map)
    qed
    then show ?case using Cons by simp
  qed simp
  then show ?thesis .
qed





section \<open>Witnesses\<close>

definition stored_spec :: Spec where
  "stored_spec = \<lparr>sp_Capability = ''auth'', sp_Title = ''Auth'', sp_Purpose = ''Who may enter.'', sp_Requirements =
     [\<lparr>r_Name = ''Log in'', r_Statement = ''The system SHALL ask.'', r_Scenarios =
         [\<lparr>sn_Name = ''Known user'', sn_Steps = [\<lparr>st_Keyword = ''GIVEN'', st_Text = ''a user''\<rparr>]\<rparr>]\<rparr>,
      \<lparr>r_Name = ''Log in'', r_Statement = [], r_Scenarios = []\<rparr>], sp_Warnings = [''w'']\<rparr>"

theorem rids_distinct_witness: "distinct (rids [] [''Log in'', ''Log in'', ''log-in''])"
  by (rule rids_distinct) code_simp

definition stored_facts :: "Fact list" where
  "stored_facts = rev (\<lparr>ft_Predicate = ''spec.billing.title'', ft_Object = ''B''\<rparr> # spec_Facts stored_spec) @
     [\<lparr>ft_Predicate = ''spec.auth.requirement.log-in.status'', ft_Object = ''archived''\<rparr>,
      \<lparr>ft_Predicate = ''spec.auth.title'', ft_Object = ''Old title''\<rparr>]"

lemma stored_facts_first:
  "list_all (\<lambda>f. gm_get (map pair_of stored_facts) (ft_Predicate f) = Some (ft_Object f)) (spec_Facts stored_spec)"
  by code_simp

lemma stored_facts_keys:
  "list_all (\<lambda>f. List.member (map ft_Predicate (spec_Facts stored_spec)) (ft_Predicate f) \<or> beside_spec stored_spec (ft_Predicate f)) stored_facts"
proof -
  have own: "list_all (\<lambda>f. List.member (map ft_Predicate (spec_Facts stored_spec)) (ft_Predicate f))
      (filter (\<lambda>f. ft_Predicate f \<notin> {''spec.billing.title'', ''spec.auth.requirement.log-in.status''}) stored_facts)"
    by code_simp
  have ids: "set (rids [] (map r_Name (sp_Requirements stored_spec))) = {''log-in'', ''log-in-2''}" by code_simp
  have cap: "sp_Capability stored_spec = ''auth''" by (simp add: stored_spec_def)
  have "beside_spec stored_spec ''spec.billing.title''" "beside_spec stored_spec ''spec.auth.requirement.log-in.status''"
    unfolding beside_spec_def ids cap by (simp_all add: key_defs HasPrefix_iff)
  with own show ?thesis by (auto simp: list_all_iff)
qed

theorem SpecFromFacts_roundtrip_witness:
  "SpecFromFacts rev (sp_Capability stored_spec) stored_facts = stored_spec\<lparr>sp_Warnings := []\<rparr>"
proof (rule SpecFromFacts_roundtrip)
  show "\<forall>f \<in> set (spec_Facts stored_spec). gm_get (map pair_of stored_facts) (ft_Predicate f) = Some (ft_Object f)"
    using stored_facts_first by (simp only: list_all_iff)
  show "\<forall>f \<in> set stored_facts. ft_Predicate f \<in> ft_Predicate ` set (spec_Facts stored_spec) \<or> beside_spec stored_spec (ft_Predicate f)"
    using stored_facts_keys by (simp add: list_all_iff)
  show "distinct (rids [] (map r_Name (sp_Requirements stored_spec)))" by code_simp
qed (simp_all add: stored_spec_def)



end
