(* ===== verification/Openspec_Change_Facts.thy ===== *)
theory Openspec_Change_Facts
  imports Openspec_Facts Openspec_Folder
begin

text \<open>
  The graph encoding of changes, \<^verbatim>\<open>openspec/facts_change.go\<close>: proposal, design, tasks and deltas of a change
  as facts under \<^verbatim>\<open>change.<slug>.\<close>, and the change read back from them. Headings, extra sections and
  diagnostics are not encoded; an artifact without content comes back absent.
\<close>

definition segProposal :: string where [key_defs]: "segProposal = ''proposal''"
definition segDesign :: string where [key_defs]: "segDesign = ''design''"
definition segTask :: string where [key_defs]: "segTask = ''task''"
definition segDelta :: string where [key_defs]: "segDelta = ''delta''"
definition keyIntent :: string where [key_defs]: "keyIntent = ''intent''"
definition keyScopeIn :: string where [key_defs]: "keyScopeIn = ''scope_in''"
definition keyScopeOut :: string where [key_defs]: "keyScopeOut = ''scope_out''"
definition keyApproach :: string where [key_defs]: "keyApproach = ''approach''"
definition keyTechApproach :: string where [key_defs]: "keyTechApproach = ''technical_approach''"
definition keyDecisions :: string where [key_defs]: "keyDecisions = ''decisions''"
definition keyDataFlow :: string where [key_defs]: "keyDataFlow = ''data_flow''"
definition keyFileChanges :: string where [key_defs]: "keyFileChanges = ''file_changes''"
definition keyNumber :: string where [key_defs]: "keyNumber = ''number''"
definition keyText :: string where [key_defs]: "keyText = ''text''"
definition keyDone :: string where [key_defs]: "keyDone = ''done''"
definition keySection :: string where [key_defs]: "keySection = ''section''"
definition keyOp :: string where [key_defs]: "keyOp = ''op''"
definition keyPreviously :: string where [key_defs]: "keyPreviously = ''previously''"
definition keyRationale :: string where [key_defs]: "keyRationale = ''rationale''"
definition opAdded :: string where [key_defs]: "opAdded = ''added''"
definition opModified :: string where [key_defs]: "opModified = ''modified''"
definition opRemoved :: string where [key_defs]: "opRemoved = ''removed''"

section \<open>Codecs of the design arrays\<close>

definition decisionJSON :: "DesignDecision \<Rightarrow> json" where
  "decisionJSON d = JObj ((''name'', JStr (dd_Name d)) # omit ''body'' (dd_Body d))"

definition decision_of :: "jval \<Rightarrow> DesignDecision option" where
  "decision_of v =
     (case fields_of v of None \<Rightarrow> None | Some kvs \<Rightarrow>
     (case string_field ''name'' kvs of None \<Rightarrow> None | Some name \<Rightarrow>
     (case string_field ''body'' kvs of None \<Rightarrow> None | Some body \<Rightarrow> Some \<lparr>dd_Name = name, dd_Body = body\<rparr>)))"

definition encodeDecisions :: "DesignDecision list \<Rightarrow> string" where
  "encodeDecisions ds = (if ds = [] then [] else encode (JArr (map decisionJSON ds)))"

definition decodeDecisions :: "string \<Rightarrow> DesignDecision list" where
  "decodeDecisions = decode_list decision_of"

definition fileChangeJSON :: "FileChange \<Rightarrow> json" where
  "fileChangeJSON f = JObj ((''path'', JStr (fc_Path f)) # omit ''kind'' (fc_Kind f))"

definition fileChange_of :: "jval \<Rightarrow> FileChange option" where
  "fileChange_of v =
     (case fields_of v of None \<Rightarrow> None | Some kvs \<Rightarrow>
     (case string_field ''path'' kvs of None \<Rightarrow> None | Some p \<Rightarrow>
     (case string_field ''kind'' kvs of None \<Rightarrow> None | Some k \<Rightarrow> Some \<lparr>fc_Path = p, fc_Kind = k\<rparr>)))"

definition encodeFileChanges :: "FileChange list \<Rightarrow> string" where
  "encodeFileChanges fs = (if fs = [] then [] else encode (JArr (map fileChangeJSON fs)))"

definition decodeFileChanges :: "string \<Rightarrow> FileChange list" where
  "decodeFileChanges = decode_list fileChange_of"

section \<open>Facts of a change\<close>

definition proposalFacts :: "string \<Rightarrow> Proposal option \<Rightarrow> Fact list" where
  "proposalFacts base proposal =
     (case proposal of None \<Rightarrow> []
      | Some p \<Rightarrow> add (base @ keyIntent) (pp_Intent p) @ add (base @ keyScopeIn) (encodeStrings (pp_ScopeIn p)) @
          add (base @ keyScopeOut) (encodeStrings (pp_ScopeOut p)) @ add (base @ keyApproach) (pp_Approach p))"

definition designFacts :: "string \<Rightarrow> Design option \<Rightarrow> Fact list" where
  "designFacts base design =
     (case design of None \<Rightarrow> []
      | Some d \<Rightarrow> add (base @ keyTechApproach) (dg_TechnicalApproach d) @ add (base @ keyDecisions) (encodeDecisions (dg_Decisions d)) @
          add (base @ keyDataFlow) (dg_DataFlow d) @ add (base @ keyFileChanges) (encodeFileChanges (dg_FileChanges d)))"

definition FormatBool :: "bool \<Rightarrow> string" where
  "FormatBool b = (if b then ''true'' else ''false'')"

text \<open>\<^verbatim>\<open>strconv.ParseBool\<close> with its error dropped.\<close>

definition ParseBool :: "string \<Rightarrow> bool" where
  "ParseBool s \<longleftrightarrow> s \<in> {''1'', ''t'', ''T'', ''TRUE'', ''true'', ''True''}"

text \<open>The inner loop over the tasks of a section, with the counter that runs through all sections.\<close>

fun section_facts :: "string \<Rightarrow> string \<Rightarrow> nat \<Rightarrow> Task list \<Rightarrow> Fact list \<times> nat" where
  "section_facts base sec i [] = ([], i)"
| "section_facts base sec i (t # ts) =
     (let p = base @ Itoa (int i) @ ''.''; (fs, j) = section_facts base sec (Suc i) ts in
      (add (p @ keyNumber) (tk_Number t) @ add (p @ keyText) (tk_Text t) @
       addRaw (p @ keyDone) (FormatBool (tk_Done t)) @ add (p @ keySection) sec @ fs, j))"

fun sections_facts :: "string \<Rightarrow> nat \<Rightarrow> TaskSection list \<Rightarrow> Fact list" where
  "sections_facts base i [] = []"
| "sections_facts base i (s # ss) =
     (let (fs, j) = section_facts base (ts_Name s) i (ts_Tasks s) in fs @ sections_facts base j ss)"

definition taskFacts :: "string \<Rightarrow> Tasks option \<Rightarrow> Fact list" where
  "taskFacts base tasks = (case tasks of None \<Rightarrow> [] | Some t \<Rightarrow> sections_facts base 0 (tt_Sections t))"

text \<open>What the three loops of \<^verbatim>\<open>deltaFacts\<close> append for one requirement under the prefix \<open>p\<close>.\<close>

definition added_facts :: "string \<Rightarrow> Requirement \<Rightarrow> nat \<Rightarrow> Fact list" where
  "added_facts p r pos = add (p @ keyOp) opAdded @ requirementFacts p r pos"

definition modified_facts :: "string \<Rightarrow> ModifiedRequirement \<Rightarrow> nat \<Rightarrow> Fact list" where
  "modified_facts p m pos =
     add (p @ keyOp) opModified @ requirementFacts p (mq_Requirement m) pos @ add (p @ keyPreviously) (mq_Previously m)"

definition removed_facts :: "string \<Rightarrow> RemovedRequirement \<Rightarrow> nat \<Rightarrow> Fact list" where
  "removed_facts p rm pos =
     add (p @ keyOp) opRemoved @ add (p @ keyName) (rv_Name rm) @ addRaw (p @ keyPosition) (Itoa (int pos)) @
     add (p @ keyRationale) (rv_Rationale rm)"

definition deltaFacts :: "string \<Rightarrow> Delta \<Rightarrow> Fact list" where
  "deltaFacts deltaBase d =
     (let base = deltaBase @ dl_Capability d @ ''.'';
          (as, seen1, pos1) = each_minted r_Name (\<lambda>rid. added_facts (base @ rid @ ''.'')) [] 0 (dl_Added d);
          (ms, seen2, pos2) = each_minted (r_Name \<circ> mq_Requirement) (\<lambda>rid. modified_facts (base @ rid @ ''.'')) seen1 pos1 (dl_Modified d);
          (rs, _) = each_minted rv_Name (\<lambda>rid. removed_facts (base @ rid @ ''.'')) seen2 pos2 (dl_Removed d)
      in as @ ms @ rs)"

definition change_Facts :: "Change \<Rightarrow> Fact list" where
  "change_Facts c =
     (let base = changePrefix @ ch_Slug c @ ''.'' in
      proposalFacts (base @ segProposal @ ''.'') (ch_Proposal c) @
      designFacts (base @ segDesign @ ''.'') (ch_Design c) @
      taskFacts (base @ segTask @ ''.'') (ch_Tasks c) @
      concat (map (deltaFacts (base @ segDelta @ ''.'')) (ch_Deltas c)))"

section \<open>Reading a change back\<close>

definition proposalFromIndex :: "(string \<times> string) list \<Rightarrow> string \<Rightarrow> Proposal option" where
  "proposalFromIndex idx base =
     (let intent = ix idx (base @ keyIntent); scopeIn = ix idx (base @ keyScopeIn);
          scopeOut = ix idx (base @ keyScopeOut); approach = ix idx (base @ keyApproach) in
      if intent = [] \<and> scopeIn = [] \<and> scopeOut = [] \<and> approach = [] then None
      else Some \<lparr>pp_Title = [], pp_Intent = intent, pp_ScopeIn = decodeStrings scopeIn,
             pp_ScopeOut = decodeStrings scopeOut, pp_Approach = approach, pp_ExtraSections = []\<rparr>)"

definition designFromIndex :: "(string \<times> string) list \<Rightarrow> string \<Rightarrow> Design option" where
  "designFromIndex idx base =
     (let tech = ix idx (base @ keyTechApproach); decisions = ix idx (base @ keyDecisions);
          dataFlow = ix idx (base @ keyDataFlow); fileChanges = ix idx (base @ keyFileChanges) in
      if tech = [] \<and> decisions = [] \<and> dataFlow = [] \<and> fileChanges = [] then None
      else Some \<lparr>dg_Title = [], dg_TechnicalApproach = tech, dg_Decisions = decodeDecisions decisions,
             dg_DataFlow = dataFlow, dg_FileChanges = decodeFileChanges fileChanges, dg_ExtraSections = []\<rparr>)"

text \<open>The integers seen so far are those in \<open>out\<close>.\<close>

fun int_children_loop :: "string \<Rightarrow> int list \<Rightarrow> string list \<Rightarrow> int list" where
  "int_children_loop base out [] = out"
| "int_children_loop base out (key # keys) =
     (if \<not> HasPrefix key base then int_children_loop base out keys
      else (case cut_dot (drop (length base) key) of
              None \<Rightarrow> int_children_loop base out keys
            | Some (name, _) \<Rightarrow>
                (let (n, ok) = Atoi name in
                 if \<not> ok \<or> n \<in> set out then int_children_loop base out keys
                 else int_children_loop base (out @ [n]) keys)))"

definition intChildIndices :: "(string list \<Rightarrow> string list) \<Rightarrow> (string \<times> string) list \<Rightarrow> string \<Rightarrow> int list" where
  "intChildIndices ord idx base = sort (int_children_loop base [] (ord (gm_keys idx)))"

definition task_at :: "(string \<times> string) list \<Rightarrow> string \<Rightarrow> int \<Rightarrow> string \<times> Task" where
  "task_at idx base i =
     (let p = base @ Itoa i @ ''.'' in
      (ix idx (p @ keySection),
       \<lparr>tk_Number = ix idx (p @ keyNumber), tk_Text = ix idx (p @ keyText), tk_Done = ParseBool (ix idx (p @ keyDone))\<rparr>))"

fun regroup :: "(string \<times> nat) list \<Rightarrow> TaskSection list \<Rightarrow> (string \<times> Task) list \<Rightarrow> TaskSection list" where
  "regroup secAt secs [] = secs"
| "regroup secAt secs ((name, task) # rest) =
     (let (secAt1, secs1, si) = (case gm_get secAt name of
              None \<Rightarrow> (gm_put name (length secs) secAt, secs @ [\<lparr>ts_Name = name, ts_Tasks = []\<rparr>], length secs)
            | Some si \<Rightarrow> (secAt, secs, si))
      in regroup secAt1 (secs1[si := (secs1 ! si)\<lparr>ts_Tasks := ts_Tasks (secs1 ! si) @ [task]\<rparr>]) rest)"

definition tasksFromIndex :: "(string list \<Rightarrow> string list) \<Rightarrow> (string \<times> string) list \<Rightarrow> string \<Rightarrow> Tasks option" where
  "tasksFromIndex ord idx base =
     (let indices = intChildIndices ord idx base in
      if indices = [] then None
      else Some \<lparr>tt_Title = [], tt_Sections = regroup [] [] (map (task_at idx base) indices)\<rparr>)"

text \<open>\<^verbatim>\<open>strings.LastIndexByte(s, '.')\<close> and the pieces around it.\<close>

definition cut_last_dot :: "string \<Rightarrow> (string \<times> string) option" where
  "cut_last_dot s =
     (if dot \<notin> set s then None
      else (let after = rev (takeWhile (\<lambda>c. c \<noteq> dot) (rev s)) in Some (take (length s - length after - 1) s, after)))"

definition parseDeltaTail :: "string \<Rightarrow> (string \<times> string \<times> string) option" where
  "parseDeltaTail tail =
     (case cut_last_dot tail of None \<Rightarrow> None | Some (left, field) \<Rightarrow>
     (case cut_last_dot left of None \<Rightarrow> None | Some (capability, rid) \<Rightarrow>
        if capability \<noteq> [] \<and> rid \<noteq> [] \<and> field \<noteq> [] then Some (capability, rid, field) else None))"

text \<open>The scan of \<^verbatim>\<open>deltasFromIndex\<close>: the keys seen, and per capability its ids with their positions.\<close>

fun delta_scan :: "(string \<times> string) list \<Rightarrow> string \<Rightarrow> string list \<Rightarrow> (string \<times> (string \<times> int) list) list \<Rightarrow> string list \<Rightarrow> (string \<times> (string \<times> int) list) list" where
  "delta_scan idx base seen byCap [] = byCap"
| "delta_scan idx base seen byCap (key # keys) =
     (if \<not> HasPrefix key base then delta_scan idx base seen byCap keys
      else (case parseDeltaTail (drop (length base) key) of
              None \<Rightarrow> delta_scan idx base seen byCap keys
            | Some (capName, rid, _) \<Rightarrow>
                (let ck = capName @ CHR 0x00 # rid in
                 if ck \<in> set seen then delta_scan idx base seen byCap keys
                 else (let p = base @ capName @ ''.'' @ rid @ ''.'';
                           pos = fst (Atoi (ix idx (p @ keyPosition)));
                           old = (case gm_get byCap capName of None \<Rightarrow> [] | Some es \<Rightarrow> es)
                       in delta_scan idx base (ck # seen) (gm_put capName (old @ [(rid, pos)]) byCap) keys))))"

definition read_entry :: "(string \<times> string) list \<Rightarrow> string \<Rightarrow> string \<Rightarrow> Delta \<Rightarrow> Delta" where
  "read_entry idx capBase rid d =
     (let p = capBase @ rid @ ''.''; op = ix idx (p @ keyOp) in
      if op = opAdded then d\<lparr>dl_Added := dl_Added d @ [requirementFromIndex idx p]\<rparr>
      else if op = opModified then
        d\<lparr>dl_Modified := dl_Modified d @ [\<lparr>mq_Requirement = requirementFromIndex idx p, mq_Previously = ix idx (p @ keyPreviously)\<rparr>]\<rparr>
      else if op = opRemoved then
        d\<lparr>dl_Removed := dl_Removed d @ [\<lparr>rv_Name = ix idx (p @ keyName), rv_Rationale = ix idx (p @ keyRationale)\<rparr>]\<rparr>
      else d)"

definition deltasFromIndex :: "(string list \<Rightarrow> string list) \<Rightarrow> (string \<times> string) list \<Rightarrow> string \<Rightarrow> Delta list" where
  "deltasFromIndex ord idx base =
     (let byCap = delta_scan idx base [] [] (ord (gm_keys idx)) in
      map (\<lambda>capName.
             fold (read_entry idx (base @ capName @ ''.'')) (map fst (sort_key snd (the (gm_get byCap capName))))
               \<lparr>dl_Capability = capName, dl_Title = [], dl_Added = [], dl_Modified = [], dl_Removed = [], dl_Warnings = []\<rparr>)
        (sort (gm_keys byCap)))"

definition ChangeFromFacts :: "(string list \<Rightarrow> string list) \<Rightarrow> string \<Rightarrow> Fact list \<Rightarrow> Change" where
  "ChangeFromFacts ord slug facts =
     (let idx = indexFacts facts; base = changePrefix @ slug @ ''.'' in
      \<lparr>ch_Slug = slug,
       ch_Proposal = proposalFromIndex idx (base @ segProposal @ ''.''),
       ch_Design = designFromIndex idx (base @ segDesign @ ''.''),
       ch_Tasks = tasksFromIndex ord idx (base @ segTask @ ''.''),
       ch_Deltas = deltasFromIndex ord idx (base @ segDelta @ ''.'')\<rparr>)"

section \<open>Codecs round-trip\<close>

lemma decision_of_JSON: "decision_of (read_back (decisionJSON d)) = Some d"
  by (cases d) (simp add: decisionJSON_def decision_of_def field_defs)

lemma fileChange_of_JSON: "fileChange_of (read_back (fileChangeJSON f)) = Some f"
  by (cases f) (simp add: fileChangeJSON_def fileChange_of_def field_defs)

lemma nests_design_arrays: "nests (max_depth - 1) (decisionJSON d)" "nests (max_depth - 1) (fileChangeJSON f)"
  by (auto simp: decisionJSON_def fileChangeJSON_def omit_def)

lemma decodeDecisions_encode [simp]: "decodeDecisions (encodeDecisions ds) = ds"
  unfolding decodeDecisions_def encodeDecisions_def by (rule decode_list_encode) (rule decision_of_JSON nests_design_arrays)+

lemma decodeFileChanges_encode [simp]: "decodeFileChanges (encodeFileChanges fs) = fs"
  unfolding decodeFileChanges_def encodeFileChanges_def by (rule decode_list_encode) (rule fileChange_of_JSON nests_design_arrays)+

lemma encode_empty [simp]:
  "encodeStrings ss = [] \<longleftrightarrow> ss = []" "encodeDecisions ds = [] \<longleftrightarrow> ds = []" "encodeFileChanges fs = [] \<longleftrightarrow> fs = []"
  by (simp_all add: encodeStrings_def encodeDecisions_def encodeFileChanges_def)

section \<open>The facts of a change as pairs\<close>

text \<open>The four facts of a proposal and of a design, all of them empty when it is absent.\<close>

definition proposal_pairs :: "string \<Rightarrow> Proposal option \<Rightarrow> (string \<times> string) list" where
  "proposal_pairs base proposal =
     (let p = (case proposal of None \<Rightarrow> empty_proposal | Some p \<Rightarrow> p) in
      [(base @ keyIntent, pp_Intent p), (base @ keyScopeIn, encodeStrings (pp_ScopeIn p)),
       (base @ keyScopeOut, encodeStrings (pp_ScopeOut p)), (base @ keyApproach, pp_Approach p)])"

definition design_pairs :: "string \<Rightarrow> Design option \<Rightarrow> (string \<times> string) list" where
  "design_pairs base design =
     (let d = (case design of None \<Rightarrow> empty_design | Some d \<Rightarrow> d) in
      [(base @ keyTechApproach, dg_TechnicalApproach d), (base @ keyDecisions, encodeDecisions (dg_Decisions d)),
       (base @ keyDataFlow, dg_DataFlow d), (base @ keyFileChanges, encodeFileChanges (dg_FileChanges d))])"

definition task_pairs :: "string \<Rightarrow> nat \<Rightarrow> string \<times> Task \<Rightarrow> (string \<times> string) list" where
  "task_pairs base i st =
     (let p = base @ Itoa (int i) @ ''.'' in
      [(p @ keyNumber, tk_Number (snd st)), (p @ keyText, tk_Text (snd st)), (p @ keyDone, FormatBool (tk_Done (snd st))),
       (p @ keySection, fst st)])"

definition flat_tasks :: "TaskSection list \<Rightarrow> (string \<times> Task) list" where
  "flat_tasks ss = concat (map (\<lambda>s. map (Pair (ts_Name s)) (ts_Tasks s)) ss)"

definition tasks_of :: "Tasks option \<Rightarrow> (string \<times> Task) list" where
  "tasks_of tasks = (case tasks of None \<Rightarrow> [] | Some t \<Rightarrow> flat_tasks (tt_Sections t))"

datatype delta_item = ItemAdded Requirement | ItemModified ModifiedRequirement | ItemRemoved RemovedRequirement

definition delta_items :: "Delta \<Rightarrow> delta_item list" where
  "delta_items d = map ItemAdded (dl_Added d) @ map ItemModified (dl_Modified d) @ map ItemRemoved (dl_Removed d)"

fun item_name :: "delta_item \<Rightarrow> string" where
  "item_name (ItemAdded r) = r_Name r"
| "item_name (ItemModified m) = r_Name (mq_Requirement m)"
| "item_name (ItemRemoved rm) = rv_Name rm"

fun item_pairs :: "string \<Rightarrow> delta_item \<Rightarrow> nat \<Rightarrow> (string \<times> string) list" where
  "item_pairs p (ItemAdded r) pos = (p @ keyOp, opAdded) # req_pairs p r pos"
| "item_pairs p (ItemModified m) pos = (p @ keyOp, opModified) # req_pairs p (mq_Requirement m) pos @ [(p @ keyPreviously, mq_Previously m)]"
| "item_pairs p (ItemRemoved rm) pos =
     [(p @ keyOp, opRemoved), (p @ keyName, rv_Name rm), (p @ keyPosition, Itoa (int pos)), (p @ keyRationale, rv_Rationale rm)]"

definition delta_ids :: "Delta \<Rightarrow> (string \<times> nat \<times> delta_item) list" where
  "delta_ids d = numbered [] item_name 0 (delta_items d)"

definition delta_pairs :: "string \<Rightarrow> Delta \<Rightarrow> (string \<times> string) list" where
  "delta_pairs deltaBase d =
     concat (map (\<lambda>(rid, i, x). item_pairs (deltaBase @ dl_Capability d @ ''.'' @ rid @ ''.'') x i) (delta_ids d))"

definition change_pairs :: "Change \<Rightarrow> (string \<times> string) list" where
  "change_pairs c =
     (let base = changePrefix @ ch_Slug c @ ''.'' in
      proposal_pairs (base @ segProposal @ ''.'') (ch_Proposal c) @
      design_pairs (base @ segDesign @ ''.'') (ch_Design c) @
      concat (map (\<lambda>(i, st). task_pairs (base @ segTask @ ''.'') i st) (zip [0..<length (tasks_of (ch_Tasks c))] (tasks_of (ch_Tasks c)))) @
      concat (map (delta_pairs (base @ segDelta @ ''.'')) (ch_Deltas c)))"

lemma FormatBool_neq_Nil [simp]: "FormatBool b \<noteq> []"
  by (simp add: FormatBool_def)

lemma ParseBool_FormatBool [simp]: "ParseBool (FormatBool b) = b"
  by (simp add: FormatBool_def ParseBool_def)

lemma section_facts_pairs:
  "section_facts base sec i ts =
     (facts_of (concat (map (\<lambda>(i, st). task_pairs base i st) (zip [i..<i + length ts] (map (Pair sec) ts)))), i + length ts)"
proof (induction ts arbitrary: i)
  case (Cons t ts)
  then show ?case by (simp add: upt_conv_Cons task_pairs_def addRaw_add Let_def del: upt_Suc)
qed simp

lemma sections_facts_pairs:
  "sections_facts base i ss =
     facts_of (concat (map (\<lambda>(i, st). task_pairs base i st) (zip [i..<i + length (flat_tasks ss)] (flat_tasks ss))))"
proof (induction ss arbitrary: i)
  case (Cons s ss)
  define as where "as = map (Pair (ts_Name s)) (ts_Tasks s)"
  define bs where "bs = flat_tasks ss"
  have "zip [i..<i + length (as @ bs)] (as @ bs) = zip [i..<i + length as] as @ zip [i + length as..<i + length as + length bs] bs"
    using upt_add_eq_append [of i "i + length as" "length bs"] by (simp add: add.assoc zip_append1)
  then show ?case using Cons [of "i + length as"] by (simp add: section_facts_pairs flat_tasks_def as_def bs_def)
qed (simp add: flat_tasks_def)

lemma each_minted_append:
  "each_minted name emit seen pos (xs @ ys) =
     (let (as, seen1, pos1) = each_minted name emit seen pos xs; (bs, rest) = each_minted name emit seen1 pos1 ys
      in (as @ bs, rest))"
  by (induction xs arbitrary: seen pos) (simp_all add: Let_def case_prod_beta)

lemma each_minted_map:
  "each_minted name emit seen pos (map f xs) = each_minted (name \<circ> f) (\<lambda>rid x. emit rid (f x)) seen pos xs"
  by (induction xs arbitrary: seen pos) simp_all

lemma item_facts:
  "added_facts p r pos = facts_of (item_pairs p (ItemAdded r) pos)"
  "modified_facts p m pos = facts_of (item_pairs p (ItemModified m) pos)"
  "removed_facts p rm pos = facts_of (item_pairs p (ItemRemoved rm) pos)"
  by (simp_all add: added_facts_def modified_facts_def removed_facts_def requirementFacts_pairs addRaw_add)

lemma deltaFacts_pairs: "deltaFacts deltaBase d = facts_of (delta_pairs deltaBase d)"
proof -
  let ?e = "\<lambda>rid x i. facts_of (item_pairs (deltaBase @ dl_Capability d @ ''.'' @ rid @ ''.'') x i)"
  have "deltaFacts deltaBase d = fst (each_minted item_name ?e [] 0 (delta_items d))"
    by (simp add: deltaFacts_def delta_items_def each_minted_append each_minted_map item_facts [abs_def] comp_def Let_def case_prod_beta)
  then show ?thesis
    by (simp add: each_minted_numbered delta_pairs_def delta_ids_def facts_of_concat comp_def case_prod_unfold)
qed

lemma change_Facts_pairs: "change_Facts c = facts_of (change_pairs c)"
proof -
  have "proposalFacts base p = facts_of (proposal_pairs base p)" "designFacts base q = facts_of (design_pairs base q)" for base p q
    by (auto simp: proposalFacts_def proposal_pairs_def designFacts_def design_pairs_def empty_proposal_def empty_design_def
          encodeStrings_def encodeDecisions_def encodeFileChanges_def add_def Let_def split: option.split)
  moreover have "taskFacts base t = facts_of (concat (map (\<lambda>(i, st). task_pairs base i st) (zip [0..<length (tasks_of t)] (tasks_of t))))" for base t
    by (simp add: taskFacts_def tasks_of_def sections_facts_pairs split: option.split)
  ultimately show ?thesis
    by (simp add: change_Facts_def change_pairs_def Let_def deltaFacts_pairs [abs_def] facts_of_concat comp_def)
qed

section \<open>Different facts have different keys\<close>

lemma last_segment_inject:
  assumes "dot \<notin> set f" "dot \<notin> set g"
  shows "a @ dot # f = b @ dot # g \<longleftrightarrow> a = b \<and> f = g"
  using segment_key_inject [of "rev f" "rev g" "rev a" "rev b"] assms
  by (metis rev_append rev_rev_ident append.assoc append_Cons append_Nil rev.simps(2) set_rev)

fun item_tails :: "delta_item \<Rightarrow> string list" where
  "item_tails (ItemAdded r) = [keyOp, keyName, keyStatement, keyScenarios, keyPosition]"
| "item_tails (ItemModified m) = [keyOp, keyName, keyStatement, keyScenarios, keyPosition, keyPreviously]"
| "item_tails (ItemRemoved rm) = [keyOp, keyName, keyPosition, keyRationale]"

lemma item_pairs_keys: "gm_keys (item_pairs (p @ ''.'') x i) = map (\<lambda>f. p @ dot # f) (item_tails x)"
  by (cases x) (simp_all add: req_pairs_def)

lemma distinct_item_tails: "distinct (item_tails x)" and item_tails_plain: "f \<in> set (item_tails x) \<Longrightarrow> dot \<notin> set f \<and> f \<noteq> []"
  by (cases x; auto simp: key_defs)+

lemma delta_pairs_keys:
  "gm_keys (delta_pairs deltaBase d) =
     concat (map (\<lambda>x. map (\<lambda>f. (deltaBase @ dl_Capability d @ ''.'') @ fst x @ dot # f) (item_tails (snd (snd x)))) (delta_ids d))"
proof -
  have "gm_keys (item_pairs (deltaBase @ dl_Capability d @ ''.'' @ rid @ ''.'') x i) =
      map (\<lambda>f. (deltaBase @ dl_Capability d @ ''.'') @ rid @ dot # f) (item_tails x)" for rid x i
    using item_pairs_keys [of "deltaBase @ dl_Capability d @ ''.'' @ rid" x i] by simp
  then show ?thesis by (simp add: delta_pairs_def map_concat comp_def case_prod_unfold)
qed

lemma task_pairs_keys:
  "gm_keys (concat (map (\<lambda>(i, st). task_pairs base i st) xs)) =
     concat (map (\<lambda>x. map (\<lambda>f. base @ fst x @ dot # f) [keyNumber, keyText, keyDone, keySection]) (map (\<lambda>(i, st). (Itoa (int i), st)) xs))"
  by (simp add: map_concat task_pairs_def Let_def comp_def case_prod_unfold)

lemma segments_delta_ids: "segments (fst ` set (delta_ids d))"
  using segments_rids [of "[]" "map item_name (delta_items d)"] by (simp add: delta_ids_def map_numbered flip: set_map)

definition ids_distinct :: "Delta \<Rightarrow> bool" where
  "ids_distinct d \<longleftrightarrow> distinct (rids [] (map item_name (delta_items d)))"

lemma distinct_delta_pairs: "ids_distinct d \<Longrightarrow> distinct (gm_keys (delta_pairs deltaBase d))"
  unfolding delta_pairs_keys
  by (rule distinct_segment_keys [OF segments_delta_ids])
    (simp_all add: distinct_item_tails delta_ids_def map_numbered ids_distinct_def)

lemma delta_key:
  assumes "k \<in> set (gm_keys (delta_pairs deltaBase d))"
  obtains rid i x f where "(rid, i, x) \<in> set (delta_ids d)" "f \<in> set (item_tails x)" "k = deltaBase @ dl_Capability d @ dot # rid @ dot # f"
    "dot \<notin> set rid" "rid \<noteq> []" "dot \<notin> set f" "f \<noteq> []"
proof -
  from assms obtain y f where y: "y \<in> set (delta_ids d)" "f \<in> set (item_tails (snd (snd y)))"
    "k = deltaBase @ dl_Capability d @ dot # fst y @ dot # f" unfolding delta_pairs_keys by auto
  then have "dot \<notin> set (fst y)" "fst y \<noteq> []" using segments_delta_ids [of d] by (auto simp: segments_def)
  with y show thesis using that [of "fst y" "fst (snd y)" "snd (snd y)" f] item_tails_plain [OF y(2)] by auto
qed

lemma delta_keys_apart:
  assumes "k \<in> set (gm_keys (delta_pairs b d))" "k \<in> set (gm_keys (delta_pairs b e))"
  shows "dl_Capability d = dl_Capability e"
proof -
  from assms(1) obtain rid f where d: "k = b @ dl_Capability d @ dot # rid @ dot # f" "dot \<notin> set rid" "dot \<notin> set f"
    by (rule delta_key)
  from assms(2) obtain rid' f' where e: "k = b @ dl_Capability e @ dot # rid' @ dot # f'" "dot \<notin> set rid'" "dot \<notin> set f'"
    by (rule delta_key)
  have "dl_Capability d @ dot # rid = dl_Capability e @ dot # rid'"
    using d e last_segment_inject [of f f' "dl_Capability d @ dot # rid" "dl_Capability e @ dot # rid'"] by simp
  then show ?thesis using last_segment_inject [OF d(2) e(2)] by simp
qed

lemma distinct_deltas_pairs:
  assumes "distinct (map dl_Capability ds)" "\<forall>d \<in> set ds. ids_distinct d"
  shows "distinct (gm_keys (concat (map (delta_pairs b) ds)))"
  using assms
proof (induction ds)
  case (Cons d ds)
  have "k \<notin> set (gm_keys (concat (map (delta_pairs b) ds)))" if k: "k \<in> set (gm_keys (delta_pairs b d))" for k
  proof
    assume "k \<in> set (gm_keys (concat (map (delta_pairs b) ds)))"
    then obtain e where "e \<in> set ds" "k \<in> set (gm_keys (delta_pairs b e))" by auto
    then show False using delta_keys_apart [OF k] Cons.prems(1) by auto
  qed
  then show ?case using Cons distinct_delta_pairs [of d b] by (auto simp del: set_map)
qed simp

definition change_facts_ok :: "Change \<Rightarrow> bool" where
  "change_facts_ok c \<longleftrightarrow>
     (case ch_Tasks c of None \<Rightarrow> True
      | Some t \<Rightarrow> distinct (map ts_Name (tt_Sections t)) \<and> (\<forall>s \<in> set (tt_Sections t). ts_Tasks s \<noteq> [])) \<and>
     length (tasks_of (ch_Tasks c)) < 2 ^ 63 \<and>
     sorted_wrt (<) (map dl_Capability (ch_Deltas c)) \<and>
     (\<forall>d \<in> set (ch_Deltas c). dl_Capability d \<noteq> [] \<and> delta_items d \<noteq> [] \<and> ids_distinct d \<and> length (delta_items d) < 2 ^ 63)"

definition change_base :: "Change \<Rightarrow> string" where
  "change_base c = changePrefix @ ch_Slug c @ ''.''"

definition task_keys :: "Change \<Rightarrow> (string \<times> string) list" where
  "task_keys c = concat (map (\<lambda>(i, st). task_pairs (change_base c @ segTask @ ''.'') i st) (zip [0..<length (tasks_of (ch_Tasks c))] (tasks_of (ch_Tasks c))))"

lemma change_pairs_eq:
  "change_pairs c = proposal_pairs (change_base c @ segProposal @ ''.'') (ch_Proposal c) @
     design_pairs (change_base c @ segDesign @ ''.'') (ch_Design c) @ task_keys c @
     concat (map (delta_pairs (change_base c @ segDelta @ ''.'')) (ch_Deltas c))"
  by (simp add: change_pairs_def change_base_def task_keys_def Let_def)

lemma group_prefix:
  "k \<in> set (gm_keys (proposal_pairs b p)) \<Longrightarrow> HasPrefix k b" "k \<in> set (gm_keys (design_pairs b q)) \<Longrightarrow> HasPrefix k b"
  "k \<in> set (gm_keys (concat (map (\<lambda>(i, st). task_pairs b i st) xs))) \<Longrightarrow> HasPrefix k b"
  "k \<in> set (gm_keys (concat (map (delta_pairs b) ds))) \<Longrightarrow> HasPrefix k b"
proof -
  show "k \<in> set (gm_keys (proposal_pairs b p)) \<Longrightarrow> HasPrefix k b" "k \<in> set (gm_keys (design_pairs b q)) \<Longrightarrow> HasPrefix k b"
    by (auto simp: proposal_pairs_def design_pairs_def Let_def)
  show "k \<in> set (gm_keys (concat (map (\<lambda>(i, st). task_pairs b i st) xs))) \<Longrightarrow> HasPrefix k b"
    unfolding task_pairs_keys by auto
  assume "k \<in> set (gm_keys (concat (map (delta_pairs b) ds)))"
  then obtain d where "k \<in> set (gm_keys (delta_pairs b d))" by auto
  then show "HasPrefix k b" by (rule delta_key) simp
qed

lemma segs_apart:
  assumes "HasPrefix k (b @ s @ ''.'')" "HasPrefix k (b @ t @ ''.'')" "dot \<notin> set s" "dot \<notin> set t"
  shows "s = t"
  using assms segment_key_inject [of s t] by (auto simp: HasPrefix_iff prefix_def)

lemma seg_plain: "dot \<notin> set segProposal" "dot \<notin> set segDesign" "dot \<notin> set segTask" "dot \<notin> set segDelta"
  and seg_distinct: "distinct [segProposal, segDesign, segTask, segDelta]"
  by (simp_all add: key_defs)

lemma distinct_task_keys: "distinct (gm_keys (task_keys c))"
proof -
  let ?xs = "zip [0..<length (tasks_of (ch_Tasks c))] (tasks_of (ch_Tasks c))"
  have m: "map fst (map (\<lambda>(i, st). (g i, st)) xs) = map g (map fst xs)" for g :: "nat \<Rightarrow> string" and xs :: "(nat \<times> string \<times> Task) list"
    by (induction xs) auto
  have "map fst (map (\<lambda>(i, st). (Itoa (int i), st)) ?xs) = map (\<lambda>i. Itoa (int i)) (map fst ?xs)" by (rule m)
  also have "\<dots> = map (\<lambda>i. Itoa (int i)) [0..<length (tasks_of (ch_Tasks c))]" by (simp only: map_fst_zip length_upt minus_nat.diff_0)
  finally have "distinct (map fst (map (\<lambda>(i, st). (Itoa (int i), st)) ?xs))" by (simp add: distinct_map inj_on_def)
  moreover have "segments (fst ` set (map (\<lambda>(i, st). (Itoa (int i), st)) ?xs))"
    using nat_str_no_dot by (auto simp: segments_def Itoa_nat)
  ultimately show ?thesis unfolding task_keys_def task_pairs_keys
    by (intro distinct_segment_keys) (simp_all add: key_defs)
qed

lemma distinct_change_pairs:
  assumes "change_facts_ok c"
  shows "distinct (gm_keys (change_pairs c))"
proof -
  have "distinct (gm_keys (proposal_pairs b p))" "distinct (gm_keys (design_pairs b q))" for b p q
    by (auto simp: proposal_pairs_def design_pairs_def key_defs Let_def)
  moreover have "distinct (gm_keys (concat (map (delta_pairs b) (ch_Deltas c))))" for b
    using assms by (intro distinct_deltas_pairs) (auto simp: change_facts_ok_def strict_sorted_iff)
  moreover have "HasPrefix k (change_base c @ segTask @ ''.'')" if "k \<in> set (gm_keys (task_keys c))" for k
    using that group_prefix(3) unfolding task_keys_def by blast
  ultimately show ?thesis
    using distinct_task_keys [of c] segs_apart [OF _ _ seg_plain(1,2)] segs_apart [OF _ _ seg_plain(1,3)] segs_apart [OF _ _ seg_plain(1,4)]
      segs_apart [OF _ _ seg_plain(2,3)] segs_apart [OF _ _ seg_plain(2,4)] segs_apart [OF _ _ seg_plain(3,4)] seg_distinct group_prefix
    unfolding change_pairs_eq map_append distinct_append set_append disjoint_iff by (metis (no_types, lifting) UnE distinct_length_2_or_more)
qed

end
