(* ===== verification/Openspec_Change_Roundtrip.thy ===== *)
theory Openspec_Change_Roundtrip
  imports Openspec_Change_Facts
begin

text \<open>
  A change survives the graph: \<^verbatim>\<open>ChangeFromFacts\<close> inverts \<^verbatim>\<open>Change.Facts\<close> (\<^verbatim>\<open>openspec/facts_change.go\<close>) up to the
  content that is not encoded, whatever order the facts are stored in and the index is walked in.
\<close>

section \<open>What survives\<close>

definition proposal_view :: "Proposal option \<Rightarrow> Proposal option" where
  "proposal_view proposal =
     (case proposal of None \<Rightarrow> None
      | Some p \<Rightarrow> if pp_Intent p = [] \<and> pp_ScopeIn p = [] \<and> pp_ScopeOut p = [] \<and> pp_Approach p = [] then None
                  else Some (p\<lparr>pp_Title := [], pp_ExtraSections := []\<rparr>))"

definition design_view :: "Design option \<Rightarrow> Design option" where
  "design_view design =
     (case design of None \<Rightarrow> None
      | Some d \<Rightarrow> if dg_TechnicalApproach d = [] \<and> dg_Decisions d = [] \<and> dg_DataFlow d = [] \<and> dg_FileChanges d = [] then None
                  else Some (d\<lparr>dg_Title := [], dg_ExtraSections := []\<rparr>))"

definition tasks_view :: "Tasks option \<Rightarrow> Tasks option" where
  "tasks_view tasks =
     (case tasks of None \<Rightarrow> None | Some t \<Rightarrow> if tt_Sections t = [] then None else Some (t\<lparr>tt_Title := []\<rparr>))"

definition delta_view :: "Delta \<Rightarrow> Delta" where
  "delta_view d = d\<lparr>dl_Title := [], dl_Warnings := []\<rparr>"

definition change_view :: "Change \<Rightarrow> Change" where
  "change_view c = \<lparr>ch_Slug = ch_Slug c, ch_Proposal = proposal_view (ch_Proposal c), ch_Design = design_view (ch_Design c),
     ch_Tasks = tasks_view (ch_Tasks c), ch_Deltas = map delta_view (ch_Deltas c)\<rparr>"

section \<open>The index of a stored change\<close>

text \<open>
  A writer may keep further facts in the subtree of a change (its status, the execution fields of its
  tasks): they stand beside it when they use none of its keys, name no requirement and number no
  further task.
\<close>

definition beside :: "Change \<Rightarrow> string \<Rightarrow> bool" where
  "beside c k \<longleftrightarrow>
     k \<notin> set (gm_keys (change_pairs c)) \<and> \<not> HasPrefix k (change_base c @ segDelta @ ''.'') \<and>
     (HasPrefix k (change_base c @ segTask @ ''.'') \<longrightarrow>
        (\<exists>i < length (tasks_of (ch_Tasks c)). \<exists>f. k = (change_base c @ segTask @ ''.'') @ Itoa (int i) @ dot # f))"

definition stored_change :: "Change \<Rightarrow> Fact list \<Rightarrow> bool" where
  "stored_change c facts \<longleftrightarrow> change_facts_ok c \<and>
     (\<exists>W. kept_in (change_base c) (change_Facts c @ W) facts \<and> (\<forall>f \<in> set W. beside c (ft_Predicate f)))"

lemma change_key_prefix: "k \<in> set (gm_keys (change_pairs c)) \<Longrightarrow> HasPrefix k (change_base c)"
proof -
  assume k: "k \<in> set (gm_keys (change_pairs c))"
  have "\<exists>s. HasPrefix k (change_base c @ s)"
    using k group_prefix unfolding change_pairs_eq task_keys_def map_append set_append by blast
  then show ?thesis by (auto simp: HasPrefix_iff intro: append_prefixD)
qed

lemma besideD:
  assumes "beside c k"
  shows "k \<notin> set (gm_keys (change_pairs c))" "\<not> HasPrefix k (change_base c @ segDelta @ ''.'')"
    "HasPrefix k (change_base c @ segTask @ ''.'') \<Longrightarrow>
       \<exists>i < length (tasks_of (ch_Tasks c)). \<exists>f. k = (change_base c @ segTask @ ''.'') @ Itoa (int i) @ dot # f"
  using assms unfolding beside_def by blast+

lemma ix_filter: "Q k \<Longrightarrow> ix (indexFacts (filter (\<lambda>f. Q (ft_Predicate f)) facts)) k = ix (indexFacts facts) k"
  unfolding ix_def get_indexFacts by (induction facts) auto

lemma stored_core:
  assumes "stored_change c facts"
  obtains W where "kept_in (change_base c) (facts_of (change_pairs c)) (filter (\<lambda>f. ft_Predicate f \<notin> W) facts)"
    "\<And>k. k \<in> W \<Longrightarrow> beside c k" "distinct (gm_keys (change_pairs c))"
proof -
  from assms obtain V where V: "kept_in (change_base c) (change_Facts c @ V) facts" "\<forall>f \<in> set V. beside c (ft_Predicate f)"
    and ok: "change_facts_ok c" by (auto simp: stored_change_def)
  let ?W = "ft_Predicate ` set V"
  have mine: "ft_Predicate f \<notin> ?W" if "f \<in> set (change_Facts c)" for f
  proof -
    have "ft_Predicate f \<in> set (gm_keys (change_pairs c))"
      using that unfolding change_Facts_pairs facts_of_def by (auto intro: rev_image_eqI)
    then show ?thesis using V(2) besideD(1) by (metis imageE)
  qed
  let ?out = "filter (\<lambda>f. ft_Predicate f \<notin> ?W)"
  have "mset (filter (\<lambda>f. HasPrefix (ft_Predicate f) (change_base c)) (?out facts)) = mset (?out (filter (\<lambda>f. HasPrefix (ft_Predicate f) (change_base c)) facts))"
    by (simp add: conj_commute)
  also have "\<dots> = mset (?out (change_Facts c @ V))" using V(1) unfolding kept_in_def mset_filter by simp
  also have "?out (change_Facts c @ V) = change_Facts c" using mine by (simp add: filter_id_conv)
  finally have "kept_in (change_base c) (facts_of (change_pairs c)) (?out facts)" by (simp add: kept_in_def change_Facts_pairs)
  then show thesis using that V(2) ok distinct_change_pairs by blast
qed

lemma change_look:
  assumes "stored_change c facts" "(k, v) \<in> set (change_pairs c)"
  shows "ix (indexFacts facts) k = v"
proof -
  have k: "k \<in> set (gm_keys (change_pairs c))" using assms(2) by (auto intro: rev_image_eqI)
  from assms(1) obtain W where W: "kept_in (change_base c) (facts_of (change_pairs c)) (filter (\<lambda>f. ft_Predicate f \<notin> W) facts)"
    "\<And>k. k \<in> W \<Longrightarrow> beside c k" "distinct (gm_keys (change_pairs c))" by (rule stored_core) blast
  have "ix (indexFacts (filter (\<lambda>f. ft_Predicate f \<notin> W) facts)) k = v"
    by (rule ix_kept [OF assms(2) change_key_prefix [OF k] W(3,1)])
  then show ?thesis using ix_filter [of "\<lambda>k. k \<notin> W" k facts] besideD(1) [OF W(2)] k by metis
qed

lemma change_keys:
  assumes "stored_change c facts" "HasPrefix k (change_base c)" "\<not> beside c k"
  shows "k \<in> set (gm_keys (indexFacts facts)) \<longleftrightarrow> (\<exists>v. (k, v) \<in> set (change_pairs c) \<and> v \<noteq> [])"
proof -
  from assms(1) obtain W where W: "kept_in (change_base c) (facts_of (change_pairs c)) (filter (\<lambda>f. ft_Predicate f \<notin> W) facts)"
    "\<And>k. k \<in> W \<Longrightarrow> beside c k" by (rule stored_core) blast
  then have "k \<in> set (gm_keys (indexFacts facts)) \<longleftrightarrow> k \<in> set (gm_keys (indexFacts (filter (\<lambda>f. ft_Predicate f \<notin> W) facts)))"
    unfolding set_indexFacts using assms(3) by auto
  then show ?thesis using keys_kept [OF assms(2) W(1)] by simp
qed

lemma beside_own: "(k, v) \<in> set (change_pairs c) \<Longrightarrow> \<not> beside c k"
  using besideD(1) by (force intro: rev_image_eqI)

lemma seg_prefix: "HasPrefix k (change_base c @ s @ ''.'') \<Longrightarrow> HasPrefix k (change_base c)"
  by (auto simp: HasPrefix_iff intro: append_prefixD)

lemma group_of_key:
  assumes "k \<in> set (gm_keys (change_pairs c))"
  shows "HasPrefix k (change_base c @ segTask @ ''.'') \<Longrightarrow> k \<in> set (gm_keys (task_keys c))"
    "HasPrefix k (change_base c @ segDelta @ ''.'') \<Longrightarrow> k \<in> set (gm_keys (concat (map (delta_pairs (change_base c @ segDelta @ ''.'')) (ch_Deltas c))))"
proof -
  have t: "j \<in> set (gm_keys (task_keys c)) \<Longrightarrow> HasPrefix j (change_base c @ segTask @ ''.'')" for j
    using group_prefix(3) unfolding task_keys_def by blast
  note apart = segs_apart [OF _ _ seg_plain(1,3)] segs_apart [OF _ _ seg_plain(2,3)] segs_apart [OF _ _ seg_plain(4,3)]
    segs_apart [OF _ _ seg_plain(1,4)] segs_apart [OF _ _ seg_plain(2,4)] segs_apart [OF _ _ seg_plain(3,4)]
  have d: "segProposal \<noteq> segTask" "segDesign \<noteq> segTask" "segDelta \<noteq> segTask" "segProposal \<noteq> segDelta" "segDesign \<noteq> segDelta" "segTask \<noteq> segDelta"
    using seg_distinct by auto
  from assms have k: "k \<in> set (gm_keys (proposal_pairs (change_base c @ segProposal @ ''.'') (ch_Proposal c))) \<or>
      k \<in> set (gm_keys (design_pairs (change_base c @ segDesign @ ''.'') (ch_Design c))) \<or> k \<in> set (gm_keys (task_keys c)) \<or>
      k \<in> set (gm_keys (concat (map (delta_pairs (change_base c @ segDelta @ ''.'')) (ch_Deltas c))))"
    unfolding change_pairs_eq map_append set_append by blast
  show "HasPrefix k (change_base c @ segTask @ ''.'') \<Longrightarrow> k \<in> set (gm_keys (task_keys c))"
    using k apart(1-3) d(1-3) group_prefix(1,2,4) by blast
  show "HasPrefix k (change_base c @ segDelta @ ''.'') \<Longrightarrow> k \<in> set (gm_keys (concat (map (delta_pairs (change_base c @ segDelta @ ''.'')) (ch_Deltas c))))"
    using k apart(4-6) d(4-6) group_prefix(1,2) t by blast
qed

section \<open>Proposal and design\<close>

lemma proposal_read:
  assumes "stored_change c facts"
  shows "proposalFromIndex (indexFacts facts) (change_base c @ segProposal @ ''.'') = proposal_view (ch_Proposal c)"
proof -
  let ?b = "change_base c @ segProposal @ ''.''" and ?p = "case ch_Proposal c of None \<Rightarrow> empty_proposal | Some p \<Rightarrow> p"
  have "ix (indexFacts facts) (?b @ keyIntent) = pp_Intent ?p" "ix (indexFacts facts) (?b @ keyScopeIn) = encodeStrings (pp_ScopeIn ?p)"
    "ix (indexFacts facts) (?b @ keyScopeOut) = encodeStrings (pp_ScopeOut ?p)" "ix (indexFacts facts) (?b @ keyApproach) = pp_Approach ?p"
    by (rule change_look [OF assms], simp add: change_pairs_eq proposal_pairs_def Let_def)+
  then show ?thesis
    unfolding proposalFromIndex_def Let_def proposal_view_def by (simp add: empty_proposal_def split: option.split)
qed

lemma design_read:
  assumes "stored_change c facts"
  shows "designFromIndex (indexFacts facts) (change_base c @ segDesign @ ''.'') = design_view (ch_Design c)"
proof -
  let ?b = "change_base c @ segDesign @ ''.''" and ?d = "case ch_Design c of None \<Rightarrow> empty_design | Some d \<Rightarrow> d"
  have "ix (indexFacts facts) (?b @ keyTechApproach) = dg_TechnicalApproach ?d" "ix (indexFacts facts) (?b @ keyDecisions) = encodeDecisions (dg_Decisions ?d)"
    "ix (indexFacts facts) (?b @ keyDataFlow) = dg_DataFlow ?d" "ix (indexFacts facts) (?b @ keyFileChanges) = encodeFileChanges (dg_FileChanges ?d)"
    by (rule change_look [OF assms], simp add: change_pairs_eq design_pairs_def Let_def)+
  then show ?thesis
    unfolding designFromIndex_def Let_def design_view_def by (simp add: empty_design_def split: option.split)
qed

section \<open>Tasks\<close>

definition child_index :: "string \<Rightarrow> string \<Rightarrow> int option" where
  "child_index base key =
     (if \<not> HasPrefix key base then None
      else (case cut_dot (drop (length base) key) of
              None \<Rightarrow> None | Some (name, _) \<Rightarrow> if snd (Atoi name) then Some (fst (Atoi name)) else None))"

lemma int_children_loop_set:
  "set (int_children_loop base out keys) = set out \<union> {n. \<exists>k \<in> set keys. child_index base k = Some n}"
proof (induction keys arbitrary: out)
  case (Cons key keys)
  have "set (int_children_loop base out (key # keys)) =
      set (int_children_loop base (case child_index base key of None \<Rightarrow> out | Some n \<Rightarrow> if n \<in> set out then out else out @ [n]) keys)"
    by (auto simp: child_index_def Let_def case_prod_beta split: option.split)
  then show ?case using Cons by (auto split: option.split)
qed simp

lemma int_children_loop_distinct: "distinct out \<Longrightarrow> distinct (int_children_loop base out keys)"
  by (induction keys arbitrary: out) (auto simp: Let_def case_prod_beta split: option.split)

lemma task_key:
  assumes "k \<in> set (gm_keys (task_keys c))"
  obtains i f where "i < length (tasks_of (ch_Tasks c))" "k = (change_base c @ segTask @ ''.'') @ Itoa (int i) @ dot # f"
proof -
  from assms obtain i st where m: "(i, st) \<in> set (zip [0..<length (tasks_of (ch_Tasks c))] (tasks_of (ch_Tasks c)))"
    "k \<in> set (gm_keys (task_pairs (change_base c @ segTask @ ''.'') i st))"
    by (auto simp: task_keys_def)
  have "i < length (tasks_of (ch_Tasks c))" using m(1) by (auto dest: set_zip_leftD)
  moreover have "\<exists>f. k = (change_base c @ segTask @ ''.'') @ Itoa (int i) @ dot # f"
    using m(2) by (auto simp: task_pairs_def Let_def)
  ultimately show thesis using that by blast
qed

lemma task_pairs_in:
  assumes "i < length (tasks_of (ch_Tasks c))"
  shows "set (task_pairs (change_base c @ segTask @ ''.'') i (tasks_of (ch_Tasks c) ! i)) \<subseteq> set (change_pairs c)"
proof -
  have "(i, tasks_of (ch_Tasks c) ! i) \<in> set (zip [0..<length (tasks_of (ch_Tasks c))] (tasks_of (ch_Tasks c)))"
    using assms by (auto simp: in_set_zip intro!: exI [of _ i])
  then have "task_pairs (change_base c @ segTask @ ''.'') i (tasks_of (ch_Tasks c) ! i) \<in>
      set (map (\<lambda>(i, st). task_pairs (change_base c @ segTask @ ''.'') i st) (zip [0..<length (tasks_of (ch_Tasks c))] (tasks_of (ch_Tasks c))))"
    by (auto intro: rev_image_eqI)
  then have "set (task_pairs (change_base c @ segTask @ ''.'') i (tasks_of (ch_Tasks c) ! i)) \<subseteq> set (task_keys c)"
    unfolding task_keys_def set_concat by blast
  then show ?thesis unfolding change_pairs_eq set_append by blast
qed

lemma child_index_task:
  assumes "i < 2 ^ 63"
  shows "child_index b (b @ Itoa (int i) @ dot # f) = Some (int i)"
  using cut_dot_segment [of "Itoa (int i)" f] nat_str_no_dot [of i] Atoi_Itoa [OF clamp64_nat [OF assms]]
  by (simp add: child_index_def Itoa_nat)

lemma task_indices:
  assumes "stored_change c facts" "\<And>ks. mset (ord ks) = mset ks"
  shows "intChildIndices ord (indexFacts facts) (change_base c @ segTask @ ''.'') = map int [0..<length (tasks_of (ch_Tasks c))]"
proof -
  let ?b = "change_base c @ segTask @ ''.''" and ?n = "length (tasks_of (ch_Tasks c))" and ?idx = "indexFacts facts"
  have bound: "?n < 2 ^ 63" using assms(1) by (simp add: stored_change_def change_facts_ok_def)
  have "set (int_children_loop ?b [] (ord (gm_keys ?idx))) = int ` {..<?n}"
  proof (intro equalityI subsetI)
    fix n assume "n \<in> set (int_children_loop ?b [] (ord (gm_keys ?idx)))"
    then obtain k where k: "k \<in> set (gm_keys ?idx)" "child_index ?b k = Some n"
      unfolding int_children_loop_set mset_eq_setD [OF assms(2)] by auto
    then have pre: "HasPrefix k ?b" by (auto simp: child_index_def split: if_splits)
    obtain i f where "i < ?n" "k = ?b @ Itoa (int i) @ dot # f"
    proof (cases "beside c k")
      case True
      then show thesis using besideD(3) [OF _ pre] that by blast
    next
      case False
      then have "k \<in> set (gm_keys (change_pairs c))"
        using k(1) change_keys [OF assms(1) seg_prefix [OF pre]] by force
      then show thesis using task_key group_of_key(1) pre that by metis
    qed
    with k(2) bound show "n \<in> int ` {..<?n}" using child_index_task [of i ?b f] by simp
  next
    fix n assume "n \<in> int ` {..<?n}"
    then obtain i where i: "i < ?n" "n = int i" by auto
    let ?k = "?b @ Itoa (int i) @ dot # keyDone"
    have "(?k, FormatBool (tk_Done (snd (tasks_of (ch_Tasks c) ! i)))) \<in> set (change_pairs c)"
      using task_pairs_in [OF i(1)] by (simp add: task_pairs_def Let_def)
    moreover have "HasPrefix ?k ?b" by (simp add: HasPrefix_iff)
    ultimately have "?k \<in> set (gm_keys ?idx)" using change_keys [OF assms(1) seg_prefix beside_own] FormatBool_neq_Nil by blast
    then show "n \<in> set (int_children_loop ?b [] (ord (gm_keys ?idx)))"
      unfolding int_children_loop_set mset_eq_setD [OF assms(2)] i(2) using child_index_task [of i ?b keyDone] less_trans [OF i(1) bound]
      by (simp only: append_assoc) blast
  qed
  then show ?thesis
    unfolding intChildIndices_def
    by (intro sorted_distinct_set_unique) (auto simp: int_children_loop_distinct sorted_map distinct_map)
qed

text \<open>Regrouping the flattened tasks.\<close>

lemma regroup_section:
  "gm_get secAt (ts_Name s) = Some (length secs) \<Longrightarrow>
   regroup secAt (secs @ [s]) (map (Pair (ts_Name s)) ts @ rest) = regroup secAt (secs @ [s\<lparr>ts_Tasks := ts_Tasks s @ ts\<rparr>]) rest"
proof (induction ts arbitrary: s)
  case (Cons t ts)
  then show ?case using Cons.IH [of "s\<lparr>ts_Tasks := ts_Tasks s @ [t]\<rparr>"] by simp
qed simp

lemma regroup_flat:
  "distinct (map ts_Name ss) \<Longrightarrow> \<forall>s \<in> set ss. ts_Tasks s \<noteq> [] \<and> gm_get secAt (ts_Name s) = None \<Longrightarrow>
   regroup secAt secs (flat_tasks ss) = secs @ ss"
proof (induction ss arbitrary: secAt secs)
  case (Cons s ss)
  obtain t ts where t: "ts_Tasks s = t # ts" using Cons.prems(2) by (cases "ts_Tasks s") auto
  let ?at = "gm_put (ts_Name s) (length secs) secAt"
  have "regroup secAt secs (flat_tasks (s # ss)) = regroup ?at (secs @ [s\<lparr>ts_Tasks := [t]\<rparr>]) (map (Pair (ts_Name s)) ts @ flat_tasks ss)"
    using Cons.prems(2) t by (cases s) (simp add: flat_tasks_def)
  also have "\<dots> = regroup ?at (secs @ [s]) (flat_tasks ss)"
    using regroup_section [of ?at "s\<lparr>ts_Tasks := [t]\<rparr>" secs ts "flat_tasks ss"] t by (cases s) (simp add: go_map)
  also have "\<dots> = (secs @ [s]) @ ss"
  proof (rule Cons.IH)
    show "distinct (map ts_Name ss)" using Cons.prems(1) by simp
    have "ts_Name s' \<noteq> ts_Name s" if "s' \<in> set ss" for s' using Cons.prems(1) imageI [OF that, of ts_Name] by force
    then show "\<forall>s' \<in> set ss. ts_Tasks s' \<noteq> [] \<and> gm_get ?at (ts_Name s') = None"
      using Cons.prems(2) by (simp add: go_map)
  qed
  finally show ?case by simp
qed (simp add: flat_tasks_def)

lemma change_tasks_read:
  assumes "stored_change c facts" "\<And>ks. mset (ord ks) = mset ks"
  shows "tasksFromIndex ord (indexFacts facts) (change_base c @ segTask @ ''.'') = tasks_view (ch_Tasks c)"
proof -
  let ?b = "change_base c @ segTask @ ''.''" and ?ts = "tasks_of (ch_Tasks c)"
  have "task_at (indexFacts facts) ?b (int i) = ?ts ! i" if i: "i < length ?ts" for i
  proof -
    let ?p = "?b @ Itoa (int i) @ ''.''"
    have get: "ix (indexFacts facts) (?p @ k) = v" if "(?p @ k, v) \<in> set (task_pairs ?b i (?ts ! i))" for k v
      using change_look [OF assms(1)] task_pairs_in [OF i] that by blast
    have "ix (indexFacts facts) (?p @ keyNumber) = tk_Number (snd (?ts ! i))" "ix (indexFacts facts) (?p @ keyText) = tk_Text (snd (?ts ! i))"
      "ix (indexFacts facts) (?p @ keyDone) = FormatBool (tk_Done (snd (?ts ! i)))" "ix (indexFacts facts) (?p @ keySection) = fst (?ts ! i)"
      by (rule get, simp add: task_pairs_def Let_def)+
    then show ?thesis unfolding task_at_def Let_def by (cases "?ts ! i") simp
  qed
  then have flat: "map (task_at (indexFacts facts) ?b) (map int [0..<length ?ts]) = ?ts" by (intro nth_equalityI) simp_all
  show ?thesis
  proof (cases "ch_Tasks c")
    case None
    then show ?thesis by (simp add: tasksFromIndex_def task_indices [OF assms] tasks_of_def tasks_view_def)
  next
    case (Some t)
    then have ok: "distinct (map ts_Name (tt_Sections t))" "\<forall>s \<in> set (tt_Sections t). ts_Tasks s \<noteq> []"
      using assms(1) by (simp_all add: stored_change_def change_facts_ok_def)
    have "regroup [] [] ?ts = tt_Sections t" using regroup_flat [of "tt_Sections t" "[]" "[]"] ok Some by (simp add: tasks_of_def)
    moreover have "?ts = [] \<longleftrightarrow> tt_Sections t = []"
      using ok(2) Some by (cases "tt_Sections t") (auto simp: tasks_of_def flat_tasks_def)
    ultimately show ?thesis
      using flat Some by (simp add: tasksFromIndex_def task_indices [OF assms] tasks_view_def Let_def)
  qed
qed

section \<open>Deltas\<close>

lemma cut_last_dot_segment: "dot \<notin> set f \<Longrightarrow> cut_last_dot (a @ dot # f) = Some (a, f)"
proof -
  assume f: "dot \<notin> set f"
  have "takeWhile (\<lambda>c. c \<noteq> dot) (rev f @ dot # rev a) = rev f"
    using f by (subst takeWhile_append2) auto
  then show ?thesis by (simp add: cut_last_dot_def)
qed

lemma parseDeltaTail_key:
  "dot \<notin> set rid \<Longrightarrow> dot \<notin> set f \<Longrightarrow> cap \<noteq> [] \<Longrightarrow> rid \<noteq> [] \<Longrightarrow> f \<noteq> [] \<Longrightarrow>
   parseDeltaTail (cap @ dot # rid @ dot # f) = Some (cap, rid, f)"
  using cut_last_dot_segment [of f "cap @ dot # rid"] cut_last_dot_segment [of rid cap] by (simp add: parseDeltaTail_def)

text \<open>The scan in two steps: which requirements are met for the first time, and how they are grouped.\<close>

definition scan_of :: "string \<Rightarrow> string \<Rightarrow> (string \<times> string) option" where
  "scan_of base key =
     (if HasPrefix key base then map_option (\<lambda>(c, r, _). (c, r)) (parseDeltaTail (drop (length base) key)) else None)"

definition entry_key :: "string \<times> string \<Rightarrow> string" where
  "entry_key cr = fst cr @ CHR 0x00 # snd cr"

definition put_entry :: "(string \<Rightarrow> string \<Rightarrow> int) \<Rightarrow> (string \<times> (string \<times> int) list) list \<Rightarrow> string \<times> string \<Rightarrow> (string \<times> (string \<times> int) list) list" where
  "put_entry pos m cr = gm_put (fst cr) ((case gm_get m (fst cr) of None \<Rightarrow> [] | Some es \<Rightarrow> es) @ [(snd cr, pos (fst cr) (snd cr))]) m"

definition stored_pos :: "(string \<times> string) list \<Rightarrow> string \<Rightarrow> string \<Rightarrow> string \<Rightarrow> int" where
  "stored_pos idx base cap rid = fst (Atoi (ix idx (base @ cap @ ''.'' @ rid @ ''.'' @ keyPosition)))"

lemma last_mark_inject: "m \<notin> set f \<Longrightarrow> m \<notin> set g \<Longrightarrow> a @ m # f = b @ m # g \<longleftrightarrow> a = b \<and> f = g"
  by (auto simp: append_eq_append_conv2 append_eq_Cons_conv Cons_eq_append_conv)

lemma entry_key_inject:
  assumes "CHR 0x00 \<notin> set (snd x)" "CHR 0x00 \<notin> set (snd y)"
  shows "entry_key x = entry_key y \<longleftrightarrow> x = y"
  using last_mark_inject [OF assms] by (simp add: entry_key_def prod_eq_iff)

lemma delta_scan_grouped:
  assumes "\<forall>k \<in> set keys. \<forall>x. scan_of base k = Some x \<longrightarrow> CHR 0x00 \<notin> set (snd x)" "\<forall>x \<in> set S. CHR 0x00 \<notin> set (snd x)"
  shows "delta_scan idx base (map entry_key S) byCap keys =
     foldl (put_entry (stored_pos idx base)) byCap (keep_first S (List.map_filter (scan_of base) keys))"
  using assms
proof (induction keys arbitrary: S byCap)
  case (Cons key keys)
  show ?case
  proof (cases "scan_of base key")
    case None
    then have "delta_scan idx base (map entry_key S) byCap (key # keys) = delta_scan idx base (map entry_key S) byCap keys"
      by (auto simp: scan_of_def split: if_splits option.splits)
    then show ?thesis using Cons None by (simp add: map_filter_simps)
  next
    case (Some x)
    obtain cap rid where x: "x = (cap, rid)" by (cases x)
    obtain f where pre: "HasPrefix key base" "parseDeltaTail (drop (length base) key) = Some (cap, rid, f)"
      using Some x by (auto simp: scan_of_def split: if_splits)
    have nul: "CHR 0x00 \<notin> set (snd x)" using Cons.prems(1) Some by (metis list.set_intros(1))
    have "entry_key x \<in> set (map entry_key S) \<longleftrightarrow> x \<in> set S" using entry_key_inject [OF nul] Cons.prems(2) by auto
    then have step: "delta_scan idx base (map entry_key S) byCap (key # keys) =
       (if x \<in> set S then delta_scan idx base (map entry_key S) byCap keys
        else delta_scan idx base (map entry_key (x # S)) (put_entry (stored_pos idx base) byCap x) keys)"
      using pre by (simp add: x entry_key_def put_entry_def stored_pos_def Let_def)
    have IH: "\<forall>y \<in> set T. CHR 0x00 \<notin> set (snd y) \<Longrightarrow> delta_scan idx base (map entry_key T) m keys =
        foldl (put_entry (stored_pos idx base)) m (keep_first T (List.map_filter (scan_of base) keys))" for T m
      using Cons.IH Cons.prems(1) by (metis list.set_intros(2))
    have "\<forall>y \<in> set (x # S). CHR 0x00 \<notin> set (snd y)" using Cons.prems(2) nul by simp
    then show ?thesis unfolding step using IH [OF Cons.prems(2)] IH [of "x # S"] Some by (simp add: map_filter_simps del: delta_scan.simps)
  qed
qed (simp add: map_filter_simps)

lemma get_put_entries:
  "gm_get (foldl (put_entry pos) m ps) cap =
     (let es = map (\<lambda>cr. (snd cr, pos cap (snd cr))) (filter (\<lambda>cr. fst cr = cap) ps) in
      case gm_get m cap of None \<Rightarrow> if es = [] then None else Some es | Some es0 \<Rightarrow> Some (es0 @ es))"
proof (induction ps arbitrary: m)
  case (Cons x ps)
  have "gm_get (put_entry pos m x) cap =
      (if fst x = cap then Some ((case gm_get m cap of None \<Rightarrow> [] | Some es \<Rightarrow> es) @ [(snd x, pos cap (snd x))]) else gm_get m cap)"
    by (auto simp: put_entry_def go_map)
  then show ?case using Cons.IH [of "put_entry pos m x"] by (cases "gm_get m cap") (simp_all add: Let_def)
qed (simp split: option.split)

lemma keys_put_entries:
  "distinct (gm_keys m) \<Longrightarrow> distinct (gm_keys (foldl (put_entry pos) m ps)) \<and> set (gm_keys (foldl (put_entry pos) m ps)) = set (gm_keys m) \<union> fst ` set ps"
proof (induction ps arbitrary: m)
  case (Cons x ps)
  have "distinct (gm_keys (put_entry pos m x))" unfolding put_entry_def by (rule distinct_gm_put [OF Cons.prems])
  moreover have "set (gm_keys (put_entry pos m x)) = insert (fst x) (set (gm_keys m))" unfolding put_entry_def by (rule set_gm_keys_put)
  ultimately show ?case using Cons.IH [of "put_entry pos m x"] by (simp del: set_map)
qed simp

text \<open>Reading the items of one delta.\<close>

fun put_item :: "delta_item \<Rightarrow> Delta \<Rightarrow> Delta" where
  "put_item (ItemAdded r) d = d\<lparr>dl_Added := dl_Added d @ [r]\<rparr>"
| "put_item (ItemModified m) d = d\<lparr>dl_Modified := dl_Modified d @ [m]\<rparr>"
| "put_item (ItemRemoved rm) d = d\<lparr>dl_Removed := dl_Removed d @ [rm]\<rparr>"

lemma fold_put_item:
  "fold put_item (map ItemAdded as) d = d\<lparr>dl_Added := dl_Added d @ as\<rparr>"
  "fold put_item (map ItemModified ms) d = d\<lparr>dl_Modified := dl_Modified d @ ms\<rparr>"
  "fold put_item (map ItemRemoved rs) d = d\<lparr>dl_Removed := dl_Removed d @ rs\<rparr>"
proof -
  show "fold put_item (map ItemAdded as) d = d\<lparr>dl_Added := dl_Added d @ as\<rparr>" by (induction as arbitrary: d) simp_all
  show "fold put_item (map ItemModified ms) d = d\<lparr>dl_Modified := dl_Modified d @ ms\<rparr>" by (induction ms arbitrary: d) simp_all
  show "fold put_item (map ItemRemoved rs) d = d\<lparr>dl_Removed := dl_Removed d @ rs\<rparr>" by (induction rs arbitrary: d) simp_all
qed

lemma fold_delta_items:
  "fold put_item (delta_items d) \<lparr>dl_Capability = dl_Capability d, dl_Title = [], dl_Added = [], dl_Modified = [], dl_Removed = [], dl_Warnings = []\<rparr> = delta_view d"
  by (cases d) (simp add: delta_items_def fold_put_item delta_view_def)

lemma rids_no_nul: "CHR 0x00 \<notin> set (fst (mint seen n))"
proof -
  have k: "CHR 0x00 \<notin> set t" if "t = [] \<or> lower_kebab t" for t
    using that by (auto simp: lower_kebab_def list_all_iff kebab_char_def byte_class_defs byte_val_def)
  have "CHR 0x00 \<notin> set (nat_str m)" for m using nat_str_digits [of "CHR 0x00" m] by (auto simp: is_digit_def byte_val_def)
  moreover have "CHR 0x00 \<notin> set (rid_base n)" using k [OF Slugify_kebab] by (auto simp: rid_base_def)
  ultimately show ?thesis by (simp add: mint_tag rid_tag_def)
qed

lemma delta_ids_no_nul: "(rid, i, x) \<in> set (delta_ids d) \<Longrightarrow> CHR 0x00 \<notin> set rid"
proof -
  have "\<forall>r \<in> set (rids seen ns). CHR 0x00 \<notin> set r" for seen ns
    by (induction ns arbitrary: seen) (simp_all add: rids_no_nul)
  moreover assume "(rid, i, x) \<in> set (delta_ids d)"
  then have "rid \<in> set (rids [] (map item_name (delta_items d)))"
    unfolding delta_ids_def by (metis fst_conv image_eqI map_numbered(1) set_map)
  ultimately show ?thesis by blast
qed

lemma delta_item_in:
  assumes "d \<in> set (ch_Deltas c)" "(rid, i, x) \<in> set (delta_ids d)"
  shows "set (item_pairs (change_base c @ segDelta @ ''.'' @ dl_Capability d @ ''.'' @ rid @ ''.'') x i) \<subseteq> set (change_pairs c)"
proof -
  have "item_pairs (change_base c @ segDelta @ ''.'' @ dl_Capability d @ ''.'' @ rid @ ''.'') x i \<in>
      set (map (\<lambda>(rid, i, x). item_pairs ((change_base c @ segDelta @ ''.'') @ dl_Capability d @ ''.'' @ rid @ ''.'') x i) (delta_ids d))"
    using assms(2) by (auto intro: rev_image_eqI)
  then have "set (item_pairs (change_base c @ segDelta @ ''.'' @ dl_Capability d @ ''.'' @ rid @ ''.'') x i) \<subseteq> set (delta_pairs (change_base c @ segDelta @ ''.'') d)"
    unfolding delta_pairs_def set_concat by blast
  moreover have "set (delta_pairs (change_base c @ segDelta @ ''.'') d) \<subseteq> set (change_pairs c)"
    using assms(1) by (auto simp: change_pairs_eq)
  ultimately show ?thesis by blast
qed

text \<open>One entry read back, and its position.\<close>

lemma delta_entry_read:
  assumes "stored_change c facts" "d \<in> set (ch_Deltas c)" "(rid, i, x) \<in> set (delta_ids d)"
  shows "read_entry (indexFacts facts) ((change_base c @ segDelta @ ''.'') @ dl_Capability d @ ''.'') rid e = put_item x e"
    "stored_pos (indexFacts facts) (change_base c @ segDelta @ ''.'') (dl_Capability d) rid = int i"
    "(change_base c @ segDelta @ ''.'') @ dl_Capability d @ dot # rid @ dot # keyOp \<in> set (gm_keys (indexFacts facts))"
proof -
  let ?p = "change_base c @ segDelta @ ''.'' @ dl_Capability d @ ''.'' @ rid @ ''.''" and ?idx = "indexFacts facts"
  note sub = delta_item_in [OF assms(2,3)]
  have get: "ix ?idx k = v" if "(k, v) \<in> set (item_pairs ?p x i)" for k v
    using change_look [OF assms(1)] sub that by blast
  have req: "requirementFromIndex ?idx ?p = r" if "set (req_pairs ?p r i) \<subseteq> set (item_pairs ?p x i)" for r
  proof -
    have "ix ?idx (?p @ keyName) = r_Name r" "ix ?idx (?p @ keyStatement) = r_Statement r"
      "ix ?idx (?p @ keyScenarios) = encodeScenarios (r_Scenarios r)"
      by (rule get, rule subsetD [OF that], simp add: req_pairs_def)+
    then show ?thesis by (simp add: requirementFromIndex_def)
  qed
  have ops: "opAdded \<noteq> opModified" "opAdded \<noteq> opRemoved" "opModified \<noteq> opRemoved" by (simp_all add: key_defs)
  have "read_entry ?idx (change_base c @ segDelta @ ''.'' @ dl_Capability d @ ''.'') rid e = put_item x e"
  proof (cases x)
    case (ItemAdded r)
    have "ix ?idx (?p @ keyOp) = opAdded" by (rule get) (simp add: ItemAdded)
    then show ?thesis using req [of r] ItemAdded by (simp add: read_entry_def Let_def subset_insertI)
  next
    case (ItemModified m)
    have "ix ?idx (?p @ keyOp) = opModified" "ix ?idx (?p @ keyPreviously) = mq_Previously m" by (rule get, simp add: ItemModified)+
    moreover have "requirementFromIndex ?idx ?p = mq_Requirement m" by (rule req) (auto simp: ItemModified)
    ultimately show ?thesis using ItemModified ops by (cases m) (simp add: read_entry_def Let_def)
  next
    case (ItemRemoved rm)
    have "ix ?idx (?p @ keyOp) = opRemoved" "ix ?idx (?p @ keyName) = rv_Name rm" "ix ?idx (?p @ keyRationale) = rv_Rationale rm"
      by (rule get, simp add: ItemRemoved)+
    then show ?thesis using ItemRemoved ops by (cases rm) (simp add: read_entry_def Let_def)
  qed
  then show "read_entry ?idx ((change_base c @ segDelta @ ''.'') @ dl_Capability d @ ''.'') rid e = put_item x e" by simp
  have "ix ?idx (?p @ keyPosition) = Itoa (int i)" by (rule get) (cases x; simp add: req_pairs_def)
  moreover have "i < 2 ^ 63"
    using numbered_bounds [of rid i x] assms unfolding delta_ids_def stored_change_def change_facts_ok_def by fastforce
  ultimately show "stored_pos ?idx (change_base c @ segDelta @ ''.'') (dl_Capability d) rid = int i"
    by (simp add: stored_pos_def Atoi_Itoa clamp64_nat)
  obtain v where "(?p @ keyOp, v) \<in> set (item_pairs ?p x i)" "v \<noteq> []" by (cases x) (auto simp: key_defs)
  then have v: "(?p @ keyOp, v) \<in> set (change_pairs c)" "v \<noteq> []" using sub by blast+
  have "HasPrefix (?p @ keyOp) (change_base c)" by (simp add: HasPrefix_iff)
  then have "?p @ keyOp \<in> set (gm_keys ?idx)" using change_keys [OF assms(1) _ beside_own [OF v(1)]] v by blast
  then show "(change_base c @ segDelta @ ''.'') @ dl_Capability d @ dot # rid @ dot # keyOp \<in> set (gm_keys ?idx)" by simp
qed

lemma delta_scan_of:
  assumes "stored_change c facts" "k \<in> set (gm_keys (indexFacts facts))" "scan_of (change_base c @ segDelta @ ''.'') k = Some y"
  obtains d i x where "d \<in> set (ch_Deltas c)" "(snd y, i, x) \<in> set (delta_ids d)" "fst y = dl_Capability d"
proof -
  let ?b = "change_base c @ segDelta @ ''.''"
  have pre: "HasPrefix k ?b" using assms(3) by (auto simp: scan_of_def split: if_splits)
  then have "k \<in> set (gm_keys (change_pairs c))" using change_keys [OF assms(1) seg_prefix] besideD(2) assms(2) by force
  then have "k \<in> set (gm_keys (concat (map (delta_pairs ?b) (ch_Deltas c))))" using group_of_key(2) pre by blast
  then obtain d where d: "d \<in> set (ch_Deltas c)" "k \<in> set (gm_keys (delta_pairs ?b d))" by auto
  from d(2) obtain rid i x f where k: "(rid, i, x) \<in> set (delta_ids d)" "k = ?b @ dl_Capability d @ dot # rid @ dot # f"
    "dot \<notin> set rid" "rid \<noteq> []" "dot \<notin> set f" "f \<noteq> []" by (rule delta_key)
  have "dl_Capability d \<noteq> []" using assms(1) d(1) by (simp add: stored_change_def change_facts_ok_def)
  then have "scan_of ?b k = Some (dl_Capability d, rid)"
    using k parseDeltaTail_key [of rid f "dl_Capability d"] pre by (simp add: scan_of_def)
  then show thesis using that [OF d(1), of i x] k(1) assms(3) by simp
qed

lemma scan_of_entry:
  assumes "stored_change c facts" "d \<in> set (ch_Deltas c)" "(rid, i, x) \<in> set (delta_ids d)"
  shows "\<exists>k \<in> set (gm_keys (indexFacts facts)). scan_of (change_base c @ segDelta @ ''.'') k = Some (dl_Capability d, rid)"
proof (rule bexI [OF _ delta_entry_read(3) [OF assms]])
  have "dl_Capability d \<noteq> []" using assms(1,2) by (simp add: stored_change_def change_facts_ok_def)
  moreover have "rid \<noteq> [] \<and> dot \<notin> set rid" using segments_delta_ids [of d] assms(3) by (force simp: segments_def)
  moreover have "dot \<notin> set keyOp" "keyOp \<noteq> []" by (simp_all add: key_defs)
  ultimately show "scan_of (change_base c @ segDelta @ ''.'') ((change_base c @ segDelta @ ''.'') @ dl_Capability d @ dot # rid @ dot # keyOp) =
      Some (dl_Capability d, rid)"
    using parseDeltaTail_key [of rid keyOp "dl_Capability d"] by (simp add: scan_of_def HasPrefix_iff)
qed

lemma set_keep_first_Nil: "set (keep_first [] xs) = set xs"
  by (simp add: set_keep_first)

lemma set_map_filter: "y \<in> set (List.map_filter f xs) \<longleftrightarrow> (\<exists>x \<in> set xs. f x = Some y)"
  by (induction xs) (auto simp: map_filter_simps split: option.split)

lemma delta_ids_order:
  "distinct (map fst (delta_ids d)) \<longleftrightarrow> ids_distinct d" "map (fst \<circ> snd) (delta_ids d) = [0..<length (delta_items d)]"
  "map (snd \<circ> snd) (delta_ids d) = delta_items d"
  using map_numbered [of "[]" item_name 0 "delta_items d"] by (simp_all add: delta_ids_def ids_distinct_def)

lemma entries_in_order:
  assumes "ids_distinct d" "distinct es" "set es = (\<lambda>(rid, i, x). (rid, int i)) ` set (delta_ids d)"
  shows "map fst (sort_key snd es) = map fst (delta_ids d)"
proof -
  let ?ys = "map (\<lambda>(rid, i, x). (rid, int i)) (delta_ids d)"
  have fst_ys: "map fst ?ys = map fst (delta_ids d)" by (simp add: comp_def case_prod_unfold)
  have snd_ys: "map snd ?ys = map int [0..<length (delta_items d)]"
    unfolding delta_ids_order(2) [symmetric] by (simp add: comp_def case_prod_unfold)
  have "distinct (map fst ?ys)" unfolding fst_ys using assms(1) by (simp add: delta_ids_order(1))
  then have "distinct ?ys" unfolding distinct_map [of fst] by blast
  moreover have eq: "set es = set ?ys" using assms(3) by simp
  ultimately have "mset es = mset ?ys" using assms(2) set_eq_iff_mset_eq_distinct by blast
  moreover have "distinct (map snd ?ys)" unfolding snd_ys by (simp add: distinct_map)
  then have "inj_on snd (set ?ys)" unfolding distinct_map [of snd] by blast
  then have "inj_on snd (set es)" by (simp only: eq)
  moreover have "sorted (map snd ?ys)" unfolding snd_ys by (simp add: sorted_map)
  ultimately have "sort_key snd es = ?ys" by (intro sort_key_inj_key_eq)
  with fst_ys show ?thesis by simp
qed

lemma deltas_read:
  assumes "stored_change c facts" "\<And>ks. mset (ord ks) = mset ks"
  shows "deltasFromIndex ord (indexFacts facts) (change_base c @ segDelta @ ''.'') = map delta_view (ch_Deltas c)"
proof -
  let ?b = "change_base c @ segDelta @ ''.''" and ?idx = "indexFacts facts"
  define U where "U = keep_first [] (List.map_filter (scan_of ?b) (ord (gm_keys ?idx)))"
  define m where "m = foldl (put_entry (stored_pos ?idx ?b)) [] U"
  have keys: "set (ord (gm_keys ?idx)) = set (gm_keys ?idx)" using mset_eq_setD [OF assms(2)] .
  have U: "(cap, rid) \<in> set U \<longleftrightarrow> (\<exists>d \<in> set (ch_Deltas c). cap = dl_Capability d \<and> rid \<in> fst ` set (delta_ids d))" for cap rid
  proof -
    have "(cap, rid) \<in> set U \<longleftrightarrow> (\<exists>k \<in> set (gm_keys ?idx). scan_of ?b k = Some (cap, rid))"
      unfolding U_def set_keep_first_Nil set_map_filter keys by blast
    also have "\<dots> \<longleftrightarrow> (\<exists>d \<in> set (ch_Deltas c). cap = dl_Capability d \<and> rid \<in> fst ` set (delta_ids d))"
    proof
      assume "\<exists>k \<in> set (gm_keys ?idx). scan_of ?b k = Some (cap, rid)"
      then obtain k where "k \<in> set (gm_keys ?idx)" "scan_of ?b k = Some (cap, rid)" by blast
      then obtain d i x where "d \<in> set (ch_Deltas c)" "(rid, i, x) \<in> set (delta_ids d)" "cap = dl_Capability d"
        using delta_scan_of [OF assms(1), of k "(cap, rid)"] by auto
      moreover from this have "rid \<in> fst ` set (delta_ids d)" by (intro image_eqI [of _ _ "(rid, i, x)"]) simp_all
      ultimately show "\<exists>d \<in> set (ch_Deltas c). cap = dl_Capability d \<and> rid \<in> fst ` set (delta_ids d)" by blast
    qed (use scan_of_entry [OF assms(1)] in fastforce)
    finally show ?thesis .
  qed
  have nul: "\<forall>k \<in> set (ord (gm_keys ?idx)). \<forall>y. scan_of ?b k = Some y \<longrightarrow> CHR 0x00 \<notin> set (snd y)"
    using delta_scan_of [OF assms(1)] delta_ids_no_nul unfolding keys by metis
  have scan: "delta_scan ?idx ?b [] [] (ord (gm_keys ?idx)) = m"
    using delta_scan_grouped [OF nul, of "[]" ?idx "[]"] by (simp add: m_def U_def)
  have sorted: "sorted_wrt (<) (map dl_Capability (ch_Deltas c))" and
    items: "\<forall>d \<in> set (ch_Deltas c). delta_items d \<noteq> [] \<and> ids_distinct d"
    using assms(1) by (simp_all add: stored_change_def change_facts_ok_def)
  have ids: "delta_ids d \<noteq> []" if "d \<in> set (ch_Deltas c)" for d
    using items that delta_ids_order(3) [of d] by auto
  have m: "distinct (gm_keys m)" "set (gm_keys m) = fst ` set U" using keys_put_entries [of "[]" _ U] by (auto simp: m_def)
  have "fst ` set U = dl_Capability ` set (ch_Deltas c)"
  proof (intro equalityI subsetI)
    fix cap assume "cap \<in> dl_Capability ` set (ch_Deltas c)"
    then obtain d where d: "d \<in> set (ch_Deltas c)" "cap = dl_Capability d" by auto
    then obtain rid i x where "(rid, i, x) \<in> set (delta_ids d)" using ids by (cases "delta_ids d") auto
    then have "(cap, rid) \<in> set U" using U d by force
    then show "cap \<in> fst ` set U" by (auto intro: rev_image_eqI)
  qed (use U in auto)
  then have caps: "sort (gm_keys m) = map dl_Capability (ch_Deltas c)"
    using sorted m by (intro sorted_distinct_set_unique) (auto simp: strict_sorted_iff)
  have each: "fold (read_entry ?idx (?b @ dl_Capability d @ ''.'')) (map fst (sort_key snd (the (gm_get m (dl_Capability d)))))
      \<lparr>dl_Capability = dl_Capability d, dl_Title = [], dl_Added = [], dl_Modified = [], dl_Removed = [], dl_Warnings = []\<rparr> = delta_view d"
    if d: "d \<in> set (ch_Deltas c)" for d
  proof -
    let ?es = "map (\<lambda>cr. (snd cr, stored_pos ?idx ?b (dl_Capability d) (snd cr))) (filter (\<lambda>cr. fst cr = dl_Capability d) U)"
    have unique: "e = d" if "e \<in> set (ch_Deltas c)" "dl_Capability e = dl_Capability d" for e
      using sorted that d by (auto simp: strict_sorted_iff distinct_map dest: inj_onD)
    have U_d: "(dl_Capability d, rid) \<in> set U \<longleftrightarrow> rid \<in> fst ` set (delta_ids d)" for rid
      using U [of "dl_Capability d" rid] unique d by auto
    have set_es: "set ?es = (\<lambda>(rid, i, x). (rid, int i)) ` set (delta_ids d)"
    proof -
      have "set ?es = (\<lambda>rid. (rid, stored_pos ?idx ?b (dl_Capability d) rid)) ` fst ` set (delta_ids d)"
        using U_d by (auto simp: image_def)
      also have "\<dots> = (\<lambda>(rid, i, x). (rid, int i)) ` set (delta_ids d)"
        using delta_entry_read(2) [OF assms(1) d] by (force simp: image_image case_prod_unfold)
      finally show ?thesis .
    qed
    have "distinct U" by (simp add: U_def distinct_keep_first)
    then have dist: "distinct ?es" by (auto simp: distinct_map inj_on_def)
    have "set ?es \<noteq> {}" unfolding set_es using ids [OF d] by (simp only: image_is_empty set_empty not_False_eq_True)
    then have "?es \<noteq> []" by (metis list.set(1))
    then have "gm_get m (dl_Capability d) = Some ?es" unfolding m_def get_put_entries by (simp add: Let_def)
    then have "map fst (sort_key snd (the (gm_get m (dl_Capability d)))) = map fst (delta_ids d)"
      using entries_in_order [OF _ dist set_es] items d by simp
    moreover have "fold (read_entry ?idx (?b @ dl_Capability d @ ''.'')) (map fst xs) e = fold put_item (map (snd \<circ> snd) xs) e"
      if "set xs \<subseteq> set (delta_ids d)" for xs e
      using that by (induction xs arbitrary: e) (auto simp: delta_entry_read(1) [OF assms(1) d, simplified])
    ultimately show ?thesis using fold_delta_items [of d] by (simp add: delta_ids_order(3))
  qed
  show ?thesis
    unfolding deltasFromIndex_def Let_def scan caps by (simp add: each del: append_assoc)
qed

lemma change_reads_back:
  assumes "\<And>ks. mset (ord ks) = mset ks" "change_facts_ok c"
    "mset (filter (\<lambda>f. HasPrefix (ft_Predicate f) (ChangeEntityPrefix (ch_Slug c))) facts) = mset (change_Facts c @ W)"
    "\<And>f. f \<in> set W \<Longrightarrow> beside c (ft_Predicate f)"
  shows "ChangeFromFacts ord (ch_Slug c) facts = change_view c"
proof -
  have base: "change_base c = ChangeEntityPrefix (ch_Slug c)" by (simp add: change_base_def ChangeEntityPrefix_def)
  have "stored_change c facts" using assms(2,3,4) by (auto simp: stored_change_def kept_in_def base intro!: exI [of _ W])
  from proposal_read [OF this] design_read [OF this] change_tasks_read [OF this assms(1)] deltas_read [OF this assms(1)]
  show ?thesis by (simp add: ChangeFromFacts_def change_view_def change_base_def Let_def)
qed

text \<open>
  C5. A change survives the graph: whatever order its facts are stored in, whatever facts of other subjects
  or of its writer are stored with them and however the index is walked, reading them back gives the
  change, less headings, extra sections and diagnostics, artifacts without content coming back absent. The change must
  have named, non-empty deltas in ascending order with different requirement ids, and its task
  sections different names and at least one task each.
\<close>

theorem ChangeFromFacts_roundtrip:
  assumes "\<And>ks. mset (ord ks) = mset ks" "change_facts_ok c"
    "mset (filter (\<lambda>f. HasPrefix (ft_Predicate f) (ChangeEntityPrefix (ch_Slug c))) facts) = mset (change_Facts c @ W)"
    "\<And>f. f \<in> set W \<Longrightarrow> beside c (ft_Predicate f)"
  shows "ChangeFromFacts ord (ch_Slug c) facts = change_view c"
  by (rule change_reads_back [OF assms])

section \<open>Witness\<close>

definition stored_sample :: Change where
  "stored_sample = \<lparr>ch_Slug = ''logout'',
     ch_Proposal = Some \<lparr>pp_Title = ''P'', pp_Intent = ''Leave'', pp_ScopeIn = [''ui'', ''api''], pp_ScopeOut = [], pp_Approach = [], pp_ExtraSections = []\<rparr>,
     ch_Design = None,
     ch_Tasks = Some \<lparr>tt_Title = ''T'', tt_Sections = [\<lparr>ts_Name = ''UI'', ts_Tasks =
        [\<lparr>tk_Number = ''1.1'', tk_Text = ''Button'', tk_Done = True\<rparr>, \<lparr>tk_Number = ''1.2'', tk_Text = ''Text'', tk_Done = False\<rparr>]\<rparr>]\<rparr>,
     ch_Deltas = [\<lparr>dl_Capability = ''auth'', dl_Title = ''D'', dl_Added = [\<lparr>r_Name = ''Log out'', r_Statement = ''It SHALL end.'', r_Scenarios = []\<rparr>],
        dl_Modified = [], dl_Removed = [\<lparr>rv_Name = ''Log out'', rv_Rationale = ''old''\<rparr>], dl_Warnings = []\<rparr>]\<rparr>"

definition stored_change_facts :: "Fact list" where
  "stored_change_facts = rev (\<lparr>ft_Predicate = ''change.login.task.0.text'', ft_Object = ''B''\<rparr> # change_Facts stored_sample)"

theorem ChangeFromFacts_roundtrip_witness:
  "ChangeFromFacts rev (ch_Slug stored_sample) stored_change_facts = change_view stored_sample"
proof (rule ChangeFromFacts_roundtrip [where W = "[]"])
  have "filter (\<lambda>f. HasPrefix (ft_Predicate f) (ChangeEntityPrefix (ch_Slug stored_sample))) stored_change_facts = rev (change_Facts stored_sample)"
    by code_simp
  then show "mset (filter (\<lambda>f. HasPrefix (ft_Predicate f) (ChangeEntityPrefix (ch_Slug stored_sample))) stored_change_facts) =
      mset (change_Facts stored_sample @ [])" by simp
  have "distinct (rids [] (map item_name (delta_items (hd (ch_Deltas stored_sample)))))" by code_simp
  then show "change_facts_ok stored_sample"
    by (simp add: change_facts_ok_def ids_distinct_def stored_sample_def delta_items_def tasks_of_def flat_tasks_def)
qed simp_all

end
