(* ===== verification/Tool_Call.thy ===== *)
theory Tool_Call
  imports Run_Anchor Go_Json_Read "HOL-Library.Monad_Syntax"
begin

text \<open>
  What the tool executors under \<^verbatim>\<open>tools/\<close> share: the call of the framework with its arguments, the result
  with its error class, and the strict decoding of arguments into structs, \<^verbatim>\<open>json.Decoder\<close> with
  \<^verbatim>\<open>DisallowUnknownFields\<close>. Arguments are the JSON value that \<^verbatim>\<open>json.Marshal\<close> writes for the map of the
  call, in which a field is named once; a nil map is \<open>None\<close>. An error message is a value of the error type of the tool; of a decoding
  error only that it occurred is kept.
\<close>

record tool_call = ToolCall +
  tc_ID :: string
  tc_Name :: string
  tc_Arguments :: "jval option"

datatype ToolErrorKind = ToolErrorNotFound | ToolErrorInvalidArgs | ToolErrorInternal | ToolErrorNetwork

record 'e ToolResult =
  tr_CallID :: string
  tr_Name :: string
  tr_Content :: string
  tr_Error :: "('e \<times> ToolErrorKind) option"
  tr_Metadata :: "(string \<times> string) list"

definition errResult :: "tool_call \<Rightarrow> ToolErrorKind \<Rightarrow> 'e \<Rightarrow> 'e ToolResult" where
  "errResult call kind e = \<lparr>tr_CallID = tc_ID call, tr_Name = tc_Name call, tr_Content = [], tr_Error = Some (e, kind), tr_Metadata = []\<rparr>"

section \<open>Strict decoding\<close>

text \<open>
  The members of an object all of which name a field; a null leaves the zero value. A nil slice is told
  apart from an empty one where the code does: \<open>nil_slice_field\<close>.
\<close>

definition strict_fields :: "string list \<Rightarrow> jval \<Rightarrow> (string \<times> jval) list option" where
  "strict_fields names v =
     (case fields_of v of
        None \<Rightarrow> None
      | Some kvs \<Rightarrow> if list_all (\<lambda>kv. list_ex (EqualFold (fst kv)) names) kvs then Some kvs else None)"

definition nil_slice_field :: "(jval \<Rightarrow> 'a option) \<Rightarrow> string \<Rightarrow> (string \<times> jval) list \<Rightarrow> 'a list option option" where
  "nil_slice_field elem name =
     field_in (\<lambda>_ v. case v of JNull \<Rightarrow> Some None | _ \<Rightarrow> map_option Some (slice_of elem v)) name None"

definition bool_field :: "string \<Rightarrow> (string \<times> jval) list \<Rightarrow> bool option" where
  "bool_field name = field_in (\<lambda>old v. case v of JNull \<Rightarrow> Some old | JBool b \<Rightarrow> Some b | _ \<Rightarrow> None) name False"

text \<open>A pointer to a struct: null is nil.\<close>

definition pointer_field :: "(jval \<Rightarrow> 'a option) \<Rightarrow> string \<Rightarrow> (string \<times> jval) list \<Rightarrow> 'a option option" where
  "pointer_field dec name = field_in (\<lambda>_ v. case v of JNull \<Rightarrow> Some None | _ \<Rightarrow> map_option Some (dec v)) name None"

section \<open>Printing dynamic values\<close>

text \<open>
  The verb \<^verbatim>\<open>%v\<close> on a dynamic value. How a floating-point number prints is an argument; the members of a map
  print in the order of their keys.
\<close>

definition print_map :: "(string \<times> string) list \<Rightarrow> string" where
  "print_map kvs = ''map['' @ Join (map (\<lambda>(k, v). k @ '':'' @ v) (sort_key fst kvs)) '' '' @ '']''"

fun sprint_v :: "(rat \<Rightarrow> string) \<Rightarrow> any \<Rightarrow> string" where
  "sprint_v fl AnyNil = ''<nil>''"
| "sprint_v fl (AnyStr s) = s"
| "sprint_v fl (AnyBool b) = (if b then ''true'' else ''false'')"
| "sprint_v fl (AnyInt i) = Itoa i"
| "sprint_v fl (AnyFloat r) = fl r"
| "sprint_v fl (AnyNumber s) = s"
| "sprint_v fl (AnyStrs ss) = ''['' @ Join ss '' '' @ '']''"
| "sprint_v fl (AnyList xs) = ''['' @ Join (map (sprint_v fl) xs) '' '' @ '']''"
| "sprint_v fl (AnyMap kvs) = print_map (map (\<lambda>(k, v). (k, sprint_v fl v)) kvs)"
| "sprint_v fl (AnyStrMap kvs) = print_map kvs"

end
