(* ===== verification/Emit_Change.thy ===== *)
theory Emit_Change
  imports Openspec_Change_Roundtrip Tool_Call
begin

text \<open>
  The tool \<^verbatim>\<open>emit_change\<close>, package \<^verbatim>\<open>tools/emitchange\<close>: the payload an author writes, its validation
  (\<open>payload.go\<close>), the projection on the change model and the facts stamped on the run entity
  (\<open>executor.go\<close>). The main theorem composes the tool with \<open>ChangeFromFacts\<close>: what a validated
  payload stamps is read back as the change it describes.
\<close>

section \<open>The payload\<close>

record stepPayload =
  xs_Keyword :: string
  xs_Text :: string

record scenarioPayload =
  xn_Name :: string
  xn_Steps :: "stepPayload list"

record requirementPayload =
  xr_Name :: string
  xr_Statement :: string
  xr_Scenarios :: "scenarioPayload list"

record modifiedReqPayload =
  xm_requirementPayload :: requirementPayload
  xm_Previously :: string

record removedReqPayload =
  xv_Name :: string
  xv_Rationale :: string

record deltaPayload =
  xd_Capability :: string
  xd_Added :: "requirementPayload list"
  xd_Modified :: "modifiedReqPayload list"
  xd_Removed :: "removedReqPayload list"

record proposalPayload =
  xp_Intent :: string
  xp_ScopeIn :: "string list option"
  xp_ScopeOut :: "string list option"
  xp_Approach :: string

record decisionPayload =
  xc_Name :: string
  xc_Body :: string

record fileChangePayload =
  xf_Path :: string
  xf_Kind :: string

record designPayload =
  xg_TechnicalApproach :: string
  xg_Decisions :: "decisionPayload list"
  xg_DataFlow :: string
  xg_FileChanges :: "fileChangePayload list"

record taskPayload =
  xt_Section :: string
  xt_Number :: string
  xt_Text :: string
  xt_Done :: bool
  xt_Goal :: string
  xt_TargetFiles :: "string list"
  xt_TestCommand :: string
  xt_Assumptions :: "string list option"
  xt_NonGoals :: "string list option"
  xt_ExpectedOutcome :: string
  xt_RequirementRef :: string

record changePayload =
  xl_Slug :: string
  xl_Proposal :: "proposalPayload option"
  xl_Design :: "designPayload option"
  xl_Deltas :: "deltaPayload list"
  xl_Tasks :: "taskPayload list"
  xl_AcceptanceCommand :: string

section \<open>Decoding\<close>

definition dec_step :: "jval \<Rightarrow> stepPayload option" where
  "dec_step v = do {
     kvs \<leftarrow> strict_fields [''kw'', ''text''] v;
     kw \<leftarrow> string_field ''kw'' kvs;
     t \<leftarrow> string_field ''text'' kvs;
     Some \<lparr>xs_Keyword = kw, xs_Text = t\<rparr> }"

definition dec_scenario :: "jval \<Rightarrow> scenarioPayload option" where
  "dec_scenario v = do {
     kvs \<leftarrow> strict_fields [''name'', ''steps''] v;
     name \<leftarrow> string_field ''name'' kvs;
     steps \<leftarrow> slice_field dec_step ''steps'' kvs;
     Some \<lparr>xn_Name = name, xn_Steps = steps\<rparr> }"

definition dec_req_fields :: "(string \<times> jval) list \<Rightarrow> requirementPayload option" where
  "dec_req_fields kvs = do {
     name \<leftarrow> string_field ''name'' kvs;
     statement \<leftarrow> string_field ''statement'' kvs;
     scenarios \<leftarrow> slice_field dec_scenario ''scenarios'' kvs;
     Some \<lparr>xr_Name = name, xr_Statement = statement, xr_Scenarios = scenarios\<rparr> }"

definition dec_requirement :: "jval \<Rightarrow> requirementPayload option" where
  "dec_requirement v = do {
     kvs \<leftarrow> strict_fields [''name'', ''statement'', ''scenarios''] v;
     dec_req_fields kvs }"

definition dec_modified :: "jval \<Rightarrow> modifiedReqPayload option" where
  "dec_modified v = do {
     kvs \<leftarrow> strict_fields [''name'', ''statement'', ''scenarios'', ''previously''] v;
     r \<leftarrow> dec_req_fields kvs;
     prev \<leftarrow> string_field ''previously'' kvs;
     Some \<lparr>xm_requirementPayload = r, xm_Previously = prev\<rparr> }"

definition dec_removed :: "jval \<Rightarrow> removedReqPayload option" where
  "dec_removed v = do {
     kvs \<leftarrow> strict_fields [''name'', ''rationale''] v;
     name \<leftarrow> string_field ''name'' kvs;
     rationale \<leftarrow> string_field ''rationale'' kvs;
     Some \<lparr>xv_Name = name, xv_Rationale = rationale\<rparr> }"

definition dec_delta :: "jval \<Rightarrow> deltaPayload option" where
  "dec_delta v = do {
     kvs \<leftarrow> strict_fields [''capability'', ''added'', ''modified'', ''removed''] v;
     capability \<leftarrow> string_field ''capability'' kvs;
     added \<leftarrow> slice_field dec_requirement ''added'' kvs;
     modified \<leftarrow> slice_field dec_modified ''modified'' kvs;
     removed \<leftarrow> slice_field dec_removed ''removed'' kvs;
     Some \<lparr>xd_Capability = capability, xd_Added = added, xd_Modified = modified, xd_Removed = removed\<rparr> }"

definition dec_proposal :: "jval \<Rightarrow> proposalPayload option" where
  "dec_proposal v = do {
     kvs \<leftarrow> strict_fields [''intent'', ''scope_in'', ''scope_out'', ''approach''] v;
     intent \<leftarrow> string_field ''intent'' kvs;
     scopeIn \<leftarrow> nil_slice_field string_of ''scope_in'' kvs;
     scopeOut \<leftarrow> nil_slice_field string_of ''scope_out'' kvs;
     approach \<leftarrow> string_field ''approach'' kvs;
     Some \<lparr>xp_Intent = intent, xp_ScopeIn = scopeIn, xp_ScopeOut = scopeOut, xp_Approach = approach\<rparr> }"

definition dec_decision :: "jval \<Rightarrow> decisionPayload option" where
  "dec_decision v = do {
     kvs \<leftarrow> strict_fields [''name'', ''body''] v;
     name \<leftarrow> string_field ''name'' kvs;
     b \<leftarrow> string_field ''body'' kvs;
     Some \<lparr>xc_Name = name, xc_Body = b\<rparr> }"

definition dec_fileChange :: "jval \<Rightarrow> fileChangePayload option" where
  "dec_fileChange v = do {
     kvs \<leftarrow> strict_fields [''path'', ''kind''] v;
     path \<leftarrow> string_field ''path'' kvs;
     kind \<leftarrow> string_field ''kind'' kvs;
     Some \<lparr>xf_Path = path, xf_Kind = kind\<rparr> }"

definition dec_design :: "jval \<Rightarrow> designPayload option" where
  "dec_design v = do {
     kvs \<leftarrow> strict_fields [''technical_approach'', ''decisions'', ''data_flow'', ''file_changes''] v;
     tech \<leftarrow> string_field ''technical_approach'' kvs;
     decisions \<leftarrow> slice_field dec_decision ''decisions'' kvs;
     dataFlow \<leftarrow> string_field ''data_flow'' kvs;
     fileChanges \<leftarrow> slice_field dec_fileChange ''file_changes'' kvs;
     Some \<lparr>xg_TechnicalApproach = tech, xg_Decisions = decisions, xg_DataFlow = dataFlow, xg_FileChanges = fileChanges\<rparr> }"

definition dec_task :: "jval \<Rightarrow> taskPayload option" where
  "dec_task v = do {
     kvs \<leftarrow> strict_fields [''section'', ''number'', ''text'', ''done'', ''goal'', ''target_files'', ''test_command'',
       ''assumptions'', ''non_goals'', ''expected_outcome'', ''requirement_ref''] v;
     sec \<leftarrow> string_field ''section'' kvs;
     number \<leftarrow> string_field ''number'' kvs;
     t \<leftarrow> string_field ''text'' kvs;
     d \<leftarrow> bool_field ''done'' kvs;
     goal \<leftarrow> string_field ''goal'' kvs;
     targetFiles \<leftarrow> slice_field string_of ''target_files'' kvs;
     testCommand \<leftarrow> string_field ''test_command'' kvs;
     assumptions \<leftarrow> nil_slice_field string_of ''assumptions'' kvs;
     nonGoals \<leftarrow> nil_slice_field string_of ''non_goals'' kvs;
     outcome \<leftarrow> string_field ''expected_outcome'' kvs;
     ref \<leftarrow> string_field ''requirement_ref'' kvs;
     Some \<lparr>xt_Section = sec, xt_Number = number, xt_Text = t, xt_Done = d, xt_Goal = goal, xt_TargetFiles = targetFiles,
       xt_TestCommand = testCommand, xt_Assumptions = assumptions, xt_NonGoals = nonGoals, xt_ExpectedOutcome = outcome,
       xt_RequirementRef = ref\<rparr> }"

definition dec_change :: "jval \<Rightarrow> changePayload option" where
  "dec_change v = do {
     kvs \<leftarrow> strict_fields [''slug'', ''proposal'', ''design'', ''deltas'', ''tasks'', ''acceptance_command''] v;
     s \<leftarrow> string_field ''slug'' kvs;
     p \<leftarrow> pointer_field dec_proposal ''proposal'' kvs;
     g \<leftarrow> pointer_field dec_design ''design'' kvs;
     ds \<leftarrow> slice_field dec_delta ''deltas'' kvs;
     ts \<leftarrow> slice_field dec_task ''tasks'' kvs;
     a \<leftarrow> string_field ''acceptance_command'' kvs;
     Some \<lparr>xl_Slug = s, xl_Proposal = p, xl_Design = g, xl_Deltas = ds, xl_Tasks = ts, xl_AcceptanceCommand = a\<rparr> }"

section \<open>Validation\<close>

datatype change_error =
    ArgumentsRequired | UnmarshalArguments | BadSlug string
  | ProposalRequired | IntentRequired | ApproachRequired | ScopeInRequired | ScopeOutRequired
  | NoDeltas | CapabilityRequired nat | CapabilityUnsafe nat string | CapabilityDuplicated nat string
  | RequirementError nat string string nat requirement_error
  | PreviouslyRequired nat string nat | RemovedNameRequired nat string nat | RationaleRequired nat string nat
  | NoRequirements
  | NoTasks | SectionNotContiguous nat string | TextRequired nat | GoalRequired nat | TargetFilesRequired nat
  | TestCommandRequired nat | AssumptionsRequired nat | NonGoalsRequired nat
  | SameRid nat string string string string
  | RefShape nat string | RefNoDelta nat string string | RefNoRequirement nat string string string
  | AcceptanceCommandRequired
  | MetadataMissing | RunEntityID string string | Stamp string string | UnknownTool string
and requirement_error =
    NameRequired | StatementNotShall string string | NoScenarios string | ScenarioIncomplete string nat string

abbreviation trim :: "string \<Rightarrow> string" where
  "trim \<equiv> TrimSpace"

text \<open>The pattern \<^verbatim>\<open>^[a-z0-9][a-z0-9-]{0,63}$\<close>.\<close>

definition slugPattern :: "string \<Rightarrow> bool" where
  "slugPattern s \<longleftrightarrow>
     (case s of [] \<Rightarrow> False | c # cs \<Rightarrow> kebab_char c \<and> length cs \<le> 63 \<and> list_all (\<lambda>c. kebab_char c \<or> c = CHR ''-'') cs)"

text \<open>
  The pattern \<^verbatim>\<open>\b(SHALL|MUST|SHOULD|MAY)\b\<close>: one of the words somewhere, no word character before or after
  it.
\<close>

definition word_char :: "char \<Rightarrow> bool" where
  "word_char c \<longleftrightarrow> is_lower_alpha c \<or> is_upper_alpha c \<or> is_digit c \<or> c = CHR ''_''"

definition word_at :: "string \<Rightarrow> string \<Rightarrow> bool" where
  "word_at s w \<longleftrightarrow> HasPrefix s w \<and> (case drop (length w) s of [] \<Rightarrow> True | c # _ \<Rightarrow> \<not> word_char c)"

fun shall_from :: "bool \<Rightarrow> string \<Rightarrow> bool" where
  "shall_from inside [] = False"
| "shall_from inside (c # cs) =
     ((\<not> inside \<and> list_ex (word_at (c # cs)) [''SHALL'', ''MUST'', ''SHOULD'', ''MAY'']) \<or> shall_from (word_char c) cs)"

definition shallPattern :: "string \<Rightarrow> bool" where
  "shallPattern s \<longleftrightarrow> shall_from False s"

definition has_step :: "string \<Rightarrow> scenarioPayload \<Rightarrow> bool" where
  "has_step kw s \<longleftrightarrow> list_ex (\<lambda>st. ToUpper (trim (xs_Keyword st)) = kw) (xn_Steps s)"

definition validateRequirement :: "requirementPayload \<Rightarrow> requirement_error option" where
  "validateRequirement r = first_some [
     fail_if (trim (xr_Name r) = []) NameRequired,
     fail_if (\<not> shallPattern (xr_Statement r)) (StatementNotShall (xr_Name r) (xr_Statement r)),
     fail_if (xr_Scenarios r = []) (NoScenarios (xr_Name r)),
     first_err (\<lambda>si s. fail_if (\<not> has_step ''WHEN'' s \<or> \<not> has_step ''THEN'' s) (ScenarioIncomplete (xr_Name r) si (xn_Name s)))
       0 (xr_Scenarios r)]"

definition validateCapabilityName :: "nat \<Rightarrow> string \<Rightarrow> change_error option" where
  "validateCapabilityName di capability = first_some [
     fail_if (capability = []) (CapabilityRequired di),
     fail_if (CHR ''/'' \<in> set capability \<or> CHR 0x5C \<in> set capability \<or> Contains capability ''..'' \<or> capability = ''.'')
       (CapabilityUnsafe di capability)]"

definition validateProposal :: "changePayload \<Rightarrow> change_error option" where
  "validateProposal p =
     (case xl_Proposal p of
        None \<Rightarrow> Some ProposalRequired
      | Some q \<Rightarrow> first_some [
          fail_if (trim (xp_Intent q) = []) IntentRequired,
          fail_if (trim (xp_Approach q) = []) ApproachRequired,
          fail_if (xp_ScopeIn q = None) ScopeInRequired,
          fail_if (xp_ScopeOut q = None) ScopeOutRequired])"

definition added_check :: "nat \<Rightarrow> deltaPayload \<Rightarrow> change_error option" where
  "added_check di d =
     first_err (\<lambda>ai r. map_option (RequirementError di (xd_Capability d) ''added'' ai) (validateRequirement r)) 0 (xd_Added d)"

definition modified_check :: "nat \<Rightarrow> deltaPayload \<Rightarrow> change_error option" where
  "modified_check di d =
     first_err (\<lambda>mi m. first_some [
        map_option (RequirementError di (xd_Capability d) ''modified'' mi) (validateRequirement (xm_requirementPayload m)),
        fail_if (trim (xm_Previously m) = []) (PreviouslyRequired di (xd_Capability d) mi)]) 0 (xd_Modified d)"

definition removed_check :: "nat \<Rightarrow> deltaPayload \<Rightarrow> change_error option" where
  "removed_check di d =
     first_err (\<lambda>ri rm. first_some [
        fail_if (trim (xv_Name rm) = []) (RemovedNameRequired di (xd_Capability d) ri),
        fail_if (trim (xv_Rationale rm) = []) (RationaleRequired di (xd_Capability d) ri)]) 0 (xd_Removed d)"

fun deltas_loop :: "nat \<Rightarrow> string list \<Rightarrow> nat \<Rightarrow> deltaPayload list \<Rightarrow> change_error option" where
  "deltas_loop di seenCap requirementCount [] = fail_if (requirementCount = 0) NoRequirements"
| "deltas_loop di seenCap requirementCount (d # ds) = first_some [
     validateCapabilityName di (xd_Capability d),
     fail_if (xd_Capability d \<in> set seenCap) (CapabilityDuplicated di (xd_Capability d)),
     added_check di d,
     modified_check di d,
     removed_check di d,
     deltas_loop (Suc di) (xd_Capability d # seenCap)
       (requirementCount + length (xd_Added d) + length (xd_Modified d) + length (xd_Removed d)) ds]"

definition validateDeltas :: "changePayload \<Rightarrow> change_error option" where
  "validateDeltas p = first_some [fail_if (xl_Deltas p = []) NoDeltas, deltas_loop 0 [] 0 (xl_Deltas p)]"

text \<open>The sections left behind and the section of the task before; the first task opens its section.\<close>

definition task_check :: "nat \<Rightarrow> taskPayload \<Rightarrow> change_error option" where
  "task_check i t = first_some [
     fail_if (trim (xt_Text t) = []) (TextRequired i),
     fail_if (trim (xt_Goal t) = []) (GoalRequired i),
     fail_if (xt_TargetFiles t = []) (TargetFilesRequired i),
     fail_if (trim (xt_TestCommand t) = []) (TestCommandRequired i),
     fail_if (xt_Assumptions t = None) (AssumptionsRequired i),
     fail_if (xt_NonGoals t = None) (NonGoalsRequired i)]"

fun tasks_loop :: "nat \<Rightarrow> string list \<Rightarrow> string \<Rightarrow> taskPayload list \<Rightarrow> change_error option" where
  "tasks_loop i left prev [] = None"
| "tasks_loop i left prev (t # ts) =
     (let moved = i = 0 \<or> xt_Section t \<noteq> prev;
          left' = (if moved \<and> i > 0 then prev # left else left)
      in first_some [
           fail_if (moved \<and> xt_Section t \<in> set left) (SectionNotContiguous i (xt_Section t)),
           task_check i t,
           tasks_loop (Suc i) left' (xt_Section t) ts])"

definition validateTasks :: "changePayload \<Rightarrow> change_error option" where
  "validateTasks p = first_some [fail_if (xl_Tasks p = []) NoTasks, tasks_loop 0 [] [] (xl_Tasks p)]"

section \<open>References of tasks to requirements\<close>

definition rid_of :: "string \<Rightarrow> string" where
  "rid_of name = (let s = Slugify name in if s = [] then ''requirement'' else s)"

text \<open>
  The ids of one capability: the names claimed so far under their ids, and the ids a task may refer
  to. A name comes with whether it is implementable.
\<close>

fun claim_loop :: "nat \<Rightarrow> string \<Rightarrow> (string \<times> string) list \<Rightarrow> string list \<Rightarrow> (string \<times> bool) list \<Rightarrow> change_error + string list" where
  "claim_loop di cap all impl [] = Inr impl"
| "claim_loop di cap all impl ((name, i) # ns) =
     (let r = rid_of name in
      case gm_get all r of
        Some prev \<Rightarrow> Inl (SameRid di cap prev name r)
      | None \<Rightarrow> claim_loop di cap (gm_put r name all) (if i then r # impl else impl) ns)"

definition claimed_names :: "deltaPayload \<Rightarrow> (string \<times> bool) list" where
  "claimed_names d =
     map (\<lambda>r. (xr_Name r, True)) (xd_Added d) @ map (\<lambda>m. (xr_Name (xm_requirementPayload m), True)) (xd_Modified d) @
     map (\<lambda>rm. (xv_Name rm, False)) (xd_Removed d)"

fun rids_loop :: "nat \<Rightarrow> (string \<times> string list) list \<Rightarrow> deltaPayload list \<Rightarrow> change_error + (string \<times> string list) list" where
  "rids_loop di implementable [] = Inr implementable"
| "rids_loop di implementable (d # ds) =
     (case claim_loop di (xd_Capability d) [] [] (claimed_names d) of
        Inl e \<Rightarrow> Inl e
      | Inr impl \<Rightarrow> rids_loop (Suc di) (gm_put (xd_Capability d) impl implementable) ds)"

definition normalize_ref :: "(string \<times> string list) list \<Rightarrow> nat \<Rightarrow> taskPayload \<Rightarrow> change_error + taskPayload" where
  "normalize_ref implementable i t =
     (let ref = trim (xt_RequirementRef t) in
      if ref = [] then Inr t
      else case CutAt ref CHR ''/'' of
        None \<Rightarrow> Inl (RefShape i ref)
      | Some (capName, name) \<Rightarrow>
          if capName = [] \<or> trim name = [] then Inl (RefShape i ref)
          else case gm_get implementable capName of
            None \<Rightarrow> Inl (RefNoDelta i ref capName)
          | Some impl \<Rightarrow>
              if rid_of name \<notin> set impl then Inl (RefNoRequirement i ref capName name)
              else Inr (t\<lparr>xt_RequirementRef := capName @ ''/'' @ rid_of name\<rparr>))"

fun refs_loop :: "(string \<times> string list) list \<Rightarrow> nat \<Rightarrow> taskPayload list \<Rightarrow> change_error + taskPayload list" where
  "refs_loop implementable i [] = Inr []"
| "refs_loop implementable i (t # ts) =
     (case normalize_ref implementable i t of
        Inl e \<Rightarrow> Inl e
      | Inr t' \<Rightarrow> (case refs_loop implementable (Suc i) ts of Inl e \<Rightarrow> Inl e | Inr ts' \<Rightarrow> Inr (t' # ts')))"

definition validateAndNormalizeRefs :: "changePayload \<Rightarrow> change_error + changePayload" where
  "validateAndNormalizeRefs p =
     (case rids_loop 0 [] (xl_Deltas p) of
        Inl e \<Rightarrow> Inl e
      | Inr implementable \<Rightarrow>
          (case refs_loop implementable 0 (xl_Tasks p) of
             Inl e \<Rightarrow> Inl e
           | Inr ts \<Rightarrow> Inr (p\<lparr>xl_Tasks := ts\<rparr>)))"

definition validate_change :: "changePayload \<Rightarrow> change_error + changePayload" where
  "validate_change p =
     (case first_some [fail_if (\<not> slugPattern (xl_Slug p)) (BadSlug (xl_Slug p)), validateProposal p, validateDeltas p, validateTasks p] of
        Some e \<Rightarrow> Inl e
      | None \<Rightarrow>
          (case validateAndNormalizeRefs p of
             Inl e \<Rightarrow> Inl e
           | Inr q \<Rightarrow> if trim (xl_AcceptanceCommand q) = [] then Inl AcceptanceCommandRequired else Inr q))"

definition parseArgs :: "jval option \<Rightarrow> change_error + changePayload" where
  "parseArgs raw =
     (case raw of
        None \<Rightarrow> Inl ArgumentsRequired
      | Some v \<Rightarrow> (case dec_change v of None \<Rightarrow> Inl UnmarshalArguments | Some p \<Rightarrow> validate_change p))"

section \<open>Projection on the change model\<close>

definition requirement_toModel :: "requirementPayload \<Rightarrow> Requirement" where
  "requirement_toModel r =
     \<lparr>r_Name = xr_Name r, r_Statement = xr_Statement r,
      r_Scenarios = map (\<lambda>s. \<lparr>sn_Name = xn_Name s,
        sn_Steps = map (\<lambda>st. \<lparr>st_Keyword = ToUpper (trim (xs_Keyword st)), st_Text = xs_Text st\<rparr>) (xn_Steps s)\<rparr>) (xr_Scenarios r)\<rparr>"

definition delta_toModel :: "deltaPayload \<Rightarrow> Delta" where
  "delta_toModel d =
     \<lparr>dl_Capability = xd_Capability d, dl_Title = [], dl_Added = map requirement_toModel (xd_Added d),
      dl_Modified = map (\<lambda>m. \<lparr>mq_Requirement = requirement_toModel (xm_requirementPayload m), mq_Previously = xm_Previously m\<rparr>) (xd_Modified d),
      dl_Removed = map (\<lambda>rm. \<lparr>rv_Name = xv_Name rm, rv_Rationale = xv_Rationale rm\<rparr>) (xd_Removed d), dl_Warnings = []\<rparr>"

definition design_toModel :: "designPayload \<Rightarrow> Design" where
  "design_toModel g =
     \<lparr>dg_Title = [], dg_TechnicalApproach = xg_TechnicalApproach g,
      dg_Decisions = map (\<lambda>c. \<lparr>dd_Name = xc_Name c, dd_Body = xc_Body c\<rparr>) (xg_Decisions g),
      dg_DataFlow = xg_DataFlow g,
      dg_FileChanges = map (\<lambda>f. \<lparr>fc_Path = xf_Path f, fc_Kind = xf_Kind f\<rparr>) (xg_FileChanges g), dg_ExtraSections = []\<rparr>"

text \<open>Runs of tasks of the same section.\<close>

fun group_loop :: "TaskSection list \<Rightarrow> taskPayload list \<Rightarrow> TaskSection list" where
  "group_loop sections [] = sections"
| "group_loop sections (t # ts) =
     (let sections' = (if sections = [] \<or> ts_Name (last sections) \<noteq> xt_Section t
                       then sections @ [\<lparr>ts_Name = xt_Section t, ts_Tasks = []\<rparr>] else sections);
          s = last sections'
      in group_loop (butlast sections' @
           [s\<lparr>ts_Tasks := ts_Tasks s @ [\<lparr>tk_Number = xt_Number t, tk_Text = xt_Text t, tk_Done = xt_Done t\<rparr>]\<rparr>]) ts)"

definition groupTaskSections :: "taskPayload list \<Rightarrow> TaskSection list" where
  "groupTaskSections tasks = group_loop [] tasks"

definition nil_list :: "'a list option \<Rightarrow> 'a list" where
  "nil_list xs = (case xs of None \<Rightarrow> [] | Some ys \<Rightarrow> ys)"

definition toChange :: "changePayload \<Rightarrow> Change" where
  "toChange p =
     \<lparr>ch_Slug = xl_Slug p,
      ch_Proposal = map_option (\<lambda>q. \<lparr>pp_Title = [], pp_Intent = xp_Intent q, pp_ScopeIn = nil_list (xp_ScopeIn q),
        pp_ScopeOut = nil_list (xp_ScopeOut q), pp_Approach = xp_Approach q, pp_ExtraSections = []\<rparr>) (xl_Proposal p),
      ch_Design = map_option design_toModel (xl_Design p),
      ch_Tasks = (if xl_Tasks p = [] then None else Some \<lparr>tt_Title = [], tt_Sections = groupTaskSections (xl_Tasks p)\<rparr>),
      ch_Deltas = map delta_toModel (xl_Deltas p)\<rparr>"

section \<open>The triples\<close>

definition jsonArray :: "string list option \<Rightarrow> string" where
  "jsonArray ss = encode (JArr (map JStr (nil_list ss)))"

definition task_writer_facts :: "string \<Rightarrow> nat \<Rightarrow> taskPayload \<Rightarrow> Fact list" where
  "task_writer_facts taskBase i t =
     (let pre = taskBase @ Itoa (int i) @ ''.'' in
      map (\<lambda>(k, v). \<lparr>ft_Predicate = pre @ k, ft_Object = v\<rparr>)
        ([(''goal'', xt_Goal t), (''target_files'', jsonArray (Some (xt_TargetFiles t))), (''test_command'', xt_TestCommand t),
          (''assumptions'', jsonArray (xt_Assumptions t)), (''non_goals'', jsonArray (xt_NonGoals t))] @
         (if xt_ExpectedOutcome t \<noteq> [] then [(''expected_outcome'', xt_ExpectedOutcome t)] else []) @
         (if xt_RequirementRef t \<noteq> [] then [(''requirement_ref'', xt_RequirementRef t)] else [])))"

fun tasks_writer_facts :: "string \<Rightarrow> nat \<Rightarrow> taskPayload list \<Rightarrow> Fact list" where
  "tasks_writer_facts taskBase i [] = []"
| "tasks_writer_facts taskBase i (t # ts) = task_writer_facts taskBase i t @ tasks_writer_facts taskBase (Suc i) ts"

text \<open>The writer half: the graph state the change model does not carry.\<close>

definition writer_facts :: "changePayload \<Rightarrow> gotime \<Rightarrow> Fact list" where
  "writer_facts p now =
     (let base = ChangeEntityPrefix (xl_Slug p) in
      [\<lparr>ft_Predicate = base @ ''status'', ft_Object = ''draft''\<rparr>,
       \<lparr>ft_Predicate = base @ ''generated_at'', ft_Object = format_RFC3339Nano now\<rparr>] @
      (if xl_AcceptanceCommand p \<noteq> [] then [\<lparr>ft_Predicate = base @ ''acceptance_command'', ft_Object = xl_AcceptanceCommand p\<rparr>] else []) @
      tasks_writer_facts (base @ ''task.'') 0 (xl_Tasks p))"

definition change_triples :: "changePayload \<Rightarrow> string \<Rightarrow> gotime \<Rightarrow> triple list" where
  "change_triples p runEntityID now =
     map (\<lambda>f. \<lparr>Subject = runEntityID, Predicate = ft_Predicate f, Object = AnyStr (ft_Object f), Source = ''create-change-emit'',
        Timestamp = now, Confidence = 1\<rparr>) (change_Facts (toChange p) @ writer_facts p now)"

section \<open>The tool\<close>

record 'w EmitChange =
  ec_publisher :: "'w publisher"
  ec_platform :: "string \<times> string"

definition runEntityFromCall :: "framework \<Rightarrow> string \<times> string \<Rightarrow> tool_call \<Rightarrow> change_error + string" where
  "runEntityFromCall fw platform call =
     (let related = (case meta_get (tc_Metadata call) (fw_RelatedLoops fw) of Some (AnyMap m) \<Rightarrow> m | _ \<Rightarrow> []);
          runLoopID = str_or_empty (gm_get related ''create-change-run'')
      in if runLoopID = [] then Inl MetadataMissing
         else case fw_TryChainExecutionEntityID fw (fst platform) (snd platform) runLoopID of
           Inl err \<Rightarrow> Inl (RunEntityID runLoopID err)
         | Inr i \<Rightarrow> Inr i)"

definition Execute_change :: "framework \<Rightarrow> 'w EmitChange \<Rightarrow> 'w \<Rightarrow> gotime \<Rightarrow> tool_call \<Rightarrow> change_error ToolResult \<times> 'w" where
  "Execute_change fw e w clock call =
     (if tc_Name call \<noteq> ''emit_change'' then (errResult call ToolErrorNotFound (UnknownTool (tc_Name call)), w)
      else case parseArgs (tc_Arguments call) of
        Inl err \<Rightarrow> (errResult call ToolErrorInvalidArgs err, w)
      | Inr p \<Rightarrow>
        (case runEntityFromCall fw (ec_platform e) call of
           Inl err \<Rightarrow> (errResult call ToolErrorInternal err, w)
         | Inr runEntityID \<Rightarrow>
           (case ec_publisher e w (change_triples p runEntityID (time_UTC clock)) of
              (Some err, w') \<Rightarrow> (errResult call ToolErrorNetwork (Stamp runEntityID err), w')
            | (None, w') \<Rightarrow>
                (\<lparr>tr_CallID = tc_ID call, tr_Name = tc_Name call,
                  tr_Content = encode (JObj [(''delta_count'', JNum (int (length (xl_Deltas p)))), (''run_entity_id'', JStr runEntityID),
                    (''slug'', JStr (xl_Slug p)), (''status'', JStr ''draft''), (''task_count'', JNum (int (length (xl_Tasks p))))]),
                  tr_Error = None, tr_Metadata = [(''run_entity_id'', runEntityID), (''slug'', xl_Slug p)]\<rparr>, w'))))"

end
