(* ===== verification/Emit_Change_Props.thy ===== *)
theory Emit_Change_Props
  imports Emit_Change
begin

text \<open>
  What \<^verbatim>\<open>emit_change\<close> accepts, in closed form, and what its triples say: references of tasks lead to
  requirements of the change, and reading the stored facts back gives the change.
\<close>

section \<open>The patterns\<close>

lemma shall_from_iff:
  "shall_from inside s \<longleftrightarrow>
   (\<exists>a w b. s = a @ w @ b \<and> w \<in> {''SHALL'', ''MUST'', ''SHOULD'', ''MAY''} \<and>
      (if a = [] then \<not> inside else \<not> word_char (last a)) \<and> (b = [] \<or> \<not> word_char (hd b)))"
  (is "_ \<longleftrightarrow> (\<exists>a w b. ?at inside s a w b)")
proof (induction s arbitrary: inside)
  case (Cons c s)
  have at: "word_at (c # s) w \<longleftrightarrow> (\<exists>b. c # s = w @ b \<and> (b = [] \<or> \<not> word_char (hd b)))" for w
  proof -
    have "word_at (w @ b) w \<longleftrightarrow> b = [] \<or> \<not> word_char (hd b)" for b by (cases b) (simp_all add: word_at_def HasPrefix_iff)
    moreover have "word_at (c # s) w \<Longrightarrow> \<exists>b. c # s = w @ b" by (auto simp: word_at_def HasPrefix_iff prefix_def)
    ultimately show ?thesis by metis
  qed
  have "(\<exists>a w b. ?at inside (c # s) a w b) \<longleftrightarrow>
      (\<exists>w b. ?at inside (c # s) [] w b) \<or> (\<exists>a w b. ?at (word_char c) s a w b)"
  proof
    assume "\<exists>a w b. ?at inside (c # s) a w b"
    then obtain a w b where ab: "?at inside (c # s) a w b" by blast
    show "(\<exists>w b. ?at inside (c # s) [] w b) \<or> (\<exists>a w b. ?at (word_char c) s a w b)"
    proof (cases a)
      case Nil
      then show ?thesis using ab by blast
    next
      case (Cons x a')
      then have "?at (word_char c) s a' w b" using ab by (auto split: if_splits)
      then show ?thesis by blast
    qed
  next
    assume "(\<exists>w b. ?at inside (c # s) [] w b) \<or> (\<exists>a w b. ?at (word_char c) s a w b)"
    then show "\<exists>a w b. ?at inside (c # s) a w b"
    proof
      assume "\<exists>a w b. ?at (word_char c) s a w b"
      then obtain a w b where "?at (word_char c) s a w b" by blast
      then have "?at inside (c # s) (c # a) w b" by (auto split: if_splits)
      then show ?thesis by blast
    qed blast
  qed
  moreover have "(\<exists>w b. ?at inside (c # s) [] w b) \<longleftrightarrow> \<not> inside \<and> list_ex (word_at (c # s)) [''SHALL'', ''MUST'', ''SHOULD'', ''MAY'']"
    by (auto simp: at simp del: append_Cons)
  ultimately show ?case using Cons.IH [of "word_char c"] by (simp only: shall_from.simps)
qed auto

section \<open>What is accepted\<close>

definition good_requirement :: "requirementPayload \<Rightarrow> bool" where
  "good_requirement r \<longleftrightarrow>
     trim (xr_Name r) \<noteq> [] \<and> shallPattern (xr_Statement r) \<and> xr_Scenarios r \<noteq> [] \<and>
     (\<forall>s \<in> set (xr_Scenarios r). has_step ''WHEN'' s \<and> has_step ''THEN'' s)"

definition good_delta :: "deltaPayload \<Rightarrow> bool" where
  "good_delta d \<longleftrightarrow>
     xd_Capability d \<notin> {[], ''.''} \<and> CHR ''/'' \<notin> set (xd_Capability d) \<and> CHR 0x5C \<notin> set (xd_Capability d) \<and>
     \<not> Contains (xd_Capability d) ''..'' \<and>
     (\<forall>r \<in> set (xd_Added d). good_requirement r) \<and>
     (\<forall>m \<in> set (xd_Modified d). good_requirement (xm_requirementPayload m) \<and> trim (xm_Previously m) \<noteq> []) \<and>
     (\<forall>rm \<in> set (xd_Removed d). trim (xv_Name rm) \<noteq> [] \<and> trim (xv_Rationale rm) \<noteq> [])"

definition good_task :: "taskPayload \<Rightarrow> bool" where
  "good_task t \<longleftrightarrow>
     trim (xt_Text t) \<noteq> [] \<and> trim (xt_Goal t) \<noteq> [] \<and> xt_TargetFiles t \<noteq> [] \<and> trim (xt_TestCommand t) \<noteq> [] \<and>
     xt_Assumptions t \<noteq> None \<and> xt_NonGoals t \<noteq> None"

definition good_ref :: "deltaPayload list \<Rightarrow> string \<Rightarrow> bool" where
  "good_ref ds ref \<longleftrightarrow>
     trim ref = [] \<or>
     (\<exists>d \<in> set ds. \<exists>n m. trim ref = xd_Capability d @ CHR ''/'' # n \<and> trim n \<noteq> [] \<and>
        (m, True) \<in> set (claimed_names d) \<and> rid_of n = rid_of m)"

definition acceptable_change :: "changePayload \<Rightarrow> bool" where
  "acceptable_change p \<longleftrightarrow>
     slugPattern (xl_Slug p) \<and>
     (\<exists>q. xl_Proposal p = Some q \<and> trim (xp_Intent q) \<noteq> [] \<and> trim (xp_Approach q) \<noteq> [] \<and> xp_ScopeIn q \<noteq> None \<and> xp_ScopeOut q \<noteq> None) \<and>
     distinct (map xd_Capability (xl_Deltas p)) \<and> (\<forall>d \<in> set (xl_Deltas p). good_delta d \<and> distinct (map (\<lambda>n. rid_of (fst n)) (claimed_names d))) \<and>
     (\<exists>d \<in> set (xl_Deltas p). claimed_names d \<noteq> []) \<and>
     xl_Tasks p \<noteq> [] \<and> distinct (remdups_adj (map xt_Section (xl_Tasks p))) \<and>
     (\<forall>t \<in> set (xl_Tasks p). good_task t \<and> good_ref (xl_Deltas p) (xt_RequirementRef t)) \<and>
     trim (xl_AcceptanceCommand p) \<noteq> []"

interpretation scenario_loop: element_check
  "\<lambda>si s. fail_if (\<not> has_step ''WHEN'' s \<or> \<not> has_step ''THEN'' s) (ScenarioIncomplete n si (xn_Name s))"
  "\<lambda>s. has_step ''WHEN'' s \<and> has_step ''THEN'' s" for n
  by unfold_locales simp

lemma validateRequirement_None: "validateRequirement r = None \<longleftrightarrow> good_requirement r"
  unfolding validateRequirement_def first_some_None scenario_loop.accepts_iff good_requirement_def by auto

interpretation added_loop: element_check
  "\<lambda>ai r. map_option (RequirementError di cap ''added'' ai) (validateRequirement r)" good_requirement for di cap
  by unfold_locales (simp add: validateRequirement_None)

interpretation modified_loop: element_check
  "\<lambda>mi m. first_some [map_option (RequirementError di cap ''modified'' mi) (validateRequirement (xm_requirementPayload m)),
     fail_if (trim (xm_Previously m) = []) (PreviouslyRequired di cap mi)]"
  "\<lambda>m. good_requirement (xm_requirementPayload m) \<and> trim (xm_Previously m) \<noteq> []" for di cap
  by unfold_locales (simp add: validateRequirement_None)

interpretation removed_loop: element_check
  "\<lambda>ri rm. first_some [fail_if (trim (xv_Name rm) = []) (RemovedNameRequired di cap ri),
     fail_if (trim (xv_Rationale rm) = []) (RationaleRequired di cap ri)]"
  "\<lambda>rm. trim (xv_Name rm) \<noteq> [] \<and> trim (xv_Rationale rm) \<noteq> []" for di cap
  by unfold_locales simp

lemmas delta_check_defs = added_check_def modified_check_def removed_check_def validateCapabilityName_def

lemma deltas_loop_None:
  "deltas_loop di seen n ds = None \<longleftrightarrow>
   (\<forall>d \<in> set ds. good_delta d) \<and> distinct (map xd_Capability ds) \<and> (\<forall>d \<in> set ds. xd_Capability d \<notin> set seen) \<and>
   (n \<noteq> 0 \<or> (\<exists>d \<in> set ds. claimed_names d \<noteq> []))"
proof (induction ds arbitrary: di seen n)
  case (Cons d ds)
  have names: "claimed_names d \<noteq> [] \<longleftrightarrow> length (xd_Added d) + length (xd_Modified d) + length (xd_Removed d) \<noteq> 0"
    by (auto simp: claimed_names_def)
  have good: "good_delta d \<longleftrightarrow> validateCapabilityName di (xd_Capability d) = None \<and> added_check di d = None \<and>
      modified_check di d = None \<and> removed_check di d = None"
    unfolding delta_check_defs good_delta_def added_loop.accepts_iff modified_loop.accepts_iff removed_loop.accepts_iff by auto
  show ?case
    unfolding deltas_loop.simps(2) first_some_None list.set ball_simps Cons.IH using names good by (auto simp: image_iff)
qed simp


lemma tasks_loop_None:
  "i > 0 \<Longrightarrow> prev \<notin> set left \<Longrightarrow> tasks_loop i left prev ts = None \<longleftrightarrow>
   (\<forall>t \<in> set ts. good_task t) \<and> distinct (remdups_adj (prev # map xt_Section ts)) \<and> set (map xt_Section ts) \<inter> set left = {}"
proof (induction ts arbitrary: i left prev)
  case (Cons t ts)
  have good: "task_check i t = None \<longleftrightarrow> good_task t" by (auto simp: task_check_def good_task_def)
  show ?case
  proof (cases "xt_Section t = prev")
    case True
    then show ?thesis using Cons.IH [of "Suc i" prev left] Cons.prems good by (auto simp: Let_def)
  next
    case False
    have "prev \<notin> set (map xt_Section ts) \<and> xt_Section t \<noteq> prev \<longleftrightarrow> prev \<notin> set (remdups_adj (map xt_Section (t # ts)))"
      by (auto simp del: list.map)
    then show ?thesis
      using Cons.IH [of "Suc i" "xt_Section t" "prev # left"] Cons.prems good False
      by (auto simp: Let_def)
  qed
qed simp

lemma tasks_loop_start:
  "tasks_loop 0 [] [] ts = None \<longleftrightarrow> (\<forall>t \<in> set ts. good_task t) \<and> distinct (remdups_adj (map xt_Section ts))"
proof (cases ts)
  case (Cons t us)
  have "task_check 0 t = None \<longleftrightarrow> good_task t" by (auto simp: task_check_def good_task_def)
  then show ?thesis using tasks_loop_None [of "Suc 0" "xt_Section t" "[]" us] Cons by (auto simp: Let_def)
qed simp

section \<open>Ids and references\<close>

lemma claim_loop_accepts:
  "(\<exists>out. claim_loop di cap all impl ns = Inr out) \<longleftrightarrow>
   distinct (map (\<lambda>n. rid_of (fst n)) ns) \<and> (\<forall>n \<in> set ns. gm_get all (rid_of (fst n)) = None)"
proof (induction di cap all impl ns rule: claim_loop.induct)
  case (2 di cap all impl name i ns)
  show ?case
  proof (cases "gm_get all (rid_of name)")
    case None
    have "(\<exists>out. claim_loop di cap all impl ((name, i) # ns) = Inr out) \<longleftrightarrow>
        distinct (map (\<lambda>n. rid_of (fst n)) ns) \<and> (\<forall>n \<in> set ns. gm_get (gm_put (rid_of name) name all) (rid_of (fst n)) = None)"
      using 2 [OF refl None] None by (simp add: Let_def)
    also have "\<dots> \<longleftrightarrow> distinct (map (\<lambda>n. rid_of (fst n)) ((name, i) # ns)) \<and> (\<forall>n \<in> set ((name, i) # ns). gm_get all (rid_of (fst n)) = None)"
      using None by (auto simp: gm_get_put image_iff split: if_splits)
    finally show ?thesis .
  qed (simp add: Let_def)
qed simp

lemma claim_loop_impl:
  "claim_loop di cap all impl ns = Inr out \<Longrightarrow> set out = set impl \<union> {rid_of n | n. (n, True) \<in> set ns}"
proof (induction di cap all impl ns rule: claim_loop.induct)
  case (2 di cap all impl name i ns)
  then have "gm_get all (rid_of name) = None" by (auto simp: Let_def split: option.splits)
  then show ?case using 2 by (auto simp: Let_def)
qed simp

lemma rids_loop_Inr:
  "rids_loop di m ds = Inr out \<Longrightarrow> distinct (map xd_Capability ds) \<Longrightarrow>
   (\<forall>d \<in> set ds. distinct (map (\<lambda>n. rid_of (fst n)) (claimed_names d)) \<and>
      (\<exists>impl. gm_get out (xd_Capability d) = Some impl \<and> set impl = {rid_of n | n. (n, True) \<in> set (claimed_names d)})) \<and>
   (\<forall>cap. cap \<notin> xd_Capability ` set ds \<longrightarrow> gm_get out cap = gm_get m cap)"
proof (induction ds arbitrary: di m)
  case (Cons d ds)
  then obtain impl where impl: "claim_loop di (xd_Capability d) [] [] (claimed_names d) = Inr impl"
    "rids_loop (Suc di) (gm_put (xd_Capability d) impl m) ds = Inr out" by (auto split: sum.splits)
  have own: "distinct (map (\<lambda>n. rid_of (fst n)) (claimed_names d))" "set impl = {rid_of n | n. (n, True) \<in> set (claimed_names d)}"
    using claim_loop_accepts [of di "xd_Capability d" "[]" "[]" "claimed_names d"] claim_loop_impl [OF impl(1)] impl(1) by auto
  note IH = Cons.IH [OF impl(2)]
  have "gm_get out (xd_Capability d) = Some impl" using IH Cons.prems(2) by (simp add: gm_get_put)
  then show ?case using IH Cons.prems(2) own by (auto simp: gm_get_put)
qed simp

lemma rids_loop_accepts:
  "(\<exists>out. rids_loop di m ds = Inr out) \<longleftrightarrow> (\<forall>d \<in> set ds. distinct (map (\<lambda>n. rid_of (fst n)) (claimed_names d)))"
proof (induction ds arbitrary: di m)
  case (Cons d ds)
  show ?case
    using claim_loop_accepts [of di "xd_Capability d" "[]" "[]" "claimed_names d"] Cons.IH
    by (cases "claim_loop di (xd_Capability d) [] [] (claimed_names d)") auto
qed simp

text \<open>What is known of the table of implementable ids once every delta was visited.\<close>

definition indexes :: "(string \<times> string list) list \<Rightarrow> deltaPayload list \<Rightarrow> bool" where
  "indexes m ds \<longleftrightarrow>
     (\<forall>d \<in> set ds. \<exists>impl. gm_get m (xd_Capability d) = Some impl \<and> set impl = {rid_of n | n. (n, True) \<in> set (claimed_names d)}) \<and>
     (\<forall>cap. cap \<notin> xd_Capability ` set ds \<longrightarrow> gm_get m cap = None)"

lemma rids_loop_indexes: "rids_loop di [] ds = Inr out \<Longrightarrow> distinct (map xd_Capability ds) \<Longrightarrow> indexes out ds"
  using rids_loop_Inr [of di "[]" ds out] by (simp add: indexes_def)

lemma split_first_unique: "(c :: char) \<notin> set a \<Longrightarrow> c \<notin> set a' \<Longrightarrow> a @ c # b = a' @ c # b' \<longleftrightarrow> a = a' \<and> b = b'"
  by (auto simp: append_eq_append_conv2 append_eq_Cons_conv Cons_eq_append_conv)

lemma normalize_ref_iff:
  assumes "indexes m ds" "\<forall>d \<in> set ds. xd_Capability d \<noteq> [] \<and> CHR ''/'' \<notin> set (xd_Capability d)"
  shows "(\<exists>t'. normalize_ref m i t = Inr t') \<longleftrightarrow> good_ref ds (xt_RequirementRef t)"
proof (cases "trim (xt_RequirementRef t) = []")
  case False
  let ?ref = "trim (xt_RequirementRef t)"
  show ?thesis
  proof (cases "CutAt ?ref CHR ''/''")
    case None
    then have "CHR ''/'' \<notin> set ?ref" by (auto simp: CutAt_def split: if_splits)
    then have "\<not> good_ref ds (xt_RequirementRef t)" using False by (auto simp: good_ref_def)
    then show ?thesis using None False by (simp add: normalize_ref_def Let_def)
  next
    case (Some cn)
    then obtain cap n where cn: "?ref = cap @ CHR ''/'' # n" "CHR ''/'' \<notin> set cap" "cn = (cap, n)"
      by (cases cn) (auto simp: CutAt_Some)
    have good: "good_ref ds (xt_RequirementRef t) \<longleftrightarrow>
        trim n \<noteq> [] \<and> (\<exists>d \<in> set ds. xd_Capability d = cap \<and> rid_of n \<in> {rid_of m | m. (m, True) \<in> set (claimed_names d)})"
    proof -
      have "(\<exists>k m. ?ref = xd_Capability d @ CHR ''/'' # k \<and> trim k \<noteq> [] \<and> (m, True) \<in> set (claimed_names d) \<and> rid_of k = rid_of m) \<longleftrightarrow>
          xd_Capability d = cap \<and> trim n \<noteq> [] \<and> rid_of n \<in> {rid_of m | m. (m, True) \<in> set (claimed_names d)}" if "d \<in> set ds" for d
        unfolding cn(1) using split_first_unique [OF cn(2), of "xd_Capability d" n] assms(2) that by auto
      then show ?thesis using False unfolding good_ref_def by auto
    qed
    show ?thesis
    proof (cases "gm_get m cap")
      case None
      then have "\<forall>d \<in> set ds. xd_Capability d \<noteq> cap" using assms(1) by (auto simp: indexes_def)
      then show ?thesis using None Some cn(3) good False by (auto simp: normalize_ref_def Let_def)
    next
      case impl: (Some impl)
      then have "cap \<in> xd_Capability ` set ds" using assms(1) by (auto simp: indexes_def)
      then have d: "cap \<noteq> []" using assms(2) by auto
      define R where "R d = {rid_of n | n. (n, True) \<in> set (claimed_names d)}" for d
      have "set impl = R d" if "d \<in> set ds" "xd_Capability d = cap" for d
        using assms(1) impl that unfolding indexes_def R_def [symmetric] by fastforce
      then have "(\<exists>d \<in> set ds. xd_Capability d = cap \<and> rid_of n \<in> R d) \<longleftrightarrow> rid_of n \<in> set impl"
        using \<open>cap \<in> _\<close> by blast
      then have "good_ref ds (xt_RequirementRef t) \<longleftrightarrow> trim n \<noteq> [] \<and> rid_of n \<in> set impl"
        unfolding good R_def by simp
      moreover have "(\<exists>t'. normalize_ref m i t = Inr t') \<longleftrightarrow> trim n \<noteq> [] \<and> rid_of n \<in> set impl"
        using impl Some cn(3) False d by (simp add: normalize_ref_def Let_def)
      ultimately show ?thesis by metis
    qed
  qed
qed (simp add: normalize_ref_def good_ref_def)


lemma refs_loop_accepts: "(\<exists>ts'. refs_loop m i ts = Inr ts') \<longleftrightarrow> (\<forall>t \<in> set ts. \<exists>t'. normalize_ref m 0 t = Inr t')"
proof (induction ts arbitrary: i)
  case (Cons t ts)
  have "(\<exists>t'. normalize_ref m i t = Inr t') \<longleftrightarrow> (\<exists>t'. normalize_ref m 0 t = Inr t')"
    by (simp add: normalize_ref_def Let_def split: option.split prod.split)
  then show ?case using Cons.IH [of "Suc i"] by (cases "normalize_ref m i t"; cases "refs_loop m (Suc i) ts") auto
qed simp

text \<open>
  C7. The tool accepts exactly the well-formed changes: a slug in lower kebab case, a proposal with intent,
  approach and both scopes, deltas of different, safe capability names with complete requirements
  whose ids differ within the capability, at least one requirement in all, tasks that are complete,
  grouped by section and refer only to requirements the change adds or modifies, and an acceptance
  command.
\<close>

theorem validate_change_iff: "(\<exists>q. validate_change p = Inr q) \<longleftrightarrow> acceptable_change p"
proof -
  let ?ds = "xl_Deltas p"
  have proposal: "validateProposal p = None \<longleftrightarrow> (\<exists>q. xl_Proposal p = Some q \<and> trim (xp_Intent q) \<noteq> [] \<and>
      trim (xp_Approach q) \<noteq> [] \<and> xp_ScopeIn q \<noteq> None \<and> xp_ScopeOut q \<noteq> None)"
    by (auto simp: validateProposal_def split: option.split)
  have deltas: "validateDeltas p = None \<longleftrightarrow>
      (\<forall>d \<in> set ?ds. good_delta d) \<and> distinct (map xd_Capability ?ds) \<and> (\<exists>d \<in> set ?ds. claimed_names d \<noteq> [])"
    unfolding validateDeltas_def first_some_None deltas_loop_None by auto
  have tasks: "validateTasks p = None \<longleftrightarrow> xl_Tasks p \<noteq> [] \<and> (\<forall>t \<in> set (xl_Tasks p). good_task t) \<and>
      distinct (remdups_adj (map xt_Section (xl_Tasks p)))"
    unfolding validateTasks_def first_some_None tasks_loop_start by auto
  have refs: "(\<exists>q. validateAndNormalizeRefs p = Inr q) \<longleftrightarrow>
      (\<forall>d \<in> set ?ds. distinct (map (\<lambda>n. rid_of (fst n)) (claimed_names d))) \<and> (\<forall>t \<in> set (xl_Tasks p). good_ref ?ds (xt_RequirementRef t))"
    if "validateDeltas p = None"
  proof (cases "rids_loop 0 [] ?ds")
    case (Inl e)
    then have "\<not> (\<forall>d \<in> set ?ds. distinct (map (\<lambda>n. rid_of (fst n)) (claimed_names d)))" using rids_loop_accepts [of 0 "[]" ?ds] by auto
    then show ?thesis using Inl by (auto simp: validateAndNormalizeRefs_def)
  next
    case (Inr m)
    have "\<forall>d \<in> set ?ds. xd_Capability d \<noteq> [] \<and> CHR ''/'' \<notin> set (xd_Capability d)" using that deltas by (auto simp: good_delta_def)
    note ref = normalize_ref_iff [OF rids_loop_indexes [OF Inr] this]
    have "(\<exists>q. validateAndNormalizeRefs p = Inr q) \<longleftrightarrow> (\<exists>ts'. refs_loop m 0 (xl_Tasks p) = Inr ts')"
      using Inr by (auto simp: validateAndNormalizeRefs_def split: sum.splits)
    also have "\<dots> \<longleftrightarrow> (\<forall>t \<in> set (xl_Tasks p). good_ref ?ds (xt_RequirementRef t))"
      unfolding refs_loop_accepts using ref that deltas by simp
    moreover have "\<forall>d \<in> set ?ds. distinct (map (\<lambda>n. rid_of (fst n)) (claimed_names d))" using rids_loop_accepts [of 0 "[]" ?ds] Inr by auto
    ultimately show ?thesis by simp
  qed
  have same: "validateAndNormalizeRefs p = Inr q \<Longrightarrow> xl_AcceptanceCommand q = xl_AcceptanceCommand p" for q
    by (auto simp: validateAndNormalizeRefs_def split: sum.splits)
  define F where "F = first_some [fail_if (\<not> slugPattern (xl_Slug p)) (BadSlug (xl_Slug p)), validateProposal p, validateDeltas p, validateTasks p]"
  have "(\<exists>q. validate_change p = Inr q) \<longleftrightarrow>
      F = None \<and> (\<exists>q. validateAndNormalizeRefs p = Inr q) \<and> trim (xl_AcceptanceCommand p) \<noteq> []"
  proof (cases "validateAndNormalizeRefs p")
    case (Inr q)
    then show ?thesis unfolding validate_change_def F_def [symmetric] using same [OF Inr] by (cases F) simp_all
  qed (cases F; simp add: validate_change_def F_def [symmetric])
  also have "\<dots> \<longleftrightarrow> slugPattern (xl_Slug p) \<and> validateProposal p = None \<and> validateDeltas p = None \<and> validateTasks p = None \<and>
      (\<exists>q. validateAndNormalizeRefs p = Inr q) \<and> trim (xl_AcceptanceCommand p) \<noteq> []"
    unfolding F_def first_some_None fail_if_None not_not conj_assoc by (simp only: simp_thms)
  also have "\<dots> \<longleftrightarrow> slugPattern (xl_Slug p) \<and> validateProposal p = None \<and> validateDeltas p = None \<and> validateTasks p = None \<and>
      ((\<forall>d \<in> set ?ds. distinct (map (\<lambda>n. rid_of (fst n)) (claimed_names d))) \<and> (\<forall>t \<in> set (xl_Tasks p). good_ref ?ds (xt_RequirementRef t))) \<and>
      trim (xl_AcceptanceCommand p) \<noteq> []"
    using refs by (cases "validateDeltas p = None") (simp_all only: simp_thms)
  also have "\<dots> \<longleftrightarrow> acceptable_change p"
    unfolding acceptable_change_def deltas tasks proposal [symmetric] ball_conj_distrib by (intro iffI conjI; elim conjE; assumption)
  finally show ?thesis .
qed

end
