(* ===== verification/Emit_Change_Graph.thy ===== *)
theory Emit_Change_Graph
  imports Emit_Change_Props
begin

text \<open>
  The facts \<^verbatim>\<open>emit_change\<close> stamps and the reader of changes: what a validated payload stores, the content of
  the change and the fields of its writer together, is read back as the change.
\<close>

section \<open>What validation establishes\<close>

lemma rid_of_base: "rid_of n = rid_base n"
  by (simp add: rid_of_def rid_base_def Let_def)

lemma rids_fresh:
  "distinct (map rid_base ns) \<Longrightarrow> \<forall>n \<in> set ns. gm_get seen (rid_base n) = None \<Longrightarrow> rids seen ns = map rid_base ns"
proof (induction ns arbitrary: seen)
  case (Cons n ns)
  have "mint seen n = (rid_base n, gm_put (rid_base n) (Suc 0) seen)"
    using Cons.prems(2) by (simp add: mint_tag minted_so_far_def rid_tag_def)
  moreover have "\<forall>m \<in> set ns. gm_get (gm_put (rid_base n) (Suc 0) seen) (rid_base m) = None"
  proof
    fix m assume m: "m \<in> set ns"
    have "rid_base n \<notin> rid_base ` set ns" using Cons.prems(1) by simp
    with imageI [OF m, of rid_base] have "rid_base m \<noteq> rid_base n" by metis
    then show "gm_get (gm_put (rid_base n) (Suc 0) seen) (rid_base m) = None" using Cons.prems(2) m by (simp add: gm_get_put)
  qed
  ultimately show ?case using Cons.IH Cons.prems(1) by simp
qed simp

lemma item_names: "map item_name (delta_items (delta_toModel d)) = map fst (claimed_names d)"
  by (simp add: delta_items_def delta_toModel_def claimed_names_def requirement_toModel_def comp_def)

lemma ids_distinct_toModel:
  assumes "distinct (map (\<lambda>n. rid_of (fst n)) (claimed_names d))"
  shows "ids_distinct (delta_toModel d)" "rids [] (map fst (claimed_names d)) = map (\<lambda>n. rid_of (fst n)) (claimed_names d)"
proof -
  show r: "rids [] (map fst (claimed_names d)) = map (\<lambda>n. rid_of (fst n)) (claimed_names d)"
    using rids_fresh [of "map fst (claimed_names d)" "[]"] assms by (simp add: comp_def rid_of_base)
  show "ids_distinct (delta_toModel d)" using assms by (simp add: ids_distinct_def item_names r)
qed

text \<open>The sections are the runs of equal section names, the tasks in their order.\<close>

definition task_model :: "taskPayload \<Rightarrow> string \<times> Task" where
  "task_model t = (xt_Section t, \<lparr>tk_Number = xt_Number t, tk_Text = xt_Text t, tk_Done = xt_Done t\<rparr>)"

lemma remdups_adj_snoc: "remdups_adj (xs @ [x]) = (if xs \<noteq> [] \<and> last xs = x then remdups_adj xs else remdups_adj xs @ [x])"
  by (induction xs rule: remdups_adj.induct) auto

lemma group_loop_spec:
  assumes "\<forall>s \<in> set sections. ts_Tasks s \<noteq> []" "flat_tasks sections = map task_model us"
    "map ts_Name sections = remdups_adj (map xt_Section us)"
  shows "(\<forall>s \<in> set (group_loop sections ts). ts_Tasks s \<noteq> []) \<and> flat_tasks (group_loop sections ts) = map task_model (us @ ts) \<and>
     map ts_Name (group_loop sections ts) = remdups_adj (map xt_Section (us @ ts))"
  using assms
proof (induction ts arbitrary: sections us)
  case (Cons t ts)
  let ?task = "snd (task_model t)"
  let ?secs = "if sections = [] \<or> ts_Name (last sections) \<noteq> xt_Section t then sections @ [\<lparr>ts_Name = xt_Section t, ts_Tasks = []\<rparr>] else sections"
  let ?next = "butlast ?secs @ [(last ?secs)\<lparr>ts_Tasks := ts_Tasks (last ?secs) @ [?task]\<rparr>]"
  have step: "group_loop sections (t # ts) = group_loop ?next ts" by (simp add: task_model_def Let_def)
  have flat_snoc: "flat_tasks (xs @ ys) = flat_tasks xs @ flat_tasks ys" for xs ys by (simp add: flat_tasks_def)
  have us: "us = [] \<longleftrightarrow> sections = []" using arg_cong [OF Cons.prems(3), of length] by (cases us; cases sections) auto
  have last_us: "xt_Section (last us) = ts_Name (last sections)" if "sections \<noteq> []"
  proof -
    have "last (map ts_Name sections) = last (map xt_Section us)" unfolding Cons.prems(3) by (rule last_remdups_adj)
    then show ?thesis using that us by (simp add: last_map)
  qed
  have "(\<forall>s \<in> set ?next. ts_Tasks s \<noteq> []) \<and> flat_tasks ?next = map task_model (us @ [t]) \<and>
      map ts_Name ?next = remdups_adj (map xt_Section (us @ [t]))"
  proof (cases "sections = [] \<or> ts_Name (last sections) \<noteq> xt_Section t")
    case True
    then have "map ts_Name ?next = remdups_adj (map xt_Section us @ [xt_Section t])"
      unfolding remdups_adj_snoc using last_us us Cons.prems(3) by (auto simp: last_map)
    then show ?thesis using True Cons.prems(1,2) by (simp add: flat_snoc) (simp add: flat_tasks_def task_model_def)
  next
    case False
    then obtain ss s where ss: "sections = ss @ [s]" "ts_Name s = xt_Section t" by (cases sections rule: rev_cases) auto
    have "map ts_Name ?next = remdups_adj (map xt_Section us @ [xt_Section t])"
      unfolding remdups_adj_snoc using last_us us Cons.prems(3) ss by (auto simp: last_map)
    then show ?thesis using False ss Cons.prems(1,2) by (simp add: flat_snoc) (simp add: flat_tasks_def task_model_def)
  qed
  from Cons.IH [OF conjunct1 [OF this] conjunct1 [OF conjunct2 [OF this]] conjunct2 [OF conjunct2 [OF this]]]
  show ?case unfolding step by simp
qed simp

lemma groupTaskSections_spec:
  "(\<forall>s \<in> set (groupTaskSections ts). ts_Tasks s \<noteq> [])" "flat_tasks (groupTaskSections ts) = map task_model ts"
  "map ts_Name (groupTaskSections ts) = remdups_adj (map xt_Section ts)"
  using group_loop_spec [of "[]" "[]" ts] by (simp_all add: groupTaskSections_def flat_tasks_def)

text \<open>Normalising the references leaves the rest of the payload.\<close>

lemma refs_loop_tasks:
  "refs_loop m i ts = Inr ts' \<Longrightarrow> length ts' = length ts \<and> map xt_Section ts' = map xt_Section ts \<and> map task_model ts' = map task_model ts"
proof (induction ts arbitrary: i ts')
  case (Cons t ts)
  then obtain t' us where t': "normalize_ref m i t = Inr t'" "refs_loop m (Suc i) ts = Inr us" "ts' = t' # us"
    by (auto split: sum.splits)
  then have "task_model t' = task_model t \<and> xt_Section t' = xt_Section t"
    by (auto simp: normalize_ref_def Let_def task_model_def split: if_splits option.splits prod.splits)
  then show ?case using Cons.IH [OF t'(2)] t'(3) by simp
qed simp

lemma validate_change_Inr:
  assumes "validate_change p0 = Inr p"
  shows "acceptable_change p0" "xl_Slug p = xl_Slug p0" "xl_Proposal p = xl_Proposal p0" "xl_Design p = xl_Design p0" "xl_Deltas p = xl_Deltas p0"
    "map xt_Section (xl_Tasks p) = map xt_Section (xl_Tasks p0)"
    "\<exists>m. rids_loop 0 [] (xl_Deltas p0) = Inr m \<and> refs_loop m 0 (xl_Tasks p0) = Inr (xl_Tasks p)"
proof -
  show "acceptable_change p0" using assms validate_change_iff by blast
  have "validateAndNormalizeRefs p0 = Inr p"
    using assms unfolding validate_change_def by (auto simp del: first_some.simps split: option.splits sum.splits if_splits)
  then obtain m ts where m: "rids_loop 0 [] (xl_Deltas p0) = Inr m" "refs_loop m 0 (xl_Tasks p0) = Inr ts" "p = p0\<lparr>xl_Tasks := ts\<rparr>"
    by (auto simp: validateAndNormalizeRefs_def split: sum.splits)
  then show "xl_Slug p = xl_Slug p0" "xl_Proposal p = xl_Proposal p0" "xl_Design p = xl_Design p0" "xl_Deltas p = xl_Deltas p0"
    "map xt_Section (xl_Tasks p) = map xt_Section (xl_Tasks p0)"
    "\<exists>m. rids_loop 0 [] (xl_Deltas p0) = Inr m \<and> refs_loop m 0 (xl_Tasks p0) = Inr (xl_Tasks p)"
    using refs_loop_tasks [OF m(2)] by simp_all
qed

section \<open>The change as a reader sees it\<close>

text \<open>Deltas come back in the order of their capabilities, those without requirements not at all.\<close>

definition stored_form :: "Change \<Rightarrow> Change" where
  "stored_form c = c\<lparr>ch_Deltas := sort_key dl_Capability (filter (\<lambda>d. delta_items d \<noteq> []) (ch_Deltas c))\<rparr>"

lemma mset_concat_map_filter:
  "(\<And>x. x \<in> set xs \<Longrightarrow> \<not> P x \<Longrightarrow> f x = []) \<Longrightarrow> mset (concat (map f (sort_key k (filter P xs)))) = mset (concat (map f xs))"
proof -
  assume none: "\<And>x. x \<in> set xs \<Longrightarrow> \<not> P x \<Longrightarrow> f x = []"
  have sum: "mset (concat (map f ys)) = (\<Sum>y\<in>#mset ys. mset (f y))" for ys by (induction ys) simp_all
  have "mset (concat (map f (sort_key k (filter P xs)))) = mset (concat (map f (filter P xs)))" by (simp only: sum mset_sort)
  also have "concat (map f (filter P xs)) = concat (map f xs)" using none by (induction xs) auto
  finally show ?thesis .
qed

lemma deltaFacts_Nil: "delta_items d = [] \<Longrightarrow> deltaFacts b d = []"
  by (simp add: delta_items_def deltaFacts_def Let_def)

lemma stored_form_facts: "mset (change_Facts (stored_form c)) = mset (change_Facts c)"
  using mset_concat_map_filter [of "ch_Deltas c" "\<lambda>d. delta_items d \<noteq> []" "deltaFacts (change_base c @ segDelta @ ''.'')" dl_Capability] deltaFacts_Nil
  by (simp add: change_Facts_def stored_form_def change_base_def Let_def)

lemma stored_form_ok:
  assumes "validate_change p0 = Inr p" "length (xl_Tasks p) < 2 ^ 63"
    "\<forall>d \<in> set (xl_Deltas p). length (claimed_names d) < 2 ^ 63"
  shows "change_facts_ok (stored_form (toChange p))"
proof -
  note v = validate_change_Inr [OF assms(1)]
  let ?ds = "xl_Deltas p" and ?kept = "filter (\<lambda>d. delta_items d \<noteq> []) (map delta_toModel (xl_Deltas p))"
  have wf: "distinct (map xd_Capability ?ds)" "\<forall>d \<in> set ?ds. good_delta d \<and> distinct (map (\<lambda>n. rid_of (fst n)) (claimed_names d))"
    "distinct (remdups_adj (map xt_Section (xl_Tasks p)))"
    using v(1) unfolding acceptable_change_def v(5,6) by blast+
  have tasks: "tasks_of (ch_Tasks (toChange p)) = map task_model (xl_Tasks p)"
    by (simp add: tasks_of_def toChange_def groupTaskSections_spec(2))
  have cap: "map dl_Capability (map delta_toModel ?ds) = map xd_Capability ?ds" by (simp add: delta_toModel_def)
  then have "distinct (map dl_Capability ?kept)" using wf(1) distinct_map_filter by metis
  then have "distinct (map dl_Capability (sort_key dl_Capability ?kept))" by (simp add: distinct_map)
  then have "sorted_wrt (<) (map dl_Capability (sort_key dl_Capability ?kept))" by (simp add: strict_sorted_iff)
  moreover have "\<forall>d \<in> set (sort_key dl_Capability ?kept). dl_Capability d \<noteq> [] \<and> delta_items d \<noteq> [] \<and> ids_distinct d \<and> length (delta_items d) < 2 ^ 63"
  proof
    fix d assume "d \<in> set (sort_key dl_Capability ?kept)"
    then obtain e where e: "e \<in> set ?ds" "d = delta_toModel e" "delta_items d \<noteq> []" by auto
    have "length (delta_items d) = length (claimed_names e)" using arg_cong [OF item_names [of e], of length] e(2) by simp
    moreover have "dl_Capability d \<noteq> []" using wf(2) e(1,2) by (auto simp: good_delta_def delta_toModel_def)
    moreover have "ids_distinct d" using wf(2) ids_distinct_toModel(1) e(1,2) by blast
    moreover have "length (delta_items d) < 2 ^ 63" using assms(3) e(1) \<open>length (delta_items d) = _\<close> by simp
    ultimately show "dl_Capability d \<noteq> [] \<and> delta_items d \<noteq> [] \<and> ids_distinct d \<and> length (delta_items d) < 2 ^ 63"
      using e(3) by (intro conjI)
  qed
  moreover have "case ch_Tasks (toChange p) of None \<Rightarrow> True
      | Some t \<Rightarrow> distinct (map ts_Name (tt_Sections t)) \<and> (\<forall>s \<in> set (tt_Sections t). ts_Tasks s \<noteq> [])"
    using wf(3) groupTaskSections_spec(1,3) by (simp add: toChange_def)
  moreover have "ch_Deltas (stored_form (toChange p)) = sort_key dl_Capability ?kept" "ch_Tasks (stored_form (toChange p)) = ch_Tasks (toChange p)"
    by (simp_all add: stored_form_def toChange_def)
  moreover have "length (tasks_of (ch_Tasks (toChange p))) < 2 ^ 63" using assms(2) unfolding tasks length_map .
  ultimately show ?thesis unfolding change_facts_ok_def by (simp only: simp_thms)
qed


section \<open>The fields of the writer stand beside the change\<close>

lemma change_key_seg:
  "k \<in> set (gm_keys (change_pairs c)) \<Longrightarrow> \<exists>seg \<in> {segProposal, segDesign, segTask, segDelta}. HasPrefix k (change_base c @ seg @ ''.'')"
  using group_prefix unfolding change_pairs_eq task_keys_def map_append set_append by blast

lemma task_key_field:
  assumes "k \<in> set (gm_keys (task_keys c))"
  obtains i f where "k = (change_base c @ segTask @ ''.'') @ Itoa (int i) @ dot # f" "f \<in> {keyNumber, keyText, keyDone, keySection}"
  using assms by (force simp: task_keys_def task_pairs_def Let_def)

lemma tasks_writer_facts_key:
  "f \<in> set (tasks_writer_facts b i ts) \<Longrightarrow>
   \<exists>j < length ts. \<exists>k \<in> {''goal'', ''target_files'', ''test_command'', ''assumptions'', ''non_goals'', ''expected_outcome'', ''requirement_ref''}.
     ft_Predicate f = b @ Itoa (int (i + j)) @ dot # k"
proof (induction ts arbitrary: i)
  case (Cons t ts)
  show ?case
  proof (cases "f \<in> set (task_writer_facts b i t)")
    case True
    then show ?thesis by (intro exI [of _ 0]) (auto simp: task_writer_facts_def Let_def split: if_splits)
  next
    case False
    then obtain j k where "j < length ts" "k \<in> {''goal'', ''target_files'', ''test_command'', ''assumptions'', ''non_goals'', ''expected_outcome'', ''requirement_ref''}"
      "ft_Predicate f = b @ Itoa (int (Suc i + j)) @ dot # k" using Cons.IH [of "Suc i"] Cons.prems by auto
    then show ?thesis by (intro exI [of _ "Suc j"]) (auto simp del: of_nat_Suc)
  qed
qed simp

lemma Itoa_no_dot: "dot \<notin> set (Itoa (int i))"
  by (simp add: Itoa_nat nat_str_no_dot)

lemma writer_beside:
  assumes "f \<in> set (writer_facts p now)" "ch_Slug c = xl_Slug p" "length (tasks_of (ch_Tasks c)) = length (xl_Tasks p)"
  shows "beside c (ft_Predicate f)"
proof -
  let ?b = "change_base c"
  have base: "ChangeEntityPrefix (xl_Slug p) = ?b" by (simp add: change_base_def ChangeEntityPrefix_def assms(2))
  have parts: "x \<in> set ([A, B] @ (if P then [C] else []) @ T) \<Longrightarrow> x = A \<or> x = B \<or> x = C \<or> x \<in> set T" for x A B C :: Fact and P T
    by (auto split: if_splits)
  from parts [OF assms(1) [unfolded writer_facts_def base Let_def]]
  consider k where "k \<in> {''status'', ''generated_at'', ''acceptance_command''}" "ft_Predicate f = ?b @ k"
    | "f \<in> set (tasks_writer_facts (?b @ ''task.'') 0 (xl_Tasks p))" by force
  then show ?thesis
  proof cases
    case 1
    then have no: "\<not> HasPrefix (ft_Predicate f) (?b @ seg @ ''.'')" if "seg \<in> {segProposal, segDesign, segTask, segDelta}" for seg
      using that by (auto simp: HasPrefix_iff key_defs)
    then have "ft_Predicate f \<notin> set (gm_keys (change_pairs c))" using change_key_seg by blast
    then show ?thesis using no unfolding beside_def by blast
  next
    case 2
    then obtain i k where ik: "i < length (xl_Tasks p)"
      "k \<in> {''goal'', ''target_files'', ''test_command'', ''assumptions'', ''non_goals'', ''expected_outcome'', ''requirement_ref''}"
      "ft_Predicate f = (?b @ ''task.'') @ Itoa (int i) @ dot # k" using tasks_writer_facts_key [OF 2] by auto
    have key: "ft_Predicate f = (?b @ segTask @ ''.'') @ Itoa (int i) @ dot # k" using ik(3) by (simp add: segTask_def)
    have "ft_Predicate f \<notin> set (gm_keys (task_keys c))"
    proof
      assume "ft_Predicate f \<in> set (gm_keys (task_keys c))"
      then obtain j g where "ft_Predicate f = (?b @ segTask @ ''.'') @ Itoa (int j) @ dot # g" "g \<in> {keyNumber, keyText, keyDone, keySection}"
        by (rule task_key_field)
      then have "k \<in> {keyNumber, keyText, keyDone, keySection}"
        using key split_first_unique [OF Itoa_no_dot Itoa_no_dot] by auto
      then show False using ik(2) by (auto simp: key_defs)
    qed
    moreover have "HasPrefix (ft_Predicate f) (?b @ segTask @ ''.'')" unfolding key by (simp add: HasPrefix_iff)
    ultimately have "ft_Predicate f \<notin> set (gm_keys (change_pairs c))" using group_of_key(1) by blast
    moreover have "\<not> HasPrefix (ft_Predicate f) (?b @ segDelta @ ''.'')" unfolding key by (simp add: HasPrefix_iff key_defs)
    ultimately show ?thesis unfolding beside_def using ik(1) key assms(3) by metis
  qed
qed

text \<open>
  What the tool stamps is the change it was given: when a payload passes validation and the content facts
  and the fields of the writer are stored, in whatever order and with whatever facts of other
  changes, reading the facts back gives the change of the payload, its deltas in the order of
  their capabilities and those without requirements left out.
\<close>

lemma emitted_change_reads_back:
  assumes "\<And>ks. mset (ord ks) = mset ks" "validate_change p0 = Inr p"
    "length (xl_Tasks p) < 2 ^ 63" "\<forall>d \<in> set (xl_Deltas p). length (claimed_names d) < 2 ^ 63"
    "mset (filter (\<lambda>f. HasPrefix (ft_Predicate f) (ChangeEntityPrefix (xl_Slug p))) facts) = mset (change_Facts (toChange p) @ writer_facts p now)"
  shows "ChangeFromFacts ord (xl_Slug p) facts = change_view (stored_form (toChange p))"
proof -
  let ?c = "stored_form (toChange p)"
  have slug: "ch_Slug ?c = xl_Slug p" by (simp add: stored_form_def toChange_def)
  have tasks: "tasks_of (ch_Tasks ?c) = map task_model (xl_Tasks p)"
    by (simp add: stored_form_def tasks_of_def toChange_def groupTaskSections_spec(2))
  have "beside ?c (ft_Predicate f)" if "f \<in> set (writer_facts p now)" for f
    using writer_beside [OF that slug] tasks by simp
  moreover have "mset (filter (\<lambda>f. HasPrefix (ft_Predicate f) (ChangeEntityPrefix (ch_Slug ?c))) facts) = mset (change_Facts ?c @ writer_facts p now)"
    using assms(5) unfolding slug mset_append stored_form_facts .
  ultimately show ?thesis
    using change_reads_back [OF assms(1) stored_form_ok [OF assms(2-4)], of facts "writer_facts p now"] slug by simp
qed


section \<open>References of tasks\<close>

lemma delta_id_of:
  assumes "distinct (map (\<lambda>n. rid_of (fst n)) (claimed_names d))" "x \<in> set (delta_items (delta_toModel d))"
  obtains i where "(rid_of (item_name x), i, x) \<in> set (delta_ids (delta_toModel d))"
proof -
  let ?xs = "delta_items (delta_toModel d)"
  have "rids [] (map item_name ?xs) = map (\<lambda>n. rid_of (fst n)) (claimed_names d)"
    unfolding item_names by (rule ids_distinct_toModel(2) [OF assms(1)])
  also have "\<dots> = map rid_of (map item_name ?xs)" unfolding item_names by (simp add: comp_def)
  finally have "map fst (delta_ids (delta_toModel d)) = map (\<lambda>x. rid_of (item_name x)) ?xs"
    unfolding delta_ids_def using map_numbered [of "[]" item_name 0 ?xs] by (simp add: comp_def)
  moreover have "map (snd \<circ> snd) (delta_ids (delta_toModel d)) = ?xs" by (rule delta_ids_order(3))
  moreover obtain j where j: "j < length ?xs" "?xs ! j = x" using assms(2) by (auto simp: in_set_conv_nth)
  ultimately have "fst (delta_ids (delta_toModel d) ! j) = rid_of (item_name x)" "snd (snd (delta_ids (delta_toModel d) ! j)) = x"
    "j < length (delta_ids (delta_toModel d))"
    by (metis (no_types, lifting) length_map nth_map, metis (no_types, lifting) comp_apply length_map nth_map, metis length_map)
  then show thesis using that nth_mem by (metis prod.collapse)
qed

lemma claimed_item:
  assumes "(n, True) \<in> set (claimed_names d)"
  obtains x where "x \<in> set (delta_items (delta_toModel d))" "item_name x = n"
    "\<forall>pre i. (pre @ keyOp, opAdded) \<in> set (item_pairs pre x i) \<or> (pre @ keyOp, opModified) \<in> set (item_pairs pre x i)"
proof -
  from assms consider r where "r \<in> set (xd_Added d)" "n = xr_Name r" | m where "m \<in> set (xd_Modified d)" "n = xr_Name (xm_requirementPayload m)"
    by (auto simp: claimed_names_def)
  then show thesis
  proof cases
    case 1
    then show thesis by (intro that [of "ItemAdded (requirement_toModel r)"])
        (auto simp: delta_items_def delta_toModel_def requirement_toModel_def)
  next
    case 2
    then show thesis
      by (intro that [of "ItemModified \<lparr>mq_Requirement = requirement_toModel (xm_requirementPayload m), mq_Previously = xm_Previously m\<rparr>"])
        (auto simp: delta_items_def delta_toModel_def requirement_toModel_def)
  qed
qed

lemma normalize_ref_Inr:
  assumes "normalize_ref m j t0 = Inr t" "trim (xt_RequirementRef t) \<noteq> []"
  obtains cap name impl where "xt_RequirementRef t = cap @ ''/'' @ rid_of name" "gm_get m cap = Some impl" "rid_of name \<in> set impl"
proof (cases "trim (xt_RequirementRef t0) = []")
  case True
  then show thesis using assms by (simp add: normalize_ref_def)
next
  case False
  with assms(1) obtain cap name where cut: "CutAt (trim (xt_RequirementRef t0)) CHR ''/'' = Some (cap, name)" "cap \<noteq> []" "trim name \<noteq> []"
    by (fastforce simp: normalize_ref_def Let_def split: option.splits if_splits)
  with False assms(1) obtain impl where "gm_get m cap = Some impl" "rid_of name \<in> set impl" "t = t0\<lparr>xt_RequirementRef := cap @ ''/'' @ rid_of name\<rparr>"
    by (cases "gm_get m cap") (auto simp: normalize_ref_def Let_def split: if_splits)
  then show thesis using that by simp
qed

lemma facts_of_member: "(k, v) \<in> set P \<Longrightarrow> v \<noteq> [] \<Longrightarrow> \<lparr>ft_Predicate = k, ft_Object = v\<rparr> \<in> set (facts_of P)"
  by (force simp: facts_of_def)

lemma op_neq_Nil: "opAdded \<noteq> []" "opModified \<noteq> []"
  by (simp_all add: key_defs)

text \<open>
  C6. A reference of a task leads to the requirement it implements: after validation it is a capability and
  an id, and under exactly these the change stores a requirement that it adds or modifies.
\<close>

theorem requirement_refs_resolve:
  assumes "validate_change p0 = Inr p" "t \<in> set (xl_Tasks p)" "trim (xt_RequirementRef t) \<noteq> []"
  shows "\<exists>cap rid. xt_RequirementRef t = cap @ ''/'' @ rid \<and>
     (\<exists>op \<in> {opAdded, opModified}. \<lparr>ft_Predicate = ChangeEntityPrefix (xl_Slug p) @ ''delta.'' @ cap @ ''.'' @ rid @ ''.op'', ft_Object = op\<rparr> \<in>
        set (change_Facts (toChange p)))"
proof -
  note v = validate_change_Inr [OF assms(1)]
  obtain m where m: "rids_loop 0 [] (xl_Deltas p0) = Inr m" "refs_loop m 0 (xl_Tasks p0) = Inr (xl_Tasks p)" using v(7) by blast
  have wf: "distinct (map xd_Capability (xl_Deltas p))" "\<forall>d \<in> set (xl_Deltas p). distinct (map (\<lambda>n. rid_of (fst n)) (claimed_names d))"
    using v(1) unfolding acceptable_change_def v(5) by blast+
  have idx: "indexes m (xl_Deltas p)" using rids_loop_indexes [OF m(1)] wf(1) v(5) by simp
  have "\<exists>t0 j. normalize_ref m j t0 = Inr t" if "refs_loop m i ts = Inr us" "t \<in> set us" for i ts us
    using that
  proof (induction ts arbitrary: i us)
    case (Cons a ts)
    then obtain a' us' where a: "normalize_ref m i a = Inr a'" "refs_loop m (Suc i) ts = Inr us'" "us = a' # us'" by (auto split: sum.splits)
    show ?case
    proof (cases "t = a'")
      case True
      with a(1) show ?thesis by blast
    next
      case False
      then show ?thesis using Cons.IH [OF a(2)] Cons.prems(2) a(3) by simp
    qed
  qed simp
  then obtain t0 j where t0: "normalize_ref m j t0 = Inr t" using m(2) assms(2) by blast
  then obtain cap name impl where ref: "xt_RequirementRef t = cap @ ''/'' @ rid_of name" "gm_get m cap = Some impl" "rid_of name \<in> set impl"
    using assms(3) by (rule normalize_ref_Inr)
  have "cap \<in> xd_Capability ` set (xl_Deltas p)"
  proof (rule ccontr)
    assume "cap \<notin> xd_Capability ` set (xl_Deltas p)"
    then have "gm_get m cap = None" using idx unfolding indexes_def by blast
    with ref(2) show False by simp
  qed
  then obtain d where d: "d \<in> set (xl_Deltas p)" "xd_Capability d = cap" by blast
  obtain impl' where "gm_get m (xd_Capability d) = Some impl'" "set impl' = {rid_of n | n. (n, True) \<in> set (claimed_names d)}"
    using idx d(1) unfolding indexes_def by blast
  then have "rid_of name \<in> {rid_of n | n. (n, True) \<in> set (claimed_names d)}" using ref(2,3) d(2) by simp
  then obtain n where n: "(n, True) \<in> set (claimed_names d)" "rid_of name = rid_of n" by blast
  from n(1) obtain x where x: "x \<in> set (delta_items (delta_toModel d))" "item_name x = n"
    "\<forall>pre i. (pre @ keyOp, opAdded) \<in> set (item_pairs pre x i) \<or> (pre @ keyOp, opModified) \<in> set (item_pairs pre x i)"
    by (rule claimed_item)
  obtain i where i: "(rid_of name, i, x) \<in> set (delta_ids (delta_toModel d))"
    using delta_id_of [OF bspec [OF wf(2) d(1)] x(1)] x(2) n(2) by metis
  let ?c = "toChange p" and ?key = "ChangeEntityPrefix (xl_Slug p) @ ''delta.'' @ cap @ ''.'' @ rid_of name @ ''.op''"
  have "delta_toModel d \<in> set (ch_Deltas ?c)" using d(1) by (simp add: toChange_def)
  note sub = delta_item_in [OF this i]
  define pre where "pre = change_base ?c @ segDelta @ ''.'' @ dl_Capability (delta_toModel d) @ ''.'' @ rid_of name @ ''.''"
  have key: "pre @ keyOp = ?key"
    using d(2) by (simp add: pre_def ChangeEntityPrefix_def change_base_def segDelta_def keyOp_def toChange_def delta_toModel_def)
  obtain op where op: "op \<in> {opAdded, opModified}" "(pre @ keyOp, op) \<in> set (item_pairs pre x i)" using x(3) by blast
  have "op \<noteq> []" using op(1) op_neq_Nil by (elim insertE emptyE) simp_all
  then have "\<lparr>ft_Predicate = pre @ keyOp, ft_Object = op\<rparr> \<in> set (change_Facts ?c)"
    unfolding change_Facts_pairs using subsetD [OF sub [folded pre_def] op(2)] by (rule facts_of_member [rotated])
  with ref(1) op(1) show ?thesis unfolding key by blast
qed

section \<open>Witnesses\<close>

definition sample_requirement :: requirementPayload where
  "sample_requirement = \<lparr>xr_Name = ''Log out'', xr_Statement = ''It SHALL end the session.'', xr_Scenarios =
     [\<lparr>xn_Name = ''Button'', xn_Steps = [\<lparr>xs_Keyword = '' when'', xs_Text = ''pressed''\<rparr>, \<lparr>xs_Keyword = ''THEN'', xs_Text = ''ended''\<rparr>]\<rparr>]\<rparr>"

definition sample_task :: "string \<Rightarrow> taskPayload" where
  "sample_task ref = \<lparr>xt_Section = ''UI'', xt_Number = ''1.1'', xt_Text = ''Button'', xt_Done = False, xt_Goal = ''A button'', xt_TargetFiles = [''ui.go''],
     xt_TestCommand = ''go test'', xt_Assumptions = Some [], xt_NonGoals = Some [], xt_ExpectedOutcome = [], xt_RequirementRef = ref\<rparr>"

definition sample_payload :: "string \<Rightarrow> changePayload" where
  "sample_payload ref = \<lparr>xl_Slug = ''logout'',
     xl_Proposal = Some \<lparr>xp_Intent = ''Leave'', xp_ScopeIn = Some [''ui''], xp_ScopeOut = Some [], xp_Approach = ''Button''\<rparr>, xl_Design = None,
     xl_Deltas = [\<lparr>xd_Capability = ''ui'', xd_Added = [sample_requirement], xd_Modified = [], xd_Removed = []\<rparr>,
       \<lparr>xd_Capability = ''auth'', xd_Added = [], xd_Modified = [], xd_Removed = [\<lparr>xv_Name = ''Timeout'', xv_Rationale = ''old''\<rparr>]\<rparr>],
     xl_Tasks = [sample_task ref], xl_AcceptanceCommand = ''make test''\<rparr>"

lemma sample_validates: "validate_change (sample_payload '' ui/LOG out '') = Inr (sample_payload ''ui/log-out'')"
  by code_simp

theorem requirement_refs_resolve_witness:
  "\<exists>cap rid. xt_RequirementRef (sample_task ''ui/log-out'') = cap @ ''/'' @ rid \<and>
     (\<exists>op \<in> {opAdded, opModified}. \<lparr>ft_Predicate = ChangeEntityPrefix (xl_Slug (sample_payload ''ui/log-out'')) @ ''delta.'' @ cap @ ''.'' @ rid @ ''.op'', ft_Object = op\<rparr> \<in>
        set (change_Facts (toChange (sample_payload ''ui/log-out''))))"
  by (rule requirement_refs_resolve [OF sample_validates]) (simp_all add: sample_payload_def sample_task_def TrimSpace_def is_space_def byte_val_def)

end
