(* ===== verification/Render_Openspec.thy ===== *)
theory Render_Openspec
  imports Emit_Change_Graph Chain_Pause
begin

text \<open>
  The tool \<^verbatim>\<open>render_openspec\<close>, package \<^verbatim>\<open>tools/renderopenspec\<close>: it reads the facts of a change off the run
  entity, rebuilds the change and renders it. With \<^verbatim>\<open>emit_change\<close> as the writer it delivers the change
  that was emitted.
\<close>

section \<open>The tool\<close>

datatype render_error =
    RenderUnknownTool string | RenderArguments | NoRunAnchor | ReadRun string string
  | NoSuchChange string string | NothingToRender | SeveralChanges nat string

text \<open>The distinct slugs of the predicates \<^verbatim>\<open>change.<slug>.*\<close>, a set in the code.\<close>

definition changeSlugs :: "(string \<times> any) list \<Rightarrow> string list" where
  "changeSlugs triples =
     keep_first [] (List.map_filter (\<lambda>(pred, _).
       if HasPrefix pred changePrefix then
         (case CutAt (drop (length changePrefix) pred) dot of Some (s, _) \<Rightarrow> if s \<noteq> [] then Some s else None | None \<Rightarrow> None)
       else None) triples)"

definition slugList :: "string list \<Rightarrow> string" where
  "slugList xs = Join (sort xs) '', ''"

definition resolveSlug :: "(string \<times> any) list \<Rightarrow> string \<Rightarrow> render_error + string" where
  "resolveSlug triples want =
     (let present = changeSlugs triples in
      if want \<noteq> [] then (if want \<notin> set present then Inl (NoSuchChange want (slugList present)) else Inr want)
      else if length present = 0 then Inl NothingToRender
      else if length present = 1 then Inr (slugList present)
      else Inl (SeveralChanges (length present) (slugList present)))"

definition stringify :: "(rat \<Rightarrow> string) \<Rightarrow> any \<Rightarrow> string" where
  "stringify fl v = (case v of AnyStr s \<Rightarrow> s | AnyNil \<Rightarrow> [] | _ \<Rightarrow> sprint_v fl v)"

text \<open>The order in which the map of triples is walked is \<open>walk\<close>.\<close>

definition changeFacts :: "(rat \<Rightarrow> string) \<Rightarrow> ((string \<times> any) list \<Rightarrow> (string \<times> any) list) \<Rightarrow> (string \<times> any) list \<Rightarrow> string \<Rightarrow> Fact list" where
  "changeFacts fl walk triples s =
     map (\<lambda>(pred, val). \<lparr>ft_Predicate = pred, ft_Object = stringify fl val\<rparr>)
       (filter (\<lambda>(pred, _). HasPrefix pred (changePrefix @ s @ ''.'')) (walk triples))"

definition render_parseArgs :: "jval option \<Rightarrow> string option" where
  "render_parseArgs raw =
     (case raw of None \<Rightarrow> Some []
      | Some v \<Rightarrow> do { kvs \<leftarrow> strict_fields [''slug''] v; s \<leftarrow> string_field ''slug'' kvs; Some (TrimSpace s) })"

record RenderOpenspec =
  ro_reader :: "string \<Rightarrow> string + (string \<times> any) list"
  ro_platform :: "string \<times> string"

definition Execute_render ::
  "framework \<Rightarrow> (rat \<Rightarrow> string) \<Rightarrow> ((string \<times> any) list \<Rightarrow> (string \<times> any) list) \<Rightarrow> (string list \<Rightarrow> string list) \<Rightarrow>
   RenderOpenspec \<Rightarrow> tool_call \<Rightarrow> render_error ToolResult" where
  "Execute_render fw fl walk ord e call =
     (if tc_Name call \<noteq> ''render_openspec'' then errResult call ToolErrorNotFound (RenderUnknownTool (tc_Name call))
      else case render_parseArgs (tc_Arguments call) of
        None \<Rightarrow> errResult call ToolErrorInvalidArgs RenderArguments
      | Some want \<Rightarrow>
        (let runEntityID = snd (Anchor fw (ToolCall.truncate call) (fst (ro_platform e)) (snd (ro_platform e))) in
         if runEntityID = [] then errResult call ToolErrorInvalidArgs NoRunAnchor
         else case ro_reader e runEntityID of
           Inl err \<Rightarrow> errResult call ToolErrorNetwork (ReadRun runEntityID err)
         | Inr triples \<Rightarrow>
           (case resolveSlug triples want of
              Inl err \<Rightarrow> errResult call ToolErrorInvalidArgs err
            | Inr s \<Rightarrow>
                \<lparr>tr_CallID = tc_ID call, tr_Name = tc_Name call,
                 tr_Content = RenderChangeFolder (ChangeFromFacts ord s (changeFacts fl walk triples s)),
                 tr_Error = None, tr_Metadata = [(''run_entity_id'', runEntityID), (''slug'', s)]\<rparr>)))"


section \<open>What is stamped\<close>

lemma Execute_change_ok:
  assumes "Execute_change fw e w clock call = (res, w')" "tr_Error res = None"
  obtains p0 p R where "validate_change p0 = Inr p" "runEntityFromCall fw (ec_platform e) call = Inr R"
    "ec_publisher e w (change_triples p R (time_UTC clock)) = (None, w')"
    "tr_Metadata res = [(''run_entity_id'', R), (''slug'', xl_Slug p)]" "parseArgs (tc_Arguments call) = Inr p"
proof -
  have name: "tc_Name call = ''emit_change''"
    using assms by (auto simp: Execute_change_def errResult_def split: if_splits)
  obtain p where p: "parseArgs (tc_Arguments call) = Inr p"
    using assms name by (cases "parseArgs (tc_Arguments call)") (auto simp: Execute_change_def errResult_def)
  obtain R where R: "runEntityFromCall fw (ec_platform e) call = Inr R"
    using assms name p by (cases "runEntityFromCall fw (ec_platform e) call") (auto simp: Execute_change_def errResult_def)
  obtain er w1 where pub: "ec_publisher e w (change_triples p R (time_UTC clock)) = (er, w1)" by (cases "ec_publisher e w (change_triples p R (time_UTC clock))")
  have "er = None \<and> w1 = w' \<and> tr_Metadata res = [(''run_entity_id'', R), (''slug'', xl_Slug p)]"
    using assms name p R pub by (cases er) (auto simp: Execute_change_def errResult_def)
  moreover obtain p0 where "validate_change p0 = Inr p" using p by (auto simp: parseArgs_def split: option.splits)
  ultimately show thesis using that R pub p by blast
qed

definition stamped :: "changePayload \<Rightarrow> gotime \<Rightarrow> Fact list" where
  "stamped p now = change_Facts (toChange p) @ writer_facts p now"

lemma slug_no_dot: "slugPattern s \<Longrightarrow> s \<noteq> [] \<and> dot \<notin> set s"
  by (cases s) (auto simp: slugPattern_def list_all_iff kebab_char_def byte_class_defs byte_val_def)

lemma tasks_writer_keys_distinct: "distinct (map ft_Predicate (tasks_writer_facts b i ts))"
proof (induction ts arbitrary: i)
  case (Cons t ts)
  have own: "distinct (map ft_Predicate (task_writer_facts b i t))"
    by (simp add: task_writer_facts_def Let_def)
  have key: "\<exists>k. ft_Predicate f = b @ Itoa (int i) @ dot # k" if "f \<in> set (task_writer_facts b i t)" for f
    using that by (auto simp: task_writer_facts_def Let_def split: if_splits)
  have "set (map ft_Predicate (task_writer_facts b i t)) \<inter> set (map ft_Predicate (tasks_writer_facts b (Suc i) ts)) = {}"
  proof (intro equals0I, elim IntE)
    fix k assume "k \<in> set (map ft_Predicate (task_writer_facts b i t))" "k \<in> set (map ft_Predicate (tasks_writer_facts b (Suc i) ts))"
    then obtain f g where fg: "f \<in> set (task_writer_facts b i t)" "g \<in> set (tasks_writer_facts b (Suc i) ts)" "ft_Predicate f = ft_Predicate g" by auto
    obtain m where m: "ft_Predicate f = b @ Itoa (int i) @ dot # m" using key [OF fg(1)] by blast
    obtain j n where "ft_Predicate g = b @ Itoa (int (Suc i + j)) @ dot # n" using tasks_writer_facts_key [OF fg(2)] by blast
    with m fg(3) have "Itoa (int i) = Itoa (int (Suc i + j))"
      using split_first_unique [OF Itoa_no_dot Itoa_no_dot, of i m "Suc i + j" n] by simp
    then show False unfolding Itoa_inject by linarith
  qed
  then show ?case using own Cons.IH by simp
qed simp

lemma task_key_prefix: "f \<in> set (tasks_writer_facts b i ts) \<Longrightarrow> HasPrefix (ft_Predicate f) b"
  using tasks_writer_facts_key [of f b i ts] by (metis HasPrefix_append append.assoc)

lemma writer_facts_distinct: "distinct (map ft_Predicate (writer_facts p now))"
proof -
  let ?b = "ChangeEntityPrefix (xl_Slug p)"
  define W where "W = map ft_Predicate (tasks_writer_facts (?b @ ''task.'') 0 (xl_Tasks p))"
  have out: "?b @ k \<notin> set W" if "\<not> HasPrefix (?b @ k) (?b @ ''task.'')" for k
    using that task_key_prefix [of _ "?b @ ''task.''"] by (auto simp: W_def)
  have "?b @ ''status'' \<notin> set W" "?b @ ''generated_at'' \<notin> set W" "?b @ ''acceptance_command'' \<notin> set W"
    by (rule out; simp add: HasPrefix_iff)+
  moreover have "distinct W" unfolding W_def by (rule tasks_writer_keys_distinct)
  ultimately show ?thesis unfolding writer_facts_def Let_def map_append W_def [symmetric] by simp
qed

lemma writer_facts_prefix: "f \<in> set (writer_facts p now) \<Longrightarrow> HasPrefix (ft_Predicate f) (ChangeEntityPrefix (xl_Slug p))"
proof -
  let ?b = "ChangeEntityPrefix (xl_Slug p)"
  assume f: "f \<in> set (writer_facts p now)"
  have parts: "x \<in> set ([A, B] @ (if P then [C] else []) @ T) \<Longrightarrow> x = A \<or> x = B \<or> x = C \<or> x \<in> set T" for x A B C :: Fact and P T
    by (auto split: if_splits)
  have "HasPrefix (ft_Predicate f) ?b" if "f \<in> set (tasks_writer_facts (?b @ ''task.'') 0 (xl_Tasks p))"
    using task_key_prefix [OF that] by (auto simp: HasPrefix_iff intro: append_prefixD)
  then show ?thesis using parts [OF f [unfolded writer_facts_def Let_def]] by auto
qed

lemma no_common: "A \<subseteq> K \<Longrightarrow> (\<And>x. x \<in> B \<Longrightarrow> g x \<notin> K) \<Longrightarrow> A \<inter> g ` B = {}"
  by blast

lemma stamped_keys:
  assumes "validate_change p0 = Inr p"
    "length (xl_Tasks p) < 2 ^ 63" "\<forall>d \<in> set (xl_Deltas p). length (claimed_names d) < 2 ^ 63"
  shows "distinct (map ft_Predicate (stamped p now))"
    "f \<in> set (stamped p now) \<Longrightarrow> HasPrefix (ft_Predicate f) (ChangeEntityPrefix (xl_Slug p))"
proof -
  let ?c = "stored_form (toChange p)" and ?b = "ChangeEntityPrefix (xl_Slug p)"
  have slug: "ch_Slug ?c = xl_Slug p" by (simp add: stored_form_def toChange_def)
  have tasks: "length (tasks_of (ch_Tasks ?c)) = length (xl_Tasks p)"
    by (simp add: stored_form_def tasks_of_def toChange_def groupTaskSections_spec(2))
  have base: "change_base ?c = ?b" by (simp add: change_base_def ChangeEntityPrefix_def slug)
  have m: "mset (stamped p now) = mset (change_Facts ?c @ writer_facts p now)" by (simp add: stamped_def stored_form_facts)
  have own: "map ft_Predicate (change_Facts ?c) = map fst (filter (\<lambda>kv. snd kv \<noteq> []) (change_pairs ?c))"
    unfolding change_Facts_pairs by (simp add: facts_of_def comp_def case_prod_beta)
  have "distinct (map ft_Predicate (change_Facts ?c))"
    unfolding own using distinct_change_pairs [OF stored_form_ok [OF assms]] by (simp add: distinct_map_filter)
  moreover note writer_facts_distinct [of p now]
  moreover have "set (map ft_Predicate (change_Facts ?c)) \<inter> set (map ft_Predicate (writer_facts p now)) = {}"
  proof -
    have "set (map ft_Predicate (change_Facts ?c)) \<subseteq> set (gm_keys (change_pairs ?c))" unfolding own by auto
    moreover have "ft_Predicate f \<notin> set (gm_keys (change_pairs ?c))" if "f \<in> set (writer_facts p now)" for f
      by (rule besideD(1) [OF writer_beside [OF that slug tasks]])
    ultimately show ?thesis unfolding set_map [of ft_Predicate "writer_facts p now"] by (rule no_common)
  qed
  ultimately have "distinct (map ft_Predicate (change_Facts ?c @ writer_facts p now))" by simp
  then show "distinct (map ft_Predicate (stamped p now))"
    using arg_cong [OF m, of "image_mset ft_Predicate"] by (metis mset_eq_imp_distinct_iff mset_map)
  show "HasPrefix (ft_Predicate f) ?b" if "f \<in> set (stamped p now)"
  proof -
    from that have "f \<in> set (change_Facts ?c) \<or> f \<in> set (writer_facts p now)" using mset_eq_setD [OF m] by auto
    then show ?thesis
    proof
      assume "f \<in> set (change_Facts ?c)"
      then have "ft_Predicate f \<in> set (gm_keys (change_pairs ?c))" unfolding change_Facts_pairs by (force simp: facts_of_def)
      then show ?thesis using change_key_prefix base by metis
    next
      assume "f \<in> set (writer_facts p now)"
      then show ?thesis by (rule writer_facts_prefix)
    qed
  qed
qed


section \<open>What is read back\<close>

text \<open>What the graph component replies for an entity: its triples in the order they were stored.\<close>

definition reply_of :: "string \<Rightarrow> triple list \<Rightarrow> reply" where
  "reply_of entityID ts = map (\<lambda>t. (Predicate t, Object t)) (filter (\<lambda>t. Subject t = entityID) ts)"

lemma objects_of_append: "objects_of k (xs @ ys) = objects_of k xs @ objects_of k ys"
  by (simp add: objects_of_def)

lemma objects_of_single:
  "distinct (map fst xs) \<Longrightarrow> objects_of k xs = (case gm_get xs k of None \<Rightarrow> [] | Some v \<Rightarrow> [v])"
proof (induction xs)
  case (Cons x xs)
  have "k \<notin> fst ` set xs \<Longrightarrow> objects_of k xs = []" by (force simp: objects_of_def filter_empty_conv)
  then show ?case using Cons by (cases x) (auto simp: objects_of_def map_of_eq_None_iff split: option.splits)
qed (simp add: objects_of_def)

definition text_pairs :: "Fact list \<Rightarrow> (string \<times> any) list" where
  "text_pairs fs = map (\<lambda>f. (ft_Predicate f, AnyStr (ft_Object f))) fs"

text \<open>Of new keys the decoded map holds exactly what was stored last, once.\<close>

lemma decoded_new:
  assumes "distinct (map ft_Predicate new)" "\<And>f. f \<in> set new \<Longrightarrow> HasPrefix (ft_Predicate f) pre"
    "\<And>kv. kv \<in> set old \<Longrightarrow> \<not> HasPrefix (fst kv) pre"
  shows "mset (filter (\<lambda>kv. HasPrefix (fst kv) pre) (DecodeExactEntityTriples (old @ text_pairs new))) = mset (text_pairs new)"
proof -
  let ?D = "DecodeExactEntityTriples (old @ text_pairs new)" and ?P = "\<lambda>kv. HasPrefix (fst kv) pre"
  have keys: "map fst (text_pairs new) = map ft_Predicate new" by (simp add: text_pairs_def comp_def)
  have get: "gm_get ?D k = gm_get (text_pairs new) k" if "HasPrefix k pre" for k
  proof -
    have "objects_of k old = []" using assms(3) that by (force simp: objects_of_def filter_empty_conv)
    then have "objects_of k (old @ text_pairs new) = (case gm_get (text_pairs new) k of None \<Rightarrow> [] | Some v \<Rightarrow> [v])"
      using objects_of_single [of "text_pairs new" k] assms(1) keys by (simp add: objects_of_append)
    then show ?thesis using decode_get [of "old @ text_pairs new" k] by (auto split: option.splits)
  qed
  have "set (filter ?P ?D) = set (text_pairs new)"
  proof -
    have "kv \<in> set (filter ?P ?D) \<longleftrightarrow> kv \<in> set (text_pairs new)" for kv
    proof (cases "?P kv")
      case True
      have "kv \<in> set ?D \<longleftrightarrow> gm_get ?D (fst kv) = Some (snd kv)"
        using distinct_decoded [of "old @ text_pairs new"] by (metis map_of_eq_Some_iff prod.collapse)
      also have "\<dots> \<longleftrightarrow> kv \<in> set (text_pairs new)"
        unfolding get [OF True] using assms(1) keys by (metis map_of_eq_Some_iff prod.collapse)
      finally show ?thesis using True by simp
    next
      case False
      then show ?thesis using assms(2) by (auto simp: text_pairs_def)
    qed
    then show ?thesis by blast
  qed
  moreover have "distinct (filter ?P ?D)" using distinct_decoded [of "old @ text_pairs new"] by (simp add: distinct_map)
  moreover have "distinct (text_pairs new)" using assms(1) keys by (metis distinct_map)
  ultimately show ?thesis using set_eq_iff_mset_eq_distinct by blast
qed

lemma decoded_facts:
  assumes "mset (filter (\<lambda>kv. HasPrefix (fst kv) (changePrefix @ s @ ''.'')) D) = mset (text_pairs new)" "\<And>kvs. mset (walk kvs) = mset kvs"
  shows "mset (changeFacts fl walk D s) = mset new"
proof -
  let ?P = "\<lambda>kv :: string \<times> any. HasPrefix (fst kv) (changePrefix @ s @ ''.'')"
  have "mset (filter ?P (walk D)) = mset (text_pairs new)" using assms by (simp add: mset_filter)
  then have "mset (map (\<lambda>kv. \<lparr>ft_Predicate = fst kv, ft_Object = stringify fl (snd kv)\<rparr>) (filter ?P (walk D))) =
      mset (map (\<lambda>kv. \<lparr>ft_Predicate = fst kv, ft_Object = stringify fl (snd kv)\<rparr>) (text_pairs new))"
    by (simp only: mset_map)
  also have "map (\<lambda>kv. \<lparr>ft_Predicate = fst kv, ft_Object = stringify fl (snd kv)\<rparr>) (text_pairs new) = new"
    by (simp add: text_pairs_def stringify_def comp_def map_idI)
  finally have "mset (map (\<lambda>kv. \<lparr>ft_Predicate = fst kv, ft_Object = stringify fl (snd kv)\<rparr>) (filter ?P (walk D))) = mset new" .
  then show ?thesis unfolding changeFacts_def case_prod_unfold .
qed

text \<open>The only change of the run entity is found without naming it.\<close>

lemma changeSlugs_of:
  assumes "\<And>kv. kv \<in> set D \<Longrightarrow> HasPrefix (fst kv) changePrefix \<Longrightarrow> HasPrefix (fst kv) (changePrefix @ s @ ''.'')"
    "kv0 \<in> set D" "HasPrefix (fst kv0) (changePrefix @ s @ ''.'')" "s \<noteq> []" "dot \<notin> set s"
  shows "changeSlugs D = [s]"
proof -
  define f where "f = (\<lambda>kv :: string \<times> any. if HasPrefix (fst kv) changePrefix then
      (case CutAt (drop (length changePrefix) (fst kv)) dot of Some (s, _) \<Rightarrow> if s \<noteq> [] then Some s else None | None \<Rightarrow> None) else None)"
  have cut: "f kv = Some s" if "HasPrefix (fst kv) (changePrefix @ s @ ''.'')" for kv
  proof -
    from that obtain r where "fst kv = changePrefix @ s @ dot # r" by (auto simp: HasPrefix_iff prefix_def)
    then show ?thesis using assms(4,5) by (simp add: f_def)
  qed
  have only: "f kv = None \<or> f kv = Some s" if "kv \<in> set D" for kv
  proof (cases "HasPrefix (fst kv) changePrefix")
    case True
    then show ?thesis using cut [OF assms(1) [OF that True]] by blast
  qed (simp add: f_def)
  have "changeSlugs D = keep_first [] (List.map_filter f D)"
    unfolding changeSlugs_def f_def by (rule arg_cong [where f = "\<lambda>g. keep_first [] (List.map_filter g D)"]) (auto simp: fun_eq_iff)
  moreover have "set (List.map_filter f D) = {s}"
    using only cut [OF assms(3)] assms(2) by (force simp: set_map_filter)
  ultimately have "set (changeSlugs D) = {s}" "distinct (changeSlugs D)" by (simp_all add: set_keep_first distinct_keep_first)
  then show ?thesis by (cases "changeSlugs D" rule: remdups_adj.cases) auto
qed

text \<open>
  C4. The tools of a change fit together: when \<^verbatim>\<open>emit_change\<close> reports success on a run that held no change,
  a later \<^verbatim>\<open>render_openspec\<close> on the same run, naming the slug or none, delivers the markdown of the
  change that was emitted, whatever the order in which the graph's map of triples is walked.
\<close>

theorem render_delivers_emitted:
  assumes "faithful_publisher pub stored" "ec_publisher e = pub"
    "Execute_change fw e w clock call = (res, w')" "tr_Error res = None" "parseArgs (tc_Arguments call) = Inr p"
    "length (xl_Tasks p) < 2 ^ 63" "\<forall>d \<in> set (xl_Deltas p). length (claimed_names d) < 2 ^ 63"
    "runEntityFromCall fw (ec_platform e) call = Inr run" "run \<noteq> []"
    "\<forall>t \<in> set (stored w). Subject t = run \<longrightarrow> \<not> HasPrefix (Predicate t) changePrefix"
    "\<And>kvs. mset (walk kvs) = mset kvs" "\<And>ks. mset (ord ks) = mset ks"
    "ro_reader r run = Inr (DecodeExactEntityTriples (reply_of run (stored w')))"
    "tc_Name rcall = ''render_openspec''" "snd (Anchor fw (ToolCall.truncate rcall) (fst (ro_platform r)) (snd (ro_platform r))) = run"
    "render_parseArgs (tc_Arguments rcall) \<in> {Some [], Some (xl_Slug p)}"
  shows "tr_Error (Execute_render fw fl walk ord r rcall) = None \<and>
     tr_Content (Execute_render fw fl walk ord r rcall) = RenderChangeFolder (change_view (stored_form (toChange p)))"
proof -
  obtain p0 where p0: "validate_change p0 = Inr p" using assms(5) by (auto simp: parseArgs_def split: option.splits)
  let ?now = "time_UTC clock" and ?s = "xl_Slug p"
  define new where "new = stamped p ?now"
  define old where "old = reply_of run (stored w)"
  define D where "D = DecodeExactEntityTriples (old @ text_pairs new)"
  obtain p' R where "parseArgs (tc_Arguments call) = Inr p'" "runEntityFromCall fw (ec_platform e) call = Inr R"
    and pub0: "ec_publisher e w (change_triples p' R ?now) = (None, w')"
    using Execute_change_ok [OF assms(3,4)] by blast
  then have pub: "pub w (change_triples p run ?now) = (None, w')" using assms(2,5,8) by simp
  have "stored (snd (pub w ts)) = stored w @ (if fst (pub w ts) = None then ts else [])" for ts
    using assms(1) unfolding faithful_publisher_def by blast
  from this [of "change_triples p run ?now"] have "stored w' = stored w @ change_triples p run ?now" unfolding pub by simp
  moreover have "reply_of run (change_triples p run ?now) = text_pairs new"
    by (simp add: reply_of_def change_triples_def text_pairs_def new_def stamped_def comp_def)
  ultimately have reply: "DecodeExactEntityTriples (reply_of run (stored w')) = D" by (simp add: D_def old_def reply_of_def)
  note keys = stamped_keys [where now = "time_UTC clock", OF p0 assms(6,7), folded new_def]
  have base: "ChangeEntityPrefix ?s = changePrefix @ ?s @ ''.''" by (simp add: ChangeEntityPrefix_def)
  have old: "\<not> HasPrefix (fst kv) changePrefix" if "kv \<in> set old" for kv using that assms(10) by (auto simp: old_def reply_of_def)
  have pre: "HasPrefix k changePrefix" if "HasPrefix k (changePrefix @ x)" for k x using that by (auto simp: HasPrefix_iff intro: append_prefixD)
  have all: "mset (filter (\<lambda>kv. HasPrefix (fst kv) changePrefix) D) = mset (text_pairs new)"
    unfolding D_def using decoded_new [OF keys(1) _ old] keys(2) pre unfolding base by blast
  have own: "mset (filter (\<lambda>kv. HasPrefix (fst kv) (changePrefix @ ?s @ ''.'')) D) = mset (text_pairs new)"
    unfolding D_def using decoded_new [OF keys(1) keys(2) [unfolded base]] old pre by blast
  have mem: "kv \<in> set (text_pairs new) \<Longrightarrow> HasPrefix (fst kv) (changePrefix @ ?s @ ''.'')" for kv
    using keys(2) unfolding base text_pairs_def by auto
  have slugs: "changeSlugs D = [?s]"
  proof -
    have "\<lparr>ft_Predicate = ChangeEntityPrefix ?s @ ''status'', ft_Object = ''draft''\<rparr> \<in> set new"
      by (simp add: new_def stamped_def writer_facts_def Let_def)
    then obtain kv0 where kv0: "kv0 \<in> set (text_pairs new)" by (auto simp: text_pairs_def)
    then have "kv0 \<in> set D" using mset_eq_setD [OF own] by auto
    moreover have "kv \<in> set (text_pairs new)" if "kv \<in> set D" "HasPrefix (fst kv) changePrefix" for kv
      using that mset_eq_setD [OF all] by auto
    moreover have "slugPattern ?s"
      using validate_change_Inr(1,2) [OF p0] by (simp add: acceptable_change_def)
    ultimately show ?thesis using changeSlugs_of [of D ?s kv0] mem kv0 slug_no_dot by blast
  qed
  have resolve: "resolveSlug D want = Inr ?s" if "want = [] \<or> want = ?s" for want
    using that slugs by (auto simp: resolveSlug_def slugList_def Let_def)
  have facts: "mset (changeFacts fl walk D ?s) = mset new" by (rule decoded_facts [OF own assms(11)])
  have "filter (\<lambda>f. HasPrefix (ft_Predicate f) (ChangeEntityPrefix ?s)) (changeFacts fl walk D ?s) = changeFacts fl walk D ?s"
    unfolding filter_id_conv using keys(2) mset_eq_setD [OF facts] by blast
  then have "mset (filter (\<lambda>f. HasPrefix (ft_Predicate f) (ChangeEntityPrefix ?s)) (changeFacts fl walk D ?s)) =
      mset (change_Facts (toChange p) @ writer_facts p ?now)" using facts unfolding new_def stamped_def by simp
  from emitted_change_reads_back [OF assms(12) p0 assms(6,7) this]
  have deliver: "ChangeFromFacts ord ?s (changeFacts fl walk D ?s) = change_view (stored_form (toChange p))" .
  obtain want where want: "render_parseArgs (tc_Arguments rcall) = Some want" "want = [] \<or> want = ?s" using assms(16) by blast
  show ?thesis
    by (simp only: Execute_render_def Let_def assms(13-15) reply want(1) resolve [OF want(2)] deliver option.case sum.case if_False simp_thms assms(9))
      simp
qed

section \<open>Witness\<close>

definition jstr :: "string \<Rightarrow> string \<Rightarrow> string \<times> jval" where
  "jstr k v = (k, JString v)"

definition sample_arguments :: jval where
  "sample_arguments = JMap [jstr ''slug'' ''logout'',
     (''proposal'', JMap [jstr ''intent'' ''Leave'', (''scope_in'', JList [JString ''ui'']), (''scope_out'', JList []), jstr ''approach'' ''Button'']),
     (''deltas'', JList [
        JMap [jstr ''capability'' ''ui'', (''added'', JList [JMap [jstr ''name'' ''Log out'', jstr ''statement'' ''It SHALL end the session.'',
          (''scenarios'', JList [JMap [jstr ''name'' ''Button'', (''steps'', JList [JMap [jstr ''kw'' '' when'', jstr ''text'' ''pressed''],
            JMap [jstr ''kw'' ''THEN'', jstr ''text'' ''ended'']])]])]])],
        JMap [jstr ''capability'' ''auth'', (''removed'', JList [JMap [jstr ''name'' ''Timeout'', jstr ''rationale'' ''old'']])]]),
     (''tasks'', JList [JMap [jstr ''section'' ''UI'', jstr ''number'' ''1.1'', jstr ''text'' ''Button'', jstr ''goal'' ''A button'',
        (''target_files'', JList [JString ''ui.go'']), jstr ''test_command'' ''go test'', (''assumptions'', JList []), (''non_goals'', JList []),
        jstr ''requirement_ref'' '' ui/LOG out '']]),
     jstr ''acceptance_command'' ''make test'']"

definition sample_framework :: framework where
  "sample_framework = \<lparr>fw_RunID = ''run_id'', fw_RunEntityID = ''run_entity_id'', fw_RelatedLoops = ''related_loops'',
     fw_TryChainExecutionEntityID = (\<lambda>org platform i. Inr (org @ ''.'' @ platform @ ''.'' @ i)),
     fw_TryLoopExecutionEntityID = (\<lambda>org platform i. Inr (org @ ''.'' @ platform @ ''.'' @ i))\<rparr>"

definition sample_emit :: tool_call where
  "sample_emit = \<lparr>tc_LoopID = ''l'', tc_Metadata = Some [(''related_loops'', AnyMap [(''create-change-run'', AnyStr ''r'')])],
     tc_ID = ''1'', tc_Name = ''emit_change'', tc_Arguments = Some sample_arguments\<rparr>"

definition sample_render :: tool_call where
  "sample_render = \<lparr>tc_LoopID = ''l'', tc_Metadata = Some [(''run_id'', AnyStr ''r'')],
     tc_ID = ''2'', tc_Name = ''render_openspec'', tc_Arguments = None\<rparr>"

definition sample_emitter :: "triple list EmitChange" where
  "sample_emitter = \<lparr>ec_publisher = recording_publisher, ec_platform = (''o'', ''p'')\<rparr>"

definition sample_store :: "triple list" where
  "sample_store = snd (Execute_change sample_framework sample_emitter [] zero_time sample_emit)"

definition sample_renderer :: RenderOpenspec where
  "sample_renderer = \<lparr>ro_reader = (\<lambda>i. Inr (DecodeExactEntityTriples (reply_of i sample_store))), ro_platform = (''o'', ''p'')\<rparr>"

lemma EqualFold_lower: "ToLower s = s \<Longrightarrow> ToLower t = t \<Longrightarrow> EqualFold s t \<longleftrightarrow> s = t"
  by (simp add: EqualFold_def)

lemma field_names:
   "ToLower ''slug'' = ''slug''" "ToLower ''proposal'' = ''proposal''" "ToLower ''design'' = ''design''" "ToLower ''deltas'' = ''deltas''"
    "ToLower ''tasks'' = ''tasks''" "ToLower ''acceptance_command'' = ''acceptance_command''" "ToLower ''intent'' = ''intent''"
    "ToLower ''scope_in'' = ''scope_in''" "ToLower ''scope_out'' = ''scope_out''" "ToLower ''approach'' = ''approach''"
    "ToLower ''capability'' = ''capability''" "ToLower ''added'' = ''added''" "ToLower ''modified'' = ''modified''" "ToLower ''removed'' = ''removed''"
    "ToLower ''name'' = ''name''" "ToLower ''statement'' = ''statement''" "ToLower ''scenarios'' = ''scenarios''" "ToLower ''steps'' = ''steps''"
    "ToLower ''kw'' = ''kw''" "ToLower ''text'' = ''text''" "ToLower ''rationale'' = ''rationale''" "ToLower ''section'' = ''section''"
    "ToLower ''number'' = ''number''" "ToLower ''done'' = ''done''" "ToLower ''goal'' = ''goal''" "ToLower ''target_files'' = ''target_files''"
    "ToLower ''test_command'' = ''test_command''" "ToLower ''assumptions'' = ''assumptions''" "ToLower ''non_goals'' = ''non_goals''"
    "ToLower ''expected_outcome'' = ''expected_outcome''" "ToLower ''requirement_ref'' = ''requirement_ref''"
  by code_simp+

lemmas decode_simps = jstr_def strict_fields_def fields_of_def string_field_def slice_field_def nil_slice_field_def bool_field_def
  pointer_field_def slice_of_def EqualFold_lower field_names

lemma sample_decodes: "dec_change sample_arguments = Some (sample_payload '' ui/LOG out '')"
  by (simp add: sample_arguments_def dec_change_def dec_proposal_def dec_delta_def dec_requirement_def dec_req_fields_def dec_scenario_def
    dec_step_def dec_removed_def dec_task_def decode_simps sample_payload_def sample_task_def sample_requirement_def)

lemma sample_parses: "parseArgs (tc_Arguments sample_emit) = Inr (sample_payload ''ui/log-out'')"
  by (simp add: parseArgs_def sample_emit_def sample_decodes sample_validates)

lemma sample_runs: "runEntityFromCall sample_framework (ec_platform sample_emitter) sample_emit = Inr ''o.p.r''"
  by code_simp

lemma sample_emitted: "tr_Error (fst (Execute_change sample_framework sample_emitter [] zero_time sample_emit)) = None"
  unfolding Execute_change_def
  by (simp add: sample_parses sample_runs) (simp add: sample_emit_def sample_emitter_def recording_publisher_def)

lemma sample_anchor:
  "snd (Anchor sample_framework (ToolCall.truncate sample_render) (fst (ro_platform sample_renderer)) (snd (ro_platform sample_renderer))) = ''o.p.r''"
  by (simp add: Anchor_def sample_framework_def sample_render_def sample_renderer_def ToolCall.truncate_def str_or_empty_def Let_def)

lemma sample_call: "tc_Name sample_render = ''render_openspec''" "render_parseArgs (tc_Arguments sample_render) = Some []"
  by (simp_all add: sample_render_def render_parseArgs_def)

lemma sample_reader: "ro_reader sample_renderer i = Inr (DecodeExactEntityTriples (reply_of i sample_store))"
  by (simp add: sample_renderer_def)

lemma sample_small:
  "length (xl_Tasks (sample_payload x)) < 2 ^ 63" "\<forall>d \<in> set (xl_Deltas (sample_payload x)). length (claimed_names d) < 2 ^ 63"
  by (simp_all add: sample_payload_def claimed_names_def)

theorem render_delivers_emitted_witness:
  "tr_Error (Execute_render sample_framework (\<lambda>_. []) rev rev sample_renderer sample_render) = None \<and>
     tr_Content (Execute_render sample_framework (\<lambda>_. []) rev rev sample_renderer sample_render) =
       RenderChangeFolder (change_view (stored_form (toChange (sample_payload ''ui/log-out''))))"
  by (rule render_delivers_emitted [where p = "sample_payload ''ui/log-out''" and rcall = sample_render and run = "''o.p.r''",
        OF recording_publisher_faithful _ prod.collapse [symmetric] sample_emitted sample_parses sample_small sample_runs])
     (simp_all add: sample_emitted sample_runs sample_anchor sample_call sample_reader sample_store_def sample_emitter_def)

end
