(* ===== verification/Portfolio.thy ===== *)
theory Portfolio
  imports Tool_Call
begin

text \<open>
  The operator's portfolio of programs, projects and repositories, \<^verbatim>\<open>portfolio/portfolio.go\<close>: decoding,
  validation, and the lookups that bound what \<^verbatim>\<open>github_read\<close> may read. Nil slices and pointers are \<open>None\<close>.
\<close>

section \<open>Data\<close>

record ProjectBoard =
  pb_Owner :: string
  pb_Number :: int
  pb_StatusField :: string
  pb_PriorityField :: "string option"

record Repository =
  rp_Owner :: string
  rp_Name :: string
  rp_ProjectBoard :: "ProjectBoard option"

record Project =
  pj_ID :: string
  pj_Name :: string
  pj_Repositories :: "Repository list option"

record Program =
  pg_ID :: string
  pg_Name :: string
  pg_Projects :: "Project list option"

type_synonym Portfolio = "Program list option"

definition repo_Slug :: "Repository \<Rightarrow> string" where
  "repo_Slug r = rp_Owner r @ ''/'' @ rp_Name r"

definition RepositoryKey :: "string \<Rightarrow> string \<Rightarrow> string" where
  "RepositoryKey owner name = ToLower (TrimSpace owner @ ''/'' @ TrimSpace name)"

definition nonEmpty :: "string \<Rightarrow> bool" where
  "nonEmpty s \<longleftrightarrow> TrimSpace s \<noteq> []"

abbreviation repo_key :: "Repository \<Rightarrow> string" where
  "repo_key r \<equiv> RepositoryKey (rp_Owner r) (rp_Name r)"

definition elems :: "'a list option \<Rightarrow> 'a list" where
  "elems xs = (case xs of None \<Rightarrow> [] | Some ys \<Rightarrow> ys)"

section \<open>Validation\<close>

text \<open>The field a message names, with the indices of program, project and repository.\<close>

datatype portfolio_error =
    PortfolioPathEmpty | ReadPortfolio string | DecodePortfolio | PortfolioNil
  | Required "nat list" string | NotAnArray "nat list" string
  | DuplicateProgram nat string | DuplicateProject nat nat string
  | ListedTwice nat nat nat string string | ConflictingBoard string string string
  | BoardNumber "nat list" | PriorityBlank "nat list"

definition validateRepository :: "nat list \<Rightarrow> Repository \<Rightarrow> portfolio_error option" where
  "validateRepository path repo = first_some [
     fail_if (\<not> nonEmpty (rp_Owner repo)) (Required path ''owner''),
     fail_if (\<not> nonEmpty (rp_Name repo)) (Required path ''name''),
     (case rp_ProjectBoard repo of
        None \<Rightarrow> None
      | Some b \<Rightarrow> first_some [
          fail_if (\<not> nonEmpty (pb_Owner b)) (Required path ''project_board.owner''),
          fail_if (pb_Number b < 1) (BoardNumber path),
          fail_if (\<not> nonEmpty (pb_StatusField b)) (Required path ''project_board.status_field''),
          (case pb_PriorityField b of None \<Rightarrow> None | Some f \<Rightarrow> fail_if (\<not> nonEmpty f) (PriorityBlank path))])]"

definition boardSignature :: "ProjectBoard option \<Rightarrow> string" where
  "boardSignature b =
     (case b of
        None \<Rightarrow> ''null''
      | Some b \<Rightarrow> pb_Owner b @ ''#'' @ Itoa (pb_Number b) @ ''#'' @ pb_StatusField b @ ''#'' @
          (case pb_PriorityField b of None \<Rightarrow> [] | Some f \<Rightarrow> f))"

text \<open>
  The loop over the repositories of a project: what it has seen of the project, and the board of every
  repository met so far, which goes on from project to project.
\<close>

fun repos_loop :: "nat \<Rightarrow> nat \<Rightarrow> string \<Rightarrow> nat \<Rightarrow> string list \<Rightarrow> (string \<times> string) list \<Rightarrow> Repository list \<Rightarrow>
    portfolio_error + (string \<times> string) list" where
  "repos_loop i j projID k seen boards [] = Inr boards"
| "repos_loop i j projID k seen boards (repo # repos) =
     (case validateRepository [i, j, k] repo of
        Some e \<Rightarrow> Inl e
      | None \<Rightarrow>
        (let key = repo_key repo; sig = boardSignature (rp_ProjectBoard repo) in
         if key \<in> set seen then Inl (ListedTwice i j k (rp_Owner repo) (rp_Name repo))
         else if gm_get boards key \<noteq> None \<and> gm_get boards key \<noteq> Some sig then Inl (ConflictingBoard projID (rp_Owner repo) (rp_Name repo))
         else repos_loop i j projID (Suc k) (key # seen) (gm_put key sig boards) repos))"

fun projects_loop :: "nat \<Rightarrow> nat \<Rightarrow> string list \<Rightarrow> (string \<times> string) list \<Rightarrow> Project list \<Rightarrow>
    portfolio_error + (string list \<times> (string \<times> string) list)" where
  "projects_loop i j seen boards [] = Inr (seen, boards)"
| "projects_loop i j seen boards (proj # projs) =
     (case first_some [
        fail_if (\<not> nonEmpty (pj_ID proj)) (Required [i, j] ''id''),
        fail_if (\<not> nonEmpty (pj_Name proj)) (Required [i, j] ''name''),
        fail_if (pj_ID proj \<in> set seen) (DuplicateProject i j (pj_ID proj)),
        fail_if (pj_Repositories proj = None) (NotAnArray [i, j] ''repositories'')] of
        Some e \<Rightarrow> Inl e
      | None \<Rightarrow>
        (case repos_loop i j (pj_ID proj) 0 [] boards (elems (pj_Repositories proj)) of
           Inl e \<Rightarrow> Inl e
         | Inr boards' \<Rightarrow> projects_loop i (Suc j) (pj_ID proj # seen) boards' projs))"

fun programs_loop :: "nat \<Rightarrow> string list \<Rightarrow> string list \<Rightarrow> (string \<times> string) list \<Rightarrow> Program list \<Rightarrow> portfolio_error option" where
  "programs_loop i seenPrograms seenProjects boards [] = None"
| "programs_loop i seenPrograms seenProjects boards (prog # progs) =
     (case first_some [
        fail_if (\<not> nonEmpty (pg_ID prog)) (Required [i] ''id''),
        fail_if (\<not> nonEmpty (pg_Name prog)) (Required [i] ''name''),
        fail_if (pg_ID prog \<in> set seenPrograms) (DuplicateProgram i (pg_ID prog)),
        fail_if (pg_Projects prog = None) (NotAnArray [i] ''projects'')] of
        Some e \<Rightarrow> Some e
      | None \<Rightarrow>
        (case projects_loop i 0 seenProjects boards (elems (pg_Projects prog)) of
           Inl e \<Rightarrow> Some e
         | Inr (seenProjects', boards') \<Rightarrow> programs_loop (Suc i) (pg_ID prog # seenPrograms) seenProjects' boards' progs))"

definition portfolio_Validate :: "Portfolio \<Rightarrow> portfolio_error option" where
  "portfolio_Validate p = (case p of None \<Rightarrow> Some (NotAnArray [] ''programs'') | Some progs \<Rightarrow> programs_loop 0 [] [] [] progs)"

section \<open>Decoding\<close>

definition int_field :: "string \<Rightarrow> (string \<times> jval) list \<Rightarrow> int option" where
  "int_field name = field_in (\<lambda>old v. case v of
     JNull \<Rightarrow> Some old
   | JNumber s \<Rightarrow> if snd (Atoi s) then Some (fst (Atoi s)) else None
   | _ \<Rightarrow> None) name 0"

definition dec_board :: "jval \<Rightarrow> ProjectBoard option" where
  "dec_board v = do {
     kvs \<leftarrow> strict_fields [''owner'', ''number'', ''status_field'', ''priority_field''] v;
     owner \<leftarrow> string_field ''owner'' kvs;
     number \<leftarrow> int_field ''number'' kvs;
     status \<leftarrow> string_field ''status_field'' kvs;
     priority \<leftarrow> pointer_field string_of ''priority_field'' kvs;
     Some \<lparr>pb_Owner = owner, pb_Number = number, pb_StatusField = status, pb_PriorityField = priority\<rparr> }"

definition dec_repository :: "jval \<Rightarrow> Repository option" where
  "dec_repository v = do {
     kvs \<leftarrow> strict_fields [''owner'', ''name'', ''project_board''] v;
     owner \<leftarrow> string_field ''owner'' kvs;
     name \<leftarrow> string_field ''name'' kvs;
     board \<leftarrow> pointer_field dec_board ''project_board'' kvs;
     Some \<lparr>rp_Owner = owner, rp_Name = name, rp_ProjectBoard = board\<rparr> }"

definition dec_project :: "jval \<Rightarrow> Project option" where
  "dec_project v = do {
     kvs \<leftarrow> strict_fields [''id'', ''name'', ''repositories''] v;
     i \<leftarrow> string_field ''id'' kvs;
     name \<leftarrow> string_field ''name'' kvs;
     repos \<leftarrow> nil_slice_field dec_repository ''repositories'' kvs;
     Some \<lparr>pj_ID = i, pj_Name = name, pj_Repositories = repos\<rparr> }"

definition dec_program :: "jval \<Rightarrow> Program option" where
  "dec_program v = do {
     kvs \<leftarrow> strict_fields [''id'', ''name'', ''projects''] v;
     i \<leftarrow> string_field ''id'' kvs;
     name \<leftarrow> string_field ''name'' kvs;
     projs \<leftarrow> nil_slice_field dec_project ''projects'' kvs;
     Some \<lparr>pg_ID = i, pg_Name = name, pg_Projects = projs\<rparr> }"

text \<open>The document is one JSON value: data after it is an error as well.\<close>

definition portfolio_Parse :: "string \<Rightarrow> portfolio_error + Portfolio" where
  "portfolio_Parse data =
     (case do { v \<leftarrow> parse_json data; kvs \<leftarrow> strict_fields [''programs''] v; nil_slice_field dec_program ''programs'' kvs } of
        None \<Rightarrow> Inl DecodePortfolio
      | Some p \<Rightarrow> (case portfolio_Validate p of Some e \<Rightarrow> Inl e | None \<Rightarrow> Inr p))"

definition LoadFile :: "(string \<Rightarrow> string + string) \<Rightarrow> string \<Rightarrow> portfolio_error + Portfolio" where
  "LoadFile readFile path =
     (if TrimSpace path = [] then Inl PortfolioPathEmpty
      else case readFile path of Inl e \<Rightarrow> Inl (ReadPortfolio e) | Inr data \<Rightarrow> portfolio_Parse data)"

section \<open>Lookups\<close>

text \<open>A nil portfolio is \<open>None\<close>; the slices of a validated one are never nil.\<close>

fun find_in :: "string \<Rightarrow> Repository list \<Rightarrow> Repository option" where
  "find_in wanted [] = None"
| "find_in wanted (r # rs) = (if repo_key r = wanted then Some r else find_in wanted rs)"

definition all_repositories :: "Portfolio \<Rightarrow> Repository list" where
  "all_repositories p =
     concat (map (\<lambda>prog. concat (map (\<lambda>proj. elems (pj_Repositories proj)) (elems (pg_Projects prog)))) (elems p))"

definition FindRepository :: "Portfolio option \<Rightarrow> string \<Rightarrow> string \<Rightarrow> Repository option" where
  "FindRepository p owner name = (case p of None \<Rightarrow> None | Some p \<Rightarrow> find_in (RepositoryKey owner name) (all_repositories p))"

datatype resolve_error =
    NotConfigured | RepositoryFormat string | RepositoryUnknown string string
  | ProgramUnknown string | ProjectUnknownIn string string | ProjectUnknown string | RepositoryOutOfScope string

text \<open>The repositories in scope, the first of each key, with the keys already collected.\<close>

fun collect_repos :: "string \<Rightarrow> string list \<times> Repository list \<Rightarrow> Repository list \<Rightarrow> string list \<times> Repository list" where
  "collect_repos wanted st [] = st"
| "collect_repos wanted (seen, out) (r # rs) =
     (if (wanted \<noteq> [] \<and> repo_key r \<noteq> wanted) \<or> repo_key r \<in> set seen then collect_repos wanted (seen, out) rs
      else collect_repos wanted (repo_key r # seen, out @ [r]) rs)"

fun scan_projects :: "string \<Rightarrow> string \<Rightarrow> bool \<Rightarrow> string list \<times> Repository list \<Rightarrow> Project list \<Rightarrow> bool \<times> string list \<times> Repository list" where
  "scan_projects projectID wanted matched st [] = (matched, st)"
| "scan_projects projectID wanted matched st (proj # projs) =
     (if projectID \<noteq> [] \<and> pj_ID proj \<noteq> projectID then scan_projects projectID wanted matched st projs
      else scan_projects projectID wanted True (collect_repos wanted st (elems (pj_Repositories proj))) projs)"

fun scan_programs :: "string \<Rightarrow> string \<Rightarrow> string \<Rightarrow> bool \<times> bool \<times> string list \<times> Repository list \<Rightarrow> Program list \<Rightarrow>
    bool \<times> bool \<times> string list \<times> Repository list" where
  "scan_programs programID projectID wanted st [] = st"
| "scan_programs programID projectID wanted (mprog, mproj, st) (prog # progs) =
     (if programID \<noteq> [] \<and> pg_ID prog \<noteq> programID then scan_programs programID projectID wanted (mprog, mproj, st) progs
      else scan_programs programID projectID wanted (True, scan_projects projectID wanted mproj st (elems (pg_Projects prog))) progs)"

definition wanted_key :: "Portfolio \<Rightarrow> string \<Rightarrow> resolve_error + string" where
  "wanted_key p ref =
     (if ref = [] then Inr []
      else case CutAt ref CHR ''/'' of
        None \<Rightarrow> Inl (RepositoryFormat ref)
      | Some (owner, name) \<Rightarrow>
          if \<not> nonEmpty owner \<or> \<not> nonEmpty name \<or> CHR ''/'' \<in> set name then Inl (RepositoryFormat ref)
          else if FindRepository (Some p) owner name = None then Inl (RepositoryUnknown owner name)
          else Inr (RepositoryKey owner name))"

definition ResolveRepositories :: "Portfolio option \<Rightarrow> string \<Rightarrow> string \<Rightarrow> string \<Rightarrow> resolve_error + Repository list" where
  "ResolveRepositories p programID0 projectID0 ref0 =
     (case p of
        None \<Rightarrow> Inl NotConfigured
      | Some p \<Rightarrow>
        (let programID = TrimSpace programID0; projectID = TrimSpace projectID0; ref = TrimSpace ref0 in
         case wanted_key p ref of
           Inl e \<Rightarrow> Inl e
         | Inr wanted \<Rightarrow>
           (case scan_programs programID projectID wanted (False, False, [], []) (elems p) of (mprog, mproj, _, out) \<Rightarrow>
              if programID \<noteq> [] \<and> \<not> mprog then Inl (ProgramUnknown programID)
              else if projectID \<noteq> [] \<and> \<not> mproj then
                Inl (if programID \<noteq> [] then ProjectUnknownIn projectID programID else ProjectUnknown projectID)
              else if wanted \<noteq> [] \<and> out = [] then Inl (RepositoryOutOfScope ref)
              else Inr out)))"

section \<open>What validation establishes\<close>

definition repos_of :: "Project list \<Rightarrow> Repository list" where
  "repos_of projs = concat (map (\<lambda>proj. elems (pj_Repositories proj)) projs)"

definition boards_agree :: "(string \<times> string) list \<Rightarrow> Repository list \<Rightarrow> bool" where
  "boards_agree boards rs \<longleftrightarrow> (\<forall>r \<in> set rs. gm_get boards (repo_key r) = Some (boardSignature (rp_ProjectBoard r)))"

definition extends :: "(string \<times> string) list \<Rightarrow> (string \<times> string) list \<Rightarrow> bool" where
  "extends m m' \<longleftrightarrow> (\<forall>k v. gm_get m k = Some v \<longrightarrow> gm_get m' k = Some v)"

lemma extends_trans: "extends a b \<Longrightarrow> extends b c \<Longrightarrow> extends a c"
  by (simp add: extends_def)

lemma boards_agree_extends: "boards_agree m rs \<Longrightarrow> extends m m' \<Longrightarrow> boards_agree m' rs"
  by (simp add: boards_agree_def extends_def)

lemma repos_loop_ok:
  "repos_loop i j pid k seen boards rs = Inr boards' \<Longrightarrow>
   (\<forall>r \<in> set rs. validateRepository [] r = None) \<and> distinct (map repo_key rs) \<and> set (map repo_key rs) \<inter> set seen = {} \<and>
   boards_agree boards' rs \<and> extends boards boards'"
proof (induction rs arbitrary: k seen boards)
  case (Cons r rs)
  let ?sig = "boardSignature (rp_ProjectBoard r)"
  have ok: "validateRepository [i, j, k] r = None" "repo_key r \<notin> set seen" "gm_get boards (repo_key r) \<in> {None, Some ?sig}"
    and rest: "repos_loop i j pid (Suc k) (repo_key r # seen) (gm_put (repo_key r) ?sig boards) rs = Inr boards'"
    using Cons.prems by (auto simp: Let_def split: option.splits if_splits)
  have v: "validateRepository [] r = None"
    using ok(1) unfolding validateRepository_def first_some_None by (auto simp: first_some_None split: option.splits)
  have put: "extends boards (gm_put (repo_key r) ?sig boards)" using ok(3) by (auto simp: extends_def gm_get_put)
  from Cons.IH [OF rest] have "boards_agree boards' (r # rs)"
    by (auto simp: boards_agree_def extends_def gm_get_put)
  with Cons.IH [OF rest] v put ok(2) show ?case by (auto intro: extends_trans)
qed (simp add: boards_agree_def extends_def)

definition good_project :: "Project \<Rightarrow> bool" where
  "good_project proj \<longleftrightarrow>
     nonEmpty (pj_ID proj) \<and> nonEmpty (pj_Name proj) \<and> pj_Repositories proj \<noteq> None \<and>
     distinct (map repo_key (elems (pj_Repositories proj))) \<and> (\<forall>r \<in> set (elems (pj_Repositories proj)). validateRepository [] r = None)"

lemma projects_loop_ok:
  "projects_loop i j seen boards projs = Inr (seen', boards') \<Longrightarrow>
   (\<forall>proj \<in> set projs. good_project proj) \<and> distinct (map pj_ID projs) \<and> set (map pj_ID projs) \<inter> set seen = {} \<and> set seen' = set seen \<union> pj_ID ` set projs \<and>
   boards_agree boards' (repos_of projs) \<and> extends boards boards'"
proof (induction projs arbitrary: j seen boards)
  case (Cons proj projs)
  define checks where "checks = first_some [fail_if (\<not> nonEmpty (pj_ID proj)) (Required [i, j] ''id''),
        fail_if (\<not> nonEmpty (pj_Name proj)) (Required [i, j] ''name''), fail_if (pj_ID proj \<in> set seen) (DuplicateProject i j (pj_ID proj)),
        fail_if (pj_Repositories proj = None) (NotAnArray [i, j] ''repositories'')]"
  have step: "(case checks of Some e \<Rightarrow> Inl e | None \<Rightarrow>
      (case repos_loop i j (pj_ID proj) 0 [] boards (elems (pj_Repositories proj)) of Inl e \<Rightarrow> Inl e
       | Inr b \<Rightarrow> projects_loop i (Suc j) (pj_ID proj # seen) b projs)) = Inr (seen', boards')"
    using Cons.prems unfolding projects_loop.simps checks_def [symmetric] .
  then have c: "checks = None" by (cases checks) simp_all
  obtain b where b: "repos_loop i j (pj_ID proj) 0 [] boards (elems (pj_Repositories proj)) = Inr b"
      "projects_loop i (Suc j) (pj_ID proj # seen) b projs = Inr (seen', boards')"
    using step c by (cases "repos_loop i j (pj_ID proj) 0 [] boards (elems (pj_Repositories proj))") simp_all
  note mine = repos_loop_ok [OF b(1)] and IH = Cons.IH [OF b(2)]
  from mine have agree: "boards_agree b (elems (pj_Repositories proj))" and ext: "extends boards b" by (simp_all only: simp_thms)
  from IH have ext': "extends b boards'" by (simp only: simp_thms)
  have "boards_agree boards' (elems (pj_Repositories proj))" by (rule boards_agree_extends [OF agree ext'])
  then have "boards_agree boards' (repos_of (proj # projs))" using IH by (auto simp: boards_agree_def repos_of_def)
  moreover have "extends boards boards'" by (rule extends_trans [OF ext ext'])
  moreover have own: "nonEmpty (pj_ID proj) \<and> nonEmpty (pj_Name proj) \<and> pj_ID proj \<notin> set seen \<and> pj_Repositories proj \<noteq> None"
    using c unfolding checks_def first_some_None by (simp only: fail_if_None not_not simp_thms)
  moreover have "good_project proj" unfolding good_project_def using own mine by (intro conjI) blast+
  moreover have "distinct (map pj_ID (proj # projs)) \<and> set (map pj_ID (proj # projs)) \<inter> set seen = {}"
    "set seen' = set seen \<union> pj_ID ` set (proj # projs)"
    using IH own by auto
  moreover have "\<forall>q \<in> set projs. good_project q" using IH by blast
  ultimately show ?case by (intro conjI) (simp_all only: list.set ball_simps simp_thms)
qed (simp add: boards_agree_def extends_def repos_of_def)

definition projects_in :: "Program list \<Rightarrow> Project list" where
  "projects_in progs = concat (map (\<lambda>prog. elems (pg_Projects prog)) progs)"

definition good_program :: "Program \<Rightarrow> bool" where
  "good_program prog \<longleftrightarrow> nonEmpty (pg_ID prog) \<and> nonEmpty (pg_Name prog) \<and> pg_Projects prog \<noteq> None"

lemma programs_loop_ok:
  "programs_loop i sp sj boards progs = None \<Longrightarrow>
   distinct (map pg_ID progs) \<and> set (map pg_ID progs) \<inter> set sp = {} \<and> (\<forall>prog \<in> set progs. good_program prog) \<and>
   distinct (map pj_ID (projects_in progs)) \<and> set (map pj_ID (projects_in progs)) \<inter> set sj = {} \<and>
   (\<forall>proj \<in> set (projects_in progs). good_project proj) \<and>
   (\<exists>m. extends boards m \<and> boards_agree m (repos_of (projects_in progs)))"
proof (induction progs arbitrary: i sp sj boards)
  case Nil
  have "extends boards boards \<and> boards_agree boards []" by (simp add: extends_def boards_agree_def)
  then show ?case by (auto simp: projects_in_def repos_of_def)
next
  case (Cons prog progs)
  define checks where "checks = first_some [fail_if (\<not> nonEmpty (pg_ID prog)) (Required [i] ''id''),
        fail_if (\<not> nonEmpty (pg_Name prog)) (Required [i] ''name''), fail_if (pg_ID prog \<in> set sp) (DuplicateProgram i (pg_ID prog)),
        fail_if (pg_Projects prog = None) (NotAnArray [i] ''projects'')]"
  have step: "(case checks of Some e \<Rightarrow> Some e | None \<Rightarrow>
      (case projects_loop i 0 sj boards (elems (pg_Projects prog)) of Inl e \<Rightarrow> Some e
       | Inr (sj', b) \<Rightarrow> programs_loop (Suc i) (pg_ID prog # sp) sj' b progs)) = None"
    using Cons.prems unfolding programs_loop.simps checks_def [symmetric] .
  then have c: "checks = None" by (cases checks) simp_all
  obtain sj' b where b: "projects_loop i 0 sj boards (elems (pg_Projects prog)) = Inr (sj', b)" "programs_loop (Suc i) (pg_ID prog # sp) sj' b progs = None"
    using step c by (cases "projects_loop i 0 sj boards (elems (pg_Projects prog))") auto
  note mine = projects_loop_ok [OF b(1)] and IH = Cons.IH [OF b(2)]
  obtain m where m: "extends b m" "boards_agree m (repos_of (projects_in progs))" using IH by blast
  have "boards_agree m (repos_of (elems (pg_Projects prog)))" using mine m(1) boards_agree_extends by blast
  with m(2) have "boards_agree m (repos_of (projects_in (prog # progs)))" by (auto simp: boards_agree_def repos_of_def projects_in_def)
  moreover have "extends boards m" using mine m(1) extends_trans by blast
  moreover have "good_program prog \<and> pg_ID prog \<notin> set sp"
    using c unfolding checks_def first_some_None good_program_def by (simp only: fail_if_None not_not simp_thms)
  moreover have "projects_in (prog # progs) = elems (pg_Projects prog) @ projects_in progs" by (simp add: projects_in_def)
  moreover have "distinct (map pj_ID (elems (pg_Projects prog) @ projects_in progs)) \<and>
      set (map pj_ID (elems (pg_Projects prog) @ projects_in progs)) \<inter> set sj = {}"
    using mine IH by (auto simp: disjoint_iff)
  moreover have "\<forall>proj \<in> set (elems (pg_Projects prog) @ projects_in progs). good_project proj" using mine IH by (simp add: ball_Un)
  moreover have "distinct (map pg_ID progs) \<and> set (map pg_ID progs) \<inter> set (pg_ID prog # sp) = {} \<and> (\<forall>q \<in> set progs. good_program q)"
    using IH by blast
  ultimately show ?case by (intro conjI) (auto simp del: map_append)
qed

lemma all_repositories_eq: "all_repositories p = repos_of (projects_in (elems p))"
proof -
  have "concat (map (\<lambda>prog. concat (map f (elems (pg_Projects prog)))) ps) = concat (map f (projects_in ps))" for f :: "Project \<Rightarrow> Repository list" and ps
    by (induction ps) (simp_all add: projects_in_def)
  then show ?thesis by (simp add: all_repositories_def repos_of_def)
qed

text \<open>
  C26. A portfolio that passes validation has programs and projects with ids of their own, different across
  the whole document, no repository twice in a project up to case, only complete repositories, and
  the same board signature for a repository wherever it occurs.
\<close>

theorem portfolio_Validate_sound:
  assumes "portfolio_Validate (Some progs) = None"
  shows "distinct (map pg_ID progs) \<and> (\<forall>prog \<in> set progs. good_program prog) \<and>
     distinct (map pj_ID (projects_in progs)) \<and> (\<forall>proj \<in> set (projects_in progs). good_project proj) \<and>
     (\<forall>r \<in> set (all_repositories (Some progs)). \<forall>r' \<in> set (all_repositories (Some progs)).
        repo_key r = repo_key r' \<longrightarrow> boardSignature (rp_ProjectBoard r) = boardSignature (rp_ProjectBoard r'))"
proof -
  have "programs_loop 0 [] [] [] progs = None" using assms by (simp add: portfolio_Validate_def)
  note ok = programs_loop_ok [OF this]
  then obtain m where "boards_agree m (all_repositories (Some progs))" unfolding all_repositories_eq by (auto simp: elems_def)
  then have "\<forall>r \<in> set (all_repositories (Some progs)). \<forall>r' \<in> set (all_repositories (Some progs)).
      repo_key r = repo_key r' \<longrightarrow> boardSignature (rp_ProjectBoard r) = boardSignature (rp_ProjectBoard r')"
    by (metis boards_agree_def option.inject)
  with ok show ?thesis by blast
qed

definition collision_repo :: "string \<Rightarrow> string option \<Rightarrow> Repository" where
  "collision_repo status prio = \<lparr>rp_Owner = ''Acme'', rp_Name = ''core'', rp_ProjectBoard =
     Some \<lparr>pb_Owner = ''acme'', pb_Number = 1, pb_StatusField = status, pb_PriorityField = prio\<rparr>\<rparr>"

definition collision_portfolio :: "Program list" where
  "collision_portfolio = [\<lparr>pg_ID = ''p'', pg_Name = ''P'', pg_Projects = Some
     [\<lparr>pj_ID = ''a'', pj_Name = ''A'', pj_Repositories = Some [collision_repo ''Status#Rank'' None]\<rparr>,
      \<lparr>pj_ID = ''b'', pj_Name = ''B'', pj_Repositories = Some [collision_repo ''Status'' (Some ''Rank#'')]\<rparr>]\<rparr>]"

text \<open>
  Equal signatures do not mean equal boards: the separator may occur in a field, so a portfolio that lists
  one repository with two different boards can pass validation.
\<close>

theorem portfolio_board_collision:
  "portfolio_Validate (Some collision_portfolio) = None \<and>
   map rp_ProjectBoard (all_repositories (Some collision_portfolio)) =
     [Some \<lparr>pb_Owner = ''acme'', pb_Number = 1, pb_StatusField = ''Status#Rank'', pb_PriorityField = None\<rparr>,
      Some \<lparr>pb_Owner = ''acme'', pb_Number = 1, pb_StatusField = ''Status'', pb_PriorityField = Some ''Rank#''\<rparr>]"
  by code_simp

section \<open>What a lookup returns\<close>

text \<open>The repositories in scope, by program and project; the reference to a repository narrows them further.\<close>

definition in_scope :: "string \<Rightarrow> string \<Rightarrow> Program list \<Rightarrow> Project list" where
  "in_scope programID projectID progs =
     filter (\<lambda>proj. projectID = [] \<or> pj_ID proj = projectID) (projects_in (filter (\<lambda>prog. programID = [] \<or> pg_ID prog = programID) progs))"

lemma collect_repos_append: "collect_repos w st (xs @ ys) = collect_repos w (collect_repos w st xs) ys"
  by (induction w st xs rule: collect_repos.induct) simp_all

definition selected :: "string \<Rightarrow> Repository list \<Rightarrow> Repository list" where
  "selected w rs = filter (\<lambda>r. w = [] \<or> repo_key r = w) rs"

lemma collect_selected: "collect_repos w st rs = collect_repos [] st (selected w rs)"
  by (induction w st rs rule: collect_repos.induct) (simp_all add: selected_def)

lemma collect_all:
  "collect_repos [] (seen, out) rs = (seen', out') \<Longrightarrow> distinct (map repo_key out) \<Longrightarrow> set (map repo_key out) = set seen \<Longrightarrow>
   distinct (map repo_key out') \<and> set (map repo_key out') = set seen' \<and> set seen' = set seen \<union> repo_key ` set rs \<and> set out' \<subseteq> set out \<union> set rs"
proof (induction rs arbitrary: seen out)
  case (Cons r rs)
  show ?case
  proof (cases "repo_key r \<in> set seen")
    case True
    then show ?thesis using Cons.IH [of seen out] Cons.prems by auto
  next
    case False
    then have "distinct (map repo_key (out @ [r]))" using Cons.prems(2,3) by simp
    moreover have "set (map repo_key (out @ [r])) = set (repo_key r # seen)" using Cons.prems(3) by simp
    ultimately show ?thesis using Cons.IH [of "repo_key r # seen" "out @ [r]"] Cons.prems(1) False by auto
  qed
qed simp

lemma collect_repos_spec:
  assumes "collect_repos w ([], []) rs = (seen', out')"
  shows "distinct (map repo_key out')" "repo_key ` set out' = repo_key ` set (selected w rs)" "set out' \<subseteq> set (selected w rs)"
  using collect_all [of "[]" "[]" "selected w rs" seen' out'] assms unfolding collect_selected [of w] by auto

lemma scan_projects_eq:
  "scan_projects jid w m st projs =
     (m \<or> filter (\<lambda>proj. jid = [] \<or> pj_ID proj = jid) projs \<noteq> [],
      collect_repos w st (repos_of (filter (\<lambda>proj. jid = [] \<or> pj_ID proj = jid) projs)))"
  by (induction projs arbitrary: m st) (auto simp: repos_of_def collect_repos_append)

lemma scan_programs_eq:
  "scan_programs pid jid w (mp, mj, st) progs =
     (mp \<or> filter (\<lambda>prog. pid = [] \<or> pg_ID prog = pid) progs \<noteq> [],
      mj \<or> in_scope pid jid progs \<noteq> [], collect_repos w st (repos_of (in_scope pid jid progs)))"
proof (induction progs arbitrary: mp mj st)
  case (Cons prog progs)
  have "repos_of (xs @ ys) = repos_of xs @ repos_of ys" for xs ys by (simp add: repos_of_def)
  then show ?case using Cons by (auto simp: scan_projects_eq in_scope_def projects_in_def collect_repos_append)
qed (simp add: in_scope_def projects_in_def repos_of_def)

text \<open>
  C25. A read never leaves the portfolio: what a lookup returns are repositories of the named program and
  project, the named one only if one is named, every one of them and each once up to case; and a
  name the portfolio does not know, or knows outside the scope, is an error.
\<close>

theorem ResolveRepositories_scope:
  assumes "ResolveRepositories (Some p) programID projectID ref = Inr out"
  shows "set out \<subseteq> set (repos_of (in_scope (TrimSpace programID) (TrimSpace projectID) (elems p))) \<and> distinct (map repo_key out) \<and>
     (TrimSpace programID \<noteq> [] \<longrightarrow> TrimSpace programID \<in> pg_ID ` set (elems p)) \<and>
     (TrimSpace projectID \<noteq> [] \<longrightarrow> in_scope (TrimSpace programID) (TrimSpace projectID) (elems p) \<noteq> []) \<and>
     (if TrimSpace ref = []
      then repo_key ` set out = repo_key ` set (repos_of (in_scope (TrimSpace programID) (TrimSpace projectID) (elems p)))
      else \<exists>owner name r. TrimSpace ref = owner @ ''/'' @ name \<and> out = [r] \<and> repo_key r = RepositoryKey owner name)"
proof -
  let ?pid = "TrimSpace programID" and ?jid = "TrimSpace projectID" and ?ref = "TrimSpace ref"
  obtain w where w: "wanted_key p ?ref = Inr w" using assms by (cases "wanted_key p ?ref") (auto simp: ResolveRepositories_def Let_def)
  let ?scope = "repos_of (in_scope ?pid ?jid (elems p))"
  obtain seen' where col: "collect_repos w ([], []) ?scope = (seen', out)"
    and flags: "?pid = [] \<or> filter (\<lambda>prog. ?pid = [] \<or> pg_ID prog = ?pid) (elems p) \<noteq> []" "?jid = [] \<or> in_scope ?pid ?jid (elems p) \<noteq> []"
      "w = [] \<or> out \<noteq> []"
    using assms w by (cases "collect_repos w ([], []) ?scope") (auto simp: ResolveRepositories_def Let_def scan_programs_eq split: if_splits)
  note spec = collect_repos_spec [OF col]
  have prog: "?pid \<noteq> [] \<longrightarrow> ?pid \<in> pg_ID ` set (elems p)"
  proof
    assume "?pid \<noteq> []"
    then obtain prog where "prog \<in> set (elems p)" "pg_ID prog = ?pid" using flags(1) by (auto simp: filter_empty_conv)
    then show "?pid \<in> pg_ID ` set (elems p)" by force
  qed
  have last: "if ?ref = [] then repo_key ` set out = repo_key ` set ?scope
      else \<exists>owner name r. ?ref = owner @ ''/'' @ name \<and> out = [r] \<and> repo_key r = RepositoryKey owner name"
  proof (cases "?ref = []")
    case True
    then have "w = []" using w by (simp add: wanted_key_def)
    then show ?thesis using spec(2) True by (simp add: selected_def)
  next
    case False
    then obtain owner name where on: "?ref = owner @ ''/'' @ name" "w = RepositoryKey owner name"
      using w by (auto simp: wanted_key_def CutAt_Some split: option.splits if_splits)
    have "w \<noteq> []" by (simp add: on(2) RepositoryKey_def)
    then have keys: "out \<noteq> []" "\<forall>r \<in> set out. repo_key r = w" using flags(3) spec(3) by (auto simp: selected_def)
    obtain r rest where out: "out = r # rest" using keys(1) by (cases out) auto
    have "rest = []"
    proof (rule ccontr)
      assume "rest \<noteq> []"
      then obtain r' rest' where "rest = r' # rest'" by (cases rest) auto
      then show False using spec(1) keys(2) out by simp
    qed
    then show ?thesis using keys(2) on False out by auto
  qed
  have "set out \<subseteq> set ?scope" using spec(3) by (auto simp: selected_def)
  with spec(1) prog flags(2) last show ?thesis by (intro conjI) blast+
qed

text \<open>A witness on two programs that share a repository.\<close>

definition sample_portfolio :: "Program list" where
  "sample_portfolio =
     [\<lparr>pg_ID = ''p1'', pg_Name = ''One'', pg_Projects = Some [\<lparr>pj_ID = ''a'', pj_Name = ''A'', pj_Repositories = Some
         [\<lparr>rp_Owner = ''Acme'', rp_Name = ''core'', rp_ProjectBoard = None\<rparr>, \<lparr>rp_Owner = ''acme'', rp_Name = ''ui'', rp_ProjectBoard = None\<rparr>]\<rparr>]\<rparr>,
      \<lparr>pg_ID = ''p2'', pg_Name = ''Two'', pg_Projects = Some [\<lparr>pj_ID = ''b'', pj_Name = ''B'', pj_Repositories = Some
         [\<lparr>rp_Owner = ''acme'', rp_Name = ''CORE'', rp_ProjectBoard = None\<rparr>]\<rparr>]\<rparr>]"

theorem portfolio_Validate_sound_witness:
  "distinct (map pg_ID sample_portfolio) \<and> distinct (map pj_ID (projects_in sample_portfolio))"
proof -
  have "portfolio_Validate (Some sample_portfolio) = None" by code_simp
  from portfolio_Validate_sound [OF this] show ?thesis by blast
qed

lemma sample_resolves:
  "ResolveRepositories (Some (Some sample_portfolio)) '' p2'' [] ''Acme/core'' = Inr [\<lparr>rp_Owner = ''acme'', rp_Name = ''CORE'', rp_ProjectBoard = None\<rparr>]"
  by code_simp

theorem ResolveRepositories_scope_witness:
  "distinct (map repo_key [\<lparr>rp_Owner = ''acme'', rp_Name = ''CORE'', rp_ProjectBoard = None\<rparr>])"
  using ResolveRepositories_scope [OF sample_resolves] by blast

end
