(* ===== verification/Go_Time.thy ===== *)
theory Go_Time
  imports Go_Values
begin

text \<open>
  Reading times: \<^verbatim>\<open>parseRFC3339\<close> of package \<^verbatim>\<open>time\<close>, which \<^verbatim>\<open>time.Parse\<close> tries first on the RFC 3339 layouts and
  which decides the decoding of times from JSON. What \<open>format_RFC3339Nano\<close> prints it reads back.
\<close>

section \<open>The calendar\<close>

definition leap_year :: "int \<Rightarrow> bool" where
  "leap_year y \<longleftrightarrow> 4 dvd y \<and> (\<not> 100 dvd y \<or> 400 dvd y)"

definition month_length :: "int \<Rightarrow> int" where
  "month_length m = (if m = 2 then 28 else if m \<in> {4, 6, 9, 11} then 30 else 31)"

definition daysIn :: "int \<Rightarrow> int \<Rightarrow> int" where
  "daysIn y m = (if m = 2 \<and> leap_year y then 29 else month_length m)"

text \<open>The days from the zero time to a date; the years of an era of 400 begin in March.\<close>

definition days_of :: "int \<Rightarrow> int \<Rightarrow> int \<Rightarrow> int" where
  "days_of y m d =
     (let y' = (if m \<le> 2 then y - 1 else y); yoe = y' mod 400; mp = (if m > 2 then m - 3 else m + 9)
      in y' div 400 * 146097 + (365 * yoe + yoe div 4 - yoe div 100) + ((153 * mp + 2) div 5 + d - 1) - 306)"

definition year_start :: "int \<Rightarrow> int" where
  "year_start k = 365 * k + k div 4 - k div 100"

definition year_days :: "int \<Rightarrow> int" where
  "year_days x = x - x div 1460 + x div 36524 - x div 146096"

lemma div_step: "(x + 1) div c \<le> x div c + 1" "x div c \<le> (x + 1) div c" if "0 < c" for x c :: int
  using zdiv_mono1 [of "x + 1" "x + c" c] zdiv_mono1 [of x "x + 1" c] that by simp_all

lemma year_days_step: "year_days x \<le> year_days (x + 1)" if "0 \<le> x" "x < 146096"
proof -
  have "(x + 1) div 1460 \<le> x div 1460 + 1" "x div 36524 \<le> (x + 1) div 36524" by (simp_all add: div_step)
  moreover have "(x + 1) div 146096 = x div 146096" if "x < 146095" using that \<open>0 \<le> x\<close> by simp
  moreover have "year_days 146095 \<le> year_days 146096" by (simp add: year_days_def)
  ultimately show ?thesis using that by (cases "x = 146095") (auto simp: year_days_def)
qed

lemma year_days_mono: "0 \<le> x \<Longrightarrow> x \<le> y \<Longrightarrow> y \<le> 146096 \<Longrightarrow> year_days x \<le> year_days y"
proof (induction "nat (y - x)" arbitrary: y)
  case (Suc n)
  then have "year_days x \<le> year_days (y - 1)" by simp
  also have "\<dots> \<le> year_days y" using year_days_step [of "y - 1"] Suc by simp
  finally show ?case .
qed simp

lemma year_table:
  "list_all (\<lambda>k. 0 \<le> year_start k \<and> year_start (k + 1) - 1 \<le> 146096 \<and>
     365 * k \<le> year_days (year_start k) \<and> year_days (year_start (k + 1) - 1) < 365 * (k + 1) \<and>
     (year_start k + 365 < year_start (k + 1) \<longrightarrow> (k + 1) mod 4 = 0 \<and> (k + 1) mod 100 \<noteq> 0)) [0..399]"
  by code_simp

lemma year_found: "0 \<le> x \<Longrightarrow> x < year_start (int n) \<Longrightarrow> \<exists>k. 0 \<le> k \<and> k < int n \<and> year_start k \<le> x \<and> x < year_start (k + 1)"
proof (induction n)
  case (Suc n)
  then show ?case
    by (cases "x < year_start (int n)") (force, auto intro!: exI [of _ "int n"] simp: add.commute)
qed (simp add: year_start_def)

lemma year_of_day:
  assumes "0 \<le> x" "x < 146097"
  defines "k \<equiv> year_days x div 365"
  shows "0 \<le> k" "k < 400" "year_start k \<le> x" "x < year_start (k + 1) \<or> k = 399 \<and> x = 146096"
proof -
  have "\<exists>j. 0 \<le> j \<and> j < 400 \<and> year_start j \<le> x \<and> (x < year_start (j + 1) \<or> j = 399 \<and> x = 146096) \<and> year_days x div 365 = j"
  proof (cases "x = 146096")
    case True
    then show ?thesis by (intro exI [of _ 399]) (simp add: year_start_def year_days_def)
  next
    case False
    then obtain j where j: "0 \<le> j" "j < 400" "year_start j \<le> x" "x < year_start (j + 1)"
      using year_found [of x 400] assms(1,2) by (auto simp: year_start_def)
    have "j \<in> set [0..399]" using j(1,2) by simp
    then have t: "0 \<le> year_start j" "year_start (j + 1) - 1 \<le> 146096" "365 * j \<le> year_days (year_start j)" "year_days (year_start (j + 1) - 1) < 365 * (j + 1)"
      using year_table unfolding list_all_iff by blast+
    have "year_days (year_start j) \<le> year_days x" "year_days x \<le> year_days (year_start (j + 1) - 1)"
      using year_days_mono j(3,4) t(1,2) assms(1,2) by auto
    then have "year_days x div 365 = j" using t(3,4) by simp
    then show ?thesis using j by blast
  qed
  then show "0 \<le> k" "k < 400" "year_start k \<le> x" "x < year_start (k + 1) \<or> k = 399 \<and> x = 146096" unfolding k_def by auto
qed

lemma month_table:
  "list_all (\<lambda>doy. let mp = (5 * doy + 2) div 153; d = doy - (153 * mp + 2) div 5 + 1; m = (if mp < 10 then mp + 3 else mp - 9)
     in 0 \<le> mp \<and> mp < 12 \<and> 1 \<le> d \<and> d \<le> (if m = 2 \<and> doy = 365 then 29 else month_length m)) [0..365]"
  by code_simp

lemma long_year:
  assumes "0 \<le> k" "k < 400" "year_start k + 365 < year_start (k + 1) \<or> k = 399"
  shows "leap_year (k + e * 400 + 1)"
proof (cases "k = 399")
  case True
  then have "k + e * 400 + 1 = 400 * (e + 1)" by simp
  then have "400 dvd k + e * 400 + 1" by (metis dvd_triv_left)
  moreover from this have "4 dvd k + e * 400 + 1" by (rule dvd_trans [rotated]) simp
  ultimately show ?thesis by (simp add: leap_year_def)
next
  case False
  have "k \<in> set [0..399]" using assms(1,2) by simp
  note t = bspec [OF year_table [unfolded list_all_iff] this]
  have "year_start k + 365 < year_start (k + 1)" using assms(3) False by simp
  with t have "(k + 1) mod 4 = 0" "(k + 1) mod 100 \<noteq> 0" by (elim conjE; simp only: simp_thms)+
  moreover have "(k + e * 400 + 1) mod 4 = (k + 1) mod 4" "(k + e * 400 + 1) mod 100 = (k + 1) mod 100"
  proof -
    have "k + e * 400 + 1 = k + 1 + 4 * (100 * e)" "k + e * 400 + 1 = k + 1 + 100 * (4 * e)" by linarith+
    then show "(k + e * 400 + 1) mod 4 = (k + 1) mod 4" "(k + e * 400 + 1) mod 100 = (k + 1) mod 100" by (metis mod_mult_self2)+
  qed
  ultimately show ?thesis unfolding leap_year_def dvd_eq_mod_eq_0 by simp
qed

lemma civil_date:
  assumes "civil n = (y, m, d)"
  shows "days_of y m d = n" "1 \<le> m" "m \<le> 12" "1 \<le> d" "d \<le> daysIn y m"
proof -
  define x where "x = (n + 306) mod 146097"
  define e where "e = (n + 306) div 146097"
  define k where "k = year_days x div 365"
  define doy where "doy = x - year_start k"
  define mp where "mp = (5 * doy + 2) div 153"
  have x: "0 \<le> x" "x < 146097" by (simp_all add: x_def)
  note year = year_of_day [OF x, folded k_def]
  have "d = doy - (153 * mp + 2) div 5 + 1 \<and> m = (if mp < 10 then mp + 3 else mp - 9) \<and>
      y = k + e * 400 + (if (if mp < 10 then mp + 3 else mp - 9) \<le> 2 then 1 else 0)"
    using assms [unfolded civil_def Let_def, folded x_def e_def year_days_def, folded k_def, folded year_start_def, folded doy_def, folded mp_def]
    unfolding prod.inject by (elim conjE, intro conjI) (rule sym, assumption)+
  then have d: "d = doy - (153 * mp + 2) div 5 + 1" "m = (if mp < 10 then mp + 3 else mp - 9)"
    and y: "y = k + e * 400 + (if m \<le> 2 then 1 else 0)" by blast+
  have len: "year_start (k + 1) \<le> year_start k + 366"
    using div_step(1) [of 4 k] div_step(2) [of 100 k] by (simp add: year_start_def)
  have last: "k = 399 \<and> x = 146096 \<Longrightarrow> doy = 365" by (simp add: doy_def year_start_def)
  have doy: "0 \<le> doy" "doy \<le> 365" using year len last by (auto simp: doy_def)
  then have "doy \<in> set [0..365]" by simp
  then have t: "0 \<le> mp" "mp < 12" "1 \<le> d" "d \<le> (if m = 2 \<and> doy = 365 then 29 else month_length m)"
    using month_table unfolding list_all_iff Let_def mp_def d by blast+
  show "1 \<le> m" "m \<le> 12" "1 \<le> d" using t d by auto
  have "leap_year y" if "doy = 365" "m = 2"
  proof -
    have "year_start k + 365 < year_start (k + 1) \<or> k = 399" using year(4) that(1) by (auto simp: doy_def)
    then show ?thesis using long_year [OF year(1,2)] y that(2) by simp
  qed
  then show "d \<le> daysIn y m" using t(4) by (auto simp: daysIn_def month_length_def split: if_splits)
  have y': "(if m \<le> 2 then y - 1 else y) = k + e * 400" using y by auto
  have mp': "(if m > 2 then m - 3 else m + 9) = mp" using d(2) t(1,2) by auto
  have "(k + e * 400) mod 400 = k" "(k + e * 400) div 400 = e" using year(1,2) by auto
  then have "days_of y m d = e * 146097 + year_start k + doy - 306"
    unfolding days_of_def Let_def y' mp' by (simp add: year_start_def d(1))
  also have "\<dots> = n" by (simp add: doy_def x_def e_def)
  finally show "days_of y m d = n" .
qed

section \<open>Reading\<close>

text \<open>A decimal number within bounds, of a text all of whose bytes are digits.\<close>

definition parse_uint :: "string \<Rightarrow> int \<Rightarrow> int \<Rightarrow> int option" where
  "parse_uint s lo hi =
     (let x = int (nat_of_digits 0 s) in if list_all is_digit s \<and> lo \<le> x \<and> x \<le> hi then Some x else None)"

definition sub :: "string \<Rightarrow> nat \<Rightarrow> nat \<Rightarrow> string" where
  "sub s i n = take n (drop i s)"

definition date_time :: "string \<Rightarrow> (int \<times> int) option" where
  "date_time s =
     (case (parse_uint (sub s 0 4) 0 9999, parse_uint (sub s 5 2) 1 12, parse_uint (sub s 11 2) 0 23, parse_uint (sub s 14 2) 0 59, parse_uint (sub s 17 2) 0 59) of
        (Some y, Some m, Some h, Some mi, Some sec) \<Rightarrow>
          (case parse_uint (sub s 8 2) 1 (daysIn y m) of
             Some d \<Rightarrow>
               if sub s 4 1 = ''-'' \<and> sub s 7 1 = ''-'' \<and> sub s 10 1 = ''T'' \<and> sub s 13 1 = '':'' \<and> sub s 16 1 = '':''
               then Some (days_of y m d, h * 3600 + mi * 60 + sec) else None
           | None \<Rightarrow> None)
      | _ \<Rightarrow> None)"

text \<open>Nanoseconds from the digits after the point; digits beyond the ninth are ignored.\<close>

definition nanos :: "string \<Rightarrow> int" where
  "nanos ds = (let n = take 9 ds in int (nat_of_digits 0 n) * 10 ^ (9 - length n))"

definition fraction :: "string \<Rightarrow> int \<times> string" where
  "fraction s =
     (case s of
        p # rest \<Rightarrow> let ds = takeWhile is_digit rest in
          if p = CHR ''.'' \<and> ds \<noteq> [] then (nanos ds, drop (length ds) rest) else (0, s)
      | [] \<Rightarrow> (0, s))"

definition zone :: "string \<Rightarrow> int option" where
  "zone s =
     (if s = ''Z'' then Some 0
      else if length s \<noteq> 6 \<or> sub s 3 1 \<noteq> '':'' \<or> (sub s 0 1 \<noteq> ''-'' \<and> sub s 0 1 \<noteq> ''+'') then None
      else (case (parse_uint (sub s 1 2) 0 23, parse_uint (sub s 4 2) 0 59) of
              (Some hr, Some mm) \<Rightarrow> Some ((if sub s 0 1 = ''-'' then - 1 else 1) * ((hr * 60 + mm) * 60))
            | _ \<Rightarrow> None))"

definition parse_RFC3339 :: "string \<Rightarrow> gotime option" where
  "parse_RFC3339 s =
     (if length s < 19 then None
      else case date_time (take 19 s) of
        None \<Rightarrow> None
      | Some (days, secs) \<Rightarrow>
        (let (ns, rest) = fraction (drop 19 s) in
         case zone rest of
           None \<Rightarrow> None
         | Some off \<Rightarrow> Some \<lparr>gt_ns = (days * 86400 + secs - off) * second_ns + ns, gt_off = off\<rparr>))"

section \<open>What is printed is read back\<close>

lemma length_nat_str: "n < 10 ^ w \<Longrightarrow> 0 < w \<Longrightarrow> length (nat_str n) \<le> w"
proof (induction w arbitrary: n)
  case (Suc w)
  show ?case
  proof (cases "n < 10")
    case True
    then show ?thesis by (subst nat_str.simps) simp
  next
    case False
    then have "w \<noteq> 0" using Suc.prems by (cases w) auto
    moreover have "n div 10 < 10 ^ w" using Suc.prems by (simp add: less_mult_imp_div_less mult.commute)
    ultimately have "length (nat_str (n div 10)) \<le> w" by (intro Suc.IH) simp_all
    then show ?thesis using False by (subst nat_str.simps) simp
  qed
qed simp

lemma zeros_value [simp]: "nat_of_digits 0 (replicate k CHR ''0'' @ s) = nat_of_digits 0 s"
  by (induction k) (simp_all add: byte_val_def)

lemma digit_zero [simp]: "is_digit CHR ''0''"
  by (simp add: is_digit_def byte_val_def)

lemma pad_num_facts:
  assumes "0 \<le> i" "i < 10 ^ w" "0 < w"
  shows "length (pad_num w i) = w" "list_all is_digit (pad_num w i)" "nat_of_digits 0 (pad_num w i) = nat i"
proof -
  have "nat i < 10 ^ w" using assms by (simp add: nat_less_iff)
  then have "length (nat_str (nat i)) \<le> w" using assms(3) by (rule length_nat_str)
  then show "length (pad_num w i) = w" by (simp add: pad_num_def Let_def)
  show "list_all is_digit (pad_num w i)" using nat_str_digits [of _ "nat i"] by (auto simp: pad_num_def Let_def list_all_iff)
  show "nat_of_digits 0 (pad_num w i) = nat i" by (simp add: pad_num_def Let_def)
qed

lemma length_pad2: "0 \<le> i \<Longrightarrow> i \<le> 99 \<Longrightarrow> length (pad_num 2 i) = 2"
  by (rule pad_num_facts(1)) simp_all

lemma parse_uint_pad: "0 \<le> i \<Longrightarrow> i < 10 ^ w \<Longrightarrow> 0 < w \<Longrightarrow> lo \<le> i \<Longrightarrow> i \<le> hi \<Longrightarrow> parse_uint (pad_num w i) lo hi = Some i"
  by (simp add: parse_uint_def pad_num_facts)

lemma parse_uint_two: "0 \<le> i \<Longrightarrow> i \<le> 99 \<Longrightarrow> lo \<le> i \<Longrightarrow> i \<le> hi \<Longrightarrow> parse_uint (pad_num 2 i) lo hi = Some i"
  by (rule parse_uint_pad) simp_all

lemma sub_append [simp]: "sub (a @ b) (length a) n = take n b"
  by (simp add: sub_def)

lemma digits_shift: "nat_of_digits acc s = nat_of_digits 0 s + acc * 10 ^ length s"
proof (induction s arbitrary: acc)
  case (Cons c s)
  show ?case using Cons [of "10 * acc + (byte_val c - 48)"] Cons [of "byte_val c - 48"] by (simp add: algebra_simps)
qed simp

lemma trailing_zeros: "nat_of_digits 0 (s @ replicate k CHR ''0'') = nat_of_digits 0 s * 10 ^ k"
proof -
  have z: "nat_of_digits 0 (replicate k CHR ''0'') = 0" using zeros_value [of k "[]"] by simp
  show ?thesis by (simp add: nat_of_digits_append digits_shift [of "nat_of_digits 0 s"] z)
qed

lemma TrimRightChar_decomp: "\<exists>k. s = TrimRightChar s c @ replicate k c"
proof -
  have "takeWhile (\<lambda>d. d = c) (rev s) = replicate (length (takeWhile (\<lambda>d. d = c) (rev s))) c"
    by (metis (full_types) replicate_eqI set_takeWhileD)
  then have "rev s = replicate (length (takeWhile (\<lambda>d. d = c) (rev s))) c @ dropWhile (\<lambda>d. d = c) (rev s)"
    by (metis takeWhile_dropWhile_id)
  then have "s = rev (dropWhile (\<lambda>d. d = c) (rev s)) @ replicate (length (takeWhile (\<lambda>d. d = c) (rev s))) c"
    by (metis rev_append rev_replicate rev_rev_ident)
  then show ?thesis unfolding TrimRightChar_def by blast
qed

lemma fraction_back:
  assumes "0 \<le> n" "n < second_ns" "rest = [] \<or> \<not> is_digit (hd rest) \<and> hd rest \<noteq> CHR ''.''"
  defines "fr \<equiv> TrimRightChar (pad_num 9 n) CHR ''0''"
  shows "fraction ((if fr = [] then [] else ''.'' @ fr) @ rest) = (n, rest)"
proof -
  have n: "n < 10 ^ 9" using assms(2) by simp
  note pad = pad_num_facts [OF assms(1) n]
  obtain k where k: "pad_num 9 n = fr @ replicate k CHR ''0''" using TrimRightChar_decomp [of "pad_num 9 n" "CHR ''0''"] unfolding fr_def by blast
  have len: "length fr + k = 9" using pad(1) k by (metis length_append length_replicate zero_less_numeral)
  have val: "nat n = nat_of_digits 0 fr * 10 ^ k" using pad(3) k trailing_zeros by simp
  have digits: "list_all is_digit fr" using pad(2) k by (simp add: list_all_append)
  show ?thesis
  proof (cases "fr = []")
    case True
    then have "n = 0" using val assms(1) by simp
    then show ?thesis using True assms(3) by (cases rest) (auto simp: fraction_def)
  next
    case False
    have "takeWhile is_digit (fr @ rest) = fr"
      using digits assms(3) by (cases rest) (auto simp: takeWhile_append list_all_iff takeWhile_eq_all_conv)
    moreover have "nanos fr = n"
    proof -
      have "take 9 fr = fr" "9 - length fr = k" using len by simp_all
      then show ?thesis using val assms(1) by (simp add: nanos_def Let_def) (metis int_nat_eq of_nat_mult of_nat_numeral of_nat_power)
    qed
    ultimately show ?thesis using False by (simp add: fraction_def Let_def)
  qed
qed

lemma zone_back:
  assumes "gt_off t mod 60 = 0" "\<bar>gt_off t\<bar> < 86400"
  shows "zone (format_zone t) = Some (gt_off t)"
proof (cases "gt_off t = 0")
  case False
  define a where "a = \<bar>gt_off t\<bar> div 60"
  have a: "0 \<le> a" "a < 1440" "\<bar>gt_off t\<bar> = 60 * a"
    using assms by (auto simp: a_def mod_eq_0_iff_dvd abs_if)
  have h: "parse_uint (pad_num 2 (a div 60)) 0 23 = Some (a div 60)" by (rule parse_uint_pad) (use a in auto)
  have mi: "parse_uint (pad_num 2 (a mod 60)) 0 59 = Some (a mod 60)" by (rule parse_uint_pad) auto
  have len: "length (pad_num 2 (a div 60)) = 2" "length (pad_num 2 (a mod 60)) = 2"
    using pad_num_facts(1) [of "a div 60" 2] pad_num_facts(1) [of "a mod 60" 2] a by auto
  define sg where "sg = (if gt_off t < 0 then CHR ''-'' else CHR ''+'')"
  have f: "format_zone t = sg # pad_num 2 (a div 60) @ CHR '':'' # pad_num 2 (a mod 60)"
    using False by (simp add: format_zone_def Let_def a_def sg_def)
  have "(a div 60 * 60 + a mod 60) * 60 = 60 * a" by simp
  then have "(if sg = CHR ''-'' then - 1 else 1) * ((a div 60 * 60 + a mod 60) * 60) = gt_off t"
    using a(3) by (auto simp: sg_def)
  then show ?thesis unfolding f using h mi len by (auto simp: zone_def sub_def sg_def)
qed (simp add: format_zone_def zone_def)

lemma date_time_back:
  assumes "civil (local_seconds t div 86400) = (y, m, d)" "0 \<le> y" "y \<le> 9999"
  shows "date_time (format_date t @ ''T'' @ format_clock t) = Some (local_seconds t div 86400, local_seconds t mod 86400)"
    "length (format_date t @ ''T'' @ format_clock t) = 19"
proof -
  note date = civil_date [OF assms(1)]
  have d31: "d \<le> 31" using date(5) by (auto simp: daysIn_def month_length_def split: if_splits)
  define s where "s = local_seconds t mod 86400"
  have s: "0 \<le> s" "s < 86400" by (simp_all add: s_def)
  have h: "0 \<le> s div 3600" "s div 3600 \<le> 23" "0 \<le> s div 60 mod 60" "s div 60 mod 60 \<le> 59" "0 \<le> s mod 60" "s mod 60 \<le> 59"
    using s by auto
  have h99: "s div 3600 \<le> 99" "s div 60 mod 60 \<le> 99" "s mod 60 \<le> 99" "0 \<le> m" "m \<le> 99" "0 \<le> d" "d \<le> 99"
    using h(2,4,6) date(2-4) d31 by linarith+
  have py: "parse_uint (pad_num 4 y) 0 9999 = Some y" by (rule parse_uint_pad) (use assms in auto)
  have pm: "parse_uint (pad_num 2 m) 1 12 = Some m" by (rule parse_uint_two [OF h99(4,5) date(2,3)])
  have pd: "parse_uint (pad_num 2 d) 1 (daysIn y m) = Some d" by (rule parse_uint_two [OF h99(6,7) date(4,5)])
  have ph: "parse_uint (pad_num 2 (s div 3600)) 0 23 = Some (s div 3600)" by (rule parse_uint_two [OF h(1) h99(1) h(1,2)])
  have pmi: "parse_uint (pad_num 2 (s div 60 mod 60)) 0 59 = Some (s div 60 mod 60)" by (rule parse_uint_two [OF h(3) h99(2) h(3,4)])
  have ps: "parse_uint (pad_num 2 (s mod 60)) 0 59 = Some (s mod 60)" by (rule parse_uint_two [OF h(5) h99(3) h(5,6)])
  have len: "length (pad_num 4 y) = 4" "length (pad_num 2 m) = 2" "length (pad_num 2 d) = 2"
    "length (pad_num 2 (s div 3600)) = 2" "length (pad_num 2 (s div 60 mod 60)) = 2" "length (pad_num 2 (s mod 60)) = 2"
    using pad_num_facts(1) [of y 4] assms(2,3) by simp (rule length_pad2; rule h99 h)+
  have f: "format_date t @ ''T'' @ format_clock t =
      pad_num 4 y @ CHR ''-'' # pad_num 2 m @ CHR ''-'' # pad_num 2 d @ CHR ''T'' #
      pad_num 2 (s div 3600) @ CHR '':'' # pad_num 2 (s div 60 mod 60) @ CHR '':'' # pad_num 2 (s mod 60)"
    by (simp add: format_date_def assms(1) format_clock_def Let_def s_def)
  have "s div 3600 * 3600 + s div 60 mod 60 * 60 + s mod 60 = s"
  proof -
    have "s div 3600 = s div 60 div 60" using zdiv_zmult2_eq [of 60 s 60] by simp
    then show ?thesis using div_mult_mod_eq [of s 60] div_mult_mod_eq [of "s div 60" 60] by linarith
  qed
  then show "date_time (format_date t @ ''T'' @ format_clock t) = Some (local_seconds t div 86400, local_seconds t mod 86400)"
    unfolding f by (simp add: date_time_def sub_def len py pm pd ph pmi ps date(1) s_def [symmetric])
  show "length (format_date t @ ''T'' @ format_clock t) = 19" unfolding f by (simp add: len)
qed

lemma parse_format_time:
  assumes "civil (local_seconds t div 86400) = (y, m, d)" "0 \<le> y" "y \<le> 9999" "gt_off t mod 60 = 0" "\<bar>gt_off t\<bar> < 86400"
  shows "parse_RFC3339 (format_RFC3339Nano t) = Some t"
proof -
  let ?head = "format_date t @ ''T'' @ format_clock t" and ?n = "gt_ns t mod second_ns"
  define fr where "fr = TrimRightChar (pad_num 9 ?n) CHR ''0''"
  let ?tail = "(if fr = [] then [] else ''.'' @ fr) @ format_zone t"
  note head = date_time_back [OF assms(1-3)]
  have f: "format_RFC3339Nano t = ?head @ ?tail" by (simp add: format_RFC3339Nano_def Let_def fr_def)
  have "format_zone t = [] \<or> \<not> is_digit (hd (format_zone t)) \<and> hd (format_zone t) \<noteq> CHR ''.''"
    by (simp add: format_zone_def Let_def is_digit_def byte_val_def)
  then have frac: "fraction ?tail = (?n, format_zone t)" unfolding fr_def by (intro fraction_back) simp_all
  have "length (format_RFC3339Nano t) = 19 + length ?tail" unfolding f length_append [of ?head ?tail] head(2) ..
  moreover have "take 19 (format_RFC3339Nano t) = ?head" "drop 19 (format_RFC3339Nano t) = ?tail"
    unfolding f using head(2) by (metis append_eq_conv_conj)+
  moreover have "local_seconds t div 86400 * 86400 + local_seconds t mod 86400 = local_seconds t" by (rule div_mult_mod_eq)
  ultimately have "parse_RFC3339 (format_RFC3339Nano t) = Some \<lparr>gt_ns = (local_seconds t - gt_off t) * second_ns + ?n, gt_off = gt_off t\<rparr>"
    using head(1) frac zone_back [OF assms(4,5)] unfolding parse_RFC3339_def by (simp only: option.case prod.case Let_def if_False) simp
  moreover have "(local_seconds t - gt_off t) * second_ns + ?n = gt_ns t"
    by (simp add: local_seconds_def)
  ultimately show ?thesis by simp
qed

end
