(* ===== verification/Research_Evidence.thy ===== *)
theory Research_Evidence
  imports Go_Values Go_Json_Read
begin

text \<open>
  Evidence records and the canonical identity of their origin, \<^verbatim>\<open>research/evidence.go\<close>. Of package
  \<^verbatim>\<open>net/url\<close> the query functions are modelled; the parser and printer of whole URLs, which only the
  web channel uses, are fields of \<open>net_url\<close>.
\<close>

section \<open>Strings\<close>

text \<open>\<^verbatim>\<open>strings.Fields\<close> on ASCII blanks, \<^verbatim>\<open>strings.SplitN\<close> at a byte, and a split at every occurrence.\<close>

fun fields_loop :: "string \<Rightarrow> string \<Rightarrow> string list" where
  "fields_loop cur [] = (if cur = [] then [] else [rev cur])"
| "fields_loop cur (c # cs) =
     (if is_space c then (if cur = [] then fields_loop [] cs else rev cur # fields_loop [] cs) else fields_loop (c # cur) cs)"

definition Fields :: "string \<Rightarrow> string list" where
  "Fields s = fields_loop [] s"

fun SplitN :: "string \<Rightarrow> char \<Rightarrow> nat \<Rightarrow> string list" where
  "SplitN s c 0 = []"
| "SplitN s c (Suc 0) = [s]"
| "SplitN s c (Suc (Suc n)) = (case CutAt s c of None \<Rightarrow> [s] | Some (a, b) \<Rightarrow> a # SplitN b c (Suc n))"

fun split_at :: "char \<Rightarrow> string \<Rightarrow> string list" where
  "split_at c [] = [[]]"
| "split_at c (x # xs) =
     (if x = c then [] # split_at c xs
      else (case split_at c xs of [] \<Rightarrow> [[x]] | e # es \<Rightarrow> (x # e) # es))"

text \<open>The width in bytes of the first rune; a byte that starts no valid encoding is a rune of its own.\<close>

definition cont_byte :: "nat \<Rightarrow> nat \<Rightarrow> char \<Rightarrow> bool" where
  "cont_byte lo hi c \<longleftrightarrow> lo \<le> byte_val c \<and> byte_val c \<le> hi"

definition rune_width :: "string \<Rightarrow> nat" where
  "rune_width s =
     (case s of [] \<Rightarrow> 0
      | c # cs \<Rightarrow>
        (let b = byte_val c;
             lo = (if b = 0xE0 then 0xA0 else if b = 0xF0 then 0x90 else 0x80);
             hi = (if b = 0xED then 0x9F else if b = 0xF4 then 0x8F else 0xBF);
             tail = (\<lambda>n. length cs \<ge> n \<and> cont_byte lo hi (hd cs) \<and> list_all (cont_byte 0x80 0xBF) (take (n - 1) (tl cs)))
         in if 0xC2 \<le> b \<and> b \<le> 0xDF \<and> tail 1 then 2
            else if 0xE0 \<le> b \<and> b \<le> 0xEF \<and> tail 2 then 3
            else if 0xF0 \<le> b \<and> b \<le> 0xF4 \<and> tail 3 then 4
            else 1))"

function rune_count :: "string \<Rightarrow> nat" where
  "rune_count s = (if s = [] then 0 else Suc (rune_count (drop (max 1 (rune_width s)) s)))"
  by pat_completeness auto
termination
  by (relation "measure length") auto

declare rune_count.simps [simp del]

section \<open>Queries\<close>

definition unreserved :: "char \<Rightarrow> bool" where
  "unreserved c \<longleftrightarrow> is_lower_alpha c \<or> is_upper_alpha c \<or> is_digit c \<or> c \<in> {CHR ''-'', CHR ''_'', CHR ''.'', CHR ''~''}"

definition upper_hex :: "nat \<Rightarrow> char" where
  "upper_hex n = (if n < 10 then char_of (48 + n) else char_of (55 + n))"

definition QueryEscape :: "string \<Rightarrow> string" where
  "QueryEscape s =
     concat (map (\<lambda>c. if unreserved c then [c] else if c = CHR '' '' then ''+''
                      else [CHR ''%'', upper_hex (byte_val c div 16), upper_hex (byte_val c mod 16)]) s)"

fun QueryUnescape :: "string \<Rightarrow> string option" where
  "QueryUnescape [] = Some []"
| "QueryUnescape (c # cs) =
     (if c = CHR ''%'' then
        (case cs of
           a # b # rest \<Rightarrow>
             (case (hex_val a, hex_val b) of
                (Some x, Some y) \<Rightarrow> map_option (\<lambda>t. char_of (16 * x + y) # t) (QueryUnescape rest)
              | _ \<Rightarrow> None)
         | _ \<Rightarrow> None)
      else map_option (\<lambda>t. (if c = CHR ''+'' then CHR '' '' else c) # t) (QueryUnescape cs))"

text \<open>\<^verbatim>\<open>url.ParseQuery\<close>, \<open>None\<close> when it reports an error; the values of a key in their order.\<close>

fun parse_pairs :: "(string \<times> string list) list \<Rightarrow> string list \<Rightarrow> (string \<times> string list) list option" where
  "parse_pairs m [] = Some m"
| "parse_pairs m (seg # segs) =
     (if CHR '';'' \<in> set seg then None
      else if seg = [] then parse_pairs m segs
      else (let kv = (case CutAt seg CHR ''='' of None \<Rightarrow> (seg, []) | Some kv \<Rightarrow> kv) in
            case (QueryUnescape (fst kv), QueryUnescape (snd kv)) of
              (Some k, Some v) \<Rightarrow> parse_pairs (gm_put k ((case gm_get m k of None \<Rightarrow> [] | Some vs \<Rightarrow> vs) @ [v]) m) segs
            | _ \<Rightarrow> None))"

definition ParseQuery :: "string \<Rightarrow> (string \<times> string list) list option" where
  "ParseQuery query = parse_pairs [] (if query = [] then [] else split_at CHR ''&'' query)"

definition url_Encode :: "(string \<times> string list) list \<Rightarrow> string" where
  "url_Encode q =
     Join (concat (map (\<lambda>(k, vs). map (\<lambda>v. QueryEscape k @ ''='' @ QueryEscape v) vs) (sort_key fst q))) ''&''"

definition trackingQueryParams :: "string list" where
  "trackingQueryParams = [''fbclid'', ''gclid'', ''mc_cid'', ''mc_eid'']"

definition stripTrackingQueryParams :: "(string \<times> string list) list \<Rightarrow> (string \<times> string list) list" where
  "stripTrackingQueryParams q =
     filter (\<lambda>(k, _). let lk = ToLower k in \<not> (HasPrefix lk ''utm_'' \<or> lk \<in> set trackingQueryParams)) q"

section \<open>Records\<close>

record EvidenceRecord =
  ev_Channel :: string
  ev_Locator :: string
  ev_OriginID :: string
  ev_SourceClass :: string
  ev_RetrievedAt :: gotime
  ev_RawBody :: string
  ev_Quote :: string
  ev_ToolResultRef :: string
  ev_Revision :: int
  ev_Kind :: string
  ev_Repository :: string
  ev_HTMLURL :: string
  ev_UpdatedAt :: "gotime option"

definition ChannelGitHub :: string where "ChannelGitHub = ''github''"
definition ChannelWeb :: string where "ChannelWeb = ''web''"
definition ChannelSemSource :: string where "ChannelSemSource = ''semsource''"
definition SourceClassPrimary :: string where "SourceClassPrimary = ''primary''"

definition MinQuoteLength :: nat where "MinQuoteLength = 12"

datatype origin_error =
    LocatorEmpty | UnsupportedChannel string | GitHubScheme string | GitHubParts string | GitHubResource string
  | WebParse string | WebScheme string | WebHost string | SemSourceResource string | SemSourceScheme string

record GoURL =
  ur_Scheme :: string
  ur_Host :: string
  ur_Path :: string
  ur_RawPath :: string
  ur_RawQuery :: string
  ur_Fragment :: string
  ur_RawFragment :: string

record net_url =
  nu_Parse :: "string \<Rightarrow> GoURL option"
  nu_String :: "GoURL \<Rightarrow> string"

definition github_rest :: "string \<Rightarrow> string option" where
  "github_rest loc =
     (let lower = ToLower loc in
      if HasPrefix lower ''github://'' then Some (drop 9 loc)
      else if HasPrefix lower ''https://github.com/'' then Some (drop 19 loc)
      else if HasPrefix lower ''http://github.com/'' then Some (drop 18 loc)
      else None)"

definition before :: "char \<Rightarrow> string \<Rightarrow> string" where
  "before c s = takeWhile (\<lambda>x. x \<noteq> c) s"

definition after_first :: "char \<Rightarrow> string \<Rightarrow> string" where
  "after_first c s = (case CutAt s c of None \<Rightarrow> [] | Some (_, b) \<Rightarrow> b)"

definition normalizeGitHubOrigin :: "string \<Rightarrow> origin_error + string" where
  "normalizeGitHubOrigin loc =
     (case github_rest loc of
        None \<Rightarrow> Inl (GitHubScheme loc)
      | Some rest0 \<Rightarrow>
        (let rest1 = before CHR ''#'' rest0;
             rawQuery = after_first CHR ''?'' rest1;
             rest = TrimChar (before CHR ''?'' rest1) CHR ''/'' in
         case SplitN rest CHR ''/'' 3 of
           [p0, p1, p2] \<Rightarrow>
             if TrimSpace p0 = [] \<or> TrimSpace p1 = [] \<or> TrimSpace p2 = [] then Inl (GitHubParts loc)
             else (let owner = ToLower (TrimSpace p0); repo = ToLower (TrimSpace p1); resource = TrimChar p2 CHR ''/'' in
                   if resource = [] then Inl (GitHubResource loc)
                   else (let canonical = ''github://'' @ owner @ ''/'' @ repo @ ''/'' @ resource;
                             query = (if rawQuery = [] then [] else
                                        case ParseQuery rawQuery of None \<Rightarrow> [] | Some q \<Rightarrow> url_Encode (stripTrackingQueryParams q))
                         in Inr (if query = [] then canonical else canonical @ ''?'' @ query)))
         | _ \<Rightarrow> Inl (GitHubParts loc)))"

definition values_of :: "string \<Rightarrow> (string \<times> string list) list" where
  "values_of rawQuery =
     fold (\<lambda>seg m. if CHR '';'' \<in> set seg \<or> seg = [] then m
        else (let kv = (case CutAt seg CHR ''='' of None \<Rightarrow> (seg, []) | Some kv \<Rightarrow> kv) in
              case (QueryUnescape (fst kv), QueryUnescape (snd kv)) of
                (Some k, Some v) \<Rightarrow> gm_put k ((case gm_get m k of None \<Rightarrow> [] | Some vs \<Rightarrow> vs) @ [v]) m
              | _ \<Rightarrow> m))
       (split_at CHR ''&'' rawQuery) []"

definition normalizeWebOrigin :: "net_url \<Rightarrow> string \<Rightarrow> origin_error + string" where
  "normalizeWebOrigin lib loc =
     (case nu_Parse lib loc of
        None \<Rightarrow> Inl (WebParse loc)
      | Some u \<Rightarrow>
        (let scheme = ToLower (ur_Scheme u); host = ToLower (ur_Host u) in
         if scheme \<noteq> ''http'' \<and> scheme \<noteq> ''https'' then Inl (WebScheme loc)
         else if host = [] then Inl (WebHost loc)
         else Inr (nu_String lib (u\<lparr>ur_Scheme := scheme, ur_Host := host, ur_Fragment := [], ur_RawFragment := [],
                ur_RawQuery := (if ur_RawQuery u \<noteq> [] then url_Encode (stripTrackingQueryParams (values_of (ur_RawQuery u))) else ur_RawQuery u),
                ur_Path := (if length (ur_Path u) > 1 then TrimRightChar (ur_Path u) CHR ''/'' else ur_Path u),
                ur_RawPath := []\<rparr>))))"

definition normalizeSemSourceOrigin :: "string \<Rightarrow> origin_error + string" where
  "normalizeSemSourceOrigin loc =
     (if HasPrefix (ToLower loc) ''semsource://'' then
        (let body = TrimChar (drop 12 loc) CHR ''/'' in
         if body = [] then Inl (SemSourceResource loc) else Inr (''semsource://'' @ body))
      else Inl (SemSourceScheme loc))"

definition NormalizeOriginID :: "net_url \<Rightarrow> string \<Rightarrow> string \<Rightarrow> origin_error + string" where
  "NormalizeOriginID lib channel locator =
     (let loc = TrimSpace locator in
      if loc = [] then Inl LocatorEmpty
      else if channel = ChannelGitHub then normalizeGitHubOrigin loc
      else if channel = ChannelWeb then normalizeWebOrigin lib loc
      else if channel = ChannelSemSource then normalizeSemSourceOrigin loc
      else Inl (UnsupportedChannel channel))"

section \<open>Validation\<close>

datatype evidence_error =
    EvChannel string | EvLocatorRequired | EvLocatorInvalid origin_error | EvOriginRequired | EvOriginMismatch string string string
  | EvSourceClass string | EvRetrievedAt | EvBodyOrQuote | EvQuoteNotInBody string | EvRawBodyRequired
  | EvQuoteRequired | EvQuoteShort nat string | EvToolResultRef | EvRevision int | EvRevisionAhead int int

definition evidence_Validate :: "net_url \<Rightarrow> EvidenceRecord \<Rightarrow> evidence_error option" where
  "evidence_Validate lib r =
     (if ev_Channel r \<notin> {ChannelGitHub, ChannelWeb, ChannelSemSource} then Some (EvChannel (ev_Channel r))
      else if TrimSpace (ev_Locator r) = [] then Some EvLocatorRequired
      else case NormalizeOriginID lib (ev_Channel r) (ev_Locator r) of
        Inl e \<Rightarrow> Some (EvLocatorInvalid e)
      | Inr expectedOrigin \<Rightarrow>
        if TrimSpace (ev_OriginID r) = [] then Some EvOriginRequired
        else if ev_OriginID r \<noteq> expectedOrigin then Some (EvOriginMismatch (ev_OriginID r) expectedOrigin (ev_Locator r))
        else if ev_SourceClass r \<notin> {SourceClassPrimary, ''official'', ''secondary'', ''community''} then Some (EvSourceClass (ev_SourceClass r))
        else if time_IsZero (ev_RetrievedAt r) then Some EvRetrievedAt
        else if TrimSpace (ev_RawBody r) = [] \<and> TrimSpace (ev_Quote r) = [] then Some EvBodyOrQuote
        else if ev_RawBody r \<noteq> [] \<and> ev_Quote r \<noteq> [] \<and> \<not> Contains (ev_RawBody r) (ev_Quote r) then Some (EvQuoteNotInBody (ev_Locator r))
        else None)"

definition ValidateToolResult :: "net_url \<Rightarrow> EvidenceRecord \<Rightarrow> evidence_error option" where
  "ValidateToolResult lib r =
     (case evidence_Validate lib r of
        Some e \<Rightarrow> Some e
      | None \<Rightarrow> if TrimSpace (ev_RawBody r) = [] then Some EvRawBodyRequired else None)"

definition normalizedQuote :: "string \<Rightarrow> string" where
  "normalizedQuote q = Join (Fields q) '' ''"

definition ValidateArtifactCitation :: "net_url \<Rightarrow> int \<Rightarrow> EvidenceRecord \<Rightarrow> evidence_error option" where
  "ValidateArtifactCitation lib maxRevision r =
     (case evidence_Validate lib r of
        Some e \<Rightarrow> Some e
      | None \<Rightarrow>
        (let normQuote = normalizedQuote (ev_Quote r) in
         if normQuote = [] then Some EvQuoteRequired
         else if rune_count normQuote < MinQuoteLength then Some (EvQuoteShort (rune_count normQuote) (ev_Quote r))
         else if TrimSpace (ev_ToolResultRef r) = [] then Some EvToolResultRef
         else if ev_Revision r < 1 then Some (EvRevision (ev_Revision r))
         else if maxRevision \<ge> 1 \<and> ev_Revision r > maxRevision then Some (EvRevisionAhead (ev_Revision r) maxRevision)
         else None))"

end
