(* ===== verification/Github_Client.thy ===== *)
theory Github_Client
  imports Portfolio Research_Evidence Go_Time
begin

text \<open>
  The GitHub client of \<^verbatim>\<open>github_read\<close>, \<^verbatim>\<open>tools/githubread/client.go\<close>: the requests it builds, the decoding of the
  replies and the classification of errors. Sending a request is an argument, \<open>http\<close>: it yields a
  status and a body, or an error of the transport.
\<close>

section \<open>Data\<close>

record ListOpts =
  lo_State :: string
  lo_Limit :: int
  lo_Since :: gotime

record Issue =
  is_Number :: int
  is_Title :: string
  is_Body :: string
  is_State :: string
  is_Labels :: "string list"
  is_Assignees :: "string list"
  is_Milestone :: string
  is_Author :: string
  is_HTMLURL :: string
  is_CreatedAt :: gotime
  is_UpdatedAt :: gotime

record PullRequest =
  pl_Number :: int
  pl_Title :: string
  pl_Body :: string
  pl_State :: string
  pl_Draft :: bool
  pl_MergedAt :: "gotime option"
  pl_Author :: string
  pl_HeadRef :: string
  pl_HeadSHA :: string
  pl_BaseRef :: string
  pl_Labels :: "string list"
  pl_HTMLURL :: string
  pl_CreatedAt :: gotime
  pl_UpdatedAt :: gotime

record Release =
  rl_ID :: int
  rl_TagName :: string
  rl_Name :: string
  rl_Body :: string
  rl_Draft :: bool
  rl_Prerelease :: bool
  rl_Author :: string
  rl_HTMLURL :: string
  rl_CreatedAt :: gotime
  rl_PublishedAt :: gotime

record Commit =
  cm_SHA :: string
  cm_Message :: string
  cm_Author :: string
  cm_HTMLURL :: string
  cm_CommittedAt :: gotime

record WorkflowRun =
  wr_ID :: int
  wr_Name :: string
  wr_HeadBranch :: string
  wr_HeadSHA :: string
  wr_Event :: string
  wr_Status :: string
  wr_Conclusion :: string
  wr_HTMLURL :: string
  wr_CreatedAt :: gotime
  wr_UpdatedAt :: gotime

text \<open>An error of the API, one of the transport with whether it was a timeout, or a body that does not decode.\<close>

datatype client_error = APIError int string | TransportError string bool | DecodeResponse string | OriginError origin_error | UnsupportedKind string

datatype error_kind = KindPermission | KindNotFound | KindInvalidArgs | KindNetwork | KindTimeout | KindInternal

definition ClassifyError :: "client_error \<Rightarrow> error_kind" where
  "ClassifyError err =
     (case err of
        APIError status _ \<Rightarrow>
          if status = 401 \<or> status = 403 then KindPermission
          else if status = 404 then KindNotFound
          else if status = 422 \<or> status = 400 then KindInvalidArgs
          else KindNetwork
      | TransportError _ timeout \<Rightarrow> if timeout then KindTimeout else KindNetwork
      | _ \<Rightarrow> KindNetwork)"

text \<open>The surface the tool uses; the world the calls act on is threaded.\<close>

record 'w Client =
  cl_ListIssues :: "string \<Rightarrow> string \<Rightarrow> ListOpts \<Rightarrow> 'w \<Rightarrow> (client_error + Issue list) \<times> 'w"
  cl_ListPullRequests :: "string \<Rightarrow> string \<Rightarrow> ListOpts \<Rightarrow> 'w \<Rightarrow> (client_error + PullRequest list) \<times> 'w"
  cl_ListReleases :: "string \<Rightarrow> string \<Rightarrow> ListOpts \<Rightarrow> 'w \<Rightarrow> (client_error + Release list) \<times> 'w"
  cl_ListCommits :: "string \<Rightarrow> string \<Rightarrow> ListOpts \<Rightarrow> 'w \<Rightarrow> (client_error + Commit list) \<times> 'w"
  cl_ListWorkflowRuns :: "string \<Rightarrow> string \<Rightarrow> ListOpts \<Rightarrow> 'w \<Rightarrow> (client_error + WorkflowRun list) \<times> 'w"

section \<open>Requests\<close>

record http_request =
  rq_URL :: string
  rq_Headers :: "(string \<times> string) list"

datatype http_reply = NoReply bool | Reply int string

record 'w HTTPClient =
  hc_token :: string
  hc_apiBase :: string
  hc_http :: "http_request \<Rightarrow> 'w \<Rightarrow> http_reply \<times> 'w"

definition NewHTTPClient :: "string \<Rightarrow> string \<Rightarrow> (http_request \<Rightarrow> 'w \<Rightarrow> http_reply \<times> 'w) \<Rightarrow> 'w HTTPClient" where
  "NewHTTPClient token apiBase http =
     (let base = TrimRightChar (TrimSpace apiBase) CHR ''/'' in
      \<lparr>hc_token = TrimSpace token, hc_apiBase = (if base = [] then ''https://api.github.com'' else base), hc_http = http\<rparr>)"

text \<open>\<^verbatim>\<open>http.StatusText\<close> of the client and server errors and the redirections.\<close>

definition status_texts :: "(int \<times> string) list" where
  "status_texts =
     [(100, ''Continue''), (101, ''Switching Protocols''), (102, ''Processing''), (103, ''Early Hints''),
      (300, ''Multiple Choices''), (301, ''Moved Permanently''), (302, ''Found''), (303, ''See Other''), (304, ''Not Modified''),
      (305, ''Use Proxy''), (307, ''Temporary Redirect''), (308, ''Permanent Redirect''),
      (400, ''Bad Request''), (401, ''Unauthorized''), (402, ''Payment Required''), (403, ''Forbidden''), (404, ''Not Found''),
      (405, ''Method Not Allowed''), (406, ''Not Acceptable''), (407, ''Proxy Authentication Required''), (408, ''Request Timeout''),
      (409, ''Conflict''), (410, ''Gone''), (411, ''Length Required''), (412, ''Precondition Failed''), (413, ''Request Entity Too Large''),
      (414, ''Request URI Too Long''), (415, ''Unsupported Media Type''), (416, ''Requested Range Not Satisfiable''),
      (417, ''Expectation Failed''), (418, ''I'' @ [CHR 0x27] @ ''m a teapot''), (421, ''Misdirected Request''), (422, ''Unprocessable Entity''),
      (423, ''Locked''), (424, ''Failed Dependency''), (425, ''Too Early''), (426, ''Upgrade Required''), (428, ''Precondition Required''),
      (429, ''Too Many Requests''), (431, ''Request Header Fields Too Large''), (451, ''Unavailable For Legal Reasons''),
      (500, ''Internal Server Error''), (501, ''Not Implemented''), (502, ''Bad Gateway''), (503, ''Service Unavailable''),
      (504, ''Gateway Timeout''), (505, ''HTTP Version Not Supported''), (506, ''Variant Also Negotiates''), (507, ''Insufficient Storage''),
      (508, ''Loop Detected''), (510, ''Not Extended''), (511, ''Network Authentication Required'')]"

definition PathEscape :: "string \<Rightarrow> string" where
  "PathEscape s =
     concat (map (\<lambda>c. if unreserved c \<or> c \<in> {CHR ''$'', CHR ''&'', CHR ''+'', CHR '':'', CHR ''='', CHR ''@''} then [c]
                      else [CHR ''%'', upper_hex (byte_val c div 16), upper_hex (byte_val c mod 16)]) s)"

definition api_message :: "string \<Rightarrow> int \<Rightarrow> string" where
  "api_message body status =
     (let msg = (case Option.bind (Option.bind (parse_json body) fields_of) (string_field ''message'') of
                   Some m \<Rightarrow> if m \<noteq> [] then m else TrimSpace body
                 | None \<Rightarrow> TrimSpace body)
      in if msg = [] then (case gm_get status_texts status of Some t \<Rightarrow> t | None \<Rightarrow> []) else msg)"

definition getJSON :: "'w HTTPClient \<Rightarrow> string \<Rightarrow> (string \<times> string) list \<Rightarrow> 'w \<Rightarrow> (client_error + jval) \<times> 'w" where
  "getJSON c path query w =
     (let endpoint = hc_apiBase c @ path @ (if query = [] then [] else ''?'' @ url_Encode (map (\<lambda>(k, v). (k, [v])) query));
          headers = [(''Accept'', ''application/vnd.github+json''), (''X-GitHub-Api-Version'', ''2022-11-28''), (''User-Agent'', ''semteams-github-read/1.0'')] @
            (if hc_token c \<noteq> [] then [(''Authorization'', ''Bearer '' @ hc_token c)] else [])
      in case hc_http c \<lparr>rq_URL = endpoint, rq_Headers = headers\<rparr> w of
           (NoReply timeout, w') \<Rightarrow> (Inl (TransportError path timeout), w')
         | (Reply status body0, w') \<Rightarrow>
             (let body = take (2 ^ 20) body0 in
              if status < 200 \<or> 300 \<le> status then (Inl (APIError status (api_message body status)), w')
              else (case parse_json body of None \<Rightarrow> (Inl (DecodeResponse path), w') | Some v \<Rightarrow> (Inr v, w'))))"

definition normalizeLimit :: "int \<Rightarrow> int" where
  "normalizeLimit limit = (if limit \<le> 0 then 20 else if limit > 100 then 100 else limit)"

section \<open>Decoding\<close>

text \<open>A leaf under nested structs, and under a pointer to a struct, where null resets.\<close>

fun at_path :: "('a \<Rightarrow> jval \<Rightarrow> 'a option) \<Rightarrow> string list \<Rightarrow> 'a \<Rightarrow> (string \<times> jval) list \<Rightarrow> 'a option" where
  "at_path dec [] z kvs = Some z"
| "at_path dec [n] z kvs = field_in dec n z kvs"
| "at_path dec (n # n' # ns) z kvs =
     field_in (\<lambda>old v. case fields_of v of None \<Rightarrow> None | Some kvs' \<Rightarrow> at_path dec (n' # ns) old kvs') n z kvs"

definition dec_text :: "string \<Rightarrow> jval \<Rightarrow> string option" where
  "dec_text old v = (case v of JNull \<Rightarrow> Some old | _ \<Rightarrow> string_of v)"

definition dec_time :: "gotime \<Rightarrow> jval \<Rightarrow> gotime option" where
  "dec_time old v = (case v of JNull \<Rightarrow> Some old | JString s \<Rightarrow> parse_RFC3339 s | _ \<Rightarrow> None)"

definition text_at :: "string list \<Rightarrow> (string \<times> jval) list \<Rightarrow> string option" where
  "text_at path = at_path dec_text path []"

definition time_at :: "string list \<Rightarrow> (string \<times> jval) list \<Rightarrow> gotime option" where
  "time_at path = at_path dec_time path (mk_utc 0)"

definition text_under :: "string \<Rightarrow> string \<Rightarrow> (string \<times> jval) list \<Rightarrow> string option" where
  "text_under n leaf = field_in (\<lambda>old v. case v of JNull \<Rightarrow> Some [] | _ \<Rightarrow> Option.bind (fields_of v) (field_in dec_text leaf old)) n []"

definition names_in :: "string \<Rightarrow> string \<Rightarrow> (string \<times> jval) list \<Rightarrow> string list option" where
  "names_in n leaf kvs = map_option (filter (\<lambda>s. s \<noteq> [])) (slice_field (\<lambda>v. Option.bind (fields_of v) (string_field leaf)) n kvs)"

text \<open>An entry of the issues endpoint, with whether it is a pull request.\<close>

definition dec_issue :: "jval \<Rightarrow> (Issue \<times> bool) option" where
  "dec_issue v = do {
     kvs \<leftarrow> fields_of v;
     number \<leftarrow> int_field ''number'' kvs;
     title \<leftarrow> string_field ''title'' kvs;
     body \<leftarrow> string_field ''body'' kvs;
     state \<leftarrow> string_field ''state'' kvs;
     url \<leftarrow> string_field ''html_url'' kvs;
     author \<leftarrow> text_at [''user'', ''login''] kvs;
     labels \<leftarrow> names_in ''labels'' ''name'' kvs;
     assignees \<leftarrow> names_in ''assignees'' ''login'' kvs;
     milestone \<leftarrow> text_under ''milestone'' ''title'' kvs;
     pull \<leftarrow> pointer_field Some ''pull_request'' kvs;
     created \<leftarrow> time_at [''created_at''] kvs;
     updated \<leftarrow> time_at [''updated_at''] kvs;
     Some (\<lparr>is_Number = number, is_Title = title, is_Body = body, is_State = state, is_Labels = labels, is_Assignees = assignees,
       is_Milestone = milestone, is_Author = author, is_HTMLURL = url, is_CreatedAt = time_UTC created, is_UpdatedAt = time_UTC updated\<rparr>, pull \<noteq> None) }"

definition dec_pull :: "jval \<Rightarrow> PullRequest option" where
  "dec_pull v = do {
     kvs \<leftarrow> fields_of v;
     number \<leftarrow> int_field ''number'' kvs;
     title \<leftarrow> string_field ''title'' kvs;
     body \<leftarrow> string_field ''body'' kvs;
     state \<leftarrow> string_field ''state'' kvs;
     draft \<leftarrow> bool_field ''draft'' kvs;
     merged \<leftarrow> pointer_field (dec_time (mk_utc 0)) ''merged_at'' kvs;
     url \<leftarrow> string_field ''html_url'' kvs;
     author \<leftarrow> text_at [''user'', ''login''] kvs;
     headRef \<leftarrow> text_at [''head'', ''ref''] kvs;
     headSHA \<leftarrow> text_at [''head'', ''sha''] kvs;
     baseRef \<leftarrow> text_at [''base'', ''ref''] kvs;
     labels \<leftarrow> names_in ''labels'' ''name'' kvs;
     created \<leftarrow> time_at [''created_at''] kvs;
     updated \<leftarrow> time_at [''updated_at''] kvs;
     Some \<lparr>pl_Number = number, pl_Title = title, pl_Body = body, pl_State = state, pl_Draft = draft,
       pl_MergedAt = (case merged of Some t \<Rightarrow> if time_IsZero t then None else Some (time_UTC t) | None \<Rightarrow> None),
       pl_Author = author, pl_HeadRef = headRef, pl_HeadSHA = headSHA, pl_BaseRef = baseRef, pl_Labels = labels, pl_HTMLURL = url,
       pl_CreatedAt = time_UTC created, pl_UpdatedAt = time_UTC updated\<rparr> }"

definition dec_release :: "jval \<Rightarrow> Release option" where
  "dec_release v = do {
     kvs \<leftarrow> fields_of v;
     i \<leftarrow> int_field ''id'' kvs;
     tag \<leftarrow> string_field ''tag_name'' kvs;
     name \<leftarrow> string_field ''name'' kvs;
     body \<leftarrow> string_field ''body'' kvs;
     draft \<leftarrow> bool_field ''draft'' kvs;
     pre \<leftarrow> bool_field ''prerelease'' kvs;
     url \<leftarrow> string_field ''html_url'' kvs;
     author \<leftarrow> text_at [''author'', ''login''] kvs;
     created \<leftarrow> time_at [''created_at''] kvs;
     published \<leftarrow> time_at [''published_at''] kvs;
     Some \<lparr>rl_ID = i, rl_TagName = tag, rl_Name = name, rl_Body = body, rl_Draft = draft, rl_Prerelease = pre, rl_Author = author,
       rl_HTMLURL = url, rl_CreatedAt = time_UTC created, rl_PublishedAt = time_UTC published\<rparr> }"

definition dec_commit :: "jval \<Rightarrow> Commit option" where
  "dec_commit v = do {
     kvs \<leftarrow> fields_of v;
     sha \<leftarrow> string_field ''sha'' kvs;
     url \<leftarrow> string_field ''html_url'' kvs;
     msg \<leftarrow> text_at [''commit'', ''message''] kvs;
     name \<leftarrow> text_at [''commit'', ''author'', ''name''] kvs;
     authored \<leftarrow> time_at [''commit'', ''author'', ''date''] kvs;
     committed \<leftarrow> time_at [''commit'', ''committer'', ''date''] kvs;
     login \<leftarrow> text_under ''author'' ''login'' kvs;
     Some \<lparr>cm_SHA = sha, cm_Message = msg, cm_Author = (if login \<noteq> [] then login else name), cm_HTMLURL = url,
       cm_CommittedAt = time_UTC (if time_IsZero committed then authored else committed)\<rparr> }"

definition dec_run :: "jval \<Rightarrow> WorkflowRun option" where
  "dec_run v = do {
     kvs \<leftarrow> fields_of v;
     i \<leftarrow> int_field ''id'' kvs;
     name \<leftarrow> string_field ''name'' kvs;
     branch \<leftarrow> string_field ''head_branch'' kvs;
     sha \<leftarrow> string_field ''head_sha'' kvs;
     event \<leftarrow> string_field ''event'' kvs;
     status \<leftarrow> string_field ''status'' kvs;
     conclusion \<leftarrow> string_field ''conclusion'' kvs;
     url \<leftarrow> string_field ''html_url'' kvs;
     created \<leftarrow> time_at [''created_at''] kvs;
     updated \<leftarrow> time_at [''updated_at''] kvs;
     Some \<lparr>wr_ID = i, wr_Name = name, wr_HeadBranch = branch, wr_HeadSHA = sha, wr_Event = event, wr_Status = status,
       wr_Conclusion = conclusion, wr_HTMLURL = url, wr_CreatedAt = time_UTC created, wr_UpdatedAt = time_UTC updated\<rparr> }"

section \<open>The calls\<close>

definition repo_path :: "string \<Rightarrow> string \<Rightarrow> string \<Rightarrow> string" where
  "repo_path owner repo resource = ''/repos/'' @ PathEscape owner @ ''/'' @ PathEscape repo @ resource"

definition fetched :: "string \<Rightarrow> (jval \<Rightarrow> 'a option) \<Rightarrow> (client_error + jval) \<times> 'w \<Rightarrow> (client_error + 'a) \<times> 'w" where
  "fetched path dec r =
     (case r of
        (Inl e, w) \<Rightarrow> (Inl e, w)
      | (Inr v, w) \<Rightarrow> (case dec v of None \<Rightarrow> (Inl (DecodeResponse path), w) | Some x \<Rightarrow> (Inr x, w)))"

text \<open>Pull requests on the issues endpoint are left out, and the list ends at the limit.\<close>

fun issues_loop :: "int \<Rightarrow> Issue list \<Rightarrow> (Issue \<times> bool) list \<Rightarrow> Issue list" where
  "issues_loop limit out [] = out"
| "issues_loop limit out ((it, pull) # rest) =
     (if pull then issues_loop limit out rest
      else if int (length (out @ [it])) \<ge> limit then out @ [it]
      else issues_loop limit (out @ [it]) rest)"

definition state_query :: "ListOpts \<Rightarrow> int \<Rightarrow> (string \<times> string) list" where
  "state_query opts perPage =
     [(''state'', if lo_State opts = [] then ''all'' else lo_State opts), (''sort'', ''updated''), (''direction'', ''desc''), (''per_page'', Itoa perPage)]"

definition since_query :: "ListOpts \<Rightarrow> (string \<times> string) list" where
  "since_query opts = (if time_IsZero (lo_Since opts) then [] else [(''since'', format_RFC3339 (time_UTC (lo_Since opts)))])"

definition ListIssues :: "'w HTTPClient \<Rightarrow> string \<Rightarrow> string \<Rightarrow> ListOpts \<Rightarrow> 'w \<Rightarrow> (client_error + Issue list) \<times> 'w" where
  "ListIssues c owner repo opts w =
     (let limit = normalizeLimit (lo_Limit opts); perPage = (if limit * 2 > 100 then 100 else limit * 2); path = repo_path owner repo ''/issues'' in
      fetched path (\<lambda>v. map_option (issues_loop limit []) (slice_of dec_issue v)) (getJSON c path (state_query opts perPage @ since_query opts) w))"

definition ListPullRequests :: "'w HTTPClient \<Rightarrow> string \<Rightarrow> string \<Rightarrow> ListOpts \<Rightarrow> 'w \<Rightarrow> (client_error + PullRequest list) \<times> 'w" where
  "ListPullRequests c owner repo opts w =
     (let path = repo_path owner repo ''/pulls'' in
      fetched path (slice_of dec_pull) (getJSON c path (state_query opts (normalizeLimit (lo_Limit opts))) w))"

definition page_query :: "ListOpts \<Rightarrow> (string \<times> string) list" where
  "page_query opts = [(''per_page'', Itoa (normalizeLimit (lo_Limit opts)))]"

definition ListReleases :: "'w HTTPClient \<Rightarrow> string \<Rightarrow> string \<Rightarrow> ListOpts \<Rightarrow> 'w \<Rightarrow> (client_error + Release list) \<times> 'w" where
  "ListReleases c owner repo opts w =
     (let path = repo_path owner repo ''/releases'' in fetched path (slice_of dec_release) (getJSON c path (page_query opts) w))"

definition ListCommits :: "'w HTTPClient \<Rightarrow> string \<Rightarrow> string \<Rightarrow> ListOpts \<Rightarrow> 'w \<Rightarrow> (client_error + Commit list) \<times> 'w" where
  "ListCommits c owner repo opts w =
     (let path = repo_path owner repo ''/commits'' in
      fetched path (slice_of dec_commit) (getJSON c path (page_query opts @ since_query opts) w))"

definition ListWorkflowRuns :: "'w HTTPClient \<Rightarrow> string \<Rightarrow> string \<Rightarrow> ListOpts \<Rightarrow> 'w \<Rightarrow> (client_error + WorkflowRun list) \<times> 'w" where
  "ListWorkflowRuns c owner repo opts w =
     (let path = repo_path owner repo ''/actions/runs'' in
      fetched path (\<lambda>v. Option.bind (fields_of v) (slice_field dec_run ''workflow_runs'')) (getJSON c path (page_query opts) w))"

definition http_client :: "'w HTTPClient \<Rightarrow> 'w Client" where
  "http_client c = \<lparr>cl_ListIssues = ListIssues c, cl_ListPullRequests = ListPullRequests c, cl_ListReleases = ListReleases c,
     cl_ListCommits = ListCommits c, cl_ListWorkflowRuns = ListWorkflowRuns c\<rparr>"

section \<open>What a listing delivers\<close>

lemma issues_loop_spec:
  "int (length out) < limit \<Longrightarrow> issues_loop limit out items = out @ take (nat limit - length out) (map fst (filter (\<lambda>x. \<not> snd x) items))"
proof (induction limit out items rule: issues_loop.induct)
  case (2 limit out it pull rest)
  show ?case
  proof (cases "pull \<or> int (length (out @ [it])) \<ge> limit")
    case True
    moreover have "nat limit - length out = 1" if "\<not> pull" "int (length (out @ [it])) \<ge> limit" using that 2(3) by simp
    ultimately show ?thesis using 2 by auto
  next
    case False
    then have "nat limit - length out = Suc (nat limit - length (out @ [it]))" unfolding length_append list.size by linarith
    then show ?thesis using 2(2,3) False by simp
  qed
qed simp

end
