(* ===== verification/Github_Cursor.thy ===== *)
theory Github_Cursor
  imports Go_Values Sha256
begin

text \<open>
  The cursors of the tool \<^verbatim>\<open>github_read\<close>, \<^verbatim>\<open>tools/githubread/cursor.go\<close>: per repository and kind of
  activity, what was delivered so far. A run stages the cursors it reached; they replace the committed
  ones when the artifact of the run is persisted. Every method of the store holds its lock, so the
  operations are the steps of a machine. Maps are values here, so \<^verbatim>\<open>clone\<close>, which keeps a map from being
  shared, is the identity.
\<close>

section \<open>Entries\<close>

record CursorEntry =
  ce_Watermark :: gotime
  ce_Seen :: "(string \<times> string) list"
  ce_BaselineEstablished :: bool
  ce_LastCheckedAt :: gotime
  ce_LastPersistedAt :: gotime

definition no_time :: gotime where
  "no_time = mk_utc 0"

definition empty_cursor :: CursorEntry where
  "empty_cursor = \<lparr>ce_Watermark = no_time, ce_Seen = [], ce_BaselineEstablished = False, ce_LastCheckedAt = no_time, ce_LastPersistedAt = no_time\<rparr>"

definition isBaselined :: "CursorEntry \<Rightarrow> bool" where
  "isBaselined c \<longleftrightarrow> ce_BaselineEstablished c \<or> ce_Seen c \<noteq> [] \<or> \<not> time_IsZero (ce_Watermark c)"

definition normalizeRepoKey :: "string \<Rightarrow> string" where
  "normalizeRepoKey repoKey = ToLower (TrimSpace repoKey)"

definition VersionDigest :: "gotime \<Rightarrow> string \<Rightarrow> string" where
  "VersionDigest activityAt rawBody = format_RFC3339Nano (time_UTC activityAt) @ ''#'' @ take 16 (sha256_hex rawBody)"

record stagedCursor =
  sg_baseline :: CursorEntry
  sg_hasBaseline :: bool
  sg_next :: CursorEntry
  sg_hasNewRecords :: bool

definition applyCursorUpdate :: "CursorEntry \<Rightarrow> bool \<Rightarrow> CursorEntry \<Rightarrow> bool \<Rightarrow> gotime \<Rightarrow> CursorEntry" where
  "applyCursorUpdate prev hadPrev next hasNewRecords persistedAt =
     (let checkedAt0 = time_UTC (ce_LastCheckedAt next);
          checkedAt = (if time_IsZero checkedAt0 then time_UTC persistedAt else checkedAt0);
          persisted = (if time_IsZero persistedAt then checkedAt else time_UTC persistedAt)
      in if \<not> hadPrev \<or> \<not> isBaselined prev \<or> hasNewRecords then
           next\<lparr>ce_BaselineEstablished := True, ce_LastCheckedAt := checkedAt, ce_LastPersistedAt := persisted\<rparr>
         else prev\<lparr>ce_BaselineEstablished := True, ce_LastCheckedAt := checkedAt\<rparr>)"

section \<open>Nested maps\<close>

definition inner :: "('a \<times> ('b \<times> 'v) list) list \<Rightarrow> 'a \<Rightarrow> ('b \<times> 'v) list" where
  "inner m a = (case gm_get m a of None \<Rightarrow> [] | Some kvs \<Rightarrow> kvs)"

definition get2 :: "('a \<times> ('b \<times> 'v) list) list \<Rightarrow> 'a \<Rightarrow> 'b \<Rightarrow> 'v option" where
  "get2 m a b = gm_get (inner m a) b"

definition put2 :: "'a \<Rightarrow> 'b \<Rightarrow> 'v \<Rightarrow> ('a \<times> ('b \<times> 'v) list) list \<Rightarrow> ('a \<times> ('b \<times> 'v) list) list" where
  "put2 a b v m = gm_put a (gm_put b v (inner m a)) m"

lemma inner_put [go_map]: "inner (gm_put a kvs m) a' = (if a' = a then kvs else inner m a')"
  by (simp add: inner_def go_map)

lemma get2_put2 [go_map]: "get2 (put2 a b v m) a' b' = (if a' = a \<and> b' = b then Some v else get2 m a' b')"
  by (simp add: get2_def put2_def go_map)

section \<open>The store\<close>

type_synonym cursors = "(string \<times> (string \<times> CursorEntry) list) list"
type_synonym staged_run = "(string \<times> (string \<times> stagedCursor) list) list"

record MemoryCursorStore =
  mc_entries :: cursors
  mc_staged :: "(string \<times> staged_run) list"
  mc_loopToRun :: "(string \<times> string) list"

definition NewMemoryCursorStore :: MemoryCursorStore where
  "NewMemoryCursorStore = \<lparr>mc_entries = [], mc_staged = [], mc_loopToRun = []\<rparr>"

text \<open>A lookup is \<open>None\<close> where the code returns the zero entry and false.\<close>

definition getLocked :: "MemoryCursorStore \<Rightarrow> string \<Rightarrow> string \<Rightarrow> CursorEntry option" where
  "getLocked s repoKey kind = get2 (mc_entries s) (normalizeRepoKey repoKey) kind"

definition putLocked :: "string \<Rightarrow> string \<Rightarrow> CursorEntry \<Rightarrow> MemoryCursorStore \<Rightarrow> MemoryCursorStore" where
  "putLocked repoKey kind entry s = s\<lparr>mc_entries := put2 (normalizeRepoKey repoKey) kind entry (mc_entries s)\<rparr>"

definition get_staged :: "MemoryCursorStore \<Rightarrow> string \<Rightarrow> string \<Rightarrow> string \<Rightarrow> stagedCursor option" where
  "get_staged s runID repoKey kind = get2 (inner (mc_staged s) runID) repoKey kind"

definition GetForRun :: "MemoryCursorStore \<Rightarrow> string \<Rightarrow> string \<Rightarrow> string \<Rightarrow> CursorEntry option" where
  "GetForRun s runID repoKey0 kind =
     (let repoKey = normalizeRepoKey repoKey0 in
      case (if runID \<noteq> [] then get_staged s runID repoKey kind else None) of
        Some st \<Rightarrow> (if sg_hasBaseline st then Some (sg_baseline st) else None)
      | None \<Rightarrow> getLocked s repoKey kind)"

definition entry_or_empty :: "CursorEntry option \<Rightarrow> CursorEntry" where
  "entry_or_empty e = (case e of None \<Rightarrow> empty_cursor | Some c \<Rightarrow> c)"

text \<open>The candidate is staged; the baseline of the first staging in the run is kept.\<close>

definition put_staged :: "string \<Rightarrow> string \<Rightarrow> string \<Rightarrow> string \<Rightarrow> CursorEntry option \<Rightarrow> CursorEntry \<Rightarrow> bool \<Rightarrow> MemoryCursorStore \<Rightarrow> MemoryCursorStore" where
  "put_staged runID loopID repoKey kind found next hasNewRecords s =
     (let s1 = (if loopID \<noteq> [] then s\<lparr>mc_loopToRun := gm_put loopID runID (mc_loopToRun s)\<rparr> else s);
          byRepo = inner (mc_staged s1) runID;
          st = (case get2 byRepo repoKey kind of
                  Some existing \<Rightarrow> existing\<lparr>sg_next := next, sg_hasNewRecords := hasNewRecords\<rparr>
                | None \<Rightarrow> \<lparr>sg_baseline = entry_or_empty found, sg_hasBaseline = found \<noteq> None, sg_next = next, sg_hasNewRecords = hasNewRecords\<rparr>)
      in s1\<lparr>mc_staged := gm_put runID (put2 repoKey kind st byRepo) (mc_staged s1)\<rparr>)"

text \<open>The flag tells whether a committed entry changed.\<close>

definition stageForRunLocked :: "string \<Rightarrow> string \<Rightarrow> string \<Rightarrow> string \<Rightarrow> CursorEntry \<Rightarrow> bool \<Rightarrow> MemoryCursorStore \<Rightarrow> MemoryCursorStore \<times> bool" where
  "stageForRunLocked runID loopID repoKey0 kind next hasNewRecords s =
     (let repoKey = normalizeRepoKey repoKey0; found = getLocked s repoKey kind;
          prev = entry_or_empty found; hadPrev = found \<noteq> None
      in if runID = [] then
           (putLocked repoKey kind (applyCursorUpdate prev hadPrev next hasNewRecords (ce_LastCheckedAt next)) s, True)
         else
           (let s2 = put_staged runID loopID repoKey kind found next hasNewRecords s in
            if hadPrev \<and> isBaselined prev \<and> \<not> time_IsZero (ce_LastCheckedAt next) then
              (putLocked repoKey kind (prev\<lparr>ce_BaselineEstablished := True, ce_LastCheckedAt := time_UTC (ce_LastCheckedAt next)\<rparr>) s2, True)
            else (s2, False)))"

definition StageForRun :: "string \<Rightarrow> string \<Rightarrow> string \<Rightarrow> string \<Rightarrow> CursorEntry \<Rightarrow> bool \<Rightarrow> MemoryCursorStore \<Rightarrow> MemoryCursorStore" where
  "StageForRun runID loopID repoKey kind next hasNewRecords s = fst (stageForRunLocked runID loopID repoKey kind next hasNewRecords s)"

definition commit_target :: "MemoryCursorStore \<Rightarrow> string \<Rightarrow> string" where
  "commit_target s runOrLoopID =
     (case gm_get (mc_loopToRun s) runOrLoopID of
        Some mapped \<Rightarrow> if mapped \<noteq> [] then mapped else runOrLoopID
      | None \<Rightarrow> runOrLoopID)"

fun commit_kinds :: "gotime \<Rightarrow> string \<Rightarrow> (string \<times> stagedCursor) list \<Rightarrow> MemoryCursorStore \<Rightarrow> MemoryCursorStore" where
  "commit_kinds stamp repoKey [] s = s"
| "commit_kinds stamp repoKey ((kind, st) # rest) s =
     (let found = getLocked s repoKey kind in
      commit_kinds stamp repoKey rest
        (putLocked repoKey kind (applyCursorUpdate (entry_or_empty found) (found \<noteq> None) (sg_next st) (sg_hasNewRecords st) stamp) s))"

fun commit_repos :: "gotime \<Rightarrow> staged_run \<Rightarrow> MemoryCursorStore \<Rightarrow> MemoryCursorStore" where
  "commit_repos stamp [] s = s"
| "commit_repos stamp ((repoKey, byKind) # rest) s = commit_repos stamp rest (commit_kinds stamp repoKey byKind s)"

definition commitRunLocked :: "string \<Rightarrow> gotime \<Rightarrow> MemoryCursorStore \<Rightarrow> MemoryCursorStore \<times> bool" where
  "commitRunLocked runOrLoopID committedAt s =
     (if runOrLoopID = [] then (s, False)
      else (let target = commit_target s runOrLoopID; byRepo = inner (mc_staged s) target in
            if byRepo = [] then (s, False)
            else (let s1 = commit_repos committedAt byRepo s in
                  (s1\<lparr>mc_staged := AList.delete target (mc_staged s1),
                      mc_loopToRun := filter (\<lambda>(_, r). r \<noteq> target) (mc_loopToRun s1)\<rparr>, True))))"

definition CommitRun :: "string \<Rightarrow> gotime \<Rightarrow> MemoryCursorStore \<Rightarrow> MemoryCursorStore" where
  "CommitRun runOrLoopID committedAt s = fst (commitRunLocked runOrLoopID committedAt s)"

section \<open>The machine\<close>

datatype cursor_op =
    StageOp string string string string CursorEntry bool
  | CommitOp string gotime
  | PutOp string string CursorEntry

inductive cursor_step :: "MemoryCursorStore \<Rightarrow> cursor_op \<Rightarrow> MemoryCursorStore \<Rightarrow> bool" where
  stage_step: "cursor_step s (StageOp runID loopID repoKey kind next new) (StageForRun runID loopID repoKey kind next new s)"
| commit_step: "cursor_step s (CommitOp runOrLoopID stamp) (CommitRun runOrLoopID stamp s)"
| put_step: "cursor_step s (PutOp repoKey kind entry) (putLocked repoKey kind entry s)"

inductive_simps stage_simps: "cursor_step s (StageOp runID loopID repoKey kind next new) s'"
inductive_cases cursor_stepE: "cursor_step s op s'"

inductive cursor_reachable :: "MemoryCursorStore \<Rightarrow> bool" where
  start_store: "cursor_reachable \<lparr>mc_entries = entries, mc_staged = [], mc_loopToRun = []\<rparr>"
| next_store: "cursor_reachable s \<Longrightarrow> cursor_step s op s' \<Longrightarrow> cursor_reachable s'"

definition commits :: "MemoryCursorStore \<Rightarrow> string \<Rightarrow> cursor_op \<Rightarrow> bool" where
  "commits s runID op \<longleftrightarrow> (case op of CommitOp x _ \<Rightarrow> x \<noteq> [] \<and> commit_target s x = runID | _ \<Rightarrow> False)"

text \<open>Steps none of which commits the run.\<close>

inductive without_commit :: "string \<Rightarrow> MemoryCursorStore \<Rightarrow> MemoryCursorStore \<Rightarrow> bool" where
  no_steps: "without_commit runID s s"
| one_more: "without_commit runID s s' \<Longrightarrow> cursor_step s' op s'' \<Longrightarrow> \<not> commits s' runID op \<Longrightarrow> without_commit runID s s''"

text \<open>Steps that only stage, for runs of any name.\<close>

inductive staging :: "MemoryCursorStore \<Rightarrow> MemoryCursorStore \<Rightarrow> bool" where
  no_stage: "staging s s"
| stage_more: "staging s s' \<Longrightarrow> runID \<noteq> [] \<Longrightarrow> cursor_step s' (StageOp runID loopID repoKey kind next new) s'' \<Longrightarrow> staging s s''"

section \<open>Reading after writing\<close>

lemma normalizeRepoKey_idem [simp]: "normalizeRepoKey (normalizeRepoKey k) = normalizeRepoKey k"
  by (simp add: normalizeRepoKey_def TrimSpace_ToLower)

lemma getLocked_normal [simp]: "getLocked s (normalizeRepoKey k) kind = getLocked s k kind"
  by (simp add: getLocked_def)

lemma getLocked_put [simp]:
  "getLocked (putLocked k kind e s) k' kind' = (if normalizeRepoKey k' = normalizeRepoKey k \<and> kind' = kind then Some e else getLocked s k' kind')"
  by (simp add: getLocked_def putLocked_def go_map)

lemma get_staged_put [simp]: "get_staged (putLocked k kind e s) r k' kind' = get_staged s r k' kind'"
  by (simp add: get_staged_def putLocked_def)

lemma putLocked_other [simp]:
  "mc_staged (putLocked k kind e s) = mc_staged s" "mc_loopToRun (putLocked k kind e s) = mc_loopToRun s"
  by (simp_all add: putLocked_def)

lemma entry_or_empty_Some [simp]: "entry_or_empty (Some c) = c"
  by (simp add: entry_or_empty_def)

lemma put_staged_entries: "mc_entries (put_staged r l k kind found next new s) = mc_entries s"
  by (simp add: put_staged_def Let_def)

lemma getLocked_put_staged [simp]: "getLocked (put_staged r l k kind found next new s) k' kind' = getLocked s k' kind'"
  by (simp add: getLocked_def put_staged_entries)

definition staged_anew :: "CursorEntry option \<Rightarrow> CursorEntry \<Rightarrow> bool \<Rightarrow> stagedCursor option \<Rightarrow> stagedCursor" where
  "staged_anew found next new old =
     (case old of Some st \<Rightarrow> st\<lparr>sg_next := next, sg_hasNewRecords := new\<rparr>
      | None \<Rightarrow> \<lparr>sg_baseline = entry_or_empty found, sg_hasBaseline = found \<noteq> None, sg_next = next, sg_hasNewRecords = new\<rparr>)"

lemma get_staged_put_staged:
  "get_staged (put_staged r l k kind found next new s) r' k' kind' =
     (if r' = r \<and> k' = k \<and> kind' = kind then Some (staged_anew found next new (get_staged s r k kind)) else get_staged s r' k' kind')"
  by (auto simp: put_staged_def Let_def get_staged_def go_map staged_anew_def)

text \<open>What one staging does to the committed entries and to the staged ones.\<close>

definition checked_entry :: "gotime \<Rightarrow> CursorEntry \<Rightarrow> CursorEntry" where
  "checked_entry t c = (if isBaselined c \<and> \<not> time_IsZero t then c\<lparr>ce_BaselineEstablished := True, ce_LastCheckedAt := time_UTC t\<rparr> else c)"

lemma StageForRun_run:
  assumes "runID \<noteq> []"
  shows "StageForRun runID loopID k kind next new s =
     (let s2 = put_staged runID loopID (normalizeRepoKey k) kind (getLocked s k kind) next new s in
      case getLocked s k kind of None \<Rightarrow> s2
      | Some c \<Rightarrow> if isBaselined c \<and> \<not> time_IsZero (ce_LastCheckedAt next)
                  then putLocked (normalizeRepoKey k) kind (checked_entry (ce_LastCheckedAt next) c) s2 else s2)"
  using assms by (cases "getLocked s k kind") (simp_all add: StageForRun_def stageForRunLocked_def Let_def checked_entry_def)

lemma StageForRun_committed:
  assumes "runID \<noteq> []"
  shows "getLocked (StageForRun runID loopID k kind next new s) k' kind' =
     (if normalizeRepoKey k' = normalizeRepoKey k \<and> kind' = kind then map_option (checked_entry (ce_LastCheckedAt next)) (getLocked s k kind)
      else getLocked s k' kind')"
proof -
  have same: "normalizeRepoKey k' = normalizeRepoKey k \<Longrightarrow> getLocked s k' kind = getLocked s k kind"
    by (simp add: getLocked_def)
  show ?thesis unfolding StageForRun_run [OF assms]
    by (cases "getLocked s k kind") (auto simp: Let_def checked_entry_def same)
qed

lemma StageForRun_staged:
  assumes "runID \<noteq> []"
  shows "get_staged (StageForRun runID loopID k kind next new s) r k' kind' =
     (if r = runID \<and> k' = normalizeRepoKey k \<and> kind' = kind
      then Some (staged_anew (getLocked s k kind) next new (get_staged s runID (normalizeRepoKey k) kind))
      else get_staged s r k' kind')"
  unfolding StageForRun_run [OF assms]
  by (cases "getLocked s k kind") (simp_all add: Let_def get_staged_put_staged)

lemma StageForRun_immediate:
  "get_staged (StageForRun [] loopID k kind next new s) r k' kind' = get_staged s r k' kind'"
  by (simp add: StageForRun_def stageForRunLocked_def Let_def)

lemma commit_kinds_other [simp]:
  "mc_staged (commit_kinds stamp k kvs s) = mc_staged s" "mc_loopToRun (commit_kinds stamp k kvs s) = mc_loopToRun s"
  by (induction stamp k kvs s rule: commit_kinds.induct) (simp_all add: Let_def)

lemma commit_repos_other [simp]:
  "mc_staged (commit_repos stamp kvs s) = mc_staged s" "mc_loopToRun (commit_repos stamp kvs s) = mc_loopToRun s"
  by (induction stamp kvs s rule: commit_repos.induct) simp_all

lemma inner_delete: "inner (AList.delete a m) a' = (if a' = a then [] else inner m a')"
  by (simp add: inner_def delete_conv')

lemma inner_Nil [simp]: "inner [] k = []"
  by (simp add: inner_def)

lemma CommitRun_staged:
  "x \<noteq> [] \<Longrightarrow> get_staged (CommitRun x stamp s) r k kind = (if r = commit_target s x then None else get_staged s r k kind)"
  by (auto simp: CommitRun_def commitRunLocked_def Let_def get_staged_def inner_delete get2_def inner_Nil)

lemma CommitRun_empty [simp]: "CommitRun [] stamp s = s"
  by (simp add: CommitRun_def commitRunLocked_def)

section \<open>Runs that fail, and retries\<close>

definition same_progress :: "CursorEntry option \<Rightarrow> CursorEntry option \<Rightarrow> bool" where
  "same_progress a b \<longleftrightarrow>
     (case (a, b) of
        (None, None) \<Rightarrow> True
      | (Some c, Some d) \<Rightarrow> ce_Watermark d = ce_Watermark c \<and> ce_Seen d = ce_Seen c \<and> ce_LastPersistedAt d = ce_LastPersistedAt c \<and> isBaselined d = isBaselined c
      | _ \<Rightarrow> False)"

lemma same_progress_refl: "same_progress a a"
  by (simp add: same_progress_def split: option.splits)

lemma same_progress_trans: "same_progress a b \<Longrightarrow> same_progress b c \<Longrightarrow> same_progress a c"
  by (auto simp: same_progress_def split: option.splits)

lemma same_progress_checked: "same_progress a (map_option (checked_entry t) a)"
  by (auto simp: same_progress_def checked_entry_def isBaselined_def split: option.splits)

text \<open>
  A run that never commits loses nothing: however many cursors any number of runs stage, every
  committed cursor keeps its watermark, the versions it has seen and the time it was persisted, and
  no cursor appears, so what the runs read is delivered again.
\<close>

theorem staging_keeps_progress:
  assumes "staging s s'"
  shows "same_progress (getLocked s repoKey kind) (getLocked s' repoKey kind)"
  using assms
proof induction
  case (no_stage s)
  show ?case by (rule same_progress_refl)
next
  case (stage_more s s' runID loopID k kd nxt new s'')
  have same: "normalizeRepoKey repoKey = normalizeRepoKey k \<Longrightarrow> getLocked s' repoKey kd = getLocked s' k kd"
    by (simp add: getLocked_def)
  from stage_more.hyps(3) have "s'' = StageForRun runID loopID k kd nxt new s'" by (simp add: stage_simps)
  then have "same_progress (getLocked s' repoKey kind) (getLocked s'' repoKey kind)"
    using same by (auto simp: StageForRun_committed [OF stage_more.hyps(2)] intro: same_progress_checked same_progress_refl)
  with stage_more.IH show ?case by (rule same_progress_trans)
qed

lemma step_keeps_baseline:
  assumes "cursor_step s op s'" "\<not> commits s runID op" "get_staged s runID k kind = Some st"
  shows "\<exists>st'. get_staged s' runID k kind = Some st' \<and> sg_baseline st' = sg_baseline st \<and> sg_hasBaseline st' = sg_hasBaseline st"
  using assms(1)
proof cases
  case (stage_step r l k' kind' nxt new)
  show ?thesis
  proof (cases "r = []")
    case True
    then show ?thesis using stage_step assms(3) by (simp add: StageForRun_immediate)
  next
    case False
    then show ?thesis using stage_step assms(3) by (auto simp: StageForRun_staged staged_anew_def)
  qed
next
  case (commit_step x stamp)
  then show ?thesis using assms(2,3) by (cases "x = []") (auto simp: CommitRun_staged commits_def)
next
  case (put_step k' kind' entry)
  then show ?thesis using assms(3) by simp
qed

lemma without_commit_baseline:
  assumes "without_commit runID s s'"
  shows "get_staged s runID k kind = Some st \<Longrightarrow>
    \<exists>st'. get_staged s' runID k kind = Some st' \<and> sg_baseline st' = sg_baseline st \<and> sg_hasBaseline st' = sg_hasBaseline st"
  using assms
proof induction
  case (one_more r s s' op s'')
  from one_more.IH [OF one_more.prems] obtain st' where "get_staged s' r k kind = Some st'" and
    "sg_baseline st' = sg_baseline st \<and> sg_hasBaseline st' = sg_hasBaseline st" by blast
  with step_keeps_baseline [OF one_more.hyps(2,3)] show ?case by metis
qed blast

lemma GetForRun_staged:
  "runID \<noteq> [] \<Longrightarrow> get_staged s runID (normalizeRepoKey k) kind = Some st \<Longrightarrow>
   GetForRun s runID k kind = (if sg_hasBaseline st then Some (sg_baseline st) else None)"
  by (simp add: GetForRun_def)

lemma GetForRun_not_staged:
  "get_staged s runID (normalizeRepoKey k) kind = None \<Longrightarrow> GetForRun s runID k kind = getLocked s k kind"
  unfolding GetForRun_def Let_def by simp

text \<open>
  A retry within a run is idempotent: once a run has staged a cursor, it reads the same starting point
  until it is committed, whatever it stages again and whatever other runs stage or commit meanwhile.
\<close>

theorem retry_sees_baseline:
  assumes "runID \<noteq> []" "cursor_step s (StageOp runID loopID repoKey kind next new) s1" "without_commit runID s1 s2"
  shows "GetForRun s2 runID repoKey kind = GetForRun s runID repoKey kind"
proof -
  let ?k = "normalizeRepoKey repoKey" and ?found = "getLocked s repoKey kind"
  let ?st = "staged_anew ?found next new (get_staged s runID ?k kind)"
  have "s1 = StageForRun runID loopID repoKey kind next new s" using assms(2) by (simp add: stage_simps)
  then have "get_staged s1 runID ?k kind = Some ?st" by (simp add: StageForRun_staged [OF assms(1)])
  from without_commit_baseline [OF assms(3) this] obtain st' where st': "get_staged s2 runID ?k kind = Some st'"
    "sg_baseline st' = sg_baseline ?st" "sg_hasBaseline st' = sg_hasBaseline ?st" by blast
  have "GetForRun s2 runID repoKey kind = (if sg_hasBaseline ?st then Some (sg_baseline ?st) else None)"
    using GetForRun_staged [OF assms(1) st'(1)] st'(2,3) by simp
  also have "\<dots> = GetForRun s runID repoKey kind"
  proof (cases "get_staged s runID ?k kind")
    case None
    then show ?thesis by (cases ?found) (simp_all add: GetForRun_not_staged staged_anew_def)
  next
    case (Some old)
    then show ?thesis by (simp add: GetForRun_staged [OF assms(1) Some] staged_anew_def)
  qed
  finally show ?thesis .
qed

section \<open>Reachable stores\<close>

definition staged_ok :: "staged_run \<Rightarrow> bool" where
  "staged_ok byRepo \<longleftrightarrow> distinct (gm_keys byRepo) \<and> (\<forall>k \<in> set (gm_keys byRepo). normalizeRepoKey k = k) \<and> (\<forall>k. distinct (gm_keys (inner byRepo k)))"

definition store_ok :: "MemoryCursorStore \<Rightarrow> bool" where
  "store_ok s \<longleftrightarrow> (\<forall>r. staged_ok (inner (mc_staged s) r)) \<and> (\<forall>l r. (l, r) \<in> set (mc_loopToRun s) \<longrightarrow> r \<noteq> [] \<and> inner (mc_staged s) r \<noteq> [])"

lemma staged_ok_Nil: "staged_ok []"
  by (simp add: staged_ok_def)

lemma staged_ok_put2:
  assumes "staged_ok m"
  shows "staged_ok (put2 (normalizeRepoKey k) kind st m)"
proof -
  have "set (gm_keys (put2 (normalizeRepoKey k) kind st m)) = insert (normalizeRepoKey k) (set (gm_keys m))"
    unfolding put2_def by (rule set_gm_keys_put)
  moreover have "distinct (gm_keys (inner (put2 (normalizeRepoKey k) kind st m) k'))" for k'
    using assms by (simp add: put2_def staged_ok_def go_map)
  ultimately show ?thesis using assms by (simp add: staged_ok_def put2_def distinct_gm_put)
qed

lemma put2_neq_Nil [simp]: "put2 a b v m \<noteq> []" "[] \<noteq> put2 a b v m"
  unfolding put2_def by (cases m; auto)+

lemma update_member: "(l, r) \<in> set (gm_put k v m) \<Longrightarrow> (l, r) = (k, v) \<or> (l, r) \<in> set m"
  by (induction m) (auto split: if_splits)

lemma put_staged_inner:
  "\<exists>st. inner (mc_staged (put_staged r l k kind found next new s)) r' = (if r' = r then put2 k kind st (inner (mc_staged s) r) else inner (mc_staged s) r')"
  by (auto simp: put_staged_def Let_def go_map)

lemma put_staged_loops:
  "mc_loopToRun (put_staged r l k kind found next new s) = (if l \<noteq> [] then gm_put l r (mc_loopToRun s) else mc_loopToRun s)"
  by (simp add: put_staged_def Let_def)

lemma put_staged_ok:
  assumes "store_ok s" "r \<noteq> []"
  shows "store_ok (put_staged r l (normalizeRepoKey k) kind found next new s)"
proof -
  let ?s = "put_staged r l (normalizeRepoKey k) kind found next new s"
  have inner: "\<exists>st. inner (mc_staged ?s) r' = (if r' = r then put2 (normalizeRepoKey k) kind st (inner (mc_staged s) r) else inner (mc_staged s) r')" for r'
    by (rule put_staged_inner)
  have "staged_ok (inner (mc_staged ?s) r')" for r'
    using inner [of r'] assms(1) staged_ok_put2 by (auto simp: store_ok_def)
  moreover have "r' \<noteq> [] \<and> inner (mc_staged ?s) r' \<noteq> []" if "(l', r') \<in> set (mc_loopToRun ?s)" for l' r'
  proof -
    have "(l', r') = (l, r) \<or> (l', r') \<in> set (mc_loopToRun s)"
      using that update_member [of l' r' l r "mc_loopToRun s"] by (auto simp: put_staged_loops split: if_splits)
    moreover have "inner (mc_staged ?s) r' \<noteq> []" if "r' = r \<or> inner (mc_staged s) r' \<noteq> []"
      using that inner [of r'] by (elim exE) (simp split: if_splits)
    ultimately show ?thesis using assms unfolding store_ok_def by (metis prod.inject)
  qed
  ultimately show ?thesis by (simp add: store_ok_def)
qed

lemma store_ok_cong: "mc_staged s' = mc_staged s \<Longrightarrow> mc_loopToRun s' = mc_loopToRun s \<Longrightarrow> store_ok s' = store_ok s"
  by (simp add: store_ok_def)

lemma CommitRun_ok: "store_ok s \<Longrightarrow> store_ok (CommitRun x stamp s)"
  by (auto simp: CommitRun_def commitRunLocked_def Let_def store_ok_def inner_delete staged_ok_Nil)

lemma cursor_step_ok: "cursor_step s op s' \<Longrightarrow> store_ok s \<Longrightarrow> store_ok s'"
proof (induction rule: cursor_step.induct)
  case (stage_step s runID loopID k kind nxt new)
  show ?case
  proof (cases "runID = []")
    case True
    then show ?thesis using stage_step by (simp add: StageForRun_def stageForRunLocked_def Let_def store_ok_def)
  next
    case False
    then show ?thesis using put_staged_ok [OF stage_step False]
      by (cases "getLocked s k kind") (simp_all add: StageForRun_run [OF False] Let_def store_ok_def)
  qed
next
  case (commit_step s x stamp)
  then show ?case by (rule CommitRun_ok)
qed (simp add: store_ok_def)

lemma reachable_ok: "cursor_reachable s \<Longrightarrow> store_ok s"
proof (induction rule: cursor_reachable.induct)
  case (start_store entries)
  then show ?case by (simp add: store_ok_def staged_ok_Nil)
qed (rule cursor_step_ok)

section \<open>Commits\<close>

definition promoted :: "CursorEntry option \<Rightarrow> stagedCursor option \<Rightarrow> gotime \<Rightarrow> CursorEntry option" where
  "promoted found st stamp =
     (case st of None \<Rightarrow> found
      | Some st \<Rightarrow> Some (applyCursorUpdate (entry_or_empty found) (found \<noteq> None) (sg_next st) (sg_hasNewRecords st) stamp))"

lemma getLocked_put_normal:
  "normalizeRepoKey k = k \<Longrightarrow> getLocked (putLocked k kind e s) k' kind' = (if normalizeRepoKey k' = k \<and> kind' = kind then Some e else getLocked s k' kind')"
  by simp

lemma commit_kinds_get:
  "distinct (gm_keys kvs) \<Longrightarrow> normalizeRepoKey k = k \<Longrightarrow>
   getLocked (commit_kinds stamp k kvs s) k' kind' =
     (if normalizeRepoKey k' = k then promoted (getLocked s k' kind') (gm_get kvs kind') stamp else getLocked s k' kind')"
proof (induction stamp k kvs s rule: commit_kinds.induct)
  case (2 stamp k kind st rest s)
  have same: "normalizeRepoKey k' = k \<Longrightarrow> getLocked s k kind = getLocked s k' kind"
    using 2(3) by (simp add: getLocked_def)
  have fresh: "gm_get rest kind = None" using 2(2) by (simp add: map_of_eq_None_iff)
  have "distinct (gm_keys rest)" using 2(2) by simp
  note IH = "2.IH" [OF refl this 2(3)]
  show ?case unfolding commit_kinds.simps Let_def IH
    by (cases "normalizeRepoKey k' = k \<and> kind' = kind") (use same fresh in \<open>auto simp: promoted_def 2(3)\<close>)
qed (simp add: promoted_def)

lemma commit_repos_get:
  "distinct (gm_keys byRepo) \<Longrightarrow> \<forall>k \<in> set (gm_keys byRepo). normalizeRepoKey k = k \<Longrightarrow> \<forall>kvs \<in> snd ` set byRepo. distinct (gm_keys kvs) \<Longrightarrow>
   getLocked (commit_repos stamp byRepo s) k' kind' = promoted (getLocked s k' kind') (get2 byRepo (normalizeRepoKey k') kind') stamp"
proof (induction stamp byRepo s rule: commit_repos.induct)
  case (1 stamp s)
  then show ?case by (simp add: promoted_def get2_def)
next
  case (2 stamp k kvs rest s)
  have IH: "getLocked (commit_repos stamp rest (commit_kinds stamp k kvs s)) k' kind' =
      promoted (getLocked (commit_kinds stamp k kvs s) k' kind') (get2 rest (normalizeRepoKey k') kind') stamp"
    by (rule "2.IH") (use "2.prems" in auto)
  have kinds: "getLocked (commit_kinds stamp k kvs s) k' kind' =
      (if normalizeRepoKey k' = k then promoted (getLocked s k' kind') (gm_get kvs kind') stamp else getLocked s k' kind')"
    by (rule commit_kinds_get) (use "2.prems" in auto)
  have "gm_get rest k = None" using "2.prems"(1) by (simp add: map_of_eq_None_iff)
  then have fresh: "get2 rest k kind' = None" by (simp add: get2_def inner_def)
  show ?case
  proof (cases "normalizeRepoKey k' = k")
    case True
    then have "get2 ((k, kvs) # rest) (normalizeRepoKey k') kind' = gm_get kvs kind'" by (simp add: get2_def inner_def)
    then show ?thesis using IH kinds True fresh by (simp add: promoted_def [of _ None])
  next
    case False
    then have "get2 ((k, kvs) # rest) (normalizeRepoKey k') kind' = get2 rest (normalizeRepoKey k') kind'" by (auto simp: get2_def inner_def)
    then show ?thesis using IH kinds False by simp
  qed
qed

lemma staged_ok_inner: "staged_ok m \<Longrightarrow> \<forall>kvs \<in> snd ` set m. distinct (gm_keys kvs)"
proof
  fix kvs assume "staged_ok m" "kvs \<in> snd ` set m"
  then obtain k where "(k, kvs) \<in> set m" "distinct (gm_keys m)" by (auto simp: staged_ok_def)
  then have "inner m k = kvs" by (simp add: inner_def)
  then show "distinct (gm_keys kvs)" using \<open>staged_ok m\<close> by (auto simp: staged_ok_def)
qed

lemma CommitRun_committed:
  assumes "store_ok s" "x \<noteq> []"
  shows "getLocked (CommitRun x stamp s) k kind = promoted (getLocked s k kind) (get_staged s (commit_target s x) (normalizeRepoKey k) kind) stamp"
proof -
  let ?byRepo = "inner (mc_staged s) (commit_target s x)"
  have ok: "staged_ok ?byRepo" using assms(1) by (simp add: store_ok_def)
  have "getLocked (commit_repos stamp ?byRepo s) k kind = promoted (getLocked s k kind) (get2 ?byRepo (normalizeRepoKey k) kind) stamp"
    by (rule commit_repos_get) (use ok staged_ok_inner [OF ok] in \<open>auto simp: staged_ok_def\<close>)
  then show ?thesis using assms(2)
    by (auto simp: CommitRun_def commitRunLocked_def Let_def get_staged_def getLocked_def promoted_def get2_def)
qed

lemma commit_kinds_loops: "store_ok s \<Longrightarrow> x \<noteq> [] \<Longrightarrow> gm_get (mc_loopToRun (CommitRun x stamp s)) l \<noteq> Some (commit_target s x)"
  by (auto simp: CommitRun_def commitRunLocked_def Let_def store_ok_def dest!: map_of_SomeD)

text \<open>
  C21. A commit promotes exactly the run it names, by its own id or by that of a loop that staged for it: each
  stream the run staged moves to the staged cursor by the update rule, every other stream keeps its
  cursor, nothing stays staged for the run, the staged cursors of other runs stay, and no loop names
  the run any more.
\<close>

theorem commit_promotes_run:
  assumes "cursor_reachable s" "x \<noteq> []" "cursor_step s (CommitOp x stamp) s'"
  shows "getLocked s' repoKey kind = promoted (getLocked s repoKey kind) (get_staged s (commit_target s x) (normalizeRepoKey repoKey) kind) stamp \<and>
     get_staged s' r k kd = (if r = commit_target s x then None else get_staged s r k kd) \<and>
     gm_get (mc_loopToRun s') l \<noteq> Some (commit_target s x)"
proof -
  have ok: "store_ok s" by (rule reachable_ok [OF assms(1)])
  have "s' = CommitRun x stamp s" using assms(3) by (auto elim: cursor_stepE)
  then show ?thesis using CommitRun_committed [OF ok assms(2)] CommitRun_staged [OF assms(2)] commit_kinds_loops [OF ok assms(2)] by blast
qed

text \<open>A new delivery, committed, is the staged cursor with its time of persistence.\<close>

lemma promoted_new:
  "sg_hasNewRecords st \<Longrightarrow>
   \<exists>c. promoted found (Some st) stamp = Some c \<and> ce_Watermark c = ce_Watermark (sg_next st) \<and> ce_Seen c = ce_Seen (sg_next st) \<and> ce_BaselineEstablished c"
  by (simp add: promoted_def applyCursorUpdate_def Let_def)

section \<open>Witnesses\<close>

definition cursor_at :: "int \<Rightarrow> (string \<times> string) list \<Rightarrow> CursorEntry" where
  "cursor_at n seen = \<lparr>ce_Watermark = mk_utc n, ce_Seen = seen, ce_BaselineEstablished = True, ce_LastCheckedAt = mk_utc n, ce_LastPersistedAt = mk_utc n\<rparr>"

definition sample_cursors :: MemoryCursorStore where
  "sample_cursors = \<lparr>mc_entries = [(''acme/core'', [(''issues'', cursor_at 5 [(''o1'', ''v1'')])])], mc_staged = [], mc_loopToRun = []\<rparr>"

definition sample_staged :: MemoryCursorStore where
  "sample_staged = StageForRun ''r1'' ''l1'' '' Acme/Core'' ''issues'' (cursor_at 9 [(''o1'', ''v1''), (''o2'', ''v1'')]) True sample_cursors"

lemma sample_stage: "cursor_step sample_cursors (StageOp ''r1'' ''l1'' '' Acme/Core'' ''issues'' (cursor_at 9 [(''o1'', ''v1''), (''o2'', ''v1'')]) True) sample_staged"
  unfolding sample_staged_def by (rule stage_step)

theorem staging_keeps_progress_witness:
  "same_progress (getLocked sample_cursors ''acme/core'' ''issues'') (getLocked sample_staged ''acme/core'' ''issues'')"
  by (rule staging_keeps_progress [OF stage_more [OF no_stage _ sample_stage]]) simp

theorem retry_sees_baseline_witness:
  "GetForRun (putLocked ''acme/core'' ''issues'' (cursor_at 7 []) sample_staged) ''r1'' '' Acme/Core'' ''issues'' =
   GetForRun sample_cursors ''r1'' '' Acme/Core'' ''issues''"
  by (rule retry_sees_baseline [OF _ sample_stage one_more [OF no_steps put_step]]) (simp_all add: commits_def)

lemma sample_reachable: "cursor_reachable sample_staged"
  using next_store [OF start_store sample_stage [unfolded sample_cursors_def]] .

theorem commit_promotes_run_witness:
  "get_staged (CommitRun ''l1'' (mk_utc 10) sample_staged) (commit_target sample_staged ''l1'') ''acme/core'' ''issues'' = None"
  using commit_promotes_run [OF sample_reachable _ commit_step, of "''l1''", where r = "commit_target sample_staged ''l1''"] by simp

end
