(* ===== verification/Github_Read.thy ===== *)
theory Github_Read
  imports Github_Client Github_Cursor Tool_Call
begin

text \<open>
  The tool \<^verbatim>\<open>github_read\<close>, \<^verbatim>\<open>tools/githubread/executor.go\<close>: it resolves the repositories of a portfolio scope, fetches
  each kind of activity, leaves out what was delivered before and stages the cursor of each stream.
  The result is the value that the code marshals into the content of the tool result.
\<close>

section \<open>Arguments\<close>

definition KindIssues :: string where "KindIssues = ''issues''"
definition KindPullRequests :: string where "KindPullRequests = ''pull_requests''"
definition KindReleases :: string where "KindReleases = ''releases''"
definition KindCommits :: string where "KindCommits = ''commits''"
definition KindCIStatus :: string where "KindCIStatus = ''ci_status''"

definition AllKinds :: "string list" where
  "AllKinds = [KindIssues, KindPullRequests, KindReleases, KindCommits, KindCIStatus]"

datatype read_error =
    ReadDisabled | ReadScope resolve_error | NoRepositories | KindsElement | KindsShape | KindUnsupported string
  | StateInvalid string | LimitNotInteger | LimitRange int | InvalidRecord string evidence_error
  | PersistCursor string string string | FirstFailure string string client_error

fun kinds_loop :: "string list \<Rightarrow> string list \<Rightarrow> string list \<Rightarrow> read_error + string list" where
  "kinds_loop seen out [] = Inr out"
| "kinds_loop seen out (k0 # ks) =
     (let k = ToLower (TrimSpace k0) in
      if k \<notin> set AllKinds then Inl (KindUnsupported k)
      else if k \<in> set seen then kinds_loop seen out ks
      else kinds_loop (k # seen) (out @ [k]) ks)"

fun elem_string :: "any \<Rightarrow> string option" where
  "elem_string (AnyStr s) = Some s"
| "elem_string _ = None"

definition parseKinds :: "any option \<Rightarrow> read_error + string list" where
  "parseKinds raw =
     (let pick = (\<lambda>items. if items = [] then Inr AllKinds else kinds_loop [] [] items) in
      case raw of
        None \<Rightarrow> Inr AllKinds
      | Some AnyNil \<Rightarrow> Inr AllKinds
      | Some (AnyStrs v) \<Rightarrow> pick v
      | Some (AnyList v) \<Rightarrow> (case those (map elem_string v) of None \<Rightarrow> Inl KindsElement | Some items \<Rightarrow> pick items)
      | _ \<Rightarrow> Inl KindsShape)"

definition limit_in_range :: "int \<Rightarrow> read_error + int" where
  "limit_in_range n = (if n < 1 \<or> n > 100 then Inl (LimitRange n) else Inr n)"

text \<open>A float is an integer when conversion to int and back gives the same number.\<close>

definition parseLimit :: "any option \<Rightarrow> read_error + int" where
  "parseLimit raw =
     (case raw of
        None \<Rightarrow> Inr 20
      | Some AnyNil \<Rightarrow> Inr 20
      | Some (AnyFloat r) \<Rightarrow> if of_int \<lfloor>r\<rfloor> = r \<and> - (2 ^ 63) \<le> r \<and> r < 2 ^ 63 then limit_in_range \<lfloor>r\<rfloor> else Inl LimitNotInteger
      | Some (AnyInt i) \<Rightarrow> limit_in_range i
      | _ \<Rightarrow> Inl LimitNotInteger)"

record executeRequest =
  rq_repos :: "Repository list"
  rq_kinds :: "string list"
  rq_state :: string
  rq_limit :: int
  rq_includeUnchanged :: bool

definition parse_state :: "any option \<Rightarrow> read_error + string" where
  "parse_state raw =
     (case as_str raw of
        Some s \<Rightarrow>
          if TrimSpace s = [] then Inr ''all''
          else (let state = ToLower (TrimSpace s) in if state \<notin> {''open'', ''closed'', ''all''} then Inl (StateInvalid s) else Inr state)
      | None \<Rightarrow> Inr ''all'')"

definition parseExecuteRequest :: "Portfolio option \<Rightarrow> (string \<times> any) list \<Rightarrow> read_error + executeRequest" where
  "parseExecuteRequest pf args =
     (case ResolveRepositories pf (str_or_empty (gm_get args ''program'')) (str_or_empty (gm_get args ''project'')) (str_or_empty (gm_get args ''repository'')) of
        Inl e \<Rightarrow> Inl (ReadScope e)
      | Inr repos \<Rightarrow>
          if repos = [] then Inl NoRepositories
          else case parseKinds (gm_get args ''kinds'') of Inl e \<Rightarrow> Inl e | Inr kinds \<Rightarrow>
          (case parse_state (gm_get args ''state'') of Inl e \<Rightarrow> Inl e | Inr state \<Rightarrow>
          (case parseLimit (gm_get args ''limit'') of Inl e \<Rightarrow> Inl e | Inr limit \<Rightarrow>
             Inr \<lparr>rq_repos = repos, rq_kinds = kinds, rq_state = state, rq_limit = limit,
               rq_includeUnchanged = (gm_get args ''include_unchanged'' = Some (AnyBool True))\<rparr>)))"

definition after_last_dot :: "string \<Rightarrow> string option" where
  "after_last_dot s =
     (let tail = rev (takeWhile (\<lambda>c. c \<noteq> CHR ''.'') (rev s)) in if CHR ''.'' \<in> set s \<and> tail \<noteq> [] then Some tail else None)"

definition resolveRunScopeKey :: "framework \<Rightarrow> ToolCall \<Rightarrow> string" where
  "resolveRunScopeKey fw call =
     (case Anchor fw call [] [] of
        (runID, runEntityID) \<Rightarrow>
          if TrimSpace runID \<noteq> [] then TrimSpace runID
          else if TrimSpace runEntityID \<noteq> [] then
            (case after_last_dot runEntityID of Some t \<Rightarrow> t | None \<Rightarrow> TrimSpace runEntityID)
          else (let pulse = str_or_empty (meta_get (tc_Metadata call) ''pulse_run_id'') in
                if TrimSpace pulse \<noteq> [] then TrimSpace pulse else TrimSpace (tc_LoopID call)))"

section \<open>Bodies\<close>

definition line :: "string \<Rightarrow> string \<Rightarrow> string" where
  "line key v = key @ '': '' @ v @ [CHR 0x0A]"

definition opt_line :: "string \<Rightarrow> string \<Rightarrow> string" where
  "opt_line key v = (if v \<noteq> [] then line key v else [])"

definition list_line :: "string \<Rightarrow> string list \<Rightarrow> string" where
  "list_line key vs = (if vs \<noteq> [] then line key (Join vs '', '') else [])"

definition time_line :: "string \<Rightarrow> gotime \<Rightarrow> string" where
  "time_line key t = (if time_IsZero t then [] else line key (format_RFC3339 (time_UTC t)))"

definition text_block :: "string \<Rightarrow> string \<Rightarrow> string" where
  "text_block key body = (if TrimSpace body \<noteq> [] then key @ '':'' @ [CHR 0x0A] @ TrimSpace body @ [CHR 0x0A] else [])"

definition bool_text :: "bool \<Rightarrow> string" where
  "bool_text b = (if b then ''true'' else ''false'')"

definition formatIssueBody :: "Repository \<Rightarrow> Issue \<Rightarrow> string" where
  "formatIssueBody repo it =
     line ''Repository'' (repo_Slug repo) @ line ''Kind'' ''issue'' @ line ''Number'' (''#'' @ Itoa (is_Number it)) @
     line ''State'' (is_State it) @ line ''Title'' (is_Title it) @ opt_line ''Author'' (is_Author it) @
     list_line ''Assignees'' (is_Assignees it) @ list_line ''Labels'' (is_Labels it) @ opt_line ''Milestone'' (is_Milestone it) @
     time_line ''UpdatedAt'' (is_UpdatedAt it) @ opt_line ''URL'' (is_HTMLURL it) @ text_block ''Body'' (is_Body it)"

definition formatPullRequestBody :: "Repository \<Rightarrow> PullRequest \<Rightarrow> string" where
  "formatPullRequestBody repo pr =
     line ''Repository'' (repo_Slug repo) @ line ''Kind'' ''pull_request'' @ line ''Number'' (''#'' @ Itoa (pl_Number pr)) @
     line ''State'' (pl_State pr) @ line ''Draft'' (bool_text (pl_Draft pr)) @ line ''Title'' (pl_Title pr) @ opt_line ''Author'' (pl_Author pr) @
     (if pl_HeadRef pr \<noteq> [] \<or> pl_BaseRef pr \<noteq> [] then line ''Branches'' (pl_HeadRef pr @ '' -> '' @ pl_BaseRef pr) else []) @
     (case pl_MergedAt pr of Some t \<Rightarrow> time_line ''MergedAt'' t | None \<Rightarrow> []) @
     list_line ''Labels'' (pl_Labels pr) @ time_line ''UpdatedAt'' (pl_UpdatedAt pr) @ opt_line ''URL'' (pl_HTMLURL pr) @ text_block ''Body'' (pl_Body pr)"

definition formatReleaseBody :: "Repository \<Rightarrow> Release \<Rightarrow> string" where
  "formatReleaseBody repo rel =
     line ''Repository'' (repo_Slug repo) @ line ''Kind'' ''release'' @ line ''Tag'' (rl_TagName rel) @ line ''Name'' (rl_Name rel) @
     line ''Draft'' (bool_text (rl_Draft rel)) @ line ''Prerelease'' (bool_text (rl_Prerelease rel)) @ opt_line ''Author'' (rl_Author rel) @
     time_line ''PublishedAt'' (rl_PublishedAt rel) @ opt_line ''URL'' (rl_HTMLURL rel) @ text_block ''Body'' (rl_Body rel)"

definition formatCommitBody :: "Repository \<Rightarrow> Commit \<Rightarrow> string" where
  "formatCommitBody repo c =
     line ''Repository'' (repo_Slug repo) @ line ''Kind'' ''commit'' @ line ''SHA'' (cm_SHA c) @ opt_line ''Author'' (cm_Author c) @
     time_line ''CommittedAt'' (cm_CommittedAt c) @ opt_line ''URL'' (cm_HTMLURL c) @ text_block ''Message'' (cm_Message c)"

definition formatWorkflowRunBody :: "Repository \<Rightarrow> WorkflowRun \<Rightarrow> string" where
  "formatWorkflowRunBody repo r =
     line ''Repository'' (repo_Slug repo) @ line ''Kind'' ''ci_status'' @ line ''RunID'' (Itoa (wr_ID r)) @ line ''Workflow'' (wr_Name r) @
     line ''Status'' (wr_Status r) @ line ''Conclusion'' (wr_Conclusion r) @ opt_line ''Branch'' (wr_HeadBranch r) @
     opt_line ''HeadSHA'' (wr_HeadSHA r) @ time_line ''UpdatedAt'' (wr_UpdatedAt r) @ opt_line ''URL'' (wr_HTMLURL r)"

section \<open>Fetching\<close>

record fetchedRecord =
  fr_record :: EvidenceRecord
  fr_activityAt :: gotime

definition resolveActivityTime :: "gotime \<Rightarrow> gotime \<Rightarrow> gotime \<Rightarrow> gotime" where
  "resolveActivityTime primary fallback retrievedAt =
     (if \<not> time_IsZero primary then time_UTC primary else if \<not> time_IsZero fallback then time_UTC fallback else time_UTC retrievedAt)"

text \<open>The record of an item: its locator under the repository, its activity time, its body and its page.\<close>

record item_facts =
  if_Kind :: string
  if_Resource :: string
  if_Activity :: gotime
  if_Body :: string
  if_URL :: string

definition record_of :: "net_url \<Rightarrow> Repository \<Rightarrow> gotime \<Rightarrow> string \<Rightarrow> item_facts \<Rightarrow> client_error + fetchedRecord" where
  "record_of lib repo retrievedAt callID it =
     (let loc = ''github://'' @ rp_Owner repo @ ''/'' @ rp_Name repo @ ''/'' @ if_Resource it in
      case NormalizeOriginID lib ChannelGitHub loc of
        Inl e \<Rightarrow> Inl (OriginError e)
      | Inr originID \<Rightarrow>
          Inr \<lparr>fr_record = \<lparr>ev_Channel = ChannelGitHub, ev_Locator = loc, ev_OriginID = originID, ev_SourceClass = SourceClassPrimary,
                 ev_RetrievedAt = retrievedAt, ev_RawBody = if_Body it, ev_Quote = [], ev_ToolResultRef = callID, ev_Revision = 0,
                 ev_Kind = if_Kind it, ev_Repository = repo_Slug repo, ev_HTMLURL = if_URL it, ev_UpdatedAt = Some (if_Activity it)\<rparr>,
               fr_activityAt = if_Activity it\<rparr>)"

fun records_loop :: "('a \<Rightarrow> client_error + fetchedRecord) \<Rightarrow> 'a list \<Rightarrow> client_error + fetchedRecord list" where
  "records_loop f [] = Inr []"
| "records_loop f (x # xs) =
     (case f x of Inl e \<Rightarrow> Inl e
      | Inr r \<Rightarrow> (case records_loop f xs of Inl e \<Rightarrow> Inl e | Inr rs \<Rightarrow> Inr (r # rs)))"

definition issue_facts :: "Repository \<Rightarrow> gotime \<Rightarrow> Issue \<Rightarrow> item_facts" where
  "issue_facts repo retrievedAt it =
     \<lparr>if_Kind = ''issue'', if_Resource = ''issues/'' @ Itoa (is_Number it),
      if_Activity = resolveActivityTime (is_UpdatedAt it) (is_CreatedAt it) retrievedAt, if_Body = formatIssueBody repo it, if_URL = is_HTMLURL it\<rparr>"

definition pull_facts :: "Repository \<Rightarrow> gotime \<Rightarrow> PullRequest \<Rightarrow> item_facts" where
  "pull_facts repo retrievedAt pr =
     \<lparr>if_Kind = ''pull_request'', if_Resource = ''pulls/'' @ Itoa (pl_Number pr),
      if_Activity = resolveActivityTime (pl_UpdatedAt pr) (pl_CreatedAt pr) retrievedAt, if_Body = formatPullRequestBody repo pr, if_URL = pl_HTMLURL pr\<rparr>"

definition release_tag :: "Release \<Rightarrow> string" where
  "release_tag rel = (if TrimSpace (rl_TagName rel) = [] then ''id-'' @ Itoa (rl_ID rel) else TrimSpace (rl_TagName rel))"

definition release_facts :: "Repository \<Rightarrow> gotime \<Rightarrow> Release \<Rightarrow> item_facts" where
  "release_facts repo retrievedAt rel =
     \<lparr>if_Kind = ''release'', if_Resource = ''releases/'' @ release_tag rel,
      if_Activity = resolveActivityTime (rl_PublishedAt rel) (rl_CreatedAt rel) retrievedAt, if_Body = formatReleaseBody repo rel, if_URL = rl_HTMLURL rel\<rparr>"

definition commit_facts :: "Repository \<Rightarrow> gotime \<Rightarrow> Commit \<Rightarrow> item_facts" where
  "commit_facts repo retrievedAt c =
     \<lparr>if_Kind = ''commit'', if_Resource = ''commits/'' @ cm_SHA c,
      if_Activity = resolveActivityTime (cm_CommittedAt c) no_time retrievedAt, if_Body = formatCommitBody repo c, if_URL = cm_HTMLURL c\<rparr>"

definition run_facts :: "Repository \<Rightarrow> gotime \<Rightarrow> WorkflowRun \<Rightarrow> item_facts" where
  "run_facts repo retrievedAt r =
     \<lparr>if_Kind = ''ci_status'', if_Resource = ''actions/runs/'' @ Itoa (wr_ID r),
      if_Activity = resolveActivityTime (wr_UpdatedAt r) (wr_CreatedAt r) retrievedAt, if_Body = formatWorkflowRunBody repo r, if_URL = wr_HTMLURL r\<rparr>"

definition fetch_items :: "net_url \<Rightarrow> Repository \<Rightarrow> gotime \<Rightarrow> string \<Rightarrow> ('a \<Rightarrow> item_facts) \<Rightarrow> (client_error + 'a list) \<times> 'w \<Rightarrow> (client_error + fetchedRecord list) \<times> 'w" where
  "fetch_items lib repo retrievedAt callID facts reply =
     (case reply of
        (Inl e, w) \<Rightarrow> (Inl e, w)
      | (Inr items, w) \<Rightarrow> (records_loop (\<lambda>it. record_of lib repo retrievedAt callID (facts it)) items, w))"

definition fetchKind :: "net_url \<Rightarrow> 'w Client \<Rightarrow> Repository \<Rightarrow> string \<Rightarrow> ListOpts \<Rightarrow> gotime \<Rightarrow> string \<Rightarrow> 'w \<Rightarrow> (client_error + fetchedRecord list) \<times> 'w" where
  "fetchKind lib c repo kind opts retrievedAt callID w =
     (let owner = rp_Owner repo; name = rp_Name repo in
      if kind = KindIssues then fetch_items lib repo retrievedAt callID (issue_facts repo retrievedAt) (cl_ListIssues c owner name opts w)
      else if kind = KindPullRequests then fetch_items lib repo retrievedAt callID (pull_facts repo retrievedAt) (cl_ListPullRequests c owner name opts w)
      else if kind = KindReleases then fetch_items lib repo retrievedAt callID (release_facts repo retrievedAt) (cl_ListReleases c owner name opts w)
      else if kind = KindCommits then fetch_items lib repo retrievedAt callID (commit_facts repo retrievedAt) (cl_ListCommits c owner name opts w)
      else if kind = KindCIStatus then fetch_items lib repo retrievedAt callID (run_facts repo retrievedAt) (cl_ListWorkflowRuns c owner name opts w)
      else (Inl (UnsupportedKind kind), w))"

section \<open>One stream\<close>

text \<open>
  The store of the cursors, over a state of its own. A store that knows runs offers the second pair of
  operations, which is then preferred.
\<close>

record 's CursorStore =
  cst_Get :: "string \<Rightarrow> string \<Rightarrow> 's \<Rightarrow> CursorEntry option"
  cst_Put :: "string \<Rightarrow> string \<Rightarrow> CursorEntry \<Rightarrow> 's \<Rightarrow> string option \<times> 's"
  cst_Run :: "((string \<Rightarrow> string \<Rightarrow> string \<Rightarrow> 's \<Rightarrow> CursorEntry option) \<times> (string \<Rightarrow> string \<Rightarrow> string \<Rightarrow> string \<Rightarrow> CursorEntry \<Rightarrow> bool \<Rightarrow> 's \<Rightarrow> string option \<times> 's)) option"

definition memory_store :: "MemoryCursorStore CursorStore" where
  "memory_store =
     \<lparr>cst_Get = (\<lambda>repoKey kind s. getLocked s repoKey kind), cst_Put = (\<lambda>repoKey kind e s. (None, putLocked repoKey kind e s)),
      cst_Run = Some (\<lambda>runID repoKey kind s. GetForRun s runID repoKey kind,
                      \<lambda>runID loopID repoKey kind e new s. (None, StageForRun runID loopID repoKey kind e new s))\<rparr>"

record RepositoryFailure =
  rf_Repository :: string
  rf_Kind :: string
  rf_Error :: client_error
  rf_ErrorKind :: error_kind
  rf_StatusCode :: int
  rf_RateLimited :: bool

definition failure_of :: "Repository \<Rightarrow> string \<Rightarrow> client_error \<Rightarrow> RepositoryFailure" where
  "failure_of repo kind err =
     \<lparr>rf_Repository = repo_Slug repo, rf_Kind = kind, rf_Error = err, rf_ErrorKind = ClassifyError err,
      rf_StatusCode = (case err of APIError status _ \<Rightarrow> status | _ \<Rightarrow> 0),
      rf_RateLimited = (case err of APIError status msg \<Rightarrow> status = 429 \<or> status = 403 \<and> Contains (ToLower msg) ''rate limit'' | _ \<Rightarrow> False)\<rparr>"

record repoKindOutcome =
  rk_records :: "EvidenceRecord list"
  rk_unchangedCount :: nat
  rk_watermark :: string
  rk_isBaseline :: bool

datatype repo_kind_result = Fatal read_error | Failure RepositoryFailure | Outcome repoKindOutcome

definition item_digest :: "fetchedRecord \<Rightarrow> string" where
  "item_digest it = VersionDigest (fr_activityAt it) (ev_RawBody (fr_record it))"

definition time_After :: "gotime \<Rightarrow> gotime \<Rightarrow> bool" where
  "time_After t u \<longleftrightarrow> gt_ns t > gt_ns u"

definition seen_version :: "CursorEntry \<Rightarrow> fetchedRecord \<Rightarrow> bool" where
  "seen_version prev it \<longleftrightarrow>
     (case gm_get (ce_Seen prev) (ev_OriginID (fr_record it)) of None \<Rightarrow> [] | Some d \<Rightarrow> d) = item_digest it"

definition take_item :: "fetchedRecord \<Rightarrow> CursorEntry \<Rightarrow> CursorEntry" where
  "take_item it c =
     (let c1 = c\<lparr>ce_Seen := gm_put (ev_OriginID (fr_record it)) (item_digest it) (ce_Seen c)\<rparr> in
      if time_After (fr_activityAt it) (ce_Watermark c1) then c1\<lparr>ce_Watermark := time_UTC (fr_activityAt it)\<rparr> else c1)"

fun items_loop :: "net_url \<Rightarrow> bool \<Rightarrow> CursorEntry \<Rightarrow> EvidenceRecord list \<Rightarrow> nat \<Rightarrow> CursorEntry \<Rightarrow> fetchedRecord list \<Rightarrow> read_error + EvidenceRecord list \<times> nat \<times> CursorEntry" where
  "items_loop lib includeUnchanged prev records unchanged cur [] = Inr (records, unchanged, cur)"
| "items_loop lib includeUnchanged prev records unchanged cur (it # items) =
     (case ValidateToolResult lib (fr_record it) of
        Some e \<Rightarrow> Inl (InvalidRecord (ev_Locator (fr_record it)) e)
      | None \<Rightarrow>
          if \<not> includeUnchanged \<and> seen_version prev it then items_loop lib includeUnchanged prev records (Suc unchanged) cur items
          else items_loop lib includeUnchanged prev (records @ [fr_record it]) unchanged (take_item it cur) items)"

definition executeRepoKind ::
  "net_url \<Rightarrow> 'w Client \<Rightarrow> 's CursorStore \<Rightarrow> tool_call \<Rightarrow> string \<Rightarrow> Repository \<Rightarrow> string \<Rightarrow> string \<Rightarrow> ListOpts \<Rightarrow> bool \<Rightarrow> gotime \<Rightarrow> 's \<times> 'w \<Rightarrow>
   repo_kind_result \<times> 's \<times> 'w" where
  "executeRepoKind lib c store call runID repo repoKey kind opts includeUnchanged retrievedAt sw =
     (let s = fst sw; w = snd sw;
          found = (case cst_Run store of Some (getRun, _) \<Rightarrow> getRun runID repoKey kind s | None \<Rightarrow> cst_Get store repoKey kind s);
          prev = entry_or_empty found; hadPrev = found \<noteq> None;
          isBaseline = (\<not> hadPrev \<or> \<not> isBaselined prev);
          cur = prev\<lparr>ce_LastCheckedAt := retrievedAt\<rparr>
      in case fetchKind lib c repo kind opts retrievedAt (tc_ID call) w of
           (Inl err, w') \<Rightarrow> (Failure (failure_of repo kind err), s, w')
         | (Inr items, w') \<Rightarrow>
           (case items_loop lib includeUnchanged prev [] 0 cur items of
              Inl e \<Rightarrow> (Fatal e, s, w')
            | Inr (records, unchanged, nextCursor) \<Rightarrow>
                (let hasNew = (records \<noteq> []);
                     (err, s') = (case cst_Run store of
                        Some (_, stage) \<Rightarrow> stage runID (tc_LoopID call) repoKey kind nextCursor hasNew s
                      | None \<Rightarrow> cst_Put store repoKey kind (applyCursorUpdate prev hadPrev nextCursor hasNew retrievedAt) s)
                 in case err of
                      Some e \<Rightarrow> (Fatal (PersistCursor (repo_Slug repo) kind e), s', w')
                    | None \<Rightarrow>
                        (Outcome \<lparr>rk_records = records, rk_unchangedCount = unchanged,
                           rk_watermark = (if time_IsZero (ce_Watermark nextCursor) then [] else format_RFC3339Nano (time_UTC (ce_Watermark nextCursor))),
                           rk_isBaseline = isBaseline\<rparr>, s', w'))))"

section \<open>The tool\<close>

record read_acc =
  ra_records :: "EvidenceRecord list"
  ra_failures :: "RepositoryFailure list"
  ra_cursors :: "(string \<times> (string \<times> string) list) list"
  ra_unchanged :: nat
  ra_anyBaseline :: bool
  ra_succeeded :: nat

record ReadResult =
  rr_Repositories :: "string list"
  rr_Kinds :: "string list"
  rr_Baseline :: bool
  rr_NoChange :: bool
  rr_NewCount :: nat
  rr_UnchangedCount :: nat
  rr_Cursors :: "(string \<times> (string \<times> string) list) list"
  rr_Records :: "EvidenceRecord list"
  rr_Failures :: "RepositoryFailure list"

definition add_outcome :: "string \<Rightarrow> string \<Rightarrow> repoKindOutcome \<Rightarrow> read_acc \<Rightarrow> read_acc" where
  "add_outcome repoKey kind oc acc =
     acc\<lparr>ra_succeeded := Suc (ra_succeeded acc), ra_anyBaseline := ra_anyBaseline acc \<or> rk_isBaseline oc,
         ra_records := ra_records acc @ rk_records oc, ra_unchanged := ra_unchanged acc + rk_unchangedCount oc,
         ra_cursors := (if rk_watermark oc \<noteq> [] then put2 repoKey kind (rk_watermark oc) (ra_cursors acc) else ra_cursors acc)\<rparr>"

fun kinds_of_repo ::
  "(Repository \<Rightarrow> string \<Rightarrow> string \<Rightarrow> 's \<times> 'w \<Rightarrow> repo_kind_result \<times> 's \<times> 'w) \<Rightarrow> Repository \<Rightarrow> string list \<Rightarrow> read_acc \<Rightarrow> 's \<times> 'w \<Rightarrow> (read_error + read_acc) \<times> 's \<times> 'w" where
  "kinds_of_repo f repo [] acc sw = (Inr acc, sw)"
| "kinds_of_repo f repo (kind # kinds) acc sw =
     (case f repo (repo_key repo) kind sw of
        (Fatal e, sw') \<Rightarrow> (Inl e, sw')
      | (Failure x, sw') \<Rightarrow> kinds_of_repo f repo kinds (acc\<lparr>ra_failures := ra_failures acc @ [x]\<rparr>) sw'
      | (Outcome oc, sw') \<Rightarrow> kinds_of_repo f repo kinds (add_outcome (repo_key repo) kind oc acc) sw')"

fun repos_of_scope ::
  "(Repository \<Rightarrow> string \<Rightarrow> string \<Rightarrow> 's \<times> 'w \<Rightarrow> repo_kind_result \<times> 's \<times> 'w) \<Rightarrow> string list \<Rightarrow> Repository list \<Rightarrow> read_acc \<Rightarrow> 's \<times> 'w \<Rightarrow> (read_error + read_acc) \<times> 's \<times> 'w" where
  "repos_of_scope f kinds [] acc sw = (Inr acc, sw)"
| "repos_of_scope f kinds (repo # repos) acc sw =
     (case kinds_of_repo f repo kinds (acc\<lparr>ra_cursors := gm_put (repo_key repo) [] (ra_cursors acc)\<rparr>) sw of
        (Inl e, sw') \<Rightarrow> (Inl e, sw')
      | (Inr acc', sw') \<Rightarrow> repos_of_scope f kinds repos acc' sw')"

record ('s, 'w) GithubRead =
  gr_portfolio :: "Portfolio option"
  gr_client :: "'w Client"
  gr_cursors :: "'s CursorStore"

definition empty_acc :: read_acc where
  "empty_acc = \<lparr>ra_records = [], ra_failures = [], ra_cursors = [], ra_unchanged = 0, ra_anyBaseline = False, ra_succeeded = 0\<rparr>"

definition read_result :: "executeRequest \<Rightarrow> read_acc \<Rightarrow> ReadResult" where
  "read_result req acc =
     \<lparr>rr_Repositories = map repo_Slug (rq_repos req), rr_Kinds = rq_kinds req, rr_Baseline = ra_anyBaseline acc,
      rr_NoChange = (\<not> ra_anyBaseline acc \<and> ra_records acc = [] \<and> ra_failures acc = []),
      rr_NewCount = length (ra_records acc), rr_UnchangedCount = ra_unchanged acc, rr_Cursors = ra_cursors acc,
      rr_Records = ra_records acc, rr_Failures = ra_failures acc\<rparr>"

text \<open>An error comes with its class; of a read in which every stream failed it is the class of the first failure.\<close>

definition Execute_read ::
  "framework \<Rightarrow> net_url \<Rightarrow> ('s, 'w) GithubRead \<Rightarrow> gotime \<Rightarrow> (string \<times> any) list \<Rightarrow> tool_call \<Rightarrow> 's \<times> 'w \<Rightarrow> (read_error \<times> error_kind + ReadResult) \<times> 's \<times> 'w" where
  "Execute_read fw lib e clock args call sw =
     (if gr_portfolio e = None then (Inl (ReadDisabled, KindInvalidArgs), sw)
      else case parseExecuteRequest (gr_portfolio e) args of
        Inl err \<Rightarrow> (Inl (err, KindInvalidArgs), sw)
      | Inr req \<Rightarrow>
        (let retrievedAt = time_UTC clock; runID = resolveRunScopeKey fw (ToolCall.truncate call);
             step = (\<lambda>repo repoKey kind. executeRepoKind lib (gr_client e) (gr_cursors e) call runID repo repoKey kind
                       \<lparr>lo_State = rq_state req, lo_Limit = rq_limit req, lo_Since = no_time\<rparr> (rq_includeUnchanged req) retrievedAt)
         in case repos_of_scope step (rq_kinds req) (rq_repos req) empty_acc sw of
              (Inl err, sw') \<Rightarrow> (Inl (err, KindInternal), sw')
            | (Inr acc, sw') \<Rightarrow>
              (case ra_failures acc of
                 first # _ \<Rightarrow>
                   if ra_succeeded acc = 0 then (Inl (FirstFailure (rf_Repository first) (rf_Kind first) (rf_Error first), rf_ErrorKind first), sw')
                   else (Inr (read_result req acc), sw')
               | [] \<Rightarrow> (Inr (read_result req acc), sw'))))"

end
