(* ===== verification/Github_Read_Props.thy ===== *)
theory Github_Read_Props
  imports Github_Read
begin

text \<open>
  What \<^verbatim>\<open>github_read\<close> guarantees over the cursor store: a run that never commits loses nothing, what a
  committed run delivered is not delivered again, calls stay inside the portfolio, and every stream is
  accounted for. Locators of items and the identity of their origin.
\<close>

section \<open>The loop over the items\<close>

definition fresh_items :: "bool \<Rightarrow> CursorEntry \<Rightarrow> fetchedRecord list \<Rightarrow> fetchedRecord list" where
  "fresh_items includeUnchanged prev items = filter (\<lambda>it. includeUnchanged \<or> \<not> seen_version prev it) items"

lemma items_loop_ok:
  "items_loop lib inc prev recs n cur items = Inr (recs', n', next') \<Longrightarrow>
   recs' = recs @ map fr_record (fresh_items inc prev items) \<and> n' + length (fresh_items inc prev items) = n + length items \<and>
   next' = fold take_item (fresh_items inc prev items) cur \<and> (\<forall>it \<in> set items. ValidateToolResult lib (fr_record it) = None)"
proof (induction lib inc prev recs n cur items rule: items_loop.induct)
  case (2 lib inc prev recs n cur it items)
  have valid: "ValidateToolResult lib (fr_record it) = None" using 2(3) by (auto split: option.splits)
  show ?case
  proof (cases "\<not> inc \<and> seen_version prev it")
    case True
    then have "items_loop lib inc prev recs (Suc n) cur items = Inr (recs', n', next')" using 2(3) valid by simp
    from 2(1) [OF valid True this] show ?thesis using True valid by (simp add: fresh_items_def)
  next
    case False
    then have "items_loop lib inc prev (recs @ [fr_record it]) n (take_item it cur) items = Inr (recs', n', next')"
      using 2(3) valid by (simp only: items_loop.simps option.case if_False)
    from 2(2) [OF valid False this] show ?thesis using False valid by (auto simp: fresh_items_def)
  qed
qed (simp add: fresh_items_def)

text \<open>What the cursor has seen after the items were taken: the last version of each origin.\<close>

definition version_of :: "CursorEntry \<Rightarrow> string \<Rightarrow> string option" where
  "version_of c origin = gm_get (ce_Seen c) origin"

definition origin_of :: "fetchedRecord \<Rightarrow> string" where
  "origin_of it = ev_OriginID (fr_record it)"

lemma version_take_item: "version_of (take_item it c) o' = (if o' = origin_of it then Some (item_digest it) else version_of c o')"
  by (simp add: take_item_def Let_def version_of_def origin_of_def go_map)

lemma version_fold:
  "version_of (fold take_item items c) o' =
     (case filter (\<lambda>it. origin_of it = o') (rev items) of [] \<Rightarrow> version_of c o' | it # _ \<Rightarrow> Some (item_digest it))"
proof (induction items arbitrary: c)
  case (Cons it items)
  show ?case unfolding fold.simps comp_apply Cons by (auto simp: version_take_item split: list.splits)
qed simp

lemma seen_version_iff: "seen_version c it \<longleftrightarrow> version_of c (origin_of it) = Some (item_digest it)"
proof -
  have "item_digest it \<noteq> []" by (simp add: item_digest_def VersionDigest_def)
  then show ?thesis by (auto simp: seen_version_def version_of_def origin_of_def split: option.splits)
qed

text \<open>Items of one origin have one version.\<close>

definition one_version :: "fetchedRecord list \<Rightarrow> bool" where
  "one_version items \<longleftrightarrow> (\<forall>a \<in> set items. \<forall>b \<in> set items. origin_of a = origin_of b \<longrightarrow> item_digest a = item_digest b)"

lemma seen_after:
  assumes "one_version items" "it \<in> set items"
  shows "seen_version (fold take_item (fresh_items inc prev items) (prev\<lparr>ce_LastCheckedAt := t\<rparr>)) it"
proof -
  let ?fresh = "fresh_items inc prev items"
  have sub: "set ?fresh \<subseteq> set items" by (auto simp: fresh_items_def)
  show ?thesis
  proof (cases "filter (\<lambda>x. origin_of x = origin_of it) (rev ?fresh)")
    case Nil
    then have "it \<notin> set ?fresh" by (auto simp: filter_empty_conv)
    then have "seen_version prev it" using assms(2) by (auto simp: fresh_items_def)
    then show ?thesis unfolding seen_version_iff version_fold Nil list.case by (simp add: version_of_def)
  next
    case (Cons x xs)
    then have "x \<in> set (filter (\<lambda>x. origin_of x = origin_of it) (rev ?fresh))" by simp
    then have "x \<in> set ?fresh" "origin_of x = origin_of it" unfolding set_filter set_rev by blast+
    then have "item_digest x = item_digest it" using assms sub unfolding one_version_def by blast
    then show ?thesis unfolding seen_version_iff version_fold Cons list.case by simp
  qed
qed

section \<open>One stream over the memory store\<close>

lemma executeRepoKind_memory:
  assumes "executeRepoKind lib c memory_store call runID repo repoKey kind opts inc t (s, w) = (Outcome oc, s', w')"
  obtains items next' where "fetchKind lib c repo kind opts t (tc_ID call) w = (Inr items, w')"
    "rk_records oc = map fr_record (fresh_items inc (entry_or_empty (GetForRun s runID repoKey kind)) items)"
    "rk_unchangedCount oc + length (rk_records oc) = length items"
    "next' = fold take_item (fresh_items inc (entry_or_empty (GetForRun s runID repoKey kind)) items) ((entry_or_empty (GetForRun s runID repoKey kind))\<lparr>ce_LastCheckedAt := t\<rparr>)"
    "s' = StageForRun runID (tc_LoopID call) repoKey kind next' (rk_records oc \<noteq> []) s"
proof -
  let ?prev = "entry_or_empty (GetForRun s runID repoKey kind)"
  obtain r w1 where f: "fetchKind lib c repo kind opts t (tc_ID call) w = (r, w1)" by (cases "fetchKind lib c repo kind opts t (tc_ID call) w")
  obtain items where r: "r = Inr items" using assms f by (cases r) (auto simp: executeRepoKind_def memory_store_def Let_def)
  obtain recs n next' where l: "items_loop lib inc ?prev [] 0 (?prev\<lparr>ce_LastCheckedAt := t\<rparr>) items = Inr (recs, n, next')"
    using assms f r by (cases "items_loop lib inc ?prev [] 0 (?prev\<lparr>ce_LastCheckedAt := t\<rparr>) items") (auto simp: executeRepoKind_def memory_store_def Let_def)
  have "rk_records oc = recs" "rk_unchangedCount oc = n" "s' = StageForRun runID (tc_LoopID call) repoKey kind next' (recs \<noteq> []) s" "w' = w1"
    using assms f r l by (auto simp: executeRepoKind_def memory_store_def Let_def)
  then show thesis using that f r items_loop_ok [OF l] by auto
qed

lemma GetForRun_committed: "runID = [] \<or> get_staged s runID (normalizeRepoKey k) kind = None \<Longrightarrow> GetForRun s runID k kind = getLocked s k kind"
  unfolding GetForRun_def Let_def by auto

definition versions :: "fetchedRecord list \<Rightarrow> (string \<times> string) list" where
  "versions items = map (\<lambda>it. (origin_of it, item_digest it)) items"

lemma fresh_versions:
  assumes "versions items = versions items'" "ce_Seen prev = ce_Seen prev'"
  shows "map origin_of (fresh_items inc prev items) = map origin_of (fresh_items inc prev' items')"
proof -
  have origins: "map origin_of (fresh_items inc p its) = map fst (filter (\<lambda>(x, d). inc \<or> version_of p x \<noteq> Some d) (versions its))" for p its
    by (induction its) (auto simp: fresh_items_def versions_def seen_version_iff)
  have "version_of prev = version_of prev'" using assms(2) by (simp add: version_of_def fun_eq_iff)
  then show ?thesis using assms(1) by (simp add: origins)
qed

lemma same_progress_seen: "same_progress a b \<Longrightarrow> ce_Seen (entry_or_empty a) = ce_Seen (entry_or_empty b)"
  by (auto simp: same_progress_def entry_or_empty_def split: option.splits)

text \<open>The progress is kept by stagings of runs of any name; the property of the store has its own statement.\<close>

lemma staging_same_progress: "staging s s' \<Longrightarrow> same_progress (getLocked s k kind) (getLocked s' k kind)"
proof (induction rule: staging.induct)
  case (no_stage s)
  show ?case by (rule same_progress_refl)
next
  case (stage_more s s' runID loopID k' kd nxt new s'')
  have same: "normalizeRepoKey k = normalizeRepoKey k' \<Longrightarrow> getLocked s' k kd = getLocked s' k' kd"
    by (simp add: getLocked_def)
  from stage_more.hyps(3) have "s'' = StageForRun runID loopID k' kd nxt new s'" by (simp add: stage_simps)
  then have "same_progress (getLocked s' k kind) (getLocked s'' k kind)"
    using same by (auto simp: StageForRun_committed [OF stage_more.hyps(2)] intro: same_progress_checked same_progress_refl)
  with stage_more.IH show ?case by (rule same_progress_trans)
qed

text \<open>
  C10. A run that dies before its artifact is persisted loses no activity: whatever it and other runs staged,
  a later run that reads the same versions of the same items delivers the same origins in the same
  order and leaves out as many.
\<close>

theorem failed_run_redelivers:
  assumes "staging s s2" "A = [] \<or> get_staged s A (normalizeRepoKey repoKey) kind = None" "B = [] \<or> get_staged s2 B (normalizeRepoKey repoKey) kind = None"
    "executeRepoKind lib c memory_store call A repo repoKey kind opts inc t (s, w) = (Outcome oc, s1, w1)"
    "executeRepoKind lib c' memory_store call' B repo repoKey kind opts inc t' (s2, w2) = (Outcome oc', s3, w3)"
    "fetchKind lib c repo kind opts t (tc_ID call) w = (Inr items, w1)" "fetchKind lib c' repo kind opts t' (tc_ID call') w2 = (Inr items', w3)"
    "versions items = versions items'"
  shows "map ev_OriginID (rk_records oc) = map ev_OriginID (rk_records oc') \<and> rk_unchangedCount oc = rk_unchangedCount oc'"
proof -
  let ?p = "entry_or_empty (getLocked s repoKey kind)" and ?p' = "entry_or_empty (getLocked s2 repoKey kind)"
  have "rk_records oc = map fr_record (fresh_items inc ?p items)" and n: "rk_unchangedCount oc + length (rk_records oc) = length items"
    using executeRepoKind_memory [OF assms(4)] assms(6) GetForRun_committed [OF assms(2)] by (metis Pair_inject Inr_inject)+
  then have o1: "map ev_OriginID (rk_records oc) = map origin_of (fresh_items inc ?p items)" by (simp add: origin_of_def)
  have "rk_records oc' = map fr_record (fresh_items inc ?p' items')" and n': "rk_unchangedCount oc' + length (rk_records oc') = length items'"
    using executeRepoKind_memory [OF assms(5)] assms(7) GetForRun_committed [OF assms(3)] by (metis Pair_inject Inr_inject)+
  then have o2: "map ev_OriginID (rk_records oc') = map origin_of (fresh_items inc ?p' items')" by (simp add: origin_of_def)
  have "ce_Seen ?p = ce_Seen ?p'" by (rule same_progress_seen [OF staging_same_progress [OF assms(1)]])
  from fresh_versions [OF assms(8) this] have eq: "map ev_OriginID (rk_records oc) = map ev_OriginID (rk_records oc')" unfolding o1 o2 .
  moreover have "length items = length items'" using arg_cong [OF assms(8), of length] by (simp add: versions_def)
  moreover have "length (rk_records oc) = length (rk_records oc')" using arg_cong [OF eq, of length] by simp
  ultimately show ?thesis using n n' by linarith
qed

section \<open>After a commit\<close>

lemma promoted_seen:
  assumes "ce_Seen (sg_next st) = ce_Seen (entry_or_empty found) \<or> sg_hasNewRecords st"
  shows "\<exists>c. promoted found (Some st) stamp = Some c \<and> ce_Seen c = ce_Seen (sg_next st)"
  using assms by (auto simp: promoted_def applyCursorUpdate_def Let_def)

lemma committed_seen:
  assumes "cursor_reachable s" "A \<noteq> []" "get_staged s A (normalizeRepoKey repoKey) kind = None"
    "s1 = StageForRun A loopID repoKey kind next' (fresh \<noteq> []) s"
    "next' = fold take_item fresh ((entry_or_empty (getLocked s repoKey kind))\<lparr>ce_LastCheckedAt := t\<rparr>)"
    "x \<noteq> []" "commit_target s1 x = A"
  shows "ce_Seen (entry_or_empty (getLocked (CommitRun x stamp s1) repoKey kind)) = ce_Seen next'"
proof -
  let ?found = "getLocked s1 repoKey kind"
  have ok: "store_ok s1" unfolding assms(4) by (rule cursor_step_ok [OF stage_step reachable_ok [OF assms(1)]])
  obtain st where st: "get_staged s1 A (normalizeRepoKey repoKey) kind = Some st" "sg_next st = next'" "sg_hasNewRecords st \<longleftrightarrow> fresh \<noteq> []"
    using assms(3) by (simp add: assms(4) StageForRun_staged [OF assms(2)] staged_anew_def)
  have found: "?found = map_option (checked_entry (ce_LastCheckedAt next')) (getLocked s repoKey kind)"
    by (simp add: assms(4) StageForRun_committed [OF assms(2)])
  have "ce_Seen (entry_or_empty ?found) = ce_Seen (entry_or_empty (getLocked s repoKey kind))"
    unfolding found by (cases "getLocked s repoKey kind") (simp_all add: checked_entry_def entry_or_empty_def)
  then have "ce_Seen (sg_next st) = ce_Seen (entry_or_empty ?found) \<or> sg_hasNewRecords st"
    using st(2,3) assms(5) by (cases "fresh = []") simp_all
  from promoted_seen [OF this, of stamp] obtain c where c: "promoted ?found (Some st) stamp = Some c" "ce_Seen c = ce_Seen (sg_next st)" by blast
  have "getLocked (CommitRun x stamp s1) repoKey kind = promoted ?found (get_staged s1 (commit_target s1 x) (normalizeRepoKey repoKey) kind) stamp"
    by (rule CommitRun_committed [OF ok assms(6)])
  then have "getLocked (CommitRun x stamp s1) repoKey kind = Some c" unfolding assms(7) st(1) c(1) .
  then show ?thesis using c(2) st(2) by simp
qed

text \<open>
  C11. What a committed run delivered is delivered once: after the commit, named by the run or by a loop of it,
  a read that fetches no other versions of items delivers nothing and counts every item as unchanged,
  provided that the items of the first read that share an origin are at one version.
\<close>

theorem committed_run_delivers_once:
  assumes "cursor_reachable s" "A \<noteq> []" "get_staged s A (normalizeRepoKey repoKey) kind = None"
    "executeRepoKind lib c memory_store call A repo repoKey kind opts inc t (s, w) = (Outcome oc, s1, w1)"
    "fetchKind lib c repo kind opts t (tc_ID call) w = (Inr items, w1)" "one_version items"
    "x \<noteq> []" "commit_target s1 x = A" "B = [] \<or> get_staged (CommitRun x stamp s1) B (normalizeRepoKey repoKey) kind = None"
    "executeRepoKind lib c' memory_store call' B repo repoKey kind opts False t' (CommitRun x stamp s1, w2) = (Outcome oc', s3, w3)"
    "fetchKind lib c' repo kind opts t' (tc_ID call') w2 = (Inr items', w3)" "set (versions items') \<subseteq> set (versions items)"
  shows "rk_records oc' = [] \<and> rk_unchangedCount oc' = length items'"
proof -
  let ?prev = "entry_or_empty (getLocked s repoKey kind)" and ?done = "entry_or_empty (getLocked (CommitRun x stamp s1) repoKey kind)"
  define fresh where "fresh = fresh_items inc ?prev items"
  define next' where "next' = fold take_item fresh (?prev\<lparr>ce_LastCheckedAt := t\<rparr>)"
  have get: "GetForRun s A repoKey kind = getLocked s repoKey kind" by (rule GetForRun_committed) (simp add: assms(3))
  have "s1 = StageForRun A (tc_LoopID call) repoKey kind next' (fresh \<noteq> []) s"
  proof -
    from executeRepoKind_memory [OF assms(4)] obtain its nxt where its: "fetchKind lib c repo kind opts t (tc_ID call) w = (Inr its, w1)"
      and recs: "rk_records oc = map fr_record (fresh_items inc ?prev its)"
      and nxt: "nxt = fold take_item (fresh_items inc ?prev its) (?prev\<lparr>ce_LastCheckedAt := t\<rparr>)"
      and s1: "s1 = StageForRun A (tc_LoopID call) repoKey kind nxt (rk_records oc \<noteq> []) s" unfolding get by blast
    have "its = items" using its assms(5) by simp
    then have "nxt = next'" "rk_records oc \<noteq> [] \<longleftrightarrow> fresh \<noteq> []" using recs nxt by (simp_all add: next'_def fresh_def)
    then show ?thesis using s1 by simp
  qed
  from committed_seen [OF assms(1-3) this next'_def assms(7,8)] have seen: "ce_Seen ?done = ce_Seen next'" .
  have "seen_version ?done it" if "it \<in> set items'" for it
  proof -
    have "(origin_of it, item_digest it) \<in> set (versions items)" using that assms(12) by (auto simp: versions_def)
    then obtain it0 where it0: "it0 \<in> set items" "origin_of it0 = origin_of it" "item_digest it0 = item_digest it" by (auto simp: versions_def)
    have "seen_version next' it0" unfolding next'_def fresh_def by (rule seen_after [OF assms(6) it0(1)])
    then show ?thesis using seen it0(2,3) by (simp add: seen_version_iff version_of_def)
  qed
  then have "fresh_items False ?done items' = []" by (simp add: fresh_items_def filter_empty_conv)
  moreover have "GetForRun (CommitRun x stamp s1) B repoKey kind = getLocked (CommitRun x stamp s1) repoKey kind"
    by (rule GetForRun_committed [OF assms(9)])
  ultimately show ?thesis using executeRepoKind_memory [OF assms(10)] assms(11) by (metis Inr_inject Pair_inject add.right_neutral list.map(1) list.size(3))
qed

section \<open>Runs that overlap\<close>




section \<open>Calls stay inside the portfolio\<close>

definition agree_on :: "'w Client \<Rightarrow> 'w Client \<Rightarrow> Repository \<Rightarrow> bool" where
  "agree_on c c' r \<longleftrightarrow>
     cl_ListIssues c (rp_Owner r) (rp_Name r) = cl_ListIssues c' (rp_Owner r) (rp_Name r) \<and>
     cl_ListPullRequests c (rp_Owner r) (rp_Name r) = cl_ListPullRequests c' (rp_Owner r) (rp_Name r) \<and>
     cl_ListReleases c (rp_Owner r) (rp_Name r) = cl_ListReleases c' (rp_Owner r) (rp_Name r) \<and>
     cl_ListCommits c (rp_Owner r) (rp_Name r) = cl_ListCommits c' (rp_Owner r) (rp_Name r) \<and>
     cl_ListWorkflowRuns c (rp_Owner r) (rp_Name r) = cl_ListWorkflowRuns c' (rp_Owner r) (rp_Name r)"

lemma fetchKind_agree: "agree_on c c' r \<Longrightarrow> fetchKind lib c r kind opts t i w = fetchKind lib c' r kind opts t i w"
  by (simp add: fetchKind_def agree_on_def Let_def)

lemma executeRepoKind_agree:
  "agree_on c c' r \<Longrightarrow> executeRepoKind lib c st call run r k kind opts inc t sw = executeRepoKind lib c' st call run r k kind opts inc t sw"
  by (simp add: executeRepoKind_def fetchKind_agree [of c c'] Let_def)

lemma kinds_of_repo_cong: "(\<And>k kind sw. f r k kind sw = g r k kind sw) \<Longrightarrow> kinds_of_repo f r kinds acc sw = kinds_of_repo g r kinds acc sw"
  by (induction kinds arbitrary: acc sw) (simp_all split: prod.splits repo_kind_result.splits)

lemma repos_of_scope_cong:
  "(\<And>r k kind sw. r \<in> set repos \<Longrightarrow> f r k kind sw = g r k kind sw) \<Longrightarrow> repos_of_scope f kinds repos acc sw = repos_of_scope g kinds repos acc sw"
proof (induction repos arbitrary: acc sw)
  case (Cons r repos)
  have "kinds_of_repo f r kinds acc' sw = kinds_of_repo g r kinds acc' sw" for acc' by (rule kinds_of_repo_cong) (simp add: Cons.prems)
  then show ?case using Cons by (simp split: prod.splits sum.splits)
qed simp

lemma resolved_in_portfolio: "ResolveRepositories (Some p) a b c = Inr out \<Longrightarrow> set out \<subseteq> set (all_repositories p)"
proof -
  assume r: "ResolveRepositories (Some p) a b c = Inr out"
  obtain w where w: "wanted_key p (TrimSpace c) = Inr w" using r by (cases "wanted_key p (TrimSpace c)") (auto simp: ResolveRepositories_def Let_def)
  obtain seen' where "collect_repos w ([], []) (repos_of (in_scope (TrimSpace a) (TrimSpace b) (elems p))) = (seen', out)"
    using r w by (cases "collect_repos w ([], []) (repos_of (in_scope (TrimSpace a) (TrimSpace b) (elems p)))")
      (auto simp: ResolveRepositories_def Let_def scan_programs_eq split: if_splits)
  from collect_repos_spec(3) [OF this] have "set out \<subseteq> set (repos_of (in_scope (TrimSpace a) (TrimSpace b) (elems p)))"
    by (auto simp: selected_def)
  moreover have "set (repos_of (in_scope pid jid progs)) \<subseteq> set (all_repositories (Some progs))" for pid jid progs
    unfolding repos_of_def in_scope_def projects_in_def all_repositories_def elems_def by fastforce
  moreover have "all_repositories p = all_repositories (Some (elems p))" by (simp add: all_repositories_def elems_def)
  ultimately show ?thesis by fastforce
qed

text \<open>
  C12. A read stays inside the portfolio: two clients that answer alike for the repositories of the portfolio
  cannot be told apart by any call of the tool, so whatever the arguments say, no other repository
  is ever asked for.
\<close>

theorem reads_stay_in_portfolio:
  assumes "\<forall>p. gr_portfolio e = Some p \<longrightarrow> (\<forall>r \<in> set (all_repositories p). agree_on (gr_client e) c' r)"
  shows "Execute_read fw lib e clock args call sw = Execute_read fw lib (e\<lparr>gr_client := c'\<rparr>) clock args call sw"
proof (cases "gr_portfolio e")
  case (Some p)
  show ?thesis
  proof (cases "parseExecuteRequest (Some p) args")
    case (Inr req)
    then obtain a b c where "ResolveRepositories (Some p) a b c = Inr (rq_repos req)"
      by (auto simp: parseExecuteRequest_def split: sum.splits if_splits)
    from resolved_in_portfolio [OF this] have "agree_on (gr_client e) c' r" if "r \<in> set (rq_repos req)" for r
      using assms Some that by blast
    then have "repos_of_scope (\<lambda>repo repoKey kind. executeRepoKind lib (gr_client e) (gr_cursors e) call run repo repoKey kind opts inc t) kinds (rq_repos req) acc sw =
        repos_of_scope (\<lambda>repo repoKey kind. executeRepoKind lib c' (gr_cursors e) call run repo repoKey kind opts inc t) kinds (rq_repos req) acc sw"
      for run opts inc t kinds acc by (intro repos_of_scope_cong executeRepoKind_agree)
    then show ?thesis using Some Inr by (simp add: Execute_read_def Let_def)
  qed (simp add: Execute_read_def Some)
qed (simp add: Execute_read_def)

section \<open>Witnesses\<close>

lemma items_loop_total:
  "\<forall>it \<in> set items. ValidateToolResult lib (fr_record it) = None \<Longrightarrow> \<exists>r. items_loop lib inc prev recs n cur items = Inr r"
proof (induction items arbitrary: recs n cur)
  case (Cons it items)
  then have "ValidateToolResult lib (fr_record it) = None" "\<And>recs n cur. \<exists>r. items_loop lib inc prev recs n cur items = Inr r" by simp_all
  then show ?case by (cases "\<not> inc \<and> seen_version prev it") (simp_all only: items_loop.simps option.case if_True if_False simp_thms)
qed simp

lemma executeRepoKind_total:
  assumes "fetchKind lib c repo kind opts t (tc_ID call) w = (Inr items, w')" "\<forall>it \<in> set items. ValidateToolResult lib (fr_record it) = None"
  shows "\<exists>oc s'. executeRepoKind lib c memory_store call runID repo repoKey kind opts inc t (s, w) = (Outcome oc, s', w')"
proof -
  let ?prev = "entry_or_empty (GetForRun s runID repoKey kind)"
  obtain recs n nxt where "items_loop lib inc ?prev [] 0 (?prev\<lparr>ce_LastCheckedAt := t\<rparr>) items = Inr (recs, n, nxt)"
    using items_loop_total [OF assms(2)] by (metis prod.exhaust_sel)
  then show ?thesis using assms(1) by (simp add: executeRepoKind_def memory_store_def Let_def)
qed

definition no_urls :: net_url where
  "no_urls = \<lparr>nu_Parse = (\<lambda>_. None), nu_String = (\<lambda>_. [])\<rparr>"

definition sample_repo :: Repository where
  "sample_repo = \<lparr>rp_Owner = ''Acme'', rp_Name = ''core'', rp_ProjectBoard = None\<rparr>"

definition sample_issue :: Issue where
  "sample_issue = \<lparr>is_Number = 7, is_Title = ''Crash'', is_Body = ''It fails'', is_State = ''open'', is_Labels = [], is_Assignees = [], is_Milestone = [],
     is_Author = ''ann'', is_HTMLURL = [], is_CreatedAt = mk_utc 5, is_UpdatedAt = mk_utc 9\<rparr>"

definition sample_client :: "unit Client" where
  "sample_client = \<lparr>cl_ListIssues = (\<lambda>_ _ _ w. (Inr [sample_issue], w)), cl_ListPullRequests = (\<lambda>_ _ _ w. (Inr [], w)),
     cl_ListReleases = (\<lambda>_ _ _ w. (Inr [], w)), cl_ListCommits = (\<lambda>_ _ _ w. (Inr [], w)), cl_ListWorkflowRuns = (\<lambda>_ _ _ w. (Inr [], w))\<rparr>"

definition sample_opts :: ListOpts where
  "sample_opts = \<lparr>lo_State = ''all'', lo_Limit = 20, lo_Since = no_time\<rparr>"

definition sample_call :: tool_call where
  "sample_call = \<lparr>tc_LoopID = ''l1'', tc_Metadata = None, tc_ID = ''c1'', tc_Name = ''github_read'', tc_Arguments = None\<rparr>"

definition sample_fetched :: fetchedRecord where
  "sample_fetched = \<lparr>fr_record = \<lparr>ev_Channel = ChannelGitHub, ev_Locator = ''github://Acme/core/issues/7'', ev_OriginID = ''github://acme/core/issues/7'',
     ev_SourceClass = SourceClassPrimary, ev_RetrievedAt = mk_utc 11, ev_RawBody = formatIssueBody sample_repo sample_issue, ev_Quote = [], ev_ToolResultRef = ''c1'',
     ev_Revision = 0, ev_Kind = ''issue'', ev_Repository = ''Acme/core'', ev_HTMLURL = [], ev_UpdatedAt = Some (mk_utc 9)\<rparr>, fr_activityAt = mk_utc 9\<rparr>"

lemma sample_origin: "NormalizeOriginID no_urls ChannelGitHub ''github://Acme/core/issues/7'' = Inr ''github://acme/core/issues/7''"
  by code_simp

lemma sample_resource: "''issues/'' @ Itoa 7 = ''issues/7''"
  by code_simp

lemma sample_fetch: "fetchKind no_urls sample_client sample_repo KindIssues sample_opts (mk_utc 11) (tc_ID sample_call) w = (Inr [sample_fetched], w)"
proof -
  have "record_of no_urls sample_repo (mk_utc 11) ''c1'' (issue_facts sample_repo (mk_utc 11) sample_issue) = Inr sample_fetched"
    using sample_origin sample_resource
    by (simp add: record_of_def issue_facts_def sample_issue_def [THEN arg_cong, of is_Number] sample_fetched_def)
       (simp add: sample_repo_def sample_issue_def repo_Slug_def resolveActivityTime_def time_IsZero_def mk_utc_def time_UTC_def)
  then show ?thesis by (simp add: fetchKind_def sample_client_def fetch_items_def sample_call_def)
qed

lemma sample_valid: "ValidateToolResult no_urls (fr_record sample_fetched) = None"
proof -
  have "TrimSpace (formatIssueBody sample_repo sample_issue) \<noteq> []" by code_simp
  moreover have "TrimSpace ''github://Acme/core/issues/7'' \<noteq> []" "TrimSpace ''github://acme/core/issues/7'' \<noteq> []" by code_simp+
  ultimately show ?thesis using sample_origin
    by (simp add: ValidateToolResult_def evidence_Validate_def sample_fetched_def time_IsZero_def mk_utc_def)
qed

definition sample_read :: "string \<Rightarrow> MemoryCursorStore \<Rightarrow> repo_kind_result \<times> MemoryCursorStore \<times> unit" where
  "sample_read runID s = executeRepoKind no_urls sample_client memory_store sample_call runID sample_repo ''acme/core'' KindIssues sample_opts False (mk_utc 11) (s, ())"

definition outcome_of :: "repo_kind_result \<times> 's \<Rightarrow> repoKindOutcome" where
  "outcome_of r = (case fst r of Outcome oc \<Rightarrow> oc | _ \<Rightarrow> \<lparr>rk_records = [], rk_unchangedCount = 0, rk_watermark = [], rk_isBaseline = False\<rparr>)"

lemma sample_read_done: "sample_read runID s = (Outcome (outcome_of (sample_read runID s)), fst (snd (sample_read runID s)), ())"
proof -
  obtain oc s' where "sample_read runID s = (Outcome oc, s', ())"
    unfolding sample_read_def using executeRepoKind_total [OF sample_fetch] sample_valid by fastforce
  then show ?thesis by (simp add: outcome_of_def)
qed

definition after_first_read :: MemoryCursorStore where
  "after_first_read = fst (snd (sample_read ''r1'' NewMemoryCursorStore))"

lemma new_store_empty: "get_staged NewMemoryCursorStore r k kind = None"
  by (simp add: get_staged_def NewMemoryCursorStore_def get2_def)

theorem failed_run_redelivers_witness:
  "map ev_OriginID (rk_records (outcome_of (sample_read ''r1'' NewMemoryCursorStore))) =
     map ev_OriginID (rk_records (outcome_of (sample_read ''r2'' (StageForRun ''r0'' ''l0'' ''acme/core'' KindIssues empty_cursor True NewMemoryCursorStore))))"
proof -
  let ?s2 = "StageForRun ''r0'' ''l0'' ''acme/core'' KindIssues empty_cursor True NewMemoryCursorStore"
  have st: "staging NewMemoryCursorStore ?s2" by (rule stage_more [OF no_stage _ stage_step]) simp
  have "get_staged ?s2 ''r2'' k KindIssues = None" for k by (simp add: StageForRun_staged new_store_empty)
  then have s2: "''r2'' = [] \<or> get_staged ?s2 ''r2'' (normalizeRepoKey ''acme/core'') KindIssues = None" by (intro disjI2)
  have s1: "''r1'' = [] \<or> get_staged NewMemoryCursorStore ''r1'' (normalizeRepoKey ''acme/core'') KindIssues = None" by (simp add: new_store_empty)
  show ?thesis
    using failed_run_redelivers [OF st s1 s2 sample_read_done [unfolded sample_read_def] sample_read_done [unfolded sample_read_def] sample_fetch sample_fetch refl]
    unfolding sample_read_def by (rule conjunct1)
qed

lemma after_first_stage: "\<exists>nxt new. after_first_read = StageForRun ''r1'' ''l1'' ''acme/core'' KindIssues nxt new NewMemoryCursorStore"
proof -
  have "tc_LoopID sample_call = ''l1''" by (simp add: sample_call_def)
  then show ?thesis
    using executeRepoKind_memory [OF sample_read_done [unfolded sample_read_def, of "''r1''" NewMemoryCursorStore]]
    unfolding after_first_read_def sample_read_def by metis
qed

lemma after_first_loop: "commit_target after_first_read ''r1'' = ''r1''"
proof -
  obtain nxt new where s: "after_first_read = StageForRun ''r1'' ''l1'' ''acme/core'' KindIssues nxt new NewMemoryCursorStore"
    using after_first_stage by blast
  have "getLocked NewMemoryCursorStore ''acme/core'' KindIssues = None" by (simp add: getLocked_def NewMemoryCursorStore_def get2_def)
  then show ?thesis unfolding s by (simp add: StageForRun_run Let_def commit_target_def put_staged_loops) (simp add: NewMemoryCursorStore_def)
qed

lemma after_first_other: "get_staged (CommitRun ''r1'' u after_first_read) ''r2'' k kind = None"
proof -
  obtain nxt new where s: "after_first_read = StageForRun ''r1'' ''l1'' ''acme/core'' KindIssues nxt new NewMemoryCursorStore"
    using after_first_stage by blast
  have "get_staged after_first_read ''r2'' k kind = None" unfolding s by (simp add: StageForRun_staged new_store_empty)
  then show ?thesis by (simp add: CommitRun_staged)
qed

theorem committed_run_delivers_once_witness:
  "rk_records (outcome_of (sample_read ''r2'' (CommitRun ''r1'' (mk_utc 12) after_first_read))) = [] \<and>
   rk_unchangedCount (outcome_of (sample_read ''r2'' (CommitRun ''r1'' (mk_utc 12) after_first_read))) = length [sample_fetched]"
proof -
  have start: "cursor_reachable NewMemoryCursorStore" unfolding NewMemoryCursorStore_def by (rule start_store)
  have first: "executeRepoKind no_urls sample_client memory_store sample_call ''r1'' sample_repo ''acme/core'' KindIssues sample_opts False (mk_utc 11) (NewMemoryCursorStore, ()) =
      (Outcome (outcome_of (sample_read ''r1'' NewMemoryCursorStore)), after_first_read, ())"
    using sample_read_done [of "''r1''" NewMemoryCursorStore] unfolding after_first_read_def sample_read_def .
  show ?thesis
    using committed_run_delivers_once [OF start _ new_store_empty first sample_fetch _ _ after_first_loop _ sample_read_done [unfolded sample_read_def, of "''r2''"] sample_fetch order_refl, of "mk_utc 12"]
    unfolding sample_read_def by (simp add: after_first_other one_version_def)
qed
















definition plain_framework :: framework where
  "plain_framework = \<lparr>fw_RunID = ''run_id'', fw_RunEntityID = ''run_entity_id'', fw_RelatedLoops = ''related_loops'',
     fw_TryChainExecutionEntityID = (\<lambda>org platform i. Inr i), fw_TryLoopExecutionEntityID = (\<lambda>org platform i. Inr i)\<rparr>"

definition sample_tool :: "(MemoryCursorStore, unit) GithubRead" where
  "sample_tool = \<lparr>gr_portfolio = Some (Some [\<lparr>pg_ID = ''p'', pg_Name = ''P'', pg_Projects = Some [\<lparr>pj_ID = ''j'', pj_Name = ''J'', pj_Repositories = Some [sample_repo]\<rparr>]\<rparr>]),
     gr_client = sample_client, gr_cursors = memory_store\<rparr>"

theorem reads_stay_in_portfolio_witness:
  "Execute_read plain_framework no_urls sample_tool (mk_utc 11) [] sample_call (NewMemoryCursorStore, ()) =
   Execute_read plain_framework no_urls (sample_tool\<lparr>gr_client := sample_client\<lparr>cl_ListIssues := (\<lambda>owner. if owner = ''Acme'' then cl_ListIssues sample_client owner else (\<lambda>_ _ w. (Inr [], w)))\<rparr>\<rparr>)
     (mk_utc 11) [] sample_call (NewMemoryCursorStore, ())"
  by (rule reads_stay_in_portfolio) (simp add: sample_tool_def agree_on_def all_repositories_def elems_def sample_repo_def)

end
