(* ===== verification/Github_Origins.thy ===== *)
theory Github_Origins
  imports Github_Read
begin

text \<open>
  The origins of items: the locator an item gets decides the identity under which its versions are
  remembered. Items of repositories and resources without reserved characters are kept apart exactly;
  a release tag with a number sign is not.
\<close>

section \<open>Plain locators\<close>

definition plain_name :: "string \<Rightarrow> bool" where
  "plain_name s \<longleftrightarrow> TrimSpace s = s \<and> s \<noteq> [] \<and> CHR ''/'' \<notin> set s \<and> CHR ''#'' \<notin> set s \<and> CHR ''?'' \<notin> set s"

definition plain_resource :: "string \<Rightarrow> bool" where
  "plain_resource s \<longleftrightarrow> s \<noteq> [] \<and> CHR ''#'' \<notin> set s \<and> CHR ''?'' \<notin> set s \<and> hd s \<noteq> CHR ''/'' \<and> last s \<noteq> CHR ''/'' \<and> \<not> is_space (hd s) \<and> \<not> is_space (last s)"

lemma lower_no_slash: "CHR ''/'' \<in> set (ToLower s) \<longleftrightarrow> CHR ''/'' \<in> set s"
proof -
  have "lower_byte c = CHR ''/'' \<longleftrightarrow> c = CHR ''/''" for c
  proof (cases "is_upper_alpha c")
    case True
    then have "byte_val (lower_byte c) \<noteq> 47" "byte_val c \<noteq> 47" by (auto simp: byte_val_lower is_upper_alpha_def)
    moreover have "byte_val (CHR ''/'') = 47" by (simp add: byte_val_def)
    ultimately show ?thesis by metis
  qed (simp add: lower_byte_def)
  then have "CHR ''/'' \<in> lower_byte ` set s \<longleftrightarrow> CHR ''/'' \<in> set s" by (metis imageE imageI)
  then show ?thesis unfolding ToLower_def set_map .
qed

lemma TrimSpace_ends: "s \<noteq> [] \<Longrightarrow> \<not> is_space (hd s) \<Longrightarrow> \<not> is_space (last s) \<Longrightarrow> TrimSpace s = s"
  by (rule TrimSpace_id) simp_all

lemma TrimChar_ends: "s \<noteq> [] \<Longrightarrow> hd s \<noteq> c \<Longrightarrow> last s \<noteq> c \<Longrightarrow> TrimChar s c = s"
proof -
  assume a: "s \<noteq> []" "hd s \<noteq> c" "last s \<noteq> c"
  have front: "dropWhile (\<lambda>d. d = c) xs = xs" if "xs \<noteq> []" "hd xs \<noteq> c" for xs
    using that by (cases xs) auto
  have "dropWhile (\<lambda>d. d = c) (rev s) = rev s" using a by (intro front) (simp_all add: hd_rev)
  then show ?thesis using front [OF a(1,2)] by (simp add: TrimChar_def TrimRightChar_def)
qed

lemma before_id: "c \<notin> set s \<Longrightarrow> before c s = s"
  by (simp add: before_def takeWhile_eq_all_conv) blast

lemma after_first_none: "c \<notin> set s \<Longrightarrow> after_first c s = []"
  by (simp add: after_first_def CutAt_def)

lemma github_scheme: "github_rest (''github://'' @ s) = Some s"
proof -
  have "HasPrefix (ToLower (''github://'' @ s)) ''github://''"
    by (simp add: ToLower_append HasPrefix_iff) (simp add: ToLower_def lower_byte_def is_upper_alpha_def byte_val_def prefix_def)
  then show ?thesis by (simp add: github_rest_def Let_def)
qed

lemma plain_parts:
  assumes "plain_name owner" "plain_name name" "plain_resource res" "before CHR ''#'' loc = owner @ ''/'' @ name @ ''/'' @ res"
  shows "normalizeGitHubOrigin (''github://'' @ loc) = Inr (''github://'' @ ToLower owner @ ''/'' @ ToLower name @ ''/'' @ res)"
proof -
  let ?rest = "owner @ ''/'' @ name @ ''/'' @ res"
  note d = assms(1-3) [unfolded plain_name_def plain_resource_def]
  have plain: "CHR ''?'' \<notin> set ?rest" using d by auto
  have ends: "TrimChar ?rest CHR ''/'' = ?rest"
  proof (rule TrimChar_ends)
    have "hd owner \<in> set owner" "hd ?rest = hd owner" using d(1) by simp_all
    then show "hd ?rest \<noteq> CHR ''/''" using d(1) by metis
  qed (use d in auto)
  have split: "SplitN ?rest CHR ''/'' 3 = [owner, name, res]"
    using d by (simp add: eval_nat_numeral)
  have resource: "TrimChar res CHR ''/'' = res" "TrimSpace res = res" by (rule TrimChar_ends TrimSpace_ends; use d in simp)+
  show ?thesis
    unfolding normalizeGitHubOrigin_def github_scheme option.case Let_def assms(4) before_id [OF plain] after_first_none [OF plain] ends split
    using d resource by simp
qed

lemma github_origin:
  assumes "loc \<noteq> []" "\<not> is_space (last loc)"
  shows "NormalizeOriginID lib ChannelGitHub (''github://'' @ loc) = normalizeGitHubOrigin (''github://'' @ loc)"
proof -
  have "TrimSpace (''github://'' @ loc) = ''github://'' @ loc"
    by (rule TrimSpace_ends) (use assms in \<open>simp_all add: is_space_def byte_val_def\<close>)
  then show ?thesis by (simp add: NormalizeOriginID_def Let_def)
qed

lemma plain_origin:
  assumes "plain_name owner" "plain_name name" "plain_resource res"
  shows "NormalizeOriginID lib ChannelGitHub (''github://'' @ owner @ ''/'' @ name @ ''/'' @ res) =
     Inr (''github://'' @ ToLower owner @ ''/'' @ ToLower name @ ''/'' @ res)"
proof -
  have "before CHR ''#'' (owner @ ''/'' @ name @ ''/'' @ res) = owner @ ''/'' @ name @ ''/'' @ res"
    by (rule before_id) (use assms in \<open>auto simp: plain_name_def plain_resource_def\<close>)
  with assms plain_parts [OF assms this] show ?thesis by (subst github_origin) (simp_all add: plain_resource_def)
qed

lemma fragment_origin:
  assumes "plain_name owner" "plain_name name" "plain_resource res" "\<not> is_space (last (CHR ''#'' # frg))"
  shows "NormalizeOriginID lib ChannelGitHub (''github://'' @ owner @ ''/'' @ name @ ''/'' @ res @ CHR ''#'' # frg) =
     Inr (''github://'' @ ToLower owner @ ''/'' @ ToLower name @ ''/'' @ res)"
proof -
  have "CHR ''#'' \<notin> set (owner @ ''/'' @ name @ ''/'' @ res)" using assms by (auto simp: plain_name_def plain_resource_def)
  then have "before CHR ''#'' ((owner @ ''/'' @ name @ ''/'' @ res) @ CHR ''#'' # frg) = owner @ ''/'' @ name @ ''/'' @ res"
    unfolding before_def by (subst takeWhile_append2) auto
  with assms(4) plain_parts [OF assms(1-3) this] show ?thesis by (subst github_origin) simp_all
qed

lemma record_of_plain:
  assumes "plain_name (rp_Owner repo)" "plain_name (rp_Name repo)" "plain_resource (if_Resource it)"
  obtains x where "record_of lib repo t call it = Inr x"
    "ev_OriginID (fr_record x) = ''github://'' @ ToLower (rp_Owner repo) @ ''/'' @ ToLower (rp_Name repo) @ ''/'' @ if_Resource it"
  using plain_origin [OF assms, of lib] by (simp add: record_of_def Let_def)

lemma plain_split:
  assumes "CHR ''/'' \<notin> set a" "CHR ''/'' \<notin> set a'" "a @ CHR ''/'' # x = a' @ CHR ''/'' # x'"
  shows "a = a' \<and> x = x'"
proof -
  have "Some (a, x) = Some (a', x')" using CutAt_append [OF assms(1), of x] CutAt_append [OF assms(2), of x'] unfolding assms(3) by (rule trans [OF sym])
  then show ?thesis by blast
qed

definition sample_repo :: Repository where
  "sample_repo = \<lparr>rp_Owner = ''acme'', rp_Name = ''core'', rp_ProjectBoard = None\<rparr>"

definition sample_item :: "string \<Rightarrow> item_facts" where
  "sample_item res = \<lparr>if_Kind = ''issue'', if_Resource = res, if_Activity = mk_utc 5, if_Body = ''b'', if_URL = []\<rparr>"

lemma sample_plain: "plain_name ''acme''" "plain_name ''ACME''" "plain_name ''core''" "plain_resource ''issues/7''" "plain_resource ''pulls/7''"
  by code_simp+

text \<open>
  Items are remembered apart: in repositories with plain names, two items with plain resources have the
  same origin exactly when they belong to the same repository, up to case, and are the same resource.
\<close>

theorem origins_separate:
  assumes "plain_name (rp_Owner r)" "plain_name (rp_Name r)" "plain_name (rp_Owner r')" "plain_name (rp_Name r')"
    "plain_resource (if_Resource a)" "plain_resource (if_Resource b)"
  shows "\<exists>x y. record_of lib r t call a = Inr x \<and> record_of lib r' t' call' b = Inr y \<and>
     (ev_OriginID (fr_record x) = ev_OriginID (fr_record y) \<longleftrightarrow> repo_key r = repo_key r' \<and> if_Resource a = if_Resource b)"
proof -
  obtain x where x: "record_of lib r t call a = Inr x"
    "ev_OriginID (fr_record x) = ''github://'' @ ToLower (rp_Owner r) @ ''/'' @ ToLower (rp_Name r) @ ''/'' @ if_Resource a"
    using record_of_plain [OF assms(1,2,5)] by blast
  obtain y where y: "record_of lib r' t' call' b = Inr y"
    "ev_OriginID (fr_record y) = ''github://'' @ ToLower (rp_Owner r') @ ''/'' @ ToLower (rp_Name r') @ ''/'' @ if_Resource b"
    using record_of_plain [OF assms(3,4,6)] by blast
  have slash: "CHR ''/'' \<notin> set (ToLower s)" if "plain_name s" for s using that lower_no_slash by (auto simp: plain_name_def)
  have key: "repo_key q = ToLower (rp_Owner q) @ CHR ''/'' # ToLower (rp_Name q)" if "plain_name (rp_Owner q)" "plain_name (rp_Name q)" for q
    using that by (simp add: RepositoryKey_def plain_name_def ToLower_append) (simp add: ToLower_def lower_byte_def is_upper_alpha_def byte_val_def)
  have "ev_OriginID (fr_record x) = ev_OriginID (fr_record y) \<longleftrightarrow> repo_key r = repo_key r' \<and> if_Resource a = if_Resource b"
    unfolding x(2) y(2) key [OF assms(1,2)] key [OF assms(3,4)]
  proof (intro iffI)
    assume eq: "''github://'' @ ToLower (rp_Owner r) @ ''/'' @ ToLower (rp_Name r) @ ''/'' @ if_Resource a =
      ''github://'' @ ToLower (rp_Owner r') @ ''/'' @ ToLower (rp_Name r') @ ''/'' @ if_Resource b"
    then have "ToLower (rp_Owner r) @ CHR ''/'' # (ToLower (rp_Name r) @ CHR ''/'' # if_Resource a) =
      ToLower (rp_Owner r') @ CHR ''/'' # (ToLower (rp_Name r') @ CHR ''/'' # if_Resource b)" by simp
    from plain_split [OF slash [OF assms(1)] slash [OF assms(3)] this]
    have owner: "ToLower (rp_Owner r) = ToLower (rp_Owner r')" and rest: "ToLower (rp_Name r) @ CHR ''/'' # if_Resource a = ToLower (rp_Name r') @ CHR ''/'' # if_Resource b" by simp_all
    from plain_split [OF slash [OF assms(2)] slash [OF assms(4)] rest] owner
    show "ToLower (rp_Owner r) @ CHR ''/'' # ToLower (rp_Name r) = ToLower (rp_Owner r') @ CHR ''/'' # ToLower (rp_Name r') \<and> if_Resource a = if_Resource b"
      by simp
  next
    assume eq: "ToLower (rp_Owner r) @ CHR ''/'' # ToLower (rp_Name r) = ToLower (rp_Owner r') @ CHR ''/'' # ToLower (rp_Name r') \<and> if_Resource a = if_Resource b"
    from plain_split [OF slash [OF assms(1)] slash [OF assms(3)] conjunct1 [OF eq]] eq
    show "''github://'' @ ToLower (rp_Owner r) @ ''/'' @ ToLower (rp_Name r) @ ''/'' @ if_Resource a =
      ''github://'' @ ToLower (rp_Owner r') @ ''/'' @ ToLower (rp_Name r') @ ''/'' @ if_Resource b" by simp
  qed
  then show ?thesis using x(1) y(1) by blast
qed

theorem origins_separate_witness:
  "\<exists>x y. record_of \<lparr>nu_Parse = (\<lambda>_. None), nu_String = (\<lambda>_. [])\<rparr> sample_repo (mk_utc 9) ''c'' (sample_item ''issues/7'') = Inr x \<and>
     record_of \<lparr>nu_Parse = (\<lambda>_. None), nu_String = (\<lambda>_. [])\<rparr> (sample_repo\<lparr>rp_Owner := ''ACME''\<rparr>) (mk_utc 8) ''d'' (sample_item ''pulls/7'') = Inr y \<and>
     (ev_OriginID (fr_record x) = ev_OriginID (fr_record y) \<longleftrightarrow>
        repo_key sample_repo = repo_key (sample_repo\<lparr>rp_Owner := ''ACME''\<rparr>) \<and> ''issues/7'' = ''pulls/7'')"
  using origins_separate [of sample_repo "sample_repo\<lparr>rp_Owner := ''ACME''\<rparr>" "sample_item ''issues/7''" "sample_item ''pulls/7''"
      "\<lparr>nu_Parse = (\<lambda>_. None), nu_String = (\<lambda>_. [])\<rparr>" "mk_utc 9" "''c''" "mk_utc 8" "''d''"]
  by (simp add: sample_repo_def sample_item_def sample_plain)

text \<open>The resources of issues, pull requests and workflow runs are plain.\<close>

lemma numeral_plain: "plain_resource (p @ Itoa i)" if "p \<noteq> []" "hd p \<noteq> CHR ''/''" "\<not> is_space (hd p)" "CHR ''#'' \<notin> set p" "CHR ''?'' \<notin> set p"
proof -
  have chars: "is_digit c \<or> c = CHR ''-''" if "c \<in> set (Itoa i)" for c
    using that nat_str_digits by (auto simp: Itoa_def split: if_splits)
  have ne: "Itoa i \<noteq> []" by (simp add: Itoa_def)
  then have "is_digit (last (Itoa i)) \<or> last (Itoa i) = CHR ''-''" using chars by simp
  then have "\<not> is_space (last (Itoa i))" "last (Itoa i) \<noteq> CHR ''/''" by (auto simp: byte_class_defs byte_val_def)
  moreover have "CHR ''#'' \<notin> set (Itoa i)" "CHR ''?'' \<notin> set (Itoa i)" using chars by (force simp: is_digit_def byte_val_def)+
  ultimately show ?thesis using that ne by (simp add: plain_resource_def)
qed

lemma items_plain:
  "plain_resource (if_Resource (issue_facts r t i))" "plain_resource (if_Resource (pull_facts r t pr))" "plain_resource (if_Resource (run_facts r t w))"
  by (simp_all add: issue_facts_def pull_facts_def run_facts_def numeral_plain [of "''issues/''", simplified]
    numeral_plain [of "''pulls/''", simplified] numeral_plain [of "''actions/runs/''", simplified] is_space_def byte_val_def)

section \<open>Release tags\<close>

lemma seen_after_taking: "seen_version (take_item it c) it' \<longleftrightarrow>
   (if ev_OriginID (fr_record it') = ev_OriginID (fr_record it) then item_digest it' = item_digest it else seen_version c it')"
  by (auto simp: seen_version_def take_item_def Let_def gm_get_put)

text \<open>
  C23. A tag may hold a number sign, which a locator reads as the start of a fragment. Two releases of one
  repository whose tags agree up to a number sign have different locators and one origin, so taking the one
  forgets the version of the other, which is delivered again unless both have the same time and body.
\<close>

theorem release_tags_collide:
  assumes "plain_name (rp_Owner r)" "plain_name (rp_Name r)" "plain_resource (''releases/'' @ tag)"
    "release_tag v = tag @ CHR ''#'' # a" "release_tag v' = tag @ CHR ''#'' # b" "a \<noteq> b"
    "\<not> is_space (last (CHR ''#'' # a))" "\<not> is_space (last (CHR ''#'' # b))"
  shows "\<exists>x y. record_of lib r t call (release_facts r t v) = Inr x \<and> record_of lib r t call (release_facts r t v') = Inr y \<and>
     ev_Locator (fr_record x) \<noteq> ev_Locator (fr_record y) \<and> ev_OriginID (fr_record x) = ev_OriginID (fr_record y) \<and>
     (\<forall>c. seen_version (take_item y (take_item x c)) x \<longleftrightarrow> item_digest x = item_digest y)"
proof -
  note origin = fragment_origin [OF assms(1-3,7), of lib, simplified] fragment_origin [OF assms(1-3,8), of lib, simplified]
  show ?thesis using origin assms(6)
    by (simp add: record_of_def release_facts_def assms(4,5) Let_def seen_after_taking)
qed

definition sample_release :: "string \<Rightarrow> Release" where
  "sample_release tag = \<lparr>rl_ID = 1, rl_TagName = tag, rl_Name = [], rl_Body = [], rl_Draft = False, rl_Prerelease = False, rl_Author = [], rl_HTMLURL = [],
     rl_CreatedAt = mk_utc 5, rl_PublishedAt = mk_utc 5\<rparr>"

lemma sample_tags: "release_tag (sample_release ''v1#a'') = ''v1'' @ CHR ''#'' # ''a''" "release_tag (sample_release ''v1#b'') = ''v1'' @ CHR ''#'' # ''b''"
  "plain_resource (''releases/'' @ ''v1'')" "\<not> is_space (last (CHR ''#'' # ''a''))" "\<not> is_space (last (CHR ''#'' # ''b''))"
  by code_simp+

theorem release_tags_collide_witness:
  "\<exists>x y. record_of \<lparr>nu_Parse = (\<lambda>_. None), nu_String = (\<lambda>_. [])\<rparr> sample_repo (mk_utc 9) ''c'' (release_facts sample_repo (mk_utc 9) (sample_release ''v1#a'')) = Inr x \<and>
     record_of \<lparr>nu_Parse = (\<lambda>_. None), nu_String = (\<lambda>_. [])\<rparr> sample_repo (mk_utc 9) ''c'' (release_facts sample_repo (mk_utc 9) (sample_release ''v1#b'')) = Inr y \<and>
     ev_Locator (fr_record x) \<noteq> ev_Locator (fr_record y) \<and> ev_OriginID (fr_record x) = ev_OriginID (fr_record y) \<and>
     (\<forall>c. seen_version (take_item y (take_item x c)) x \<longleftrightarrow> item_digest x = item_digest y)"
  by (rule release_tags_collide [OF _ _ sample_tags(3,1,2) _ sample_tags(4,5)]) (simp_all add: sample_repo_def sample_plain)

end
