(* ===== verification/Research_Artifact.thy ===== *)
theory Research_Artifact
  imports Research_Evidence
begin

text \<open>
  The research artifact, \<^verbatim>\<open>research/artifact.go\<close>: what a pass of the researcher claims, each claim with the
  evidence it cites, the defaults the server fills in and the validation of the whole. Of the registration of the
  payload and its JSON methods, which only forward to the standard encoding, nothing is modelled here.
\<close>

section \<open>Data\<close>

record Actor =
  ac_Name :: string
  ac_Role :: string
  ac_Evidence :: "EvidenceRecord list"

record IntegrationPoint =
  ip_From :: string
  ip_To :: string
  ip_Data :: string
  ip_Direction :: string
  ip_Evidence :: "EvidenceRecord list"

text \<open>The raw arguments of a mutation are the JSON value they hold, \<open>None\<close> when absent.\<close>

record Mutation =
  mt_Tool :: string
  mt_Args :: "jval option"
  mt_LoopID :: string
  mt_Revision :: int
  mt_ApprovedBy :: string
  mt_Status :: string
  mt_Result :: string
  mt_Timestamp :: gotime

record Artifact =
  af_LoopID :: string
  af_Revision :: int
  af_Actors :: "Actor list"
  af_IntegrationPoints :: "IntegrationPoint list"
  af_Tasks :: "string list"
  af_AddressedGaps :: "string list"
  af_OpenGaps :: "string list"
  af_SubstrateMutations :: "Mutation list"
  af_TestHarness :: string
  af_Title :: string
  af_Slug :: string
  af_ProducedAt :: gotime

definition MutationStatusApproved :: string where "MutationStatusApproved = ''approved''"
definition MutationStatusRejected :: string where "MutationStatusRejected = ''rejected''"
definition MutationStatusExecuted :: string where "MutationStatusExecuted = ''executed''"
definition MutationStatusFailed :: string where "MutationStatusFailed = ''failed''"
definition DirectionRead :: string where "DirectionRead = ''read''"
definition DirectionWrite :: string where "DirectionWrite = ''write''"

section \<open>Defaults\<close>

definition fill_origin :: "net_url \<Rightarrow> EvidenceRecord \<Rightarrow> EvidenceRecord" where
  "fill_origin lib ev =
     (case NormalizeOriginID lib (ev_Channel ev) (ev_Locator ev) of
        Inl _ \<Rightarrow> ev
      | Inr canonical \<Rightarrow>
          if TrimSpace (ev_OriginID ev) = [] \<or> NormalizeOriginID lib (ev_Channel ev) (ev_OriginID ev) = Inr canonical
          then ev\<lparr>ev_OriginID := canonical\<rparr> else ev)"

definition fill :: "net_url \<Rightarrow> Artifact \<Rightarrow> EvidenceRecord \<Rightarrow> EvidenceRecord" where
  "fill lib a ev =
     (let ev1 = fill_origin lib ev;
          ev2 = (if time_IsZero (ev_RetrievedAt ev1) \<and> \<not> time_IsZero (af_ProducedAt a)
                 then ev1\<lparr>ev_RetrievedAt := time_UTC (af_ProducedAt a)\<rparr> else ev1)
      in if ev_Revision ev2 = 0 \<and> af_Revision a \<ge> 1 then ev2\<lparr>ev_Revision := af_Revision a\<rparr> else ev2)"

definition PopulateCitationDefaults :: "net_url \<Rightarrow> Artifact \<Rightarrow> Artifact" where
  "PopulateCitationDefaults lib a =
     a\<lparr>af_Actors := map (\<lambda>x. x\<lparr>ac_Evidence := map (fill lib a) (ac_Evidence x)\<rparr>) (af_Actors a),
       af_IntegrationPoints := map (\<lambda>x. x\<lparr>ip_Evidence := map (fill lib a) (ip_Evidence x)\<rparr>) (af_IntegrationPoints a)\<rparr>"

section \<open>Validation\<close>

datatype artifact_error =
    ArLoopID | ArRevision int | ArProducedAt
  | ActorName nat | ActorRole nat | ActorEvidence nat | ActorCitation nat nat evidence_error
  | MutationTool nat | MutationLoopID nat | MutationRevision nat int | MutationStatus nat string | MutationTimestamp nat
  | PointFrom nat | PointTo nat | PointDirection nat string | PointEvidence nat | PointCitation nat nat evidence_error
  | HarnessRequired

definition actor_check :: "net_url \<Rightarrow> int \<Rightarrow> nat \<Rightarrow> Actor \<Rightarrow> artifact_error option" where
  "actor_check lib limit i x =
     (if TrimSpace (ac_Name x) = [] then Some (ActorName i)
      else if TrimSpace (ac_Role x) = [] then Some (ActorRole i)
      else if ac_Evidence x = [] then Some (ActorEvidence i)
      else first_err (\<lambda>j ev. map_option (ActorCitation i j) (ValidateArtifactCitation lib limit ev)) 0 (ac_Evidence x))"

definition mutation_check :: "nat \<Rightarrow> Mutation \<Rightarrow> artifact_error option" where
  "mutation_check i m =
     (if mt_Tool m = [] then Some (MutationTool i)
      else if mt_LoopID m = [] then Some (MutationLoopID i)
      else if mt_Revision m < 1 then Some (MutationRevision i (mt_Revision m))
      else if mt_Status m \<notin> {MutationStatusApproved, MutationStatusRejected, MutationStatusExecuted, MutationStatusFailed}
        then Some (MutationStatus i (mt_Status m))
      else if time_IsZero (mt_Timestamp m) then Some (MutationTimestamp i)
      else None)"

definition point_check :: "net_url \<Rightarrow> int \<Rightarrow> nat \<Rightarrow> IntegrationPoint \<Rightarrow> artifact_error option" where
  "point_check lib limit i x =
     (if TrimSpace (ip_From x) = [] then Some (PointFrom i)
      else if TrimSpace (ip_To x) = [] then Some (PointTo i)
      else if ip_Direction x \<notin> {DirectionRead, DirectionWrite, []} then Some (PointDirection i (ip_Direction x))
      else if ip_Evidence x = [] then Some (PointEvidence i)
      else first_err (\<lambda>j ev. map_option (PointCitation i j) (ValidateArtifactCitation lib limit ev)) 0 (ip_Evidence x))"

definition hasNeedsTestHarnessGap :: "string list \<Rightarrow> bool" where
  "hasNeedsTestHarnessGap openGaps \<longleftrightarrow>
     list_ex (\<lambda>gap. HasPrefix (dropWhile (\<lambda>c. c = CHR '' '' \<or> byte_val c = 9) gap) ''needs_test_harness:'') openGaps"

definition artifact_Validate :: "net_url \<Rightarrow> Artifact \<Rightarrow> artifact_error option" where
  "artifact_Validate lib a =
     (if af_LoopID a = [] then Some ArLoopID
      else if af_Revision a < 1 then Some (ArRevision (af_Revision a))
      else if time_IsZero (af_ProducedAt a) then Some ArProducedAt
      else case first_err (actor_check lib (af_Revision a)) 0 (af_Actors a) of
        Some e \<Rightarrow> Some e
      | None \<Rightarrow> (case first_err mutation_check 0 (af_SubstrateMutations a) of
          Some e \<Rightarrow> Some e
        | None \<Rightarrow> (case first_err (point_check lib (af_Revision a)) 0 (af_IntegrationPoints a) of
            Some e \<Rightarrow> Some e
          | None \<Rightarrow>
              if af_TestHarness a = [] \<and> \<not> hasNeedsTestHarnessGap (af_OpenGaps a) then Some HarnessRequired else None)))"

definition LatestRevisionMutationCount :: "Artifact \<Rightarrow> nat" where
  "LatestRevisionMutationCount a = length (filter (\<lambda>m. mt_Revision m = af_Revision a) (af_SubstrateMutations a))"

text \<open>The citations of an artifact, in the order in which they are looked at.\<close>

definition citations :: "Artifact \<Rightarrow> EvidenceRecord list" where
  "citations a = concat (map ac_Evidence (af_Actors a)) @ concat (map ip_Evidence (af_IntegrationPoints a))"

lemma citations_defaults: "citations (PopulateCitationDefaults lib a) = map (fill lib a) (citations a)"
  by (simp add: citations_def PopulateCitationDefaults_def map_concat comp_def)

text \<open>A valid artifact cites, and each citation is valid for its revision.\<close>

interpretation actor_citations: element_check "\<lambda>j ev. map_option (ActorCitation i j) (ValidateArtifactCitation lib limit ev)"
  "\<lambda>ev. ValidateArtifactCitation lib limit ev = None" for i lib limit
  by unfold_locales simp

interpretation point_citations: element_check "\<lambda>j ev. map_option (PointCitation i j) (ValidateArtifactCitation lib limit ev)"
  "\<lambda>ev. ValidateArtifactCitation lib limit ev = None" for i lib limit
  by unfold_locales simp

definition actor_ok :: "net_url \<Rightarrow> int \<Rightarrow> Actor \<Rightarrow> bool" where
  "actor_ok lib limit x \<longleftrightarrow> TrimSpace (ac_Name x) \<noteq> [] \<and> TrimSpace (ac_Role x) \<noteq> [] \<and> ac_Evidence x \<noteq> [] \<and>
     (\<forall>ev \<in> set (ac_Evidence x). ValidateArtifactCitation lib limit ev = None)"

definition point_ok :: "net_url \<Rightarrow> int \<Rightarrow> IntegrationPoint \<Rightarrow> bool" where
  "point_ok lib limit x \<longleftrightarrow> TrimSpace (ip_From x) \<noteq> [] \<and> TrimSpace (ip_To x) \<noteq> [] \<and> ip_Direction x \<in> {DirectionRead, DirectionWrite, []} \<and>
     ip_Evidence x \<noteq> [] \<and> (\<forall>ev \<in> set (ip_Evidence x). ValidateArtifactCitation lib limit ev = None)"

interpretation actors: element_check "actor_check lib limit" "actor_ok lib limit" for lib limit
  by unfold_locales (simp add: actor_check_def actor_ok_def actor_citations.accepts_iff)

interpretation points: element_check "point_check lib limit" "point_ok lib limit" for lib limit
  by unfold_locales (auto simp: point_check_def point_ok_def point_citations.accepts_iff)

lemma valid_artifact_cites:
  assumes "artifact_Validate lib a = None"
  shows "\<forall>x \<in> set (af_Actors a). ac_Evidence x \<noteq> []" "\<forall>x \<in> set (af_IntegrationPoints a). ip_Evidence x \<noteq> []"
    "\<forall>ev \<in> set (citations a). ValidateArtifactCitation lib (af_Revision a) ev = None"
proof -
  have "(\<forall>x \<in> set (af_Actors a). actor_ok lib (af_Revision a) x) \<and> (\<forall>x \<in> set (af_IntegrationPoints a). point_ok lib (af_Revision a) x)"
    using assms by (simp add: artifact_Validate_def actors.accepts_iff points.accepts_iff split: if_splits option.splits)
  then show "\<forall>x \<in> set (af_Actors a). ac_Evidence x \<noteq> []" "\<forall>x \<in> set (af_IntegrationPoints a). ip_Evidence x \<noteq> []"
    "\<forall>ev \<in> set (citations a). ValidateArtifactCitation lib (af_Revision a) ev = None"
    by (auto simp: actor_ok_def point_ok_def citations_def)
qed

section \<open>What the defaults may change\<close>

lemma valid_origin:
  assumes "ValidateArtifactCitation lib limit ev = None"
  shows "NormalizeOriginID lib (ev_Channel ev) (ev_Locator ev) = Inr (ev_OriginID ev)" "TrimSpace (ev_OriginID ev) \<noteq> []"
    "\<not> time_IsZero (ev_RetrievedAt ev)" "ev_Revision ev \<ge> 1"
  using assms by (auto simp: ValidateArtifactCitation_def evidence_Validate_def Let_def split: option.splits sum.splits if_splits)

lemma fill_simps [simp]: "ev_Channel (fill lib a ev) = ev_Channel ev" "ev_Locator (fill lib a ev) = ev_Locator ev"
  "ev_Quote (fill lib a ev) = ev_Quote ev" "ev_ToolResultRef (fill lib a ev) = ev_ToolResultRef ev" "ev_SourceClass (fill lib a ev) = ev_SourceClass ev"
  "ev_RawBody (fill lib a ev) = ev_RawBody ev" "ev_Kind (fill lib a ev) = ev_Kind ev"
  by (simp_all add: fill_def fill_origin_def Let_def split: sum.split)

lemma fill_OriginID: "ev_OriginID (fill lib a ev) = ev_OriginID (fill_origin lib ev)"
  by (simp add: fill_def Let_def)

text \<open>
  C20. The defaults repair no citation that contradicts itself. A citation that is valid needs none: it is left
  as it is. A citation that is valid only with its defaults had no origin or one that denotes the origin of its
  locator, and its channel, locator, source class, quote and tool result are what was supplied.
\<close>

theorem citation_defaults:
  "(ValidateArtifactCitation lib limit ev = None \<longrightarrow> fill lib a ev = ev) \<and>
   (ValidateArtifactCitation lib limit (fill lib a ev) = None \<longrightarrow>
      (\<exists>canonical. NormalizeOriginID lib (ev_Channel ev) (ev_Locator ev) = Inr canonical \<and> ev_OriginID (fill lib a ev) = canonical \<and>
         (TrimSpace (ev_OriginID ev) = [] \<or> ev_OriginID ev = canonical \<or> NormalizeOriginID lib (ev_Channel ev) (ev_OriginID ev) = Inr canonical)) \<and>
      fill lib a ev = ev\<lparr>ev_OriginID := ev_OriginID (fill lib a ev), ev_RetrievedAt := ev_RetrievedAt (fill lib a ev), ev_Revision := ev_Revision (fill lib a ev)\<rparr>)"
proof (intro conjI impI)
  assume v: "ValidateArtifactCitation lib limit ev = None"
  show "fill lib a ev = ev"
    using valid_origin [OF v] by (cases ev) (simp add: fill_def fill_origin_def Let_def)
next
  assume "ValidateArtifactCitation lib limit (fill lib a ev) = None"
  from valid_origin [OF this]
  show "\<exists>canonical. NormalizeOriginID lib (ev_Channel ev) (ev_Locator ev) = Inr canonical \<and> ev_OriginID (fill lib a ev) = canonical \<and>
     (TrimSpace (ev_OriginID ev) = [] \<or> ev_OriginID ev = canonical \<or> NormalizeOriginID lib (ev_Channel ev) (ev_OriginID ev) = Inr canonical)"
    by (cases "NormalizeOriginID lib (ev_Channel ev) (ev_Locator ev)") (auto simp: fill_OriginID fill_origin_def split: if_splits)
  show "fill lib a ev = ev\<lparr>ev_OriginID := ev_OriginID (fill lib a ev), ev_RetrievedAt := ev_RetrievedAt (fill lib a ev), ev_Revision := ev_Revision (fill lib a ev)\<rparr>"
    by (cases ev) (simp add: fill_def fill_origin_def Let_def split: sum.split)
qed

definition no_url :: net_url where
  "no_url = \<lparr>nu_Parse = (\<lambda>_. None), nu_String = (\<lambda>_. [])\<rparr>"

definition bare_citation :: EvidenceRecord where
  "bare_citation = \<lparr>ev_Channel = ChannelGitHub, ev_Locator = ''https://github.com/Acme/Core/issues/7'', ev_OriginID = [], ev_SourceClass = SourceClassPrimary,
     ev_RetrievedAt = mk_utc 0, ev_RawBody = [], ev_Quote = ''the parser is slow'', ev_ToolResultRef = ''call-1'', ev_Revision = 0, ev_Kind = [],
     ev_Repository = [], ev_HTMLURL = [], ev_UpdatedAt = None\<rparr>"

definition bare_artifact :: Artifact where
  "bare_artifact = \<lparr>af_LoopID = ''l1'', af_Revision = 2, af_Actors = [\<lparr>ac_Name = ''parser'', ac_Role = ''reads'', ac_Evidence = [bare_citation]\<rparr>],
     af_IntegrationPoints = [], af_Tasks = [], af_AddressedGaps = [], af_OpenGaps = [], af_SubstrateMutations = [], af_TestHarness = ''osh'', af_Title = [],
     af_Slug = [], af_ProducedAt = mk_utc 5\<rparr>"

theorem citation_defaults_witness:
  "ValidateArtifactCitation no_url 2 (fill no_url bare_artifact bare_citation) = None \<and>
   (\<exists>canonical. NormalizeOriginID no_url (ev_Channel bare_citation) (ev_Locator bare_citation) = Inr canonical \<and>
      ev_OriginID (fill no_url bare_artifact bare_citation) = canonical)"
proof -
  have "ValidateArtifactCitation no_url 2 (fill no_url bare_artifact bare_citation) = None" by code_simp
  then show ?thesis using citation_defaults [of no_url 2 bare_citation bare_artifact] by blast
qed

end
