(* ===== verification/Derive_Shell.thy ===== *)
theory Derive_Shell
  imports Sandbox_Shell Research_Evidence
begin

text \<open>
  Which shell commands count as retrieval, \<^verbatim>\<open>isBashFetchCommand\<close> of \<^verbatim>\<open>tools/emitartifact/derivation.go\<close>: a
  list of pipelines that begin with a network client and go on with filters of the stream. The check reads
  quotes when it separates commands and not when it separates words; both sides are shown.
\<close>

section \<open>Operations\<close>

abbreviation dq :: char where "dq \<equiv> CHR 0x22"

definition allowedBashPipeFilters :: "string list" where
  "allowedBashPipeFilters =
     [''head'', ''tail'', ''sed'', ''grep'', ''egrep'', ''fgrep'', ''jq'', ''cut'', ''tr'', ''sort'', ''uniq'', ''wc'']"

text \<open>The flag, the open quote if any, and what the current part holds.\<close>

fun split_shell :: "bool \<Rightarrow> char option \<Rightarrow> string \<Rightarrow> string \<Rightarrow> string list" where
  "split_shell splitPipe quote cur [] = [cur]"
| "split_shell splitPipe (Some q) cur (c # cs) =
     (if c = bs \<and> q = dq \<and> cs \<noteq> [] then split_shell splitPipe (Some q) (cur @ [c, hd cs]) (tl cs)
      else split_shell splitPipe (if c = q then None else Some q) (cur @ [c]) cs)"
| "split_shell splitPipe None cur (c # cs) =
     (if c = sq \<or> c = dq then split_shell splitPipe (Some c) (cur @ [c]) cs
      else if splitPipe then
        (if c = CHR ''|'' \<and> (cs = [] \<or> hd cs \<noteq> CHR ''|'') then cur # split_shell splitPipe None [] cs
         else split_shell splitPipe None (cur @ [c]) cs)
      else if c = CHR '';'' \<or> c = CHR 0x0A then cur # split_shell splitPipe None [] cs
      else if c = CHR ''&'' then cur # split_shell splitPipe None [] (if cs \<noteq> [] \<and> hd cs = CHR ''&'' then tl cs else cs)
      else if c = CHR ''|'' \<and> cs \<noteq> [] \<and> hd cs = CHR ''|'' then cur # split_shell splitPipe None [] (tl cs)
      else split_shell splitPipe None (cur @ [c]) cs)"

definition splitShellOutOfQuotes :: "string \<Rightarrow> bool \<Rightarrow> string list" where
  "splitShellOutOfQuotes s splitPipe = split_shell splitPipe None [] s"

fun drop_assignments :: "string list \<Rightarrow> string list" where
  "drop_assignments (w # v # ws) = (if CHR ''='' \<in> set w \<and> \<not> HasPrefix w ''-'' then drop_assignments (v # ws) else w # v # ws)"
| "drop_assignments ws = ws"

definition extractShellCommandBase :: "string \<Rightarrow> string" where
  "extractShellCommandBase stage =
     (case drop_assignments (Fields (TrimSpace stage)) of [] \<Rightarrow> [] | base # _ \<Rightarrow> rev (takeWhile (\<lambda>c. c \<noteq> CHR ''/'') (rev base)))"

definition fetch_base :: "bool \<Rightarrow> string \<Rightarrow> bool" where
  "fetch_base allowGH base \<longleftrightarrow> base = ''curl'' \<or> base = ''wget'' \<or> base = ''gh'' \<and> allowGH"

fun stages_loop :: "bool \<Rightarrow> bool \<Rightarrow> string list \<Rightarrow> bool" where
  "stages_loop allowGH fetched [] = True"
| "stages_loop allowGH fetched (stage # stages) =
     (let base = extractShellCommandBase stage in
      if base = [] then False
      else if \<not> fetched then fetch_base allowGH base \<and> stages_loop allowGH True stages
      else base \<in> set allowedBashPipeFilters \<and> stages_loop allowGH True stages)"

fun pipelines_loop :: "bool \<Rightarrow> bool \<Rightarrow> string list \<Rightarrow> bool" where
  "pipelines_loop allowGH found [] = found"
| "pipelines_loop allowGH found (p # ps) =
     (if TrimSpace p = [] then pipelines_loop allowGH found ps
      else stages_loop allowGH False (splitShellOutOfQuotes (TrimSpace p) True) \<and> pipelines_loop allowGH True ps)"

definition isBashFetchCommand :: "(string \<times> any) list \<Rightarrow> bool \<Rightarrow> bool" where
  "isBashFetchCommand args allowGH =
     (let cmd = TrimSpace (str_or_empty (gm_get args ''command'')) in
      if cmd = [] then False
      else if Contains cmd [CHR 0x60] \<or> Contains cmd ''$('' then False
      else pipelines_loop allowGH False (splitShellOutOfQuotes cmd False))"

section \<open>Commands without quotes\<close>

text \<open>
  The commands of a text without quotes, a specification: what stands between two of the characters that end a
  command.
\<close>

definition ends_command :: "char \<Rightarrow> bool" where
  "ends_command c \<longleftrightarrow> c = CHR '';'' \<or> c = CHR 0x0A \<or> c = CHR ''&'' \<or> c = CHR ''|''"

fun pieces :: "(char \<Rightarrow> bool) \<Rightarrow> string \<Rightarrow> string list" where
  "pieces P [] = [[]]"
| "pieces P (c # cs) = (if P c then [] # pieces P cs else (case pieces P cs of [] \<Rightarrow> [[c]] | e # es \<Rightarrow> (c # e) # es))"

abbreviation commands :: "string \<Rightarrow> string list" where
  "commands \<equiv> pieces ends_command"

lemma commands_ne [simp]: "commands s \<noteq> []"
  by (cases s) (auto split: list.split)

lemma commands_cut: "ends_command c \<Longrightarrow> commands (a @ c # b) = commands a @ commands b"
  by (induction a) (auto split: list.split)

lemma commands_whole: "\<forall>c \<in> set s. \<not> ends_command c \<Longrightarrow> commands s = [s]"
  by (induction s) simp_all

definition unquoted :: "string \<Rightarrow> bool" where
  "unquoted s \<longleftrightarrow> sq \<notin> set s \<and> dq \<notin> set s"

text \<open>No two bars stand beside each other.\<close>

abbreviation single_bars :: "string \<Rightarrow> bool" where
  "single_bars \<equiv> successively (\<lambda>a b. \<not> (a = CHR ''|'' \<and> b = CHR ''|''))"

lemma unquoted_Cons [simp]: "unquoted (c # s) \<longleftrightarrow> c \<noteq> sq \<and> c \<noteq> dq \<and> unquoted s"
  by (auto simp: unquoted_def)

lemma unquoted_append [simp]: "unquoted (a @ b) \<longleftrightarrow> unquoted a \<and> unquoted b"
  by (auto simp: unquoted_def)

text \<open>How an unquoted text begins: a separator of pipelines, a text with it, or nothing; what is cut off and what is left.\<close>

lemma list_cases:
  assumes "unquoted s"
  obtains (fin) "s = []"
  | (cut) c sep rest where "s = sep @ rest" "ends_command c" "sep = [c] \<or> sep = [c, c]"
      "\<And>cur. split_shell False None cur s = cur # split_shell False None [] rest"
  | (keep) c rest where "s = c # rest" "\<not> ends_command c \<or> c = CHR ''|'' \<and> (rest = [] \<or> hd rest \<noteq> CHR ''|'')"
      "\<And>cur. split_shell False None cur s = split_shell False None (cur @ [c]) rest"
proof (cases s)
  case (Cons c cs)
  then have q: "c \<noteq> sq" "c \<noteq> dq" using assms by simp_all
  consider "c = CHR '';'' \<or> c = CHR 0x0A" | "c = CHR ''&'' \<and> (cs = [] \<or> hd cs \<noteq> CHR ''&'')" | ds where "c = CHR ''&''" "cs = CHR ''&'' # ds"
    | ds where "c = CHR ''|''" "cs = CHR ''|'' # ds" | "\<not> ends_command c \<or> c = CHR ''|'' \<and> (cs = [] \<or> hd cs \<noteq> CHR ''|'')"
    by (cases cs) (auto simp: ends_command_def)
  then show thesis
  proof cases
    case 1
    then show thesis using that(2) [of "[c]" cs c] Cons q by (auto simp: ends_command_def)
  next
    case 2
    then show thesis using that(2) [of "[c]" cs c] Cons by (auto simp: ends_command_def)
  next
    case (3 ds)
    then show thesis using that(2) [of "[c, c]" ds c] Cons by (simp add: ends_command_def)
  next
    case (4 ds)
    then show thesis using that(2) [of "[c, c]" ds c] Cons by (simp add: ends_command_def)
  next
    case 5
    then have "split_shell False None cur s = split_shell False None (cur @ [c]) cs" for cur
      using Cons q by (auto simp: ends_command_def)
    with 5 show thesis using that(3) [of c cs] Cons by blast
  qed
qed (rule that(1))

lemma commands_sep:
  assumes "ends_command c" "sep = [c] \<or> sep = [c, c]"
  shows "set (commands (a @ sep @ b)) - {[]} = (set (commands a) - {[]}) \<union> (set (commands b) - {[]})"
proof -
  have "commands (a @ [c] @ b) = commands a @ commands b" "commands (a @ [c, c] @ b) = commands a @ [] # commands b"
    using commands_cut [OF assms(1), of a b] commands_cut [OF assms(1), of a "c # b"] assms(1) by simp_all
  then have "set (commands (a @ sep @ b)) \<subseteq> insert [] (set (commands a) \<union> set (commands b))" "set (commands a) \<union> set (commands b) \<subseteq> set (commands (a @ sep @ b))"
    using assms(2) by auto
  then show ?thesis by blast
qed

lemma pipelines_cover:
  "unquoted s \<Longrightarrow> set (commands (cur @ s)) - {[]} = (\<Union>p \<in> set (split_shell False None cur s). set (commands p)) - {[]}"
proof (induction "length s" arbitrary: cur s rule: less_induct)
  case less
  from less.prems show ?case
  proof (cases rule: list_cases)
    case (cut c sep rest)
    then have "length rest < length s" "unquoted rest" using less.prems by auto
    from less.hyps [OF this, of "[]"] show ?thesis
      unfolding cut(4) unfolding cut(1) commands_sep [OF cut(2,3)] by (simp add: Un_Diff)
  next
    case (keep c rest)
    then show ?thesis using less.hyps [of rest "cur @ [c]"] less.prems by simp
  qed simp
qed

definition pipeline_text :: "string \<Rightarrow> bool" where
  "pipeline_text p \<longleftrightarrow> unquoted p \<and> (\<forall>c \<in> set p. ends_command c \<longrightarrow> c = CHR ''|'') \<and> single_bars p"

lemma pipelines_text:
  "unquoted s \<Longrightarrow> pipeline_text cur \<Longrightarrow> (cur \<noteq> [] \<and> last cur = CHR ''|'' \<longrightarrow> s = [] \<or> hd s \<noteq> CHR ''|'') \<Longrightarrow>
   \<forall>p \<in> set (split_shell False None cur s). pipeline_text p"
proof (induction "length s" arbitrary: cur s rule: less_induct)
  case less
  from less.prems(1) show ?case
  proof (cases rule: list_cases)
    case (cut c sep rest)
    then have "length rest < length s" "unquoted rest" using less.prems by auto
    from less.hyps [OF this, of "[]"] show ?thesis using less.prems(2) unfolding cut(4) by (simp add: pipeline_text_def unquoted_def)
  next
    case (keep c rest)
    have "c \<noteq> sq" "c \<noteq> dq" "ends_command c \<longrightarrow> c = CHR ''|''" "cur \<noteq> [] \<longrightarrow> \<not> (last cur = CHR ''|'' \<and> c = CHR ''|'')"
      using less.prems(1,3) keep(1,2) by auto
    then have "pipeline_text (cur @ [c])"
      using less.prems(2) by (auto simp: pipeline_text_def successively_append_iff unquoted_def)
    moreover have "last (cur @ [c]) = CHR ''|'' \<longrightarrow> rest = [] \<or> hd rest \<noteq> CHR ''|''" using keep(2) by (auto simp: ends_command_def)
    ultimately show ?thesis using less.hyps [of rest "cur @ [c]"] less.prems(1) keep by simp
  qed (use less.prems in simp)
qed

lemma stages_are_commands:
  "pipeline_text p \<Longrightarrow> \<forall>c \<in> set cur. \<not> ends_command c \<Longrightarrow> split_shell True None cur p = commands (cur @ p)"
proof (induction p arbitrary: cur)
  case Nil
  then show ?case by (simp add: commands_whole)
next
  case (Cons c p)
  have p: "pipeline_text p" "c \<noteq> sq" "c \<noteq> dq" "ends_command c \<longrightarrow> c = CHR ''|''" "c = CHR ''|'' \<longrightarrow> p = [] \<or> hd p \<noteq> CHR ''|''"
    using Cons.prems(1) by (auto simp: pipeline_text_def successively_Cons)
  show ?case
  proof (cases "c = CHR ''|''")
    case True
    then have "split_shell True None cur (c # p) = cur # split_shell True None [] p" using p by simp
    also have "\<dots> = commands cur @ commands p" using Cons.IH [OF p(1), of "[]"] Cons.prems(2) by (simp add: commands_whole)
    also have "\<dots> = commands (cur @ c # p)" using commands_cut [of c cur p] True by (simp add: ends_command_def)
    finally show ?thesis .
  next
    case False
    then have "split_shell True None cur (c # p) = split_shell True None (cur @ [c]) p" using p by simp
    with Cons.IH [OF p(1), of "cur @ [c]"] Cons.prems(2) False p(4) show ?thesis by simp
  qed
qed

section \<open>Words\<close>

lemma fields_loop_blank: "\<forall>c \<in> set ws. is_space c \<Longrightarrow> fields_loop [] (ws @ s) = fields_loop [] s"
  by (induction ws) simp_all

lemma fields_loop_trail: "\<forall>c \<in> set ws. is_space c \<Longrightarrow> fields_loop cur (s @ ws) = fields_loop cur s"
proof (induction s arbitrary: cur)
  case Nil
  then show ?case using fields_loop_blank [of ws "[]"] by (cases ws) auto
qed simp

lemma trim_decomp: "\<exists>a b. s = a @ TrimSpace s @ b \<and> (\<forall>c \<in> set a. is_space c) \<and> (\<forall>c \<in> set b. is_space c)"
proof -
  let ?d = "dropWhile is_space s"
  have "s = takeWhile is_space s @ TrimSpace s @ rev (takeWhile is_space (rev ?d))"
    unfolding TrimSpace_def by (metis rev_append rev_rev_ident takeWhile_dropWhile_id)
  then show ?thesis by (metis set_rev set_takeWhileD)
qed

lemma Fields_trim: "Fields (TrimSpace s) = Fields s"
proof -
  obtain a b where d: "s = a @ TrimSpace s @ b" "\<forall>c \<in> set a. is_space c" "\<forall>c \<in> set b. is_space c" using trim_decomp by blast
  have "Fields s = Fields (a @ TrimSpace s @ b)" using d(1) by (rule arg_cong)
  then show ?thesis using fields_loop_blank [OF d(2)] fields_loop_trail [OF d(3)] by (simp add: Fields_def)
qed

lemma base_fields: "Fields s = Fields t \<Longrightarrow> extractShellCommandBase s = extractShellCommandBase t"
  by (simp add: extractShellCommandBase_def Fields_trim)

lemma Fields_nil: "Fields s = [] \<longleftrightarrow> TrimSpace s = []"
proof -
  have "fields_loop cur t = [] \<longleftrightarrow> cur = [] \<and> (\<forall>c \<in> set t. is_space c)" for cur t by (induction t arbitrary: cur) auto
  moreover have "(\<forall>c \<in> set (dropWhile is_space s). is_space c) \<longleftrightarrow> (\<forall>c \<in> set s. is_space c)" by (induction s) auto
  ultimately show ?thesis by (simp add: Fields_def TrimSpace_def)
qed

text \<open>Blanks at the ends of a text are blanks at the ends of its first and last command.\<close>

lemma commands_front: "\<forall>c \<in> set a. \<not> ends_command c \<Longrightarrow> commands (a @ s) = (a @ hd (commands s)) # tl (commands s)"
  by (induction a) simp_all

lemma commands_back: "\<forall>c \<in> set b. \<not> ends_command c \<Longrightarrow> commands (s @ b) = butlast (commands s) @ [last (commands s) @ b]"
proof (induction s)
  case Nil
  then show ?case by (simp add: commands_whole)
next
  case (Cons c s)
  then show ?case by (cases "commands s") (auto split: list.split)
qed

lemma commands_fields:
  assumes "\<forall>c \<in> set a. is_space c \<and> \<not> ends_command c" "\<forall>c \<in> set b. is_space c \<and> \<not> ends_command c"
  shows "Fields ` set (commands (a @ s @ b)) = Fields ` set (commands s)"
proof -
  have rear: "Fields ` set (commands (t @ b)) = Fields ` set (commands t)" for t
  proof -
    have "Fields (last (commands t) @ b) = Fields (last (commands t))" using assms(2) by (simp add: Fields_def fields_loop_trail)
    then show ?thesis using assms(2) by (cases "commands t" rule: rev_cases) (simp_all add: commands_back)
  qed
  have "Fields (a @ hd (commands s)) = Fields (hd (commands s))" using assms(1) by (simp add: Fields_def fields_loop_blank)
  then have "Fields ` set (commands (a @ s)) = Fields ` set (commands s)"
    using assms(1) by (cases "commands s") (simp_all add: commands_front)
  with rear [of "a @ s"] show ?thesis by simp
qed

section \<open>What is accepted\<close>

definition permitted :: "bool \<Rightarrow> string \<Rightarrow> bool" where
  "permitted allowGH base \<longleftrightarrow> fetch_base allowGH base \<or> base \<in> set allowedBashPipeFilters"

lemma stages_permitted: "stages_loop gh fetched stages \<Longrightarrow> \<forall>stage \<in> set stages. permitted gh (extractShellCommandBase stage)"
  by (induction gh fetched stages rule: stages_loop.induct) (auto simp: Let_def permitted_def split: if_splits)

lemma pipelines_permitted:
  "pipelines_loop gh found ps \<Longrightarrow> \<forall>p \<in> set ps. TrimSpace p = [] \<or> stages_loop gh False (splitShellOutOfQuotes (TrimSpace p) True)"
  by (induction gh found ps rule: pipelines_loop.induct) (auto split: if_splits)

lemma pipelines_found: "pipelines_loop gh found ps \<Longrightarrow> found \<or> (\<exists>p \<in> set ps. TrimSpace p \<noteq> [])"
  by (induction gh found ps rule: pipelines_loop.induct) (auto split: if_splits)

lemma trimmed_text:
  assumes "pipeline_text p"
  shows "pipeline_text (TrimSpace p)" "Fields ` set (commands p) = Fields ` set (commands (TrimSpace p))"
proof -
  obtain a b where d: "p = a @ TrimSpace p @ b" "\<forall>c \<in> set a. is_space c" "\<forall>c \<in> set b. is_space c" using trim_decomp by blast
  have "pipeline_text (a @ TrimSpace p @ b)" using assms d(1) by simp
  then show "pipeline_text (TrimSpace p)" by (auto simp: pipeline_text_def successively_append_iff)
  have "\<not> is_space CHR ''|''" by (simp add: is_space_def byte_val_def)
  moreover have "ends_command c \<longrightarrow> c = CHR ''|''" if "c \<in> set a \<union> set b" for c
    using assms that d(1) unfolding pipeline_text_def by (metis Un_iff set_append)
  ultimately have "\<forall>c \<in> set a. is_space c \<and> \<not> ends_command c" "\<forall>c \<in> set b. is_space c \<and> \<not> ends_command c" using d by auto
  from commands_fields [OF this, of "TrimSpace p"] d(1) show "Fields ` set (commands p) = Fields ` set (commands (TrimSpace p))" by simp
qed

text \<open>Commands as the check reads them, when the text has no quotes.\<close>

lemma accepted_bases:
  assumes "isBashFetchCommand args gh" "gm_get args ''command'' = Some (AnyStr s)" "unquoted s"
  shows "(\<forall>seg \<in> set (commands (TrimSpace s)). TrimSpace seg \<noteq> [] \<longrightarrow> permitted gh (extractShellCommandBase seg)) \<and>
     (\<exists>seg \<in> set (commands (TrimSpace s)). fetch_base gh (extractShellCommandBase seg))"
proof -
  let ?t = "TrimSpace s" and ?ps = "split_shell False None [] (TrimSpace s)"
  have loop: "pipelines_loop gh False ?ps"
    using assms(1,2) by (simp add: isBashFetchCommand_def Let_def str_or_empty_def splitShellOutOfQuotes_def split: if_splits)
  have "unquoted ?t" using assms(3) trim_decomp [of s] by (metis unquoted_append)
  then have cover: "set (commands ?t) - {[]} = (\<Union>p \<in> set ?ps. set (commands p)) - {[]}" and ptext: "\<forall>p \<in> set ?ps. pipeline_text p"
    using pipelines_cover [of ?t "[]"] pipelines_text [of ?t "[]"] by (simp_all add: pipeline_text_def unquoted_def)
  have stages: "splitShellOutOfQuotes (TrimSpace p) True = commands (TrimSpace p)" if "p \<in> set ?ps" for p
    using stages_are_commands [of "TrimSpace p" "[]"] trimmed_text(1) ptext that by (simp add: splitShellOutOfQuotes_def)
  have all: "permitted gh (extractShellCommandBase seg)" if p: "p \<in> set ?ps" "TrimSpace p \<noteq> []" and seg: "seg \<in> set (commands p)" for p seg
  proof -
    obtain seg' where "seg' \<in> set (commands (TrimSpace p))" "Fields seg = Fields seg'" using trimmed_text(2) ptext p(1) seg by blast
    moreover from this have "permitted gh (extractShellCommandBase seg')"
      using pipelines_permitted [OF loop] p stages_permitted [of gh False] stages by metis
    ultimately show ?thesis using base_fields by metis
  qed
  have "permitted gh (extractShellCommandBase seg)" if seg: "seg \<in> set (commands ?t)" "TrimSpace seg \<noteq> []" for seg
  proof -
    have "seg \<noteq> []" using seg(2) by auto
    then obtain p where p: "p \<in> set ?ps" "seg \<in> set (commands p)" using cover seg(1) by blast
    have "TrimSpace p \<noteq> []"
    proof
      assume "TrimSpace p = []"
      then have "Fields ` set (commands p) = {[]}" using trimmed_text(2) ptext p(1) by (simp add: Fields_def)
      then show False using p(2) seg(2) Fields_nil by blast
    qed
    with all p show ?thesis by blast
  qed
  moreover have "\<exists>seg \<in> set (commands ?t). fetch_base gh (extractShellCommandBase seg)"
  proof -
    obtain p where p: "p \<in> set ?ps" "TrimSpace p \<noteq> []" using pipelines_found [OF loop] by blast
    then have run: "stages_loop gh False (commands (TrimSpace p))" using pipelines_permitted [OF loop] stages by metis
    then have first: "fetch_base gh (extractShellCommandBase (hd (commands (TrimSpace p))))" "extractShellCommandBase (hd (commands (TrimSpace p))) \<noteq> []"
      by (cases "commands (TrimSpace p)"; simp add: Let_def split: if_splits)+
    obtain seg where seg: "seg \<in> set (commands p)" "Fields seg = Fields (hd (commands (TrimSpace p)))"
      using trimmed_text(2) ptext p(1) hd_in_set [OF commands_ne, of "TrimSpace p"] by (metis imageE imageI)
    moreover have "seg \<noteq> []" using first(2) base_fields [OF seg(2)] by (auto simp: extractShellCommandBase_def Fields_def TrimSpace_def)
    moreover have "set (commands p) - {[]} \<subseteq> set (commands ?t)" using cover p(1) by blast
    ultimately have "seg \<in> set (commands ?t)" by blast
    then show ?thesis using first(1) unfolding base_fields [OF seg(2), symmetric] by (rule bexI [rotated])
  qed
  ultimately show ?thesis by blast
qed

section \<open>What a shell runs\<close>

text \<open>
  Of the words of a simple command, the leading assignments set variables and the first other word names the program; a
  command of assignments only runs none. A path names its last component.
\<close>

definition is_assignment :: "string \<Rightarrow> bool" where
  "is_assignment w \<longleftrightarrow>
     (let name = takeWhile (\<lambda>c. c \<noteq> CHR ''='') w in
      CHR ''='' \<in> set w \<and> name \<noteq> [] \<and> \<not> is_digit (hd name) \<and>
      list_all (\<lambda>c. is_lower_alpha c \<or> is_upper_alpha c \<or> is_digit c \<or> c = CHR ''_'') name)"

fun program :: "string list \<Rightarrow> string option" where
  "program [] = None"
| "program (w # ws) = (if is_assignment w then program ws else Some w)"

definition base_name :: "string \<Rightarrow> string" where
  "base_name p = last (pieces (\<lambda>c. c = CHR ''/'') p)"

definition network_client :: "bool \<Rightarrow> string \<Rightarrow> bool" where
  "network_client gh n \<longleftrightarrow> n \<in> {''curl'', ''wget''} \<or> gh \<and> n = ''gh''"

definition stream_filter :: "string \<Rightarrow> bool" where
  "stream_filter n \<longleftrightarrow>
     n \<in> {''head'', ''tail'', ''sed'', ''grep'', ''egrep'', ''fgrep'', ''jq'', ''cut'', ''tr'', ''sort'', ''uniq'', ''wc''}"

text \<open>A text in which every character but the blank and those that end a command stands for itself.\<close>

definition plain_text :: "string \<Rightarrow> bool" where
  "plain_text s \<longleftrightarrow> (\<forall>c \<in> set s. plain_char c \<or> c = CHR '' '' \<or> ends_command c)"

lemma plain_char_facts:
  assumes "plain_char c"
  shows "\<not> is_space c \<and> c \<noteq> sq \<and> c \<noteq> dq \<and> c \<noteq> bs \<and> \<not> ends_command c \<and> c \<noteq> CHR 0x60 \<and> c \<noteq> CHR ''$'' \<and> c \<noteq> CHR '' ''"
  using assms by (auto simp: plain_char_def byte_class_defs ends_command_def byte_val_def)

lemma shell_words_Fields:
  assumes "\<forall>c \<in> set s. plain_char c \<or> c = CHR '' ''"
  shows "shell_words s = Some (Fields s)"
proof -
  have blank: "is_space CHR '' ''" "\<not> plain_char CHR '' ''" by (simp_all add: is_space_def byte_val_def plain_char_def byte_class_defs)
  have "sh_out None s = Some (fields_loop [] s) \<and> (w \<noteq> [] \<longrightarrow> sh_out (Some w) s = Some (fields_loop (rev w) s))" for w
    using assms
  proof (induction s arbitrary: w)
    case (Cons c s)
    have ih: "sh_out None s = Some (fields_loop [] s)" "w \<noteq> [] \<Longrightarrow> sh_out (Some w) s = Some (fields_loop (rev w) s)" for w
      using Cons by simp_all
    show ?case
    proof (cases "c = CHR '' ''")
      case True
      then show ?thesis using ih blank by simp
    next
      case False
      then have "plain_char c" using Cons.prems by simp
      with plain_char_facts [OF this] False show ?thesis using ih(2) [of "[c]"] ih(2) [of "w @ [c]"] by simp
    qed
  qed simp
  then show ?thesis by (simp add: shell_words_def Fields_def)
qed

lemma base_name_pieces: "base_name p = rev (takeWhile (\<lambda>c. c \<noteq> CHR ''/'') (rev p))"
proof (induction p)
  case Nil
  then show ?case by (simp add: base_name_def)
next
  case (Cons c p)
  have ne: "pieces P t \<noteq> []" for P t by (cases t) (auto split: list.split)
  show ?case
  proof (cases "CHR ''/'' \<in> set p")
    case True
    then have "takeWhile (\<lambda>c. c \<noteq> CHR ''/'') (rev (c # p)) = takeWhile (\<lambda>c. c \<noteq> CHR ''/'') (rev p)"
      by (simp add: takeWhile_append1)
    moreover have "tl (pieces (\<lambda>c. c = CHR ''/'') p) \<noteq> []" using True by (induction p) (auto simp: ne split: list.split)
    then have "base_name (c # p) = base_name p"
      using ne [of _ p] by (cases "pieces (\<lambda>c. c = CHR ''/'') p") (auto simp: base_name_def)
    ultimately show ?thesis using Cons by simp
  next
    case False
    then have one: "pieces (\<lambda>c. c = CHR ''/'') p = [p]" by (induction p) auto
    have "takeWhile (\<lambda>c. c \<noteq> CHR ''/'') (rev p @ [c]) = rev p @ takeWhile (\<lambda>c. c \<noteq> CHR ''/'') [c]"
      using False by (subst takeWhile_append2) auto
    then show ?thesis using one by (auto simp: base_name_def)
  qed
qed

text \<open>The word the check takes for the program is the program, except where an equals sign misleads it.\<close>

lemma drop_assignments_program:
  "drop_assignments ws = w # rest \<Longrightarrow>
     (case program ws of None \<Rightarrow> CHR ''='' \<in> set (last ws) | Some p \<Rightarrow> p = w \<or> CHR ''='' \<in> set p)"
proof (induction ws rule: drop_assignments.induct)
  case (1 x v ws)
  show ?case
  proof (cases "CHR ''='' \<in> set x \<and> \<not> HasPrefix x ''-''")
    case True
    then show ?thesis using 1 by (auto split: option.splits)
  next
    case False
    have "\<not> is_assignment x"
    proof
      assume "is_assignment x"
      then have x: "CHR ''='' \<in> set x" "list_all (\<lambda>c. is_lower_alpha c \<or> is_upper_alpha c \<or> is_digit c \<or> c = CHR ''_'') (takeWhile (\<lambda>c. c \<noteq> CHR ''='') x)"
        "takeWhile (\<lambda>c. c \<noteq> CHR ''='') x \<noteq> []"
        by (simp_all add: is_assignment_def Let_def)
      with False have "HasPrefix x ''-''" by simp
      then obtain y where "x = CHR ''-'' # y" by (cases x) (auto simp: HasPrefix_def)
      with x(2) show False by (simp add: byte_class_defs byte_val_def)
    qed
    then show ?thesis using 1 False by simp
  qed
qed (auto simp: is_assignment_def Let_def)

lemma Fields_segment:
  assumes "plain_text s" "seg \<in> set (commands s)"
  shows "shell_words seg = Some (Fields seg)"
proof (rule shell_words_Fields)
  have "\<forall>c \<in> set seg. c \<in> set s \<and> \<not> ends_command c"
    using assms(2) by (induction s arbitrary: seg) (fastforce split: if_splits list.splits)+
  then show "\<forall>c \<in> set seg. plain_char c \<or> c = CHR '' ''" using assms(1) by (auto simp: plain_text_def)
qed

text \<open>Blank characters around a text, line breaks among them, add and remove no command.\<close>

lemma commands_trim: "Fields ` set (commands (TrimSpace s)) - {[]} = Fields ` set (commands s) - {[]}"
proof -
  have nil: "Fields [] = []" by (simp add: Fields_def)
  have blank: "is_space c \<Longrightarrow> Fields (c # t) = Fields t" "is_space c \<Longrightarrow> Fields (t @ [c]) = Fields t" for c t
    using fields_loop_blank [of "[c]" t] fields_loop_trail [of "[c]" "[]" t] by (simp_all add: Fields_def)
  have front: "Fields ` set (commands (c # t)) - {[]} = Fields ` set (commands t) - {[]}" if "is_space c" for c t
    using that by (cases "commands t") (auto simp: nil blank)
  have rear: "Fields ` set (commands (t @ [c])) - {[]} = Fields ` set (commands t) - {[]}" if "is_space c" for c t
  proof (cases "ends_command c")
    case True
    then show ?thesis using commands_cut [of c t "[]"] by (auto simp: nil)
  next
    case False
    then show ?thesis using commands_back [of "[c]" t] that
      by (cases "commands t" rule: rev_cases) (auto simp: nil blank)
  qed
  obtain a b where d: "s = a @ TrimSpace s @ b" "\<forall>c \<in> set a. is_space c" "\<forall>c \<in> set b. is_space c" using trim_decomp by blast
  have "Fields ` set (commands (t @ b)) - {[]} = Fields ` set (commands t) - {[]}" for t
    using d(3) by (induction b rule: rev_induct) (simp_all add: rear flip: append_assoc)
  moreover have "Fields ` set (commands (a @ t)) - {[]} = Fields ` set (commands t) - {[]}" for t
    using d(2) by (induction a) (simp_all add: front del: pieces.simps(2))
  ultimately show ?thesis using d(1) by metis
qed

lemma permitted_base:
  assumes "Fields seg = ws" "permitted gh (extractShellCommandBase seg)"
  shows "case program ws of None \<Rightarrow> CHR ''='' \<in> set (last ws)
    | Some p \<Rightarrow> CHR ''='' \<in> set p \<or> network_client gh (base_name p) \<or> stream_filter (base_name p)"
    "fetch_base gh (extractShellCommandBase seg) \<Longrightarrow>
      (case program ws of None \<Rightarrow> CHR ''='' \<in> set (last ws) | Some p \<Rightarrow> CHR ''='' \<in> set p \<or> network_client gh (base_name p))"
proof -
  have "extractShellCommandBase seg \<noteq> []" using assms(2) by (auto simp: permitted_def fetch_base_def allowedBashPipeFilters_def)
  then obtain w rest where w: "drop_assignments ws = w # rest"
    using assms(1) by (auto simp: extractShellCommandBase_def Fields_trim split: list.splits)
  then have base: "extractShellCommandBase seg = base_name w"
    using assms(1) by (simp add: extractShellCommandBase_def Fields_trim base_name_pieces)
  have tables: "permitted gh n \<longleftrightarrow> network_client gh n \<or> stream_filter n" "fetch_base gh n \<longleftrightarrow> network_client gh n" for n
    by (auto simp: permitted_def fetch_base_def network_client_def stream_filter_def allowedBashPipeFilters_def)
  note word = drop_assignments_program [OF w]
  from word assms(2) show "case program ws of None \<Rightarrow> CHR ''='' \<in> set (last ws)
    | Some p \<Rightarrow> CHR ''='' \<in> set p \<or> network_client gh (base_name p) \<or> stream_filter (base_name p)"
    unfolding base tables by (auto split: option.splits)
  from word show "fetch_base gh (extractShellCommandBase seg) \<Longrightarrow>
      (case program ws of None \<Rightarrow> CHR ''='' \<in> set (last ws) | Some p \<Rightarrow> CHR ''='' \<in> set p \<or> network_client gh (base_name p))"
    unfolding base tables by (auto split: option.splits)
qed

text \<open>
  C16. What the check is good for. Take a command text in which no character but blanks and the ends of commands means
  anything to a shell: no quotes, no backslash, no expansion, no redirection, no group. If it is accepted, then whatever a
  shell reads between two ends of commands, if it is a command at all, runs a network client or a filter
  of the stream, and some command runs a client, with one exception, the equals sign: a program whose own name holds one
  is not looked at, and a command that ends in a word with one may be an assignment that runs nothing.
\<close>

theorem fetch_commands_only:
  assumes "isBashFetchCommand args gh" "gm_get args ''command'' = Some (AnyStr s)" "plain_text s"
  shows "(\<forall>seg \<in> set (commands s). \<exists>ws. shell_words seg = Some ws \<and>
       (ws = [] \<or> (case program ws of None \<Rightarrow> CHR ''='' \<in> set (last ws)
          | Some p \<Rightarrow> CHR ''='' \<in> set p \<or> network_client gh (base_name p) \<or> stream_filter (base_name p)))) \<and>
     (\<exists>seg \<in> set (commands s). \<exists>ws. shell_words seg = Some ws \<and> ws \<noteq> [] \<and>
       (case program ws of None \<Rightarrow> CHR ''='' \<in> set (last ws) | Some p \<Rightarrow> CHR ''='' \<in> set p \<or> network_client gh (base_name p)))"
proof -
  have "unquoted s"
    using assms(3) plain_char_facts by (fastforce simp: unquoted_def plain_text_def ends_command_def)
  note bases = accepted_bases [OF assms(1,2) this]
  have same: "\<exists>seg' \<in> set (commands y). Fields seg' = Fields seg" if "seg \<in> set (commands x)" "Fields seg \<noteq> []"
    "Fields ` set (commands x) - {[]} = Fields ` set (commands y) - {[]}" for seg x y
  proof -
    have "Fields seg \<in> Fields ` set (commands x) - {[]}" using that(1,2) by simp
    then show ?thesis unfolding that(3) by auto
  qed
  have one: "shell_words seg = Some (Fields seg) \<and> (Fields seg = [] \<or> permitted gh (extractShellCommandBase seg))"
    if seg: "seg \<in> set (commands s)" for seg
  proof -
    have "permitted gh (extractShellCommandBase seg)" if ne: "Fields seg \<noteq> []"
    proof -
      obtain seg' where "seg' \<in> set (commands (TrimSpace s))" "Fields seg' = Fields seg" using same [OF seg ne commands_trim [symmetric]] by blast
      then show ?thesis using bases ne base_fields Fields_nil by metis
    qed
    then show ?thesis using Fields_segment [OF assms(3) seg] by blast
  qed
  obtain seg0 where seg0: "seg0 \<in> set (commands (TrimSpace s))" "fetch_base gh (extractShellCommandBase seg0)" using bases by blast
  then have "Fields seg0 \<noteq> []" by (auto simp: extractShellCommandBase_def Fields_trim fetch_base_def)
  then obtain seg where seg: "seg \<in> set (commands s)" "Fields seg = Fields seg0" using same [OF seg0(1) _ commands_trim] by blast
  then have "fetch_base gh (extractShellCommandBase seg)" using seg0(2) base_fields by metis
  then have "permitted gh (extractShellCommandBase seg)" by (simp add: permitted_def)
  from permitted_base(2) [OF refl this \<open>fetch_base gh (extractShellCommandBase seg)\<close>] one [OF seg(1)] seg \<open>Fields seg0 \<noteq> []\<close>
  have "\<exists>seg \<in> set (commands s). \<exists>ws. shell_words seg = Some ws \<and> ws \<noteq> [] \<and>
       (case program ws of None \<Rightarrow> CHR ''='' \<in> set (last ws) | Some p \<Rightarrow> CHR ''='' \<in> set p \<or> network_client gh (base_name p))"
    by (intro bexI [of _ seg] exI [of _ "Fields seg"]) simp_all
  moreover have "\<forall>seg \<in> set (commands s). \<exists>ws. shell_words seg = Some ws \<and>
       (ws = [] \<or> (case program ws of None \<Rightarrow> CHR ''='' \<in> set (last ws)
          | Some p \<Rightarrow> CHR ''='' \<in> set p \<or> network_client gh (base_name p) \<or> stream_filter (base_name p)))"
  proof
    fix seg assume "seg \<in> set (commands s)"
    from one [OF this] permitted_base(1) [OF refl, of gh seg]
    show "\<exists>ws. shell_words seg = Some ws \<and> (ws = [] \<or> (case program ws of None \<Rightarrow> CHR ''='' \<in> set (last ws)
          | Some p \<Rightarrow> CHR ''='' \<in> set p \<or> network_client gh (base_name p) \<or> stream_filter (base_name p)))"
      by (intro exI [of _ "Fields seg"]) auto
  qed
  ultimately show ?thesis by blast
qed

section \<open>What gets past the check\<close>








section \<open>Witnesses\<close>

definition sample_command :: string where
  "sample_command = ''curl -s https://a.b/c | head -5 && wget x''"

theorem fetch_commands_only_witness:
  "\<exists>ws. shell_words '' head -5 '' = Some ws \<and> ws = [''head'', ''-5''] \<and>
     (case program ws of None \<Rightarrow> CHR ''='' \<in> set (last ws)
        | Some p \<Rightarrow> CHR ''='' \<in> set p \<or> network_client False (base_name p) \<or> stream_filter (base_name p))"
proof -
  have "isBashFetchCommand [(''command'', AnyStr sample_command)] False" by code_simp
  moreover have "plain_text sample_command"
    by (simp add: plain_text_def sample_command_def plain_char_def byte_class_defs byte_val_def ends_command_def)
  ultimately have all: "\<forall>seg \<in> set (commands sample_command). \<exists>ws. shell_words seg = Some ws \<and>
       (ws = [] \<or> (case program ws of None \<Rightarrow> CHR ''='' \<in> set (last ws)
          | Some p \<Rightarrow> CHR ''='' \<in> set p \<or> network_client False (base_name p) \<or> stream_filter (base_name p)))"
    using fetch_commands_only [of "[(''command'', AnyStr sample_command)]" False sample_command] by simp
  have "List.member (commands sample_command) '' head -5 ''" "shell_words '' head -5 '' = Some [''head'', ''-5'']" by code_simp+
  then show ?thesis using bspec [OF all, of "'' head -5 ''"] by simp
qed


end
