(* ===== verification/Derive_Match.thy ===== *)
theory Derive_Match
  imports Github_Client Portfolio Research_Artifact
begin

text \<open>
  How a citation is looked for in the result of a tool, the text functions of
  \<^verbatim>\<open>tools/emitartifact/derivation.go\<close>: locators on token boundaries and up to their canonical origin, the
  numbered blocks of a web search, the items of a JSON document, and quotes in its strings. Blanks and
  the classes of the regular expressions are those of ASCII.
\<close>

section \<open>Decoding into dynamic values\<close>

text \<open>
  \<^verbatim>\<open>json.Unmarshal\<close> into \<^verbatim>\<open>any\<close>. A number is its exact value, before it is rounded to a double, which nothing here
  looks at; one that rounds to infinity is an error.
\<close>

definition num_rat :: "string \<Rightarrow> rat" where
  "num_rat s =
     (let neg = HasPrefix s ''-''; t = (if neg then tl s else s);
          ip = takeWhile is_digit t; t1 = dropWhile is_digit t;
          fp = (if HasPrefix t1 ''.'' then takeWhile is_digit (tl t1) else []);
          t2 = (if HasPrefix t1 ''.'' then dropWhile is_digit (tl t1) else t1);
          ex = (if t2 = [] then 0 else fst (Atoi (tl t2))) - int (length fp);
          m = of_nat (nat_of_digits 0 (ip @ fp));
          x = (if ex \<ge> 0 then m * 10 ^ nat ex else m / 10 ^ nat (- ex))
      in if neg then - x else x)"

definition in_double :: "rat \<Rightarrow> bool" where
  "in_double r \<longleftrightarrow> \<bar>r\<bar> < 2 ^ 1024 - 2 ^ 970"

fun decode_any :: "jval \<Rightarrow> any option" where
  "decode_any JNull = Some AnyNil"
| "decode_any (JBool b) = Some (AnyBool b)"
| "decode_any (JString s) = Some (AnyStr s)"
| "decode_any (JNumber s) = (if in_double (num_rat s) then Some (AnyFloat (num_rat s)) else None)"
| "decode_any (JList xs) = map_option AnyList (those (map decode_any xs))"
| "decode_any (JMap kvs) =
     map_option (\<lambda>xs. AnyMap (fold (\<lambda>(k, v). gm_put k v) xs []))
       (those (map (\<lambda>kv. map_option (Pair (fst kv)) (decode_any (snd kv))) kvs))"

definition unmarshal_any :: "string \<Rightarrow> any option" where
  "unmarshal_any s = Option.bind (parse_json s) decode_any"

record RepoFailure =
  fl_Repository :: string
  fl_Kind :: string
  fl_Error :: string

record evidenceRecordsEnvelope =
  en_Records :: "EvidenceRecord list"
  en_Failures :: "RepoFailure list"

definition dec_evidence :: "jval \<Rightarrow> EvidenceRecord option" where
  "dec_evidence v = do {
     kvs \<leftarrow> fields_of v;
     channel \<leftarrow> string_field ''channel'' kvs;
     locator \<leftarrow> string_field ''locator'' kvs;
     origin \<leftarrow> string_field ''origin_id'' kvs;
     source \<leftarrow> string_field ''source_class'' kvs;
     retrieved \<leftarrow> time_at [''retrieved_at''] kvs;
     body \<leftarrow> string_field ''raw_body'' kvs;
     quote \<leftarrow> string_field ''quote'' kvs;
     ref \<leftarrow> string_field ''tool_result_ref'' kvs;
     revision \<leftarrow> int_field ''revision'' kvs;
     kind \<leftarrow> string_field ''kind'' kvs;
     repository \<leftarrow> string_field ''repository'' kvs;
     url \<leftarrow> string_field ''html_url'' kvs;
     updated \<leftarrow> pointer_field (dec_time (mk_utc 0)) ''updated_at'' kvs;
     Some \<lparr>ev_Channel = channel, ev_Locator = locator, ev_OriginID = origin, ev_SourceClass = source, ev_RetrievedAt = retrieved,
       ev_RawBody = body, ev_Quote = quote, ev_ToolResultRef = ref, ev_Revision = revision, ev_Kind = kind, ev_Repository = repository,
       ev_HTMLURL = url, ev_UpdatedAt = updated\<rparr> }"

definition dec_failure :: "jval \<Rightarrow> RepoFailure option" where
  "dec_failure v = do {
     kvs \<leftarrow> fields_of v;
     repository \<leftarrow> string_field ''repository'' kvs;
     kind \<leftarrow> string_field ''kind'' kvs;
     err \<leftarrow> string_field ''error'' kvs;
     Some \<lparr>fl_Repository = repository, fl_Kind = kind, fl_Error = err\<rparr> }"

definition unmarshal_envelope :: "string \<Rightarrow> evidenceRecordsEnvelope option" where
  "unmarshal_envelope s = do {
     v \<leftarrow> parse_json s;
     kvs \<leftarrow> fields_of v;
     records \<leftarrow> slice_field dec_evidence ''records'' kvs;
     failures \<leftarrow> slice_field dec_failure ''failures'' kvs;
     Some \<lparr>en_Records = records, en_Failures = failures\<rparr> }"

section \<open>Quotes\<close>

definition normalizeWhitespace :: "string \<Rightarrow> string" where
  "normalizeWhitespace s = Join (Fields s) '' ''"

fun valueContainsNormalizedQuote :: "any \<Rightarrow> string \<Rightarrow> string \<Rightarrow> bool" where
  "valueContainsNormalizedQuote (AnyStr s) raw nq =
     (raw \<noteq> [] \<and> Contains s raw \<or> nq \<noteq> [] \<and> Contains (normalizeWhitespace s) nq)"
| "valueContainsNormalizedQuote (AnyMap kvs) raw nq = list_ex (\<lambda>kv. valueContainsNormalizedQuote (snd kv) raw nq) kvs"
| "valueContainsNormalizedQuote (AnyList xs) raw nq = list_ex (\<lambda>x. valueContainsNormalizedQuote x raw nq) xs"
| "valueContainsNormalizedQuote _ raw nq = False"

definition quoteEchoedInDispatchArgs :: "(string \<times> any) list \<Rightarrow> string \<Rightarrow> bool" where
  "quoteEchoedInDispatchArgs args quote =
     (let nq = normalizeWhitespace quote in args \<noteq> [] \<and> nq \<noteq> [] \<and> valueContainsNormalizedQuote (AnyMap args) quote nq)"

fun valueContainsSubstring :: "any \<Rightarrow> string \<Rightarrow> bool" where
  "valueContainsSubstring (AnyStr s) needle = Contains s needle"
| "valueContainsSubstring (AnyMap kvs) needle = list_ex (\<lambda>kv. valueContainsSubstring (snd kv) needle) kvs"
| "valueContainsSubstring (AnyList xs) needle = list_ex (\<lambda>x. valueContainsSubstring x needle) xs"
| "valueContainsSubstring _ needle = False"

definition jsonStringsContain :: "string \<Rightarrow> string \<Rightarrow> bool" where
  "jsonStringsContain rawJSON needle =
     (if needle = [] \<or> rawJSON = [] then False
      else case unmarshal_any rawJSON of None \<Rightarrow> False | Some v \<Rightarrow> valueContainsSubstring v needle)"

definition contentContainsVerbatimQuote :: "string \<Rightarrow> string \<Rightarrow> bool" where
  "contentContainsVerbatimQuote content quote \<longleftrightarrow> quote \<noteq> [] \<and> (Contains content quote \<or> jsonStringsContain content quote)"

section \<open>Locators\<close>

definition isURLTokenContinuationByte :: "char \<Rightarrow> bool" where
  "isURLTokenContinuationByte b \<longleftrightarrow>
     is_lower_alpha b \<or> is_upper_alpha b \<or> is_digit b \<or> b \<in> set ''/?&=#-_:%@+~.''"

text \<open>\<^verbatim>\<open>strings.Index\<close>.\<close>

fun str_index :: "string \<Rightarrow> string \<Rightarrow> nat option" where
  "str_index [] n = (if n = [] then Some 0 else None)"
| "str_index (c # cs) n = (if HasPrefix (c # cs) n then Some 0 else map_option Suc (str_index cs n))"

function bounded_from :: "string \<Rightarrow> string \<Rightarrow> nat \<Rightarrow> bool" where
  "bounded_from haystack needle searchFrom =
     (case str_index (drop searchFrom haystack) needle of
        None \<Rightarrow> False
      | Some idx \<Rightarrow>
        (let start = searchFrom + idx; stop = start + length needle in
         if (start = 0 \<or> \<not> isURLTokenContinuationByte (haystack ! (start - 1))) \<and>
            (stop = length haystack \<or> \<not> isURLTokenContinuationByte (haystack ! stop)) then True
         else if Suc start \<ge> length haystack then False
         else bounded_from haystack needle (Suc start)))"
  by pat_completeness auto
termination
  by (relation "measure (\<lambda>(h, n, i). length h - i)") auto

declare bounded_from.simps [simp del]

definition containsURLOrTokenBounded :: "string \<Rightarrow> string \<Rightarrow> bool" where
  "containsURLOrTokenBounded haystack needle \<longleftrightarrow> haystack \<noteq> [] \<and> needle \<noteq> [] \<and> bounded_from haystack needle 0"

definition re_space :: "char \<Rightarrow> bool" where
  "re_space c \<longleftrightarrow> byte_val c \<in> {9, 10, 12, 13, 32}"

definition url_token_char :: "char \<Rightarrow> bool" where
  "url_token_char c \<longleftrightarrow> \<not> re_space c \<and> c \<notin> {CHR 0x22, CHR 0x27} \<and> c \<notin> set ''<>()[]{}''"

definition url_prefix :: "string \<Rightarrow> string option" where
  "url_prefix s = List.find (\<lambda>p. HasPrefix s p \<and> (case drop (length p) s of [] \<Rightarrow> False | c # _ \<Rightarrow> url_token_char c))
     [''http://'', ''https://'', ''github://'', ''semsource://'']"

text \<open>\<^verbatim>\<open>urlTokenRe.FindAllString\<close>.\<close>

function url_tokens :: "string \<Rightarrow> string list" where
  "url_tokens [] = []"
| "url_tokens (c # cs) =
     (case url_prefix (c # cs) of
        None \<Rightarrow> url_tokens cs
      | Some p \<Rightarrow> (let tok = p @ takeWhile url_token_char (drop (length p) (c # cs)) in tok # url_tokens (drop (max 1 (length tok)) (c # cs))))"
  by pat_completeness auto
termination
  by (relation "measure length") auto

definition trim_token :: "string \<Rightarrow> string" where
  "trim_token tok = rev (dropWhile (\<lambda>c. c \<in> {CHR 0x22, CHR 0x27} \<or> c \<in> set ''.,;:!?)]}>'') (rev tok))"

definition locator_candidates :: "string \<Rightarrow> string \<Rightarrow> string \<Rightarrow> string list" where
  "locator_candidates channel locator originID =
     [locator, originID] @
     (if channel = ChannelSemSource then map (drop 12) (filter (\<lambda>c. HasPrefix (ToLower c) ''semsource://'') [locator, originID]) else [])"

definition textContainsLocatorOrOrigin :: "net_url \<Rightarrow> string \<Rightarrow> string \<Rightarrow> string \<Rightarrow> string \<Rightarrow> bool" where
  "textContainsLocatorOrOrigin lib body channel locator originID =
     (if body = [] then False
      else if list_ex (\<lambda>cand. TrimSpace cand \<noteq> [] \<and> containsURLOrTokenBounded body (TrimSpace cand)) (locator_candidates channel locator originID) then True
      else originID \<noteq> [] \<and> list_ex (\<lambda>raw. NormalizeOriginID lib channel (trim_token raw) = Inr originID) (url_tokens body))"

fun valueContainsLocatorOrOrigin :: "net_url \<Rightarrow> any \<Rightarrow> string \<Rightarrow> string \<Rightarrow> string \<Rightarrow> bool" where
  "valueContainsLocatorOrOrigin lib (AnyStr s) channel locator originID = textContainsLocatorOrOrigin lib s channel locator originID"
| "valueContainsLocatorOrOrigin lib (AnyMap kvs) channel locator originID =
     list_ex (\<lambda>kv. valueContainsLocatorOrOrigin lib (snd kv) channel locator originID) kvs"
| "valueContainsLocatorOrOrigin lib (AnyList xs) channel locator originID =
     list_ex (\<lambda>x. valueContainsLocatorOrOrigin lib x channel locator originID) xs"
| "valueContainsLocatorOrOrigin lib _ channel locator originID = False"

section \<open>Parts of a result\<close>

text \<open>The length of a block number with the blanks behind it, and where such numbers begin a line.\<close>

definition block_head :: "string \<Rightarrow> nat option" where
  "block_head s =
     (case s of [] \<Rightarrow> None
      | c # cs \<Rightarrow>
        (let ds = takeWhile is_digit cs; rest = dropWhile is_digit cs; ws = takeWhile re_space (tl rest) in
         if c = CHR ''['' \<and> ds \<noteq> [] \<and> rest \<noteq> [] \<and> hd rest = CHR '']'' \<and> ws \<noteq> [] then Some (2 + length ds + length ws) else None))"

function block_starts :: "nat \<Rightarrow> bool \<Rightarrow> string \<Rightarrow> nat list" where
  "block_starts i line_start [] = []"
| "block_starts i line_start (c # cs) =
     (case (if line_start then block_head (c # cs) else None) of
        None \<Rightarrow> block_starts (Suc i) (c = CHR 0x0A) cs
      | Some n \<Rightarrow> i # block_starts (i + max 1 n) ((c # cs) ! (n - 1) = CHR 0x0A) (drop (max 1 n) (c # cs)))"
  by pat_completeness auto
termination
  by (relation "measure (\<lambda>(i, b, s). length s)") auto

definition parseWebSearchBlocks :: "string \<Rightarrow> string list" where
  "parseWebSearchBlocks content =
     (let starts = block_starts 0 True content in
      map2 (\<lambda>a b. take (b - a) (drop a content)) starts (tl starts @ [length content]))"

definition multi_item_keys :: "string list" where
  "multi_item_keys = [''entities'', ''results'', ''items'', ''nodes'', ''data'', ''edges'']"

definition extractJSONMultiItems :: "string \<Rightarrow> any list option" where
  "extractJSONMultiItems rawJSON =
     (let trimmed = TrimSpace rawJSON in
      if trimmed = [] \<or> (hd trimmed \<noteq> CHR ''['' \<and> hd trimmed \<noteq> CHR ''{'') then None
      else case unmarshal_any trimmed of
        Some (AnyList xs) \<Rightarrow> if xs \<noteq> [] then Some xs else None
      | Some (AnyMap kvs) \<Rightarrow>
          (case List.find (\<lambda>key. case gm_get kvs key of Some (AnyList arr) \<Rightarrow> arr \<noteq> [] | _ \<Rightarrow> False) multi_item_keys of
             None \<Rightarrow> None
           | Some key \<Rightarrow> as_list (gm_get kvs key))
      | _ \<Rightarrow> None)"

section \<open>Token boundaries\<close>

lemma str_index_None: "str_index s n = None \<Longrightarrow> \<not> HasPrefix (drop i s) n"
proof (induction s arbitrary: i)
  case (Cons c cs)
  then show ?case by (cases i) (auto split: if_splits)
qed (auto simp: HasPrefix_def split: if_splits)

lemma str_index_Some:
  "str_index s n = Some i \<Longrightarrow> HasPrefix (drop i s) n \<and> i \<le> length s \<and> (\<forall>j < i. \<not> HasPrefix (drop j s) n)"
proof (induction s arbitrary: i)
  case (Cons c cs)
  show ?case
  proof (cases "HasPrefix (c # cs) n")
    case False
    then obtain j where "str_index cs n = Some j" "i = Suc j" using Cons.prems by auto
    with Cons.IH [of j] False show ?thesis by (auto simp: less_Suc_eq_0_disj)
  qed (use Cons.prems in simp)
qed (auto simp: HasPrefix_def split: if_splits)

text \<open>An occurrence at \<open>i\<close> with no character of a token on either side.\<close>

definition free_at :: "string \<Rightarrow> string \<Rightarrow> nat \<Rightarrow> bool" where
  "free_at h n i \<longleftrightarrow> HasPrefix (drop i h) n \<and> (i = 0 \<or> \<not> isURLTokenContinuationByte (h ! (i - 1))) \<and>
     (i + length n = length h \<or> \<not> isURLTokenContinuationByte (h ! (i + length n)))"

lemma bounded_from_iff: "n \<noteq> [] \<Longrightarrow> bounded_from h n from \<longleftrightarrow> (\<exists>i \<ge> from. free_at h n i)"
proof (induction h n "from" rule: bounded_from.induct)
  case (1 h n "from")
  show ?case
  proof (cases "str_index (drop from h) n")
    case None
    have "\<not> HasPrefix (drop i h) n" if "i \<ge> from" for i
      using str_index_None [OF None, of "i - from"] that by simp
    then show ?thesis using None by (subst bounded_from.simps) (auto simp: free_at_def)
  next
    case (Some idx)
    note first = str_index_Some [OF Some]
    let ?i = "from + idx"
    have here: "HasPrefix (drop ?i h) n" using first by (simp add: add.commute)
    have none: "\<not> HasPrefix (drop i h) n" if "from \<le> i" "i < ?i" for i
      using first that by (metis add_diff_inverse_nat drop_drop nat_add_left_cancel_less not_less add.commute)
    have past: "\<not> HasPrefix (drop i h) n" if "length h \<le> i" for i
      using that 1(2) by (simp add: HasPrefix_def)
    show ?thesis
    proof (cases "free_at h n ?i")
      case True
      then have "bounded_from h n from" using Some by (subst bounded_from.simps) (simp add: free_at_def Let_def)
      with True show ?thesis by (meson le_add1)
    next
      case False
      then have no: "\<not> ((?i = 0 \<or> \<not> isURLTokenContinuationByte (h ! (?i - 1))) \<and> (?i + length n = length h \<or> \<not> isURLTokenContinuationByte (h ! (?i + length n))))"
        using here by (simp add: free_at_def)
      have rest: "(\<exists>i \<ge> from. free_at h n i) \<longleftrightarrow> (\<exists>i \<ge> Suc ?i. free_at h n i)"
      proof
        assume "\<exists>i \<ge> from. free_at h n i"
        then obtain i where i: "from \<le> i" "free_at h n i" by blast
        then have "\<not> i < ?i" "i \<noteq> ?i" using none [of i] False by (auto simp: free_at_def)
        then show "\<exists>i \<ge> Suc ?i. free_at h n i" using i(2) by (intro exI [of _ i]) simp
      next
        assume "\<exists>i \<ge> Suc ?i. free_at h n i"
        then show "\<exists>i \<ge> from. free_at h n i" by (meson Suc_leD le_add1 le_trans)
      qed
      show ?thesis
      proof (cases "Suc ?i \<ge> length h")
        case True
        then have "\<not> (\<exists>i \<ge> Suc ?i. free_at h n i)" using past by (auto simp: free_at_def)
        moreover have "\<not> bounded_from h n from" using Some no True by (subst bounded_from.simps) (auto simp: Let_def)
        ultimately show ?thesis using rest by blast
      next
        case False
        then have "bounded_from h n (Suc ?i) \<longleftrightarrow> (\<exists>i \<ge> Suc ?i. free_at h n i)"
          using 1(1) [OF Some refl refl] no 1(2) by simp
        moreover have "bounded_from h n from \<longleftrightarrow> bounded_from h n (Suc ?i)" using Some no False by (subst bounded_from.simps) (auto simp: Let_def)
        ultimately show ?thesis using rest by blast
      qed
    qed
  qed
qed

lemma free_at_iff:
  "(\<exists>i. free_at h n i) \<longleftrightarrow> (\<exists>a b. h = a @ n @ b \<and> (a = [] \<or> \<not> isURLTokenContinuationByte (last a)) \<and> (b = [] \<or> \<not> isURLTokenContinuationByte (hd b)))"
  if "n \<noteq> []"
proof
  assume "\<exists>i. free_at h n i"
  then obtain i where i: "free_at h n i" by blast
  then have at_i: "take (length n) (drop i h) = n" by (simp add: free_at_def HasPrefix_def)
  then have len: "i + length n \<le> length h" using that
    by (metis add.commute diff_diff_left drop_eq_Nil length_drop length_take linorder_le_cases min.absorb1 min.absorb2 le_diff_conv2 nat_le_linear take_Nil)
  have "h = take i h @ n @ drop (i + length n) h" using at_i by (metis append_take_drop_id drop_drop add.commute)
  moreover have "take i h = [] \<or> \<not> isURLTokenContinuationByte (last (take i h))"
  proof (cases "i = 0")
    case False
    then have "take i h \<noteq> []" "length (take i h) = i" using len that by auto
    then have "last (take i h) = h ! (i - 1)" using False by (simp add: last_conv_nth)
    with i show ?thesis by (simp add: free_at_def False)
  qed simp
  moreover have "drop (i + length n) h = [] \<or> \<not> isURLTokenContinuationByte (hd (drop (i + length n) h))"
    using i len by (auto simp: free_at_def hd_drop_conv_nth)
  ultimately show "\<exists>a b. h = a @ n @ b \<and> (a = [] \<or> \<not> isURLTokenContinuationByte (last a)) \<and> (b = [] \<or> \<not> isURLTokenContinuationByte (hd b))" by blast
next
  assume "\<exists>a b. h = a @ n @ b \<and> (a = [] \<or> \<not> isURLTokenContinuationByte (last a)) \<and> (b = [] \<or> \<not> isURLTokenContinuationByte (hd b))"
  then obtain a b where "h = a @ n @ b" "a = [] \<or> \<not> isURLTokenContinuationByte (last a)" "b = [] \<or> \<not> isURLTokenContinuationByte (hd b)" by blast
  then have "free_at h n (length a)"
    by (cases a rule: rev_cases; cases b) (auto simp: free_at_def HasPrefix_def nth_append)
  then show "\<exists>i. free_at h n i" by blast
qed

text \<open>Nothing before, or nothing after, that continues a URL.\<close>

definition apart_before :: "string \<Rightarrow> bool" where
  "apart_before a \<longleftrightarrow> a = [] \<or> \<not> isURLTokenContinuationByte (last a)"

definition apart_after :: "string \<Rightarrow> bool" where
  "apart_after b \<longleftrightarrow> b = [] \<or> \<not> isURLTokenContinuationByte (hd b)"

text \<open>
  C18. A locator is found exactly where it stands as a token of its own: the loop over the occurrences accepts a
  text if and only if it splits around the locator with nothing on either side that continues a URL.
\<close>

theorem locator_stands_alone:
  "containsURLOrTokenBounded body loc \<longleftrightarrow>
     loc \<noteq> [] \<and> (\<exists>a b. body = a @ loc @ b \<and> apart_before a \<and> apart_after b)"
  using free_at_iff [of loc body] bounded_from_iff [of loc body 0]
  by (auto simp: containsURLOrTokenBounded_def apart_before_def apart_after_def)

end
