(* ===== verification/Derive_Verify.thy ===== *)
theory Derive_Verify
  imports Derive_Match Derive_Shell Tool_Call
begin

text \<open>
  The derivation check, \<^verbatim>\<open>VerifyDerivation\<close> of \<^verbatim>\<open>tools/emitartifact/derivation.go\<close>: every citation of an artifact
  is held against the result of the tool call it names. The resolver of results is an argument, over a world
  of its own; each reference is resolved once and then remembered. An error carries its class and its cause;
  the artifact of a check that fails is dropped by the caller, so the fields stamped before the failure
  are not kept.
\<close>

section \<open>Data\<close>

record ResolvedToolResult =
  rs_Ref :: string
  rs_CallID :: string
  rs_ExecutionID :: string
  rs_LoopID :: string
  rs_ToolName :: string
  rs_Status :: string
  rs_Error :: string
  rs_ErrorKind :: string
  rs_Content :: string
  rs_DispatchArguments :: "(string \<times> any) list"
  rs_ObservedAt :: gotime
  rs_ProducerRevision :: int

datatype derive_cause =
    NilResult string | ToolFailed string string | NoToolName string | BashNotFetch string string
  | ToolNotAllowed string string string | ChannelUnsupported string | QuoteEchoed string string
  | RevisionMismatch int string int string | NoRecord string string string | KindMismatch string string string
  | QuoteNotInRecord string string string | SnippetOnly string | NoBlocks string | NoBlock string string string
  | QuoteNotInBlock string string string | NoItem string string string | QuoteNotInItem string string string
  | NoReference string string string | QuoteNotInOutput string string | Undisclosed string string string string
  | InActor nat string nat derive_cause | InPoint nat string string nat derive_cause
  | RefRequired | NotFound string | ForeignRun string string string string | ForeignLoop string string string
  | ReadFailed string string | StoreUnavailable string | ListFailed string string | GetFailed string string | DecodeFailed string
  | DigestMismatch string string string | EmptyBody string

record DerivationError =
  de_Kind :: ToolErrorKind
  de_Cause :: derive_cause

definition newInvalidArgsErr :: "derive_cause \<Rightarrow> DerivationError" where
  "newInvalidArgsErr c = \<lparr>de_Kind = ToolErrorInvalidArgs, de_Cause = c\<rparr>"

definition newNetworkErr :: "derive_cause \<Rightarrow> DerivationError" where
  "newNetworkErr c = \<lparr>de_Kind = ToolErrorNetwork, de_Cause = c\<rparr>"

definition newInternalErr :: "derive_cause \<Rightarrow> DerivationError" where
  "newInternalErr c = \<lparr>de_Kind = ToolErrorInternal, de_Cause = c\<rparr>"

text \<open>A prefix keeps the class of the error it is put before.\<close>

definition wrapWithContext :: "(derive_cause \<Rightarrow> derive_cause) \<Rightarrow> DerivationError \<Rightarrow> DerivationError" where
  "wrapWithContext place e = \<lparr>de_Kind = de_Kind e, de_Cause = place (de_Cause e)\<rparr>"

section \<open>One citation\<close>

definition checkToolResultSucceeded :: "EvidenceRecord \<Rightarrow> ResolvedToolResult \<Rightarrow> DerivationError option" where
  "checkToolResultSucceeded ev res =
     (if EqualFold (TrimSpace (rs_Status res)) ''failed'' \<or> TrimSpace (rs_Error res) \<noteq> [] \<or> TrimSpace (rs_ErrorKind res) \<noteq> []
      then Some (newInvalidArgsErr (ToolFailed (ev_ToolResultRef ev) (rs_ToolName res))) else None)"

definition checkAllowedRetrievalTool :: "EvidenceRecord \<Rightarrow> ResolvedToolResult \<Rightarrow> DerivationError option" where
  "checkAllowedRetrievalTool ev res =
     (let tool = ToLower (TrimSpace (rs_ToolName res)); channel = ev_Channel ev;
          refused = Some (newInvalidArgsErr (ToolNotAllowed (ev_ToolResultRef ev) (rs_ToolName res) channel));
          bash = (\<lambda>gh. if isBashFetchCommand (rs_DispatchArguments res) gh then None
                        else Some (newInvalidArgsErr (BashNotFetch (ev_ToolResultRef ev) channel)))
      in if tool = [] then Some (newInvalidArgsErr (NoToolName (ev_ToolResultRef ev)))
         else if channel = ChannelGitHub then
           (if tool \<in> {''github_read'', ''http_request''} then None else if tool = ''bash'' then bash True else refused)
         else if channel = ChannelWeb then
           (if tool \<in> {''web_search'', ''http_request''} then None else if tool = ''bash'' then bash False else refused)
         else if channel = ChannelSemSource then
           (if tool \<in> {''graph_query'', ''graph_search'', ''query_entity'', ''query_relationships'', ''semsource_read''} then None else refused)
         else Some (newInvalidArgsErr (ChannelUnsupported channel)))"

definition verify_revision :: "EvidenceRecord \<Rightarrow> ResolvedToolResult \<Rightarrow> DerivationError + EvidenceRecord" where
  "verify_revision ev res =
     (if rs_ProducerRevision res > 0 then
        (if ev_Revision ev = 0 then Inr (ev\<lparr>ev_Revision := rs_ProducerRevision res\<rparr>)
         else if ev_Revision ev \<noteq> rs_ProducerRevision res
           then Inl (newInvalidArgsErr (RevisionMismatch (ev_Revision ev) (rs_LoopID res) (rs_ProducerRevision res) (ev_ToolResultRef ev)))
         else Inr ev)
      else Inr ev)"

definition stamp_retrieved :: "EvidenceRecord \<Rightarrow> ResolvedToolResult \<Rightarrow> EvidenceRecord" where
  "stamp_retrieved ev res = (if time_IsZero (rs_ObservedAt res) then ev else ev\<lparr>ev_RetrievedAt := time_UTC (rs_ObservedAt res)\<rparr>)"

definition record_matches :: "EvidenceRecord \<Rightarrow> EvidenceRecord \<Rightarrow> bool" where
  "record_matches ev r \<longleftrightarrow> ev_OriginID ev \<noteq> [] \<and> ev_OriginID r = ev_OriginID ev \<or> ev_Locator ev \<noteq> [] \<and> ev_Locator r = ev_Locator ev"

definition record_text :: "EvidenceRecord \<Rightarrow> string" where
  "record_text r = (if ev_RawBody r = [] then ev_Quote r else ev_RawBody r)"

text \<open>The matched records in order; the first whose text holds the quote decides.\<close>

fun records_scan :: "EvidenceRecord \<Rightarrow> ResolvedToolResult \<Rightarrow> EvidenceRecord list \<Rightarrow> (DerivationError + EvidenceRecord) option" where
  "records_scan ev res [] = None"
| "records_scan ev res (r # rs) =
     (if Contains (record_text r) (ev_Quote ev) then
        Some (if ev_Kind r \<noteq> [] \<and> ev_Kind ev \<noteq> [] \<and> ev_Kind ev \<noteq> ev_Kind r
              then Inl (newInvalidArgsErr (KindMismatch (ev_Kind ev) (ev_Kind r) (ev_ToolResultRef ev)))
              else Inr (let ev1 = (if ev_Kind r \<noteq> [] then ev\<lparr>ev_Kind := ev_Kind r\<rparr> else ev) in
                        if time_IsZero (rs_ObservedAt res) \<and> \<not> time_IsZero (ev_RetrievedAt r)
                        then ev1\<lparr>ev_RetrievedAt := time_UTC (ev_RetrievedAt r)\<rparr> else ev1))
      else records_scan ev res rs)"

definition verify_records :: "EvidenceRecord \<Rightarrow> ResolvedToolResult \<Rightarrow> EvidenceRecord list \<Rightarrow> DerivationError + EvidenceRecord" where
  "verify_records ev res records =
     (case filter (record_matches ev) records of
        [] \<Rightarrow> Inl (newInvalidArgsErr (NoRecord (ev_ToolResultRef ev) (ev_Locator ev) (ev_OriginID ev)))
      | r # rs \<Rightarrow>
          (case records_scan ev res (r # rs) of
             Some out \<Rightarrow> out
           | None \<Rightarrow> Inl (newInvalidArgsErr (QuoteNotInRecord (ev_Quote ev) (ev_ToolResultRef ev) (ev_OriginID r)))))"

definition verifyWebSearchBlockCitation :: "net_url \<Rightarrow> EvidenceRecord \<Rightarrow> ResolvedToolResult \<Rightarrow> DerivationError option" where
  "verifyWebSearchBlockCitation lib ev res =
     (let blocks = parseWebSearchBlocks (rs_Content res);
          located = filter (\<lambda>b. textContainsLocatorOrOrigin lib b (ev_Channel ev) (ev_Locator ev) (ev_OriginID ev)) blocks
      in if blocks = [] then Some (newInvalidArgsErr (NoBlocks (ev_ToolResultRef ev)))
         else if list_ex (\<lambda>b. Contains b (ev_Quote ev)) located then None
         else if located = [] then Some (newInvalidArgsErr (NoBlock (ev_ToolResultRef ev) (ev_Locator ev) (ev_OriginID ev)))
         else Some (newInvalidArgsErr (QuoteNotInBlock (ev_Quote ev) (ev_Locator ev) (ev_ToolResultRef ev))))"

definition verifyJSONMultiItemCitation :: "net_url \<Rightarrow> EvidenceRecord \<Rightarrow> any list \<Rightarrow> DerivationError option" where
  "verifyJSONMultiItemCitation lib ev items =
     (let located = filter (\<lambda>x. valueContainsLocatorOrOrigin lib x (ev_Channel ev) (ev_Locator ev) (ev_OriginID ev)) items in
      if list_ex (\<lambda>x. valueContainsSubstring x (ev_Quote ev)) located then None
      else if located = [] then Some (newInvalidArgsErr (NoItem (ev_ToolResultRef ev) (ev_Locator ev) (ev_OriginID ev)))
      else Some (newInvalidArgsErr (QuoteNotInItem (ev_Quote ev) (ev_Locator ev) (ev_ToolResultRef ev))))"

definition allowedLocatorDispatchArgKeys :: "string list" where
  "allowedLocatorDispatchArgKeys = [''url'', ''uri'', ''endpoint'', ''path'', ''command'', ''entity_id'', ''id'', ''locator'']"

definition singleResultContainsLocatorOrOrigin :: "net_url \<Rightarrow> ResolvedToolResult \<Rightarrow> string \<Rightarrow> string \<Rightarrow> string \<Rightarrow> bool" where
  "singleResultContainsLocatorOrOrigin lib res channel locator originID \<longleftrightarrow>
     textContainsLocatorOrOrigin lib (rs_Content res) channel locator originID \<or>
     (case unmarshal_any (rs_Content res) of None \<Rightarrow> False | Some v \<Rightarrow> valueContainsLocatorOrOrigin lib v channel locator originID) \<or>
     list_ex (\<lambda>key. case gm_get (rs_DispatchArguments res) key of None \<Rightarrow> False | Some v \<Rightarrow> valueContainsLocatorOrOrigin lib v channel locator originID)
       allowedLocatorDispatchArgKeys"

definition verify_single :: "net_url \<Rightarrow> EvidenceRecord \<Rightarrow> ResolvedToolResult \<Rightarrow> DerivationError option" where
  "verify_single lib ev res =
     (if \<not> singleResultContainsLocatorOrOrigin lib res (ev_Channel ev) (ev_Locator ev) (ev_OriginID ev)
        then Some (newInvalidArgsErr (NoReference (ev_ToolResultRef ev) (ev_Locator ev) (ev_OriginID ev)))
      else if \<not> contentContainsVerbatimQuote (rs_Content res) (ev_Quote ev)
        then Some (newInvalidArgsErr (QuoteNotInOutput (ev_Quote ev) (ev_ToolResultRef ev)))
      else None)"

abbreviation or_error :: "'e option \<Rightarrow> 'a \<Rightarrow> 'e + 'a" where
  "or_error e x \<equiv> (case e of Some err \<Rightarrow> Inl err | None \<Rightarrow> Inr x)"

text \<open>The content of a tool without structured records: blocks of a search, items of a document, or one resource.\<close>

definition verify_text :: "net_url \<Rightarrow> EvidenceRecord \<Rightarrow> ResolvedToolResult \<Rightarrow> DerivationError + EvidenceRecord" where
  "verify_text lib ev res =
     (if ToLower (TrimSpace (rs_ToolName res)) = ''web_search'' then
        (if ev_Kind ev \<noteq> [] \<and> ev_Kind ev \<noteq> ''snippet'' then Inl (newInvalidArgsErr (SnippetOnly (ev_Kind ev)))
         else (let ev1 = ev\<lparr>ev_Kind := ''snippet''\<rparr> in or_error (verifyWebSearchBlockCitation lib ev1 res) ev1))
      else
        (let ev1 = (if ev_Kind ev = [] then ev\<lparr>ev_Kind := (if ev_Channel ev = ChannelSemSource then ''entity'' else ''body'')\<rparr> else ev)
         in case extractJSONMultiItems (rs_Content res) of
              Some items \<Rightarrow> or_error (verifyJSONMultiItemCitation lib ev1 items) ev1
            | None \<Rightarrow> or_error (verify_single lib ev1 res) ev1))"

definition envelope_records :: "ResolvedToolResult \<Rightarrow> EvidenceRecord list" where
  "envelope_records res = (case unmarshal_envelope (rs_Content res) of None \<Rightarrow> [] | Some env \<Rightarrow> en_Records env)"

definition verify_content :: "net_url \<Rightarrow> EvidenceRecord \<Rightarrow> ResolvedToolResult \<Rightarrow> DerivationError + EvidenceRecord" where
  "verify_content lib ev res =
     (if envelope_records res \<noteq> [] then verify_records ev res (envelope_records res) else verify_text lib ev res)"

definition verifyCitationAgainstResult :: "net_url \<Rightarrow> EvidenceRecord \<Rightarrow> ResolvedToolResult \<Rightarrow> DerivationError + EvidenceRecord" where
  "verifyCitationAgainstResult lib ev res =
     (case checkToolResultSucceeded ev res of
        Some e \<Rightarrow> Inl e
      | None \<Rightarrow> (case checkAllowedRetrievalTool ev res of
          Some e \<Rightarrow> Inl e
        | None \<Rightarrow>
            if quoteEchoedInDispatchArgs (rs_DispatchArguments res) (ev_Quote ev)
              then Inl (newInvalidArgsErr (QuoteEchoed (ev_Quote ev) (ev_ToolResultRef ev)))
            else (case verify_revision ev res of
                Inl e \<Rightarrow> Inl e
              | Inr ev1 \<Rightarrow> verify_content lib (stamp_retrieved ev1 res) res)))"

section \<open>The artifact\<close>

text \<open>What is resolved so far: the results by reference, the references and the loops that produced results, in order.\<close>

record 'w vstate =
  vs_cache :: "(string \<times> ResolvedToolResult) list"
  vs_refs :: "string list"
  vs_loops :: "string list"
  vs_world :: 'w

type_synonym 'w resolver = "string \<Rightarrow> 'w \<Rightarrow> (DerivationError + ResolvedToolResult option) \<times> 'w"

definition note_result :: "string \<Rightarrow> ResolvedToolResult \<Rightarrow> 'w vstate \<Rightarrow> 'w vstate" where
  "note_result ref res st =
     (let l = TrimSpace (rs_LoopID res) in
      st\<lparr>vs_cache := gm_put ref res (vs_cache st), vs_refs := vs_refs st @ [ref],
         vs_loops := (if l \<noteq> [] \<and> l \<notin> set (vs_loops st) then vs_loops st @ [l] else vs_loops st)\<rparr>)"

definition resolve_ref :: "'w resolver \<Rightarrow> string \<Rightarrow> 'w vstate \<Rightarrow> (DerivationError + ResolvedToolResult) \<times> 'w vstate" where
  "resolve_ref resolver ref st =
     (case gm_get (vs_cache st) ref of
        Some res \<Rightarrow> (Inr res, st)
      | None \<Rightarrow>
        (case resolver ref (vs_world st) of
           (Inl e, w) \<Rightarrow> (Inl e, st\<lparr>vs_world := w\<rparr>)
         | (Inr None, w) \<Rightarrow> (Inl (newInvalidArgsErr (NilResult ref)), st\<lparr>vs_world := w\<rparr>)
         | (Inr (Some res), w) \<Rightarrow> (Inr res, note_result ref res (st\<lparr>vs_world := w\<rparr>))))"

fun verify_evidence :: "net_url \<Rightarrow> 'w resolver \<Rightarrow> (nat \<Rightarrow> derive_cause \<Rightarrow> derive_cause) \<Rightarrow> nat \<Rightarrow> EvidenceRecord list \<Rightarrow> 'w vstate \<Rightarrow>
   (DerivationError + EvidenceRecord list) \<times> 'w vstate" where
  "verify_evidence lib resolver place j [] st = (Inr [], st)"
| "verify_evidence lib resolver place j (ev # evs) st =
     (case resolve_ref resolver (ev_ToolResultRef ev) st of
        (Inl e, st1) \<Rightarrow> (Inl (wrapWithContext (place j) e), st1)
      | (Inr res, st1) \<Rightarrow>
        (case verifyCitationAgainstResult lib ev res of
           Inl e \<Rightarrow> (Inl (wrapWithContext (place j) e), st1)
         | Inr ev1 \<Rightarrow>
           (case verify_evidence lib resolver place (Suc j) evs st1 of
              (Inl e, st2) \<Rightarrow> (Inl e, st2)
            | (Inr evs1, st2) \<Rightarrow> (Inr (ev1 # evs1), st2))))"

fun verify_actors :: "net_url \<Rightarrow> 'w resolver \<Rightarrow> nat \<Rightarrow> Actor list \<Rightarrow> 'w vstate \<Rightarrow> (DerivationError + Actor list) \<times> 'w vstate" where
  "verify_actors lib resolver i [] st = (Inr [], st)"
| "verify_actors lib resolver i (x # xs) st =
     (case verify_evidence lib resolver (InActor i (ac_Name x)) 0 (ac_Evidence x) st of
        (Inl e, st1) \<Rightarrow> (Inl e, st1)
      | (Inr evs, st1) \<Rightarrow>
        (case verify_actors lib resolver (Suc i) xs st1 of
           (Inl e, st2) \<Rightarrow> (Inl e, st2)
         | (Inr xs1, st2) \<Rightarrow> (Inr (x\<lparr>ac_Evidence := evs\<rparr> # xs1), st2)))"

fun verify_points :: "net_url \<Rightarrow> 'w resolver \<Rightarrow> nat \<Rightarrow> IntegrationPoint list \<Rightarrow> 'w vstate \<Rightarrow> (DerivationError + IntegrationPoint list) \<times> 'w vstate" where
  "verify_points lib resolver i [] st = (Inr [], st)"
| "verify_points lib resolver i (x # xs) st =
     (case verify_evidence lib resolver (InPoint i (ip_From x) (ip_To x)) 0 (ip_Evidence x) st of
        (Inl e, st1) \<Rightarrow> (Inl e, st1)
      | (Inr evs, st1) \<Rightarrow>
        (case verify_points lib resolver (Suc i) xs st1 of
           (Inl e, st2) \<Rightarrow> (Inl e, st2)
         | (Inr xs1, st2) \<Rightarrow> (Inr (x\<lparr>ip_Evidence := evs\<rparr> # xs1), st2)))"

definition openGapsDiscloseRepository :: "string list \<Rightarrow> string \<Rightarrow> bool" where
  "openGapsDiscloseRepository openGaps repoSlug =
     (let want = ToLower (TrimSpace repoSlug) in want = [] \<or> list_ex (\<lambda>gap. Contains (ToLower gap) want) openGaps)"

definition envelope_failures :: "ResolvedToolResult \<Rightarrow> RepoFailure list" where
  "envelope_failures res =
     (if TrimSpace (rs_Content res) = [] then []
      else case unmarshal_envelope (rs_Content res) of None \<Rightarrow> [] | Some env \<Rightarrow> en_Failures env)"

definition disclosed :: "string list \<Rightarrow> RepoFailure \<Rightarrow> bool" where
  "disclosed openGaps f \<longleftrightarrow> TrimSpace (fl_Repository f) = [] \<or> openGapsDiscloseRepository openGaps (TrimSpace (fl_Repository f))"

fun verifyPartialRepoFailureDisclosure :: "string list \<Rightarrow> (string \<times> ResolvedToolResult) list \<Rightarrow> string list \<Rightarrow> DerivationError option" where
  "verifyPartialRepoFailureDisclosure [] cache openGaps = None"
| "verifyPartialRepoFailureDisclosure (ref # refs) cache openGaps =
     (case (case gm_get cache ref of None \<Rightarrow> None
            | Some res \<Rightarrow> List.find (\<lambda>f. \<not> disclosed openGaps f) (envelope_failures res)) of
        Some f \<Rightarrow> Some (newInvalidArgsErr (Undisclosed ref (TrimSpace (fl_Repository f)) (fl_Kind f) (fl_Error f)))
      | None \<Rightarrow> verifyPartialRepoFailureDisclosure refs cache openGaps)"

text \<open>No resolver, no check; otherwise the artifact with its citations stamped, and the loops its evidence came from.\<close>

definition verifyDerivationWithLoops :: "net_url \<Rightarrow> 'w resolver option \<Rightarrow> Artifact \<Rightarrow> 'w \<Rightarrow> (DerivationError + Artifact \<times> string list) \<times> 'w" where
  "verifyDerivationWithLoops lib resolver a w =
     (case resolver of
        None \<Rightarrow> (Inr (a, []), w)
      | Some r \<Rightarrow>
        (case verify_actors lib r 0 (af_Actors a) \<lparr>vs_cache = [], vs_refs = [], vs_loops = [], vs_world = w\<rparr> of
           (Inl e, st) \<Rightarrow> (Inl e, vs_world st)
         | (Inr actors, st) \<Rightarrow>
           (case verify_points lib r 0 (af_IntegrationPoints a) st of
              (Inl e, st1) \<Rightarrow> (Inl e, vs_world st1)
            | (Inr points, st1) \<Rightarrow>
              (case verifyPartialRepoFailureDisclosure (vs_refs st1) (vs_cache st1) (af_OpenGaps a) of
                 Some e \<Rightarrow> (Inl e, vs_world st1)
               | None \<Rightarrow> (Inr (a\<lparr>af_Actors := actors, af_IntegrationPoints := points\<rparr>, vs_loops st1), vs_world st1)))))"

definition VerifyDerivation :: "net_url \<Rightarrow> 'w resolver option \<Rightarrow> Artifact \<Rightarrow> 'w \<Rightarrow> (DerivationError + Artifact) \<times> 'w" where
  "VerifyDerivation lib resolver a w =
     (case verifyDerivationWithLoops lib resolver a w of
        (Inl e, w') \<Rightarrow> (Inl e, w')
      | (Inr (a', _), w') \<Rightarrow> (Inr a', w'))"

end
