(* ===== verification/Derive_Sound.thy ===== *)
theory Derive_Sound
  imports Derive_Verify Github_Read
begin

text \<open>
  What the derivation check establishes: a citation it accepts is supported by the result it names, and an artifact
  it accepts consists of such citations, each reference resolved once, with the failures of its sources disclosed.
\<close>

section \<open>Support\<close>

text \<open>
  A result supports a citation if its locator and its quote are found together. When the result holds records, the
  first record that has both decides, and its kind must not contradict that of the citation; otherwise it is a block of a
  search, an item of a document, or the one resource that was fetched. With the support come the kind the
  citation is accepted as, and the time the record itself gives, when it gives one.
\<close>

definition default_kind :: "EvidenceRecord \<Rightarrow> string" where
  "default_kind ev = (if ev_Kind ev \<noteq> [] then ev_Kind ev else if ev_Channel ev = ChannelSemSource then ''entity'' else ''body'')"

abbreviation no_time :: gotime where "no_time \<equiv> mk_utc 0"

inductive supports :: "net_url \<Rightarrow> EvidenceRecord \<Rightarrow> ResolvedToolResult \<Rightarrow> string \<Rightarrow> gotime \<Rightarrow> bool" for lib ev res where
  in_record: "envelope_records res = earlier @ r # later \<Longrightarrow> record_matches ev r \<Longrightarrow> Contains (record_text r) (ev_Quote ev) \<Longrightarrow>
    \<forall>x \<in> set earlier. \<not> (record_matches ev x \<and> Contains (record_text x) (ev_Quote ev)) \<Longrightarrow>
    ev_Kind r = [] \<or> ev_Kind ev = [] \<or> ev_Kind ev = ev_Kind r \<Longrightarrow>
    supports lib ev res (if ev_Kind r = [] then ev_Kind ev else ev_Kind r) (ev_RetrievedAt r)"
| in_block: "envelope_records res = [] \<Longrightarrow> ToLower (TrimSpace (rs_ToolName res)) = ''web_search'' \<Longrightarrow>
    b \<in> set (parseWebSearchBlocks (rs_Content res)) \<Longrightarrow>
    textContainsLocatorOrOrigin lib b (ev_Channel ev) (ev_Locator ev) (ev_OriginID ev) \<Longrightarrow> Contains b (ev_Quote ev) \<Longrightarrow>
    ev_Kind ev = [] \<or> ev_Kind ev = ''snippet'' \<Longrightarrow> supports lib ev res ''snippet'' no_time"
| in_item: "envelope_records res = [] \<Longrightarrow> ToLower (TrimSpace (rs_ToolName res)) \<noteq> ''web_search'' \<Longrightarrow>
    extractJSONMultiItems (rs_Content res) = Some items \<Longrightarrow> x \<in> set items \<Longrightarrow>
    valueContainsLocatorOrOrigin lib x (ev_Channel ev) (ev_Locator ev) (ev_OriginID ev) \<Longrightarrow> valueContainsSubstring x (ev_Quote ev) \<Longrightarrow>
    supports lib ev res (default_kind ev) no_time"
| in_resource: "envelope_records res = [] \<Longrightarrow> ToLower (TrimSpace (rs_ToolName res)) \<noteq> ''web_search'' \<Longrightarrow>
    extractJSONMultiItems (rs_Content res) = None \<Longrightarrow>
    singleResultContainsLocatorOrOrigin lib res (ev_Channel ev) (ev_Locator ev) (ev_OriginID ev) \<Longrightarrow>
    contentContainsVerbatimQuote (rs_Content res) (ev_Quote ev) \<Longrightarrow> supports lib ev res (default_kind ev) no_time"

text \<open>
  A citation as it is accepted: nothing but its revision, its time and its kind may differ from what was submitted. The
  revision is that of the producer when the result names one, and then the one submitted must be that or none; the time
  is that of the tool call, else that of the record, else the one submitted.
\<close>

definition well_cited :: "net_url \<Rightarrow> ResolvedToolResult \<Rightarrow> EvidenceRecord \<Rightarrow> EvidenceRecord \<Rightarrow> bool" where
  "well_cited lib res ev ev' \<longleftrightarrow>
     checkToolResultSucceeded ev res = None \<and> checkAllowedRetrievalTool ev res = None \<and>
     \<not> quoteEchoedInDispatchArgs (rs_DispatchArguments res) (ev_Quote ev) \<and>
     (rs_ProducerRevision res > 0 \<longrightarrow> ev_Revision ev = 0 \<or> ev_Revision ev = rs_ProducerRevision res) \<and>
     (\<exists>kind own_time. supports lib ev res kind own_time \<and>
        ev' = ev\<lparr>ev_Kind := kind,
          ev_Revision := (if rs_ProducerRevision res > 0 then rs_ProducerRevision res else ev_Revision ev),
          ev_RetrievedAt := (if \<not> time_IsZero (rs_ObservedAt res) then time_UTC (rs_ObservedAt res)
             else if \<not> time_IsZero own_time then time_UTC own_time else ev_RetrievedAt ev)\<rparr>)"

lemma records_scan_sound:
  "records_scan ev res rs = Some (Inr ev') \<Longrightarrow>
   \<exists>us r vs. rs = us @ r # vs \<and> Contains (record_text r) (ev_Quote ev) \<and> (\<forall>x \<in> set us. \<not> Contains (record_text x) (ev_Quote ev)) \<and>
     (ev_Kind r = [] \<or> ev_Kind ev = [] \<or> ev_Kind ev = ev_Kind r) \<and>
     ev' = ev\<lparr>ev_Kind := (if ev_Kind r = [] then ev_Kind ev else ev_Kind r),
       ev_RetrievedAt := (if time_IsZero (rs_ObservedAt res) \<and> \<not> time_IsZero (ev_RetrievedAt r) then time_UTC (ev_RetrievedAt r) else ev_RetrievedAt ev)\<rparr>"
proof (induction rs)
  case (Cons r rs)
  show ?case
  proof (cases "Contains (record_text r) (ev_Quote ev)")
    case True
    with Cons.prems show ?thesis
      by (intro exI [of _ "[]"] exI [of _ r] exI [of _ rs]) (auto simp: Let_def split: if_splits)
  next
    case False
    with Cons.prems have "records_scan ev res rs = Some (Inr ev')" by simp
    from Cons.IH [OF this] obtain us x vs where "rs = us @ x # vs \<and> Contains (record_text x) (ev_Quote ev) \<and>
        (\<forall>x \<in> set us. \<not> Contains (record_text x) (ev_Quote ev)) \<and> (ev_Kind x = [] \<or> ev_Kind ev = [] \<or> ev_Kind ev = ev_Kind x) \<and>
        ev' = ev\<lparr>ev_Kind := (if ev_Kind x = [] then ev_Kind ev else ev_Kind x),
          ev_RetrievedAt := (if time_IsZero (rs_ObservedAt res) \<and> \<not> time_IsZero (ev_RetrievedAt x) then time_UTC (ev_RetrievedAt x) else ev_RetrievedAt ev)\<rparr>"
      by blast
    with False show ?thesis by (intro exI [of _ "r # us"] exI [of _ x] exI [of _ vs]) simp
  qed
qed simp

lemma filter_first:
  "filter P xs = us @ y # vs \<Longrightarrow> \<exists>as bs. xs = as @ y # bs \<and> P y \<and> (\<forall>x \<in> set as. P x \<longrightarrow> x \<in> set us)"
proof (induction xs arbitrary: us)
  case (Cons x xs)
  consider "P x" "us = []" "x = y" "vs = filter P xs" | us' where "P x" "us = x # us'" "filter P xs = us' @ y # vs"
    | "\<not> P x" "filter P xs = us @ y # vs"
    using Cons.prems by (cases us) (auto split: if_splits)
  then show ?case
  proof cases
    case 1
    then show ?thesis by (intro exI [of _ "[]"] exI [of _ xs]) simp
  next
    case 2
    then obtain as bs where "xs = as @ y # bs \<and> P y \<and> (\<forall>x \<in> set as. P x \<longrightarrow> x \<in> set us')" using Cons.IH by blast
    with 2 show ?thesis by (intro exI [of _ "x # as"] exI [of _ bs]) simp
  next
    case 3
    then obtain as bs where "xs = as @ y # bs \<and> P y \<and> (\<forall>x \<in> set as. P x \<longrightarrow> x \<in> set us)" using Cons.IH by blast
    with 3 show ?thesis by (intro exI [of _ "x # as"] exI [of _ bs]) simp
  qed
qed simp

definition stamped :: "EvidenceRecord \<Rightarrow> ResolvedToolResult \<Rightarrow> string \<Rightarrow> gotime \<Rightarrow> EvidenceRecord" where
  "stamped ev res kind own_time = ev\<lparr>ev_Kind := kind, ev_RetrievedAt :=
     (if time_IsZero (rs_ObservedAt res) \<and> \<not> time_IsZero own_time then time_UTC own_time else ev_RetrievedAt ev)\<rparr>"

lemma verify_records_sound:
  assumes "verify_records ev res (envelope_records res) = Inr ev'"
  shows "\<exists>kind own_time. supports lib ev res kind own_time \<and> ev' = stamped ev res kind own_time"
proof -
  obtain m ms where m: "filter (record_matches ev) (envelope_records res) = m # ms" and "records_scan ev res (m # ms) = Some (Inr ev')"
    using assms by (auto simp: verify_records_def split: list.splits option.splits)
  from records_scan_sound [OF this(2)] obtain us r vs where r: "m # ms = us @ r # vs" "Contains (record_text r) (ev_Quote ev)"
    "\<forall>x \<in> set us. \<not> Contains (record_text x) (ev_Quote ev)" "ev_Kind r = [] \<or> ev_Kind ev = [] \<or> ev_Kind ev = ev_Kind r"
    "ev' = stamped ev res (if ev_Kind r = [] then ev_Kind ev else ev_Kind r) (ev_RetrievedAt r)"
    unfolding stamped_def by blast
  from filter_first [OF m [unfolded r(1)]] obtain as bs where "envelope_records res = as @ r # bs" "record_matches ev r"
    "\<forall>x \<in> set as. record_matches ev x \<longrightarrow> x \<in> set us" by blast
  with r in_record [of res as r bs ev lib] show ?thesis by blast
qed

lemma no_time_IsZero: "time_IsZero no_time"
  by (simp add: time_IsZero_def mk_utc_def)

lemma verify_text_sound:
  assumes "verify_text lib ev res = Inr ev'" "envelope_records res = []"
  shows "\<exists>kind own_time. supports lib ev res kind own_time \<and> ev' = stamped ev res kind own_time"
proof -
  have "\<exists>kind. supports lib ev res kind no_time \<and> ev' = ev\<lparr>ev_Kind := kind\<rparr>"
  proof (cases "ToLower (TrimSpace (rs_ToolName res)) = ''web_search''")
    case True
    then have ev': "ev' = ev\<lparr>ev_Kind := ''snippet''\<rparr>" "verifyWebSearchBlockCitation lib ev' res = None" "ev_Kind ev = [] \<or> ev_Kind ev = ''snippet''"
      using assms(1) by (auto simp: verify_text_def Let_def split: if_splits option.splits)
    then show ?thesis using in_block [OF assms(2) True]
      by (auto simp: verifyWebSearchBlockCitation_def Let_def list_ex_iff split: if_splits)
  next
    case False
    define ev1 where "ev1 = ev\<lparr>ev_Kind := default_kind ev\<rparr>"
    have run: "(case extractJSONMultiItems (rs_Content res) of
        Some items \<Rightarrow> or_error (verifyJSONMultiItemCitation lib ev1 items) ev1 | None \<Rightarrow> or_error (verify_single lib ev1 res) ev1) = Inr ev'"
    proof -
      have "(if ev_Kind ev = [] then ev\<lparr>ev_Kind := (if ev_Channel ev = ChannelSemSource then ''entity'' else ''body'')\<rparr> else ev) = ev1"
        by (cases ev) (simp add: ev1_def default_kind_def)
      then show ?thesis using assms(1) False by (simp add: verify_text_def Let_def)
    qed
    show ?thesis
    proof (cases "extractJSONMultiItems (rs_Content res)")
      case None
      then have "ev' = ev1" "verify_single lib ev1 res = None" using run by (simp_all split: option.splits)
      then show ?thesis using in_resource [OF assms(2) False None] by (auto simp: verify_single_def ev1_def split: if_splits)
    next
      case (Some items)
      then have "ev' = ev1" "verifyJSONMultiItemCitation lib ev1 items = None" using run by (simp_all split: option.splits)
      then show ?thesis using in_item [OF assms(2) False Some]
        by (auto simp: verifyJSONMultiItemCitation_def ev1_def Let_def list_ex_iff split: if_splits)
    qed
  qed
  then show ?thesis using no_time_IsZero by (auto simp: stamped_def)
qed

text \<open>Revision and time play no part in the support.\<close>

lemma default_kind_restamped: "default_kind (ev\<lparr>ev_Revision := n, ev_RetrievedAt := t\<rparr>) = default_kind ev"
  by (simp add: default_kind_def)

lemma supports_restamped:
  "supports lib (ev\<lparr>ev_Revision := n, ev_RetrievedAt := t\<rparr>) res kind own_time \<Longrightarrow> supports lib ev res kind own_time"
proof (induction rule: supports.induct)
  case (in_record earlier r later)
  then have "supports lib ev res (if ev_Kind r = [] then ev_Kind ev else ev_Kind r) (ev_RetrievedAt r)"
    by (intro supports.in_record [of res earlier r later]) (simp_all add: record_matches_def)
  then show ?case by (simp split: if_splits)
next
  case (in_block b)
  then show ?case by (intro supports.in_block [of res b]) simp_all
next
  case (in_item items x)
  then show ?case unfolding default_kind_restamped by (intro supports.in_item [of res items x]) simp_all
next
  case in_resource
  then show ?case unfolding default_kind_restamped by (intro supports.in_resource) simp_all
qed

lemma accepted_citation:
  assumes "verifyCitationAgainstResult lib ev res = Inr ev'"
  shows "well_cited lib res ev ev'"
proof -
  obtain ev1 where r: "verify_revision ev res = Inr ev1" and c: "verify_content lib (stamp_retrieved ev1 res) res = Inr ev'"
    and ok: "checkToolResultSucceeded ev res = None" "checkAllowedRetrievalTool ev res = None" "\<not> quoteEchoedInDispatchArgs (rs_DispatchArguments res) (ev_Quote ev)"
    using assms by (auto simp: verifyCitationAgainstResult_def split: option.splits if_splits sum.splits)
  define rev where "rev = (if rs_ProducerRevision res > 0 then rs_ProducerRevision res else ev_Revision ev)"
  define stamp where "stamp = (if \<not> time_IsZero (rs_ObservedAt res) then time_UTC (rs_ObservedAt res) else ev_RetrievedAt ev)"
  have ev1: "ev1 = ev\<lparr>ev_Revision := rev\<rparr>" "rs_ProducerRevision res > 0 \<longrightarrow> ev_Revision ev = 0 \<or> ev_Revision ev = rs_ProducerRevision res"
    using r by (auto simp: verify_revision_def rev_def split: if_splits)
  have ev2: "stamp_retrieved ev1 res = ev\<lparr>ev_Revision := rev, ev_RetrievedAt := stamp\<rparr>"
    by (simp add: stamp_retrieved_def ev1 stamp_def)
  have "\<exists>kind own_time. supports lib (stamp_retrieved ev1 res) res kind own_time \<and> ev' = stamped (stamp_retrieved ev1 res) res kind own_time"
    using c verify_records_sound [of "stamp_retrieved ev1 res" res ev' lib] verify_text_sound [of lib "stamp_retrieved ev1 res" res ev']
    by (auto simp: verify_content_def split: if_splits)
  then obtain kind own_time where sup: "supports lib ev res kind own_time"
    and ev': "ev' = stamped (ev\<lparr>ev_Revision := rev, ev_RetrievedAt := stamp\<rparr>) res kind own_time"
    unfolding ev2 using supports_restamped by blast
  from ev' have "ev' = ev\<lparr>ev_Kind := kind, ev_Revision := rev,
      ev_RetrievedAt := (if \<not> time_IsZero (rs_ObservedAt res) then time_UTC (rs_ObservedAt res)
        else if \<not> time_IsZero own_time then time_UTC own_time else ev_RetrievedAt ev)\<rparr>"
    by (cases ev) (simp add: stamped_def stamp_def)
  with ok ev1(2) sup show ?thesis unfolding well_cited_def rev_def by blast
qed

section \<open>Resolving\<close>

text \<open>
  What holds of the state of a check: the references resolved so far are distinct and the keys of what is
  remembered, the world has seen their resolutions in order and no other, what is remembered is what the resolver said, and
  the loops are those of the results.
\<close>

definition vs_ok :: "'w resolver \<Rightarrow> 'w \<Rightarrow> 'w vstate \<Rightarrow> bool" where
  "vs_ok r w st \<longleftrightarrow>
     distinct (vs_refs st) \<and> set (vs_refs st) = dom (gm_get (vs_cache st)) \<and>
     vs_world st = fold (\<lambda>ref w. snd (r ref w)) (vs_refs st) w \<and>
     (\<forall>ref res. gm_get (vs_cache st) ref = Some res \<longrightarrow> (\<exists>w1 w2. r ref w1 = (Inr (Some res), w2))) \<and>
     set (vs_loops st) = {l. l \<noteq> [] \<and> (\<exists>ref res. gm_get (vs_cache st) ref = Some res \<and> l = TrimSpace (rs_LoopID res))}"

lemma keep_first_cong: "set S = set T \<Longrightarrow> keep_first S xs = keep_first T xs"
proof (induction xs arbitrary: S T)
  case (Cons x xs)
  have "keep_first (x # S) xs = keep_first (x # T) xs" by (rule Cons.IH) (simp add: Cons.prems)
  then show ?case by (simp only: keep_first.simps Cons.prems Cons.IH [OF Cons.prems])
qed simp

lemma keep_first_append: "keep_first S (xs @ ys) = keep_first S xs @ keep_first (S @ keep_first S xs) ys"
proof (induction xs arbitrary: S)
  case (Cons x xs)
  then show ?case using keep_first_cong [of "x # S @ keep_first (x # S) xs" "S @ x # keep_first (x # S) xs" ys] by simp
qed simp

text \<open>From one state to a later one, by the references given: those new are resolved, in their order, and more is remembered.\<close>

definition vs_grows :: "'w resolver \<Rightarrow> 'w \<Rightarrow> string list \<Rightarrow> 'w vstate \<Rightarrow> 'w vstate \<Rightarrow> bool" where
  "vs_grows r w refs st st' \<longleftrightarrow>
     (vs_ok r w st \<longrightarrow> vs_ok r w st' \<and> vs_refs st' = vs_refs st @ keep_first (vs_refs st) refs) \<and>
     gm_get (vs_cache st) \<subseteq>\<^sub>m gm_get (vs_cache st')"

lemma vs_grows_refl: "vs_grows r w [] st st"
  by (simp add: vs_grows_def)

lemma vs_grows_trans: "vs_grows r w A st st1 \<Longrightarrow> vs_grows r w B st1 st2 \<Longrightarrow> vs_grows r w (A @ B) st st2"
  unfolding vs_grows_def using map_le_trans by (auto simp: keep_first_append)

lemma resolve_ref_grows:
  assumes "resolve_ref r ref st = (Inr res, st1)"
  shows "vs_grows r w [ref] st st1 \<and> gm_get (vs_cache st1) ref = Some res"
proof (cases "gm_get (vs_cache st) ref")
  case (Some x)
  then show ?thesis using assms by (auto simp: resolve_ref_def vs_grows_def vs_ok_def)
next
  case None
  then obtain w1 where r: "r ref (vs_world st) = (Inr (Some res), w1)" and st1: "st1 = note_result ref res (st\<lparr>vs_world := w1\<rparr>)"
    using assms by (auto simp: resolve_ref_def split: prod.splits sum.splits option.splits)
  have cache: "gm_get (vs_cache st1) = (gm_get (vs_cache st))(ref \<mapsto> res)"
    unfolding st1 by (rule ext) (simp add: note_result_def Let_def gm_get_put)
  have refs: "vs_refs st1 = vs_refs st @ [ref]" "vs_world st1 = w1" by (simp_all add: st1 note_result_def Let_def)
  have "vs_ok r w st1" if ok: "vs_ok r w st"
  proof -
    have "set (vs_loops st1) = {l. l \<noteq> [] \<and> (\<exists>ref' res'. ((gm_get (vs_cache st))(ref \<mapsto> res)) ref' = Some res' \<and> l = TrimSpace (rs_LoopID res'))}"
    proof -
      have "set (vs_loops st1) = set (vs_loops st) \<union> ({TrimSpace (rs_LoopID res)} - {[]})"
        by (auto simp: st1 note_result_def Let_def)
      moreover have "(\<exists>ref' res'. ((gm_get (vs_cache st))(ref \<mapsto> res)) ref' = Some res' \<and> l = TrimSpace (rs_LoopID res')) \<longleftrightarrow>
        l = TrimSpace (rs_LoopID res) \<or> (\<exists>ref' res'. gm_get (vs_cache st) ref' = Some res' \<and> l = TrimSpace (rs_LoopID res'))" for l
        using None by (metis fun_upd_apply option.distinct(1) option.inject)
      ultimately show ?thesis using ok unfolding vs_ok_def by auto
    qed
    then show ?thesis
      using ok None r unfolding vs_ok_def cache refs by (auto simp: domIff)
  qed
  moreover have "ref \<notin> set (vs_refs st)" if "vs_ok r w st" using that None by (auto simp: vs_ok_def)
  ultimately show ?thesis using None cache refs by (auto simp: vs_grows_def map_le_def)
qed

definition cited_by :: "net_url \<Rightarrow> 'w vstate \<Rightarrow> EvidenceRecord \<Rightarrow> EvidenceRecord \<Rightarrow> bool" where
  "cited_by lib st ev ev' \<longleftrightarrow> (\<exists>res. gm_get (vs_cache st) (ev_ToolResultRef ev) = Some res \<and> well_cited lib res ev ev')"

lemma cited_by_mono: "cited_by lib st ev ev' \<Longrightarrow> vs_grows r w A st st' \<Longrightarrow> cited_by lib st' ev ev'"
  unfolding cited_by_def vs_grows_def map_le_def by (metis domI)

lemma cited_all_mono: "list_all2 (cited_by lib st) xs ys \<Longrightarrow> vs_grows r w A st st' \<Longrightarrow> list_all2 (cited_by lib st') xs ys"
  by (erule list_all2_mono) (erule cited_by_mono)

lemma verify_evidence_sound:
  "verify_evidence lib r place j evs st = (Inr evs', st1) \<Longrightarrow>
   vs_grows r w (map ev_ToolResultRef evs) st st1 \<and> list_all2 (cited_by lib st1) evs evs'"
proof (induction evs arbitrary: j st evs')
  case Nil
  then show ?case by (simp add: vs_grows_refl)
next
  case (Cons ev evs)
  obtain res st2 ev1 evs1 where r: "resolve_ref r (ev_ToolResultRef ev) st = (Inr res, st2)" and c: "verifyCitationAgainstResult lib ev res = Inr ev1"
    and rest: "verify_evidence lib r place (Suc j) evs st2 = (Inr evs1, st1)" and evs': "evs' = ev1 # evs1"
    using Cons.prems by (auto split: prod.splits sum.splits)
  note g = resolve_ref_grows [OF r, of w] and ih = Cons.IH [OF rest]
  have "vs_grows r w ([ev_ToolResultRef ev] @ map ev_ToolResultRef evs) st st1"
    by (rule vs_grows_trans [OF conjunct1 [OF g] conjunct1 [OF ih]])
  moreover have "cited_by lib st1 ev ev1"
    using cited_by_mono [of lib st2 ev ev1 r w] g ih accepted_citation [OF c] by (auto simp: cited_by_def)
  ultimately show ?case using ih evs' by simp
qed

lemma verify_actors_sound:
  "verify_actors lib r i xs st = (Inr xs', st1) \<Longrightarrow>
   vs_grows r w (map ev_ToolResultRef (concat (map ac_Evidence xs))) st st1 \<and>
   list_all2 (cited_by lib st1) (concat (map ac_Evidence xs)) (concat (map ac_Evidence xs')) \<and>
   map (\<lambda>x. x\<lparr>ac_Evidence := []\<rparr>) xs' = map (\<lambda>x. x\<lparr>ac_Evidence := []\<rparr>) xs"
proof (induction xs arbitrary: i st xs')
  case Nil
  then show ?case by (simp add: vs_grows_refl)
next
  case (Cons x xs)
  obtain evs st2 xs1 where e: "verify_evidence lib r (InActor i (ac_Name x)) 0 (ac_Evidence x) st = (Inr evs, st2)"
    and rest: "verify_actors lib r (Suc i) xs st2 = (Inr xs1, st1)" and xs': "xs' = x\<lparr>ac_Evidence := evs\<rparr> # xs1"
    using Cons.prems by (auto split: prod.splits sum.splits)
  note g = verify_evidence_sound [OF e, of w] and ih = Cons.IH [OF rest]
  show ?case using vs_grows_trans [of r w _ st st2] g ih cited_all_mono [of lib st2 _ _ r w] xs'
    by (auto intro!: list_all2_appendI)
qed

lemma verify_points_sound:
  "verify_points lib r i xs st = (Inr xs', st1) \<Longrightarrow>
   vs_grows r w (map ev_ToolResultRef (concat (map ip_Evidence xs))) st st1 \<and>
   list_all2 (cited_by lib st1) (concat (map ip_Evidence xs)) (concat (map ip_Evidence xs')) \<and>
   map (\<lambda>x. x\<lparr>ip_Evidence := []\<rparr>) xs' = map (\<lambda>x. x\<lparr>ip_Evidence := []\<rparr>) xs"
proof (induction xs arbitrary: i st xs')
  case Nil
  then show ?case by (simp add: vs_grows_refl)
next
  case (Cons x xs)
  obtain evs st2 xs1 where e: "verify_evidence lib r (InPoint i (ip_From x) (ip_To x)) 0 (ip_Evidence x) st = (Inr evs, st2)"
    and rest: "verify_points lib r (Suc i) xs st2 = (Inr xs1, st1)" and xs': "xs' = x\<lparr>ip_Evidence := evs\<rparr> # xs1"
    using Cons.prems by (auto split: prod.splits sum.splits)
  note g = verify_evidence_sound [OF e, of w] and ih = Cons.IH [OF rest]
  show ?case using vs_grows_trans [of r w _ st st2] g ih cited_all_mono [of lib st2 _ _ r w] xs'
    by (auto intro!: list_all2_appendI)
qed

section \<open>Artifacts\<close>

lemma disclosure_complete:
  "verifyPartialRepoFailureDisclosure refs cache gaps = None \<Longrightarrow> ref \<in> set refs \<Longrightarrow> gm_get cache ref = Some res \<Longrightarrow>
   f \<in> set (envelope_failures res) \<Longrightarrow> disclosed gaps f"
  by (induction refs) (auto split: option.splits simp: find_None_iff)

lemma citations_update:
  "citations (a\<lparr>af_Actors := xs, af_IntegrationPoints := ys\<rparr>) = concat (map ac_Evidence xs) @ concat (map ip_Evidence ys)"
  by (simp add: citations_def)

text \<open>
  C13. The derivation check is sound. An artifact passes only if every citation names a result that the
  resolver gave, of a call that succeeded, by a tool that retrieves for the channel of the citation, that supports the citation
  and did not take the quote from its own arguments. The references are resolved once each, in the order of their first
  citation. Of a citation only revision, time and kind are stamped: the revision of the producer, if it has one, the
  time of the call, else of the record, if there is one, and the kind that goes with the support. Every failure a cited result
  reports is named in the open gaps, and the loops returned are those of the results.
\<close>

theorem derivation_sound:
  assumes "verifyDerivationWithLoops lib (Some r) a w = (Inr (a', loops), w')"
  shows "\<exists>found. dom found = ev_ToolResultRef ` set (citations a) \<and>
     w' = fold (\<lambda>ref w. snd (r ref w)) (keep_first [] (map ev_ToolResultRef (citations a))) w \<and>
     (\<forall>ref res. found ref = Some res \<longrightarrow> (\<exists>w1 w2. r ref w1 = (Inr (Some res), w2))) \<and>
     list_all2 (\<lambda>ev ev'. \<exists>res. found (ev_ToolResultRef ev) = Some res \<and> well_cited lib res ev ev') (citations a) (citations a') \<and>
     (\<forall>res \<in> ran found. \<forall>f \<in> set (envelope_failures res). disclosed (af_OpenGaps a) f) \<and>
     set loops = (\<lambda>res. TrimSpace (rs_LoopID res)) ` ran found - {[]} \<and>
     a' = a\<lparr>af_Actors := af_Actors a', af_IntegrationPoints := af_IntegrationPoints a'\<rparr>"
proof -
  define st0 where "st0 = \<lparr>vs_cache = [], vs_refs = [], vs_loops = [], vs_world = w\<rparr>"
  obtain actors st points st1 where x: "verify_actors lib r 0 (af_Actors a) st0 = (Inr actors, st)"
    and y: "verify_points lib r 0 (af_IntegrationPoints a) st = (Inr points, st1)"
    and d: "verifyPartialRepoFailureDisclosure (vs_refs st1) (vs_cache st1) (af_OpenGaps a) = None"
    and a': "a' = a\<lparr>af_Actors := actors, af_IntegrationPoints := points\<rparr>" "loops = vs_loops st1" "w' = vs_world st1"
    using assms by (auto simp: verifyDerivationWithLoops_def st0_def split: prod.splits sum.splits option.splits)
  note gx = verify_actors_sound [OF x, of w] and gy = verify_points_sound [OF y, of w]
  have g: "vs_grows r w (map ev_ToolResultRef (citations a)) st0 st1"
    using vs_grows_trans [OF conjunct1 [OF gx] conjunct1 [OF gy]] by (simp add: citations_def)
  have "vs_ok r w st0" by (simp add: vs_ok_def st0_def)
  with g have ok: "vs_ok r w st1" and refs: "vs_refs st1 = keep_first [] (map ev_ToolResultRef (citations a))"
    by (simp_all add: vs_grows_def st0_def)
  then have "dom (gm_get (vs_cache st1)) = ev_ToolResultRef ` set (citations a)" by (auto simp: vs_ok_def set_keep_first)
  moreover have "list_all2 (cited_by lib st1) (citations a) (citations a')"
    using cited_all_mono [OF conjunct1 [OF conjunct2 [OF gx]] conjunct1 [OF gy]] gy
    by (auto simp: a'(1) citations_update citations_def [of a] intro: list_all2_appendI)
  moreover have "\<forall>res \<in> ran (gm_get (vs_cache st1)). \<forall>f \<in> set (envelope_failures res). disclosed (af_OpenGaps a) f"
    using disclosure_complete [OF d] ok by (auto simp: ran_def vs_ok_def domI)
  moreover have "set loops = (\<lambda>res. TrimSpace (rs_LoopID res)) ` ran (gm_get (vs_cache st1)) - {[]}"
    using ok a'(2) by (auto simp: vs_ok_def ran_def)
  ultimately show ?thesis using ok unfolding a'(3) vs_ok_def cited_by_def refs
    by (intro exI [of _ "gm_get (vs_cache st1)"]) (simp add: a'(1))
qed

definition fetched_page :: ResolvedToolResult where
  "fetched_page = \<lparr>rs_Ref = ''call-1'', rs_CallID = ''call-1'', rs_ExecutionID = ''x1'', rs_LoopID = ''l1'', rs_ToolName = ''http_request'', rs_Status = ''completed'',
     rs_Error = [], rs_ErrorKind = [], rs_Content = ''https://github.com/Acme/Core/issues/7 says: the parser is slow.'', rs_DispatchArguments = [],
     rs_ObservedAt = mk_utc 7, rs_ProducerRevision = 2\<rparr>"

definition page_resolver :: "unit resolver" where
  "page_resolver = (\<lambda>ref w. (Inr (Some fetched_page), w))"

definition passed :: "DerivationError + Artifact \<times> string list \<Rightarrow> bool" where
  "passed x \<longleftrightarrow> (case x of Inl _ \<Rightarrow> False | Inr (a, loops) \<Rightarrow> map ev_Kind (citations a) = [''body''] \<and> loops = [''l1''])"

theorem derivation_sound_witness:
  "\<exists>a' loops. fst (verifyDerivationWithLoops no_url (Some page_resolver) (PopulateCitationDefaults no_url bare_artifact) ()) = Inr (a', loops) \<and>
     list_all2 (\<lambda>ev ev'. \<exists>res. well_cited no_url res ev ev') (citations (PopulateCitationDefaults no_url bare_artifact)) (citations a')"
proof -
  have "passed (fst (verifyDerivationWithLoops no_url (Some page_resolver) (PopulateCitationDefaults no_url bare_artifact) ()))" by code_simp
  then obtain a' loops where "verifyDerivationWithLoops no_url (Some page_resolver) (PopulateCitationDefaults no_url bare_artifact) () = (Inr (a', loops), ())"
    by (cases "verifyDerivationWithLoops no_url (Some page_resolver) (PopulateCitationDefaults no_url bare_artifact) ()") (auto simp: passed_def split: sum.splits)
  from derivation_sound [OF this] this show ?thesis
    by (intro exI [of _ a'] exI [of _ loops]) (auto elim!: list_all2_mono)
qed

section \<open>Workflow runs\<close>

lemma records_scan_kind:
  "\<forall>x \<in> set rs. ev_Kind x = k \<Longrightarrow> k \<noteq> [] \<Longrightarrow> ev_Kind ev \<noteq> [] \<Longrightarrow> ev_Kind ev \<noteq> k \<Longrightarrow> records_scan ev res rs = Some out \<Longrightarrow> \<exists>e. out = Inl e"
  by (induction rs) (auto split: if_splits)

text \<open>
  C19. The schema of the tool offers workflow_run as the kind of a citation of github_read; the
  records of that tool carry another kind for workflow runs, so a citation that uses the documented kind is
  refused whatever else it says.
\<close>

theorem workflow_run_refused:
  assumes "envelope_records res \<noteq> []" "\<forall>x \<in> set (envelope_records res). ev_Kind x = if_Kind (run_facts repo t run)" "ev_Kind ev = ''workflow_run''"
  shows "\<exists>e. verifyCitationAgainstResult lib ev res = Inl e"
proof -
  have "\<exists>e. verify_content lib (stamp_retrieved ev1 res) res = Inl e" if "verify_revision ev res = Inr ev1" for ev1
  proof -
    let ?ev = "stamp_retrieved ev1 res"
    have kind: "ev_Kind ?ev = ''workflow_run''" using that assms(3) by (auto simp: verify_revision_def stamp_retrieved_def split: if_splits)
    define xs where "xs = filter (record_matches ?ev) (envelope_records res)"
    have "\<exists>e. out = Inl e" if "records_scan ?ev res xs = Some out" for out
      by (rule records_scan_kind [OF _ _ _ _ that, of "''ci_status''"]) (use assms(2) kind in \<open>auto simp: xs_def run_facts_def\<close>)
    then have "\<exists>e. verify_records ?ev res (envelope_records res) = Inl e"
      unfolding verify_records_def xs_def [symmetric] by (cases "records_scan ?ev res xs"; cases xs) (auto simp del: records_scan.simps)
    then show ?thesis using assms(1) by (simp add: verify_content_def)
  qed
  then show ?thesis by (auto simp: verifyCitationAgainstResult_def split: option.split sum.split)
qed

definition run_json :: json where
  "run_json = JObj [(''records'', JArr [JObj [(''origin_id'', JStr ''github://acme/core/actions/runs/7''), (''kind'', JStr ''ci_status'')]])]"

definition run_page :: ResolvedToolResult where
  "run_page = fetched_page\<lparr>rs_ToolName := ''github_read'', rs_Content := encode run_json\<rparr>"

definition decoded_kinds :: "string list option" where
  "decoded_kinds = Option.bind (fields_of (read_back run_json)) (\<lambda>kvs. map_option (map ev_Kind) (slice_field dec_evidence ''records'' kvs))"

lemma run_page_kinds: "map ev_Kind (envelope_records run_page) = [''ci_status'']"
proof -
  have "nests max_depth run_json" by (simp add: run_json_def)
  then have parse: "parse_json (rs_Content run_page) = Some (read_back run_json)" by (simp add: run_page_def parse_encode)
  have "decoded_kinds = Some [''ci_status'']" by code_simp
  moreover have "slice_field dec_failure ''failures'' (the (fields_of (read_back run_json))) = Some []"
    by (simp add: run_json_def fields_of_def slice_field_def EqualFold_def ToLower_def)
  ultimately show ?thesis
    by (auto simp: envelope_records_def unmarshal_envelope_def parse decoded_kinds_def split: bind_splits)
qed

theorem workflow_run_refused_witness:
  "\<exists>e. verifyCitationAgainstResult no_url (bare_citation\<lparr>ev_Kind := ''workflow_run''\<rparr>) run_page = Inl e"
  by (intro workflow_run_refused [of run_page undefined undefined undefined])
     (use run_page_kinds in \<open>auto simp: run_facts_def Cons_eq_map_conv map_eq_Cons_conv\<close>)

end
