(* ===== verification/Derive_Resolve.thy ===== *)
theory Derive_Resolve
  imports Derive_Verify Sandbox_Parse
begin

text \<open>
  The resolver of tool results over the trajectories of a run, \<^verbatim>\<open>NATSToolResultResolver\<close> of
  \<^verbatim>\<open>tools/emitartifact/derivation.go\<close>. The graph, the trajectory bucket and the object stores are read as they
  are during one resolution: functions of their keys. The layout of entity ids, the prefix of trajectory keys, the
  predicates of the run and the JSON codecs of trajectory facts belong to the framework and are fields of
  \<open>trajectory_framework\<close>.
\<close>

section \<open>Data\<close>

record TrajectoryFact =
  tf_Kind :: string
  tf_Evidence :: "(string \<times> string) option"
  tf_SourceCorrelation :: string
  tf_EvidenceDigest :: string
  tf_ToolPreview :: string
  tf_Status :: string
  tf_ObservedAt :: gotime

text \<open>The result inside the body of a completed tool call, with the arguments it was dispatched with.\<close>

record completion_body =
  cb_CallID :: string
  cb_ExecutionID :: string
  cb_LoopID :: string
  cb_Name :: string
  cb_Error :: string
  cb_ErrorKind :: string
  cb_Content :: string
  cb_DispatchArguments :: "(string \<times> any) list"

record trajectory_framework =
  tw_framework :: framework
  tw_LoopExecutionEntityID :: "string \<Rightarrow> string \<Rightarrow> string \<Rightarrow> string"
  tw_TrajectoryFactPrefix :: "string \<Rightarrow> string"
  tw_ToolCompleted :: string
  tw_LoopRunEntityID :: string
  tw_LoopRun :: string
  tw_decodeFact :: "string \<Rightarrow> TrajectoryFact option"
  tw_decodeEvidence :: "string \<Rightarrow> string option"
  tw_decodeBody :: "string \<Rightarrow> completion_body option"

text \<open>A reader of entities may also read every object of a predicate.\<close>

record entity_reader =
  er_ReadEntity :: "string \<Rightarrow> string + (string \<times> any) list"
  er_ReadEntityAll :: "(string \<Rightarrow> string + (string \<times> any list) list) option"

datatype 'a kv_reply = KvMissing | KvError string | KvFound 'a

record trajectoryKVStore =
  kv_FilteredKeys :: "string \<Rightarrow> string list kv_reply"
  kv_Get :: "string \<Rightarrow> string kv_reply"

type_synonym byteObjectStore = "string \<Rightarrow> string + string"

text \<open>A connected client opens the bucket of trajectories and object stores by name; each may be refused.\<close>

record nats_client =
  nc_Trajectories :: "trajectoryKVStore option"
  nc_JetStream :: "(string \<Rightarrow> string + byteObjectStore option) option"

record NATSToolResultResolver =
  nr_natsClient :: "nats_client option"
  nr_entityReader :: "entity_reader option"
  nr_org :: string
  nr_platform :: string
  nr_storageBuckets :: "(string \<times> string) list"
  nr_trajectoriesKV :: "trajectoryKVStore option"
  nr_contentStore :: "byteObjectStore option"
  nr_contentStores :: "(string \<times> byteObjectStore) list"

definition predicateLineagePlanLoop :: string where "predicateLineagePlanLoop = ''agent.lineage.researcher-plan''"
definition predicateLineagePlanLoopEntity :: string where "predicateLineagePlanLoopEntity = ''agent.lineage.plan-loop-entity-id''"
definition predicateLineagePriorSynthesize :: string where "predicateLineagePriorSynthesize = ''agent.lineage.researcher''"
definition predicateGatherCompletedLoop :: string where "predicateGatherCompletedLoop = ''research.gather.completed-subtopic''"
definition predicatePlanRevision :: string where "predicatePlanRevision = ''research.plan.revision''"
definition predicateArtifactRevision :: string where "predicateArtifactRevision = ''research.artifact.revision''"
definition predicateLegacyRunID :: string where "predicateLegacyRunID = ''agent.run''"
definition defaultAgentContentBucket :: string where "defaultAgentContentBucket = ''AGENT_CONTENT''"

section \<open>Identifiers\<close>

definition firstNonEmpty :: "string list \<Rightarrow> string" where
  "firstNonEmpty vs = (case List.find (\<lambda>v. v \<noteq> []) vs of None \<Rightarrow> [] | Some v \<Rightarrow> v)"

definition splitToolResultRef :: "string \<Rightarrow> string \<times> string" where
  "splitToolResultRef ref =
     (case CutAt ref CHR ''/'' of
        Some (a, b) \<Rightarrow> if a \<noteq> [] \<and> b \<noteq> [] then (TrimSpace a, TrimSpace b) else ([], ref)
      | None \<Rightarrow> ([], ref))"

definition dots :: "string \<Rightarrow> nat" where
  "dots s = length (filter (\<lambda>c. c = CHR ''.'') s)"

definition last_part :: "string \<Rightarrow> string" where
  "last_part s = rev (takeWhile (\<lambda>c. c \<noteq> CHR ''.'') (rev s))"

definition normalizeLoopID :: "string \<Rightarrow> string" where
  "normalizeLoopID ident =
     (let i = TrimSpace ident in
      if i = [] then [] else if dots i \<ge> 5 \<and> last_part i \<noteq> [] then last_part i else i)"

definition toLoopEntityID :: "trajectory_framework \<Rightarrow> NATSToolResultResolver \<Rightarrow> string \<Rightarrow> string" where
  "toLoopEntityID tw r ident =
     (let i = TrimSpace ident in
      if i = [] then [] else if dots i \<ge> 5 then i else tw_LoopExecutionEntityID tw (nr_org r) (nr_platform r) i)"

section \<open>The run of the caller\<close>

definition extractRunIDFromTriples :: "trajectory_framework \<Rightarrow> (string \<times> any) list \<Rightarrow> string" where
  "extractRunIDFromTriples tw triples =
     firstNonEmpty [str_or_empty (gm_get triples (tw_LoopRun tw)), str_or_empty (gm_get triples predicateLegacyRunID)]"

definition resolveCallerRun :: "trajectory_framework \<Rightarrow> NATSToolResultResolver \<Rightarrow> tool_call \<Rightarrow> DerivationError + string \<times> string" where
  "resolveCallerRun tw r call =
     (let (runID, runEntityID) = Anchor (tw_framework tw) (ToolCall.truncate call) (nr_org r) (nr_platform r) in
      case nr_entityReader r of
        Some reader \<Rightarrow>
          if (runID = [] \<or> runEntityID = []) \<and> tc_LoopID call \<noteq> [] then
            (let loopEntityID = toLoopEntityID tw r (tc_LoopID call) in
             case er_ReadEntity reader loopEntityID of
               Inl e \<Rightarrow> Inl (newNetworkErr (ReadFailed loopEntityID e))
             | Inr triples \<Rightarrow>
                 Inr (if runID = [] then extractRunIDFromTriples tw triples else runID,
                      if runEntityID = [] then str_or_empty (gm_get triples (tw_LoopRunEntityID tw)) else runEntityID))
          else Inr (runID, runEntityID)
      | None \<Rightarrow> Inr (runID, runEntityID))"

text \<open>Whether a loop belongs to the run of the caller, and the run it belongs to if it is known.\<close>

definition belongsToCallerRun :: "trajectory_framework \<Rightarrow> NATSToolResultResolver \<Rightarrow> string \<Rightarrow> string \<Rightarrow> string \<Rightarrow> string \<Rightarrow> DerivationError + bool \<times> string" where
  "belongsToCallerRun tw r callerLoopID callerRunID callerRunEntityID producerLoopID =
     (let producer = normalizeLoopID producerLoopID; caller = normalizeLoopID callerLoopID in
      if producer \<noteq> [] \<and> producer = caller then Inr (True, callerRunEntityID)
      else case nr_entityReader r of
        None \<Rightarrow> Inr (False, [])
      | Some reader \<Rightarrow>
          if producer = [] then Inr (False, [])
          else (let prodLoopEntityID = toLoopEntityID tw r producer in
            case er_ReadEntity reader prodLoopEntityID of
              Inl e \<Rightarrow> Inl (newNetworkErr (ReadFailed prodLoopEntityID e))
            | Inr triples \<Rightarrow>
                if triples = [] then Inr (False, [])
                else (let prodRunEntityID = str_or_empty (gm_get triples (tw_LoopRunEntityID tw)); prodRunID = extractRunIDFromTriples tw triples in
                  if callerRunEntityID \<noteq> [] \<and> prodRunEntityID = callerRunEntityID then Inr (True, prodRunEntityID)
                  else if callerRunID \<noteq> [] \<and> prodRunID = callerRunID then Inr (True, prodRunID)
                  else Inr (False, firstNonEmpty [prodRunEntityID, prodRunID]))))"

section \<open>The loops of the run\<close>

record runLoopDiscovery =
  rd_loopIDs :: "string list"
  rd_planQueue :: "string list"
  rd_synthQueue :: "string list"
  rd_seenPlan :: "string list"
  rd_seenSynth :: "string list"

definition newRunLoopDiscovery :: runLoopDiscovery where
  "newRunLoopDiscovery = \<lparr>rd_loopIDs = [], rd_planQueue = [], rd_synthQueue = [], rd_seenPlan = [], rd_seenSynth = []\<rparr>"

text \<open>The set \<^verbatim>\<open>seen\<close> of the code holds the loop ids of the list.\<close>

definition addLoop :: "string \<Rightarrow> runLoopDiscovery \<Rightarrow> runLoopDiscovery" where
  "addLoop raw d =
     (let n = normalizeLoopID raw in if n = [] \<or> n \<in> set (rd_loopIDs d) then d else d\<lparr>rd_loopIDs := rd_loopIDs d @ [n]\<rparr>)"

definition enqueuePlan :: "string \<Rightarrow> runLoopDiscovery \<Rightarrow> runLoopDiscovery" where
  "enqueuePlan raw d =
     (let n = normalizeLoopID raw in
      if n \<noteq> [] \<and> n \<notin> set (rd_seenPlan d)
      then addLoop n (d\<lparr>rd_seenPlan := rd_seenPlan d @ [n], rd_planQueue := rd_planQueue d @ [n]\<rparr>) else d)"

definition enqueueSynth :: "string \<Rightarrow> runLoopDiscovery \<Rightarrow> runLoopDiscovery" where
  "enqueueSynth raw d =
     (let n = normalizeLoopID raw in
      if n \<noteq> [] \<and> n \<notin> set (rd_seenSynth d)
      then addLoop n (d\<lparr>rd_seenSynth := rd_seenSynth d @ [n], rd_synthQueue := rd_synthQueue d @ [n]\<rparr>) else d)"

text \<open>The related loops of a call, in the order in which the map is walked.\<close>

definition related_loops :: "tool_call \<Rightarrow> (string \<times> any) list" where
  "related_loops call = (case meta_get (tc_Metadata call) ''related_loops'' of Some (AnyMap kvs) \<Rightarrow> kvs | _ \<Rightarrow> [])"

definition seed_one :: "string \<times> any \<Rightarrow> runLoopDiscovery \<Rightarrow> runLoopDiscovery" where
  "seed_one kv d =
     (case snd kv of AnyStr s \<Rightarrow> if Contains (fst kv) ''plan'' then enqueuePlan s d else enqueueSynth s d | _ \<Rightarrow> d)"

definition seedFromToolCall :: "tool_call \<Rightarrow> runLoopDiscovery \<Rightarrow> runLoopDiscovery" where
  "seedFromToolCall call d =
     fold seed_one (related_loops call) (if tc_LoopID call \<noteq> [] then enqueueSynth (tc_LoopID call) d else d)"

abbreviation strs_of :: "any option \<Rightarrow> string list" where
  "strs_of v \<equiv> (case v of Some (AnyStr s) \<Rightarrow> [s] | _ \<Rightarrow> [])"

definition only_strs :: "any list \<Rightarrow> string list" where
  "only_strs xs = concat (map (\<lambda>x. case x of AnyStr s \<Rightarrow> [s] | _ \<Rightarrow> []) xs)"

text \<open>What the entity of a synthesis names: its plans and the synthesis before it.\<close>

definition synth_links :: "trajectory_framework \<Rightarrow> NATSToolResultResolver \<Rightarrow> entity_reader \<Rightarrow> string \<Rightarrow> DerivationError + string list \<times> string list" where
  "synth_links tw r reader synthID =
     (case er_ReadEntity reader (toLoopEntityID tw r synthID) of
        Inl e \<Rightarrow> Inl (newNetworkErr (ReadFailed synthID e))
      | Inr triples \<Rightarrow> Inr (strs_of (gm_get triples predicateLineagePlanLoop) @ strs_of (gm_get triples predicateLineagePlanLoopEntity),
                             strs_of (gm_get triples predicateLineagePriorSynthesize)))"

text \<open>What the entity of a plan names: the loops that gathered for it and the synthesis before it.\<close>

definition plan_links :: "trajectory_framework \<Rightarrow> NATSToolResultResolver \<Rightarrow> entity_reader \<Rightarrow> string \<Rightarrow> DerivationError + string list \<times> string list" where
  "plan_links tw r reader planID =
     (let planEntityID = toLoopEntityID tw r planID in
      case er_ReadEntityAll reader of
        Some readAll \<Rightarrow>
          (case readAll planEntityID of
             Inl e \<Rightarrow> Inl (newNetworkErr (ReadFailed planEntityID e))
           | Inr all \<Rightarrow> Inr (only_strs (case gm_get all predicateGatherCompletedLoop of None \<Rightarrow> [] | Some xs \<Rightarrow> xs),
                              only_strs (case gm_get all predicateLineagePriorSynthesize of None \<Rightarrow> [] | Some xs \<Rightarrow> xs)))
      | None \<Rightarrow>
          (case er_ReadEntity reader planEntityID of
             Inl e \<Rightarrow> Inl (newNetworkErr (ReadFailed planEntityID e))
           | Inr triples \<Rightarrow>
               Inr (case gm_get triples predicateGatherCompletedLoop of
                      Some (AnyStr s) \<Rightarrow> [s] | Some (AnyStrs ss) \<Rightarrow> ss | Some (AnyList xs) \<Rightarrow> only_strs xs | _ \<Rightarrow> [],
                    strs_of (gm_get triples predicateLineagePriorSynthesize))))"

partial_function (option) drainSynthesizeQueue ::
  "trajectory_framework \<Rightarrow> NATSToolResultResolver \<Rightarrow> entity_reader \<Rightarrow> runLoopDiscovery \<Rightarrow> (DerivationError + runLoopDiscovery) option" where
  "drainSynthesizeQueue tw r reader d =
     (case rd_synthQueue d of
        [] \<Rightarrow> Some (Inr d)
      | s # q \<Rightarrow>
        (case synth_links tw r reader s of
           Inl e \<Rightarrow> Some (Inl e)
         | Inr links \<Rightarrow> drainSynthesizeQueue tw r reader (fold enqueueSynth (snd links) (fold enqueuePlan (fst links) (d\<lparr>rd_synthQueue := q\<rparr>)))))"

partial_function (option) plan_loop ::
  "trajectory_framework \<Rightarrow> NATSToolResultResolver \<Rightarrow> entity_reader \<Rightarrow> runLoopDiscovery \<Rightarrow> (DerivationError + runLoopDiscovery) option" where
  "plan_loop tw r reader d =
     (case rd_planQueue d of
        [] \<Rightarrow> Some (Inr d)
      | p # q \<Rightarrow>
        (case plan_links tw r reader p of
           Inl e \<Rightarrow> Some (Inl e)
         | Inr links \<Rightarrow>
           Option.bind (drainSynthesizeQueue tw r reader (fold enqueueSynth (snd links) (fold addLoop (fst links) (d\<lparr>rd_planQueue := q\<rparr>))))
             (\<lambda>x. case x of Inl e \<Rightarrow> Some (Inl e) | Inr d' \<Rightarrow> plan_loop tw r reader d')))"

declare drainSynthesizeQueue.simps [code] plan_loop.simps [code]

definition discover_start :: "tool_call \<Rightarrow> string \<Rightarrow> runLoopDiscovery" where
  "discover_start call callerRunID = seedFromToolCall call (addLoop callerRunID (addLoop (tc_LoopID call) newRunLoopDiscovery))"

text \<open>\<open>None\<close> is a discovery that does not end.\<close>

definition discoverRunLoopIDs :: "trajectory_framework \<Rightarrow> NATSToolResultResolver \<Rightarrow> tool_call \<Rightarrow> string \<Rightarrow> (DerivationError + string list) option" where
  "discoverRunLoopIDs tw r call callerRunID =
     (let d = discover_start call callerRunID in
      case nr_entityReader r of
        None \<Rightarrow> Some (Inr (rd_loopIDs d))
      | Some reader \<Rightarrow>
          Option.bind (drainSynthesizeQueue tw r reader d) (\<lambda>x. case x of
            Inl e \<Rightarrow> Some (Inl e)
          | Inr d1 \<Rightarrow> map_option (map_sum id rd_loopIDs) (plan_loop tw r reader d1)))"

section \<open>The revision of a loop\<close>

definition parsePositiveInt :: "any option \<Rightarrow> int" where
  "parsePositiveInt v =
     (case v of
        Some (AnyInt i) \<Rightarrow> max 0 i
      | Some (AnyFloat x) \<Rightarrow> if x > 0 then int_of_float x else 0
      | Some (AnyNumber s) \<Rightarrow> if snd (Atoi s) then max 0 (fst (Atoi s)) else 0
      | Some (AnyStr s) \<Rightarrow> if snd (Atoi (TrimSpace s)) then max 0 (fst (Atoi (TrimSpace s))) else 0
      | _ \<Rightarrow> 0)"

fun parent_revision :: "trajectory_framework \<Rightarrow> NATSToolResultResolver \<Rightarrow> entity_reader \<Rightarrow> string list \<Rightarrow> DerivationError + int" where
  "parent_revision tw r reader [] = Inr 0"
| "parent_revision tw r reader (parent # parents) =
     (if parent = [] then parent_revision tw r reader parents
      else case er_ReadEntity reader (toLoopEntityID tw r parent) of
        Inl e \<Rightarrow> Inl (newNetworkErr (ReadFailed parent e))
      | Inr pt \<Rightarrow> (let n = parsePositiveInt (gm_get pt predicatePlanRevision) in
                   if n > 0 then Inr n else parent_revision tw r reader parents))"

definition resolveProducerLoopRevision :: "trajectory_framework \<Rightarrow> NATSToolResultResolver \<Rightarrow> string \<Rightarrow> DerivationError + int" where
  "resolveProducerLoopRevision tw r loopID =
     (case nr_entityReader r of
        None \<Rightarrow> Inr 0
      | Some reader \<Rightarrow>
        if loopID = [] then Inr 0
        else case er_ReadEntity reader (toLoopEntityID tw r loopID) of
          Inl e \<Rightarrow> Inl (newNetworkErr (ReadFailed loopID e))
        | Inr triples \<Rightarrow>
          (let own = parsePositiveInt (gm_get triples predicatePlanRevision); artifact = parsePositiveInt (gm_get triples predicateArtifactRevision) in
           if own > 0 then Inr own else if artifact > 0 then Inr artifact
           else parent_revision tw r reader
             (strs_of (gm_get triples predicateLineagePlanLoopEntity) @ strs_of (gm_get triples predicateLineagePlanLoop))))"

section \<open>Stores\<close>

definition getTrajectoryKV :: "NATSToolResultResolver \<Rightarrow> DerivationError + trajectoryKVStore" where
  "getTrajectoryKV r =
     (case nr_trajectoriesKV r of
        Some kv \<Rightarrow> Inr kv
      | None \<Rightarrow>
        (case nr_natsClient r of
           None \<Rightarrow> Inl (newNetworkErr (StoreUnavailable ''trajectories''))
         | Some c \<Rightarrow> (case nc_Trajectories c of None \<Rightarrow> Inl (newNetworkErr (StoreUnavailable ''trajectories'')) | Some kv \<Rightarrow> Inr kv)))"

definition resolveContentBucketName :: "NATSToolResultResolver \<Rightarrow> string \<Rightarrow> string" where
  "resolveContentBucketName r storageInstance =
     (let s = TrimSpace storageInstance in
      if s = [] then defaultAgentContentBucket
      else case gm_get (nr_storageBuckets r) s of None \<Rightarrow> s | Some mapped \<Rightarrow> if mapped = [] then s else mapped)"

text \<open>Where a store of its own name is missing, the default bucket is tried.\<close>

definition open_content :: "(string \<Rightarrow> string + byteObjectStore option) \<Rightarrow> string \<Rightarrow> DerivationError + byteObjectStore" where
  "open_content js bucketName =
     (case js bucketName of
        Inr (Some st) \<Rightarrow> Inr st
      | Inr None \<Rightarrow> Inl (newNetworkErr (StoreUnavailable bucketName))
      | Inl _ \<Rightarrow>
          if bucketName \<noteq> defaultAgentContentBucket
          then (case js defaultAgentContentBucket of Inr (Some st) \<Rightarrow> Inr st | _ \<Rightarrow> Inl (newNetworkErr (StoreUnavailable bucketName)))
          else Inl (newNetworkErr (StoreUnavailable bucketName)))"

definition getContentStore :: "NATSToolResultResolver \<Rightarrow> string \<Rightarrow> DerivationError + byteObjectStore" where
  "getContentStore r storageInstance =
     (let bucketName = resolveContentBucketName r storageInstance in
      case gm_get (nr_contentStores r) bucketName of
        Some st \<Rightarrow> Inr st
      | None \<Rightarrow>
        (case gm_get (nr_contentStores r) storageInstance of
           Some st \<Rightarrow> Inr st
         | None \<Rightarrow>
           (case nr_contentStore r of
              Some st \<Rightarrow> Inr st
            | None \<Rightarrow>
              (case nr_natsClient r of
                 None \<Rightarrow> Inl (newNetworkErr (StoreUnavailable bucketName))
               | Some c \<Rightarrow>
                 (case nc_JetStream c of
                    None \<Rightarrow> Inl (newNetworkErr (StoreUnavailable bucketName))
                  | Some js \<Rightarrow> open_content js bucketName)))))"

section \<open>Candidates\<close>

definition matchesTargetID :: "ResolvedToolResult \<Rightarrow> string \<Rightarrow> string \<Rightarrow> bool" where
  "matchesTargetID cand rawRef targetID \<longleftrightarrow>
     list_ex (\<lambda>want. want \<noteq> [] \<and> (rs_CallID cand = want \<or> rs_ExecutionID cand = want)) [targetID, rawRef]"

definition candidate_of :: "TrajectoryFact \<Rightarrow> completion_body \<Rightarrow> string \<Rightarrow> string \<Rightarrow> ResolvedToolResult" where
  "candidate_of fct body loopID rawRef =
     \<lparr>rs_Ref = rawRef, rs_CallID = firstNonEmpty [cb_CallID body, tf_SourceCorrelation fct], rs_ExecutionID = cb_ExecutionID body,
      rs_LoopID = firstNonEmpty [cb_LoopID body, loopID], rs_ToolName = firstNonEmpty [cb_Name body, tf_ToolPreview fct],
      rs_Status = tf_Status fct, rs_Error = cb_Error body, rs_ErrorKind = cb_ErrorKind body, rs_Content = cb_Content body,
      rs_DispatchArguments = cb_DispatchArguments body, rs_ObservedAt = tf_ObservedAt fct, rs_ProducerRevision = 0\<rparr>"

text \<open>The evidence of a fact, its digest checked where the fact records one.\<close>

definition read_body :: "trajectory_framework \<Rightarrow> NATSToolResultResolver \<Rightarrow> TrajectoryFact \<Rightarrow> string \<Rightarrow> string \<Rightarrow> DerivationError + completion_body" where
  "read_body tw r fct storageInstance key =
     (case getContentStore r storageInstance of
        Inl e \<Rightarrow> Inl e
      | Inr store \<Rightarrow>
        (case store key of
           Inl e \<Rightarrow> Inl (newNetworkErr (GetFailed key e))
         | Inr bytes \<Rightarrow>
           if TrimSpace (tf_EvidenceDigest fct) \<noteq> [] \<and> \<not> EqualFold (sha256_hex bytes) (TrimSpace (tf_EvidenceDigest fct))
             then Inl (newInternalErr (DigestMismatch key (sha256_hex bytes) (tf_EvidenceDigest fct)))
           else (case tw_decodeEvidence tw bytes of
               None \<Rightarrow> Inl (newInternalErr (DecodeFailed key))
             | Some raw \<Rightarrow>
                 if raw = [] then Inl (newInternalErr (EmptyBody key))
                 else (case tw_decodeBody tw raw of None \<Rightarrow> Inl (newInternalErr (DecodeFailed key)) | Some body \<Rightarrow> Inr body))))"

definition decodeTrajectoryCandidate ::
  "trajectory_framework \<Rightarrow> NATSToolResultResolver \<Rightarrow> string \<Rightarrow> string \<Rightarrow> string \<Rightarrow> string \<Rightarrow> DerivationError + ResolvedToolResult option" where
  "decodeTrajectoryCandidate tw r loopID rawRef targetID bytes =
     (case tw_decodeFact tw bytes of
        None \<Rightarrow> Inl (newInternalErr (DecodeFailed ''fact''))
      | Some fct \<Rightarrow>
        (case tf_Evidence fct of
           None \<Rightarrow> Inr None
         | Some (storageInstance, key) \<Rightarrow>
           if tf_Kind fct \<noteq> tw_ToolCompleted tw then Inr None
           else if tf_SourceCorrelation fct \<noteq> [] \<and> tf_SourceCorrelation fct \<noteq> targetID \<and> tf_SourceCorrelation fct \<noteq> rawRef then Inr None
           else (case read_body tw r fct storageInstance key of
               Inl e \<Rightarrow> Inl e
             | Inr body \<Rightarrow>
                 (let cand = candidate_of fct body loopID rawRef in
                  if matchesTargetID cand rawRef targetID then Inr (Some cand) else Inr None))))"

definition dedup_key :: "ResolvedToolResult \<Rightarrow> string" where
  "dedup_key c = rs_LoopID c @ ''|'' @ rs_ExecutionID c @ ''|'' @ rs_CallID c"

fun candidates_of_keys ::
  "trajectory_framework \<Rightarrow> NATSToolResultResolver \<Rightarrow> trajectoryKVStore \<Rightarrow> string \<Rightarrow> string \<Rightarrow> string \<Rightarrow> string list \<Rightarrow> ResolvedToolResult list \<Rightarrow>
   DerivationError + ResolvedToolResult list" where
  "candidates_of_keys tw r kv loopID rawRef targetID [] out = Inr out"
| "candidates_of_keys tw r kv loopID rawRef targetID (k # ks) out =
     (case kv_Get kv k of
        KvMissing \<Rightarrow> candidates_of_keys tw r kv loopID rawRef targetID ks out
      | KvError e \<Rightarrow> Inl (newNetworkErr (GetFailed k e))
      | KvFound bytes \<Rightarrow>
        (case decodeTrajectoryCandidate tw r loopID rawRef targetID bytes of
           Inl e \<Rightarrow> Inl e
         | Inr None \<Rightarrow> candidates_of_keys tw r kv loopID rawRef targetID ks out
         | Inr (Some cand) \<Rightarrow>
             candidates_of_keys tw r kv loopID rawRef targetID ks (if dedup_key cand \<in> dedup_key ` set out then out else out @ [cand])))"

fun candidates_of_loops ::
  "trajectory_framework \<Rightarrow> NATSToolResultResolver \<Rightarrow> trajectoryKVStore \<Rightarrow> string \<Rightarrow> string \<Rightarrow> string list \<Rightarrow> ResolvedToolResult list \<Rightarrow>
   DerivationError + ResolvedToolResult list" where
  "candidates_of_loops tw r kv rawRef targetID [] out = Inr out"
| "candidates_of_loops tw r kv rawRef targetID (l # ls) out =
     (let loopID = normalizeLoopID l in
      if loopID = [] then candidates_of_loops tw r kv rawRef targetID ls out
      else case kv_FilteredKeys kv (tw_TrajectoryFactPrefix tw loopID @ ''>'') of
        KvMissing \<Rightarrow> candidates_of_loops tw r kv rawRef targetID ls out
      | KvError e \<Rightarrow> Inl (newNetworkErr (ListFailed loopID e))
      | KvFound keys \<Rightarrow>
        (case candidates_of_keys tw r kv loopID rawRef targetID keys out of
           Inl e \<Rightarrow> Inl e
         | Inr out1 \<Rightarrow> candidates_of_loops tw r kv rawRef targetID ls out1))"

definition collectTrajectoryCandidatesForLoops ::
  "trajectory_framework \<Rightarrow> NATSToolResultResolver \<Rightarrow> string \<Rightarrow> string \<Rightarrow> string list \<Rightarrow> DerivationError + ResolvedToolResult list" where
  "collectTrajectoryCandidatesForLoops tw r rawRef targetID loopIDs =
     (case getTrajectoryKV r of Inl e \<Rightarrow> Inl e | Inr kv \<Rightarrow> candidates_of_loops tw r kv rawRef targetID loopIDs [])"

section \<open>Resolution\<close>

text \<open>The first candidate of the run; otherwise an error that names the last foreign loop and its run.\<close>

fun pick_candidate :: "trajectory_framework \<Rightarrow> NATSToolResultResolver \<Rightarrow> string \<Rightarrow> string \<Rightarrow> string \<Rightarrow> string \<Rightarrow> string \<times> string \<Rightarrow> ResolvedToolResult list \<Rightarrow>
   DerivationError + ResolvedToolResult" where
  "pick_candidate tw r ref loopID runID runEntityID alien [] =
     Inl (newInvalidArgsErr (if snd alien \<noteq> [] then ForeignRun ref (fst alien) (snd alien) (firstNonEmpty [runEntityID, runID, loopID])
                             else ForeignLoop ref (fst alien) (firstNonEmpty [runEntityID, runID, loopID])))"
| "pick_candidate tw r ref loopID runID runEntityID alien (cand # cands) =
     (case belongsToCallerRun tw r loopID runID runEntityID (rs_LoopID cand) of
        Inl e \<Rightarrow> Inl e
      | Inr (True, _) \<Rightarrow>
        (case resolveProducerLoopRevision tw r (rs_LoopID cand) of
           Inl e \<Rightarrow> Inl e
         | Inr n \<Rightarrow> Inr (cand\<lparr>rs_ProducerRevision := n\<rparr>))
      | Inr (False, prodRun) \<Rightarrow> pick_candidate tw r ref loopID runID runEntityID (rs_LoopID cand, prodRun) cands)"

definition scan_and_pick :: "trajectory_framework \<Rightarrow> NATSToolResultResolver \<Rightarrow> tool_call \<Rightarrow> string \<Rightarrow> string \<Rightarrow> string \<Rightarrow> string \<Rightarrow> string list \<Rightarrow>
   DerivationError + ResolvedToolResult" where
  "scan_and_pick tw r call ref targetID runID runEntityID loopIDs =
     (case collectTrajectoryCandidatesForLoops tw r ref targetID loopIDs of
        Inl e \<Rightarrow> Inl e
      | Inr cands \<Rightarrow>
          if cands = [] then Inl (newInvalidArgsErr (NotFound ref))
          else pick_candidate tw r ref (tc_LoopID call) runID runEntityID ([], []) cands)"

definition ResolveToolResult :: "trajectory_framework \<Rightarrow> NATSToolResultResolver \<Rightarrow> tool_call \<Rightarrow> string \<Rightarrow> (DerivationError + ResolvedToolResult) option" where
  "ResolveToolResult tw r call ref0 =
     (let ref = TrimSpace ref0; (rawHint, targetID) = splitToolResultRef ref; hint = normalizeLoopID rawHint in
      if ref = [] then Some (Inl (newInvalidArgsErr RefRequired))
      else case resolveCallerRun tw r call of
        Inl e \<Rightarrow> Some (Inl e)
      | Inr (runID, runEntityID) \<Rightarrow>
          if hint \<noteq> [] then
            (case belongsToCallerRun tw r (tc_LoopID call) runID runEntityID hint of
               Inl e \<Rightarrow> Some (Inl e)
             | Inr (True, _) \<Rightarrow> Some (scan_and_pick tw r call ref targetID runID runEntityID [hint])
             | Inr (False, prodRun) \<Rightarrow>
                 Some (Inl (newInvalidArgsErr
                   (if prodRun \<noteq> [] then ForeignRun ref hint prodRun (firstNonEmpty [runEntityID, runID, tc_LoopID call])
                    else ForeignLoop ref hint (firstNonEmpty [runEntityID, runID, tc_LoopID call])))))
          else (case discoverRunLoopIDs tw r call runID of
              None \<Rightarrow> None
            | Some (Inl e) \<Rightarrow> Some (Inl e)
            | Some (Inr loopIDs) \<Rightarrow> Some (scan_and_pick tw r call ref targetID runID runEntityID loopIDs)))"

end
