(* ===== verification/Derive_Lineage.thy ===== *)
theory Derive_Lineage
  imports Derive_Resolve
begin

text \<open>
  Which loops a resolution looks at. The two queues of the discovery walk the lineage of the caller; where that lineage is
  finite the walk ends, and what it returns is the lineage, no loop twice.
\<close>

section \<open>The lineage of a call\<close>

datatype role = Plan | Synthesis

definition names :: "string set \<Rightarrow> string set" where
  "names A = normalizeLoopID ` A - {[]}"

inductive lineage :: "trajectory_framework \<Rightarrow> NATSToolResultResolver \<Rightarrow> entity_reader \<Rightarrow> tool_call \<Rightarrow> role \<Rightarrow> string \<Rightarrow> bool"
  for tw r reader call where
  own: "n \<in> names {tc_LoopID call} \<Longrightarrow> lineage tw r reader call Synthesis n"
| related: "(k, AnyStr s) \<in> set (related_loops call) \<Longrightarrow> n \<in> names {s} \<Longrightarrow>
    lineage tw r reader call (if Contains k ''plan'' then Plan else Synthesis) n"
| plan_of: "lineage tw r reader call Synthesis s \<Longrightarrow> synth_links tw r reader s = Inr l \<Longrightarrow> n \<in> names (set (fst l)) \<Longrightarrow>
    lineage tw r reader call Plan n"
| before_synthesis: "lineage tw r reader call Synthesis s \<Longrightarrow> synth_links tw r reader s = Inr l \<Longrightarrow> n \<in> names (set (snd l)) \<Longrightarrow>
    lineage tw r reader call Synthesis n"
| before_plan: "lineage tw r reader call Plan p \<Longrightarrow> plan_links tw r reader p = Inr l \<Longrightarrow> n \<in> names (set (snd l)) \<Longrightarrow>
    lineage tw r reader call Synthesis n"

text \<open>The loops of the run: the caller, its run, the lineage, and the loops that gathered for a plan of it.\<close>

definition gathered :: "trajectory_framework \<Rightarrow> NATSToolResultResolver \<Rightarrow> entity_reader \<Rightarrow> string \<Rightarrow> string set" where
  "gathered tw r reader p = (case plan_links tw r reader p of Inl _ \<Rightarrow> {} | Inr l \<Rightarrow> names (set (fst l)))"

definition run_loops :: "trajectory_framework \<Rightarrow> NATSToolResultResolver \<Rightarrow> entity_reader \<Rightarrow> tool_call \<Rightarrow> string \<Rightarrow> string set" where
  "run_loops tw r reader call callerRunID =
     names {tc_LoopID call, callerRunID} \<union> names {n. \<exists>role. lineage tw r reader call role n} \<union>
     (\<Union>p \<in> {p. lineage tw r reader call Plan p}. gathered tw r reader p)"

text \<open>The name of one loop, if it has one.\<close>

definition name_of :: "string \<Rightarrow> string set" where
  "name_of raw = (if normalizeLoopID raw = [] then {} else {normalizeLoopID raw})"

lemma names_insert [simp]: "names (insert x A) = name_of x \<union> names A"
  by (auto simp: names_def name_of_def)

lemma names_empty [simp]: "names {} = {}"
  by (simp add: names_def)

lemma names_Un: "names (A \<union> B) = names A \<union> names B"
  by (auto simp: names_def)

section \<open>The state between two reads\<close>

text \<open>
  The syntheses and plans seen stay within \<open>U\<close> and \<open>V\<close>; they are read (\<open>DS\<close>, \<open>DP\<close>) or queued; the loops are their
  names and \<open>X\<close>. What is left to see and what is queued add up to \<open>ks\<close> and \<open>kp\<close>, which only a read makes less.
\<close>

definition disc :: "string set \<Rightarrow> string set \<Rightarrow> string set \<Rightarrow> string set \<Rightarrow> string set \<Rightarrow> nat \<Rightarrow> nat \<Rightarrow> runLoopDiscovery \<Rightarrow> bool" where
  "disc U V DS DP X ks kp d \<longleftrightarrow>
     set (rd_seenSynth d) \<subseteq> U \<and> set (rd_seenPlan d) \<subseteq> V \<and>
     set (rd_seenSynth d) = DS \<union> set (rd_synthQueue d) \<and> set (rd_seenPlan d) = DP \<union> set (rd_planQueue d) \<and>
     distinct (rd_loopIDs d) \<and> set (rd_loopIDs d) = names (set (rd_seenSynth d)) \<union> names (set (rd_seenPlan d)) \<union> X \<and>
     card (U - set (rd_seenSynth d)) + length (rd_synthQueue d) = ks \<and> card (V - set (rd_seenPlan d)) + length (rd_planQueue d) = kp"

definition seen_more :: "runLoopDiscovery \<Rightarrow> runLoopDiscovery \<Rightarrow> bool" where
  "seen_more d d' \<longleftrightarrow> set (rd_seenSynth d) \<subseteq> set (rd_seenSynth d') \<and> set (rd_seenPlan d) \<subseteq> set (rd_seenPlan d')"

lemma seen_more_refl [simp]: "seen_more d d"
  by (simp add: seen_more_def)

lemma seen_more_trans: "seen_more d d1 \<Longrightarrow> seen_more d1 d2 \<Longrightarrow> seen_more d d2"
  by (auto simp: seen_more_def)

lemma card_seen:
  assumes "finite U" "n \<in> U" "n \<notin> A"
  shows "Suc (card (U - insert n A)) = card (U - A)"
proof -
  have "U - insert n A = (U - A) - {n}" by blast
  then show ?thesis using card_Suc_Diff1 [of "U - A" n] assms by auto
qed

lemma disc_addLoop:
  assumes "disc U V DS DP X ks kp d"
  shows "disc U V DS DP (X \<union> name_of raw) ks kp (addLoop raw d) \<and> seen_more d (addLoop raw d)"
proof (cases "normalizeLoopID raw = [] \<or> normalizeLoopID raw \<in> set (rd_loopIDs d)")
  case True
  then have "addLoop raw d = d" by (simp add: addLoop_def Let_def)
  moreover have "name_of raw \<subseteq> set (rd_loopIDs d)" using True by (auto simp: name_of_def)
  ultimately show ?thesis using assms unfolding disc_def by auto
next
  case False
  then have "addLoop raw d = d\<lparr>rd_loopIDs := rd_loopIDs d @ [normalizeLoopID raw]\<rparr>" "name_of raw = {normalizeLoopID raw}"
    by (simp_all add: addLoop_def name_of_def Let_def)
  then show ?thesis using assms False unfolding disc_def seen_more_def by auto
qed

text \<open>A name that is queued is seen from then on, and counts as a loop.\<close>

lemma disc_seenSynth:
  assumes "finite U" "n \<in> U" "n \<notin> set (rd_seenSynth d)" "disc U V DS DP X ks kp d"
  shows "disc U V DS DP X ks kp (addLoop n (d\<lparr>rd_seenSynth := rd_seenSynth d @ [n], rd_synthQueue := rd_synthQueue d @ [n]\<rparr>))"
proof -
  have c: "Suc (card (U - insert n (set (rd_seenSynth d)))) = card (U - set (rd_seenSynth d))"
    by (rule card_seen [OF assms(1-3)])
  show ?thesis using assms(2-4) c unfolding disc_def addLoop_def Let_def
    by (cases "normalizeLoopID n = [] \<or> normalizeLoopID n \<in> set (rd_loopIDs d)") (auto simp: name_of_def)
qed

lemma disc_seenPlan:
  assumes "finite V" "n \<in> V" "n \<notin> set (rd_seenPlan d)" "disc U V DS DP X ks kp d"
  shows "disc U V DS DP X ks kp (addLoop n (d\<lparr>rd_seenPlan := rd_seenPlan d @ [n], rd_planQueue := rd_planQueue d @ [n]\<rparr>))"
proof -
  have c: "Suc (card (V - insert n (set (rd_seenPlan d)))) = card (V - set (rd_seenPlan d))"
    by (rule card_seen [OF assms(1-3)])
  show ?thesis using assms(2-4) c unfolding disc_def addLoop_def Let_def
    by (cases "normalizeLoopID n = [] \<or> normalizeLoopID n \<in> set (rd_loopIDs d)") (auto simp: name_of_def)
qed

lemma enqueueSynth_cases:
  obtains (old) "enqueueSynth raw d = d" "name_of raw \<subseteq> set (rd_seenSynth d)"
  | (new) n where "name_of raw = {n}" "n \<notin> set (rd_seenSynth d)"
      "enqueueSynth raw d = addLoop n (d\<lparr>rd_seenSynth := rd_seenSynth d @ [n], rd_synthQueue := rd_synthQueue d @ [n]\<rparr>)"
  by (cases "normalizeLoopID raw \<noteq> [] \<and> normalizeLoopID raw \<notin> set (rd_seenSynth d)") (auto simp: enqueueSynth_def name_of_def Let_def)

lemma enqueuePlan_cases:
  obtains (old) "enqueuePlan raw d = d" "name_of raw \<subseteq> set (rd_seenPlan d)"
  | (new) n where "name_of raw = {n}" "n \<notin> set (rd_seenPlan d)"
      "enqueuePlan raw d = addLoop n (d\<lparr>rd_seenPlan := rd_seenPlan d @ [n], rd_planQueue := rd_planQueue d @ [n]\<rparr>)"
  by (cases "normalizeLoopID raw \<noteq> [] \<and> normalizeLoopID raw \<notin> set (rd_seenPlan d)") (auto simp: enqueuePlan_def name_of_def Let_def)

lemma addLoop_seen [simp]: "rd_seenSynth (addLoop raw d) = rd_seenSynth d" "rd_seenPlan (addLoop raw d) = rd_seenPlan d"
  by (simp_all add: addLoop_def Let_def)

lemma disc_enqueueSynth:
  assumes "finite U" "name_of raw \<subseteq> U" "disc U V DS DP X ks kp d"
  shows "disc U V DS DP X ks kp (enqueueSynth raw d) \<and> seen_more d (enqueueSynth raw d) \<and> name_of raw \<subseteq> set (rd_seenSynth (enqueueSynth raw d))"
proof (cases raw d rule: enqueueSynth_cases)
  case old
  then show ?thesis using assms(3) by simp
next
  case (new n)
  then show ?thesis using disc_seenSynth [of U n] assms by (simp add: seen_more_def) blast
qed

lemma disc_enqueuePlan:
  assumes "finite V" "name_of raw \<subseteq> V" "disc U V DS DP X ks kp d"
  shows "disc U V DS DP X ks kp (enqueuePlan raw d) \<and> seen_more d (enqueuePlan raw d) \<and> name_of raw \<subseteq> set (rd_seenPlan (enqueuePlan raw d))"
proof (cases raw d rule: enqueuePlan_cases)
  case old
  then show ?thesis using assms(3) by simp
next
  case (new n)
  then show ?thesis using disc_seenPlan [of V n] assms by (simp add: seen_more_def) blast
qed

lemma disc_addLoops: "disc U V DS DP X ks kp d \<Longrightarrow> disc U V DS DP (X \<union> names (set raws)) ks kp (fold addLoop raws d) \<and> seen_more d (fold addLoop raws d)"
proof (induction raws arbitrary: d X)
  case (Cons raw raws)
  note step = disc_addLoop [OF Cons.prems, of raw]
  from Cons.IH [OF conjunct1 [OF step]] seen_more_trans [OF conjunct2 [OF step]] show ?case
    by (simp add: Un_assoc)
qed simp

lemma disc_enqueueSynths:
  "finite U \<Longrightarrow> names (set raws) \<subseteq> U \<Longrightarrow> disc U V DS DP X ks kp d \<Longrightarrow>
   disc U V DS DP X ks kp (fold enqueueSynth raws d) \<and> seen_more d (fold enqueueSynth raws d) \<and>
   names (set raws) \<subseteq> set (rd_seenSynth (fold enqueueSynth raws d))"
proof (induction raws arbitrary: d)
  case (Cons raw raws)
  have sub: "name_of raw \<subseteq> U" "names (set raws) \<subseteq> U" using Cons.prems(2) by simp_all
  note step = disc_enqueueSynth [OF Cons.prems(1) sub(1) Cons.prems(3)]
  note rest = Cons.IH [OF Cons.prems(1) sub(2) conjunct1 [OF step]]
  have "name_of raw \<subseteq> set (rd_seenSynth (fold enqueueSynth raws (enqueueSynth raw d)))" using step rest unfolding seen_more_def by blast
  then show ?case using rest seen_more_trans [OF conjunct1 [OF conjunct2 [OF step]] conjunct1 [OF conjunct2 [OF rest]]] by simp
qed simp

lemma disc_enqueuePlans:
  "finite V \<Longrightarrow> names (set raws) \<subseteq> V \<Longrightarrow> disc U V DS DP X ks kp d \<Longrightarrow>
   disc U V DS DP X ks kp (fold enqueuePlan raws d) \<and> seen_more d (fold enqueuePlan raws d) \<and>
   names (set raws) \<subseteq> set (rd_seenPlan (fold enqueuePlan raws d))"
proof (induction raws arbitrary: d)
  case (Cons raw raws)
  have sub: "name_of raw \<subseteq> V" "names (set raws) \<subseteq> V" using Cons.prems(2) by simp_all
  note step = disc_enqueuePlan [OF Cons.prems(1) sub(1) Cons.prems(3)]
  note rest = Cons.IH [OF Cons.prems(1) sub(2) conjunct1 [OF step]]
  have "name_of raw \<subseteq> set (rd_seenPlan (fold enqueuePlan raws (enqueuePlan raw d)))" using step rest unfolding seen_more_def by blast
  then show ?case using rest seen_more_trans [OF conjunct1 [OF conjunct2 [OF step]] conjunct1 [OF conjunct2 [OF rest]]] by simp
qed simp

section \<open>The queues\<close>

text \<open>What is read so far names only what is seen, and what gathered for the plans read is in \<open>X\<close>.\<close>

definition closed :: "trajectory_framework \<Rightarrow> NATSToolResultResolver \<Rightarrow> entity_reader \<Rightarrow> string set \<Rightarrow> string set \<Rightarrow> runLoopDiscovery \<Rightarrow> bool" where
  "closed tw r reader DS DP d \<longleftrightarrow>
     (\<forall>s \<in> DS. \<exists>l. synth_links tw r reader s = Inr l \<and> names (set (fst l)) \<subseteq> set (rd_seenPlan d) \<and> names (set (snd l)) \<subseteq> set (rd_seenSynth d)) \<and>
     (\<forall>p \<in> DP. \<exists>l. plan_links tw r reader p = Inr l \<and> names (set (snd l)) \<subseteq> set (rd_seenSynth d))"

text \<open>Nothing outside of \<open>U\<close> and \<open>V\<close> is named within.\<close>

definition bounded :: "trajectory_framework \<Rightarrow> NATSToolResultResolver \<Rightarrow> entity_reader \<Rightarrow> string set \<Rightarrow> string set \<Rightarrow> bool" where
  "bounded tw r reader U V \<longleftrightarrow> finite U \<and> finite V \<and>
     (\<forall>s \<in> U. \<forall>l. synth_links tw r reader s = Inr l \<longrightarrow> names (set (fst l)) \<subseteq> V \<and> names (set (snd l)) \<subseteq> U) \<and>
     (\<forall>p \<in> V. \<forall>l. plan_links tw r reader p = Inr l \<longrightarrow> names (set (snd l)) \<subseteq> U)"

text \<open>A read of the lineage that fails.\<close>

definition read_fails :: "trajectory_framework \<Rightarrow> NATSToolResultResolver \<Rightarrow> entity_reader \<Rightarrow> string set \<Rightarrow> string set \<Rightarrow> DerivationError \<Rightarrow> bool" where
  "read_fails tw r reader U V e \<longleftrightarrow> (\<exists>s \<in> U. synth_links tw r reader s = Inl e) \<or> (\<exists>p \<in> V. plan_links tw r reader p = Inl e)"

lemma closed_more: "closed tw r reader DS DP d \<Longrightarrow> seen_more d d' \<Longrightarrow> closed tw r reader DS DP d'"
  unfolding closed_def seen_more_def by (meson subset_trans)

lemma disc_pop_synth:
  "disc U V DS DP X ks kp d \<Longrightarrow> rd_synthQueue d = s # q \<Longrightarrow>
   s \<in> U \<and> (\<exists>k. ks = Suc k \<and> disc U V (insert s DS) DP X k kp (d\<lparr>rd_synthQueue := q\<rparr>))"
  by (auto simp: disc_def)

lemma disc_pop_plan:
  "disc U V DS DP X ks kp d \<Longrightarrow> rd_planQueue d = p # q \<Longrightarrow>
   p \<in> V \<and> (\<exists>k. kp = Suc k \<and> disc U V DS (insert p DP) X ks k (d\<lparr>rd_planQueue := q\<rparr>))"
  by (auto simp: disc_def)

lemma drain_ends:
  "bounded tw r reader U V \<Longrightarrow> disc U V DS DP X ks kp d \<Longrightarrow> closed tw r reader DS DP d \<Longrightarrow>
   \<exists>out. drainSynthesizeQueue tw r reader d = Some out \<and>
     (case out of Inl e \<Rightarrow> read_fails tw r reader U V e
      | Inr d' \<Rightarrow> rd_synthQueue d' = [] \<and> (\<exists>DS' ks'. disc U V DS' DP X ks' kp d' \<and> closed tw r reader DS' DP d') \<and> seen_more d d')"
proof (induction ks arbitrary: DS d)
  case 0
  then have "rd_synthQueue d = []" by (simp add: disc_def)
  then show ?case using 0 by (subst drainSynthesizeQueue.simps) auto
next
  case (Suc ks)
  show ?case
  proof (cases "rd_synthQueue d")
    case Nil
    then show ?thesis using Suc.prems by (subst drainSynthesizeQueue.simps) auto
  next
    case (Cons s q)
    let ?d = "d\<lparr>rd_synthQueue := q\<rparr>"
    have s: "s \<in> U" and pop: "disc U V (insert s DS) DP X ks kp ?d" using disc_pop_synth [OF Suc.prems(2) Cons] by auto
    show ?thesis
    proof (cases "synth_links tw r reader s")
      case (Inl e)
      then show ?thesis using Cons s by (subst drainSynthesizeQueue.simps) (auto simp: read_fails_def)
    next
      case (Inr l)
      have b: "finite U" "finite V" "names (set (fst l)) \<subseteq> V" "names (set (snd l)) \<subseteq> U"
        using Suc.prems(1) s Inr unfolding bounded_def by blast+
      define d1 where "d1 = fold enqueuePlan (fst l) ?d"
      define d2 where "d2 = fold enqueueSynth (snd l) d1"
      have d1: "disc U V (insert s DS) DP X ks kp d1 \<and> seen_more ?d d1 \<and> names (set (fst l)) \<subseteq> set (rd_seenPlan d1)"
        unfolding d1_def by (rule disc_enqueuePlans [OF b(2,3) pop])
      have d2: "disc U V (insert s DS) DP X ks kp d2 \<and> seen_more d1 d2 \<and> names (set (snd l)) \<subseteq> set (rd_seenSynth d2)"
        unfolding d2_def using disc_enqueueSynths [OF b(1,4)] d1 by blast
      have more: "seen_more d d2" using d1 d2 by (auto simp: seen_more_def)
      have "names (set (fst l)) \<subseteq> set (rd_seenPlan d2)" using d1 d2 unfolding seen_more_def by blast
      then have "closed tw r reader (insert s DS) DP d2"
        using closed_more [OF Suc.prems(3) more] d2 Inr unfolding closed_def by (cases l) simp
      from Suc.IH [OF Suc.prems(1) conjunct1 [OF d2] this]
      obtain out where out: "drainSynthesizeQueue tw r reader d2 = Some out" and
        ok: "case out of Inl e \<Rightarrow> read_fails tw r reader U V e
          | Inr d' \<Rightarrow> rd_synthQueue d' = [] \<and> (\<exists>DS' ks'. disc U V DS' DP X ks' kp d' \<and> closed tw r reader DS' DP d') \<and> seen_more d2 d'" by blast
      have "drainSynthesizeQueue tw r reader d = Some out"
        using Cons Inr out by (subst drainSynthesizeQueue.simps) (simp add: d1_def d2_def)
      then show ?thesis using ok seen_more_trans [OF more] by (auto split: sum.splits)
    qed
  qed
qed

lemma plan_loop_ends:
  "bounded tw r reader U V \<Longrightarrow> disc U V DS DP (X \<union> \<Union>(gathered tw r reader ` DP)) ks kp d \<Longrightarrow> closed tw r reader DS DP d \<Longrightarrow>
   rd_synthQueue d = [] \<Longrightarrow>
   \<exists>out. plan_loop tw r reader d = Some out \<and>
     (case out of Inl e \<Rightarrow> read_fails tw r reader U V e
      | Inr d' \<Rightarrow> rd_synthQueue d' = [] \<and> rd_planQueue d' = [] \<and> seen_more d d' \<and>
          (\<exists>DS' DP' ks' kp'. disc U V DS' DP' (X \<union> \<Union>(gathered tw r reader ` DP')) ks' kp' d' \<and> closed tw r reader DS' DP' d'))"
proof (induction kp arbitrary: DS DP ks d)
  case 0
  then have "rd_planQueue d = []" by (simp add: disc_def)
  then show ?case using 0 by (subst plan_loop.simps) auto
next
  case (Suc kp)
  show ?case
  proof (cases "rd_planQueue d")
    case Nil
    then show ?thesis using Suc.prems by (subst plan_loop.simps) auto
  next
    case (Cons p q)
    let ?d = "d\<lparr>rd_planQueue := q\<rparr>" and ?X = "X \<union> \<Union>(gathered tw r reader ` insert p DP)"
    have p: "p \<in> V" and pop: "disc U V DS (insert p DP) (X \<union> \<Union>(gathered tw r reader ` DP)) ks kp ?d"
      using disc_pop_plan [OF Suc.prems(2) Cons] by auto
    show ?thesis
    proof (cases "plan_links tw r reader p")
      case (Inl e)
      then show ?thesis using Cons p by (subst plan_loop.simps) (auto simp: read_fails_def)
    next
      case (Inr l)
      have b: "finite U" "names (set (snd l)) \<subseteq> U" using Suc.prems(1) p Inr unfolding bounded_def by blast+
      define d1 where "d1 = fold addLoop (fst l) ?d"
      define d2 where "d2 = fold enqueueSynth (snd l) d1"
      have "?X = X \<union> \<Union>(gathered tw r reader ` DP) \<union> names (set (fst l))" using Inr by (auto simp: gathered_def)
      then have d1: "disc U V DS (insert p DP) ?X ks kp d1 \<and> seen_more ?d d1"
        using disc_addLoops [OF pop, of "fst l"] unfolding d1_def by simp
      have d2: "disc U V DS (insert p DP) ?X ks kp d2 \<and> seen_more d1 d2 \<and> names (set (snd l)) \<subseteq> set (rd_seenSynth d2)"
        unfolding d2_def using disc_enqueueSynths [OF b] d1 by blast
      have more: "seen_more d d2" using d1 d2 by (auto simp: seen_more_def)
      have cl: "closed tw r reader DS (insert p DP) d2"
        using closed_more [OF Suc.prems(3) more] d2 Inr unfolding closed_def by (cases l) simp
      obtain x where x: "drainSynthesizeQueue tw r reader d2 = Some x" and
        ok: "case x of Inl e \<Rightarrow> read_fails tw r reader U V e
          | Inr d' \<Rightarrow> rd_synthQueue d' = [] \<and> (\<exists>DS' ks'. disc U V DS' (insert p DP) ?X ks' kp d' \<and> closed tw r reader DS' (insert p DP) d') \<and> seen_more d2 d'"
        using drain_ends [OF Suc.prems(1) conjunct1 [OF d2] cl] by blast
      have loop: "plan_loop tw r reader d = (case x of Inl e \<Rightarrow> Some (Inl e) | Inr d' \<Rightarrow> plan_loop tw r reader d')"
        using Cons Inr x by (subst plan_loop.simps) (simp add: d1_def d2_def)
      show ?thesis
      proof (cases x)
        case (Inl e)
        then show ?thesis using loop ok by simp
      next
        case (Inr d3)
        then obtain DS' ks' where d3: "disc U V DS' (insert p DP) ?X ks' kp d3" "closed tw r reader DS' (insert p DP) d3" "rd_synthQueue d3 = []" "seen_more d2 d3"
          using ok by auto
        from Suc.IH [OF Suc.prems(1) d3(1-3)] seen_more_trans [OF seen_more_trans [OF more d3(4)]] loop Inr show ?thesis
          by (auto split: sum.splits)
      qed
    qed
  qed
qed

section \<open>The seeds\<close>

text \<open>What a related loop of the call is taken for, and whether a discovery has it.\<close>

definition seeded :: "runLoopDiscovery \<Rightarrow> string \<times> any \<Rightarrow> bool" where
  "seeded d kv \<longleftrightarrow> (case snd kv of
     AnyStr s \<Rightarrow> name_of s \<subseteq> (if Contains (fst kv) ''plan'' then set (rd_seenPlan d) else set (rd_seenSynth d)) | _ \<Rightarrow> True)"

definition seed_in :: "string set \<Rightarrow> string set \<Rightarrow> string \<times> any \<Rightarrow> bool" where
  "seed_in U V kv \<longleftrightarrow> (case snd kv of AnyStr s \<Rightarrow> name_of s \<subseteq> (if Contains (fst kv) ''plan'' then V else U) | _ \<Rightarrow> True)"

lemma seeded_more: "seeded d kv \<Longrightarrow> seen_more d d' \<Longrightarrow> seeded d' kv"
  by (auto simp: seeded_def seen_more_def split: any.splits if_splits)

lemma disc_seed_one:
  assumes "finite U" "finite V" "seed_in U V kv" "disc U V DS DP X ks kp d"
  shows "disc U V DS DP X ks kp (seed_one kv d) \<and> seen_more d (seed_one kv d) \<and> seeded (seed_one kv d) kv"
proof (cases "snd kv")
  case (AnyStr s)
  then show ?thesis using assms(3) disc_enqueuePlan [OF assms(2) _ assms(4), of s] disc_enqueueSynth [OF assms(1) _ assms(4), of s]
    by (auto simp: seed_one_def seeded_def seed_in_def)
qed (use assms(4) in \<open>simp_all add: seed_one_def seeded_def\<close>)

lemma disc_seeds:
  "finite U \<Longrightarrow> finite V \<Longrightarrow> \<forall>kv \<in> set kvs. seed_in U V kv \<Longrightarrow> disc U V DS DP X ks kp d \<Longrightarrow>
   disc U V DS DP X ks kp (fold seed_one kvs d) \<and> seen_more d (fold seed_one kvs d) \<and> (\<forall>kv \<in> set kvs. seeded (fold seed_one kvs d) kv)"
proof (induction kvs arbitrary: d)
  case (Cons kv kvs)
  have step: "disc U V DS DP X ks kp (seed_one kv d) \<and> seen_more d (seed_one kv d) \<and> seeded (seed_one kv d) kv"
    by (rule disc_seed_one) (use Cons.prems in simp_all)
  have "\<forall>kv \<in> set kvs. seed_in U V kv" using Cons.prems(3) by simp
  note rest = Cons.IH [OF Cons.prems(1,2) this conjunct1 [OF step]]
  have "seen_more d (fold seed_one kvs (seed_one kv d))" "seeded (fold seed_one kvs (seed_one kv d)) kv"
    using step rest seen_more_trans seeded_more by blast+
  with rest show ?case by simp
qed simp

lemma disc_start:
  assumes "finite U" "finite V" "name_of (tc_LoopID call) \<subseteq> U" "\<forall>kv \<in> set (related_loops call). seed_in U V kv"
  shows "disc U V {} {} (names {tc_LoopID call, runID}) (card U) (card V) (discover_start call runID) \<and>
    name_of (tc_LoopID call) \<subseteq> set (rd_seenSynth (discover_start call runID)) \<and> (\<forall>kv \<in> set (related_loops call). seeded (discover_start call runID) kv)"
proof -
  let ?X = "names {tc_LoopID call, runID}"
  let ?d0 = "addLoop runID (addLoop (tc_LoopID call) newRunLoopDiscovery)"
  let ?d1 = "if tc_LoopID call \<noteq> [] then enqueueSynth (tc_LoopID call) ?d0 else ?d0"
  have "disc U V {} {} {} (card U) (card V) newRunLoopDiscovery" by (simp add: disc_def newRunLoopDiscovery_def)
  then have "disc U V {} {} ({} \<union> name_of (tc_LoopID call) \<union> name_of runID) (card U) (card V) ?d0" using disc_addLoop by blast
  then have "disc U V {} {} ?X (card U) (card V) ?d0" by simp
  moreover have "name_of [] = {}" by (simp add: name_of_def normalizeLoopID_def TrimSpace_def)
  ultimately have d1: "disc U V {} {} ?X (card U) (card V) ?d1 \<and> name_of (tc_LoopID call) \<subseteq> set (rd_seenSynth ?d1)"
    using disc_enqueueSynth [OF assms(1,3)] by (cases "tc_LoopID call = []") simp_all
  have "disc U V {} {} ?X (card U) (card V) (fold seed_one (related_loops call) ?d1) \<and> seen_more ?d1 (fold seed_one (related_loops call) ?d1) \<and>
      (\<forall>kv \<in> set (related_loops call). seeded (fold seed_one (related_loops call) ?d1) kv)"
    by (rule disc_seeds [OF assms(1,2,4)]) (use d1 in simp)
  then show ?thesis using d1 unfolding discover_start_def seedFromToolCall_def seen_more_def by blast
qed

section \<open>Graphs\<close>

text \<open>Entities that hold triples are finitely many.\<close>

definition finite_graph :: "entity_reader \<Rightarrow> bool" where
  "finite_graph reader \<longleftrightarrow> finite {e. \<exists>t. er_ReadEntity reader e = Inr t \<and> t \<noteq> []} \<and>
     (\<forall>readAll. er_ReadEntityAll reader = Some readAll \<longrightarrow> finite {e. \<exists>t. readAll e = Inr t \<and> t \<noteq> []})"

lemma finite_replies:
  fixes read :: "'k \<Rightarrow> 'e + 'a list"
  assumes "finite {e. \<exists>t. read e = Inr t \<and> t \<noteq> []}"
  shows "finite {t. \<exists>e. read e = Inr t}"
proof -
  have "{t. \<exists>e. read e = Inr t} \<subseteq> insert [] ((\<lambda>e. projr (read e)) ` {e. \<exists>t. read e = Inr t \<and> t \<noteq> []})"
    by (force intro: rev_image_eqI)
  then show ?thesis using assms finite_subset by blast
qed

lemma finite_synth_links:
  assumes "finite_graph reader"
  shows "finite {l. \<exists>s. synth_links tw r reader s = Inr l}"
proof -
  let ?f = "\<lambda>t. (strs_of (gm_get t predicateLineagePlanLoop) @ strs_of (gm_get t predicateLineagePlanLoopEntity), strs_of (gm_get t predicateLineagePriorSynthesize))"
  have "{l. \<exists>s. synth_links tw r reader s = Inr l} \<subseteq> ?f ` {t. \<exists>e. er_ReadEntity reader e = Inr t}"
  proof (rule subsetI; elim CollectE exE)
    fix l s
    assume "synth_links tw r reader s = Inr l"
    then obtain t where "er_ReadEntity reader (toLoopEntityID tw r s) = Inr t" "l = ?f t" unfolding synth_links_def by (auto split: sum.splits)
    then show "l \<in> ?f ` {t. \<exists>e. er_ReadEntity reader e = Inr t}" by blast
  qed
  then show ?thesis using finite_replies assms finite_subset unfolding finite_graph_def by blast
qed

lemma finite_plan_links:
  assumes "finite_graph reader"
  shows "finite {l. \<exists>p. plan_links tw r reader p = Inr l}"
proof (cases "er_ReadEntityAll reader")
  case None
  let ?f = "\<lambda>t. (case gm_get t predicateGatherCompletedLoop of Some (AnyStr s) \<Rightarrow> [s] | Some (AnyStrs ss) \<Rightarrow> ss | Some (AnyList xs) \<Rightarrow> only_strs xs | _ \<Rightarrow> [],
    strs_of (gm_get t predicateLineagePriorSynthesize))"
  have "{l. \<exists>p. plan_links tw r reader p = Inr l} \<subseteq> ?f ` {t. \<exists>e. er_ReadEntity reader e = Inr t}"
  proof (rule subsetI; elim CollectE exE)
    fix l p
    assume "plan_links tw r reader p = Inr l"
    then obtain t where "er_ReadEntity reader (toLoopEntityID tw r p) = Inr t" "l = ?f t"
      unfolding plan_links_def None Let_def by (cases "er_ReadEntity reader (toLoopEntityID tw r p)") auto
    then show "l \<in> ?f ` {t. \<exists>e. er_ReadEntity reader e = Inr t}" by blast
  qed
  then show ?thesis using finite_replies assms finite_subset unfolding finite_graph_def by blast
next
  case (Some readAll)
  let ?g = "\<lambda>t x. only_strs (case gm_get t x of None \<Rightarrow> [] | Some xs \<Rightarrow> xs)"
  let ?f = "\<lambda>t. (?g t predicateGatherCompletedLoop, ?g t predicateLineagePriorSynthesize)"
  have "{l. \<exists>p. plan_links tw r reader p = Inr l} \<subseteq> ?f ` {t. \<exists>e. readAll e = Inr t}"
  proof (rule subsetI; elim CollectE exE)
    fix l p
    assume "plan_links tw r reader p = Inr l"
    then obtain t where "readAll (toLoopEntityID tw r p) = Inr t" "l = ?f t"
      unfolding plan_links_def Some Let_def by (cases "readAll (toLoopEntityID tw r p)") auto
    then show "l \<in> ?f ` {t. \<exists>e. readAll e = Inr t}" by blast
  qed
  moreover have "finite {t. \<exists>e. readAll e = Inr t}" using finite_replies assms Some unfolding finite_graph_def by blast
  ultimately show ?thesis using finite_subset by blast
qed

lemma finite_names: "finite A \<Longrightarrow> finite (names A)"
  by (simp add: names_def)

lemma finite_lineage:
  assumes "finite_graph reader"
  shows "finite {n. lineage tw r reader call role n}"
proof -
  let ?syn = "{l. \<exists>s. synth_links tw r reader s = Inr l}" and ?pln = "{l. \<exists>p. plan_links tw r reader p = Inr l}"
  let ?seed = "\<Union>kv \<in> set (related_loops call). (case snd kv of AnyStr s \<Rightarrow> names {s} | _ \<Rightarrow> {})"
  let ?all = "names {tc_LoopID call} \<union> ?seed \<union> (\<Union>l \<in> ?syn. names (set (fst l)) \<union> names (set (snd l))) \<union> (\<Union>l \<in> ?pln. names (set (snd l)))"
  have sub: "n \<in> ?all" if "lineage tw r reader call role n" for n
    using that by cases force+
  have one: "finite (case snd kv of AnyStr s \<Rightarrow> names {s} | _ \<Rightarrow> {})" for kv :: "string \<times> any"
    by (cases "snd kv") (simp_all add: finite_names del: names_insert)
  have "finite ?seed" by (rule finite_UN_I [OF finite_set one])
  moreover have "finite (\<Union>l \<in> ?syn. names (set (fst l)) \<union> names (set (snd l)))"
    by (rule finite_UN_I [OF finite_synth_links [OF assms]]) (rule finite_UnI; rule finite_names; rule finite_set)
  moreover have "finite (\<Union>l \<in> ?pln. names (set (snd l)))"
    by (rule finite_UN_I [OF finite_plan_links [OF assms]]) (rule finite_names; rule finite_set)
  moreover have "finite (names {tc_LoopID call})" by (rule finite_names) (rule finite.emptyI [THEN finite.insertI])
  ultimately have "finite ?all" by (intro finite_UnI)
  moreover have "{n. lineage tw r reader call role n} \<subseteq> ?all" by (rule subsetI) (rule sub, erule CollectD)
  ultimately show ?thesis by (rule finite_subset [rotated])
qed

section \<open>Discovery\<close>

lemma lineage_bounded:
  assumes "finite_graph reader"
  shows "bounded tw r reader {n. lineage tw r reader call Synthesis n} {n. lineage tw r reader call Plan n}"
  unfolding bounded_def using finite_lineage [OF assms] by (auto intro: lineage.plan_of lineage.before_synthesis lineage.before_plan)

lemma lineage_seen:
  assumes "lineage tw r reader call role n" "name_of (tc_LoopID call) \<subseteq> set (rd_seenSynth d)" "\<forall>kv \<in> set (related_loops call). seeded d kv"
    "closed tw r reader (set (rd_seenSynth d)) (set (rd_seenPlan d)) d"
  shows "n \<in> (case role of Synthesis \<Rightarrow> set (rd_seenSynth d) | Plan \<Rightarrow> set (rd_seenPlan d))"
  using assms(1)
proof induction
  case (related k s n)
  then have "seeded d (k, AnyStr s)" using assms(3) by blast
  with related show ?case by (auto simp: seeded_def)
next
  case (plan_of s l n)
  then show ?case using assms(4) by (fastforce simp: closed_def)
next
  case (before_synthesis s l n)
  then show ?case using assms(4) by (fastforce simp: closed_def)
next
  case (before_plan p l n)
  then show ?case using assms(4) by (fastforce simp: closed_def)
qed (use assms(2) in auto)

text \<open>
  C15. The discovery of the loops of a run ends and misses none: on a graph with finitely many entities that hold triples, cycles
  of lineage included, it returns; it fails only where a read of the lineage fails; and otherwise what it returns are the
  caller, its run, every synthesis and plan the caller descends from and every loop that gathered for such a plan, each once.
\<close>

theorem discovery_complete:
  assumes "nr_entityReader r = Some reader" "finite_graph reader"
  shows "\<exists>out. discoverRunLoopIDs tw r call runID = Some out \<and>
     (case out of
        Inl e \<Rightarrow> read_fails tw r reader {n. lineage tw r reader call Synthesis n} {n. lineage tw r reader call Plan n} e
      | Inr loops \<Rightarrow> distinct loops \<and> set loops = run_loops tw r reader call runID)"
proof -
  let ?U = "{n. lineage tw r reader call Synthesis n}" and ?V = "{n. lineage tw r reader call Plan n}" and ?X = "names {tc_LoopID call, runID}"
  define d where "d = discover_start call runID"
  note bounded = lineage_bounded [OF assms(2), of tw r call]
  have "\<forall>kv \<in> set (related_loops call). seed_in ?U ?V kv"
    using lineage.related [of _ _ call _ tw r reader] by (fastforce simp: seed_in_def split: any.splits)
  moreover have "name_of (tc_LoopID call) \<subseteq> ?U" using lineage.own [of _ call tw r reader] by auto
  ultimately have start: "disc ?U ?V {} {} ?X (card ?U) (card ?V) d" "name_of (tc_LoopID call) \<subseteq> set (rd_seenSynth d)" "\<forall>kv \<in> set (related_loops call). seeded d kv"
    using disc_start [of ?U ?V call runID] bounded unfolding d_def bounded_def by blast+
  obtain x where x: "drainSynthesizeQueue tw r reader d = Some x" and
    ok: "case x of Inl e \<Rightarrow> read_fails tw r reader ?U ?V e
      | Inr d' \<Rightarrow> rd_synthQueue d' = [] \<and> (\<exists>DS' ks'. disc ?U ?V DS' {} ?X ks' (card ?V) d' \<and> closed tw r reader DS' {} d') \<and> seen_more d d'"
    using drain_ends [OF bounded start(1)] by (auto simp: closed_def)
  show ?thesis
  proof (cases x)
    case (Inl e)
    then show ?thesis using assms(1) x ok by (simp add: discoverRunLoopIDs_def d_def [symmetric])
  next
    case (Inr d1)
    then obtain DS ks where d1: "disc ?U ?V DS {} (?X \<union> \<Union>(gathered tw r reader ` {})) ks (card ?V) d1" "closed tw r reader DS {} d1" "rd_synthQueue d1 = []" "seen_more d d1"
      using ok by auto
    obtain out where out: "plan_loop tw r reader d1 = Some out" and
      fin: "case out of Inl e \<Rightarrow> read_fails tw r reader ?U ?V e
        | Inr d' \<Rightarrow> rd_synthQueue d' = [] \<and> rd_planQueue d' = [] \<and> seen_more d1 d' \<and>
          (\<exists>DS' DP' ks' kp'. disc ?U ?V DS' DP' (?X \<union> \<Union>(gathered tw r reader ` DP')) ks' kp' d' \<and> closed tw r reader DS' DP' d')"
      using plan_loop_ends [OF bounded d1(1-3)] by blast
    have run: "discoverRunLoopIDs tw r call runID = Some (map_sum id rd_loopIDs out)"
      using assms(1) x Inr out by (simp add: discoverRunLoopIDs_def d_def [symmetric])
    show ?thesis
    proof (cases out)
      case (Inl e)
      then show ?thesis using run fin by simp
    next
      case (Inr d2)
      then obtain DS' DP' ks' kp' where d2: "disc ?U ?V DS' DP' (?X \<union> \<Union>(gathered tw r reader ` DP')) ks' kp' d2" "closed tw r reader DS' DP' d2"
        "rd_synthQueue d2 = []" "rd_planQueue d2 = []" "seen_more d1 d2" using fin by auto
      have seen: "DS' = set (rd_seenSynth d2)" "DP' = set (rd_seenPlan d2)" using d2(1,3,4) by (auto simp: disc_def)
      have more: "seen_more d d2" using seen_more_trans d1(4) d2(5) by blast
      have "name_of (tc_LoopID call) \<subseteq> set (rd_seenSynth d2)" "\<forall>kv \<in> set (related_loops call). seeded d2 kv"
        using start(2,3) more seeded_more unfolding seen_more_def by blast+
      note all = lineage_seen [OF _ this d2(2) [unfolded seen]]
      have sub: "set (rd_seenSynth d2) \<subseteq> ?U" "set (rd_seenPlan d2) \<subseteq> ?V" "distinct (rd_loopIDs d2)"
        "set (rd_loopIDs d2) = names (set (rd_seenSynth d2)) \<union> names (set (rd_seenPlan d2)) \<union> (?X \<union> \<Union>(gathered tw r reader ` set (rd_seenPlan d2)))"
        using d2(1) unfolding disc_def seen by blast+
      have UV: "?U = set (rd_seenSynth d2)" "?V = set (rd_seenPlan d2)"
        using all [of Synthesis] all [of Plan] sub(1,2) by auto
      have "lineage tw r reader call role n \<Longrightarrow> n \<in> ?U \<union> ?V" for role n by (cases role) auto
      then have "{n. \<exists>role. lineage tw r reader call role n} = ?U \<union> ?V" by blast
      then have "run_loops tw r reader call runID = set (rd_loopIDs d2)"
        unfolding run_loops_def sub(4) UV by (simp only: names_Un) (rule set_eqI; simp only: Un_iff; argo)
      then show ?thesis using run Inr sub(3) by simp
    qed
  qed
qed

section \<open>A cycle\<close>

text \<open>The caller descends from a plan, which refines the synthesis of the caller itself; one loop gathered for the plan.\<close>

definition sample_tw :: trajectory_framework where
  "sample_tw = \<lparr>
     tw_framework = \<lparr>fw_RunID = ''run_id'', fw_RunEntityID = ''run_entity_id'', fw_RelatedLoops = ''related_loops'',
       fw_TryChainExecutionEntityID = (\<lambda>org platform i. Inl ''none''), fw_TryLoopExecutionEntityID = (\<lambda>org platform i. Inl ''none'')\<rparr>,
     tw_LoopExecutionEntityID = (\<lambda>org platform i. ''o.p.a.l.e.'' @ i), tw_TrajectoryFactPrefix = (\<lambda>l. ''t.'' @ l @ ''.''),
     tw_ToolCompleted = ''tool.completed'', tw_LoopRunEntityID = ''loop.run-entity'', tw_LoopRun = ''loop.run'',
     tw_decodeFact = (\<lambda>s. if s = ''fact'' then Some \<lparr>tf_Kind = ''tool.completed'', tf_Evidence = Some (''store'', ''obj''), tf_SourceCorrelation = ''call-1'',
       tf_EvidenceDigest = [], tf_ToolPreview = ''http_request'', tf_Status = ''completed'', tf_ObservedAt = mk_utc 7\<rparr> else None),
     tw_decodeEvidence = Some,
     tw_decodeBody = (\<lambda>s. Some \<lparr>cb_CallID = ''call-1'', cb_ExecutionID = ''x1'', cb_LoopID = ''g1'', cb_Name = ''http_request'', cb_Error = [], cb_ErrorKind = [],
       cb_Content = s, cb_DispatchArguments = []\<rparr>)\<rparr>"

definition sample_entities :: entity_reader where
  "sample_entities = \<lparr>er_ReadEntity = (\<lambda>e.
       if e = ''o.p.a.l.e.s1'' then Inr [(predicateLineagePlanLoop, AnyStr ''p1''), (''loop.run'', AnyStr ''r1'')]
       else if e = ''o.p.a.l.e.p1'' then Inr [(predicateLineagePriorSynthesize, AnyStr ''s1''), (predicateGatherCompletedLoop, AnyStr ''g1'')]
       else if e = ''o.p.a.l.e.g1'' then Inr [(''loop.run'', AnyStr ''r1''), (predicatePlanRevision, AnyInt 3)]
       else Inr []),
     er_ReadEntityAll = None\<rparr>"

definition sample_run_resolver :: NATSToolResultResolver where
  "sample_run_resolver = \<lparr>nr_natsClient = None, nr_entityReader = Some sample_entities, nr_org = ''o'', nr_platform = ''p'', nr_storageBuckets = [],
     nr_trajectoriesKV = Some \<lparr>kv_FilteredKeys = (\<lambda>k. if k = ''t.g1.>'' then KvFound [''t.g1.1''] else KvMissing),
       kv_Get = (\<lambda>k. if k = ''t.g1.1'' then KvFound ''fact'' else KvMissing)\<rparr>,
     nr_contentStore = Some (\<lambda>key. if key = ''obj'' then Inr ''page'' else Inl ''none''), nr_contentStores = []\<rparr>"

definition sample_caller :: tool_call where
  "sample_caller = \<lparr>tc_LoopID = ''s1'', tc_Metadata = None, tc_ID = ''c'', tc_Name = ''emit_research_artifact'', tc_Arguments = None\<rparr>"

lemma sample_graph: "finite_graph sample_entities"
proof -
  have "{e. \<exists>t. er_ReadEntity sample_entities e = Inr t \<and> t \<noteq> []} \<subseteq> {''o.p.a.l.e.s1'', ''o.p.a.l.e.p1'', ''o.p.a.l.e.g1''}"
    by (auto simp: sample_entities_def split: if_splits)
  then have "finite {e. \<exists>t. er_ReadEntity sample_entities e = Inr t \<and> t \<noteq> []}" by (rule finite_subset) simp
  then show ?thesis by (simp add: finite_graph_def sample_entities_def)
qed

theorem discovery_complete_witness:
  "run_loops sample_tw sample_run_resolver sample_entities sample_caller ''r1'' = {''s1'', ''r1'', ''p1'', ''g1''}"
proof -
  have "discoverRunLoopIDs sample_tw sample_run_resolver sample_caller ''r1'' = Some (Inr [''s1'', ''r1'', ''p1'', ''g1''])" by code_simp
  moreover have "nr_entityReader sample_run_resolver = Some sample_entities" by (simp add: sample_run_resolver_def)
  ultimately show ?thesis using discovery_complete [OF _ sample_graph, of sample_run_resolver sample_tw sample_caller "''r1''"] by auto
qed

end
