(* ===== verification/Derive_Run.thy ===== *)
theory Derive_Run
  imports Derive_Lineage
begin

text \<open>
  What a resolution gives: a tool result that a completion fact of the run's trajectories records, whose evidence has the
  digest the fact names, and whose loop belongs to the run of the caller.
\<close>

section \<open>Specification\<close>

text \<open>The evidence a fact points to, as it was when the fact was written: its digest is the one recorded, if one is.\<close>

definition digest_agrees :: "string \<Rightarrow> string \<Rightarrow> bool" where
  "digest_agrees digest bytes \<longleftrightarrow> TrimSpace digest = [] \<or> EqualFold (sha256_hex bytes) (TrimSpace digest)"

definition evidence :: "trajectory_framework \<Rightarrow> NATSToolResultResolver \<Rightarrow> TrajectoryFact \<Rightarrow> string \<Rightarrow> string \<Rightarrow> completion_body \<Rightarrow> bool" where
  "evidence tw r fct storageInstance key body \<longleftrightarrow>
     (\<exists>store bytes raw. getContentStore r storageInstance = Inr store \<and> store key = Inr bytes \<and> digest_agrees (tf_EvidenceDigest fct) bytes \<and>
        tw_decodeEvidence tw bytes = Some raw \<and> tw_decodeBody tw raw = Some body)"

definition recorded :: "trajectory_framework \<Rightarrow> NATSToolResultResolver \<Rightarrow> trajectoryKVStore \<Rightarrow> string \<Rightarrow> string \<Rightarrow> string \<Rightarrow> ResolvedToolResult \<Rightarrow> bool" where
  "recorded tw r kv ref targetID loop cand \<longleftrightarrow>
     (\<exists>keys k bytes fct storageInstance key body.
        kv_FilteredKeys kv (tw_TrajectoryFactPrefix tw loop @ ''>'') = KvFound keys \<and> k \<in> set keys \<and> kv_Get kv k = KvFound bytes \<and>
        tw_decodeFact tw bytes = Some fct \<and> tf_Kind fct = tw_ToolCompleted tw \<and> tf_Evidence fct = Some (storageInstance, key) \<and>
        evidence tw r fct storageInstance key body \<and> cand = candidate_of fct body loop ref \<and> matchesTargetID cand ref targetID)"

text \<open>A loop is of the run of the caller if it is the caller, or its entity names the run.\<close>

definition names_run :: "trajectory_framework \<Rightarrow> string \<Rightarrow> string \<Rightarrow> (string \<times> any) list \<Rightarrow> bool" where
  "names_run tw runID runEntityID triples \<longleftrightarrow>
     runEntityID \<noteq> [] \<and> str_or_empty (gm_get triples (tw_LoopRunEntityID tw)) = runEntityID \<or> runID \<noteq> [] \<and> extractRunIDFromTriples tw triples = runID"

definition of_run :: "trajectory_framework \<Rightarrow> NATSToolResultResolver \<Rightarrow> string \<Rightarrow> string \<Rightarrow> string \<Rightarrow> string \<Rightarrow> bool" where
  "of_run tw r callerLoopID runID runEntityID loop \<longleftrightarrow>
     normalizeLoopID loop \<noteq> [] \<and>
     (normalizeLoopID loop = normalizeLoopID callerLoopID \<or>
      (\<exists>reader triples. nr_entityReader r = Some reader \<and> er_ReadEntity reader (toLoopEntityID tw r (normalizeLoopID loop)) = Inr triples \<and>
         names_run tw runID runEntityID triples))"

text \<open>The loop that is searched is the one the reference names, itself of the run, or one of those discovered.\<close>

definition in_scope :: "trajectory_framework \<Rightarrow> NATSToolResultResolver \<Rightarrow> tool_call \<Rightarrow> string \<Rightarrow> string \<Rightarrow> string \<Rightarrow> string \<Rightarrow> bool" where
  "in_scope tw r call hint runID runEntityID loop \<longleftrightarrow>
     (if hint \<noteq> [] then loop \<in> names {hint} \<and> of_run tw r (tc_LoopID call) runID runEntityID hint
      else (\<exists>loops. discoverRunLoopIDs tw r call runID = Some (Inr loops) \<and> loop \<in> names (set loops)))"

section \<open>Steps\<close>

lemma belongs_of_run: "belongsToCallerRun tw r callerLoopID runID runEntityID loop = Inr (True, x) \<Longrightarrow> of_run tw r callerLoopID runID runEntityID loop"
  by (auto simp: belongsToCallerRun_def of_run_def names_run_def Let_def split: if_splits option.splits sum.splits)

lemma read_body_evidence: "read_body tw r fct storageInstance key = Inr body \<Longrightarrow> evidence tw r fct storageInstance key body"
  by (auto simp: read_body_def evidence_def digest_agrees_def split: sum.splits if_splits option.splits)

lemma decoded_candidate:
  assumes "decodeTrajectoryCandidate tw r loop ref targetID bytes = Inr (Some cand)"
  shows "\<exists>fct storageInstance key body. tw_decodeFact tw bytes = Some fct \<and> tf_Kind fct = tw_ToolCompleted tw \<and> tf_Evidence fct = Some (storageInstance, key) \<and>
    evidence tw r fct storageInstance key body \<and> cand = candidate_of fct body loop ref \<and> matchesTargetID cand ref targetID"
  using assms read_body_evidence by (fastforce simp: decodeTrajectoryCandidate_def Let_def split: option.splits if_splits sum.splits prod.splits)

lemma candidates_of_keys_spec:
  "candidates_of_keys tw r kv loop ref targetID keys out = Inr out' \<Longrightarrow> c \<in> set out' \<Longrightarrow>
   c \<in> set out \<or> (\<exists>k \<in> set keys. \<exists>bytes. kv_Get kv k = KvFound bytes \<and> decodeTrajectoryCandidate tw r loop ref targetID bytes = Inr (Some c))"
proof (induction keys arbitrary: out)
  case (Cons k ks)
  show ?case
  proof (cases "kv_Get kv k")
    case (KvFound bytes)
    show ?thesis
    proof (cases "decodeTrajectoryCandidate tw r loop ref targetID bytes")
      case (Inr x)
      then show ?thesis using Cons.IH Cons.prems KvFound by (cases x) (fastforce split: if_splits)+
    qed (use Cons.prems KvFound in simp)
  qed (use Cons in auto)
qed simp

lemma candidates_of_loops_spec:
  "candidates_of_loops tw r kv ref targetID loops out = Inr out' \<Longrightarrow> c \<in> set out' \<Longrightarrow>
   c \<in> set out \<or> (\<exists>loop \<in> names (set loops). recorded tw r kv ref targetID loop c)"
proof (induction loops arbitrary: out)
  case (Cons l ls)
  show ?case
  proof (cases "normalizeLoopID l = []")
    case True
    then show ?thesis using Cons.IH Cons.prems by (auto simp: Let_def)
  next
    case False
    then have n: "normalizeLoopID l \<in> names (set (l # ls))" by (simp add: name_of_def)
    show ?thesis
    proof (cases "kv_FilteredKeys kv (tw_TrajectoryFactPrefix tw (normalizeLoopID l) @ ''>'')")
      case (KvFound keys)
      then obtain out1 where k: "candidates_of_keys tw r kv (normalizeLoopID l) ref targetID keys out = Inr out1" and
        rest: "candidates_of_loops tw r kv ref targetID ls out1 = Inr out'"
        using Cons.prems(1) False by (auto simp: Let_def split: sum.splits)
      have "c \<in> set out \<or> recorded tw r kv ref targetID (normalizeLoopID l) c" if "c \<in> set out1"
        using candidates_of_keys_spec [OF k that] KvFound decoded_candidate unfolding recorded_def by metis
      then show ?thesis using Cons.IH [OF rest Cons.prems(2)] n by auto
    qed (use Cons False in \<open>auto simp: Let_def\<close>)
  qed
qed simp

lemma pick_candidate_spec:
  "pick_candidate tw r ref loopID runID runEntityID alien cands = Inr res \<Longrightarrow>
   \<exists>cand \<in> set cands. \<exists>n. of_run tw r loopID runID runEntityID (rs_LoopID cand) \<and> resolveProducerLoopRevision tw r (rs_LoopID cand) = Inr n \<and>
     res = cand\<lparr>rs_ProducerRevision := n\<rparr>"
proof (induction cands arbitrary: alien)
  case (Cons cand cands)
  then obtain same x where b: "belongsToCallerRun tw r loopID runID runEntityID (rs_LoopID cand) = Inr (same, x)"
    by (auto split: sum.splits prod.splits)
  show ?case
  proof (cases same)
    case True
    then show ?thesis using Cons.prems b belongs_of_run [of tw r loopID runID runEntityID "rs_LoopID cand" x] by (auto split: sum.splits)
  next
    case False
    then show ?thesis using Cons.IH Cons.prems b by simp
  qed
qed simp

lemma scan_and_pick_spec:
  assumes "scan_and_pick tw r call ref targetID runID runEntityID loops = Inr res"
  shows "\<exists>kv loop cand n. getTrajectoryKV r = Inr kv \<and> loop \<in> names (set loops) \<and> recorded tw r kv ref targetID loop cand \<and>
    of_run tw r (tc_LoopID call) runID runEntityID (rs_LoopID cand) \<and> resolveProducerLoopRevision tw r (rs_LoopID cand) = Inr n \<and>
    res = cand\<lparr>rs_ProducerRevision := n\<rparr>"
proof -
  obtain kv cands where kv: "getTrajectoryKV r = Inr kv" and cands: "candidates_of_loops tw r kv ref targetID loops [] = Inr cands"
    and pick: "pick_candidate tw r ref (tc_LoopID call) runID runEntityID ([], []) cands = Inr res"
    using assms by (auto simp: scan_and_pick_def collectTrajectoryCandidatesForLoops_def split: sum.splits if_splits)
  from pick_candidate_spec [OF pick] candidates_of_loops_spec [OF cands] kv show ?thesis by fastforce
qed

section \<open>Resolution\<close>

text \<open>
  C14. A reference resolves only within the run of the caller: the result it resolves to is recorded by a completion
  fact of a loop that the reference names or the discovery found, its content is the evidence of that fact and has the digest
  the fact was written with, it answers to the id that was asked for, and the loop that produced it is the
  caller or names the run of the caller; only the revision of the producer is added.
\<close>

theorem resolution_sound:
  assumes "ResolveToolResult tw r call ref = Some (Inr res)"
  shows "\<exists>runID runEntityID kv loop cand n hint targetID.
     resolveCallerRun tw r call = Inr (runID, runEntityID) \<and> splitToolResultRef (TrimSpace ref) = (hint, targetID) \<and> getTrajectoryKV r = Inr kv \<and>
     in_scope tw r call (normalizeLoopID hint) runID runEntityID loop \<and> recorded tw r kv (TrimSpace ref) targetID loop cand \<and>
     of_run tw r (tc_LoopID call) runID runEntityID (rs_LoopID cand) \<and> resolveProducerLoopRevision tw r (rs_LoopID cand) = Inr n \<and>
     res = cand\<lparr>rs_ProducerRevision := n\<rparr>"
proof -
  obtain hint targetID where split: "splitToolResultRef (TrimSpace ref) = (hint, targetID)" by (cases "splitToolResultRef (TrimSpace ref)") auto
  obtain runID runEntityID where run: "resolveCallerRun tw r call = Inr (runID, runEntityID)"
    using assms by (auto simp: ResolveToolResult_def Let_def split split: if_splits sum.splits)
  have "\<exists>loops. scan_and_pick tw r call (TrimSpace ref) targetID runID runEntityID loops = Inr res \<and>
      (\<forall>loop \<in> names (set loops). in_scope tw r call (normalizeLoopID hint) runID runEntityID loop)"
  proof (cases "normalizeLoopID hint = []")
    case True
    then show ?thesis using assms run split
      by (auto simp: ResolveToolResult_def Let_def in_scope_def split: if_splits option.splits sum.splits)
  next
    case False
    then obtain x where "belongsToCallerRun tw r (tc_LoopID call) runID runEntityID (normalizeLoopID hint) = Inr (True, x)"
      "scan_and_pick tw r call (TrimSpace ref) targetID runID runEntityID [normalizeLoopID hint] = Inr res"
      using assms run split by (auto simp: ResolveToolResult_def Let_def split: if_splits sum.splits bool.splits)
    then show ?thesis using belongs_of_run False by (intro exI [of _ "[normalizeLoopID hint]"]) (auto simp: in_scope_def)
  qed
  then obtain loops where scan: "scan_and_pick tw r call (TrimSpace ref) targetID runID runEntityID loops = Inr res"
    and scope: "\<forall>loop \<in> names (set loops). in_scope tw r call (normalizeLoopID hint) runID runEntityID loop" by blast
  from scan_and_pick_spec [OF scan] obtain kv loop cand n where found: "getTrajectoryKV r = Inr kv" "loop \<in> names (set loops)"
    "recorded tw r kv (TrimSpace ref) targetID loop cand" "of_run tw r (tc_LoopID call) runID runEntityID (rs_LoopID cand)"
    "resolveProducerLoopRevision tw r (rs_LoopID cand) = Inr n" "res = cand\<lparr>rs_ProducerRevision := n\<rparr>" by blast
  moreover have "in_scope tw r call (normalizeLoopID hint) runID runEntityID loop" using scope found(2) by blast
  ultimately show ?thesis using run split
    by (intro exI [of _ runID] exI [of _ runEntityID] exI [of _ kv] exI [of _ loop] exI [of _ cand] exI [of _ n] exI [of _ hint] exI [of _ targetID] conjI)
qed

definition from_gatherer :: "(DerivationError + ResolvedToolResult) option \<Rightarrow> bool" where
  "from_gatherer x \<longleftrightarrow> (case x of Some (Inr res) \<Rightarrow> rs_LoopID res = ''g1'' \<and> rs_Content res = ''page'' \<and> rs_ProducerRevision res = 3 | _ \<Rightarrow> False)"

theorem resolution_sound_witness:
  "\<exists>res runID runEntityID. ResolveToolResult sample_tw sample_run_resolver sample_caller ''call-1'' = Some (Inr res) \<and> rs_LoopID res = ''g1'' \<and>
     of_run sample_tw sample_run_resolver ''s1'' runID runEntityID ''g1''"
proof -
  have "from_gatherer (ResolveToolResult sample_tw sample_run_resolver sample_caller ''call-1'')" by code_simp
  then obtain res where res: "ResolveToolResult sample_tw sample_run_resolver sample_caller ''call-1'' = Some (Inr res)" "rs_LoopID res = ''g1''"
    by (auto simp: from_gatherer_def split: option.splits sum.splits)
  from resolution_sound [OF res(1)] obtain runID runEntityID cand n
    where "of_run sample_tw sample_run_resolver (tc_LoopID sample_caller) runID runEntityID (rs_LoopID cand)" "res = cand\<lparr>rs_ProducerRevision := n\<rparr>" by blast
  moreover have "tc_LoopID sample_caller = ''s1''" by (simp add: sample_caller_def)
  ultimately have "of_run sample_tw sample_run_resolver ''s1'' runID runEntityID ''g1''" using res(2) by simp
  with res show ?thesis by blast
qed

end
