(* ===== verification/Spec2Isabelle.thy ===== *)
theory Spec2Isabelle
  imports
    Prelude Sha256 Go_Values Go_Json Go_Path
    Sandbox_Requirements Sandbox_Normalize Sandbox_Profile Sandbox_Admission Sandbox_Parse
    Sandbox_Attestation Sandbox_Manager Sandbox_Shell
    Chain_Pause Chain_Decision Slug Run_Anchor Port_Resolver Approval_Ledger Approval_Projection
    Go_Lines Openspec_Spec Openspec_Delta Openspec_Proposal Openspec_Design Openspec_Tasks Openspec_Folder
    Go_Json_Read Openspec_Facts Openspec_Change_Facts Openspec_Change_Roundtrip
    Tool_Call Emit_Change Emit_Change_Props Emit_Change_Graph Render_Openspec Portfolio
    Go_Time Research_Evidence Github_Client Github_Cursor Github_Read Github_Read_Props Github_Origins
    Research_Artifact Derive_Shell Derive_Match Derive_Verify Derive_Sound Derive_Resolve Derive_Lineage Derive_Run
begin

text \<open>
  A verification library of SemTeams, the product shell under \<^verbatim>\<open>src/cmd/semteams\<close> that runs chains of
  language-model agents on the SemStreams framework. The framework itself (message bus, graph store,
  agent loops) is not in the repository; what the code calls of it is an argument of the definitions
  here. Every definition translates the Go function it is named after, error branches and early
  returns included; Go's zero values, nil slices and nil pointers are kept where the code tells them
  apart.

  The parts, and how they interact. A chain of agents works on a run, an entity of the graph. When an
  agent needs a place to run commands it states requirements; the sandbox manager validates and
  normalises them, matches them with a profile, passes the admission gates, brings a container up,
  probes it and attests the result (\<^verbatim>\<open>sandboxmanager\<close>). A loop that fails pauses the chain, and an
  operator's decision resumes, kills or defers it (\<^verbatim>\<open>chainpause\<close>, \<^verbatim>\<open>chain\<close>). A tool call that needs a
  human's approval is recorded on the run under a compare-and-swap owner, and answered there
  (\<^verbatim>\<open>approvalpause\<close>). The artifacts a chain produces are OpenSpec documents, read from and written to
  change folders (\<^verbatim>\<open>openspec\<close>). Small shared services name things and find things: \<^verbatim>\<open>slug\<close>, \<^verbatim>\<open>runanchor\<close>,
  \<^verbatim>\<open>portresolver\<close>.

  Ground.
    \<^item> Prelude: bytes and strings as Go has them (a string is a list of bytes), trimming, case
      mapping, joining, quoting, validation loops over slices (locale element_check).
    \<^item> Sha256, Go_Json, Go_Values, Go_Path, Go_Lines: the parts of \<^verbatim>\<open>crypto/sha256\<close>, \<^verbatim>\<open>encoding/json\<close>,
      decoded \<^verbatim>\<open>any\<close> values and association-list maps, \<^verbatim>\<open>path/filepath\<close> and line-oriented text that the
      components use. Go_Json proves that encoding is injective; Go_Lines holds the locale
      document_format, the contract of a reader and writer of one document kind, and what follows
      from it (stability, canonical form).

  Sandbox (\<^verbatim>\<open>sandboxmanager\<close>).
    \<^item> Sandbox_Requirements (\<^verbatim>\<open>requirements.go\<close>): the requirement record, closed vocabularies, \<^verbatim>\<open>Validate\<close>
      with each error, probe names. Sandbox_Normalize: \<^verbatim>\<open>Normalize\<close>, \<^verbatim>\<open>Hash\<close>; normalisation is idempotent,
      and the hash input is equal exactly for requests that ask for the same capabilities.
    \<^item> Sandbox_Profile (\<^verbatim>\<open>profile.go\<close>, \<^verbatim>\<open>catalog_builtin.go\<close>): \<^verbatim>\<open>NewCatalog\<close>, \<^verbatim>\<open>Get\<close>, \<^verbatim>\<open>MatchProfile\<close>; the match is
      characterised as the first of the snuggest covering profiles, and the error by the least unmet.
    \<^item> Sandbox_Admission (\<^verbatim>\<open>admission.go\<close>): the five gates (locale gate, one interpretation each), the
      decision table, monotonicity in the operator's policy, the shape of the reasons.
    \<^item> Sandbox_Parse (\<^verbatim>\<open>parse.go\<close>): decoding of tool arguments, and that it inverts their encoding.
    \<^item> Sandbox_Attestation (\<^verbatim>\<open>attestation.go\<close>): verdict, freshness, graph triples.
    \<^item> Sandbox_Manager (\<^verbatim>\<open>manager.go\<close>, \<^verbatim>\<open>hash.go\<close>, \<^verbatim>\<open>runner_mock.go\<close>): \<^verbatim>\<open>New\<close>, \<^verbatim>\<open>Request\<close> and what it calls, with the
      runner and the publisher as arguments over an abstract world (locale folder_runner,
      interpreted on the mock runner); a ready attestation is earned, a gated request runs nothing.
    \<^item> Sandbox_Shell (\<^verbatim>\<open>runner_api.go\<close>, \<^verbatim>\<open>runner_cli.go\<close>): the shell quoting, with a word splitter of a
      POSIX shell as its specification.

  Chains (\<^verbatim>\<open>chainpause\<close>, \<^verbatim>\<open>chain\<close>).
    \<^item> Chain_Pause (\<^verbatim>\<open>pauser.go\<close>, \<^verbatim>\<open>entity_reader.go\<close>): what a failure records. Chain_Decision
      (\<^verbatim>\<open>decision_handler.go\<close>, \<^verbatim>\<open>http.go\<close>, \<^verbatim>\<open>middleware.go\<close>): the operator's verbs, their guards and HTTP status
      codes (locale decision_world, interpreted on a recording handler); the calls a decision makes, on any
      graph and task queue whose calls can be listed (locale decision_ports, interpreted on a network that
      may refuse them); a retry carries the role and model of the pause it answers.

  Approvals (\<^verbatim>\<open>approvalpause\<close>).
    \<^item> Approval_Ledger (\<^verbatim>\<open>projection.go\<close>, \<^verbatim>\<open>approvalFacts\<close> and helpers): the three predicates of a run refine
      an abstract ledger of observed and answered gates; events converge whatever their order
      (locale gate_store).
    \<^item> Approval_Projection (\<^verbatim>\<open>projection.go\<close>, \<^verbatim>\<open>pauser.go\<close>, \<^verbatim>\<open>subscriber.go\<close>): \<^verbatim>\<open>RecordApproval\<close> and its retry loop
      against a graph owner known only by its contract (locale cas_owner: rely, reads, conditional
      writes, receipts), interpreted on a concrete store with rival writers, lost requests and lost
      replies. The loop makes at most eight attempts, as in the code; it is structurally recursive
      in the attempts left, so it always returns.

  OpenSpec documents (\<^verbatim>\<open>openspec\<close>).
    \<^item> Openspec_Spec, Openspec_Delta, Openspec_Proposal, Openspec_Design, Openspec_Tasks (\<^verbatim>\<open>model*.go\<close>,
      \<^verbatim>\<open>parse.go\<close>, \<^verbatim>\<open>render.go\<close>): one reader and one writer each, the reader as a fold over the lines with the
      code's variables as its state; every document kind is an interpretation of document_format, and
      readers of scenarios share the locale scenario_reader. The round-trip contract is proved for
      documents without indented headings, and shown to lose text with one.
    \<^item> Openspec_Folder (\<^verbatim>\<open>change.go\<close>, \<^verbatim>\<open>RenderChangeFolder\<close>): a file system whose calls may fail half way,
      \<^verbatim>\<open>ReadChange\<close>, \<^verbatim>\<open>WriteChange\<close>, \<^verbatim>\<open>ReadSpecs\<close>, \<^verbatim>\<open>WriteSpecs\<close>; what is written is read back, and no capability
      name leaves the folder, whatever fails.

    \<^item> Go_Json_Read: \<^verbatim>\<open>encoding/json\<close> reading, a scanner and a stack machine over tokens; what Go_Json writes it
      reads back. Openspec_Facts (\<^verbatim>\<open>facts.go\<close>), Openspec_Change_Facts (\<^verbatim>\<open>facts_change.go\<close>): specs and changes as facts of
      the graph, and the reading of a spec from its facts in whatever order the map is walked, other facts
      beside them; ids that collide lose requirements.
      Openspec_Change_Roundtrip: a change is read back from its facts, facts of other writers beside it.

  Tools (\<^verbatim>\<open>tools\<close>) and the portfolio (\<^verbatim>\<open>portfolio\<close>).
    \<^item> Tool_Call: the call of a tool, its result with an error class, strict decoding of arguments.
    \<^item> Emit_Change (\<^verbatim>\<open>tools/emitchange/payload.go\<close>, \<^verbatim>\<open>executor.go\<close>): the payload of a change, its validation branch by
      branch, its projection on the change model and its triples. Emit_Change_Props: what is accepted,
      exactly. Emit_Change_Graph: what is stamped reads back, and the requirement a task names is there.
    \<^item> Render_Openspec (\<^verbatim>\<open>tools/renderopenspec/executor.go\<close>): the reader of the change, and the two tools
      together over a graph that keeps what is published.
    \<^item> Portfolio (\<^verbatim>\<open>portfolio/portfolio.go\<close>): the tree of programs, projects and repositories, its validation and
      the resolution of a scope.

  Reading GitHub (\<^verbatim>\<open>tools/githubread\<close>, \<^verbatim>\<open>research\<close>).
    \<^item> Go_Time: the calendar, and the reading of RFC 3339 times, which inverts their writing.
    \<^item> Research_Evidence (\<^verbatim>\<open>research/evidence.go\<close>): the evidence record, its validations, and the canonical origin
      of a locator.
    \<^item> Github_Client (\<^verbatim>\<open>client.go\<close>): the requests and the decoding of the replies, over an abstract transport.
    \<^item> Github_Cursor (\<^verbatim>\<open>cursor.go\<close>): what has been read of a stream, staged by a run and committed with it, as
      a step relation over the store; a run that does not commit leaves what was read unread.
    \<^item> Github_Read (\<^verbatim>\<open>executor.go\<close>): the tool. Github_Read_Props: what a read delivers before and after a
      commit, that it stays in the portfolio, and that of two runs that overlap the later commit undoes
      the earlier. Github_Origins: which items share an identity.

  Citing evidence (\<^verbatim>\<open>research/artifact.go\<close>, \<^verbatim>\<open>tools/emitartifact/derivation.go\<close>).
    \<^item> Research_Artifact: the artifact of a research pass, the defaults of its citations and its validation.
    \<^item> Derive_Shell: which shell commands count as retrieval: splitting out of quotes, the base command, the
      allowed pipe filters. The reading of the same text by a shell is defined beside it: a plain text that
      is accepted runs clients and filters only, but with a quote, a backslash or an equals sign in a path
      any command passes.
    \<^item> Derive_Match: where a locator and a quote are looked for in a result; a locator matches only where it
      stands alone.
    \<^item> Derive_Verify: \<^verbatim>\<open>verifyCitationAgainstResult\<close> and the shapes of results it tells apart: record
      envelopes, search results, lists of items, single resources, files of a workspace.
    \<^item> Derive_Sound: the walk over an artifact with its cache of resolved results; an artifact that is
      accepted cites, for every piece of evidence, a result that resolves and supports the citation, and is
      changed in the revision, the time and the kind only, to values that are given.
    \<^item> Derive_Resolve: the resolver of tool results: the lineage of the caller, the loops of its run, the facts of
      their trajectories with their digests, and the choice of a candidate. The stores are read as
      they are during one resolution. The discovery of the loops of a run is a partial function, None where
      it does not end. Derive_Lineage: on a finite graph, cycles included, it ends and finds the whole
      lineage. Derive_Run: a result that resolves is recorded by a loop of the run, with its digest.

  Names: Slug (\<^verbatim>\<open>slug.go\<close>), Run_Anchor (\<^verbatim>\<open>runanchor.go\<close>), Port_Resolver (\<^verbatim>\<open>portresolver.go\<close>).

  Bounds and conventions. Go's int is an integer where no operation of the code can overflow it, words
  are used in Sha256 and the FNV hash. \<^verbatim>\<open>strings.ToLower\<close>, \<^verbatim>\<open>strings.TrimSpace\<close> and \<^verbatim>\<open>%q\<close> are modelled on ASCII: bytes
  above 127 are kept as they are, so Unicode case and Unicode blanks are outside the model. Times are
  nanoseconds since the zero time. A map is an association list without repeated keys where its order
  does not matter. The world the effects act on is a type variable, threaded through.

  Not modelled: the wiring in \<^verbatim>\<open>main.go\<close> and its siblings, NATS subscription loops, the sandbox
  server's processes, the other tool executors under \<^verbatim>\<open>tools\<close>, the file under the cursor
  store, the containment rules of \<^verbatim>\<open>research\<close>, the executor of \<^verbatim>\<open>tools/emitartifact\<close> and the adapters of its NATS stores, \<^verbatim>\<open>devviaspec\<close>, \<^verbatim>\<open>semsource\<close>, \<^verbatim>\<open>vocab\<close>, the OpenAPI generator, test mocks and the TypeScript user interface. Most of
  these are calls of the framework.
\<close>

end
